(* ===== verification/Prelude.thy ===== *)
theory Prelude
  imports Main "HOL-Library.List_Lexorder" "HOL-Library.Char_ord" "HOL-Library.Word"
begin

text \<open>
  Shared vocabulary of the development: results with an error value (Rust's
  \<open>Result\<close> and the question-mark operator), the ordered map that stands for
  \<open>std::collections::BTreeMap\<close>, the interface the other theories use it through, and
  the interface of a printable enumeration (\<open>Display\<close> with \<open>FromStr\<close>).
\<close>

section \<open>Collections of rules\<close>

named_theorems str_simps "evaluation of the string operations"
named_theorems codec "print/parse pairs of the model's enumerations"
named_theorems frame_simps "fields an operation leaves alone"

section \<open>Results\<close>

text \<open>
  A fallible operation returns \<open>Inl\<close> of its error or \<open>Inr\<close> of its value.
  \<open>res_bind\<close> is Rust's question-mark operator: the first error ends the function.
\<close>

type_synonym 'a res = "string + 'a"

definition res_bind :: "'e + 'a \<Rightarrow> ('a \<Rightarrow> 'e + 'b) \<Rightarrow> 'e + 'b" where
  "res_bind r f = (case r of Inl e \<Rightarrow> Inl e | Inr x \<Rightarrow> f x)"

lemma res_bind_simps [simp]:
  "res_bind (Inl e) f = Inl e"
  "res_bind (Inr x) f = f x"
  by (simp_all add: res_bind_def)

lemma res_bind_Inr_iff: "res_bind r f = Inr y \<longleftrightarrow> (\<exists>x. r = Inr x \<and> f x = Inr y)"
  by (cases r) auto

lemma res_bind_Inl_iff:
  "res_bind r f = Inl e \<longleftrightarrow> r = Inl e \<or> (\<exists>x. r = Inr x \<and> f x = Inl e)"
  by (cases r) auto

text \<open>\<open>Option::ok_or_else\<close>.\<close>

definition ok_or :: "'e \<Rightarrow> 'a option \<Rightarrow> 'e + 'a" where
  "ok_or e x = (case x of None \<Rightarrow> Inl e | Some a \<Rightarrow> Inr a)"

lemma ok_or_simps [simp]: "ok_or e None = Inl e" "ok_or e (Some a) = Inr a"
  by (simp_all add: ok_or_def)

lemma ok_or_iff [simp]: "ok_or e x = Inr a \<longleftrightarrow> x = Some a"
  by (cases x) auto

text \<open>\<open>Result::ok\<close>.\<close>

definition res_ok :: "'e + 'a \<Rightarrow> 'a option" where
  "res_ok r = (case r of Inl _ \<Rightarrow> None | Inr a \<Rightarrow> Some a)"

lemma res_ok_simps [simp]: "res_ok (Inl e) = None" "res_ok (Inr a) = Some a"
  by (simp_all add: res_ok_def)

lemma res_ok_iff [simp]: "res_ok r = Some a \<longleftrightarrow> r = Inr a"
  by (cases r) auto

section \<open>Ordered maps\<close>

lemma map_of_same_keys:
  assumes "map fst xs = map fst ys" and "map_of xs = map_of ys" and "distinct (map fst xs)"
  shows "xs = ys"
proof (rule nth_equalityI)
  show len: "length xs = length ys"
    using assms(1) by (metis length_map)
  fix i assume i: "i < length xs"
  have "map_of xs (fst (xs ! i)) = Some (snd (xs ! i))"
    using assms(3) i by (simp add: map_of_eq_Some_iff)
  moreover have "map_of ys (fst (ys ! i)) = Some (snd (ys ! i))"
    using assms(1,3) i len by (simp add: map_of_eq_Some_iff)
  moreover have "fst (xs ! i) = fst (ys ! i)"
    using assms(1) i len by (metis nth_map)
  ultimately show "xs ! i = ys ! i"
    using assms(2) by (simp add: prod_eq_iff)
qed

text \<open>
  The interface of \<open>BTreeMap\<close> that the program relies on: lookup after insert and
  remove, and iteration in increasing key order. Two well-formed maps with the same
  lookup are iterated in the same way.
\<close>

locale ordered_map =
  fixes empty :: "'m"
    and get :: "'m \<Rightarrow> 'k::linorder \<Rightarrow> 'v option"
    and insert :: "'k \<Rightarrow> 'v \<Rightarrow> 'm \<Rightarrow> 'm"
    and remove :: "'k \<Rightarrow> 'm \<Rightarrow> 'm"
    and entries :: "'m \<Rightarrow> ('k \<times> 'v) list"
    and ok :: "'m \<Rightarrow> bool"
  assumes get_empty: "get empty k = None"
    and get_insert: "ok m \<Longrightarrow> get (insert k v m) j = (if j = k then Some v else get m j)"
    and get_remove: "ok m \<Longrightarrow> get (remove k m) j = (if j = k then None else get m j)"
    and get_entries: "ok m \<Longrightarrow> map_of (entries m) = get m"
    and entries_ok: "ok m \<Longrightarrow> sorted_wrt (<) (map fst (entries m))"
    and ok_empty: "ok empty"
    and ok_insert: "ok m \<Longrightarrow> ok (insert k v m)"
    and ok_remove: "ok m \<Longrightarrow> ok (remove k m)"
begin

lemma distinct_keys: "ok m \<Longrightarrow> distinct (map fst (entries m))"
  using entries_ok strict_sorted_iff by blast

lemma set_entries: "ok m \<Longrightarrow> (k, v) \<in> set (entries m) \<longleftrightarrow> get m k = Some v"
  using distinct_keys get_entries by (metis map_of_eq_Some_iff)

lemma key_in_entries: "ok m \<Longrightarrow> k \<in> fst ` set (entries m) \<longleftrightarrow> get m k \<noteq> None"
  by (metis get_entries map_of_eq_None_iff)

lemma entries_ext:
  assumes "ok m" and "ok m'" and "\<And>k. get m k = get m' k"
  shows "entries m = entries m'"
proof -
  have "fst ` set (entries m') = fst ` set (entries m)"
    using assms key_in_entries by (metis (no_types) subsetI subset_antisym)
  then have keys: "map fst (entries m) = map fst (entries m')"
    using assms entries_ok by (auto intro: strict_sorted_equal)
  have "map_of (entries m) = map_of (entries m')"
    using assms get_entries by (metis ext)
  with keys show ?thesis
    using assms(1) distinct_keys by (auto intro: map_of_same_keys)
qed

lemma length_entries: "ok m \<Longrightarrow> length (entries m) = card {k. get m k \<noteq> None}"
proof -
  assume m: "ok m"
  then have "{k. get m k \<noteq> None} = set (map fst (entries m))"
    using key_in_entries by fastforce
  then show ?thesis
    using m distinct_keys distinct_card by fastforce
qed

end

subsection \<open>The ordered map of the model\<close>

text \<open>
  A \<open>BTreeMap\<close> is the list of its entries in increasing key order. For string keys
  the order is the one of the library theories \<open>List_Lexorder\<close> and \<open>Char_ord\<close>:
  bytewise lexicographic, as Rust orders \<open>str\<close>.
\<close>

type_synonym ('k, 'v) btree = "('k \<times> 'v) list"

fun bt_get :: "('k::linorder, 'v) btree \<Rightarrow> 'k \<Rightarrow> 'v option" where
  "bt_get [] k = None"
| "bt_get ((a, b) # m) k = (if k = a then Some b else bt_get m k)"

fun bt_insert :: "'k::linorder \<Rightarrow> 'v \<Rightarrow> ('k, 'v) btree \<Rightarrow> ('k, 'v) btree" where
  "bt_insert k v [] = [(k, v)]"
| "bt_insert k v ((a, b) # m) =
     (if k = a then (k, v) # m
      else if k < a then (k, v) # (a, b) # m
      else (a, b) # bt_insert k v m)"

fun bt_remove :: "'k::linorder \<Rightarrow> ('k, 'v) btree \<Rightarrow> ('k, 'v) btree" where
  "bt_remove k [] = []"
| "bt_remove k ((a, b) # m) = (if k = a then m else (a, b) # bt_remove k m)"

definition bt_retain :: "('k \<Rightarrow> 'v \<Rightarrow> bool) \<Rightarrow> ('k, 'v) btree \<Rightarrow> ('k, 'v) btree" where
  "bt_retain keep m = filter (\<lambda>(k, v). keep k v) m"

definition bt_ok :: "('k::linorder, 'v) btree \<Rightarrow> bool" where
  "bt_ok m \<longleftrightarrow> sorted_wrt (<) (map fst m)"

text \<open>\<open>values_mut\<close> over a map: every value is replaced, the keys stay.\<close>

definition bt_map_values :: "('v \<Rightarrow> 'w) \<Rightarrow> ('k, 'v) btree \<Rightarrow> ('k, 'w) btree" where
  "bt_map_values f m = map (\<lambda>(k, v). (k, f v)) m"

lemma bt_ok_Nil [simp]: "bt_ok []"
  by (simp add: bt_ok_def)

lemma bt_ok_Cons: "bt_ok ((a, b) # m) \<longleftrightarrow> (\<forall>k \<in> fst ` set m. a < k) \<and> bt_ok m"
  by (auto simp: bt_ok_def)

lemma bt_get_map_of: "bt_get m = map_of m"
  by (rule ext, induction m) auto

lemma bt_get_insert [simp]: "bt_get (bt_insert k v m) j = (if j = k then Some v else bt_get m j)"
  by (induction k v m rule: bt_insert.induct) auto

lemma set_bt_insert: "fst ` set (bt_insert k v m) = Set.insert k (fst ` set m)"
  by (induction k v m rule: bt_insert.induct) auto

lemma bt_ok_insert [intro, simp]: "bt_ok m \<Longrightarrow> bt_ok (bt_insert k v m)"
proof (induction k v m rule: bt_insert.induct)
  case (1 k v)
  then show ?case by (simp add: bt_ok_Cons)
next
  case (2 k v a b m)
  then show ?case
    by (force simp: bt_ok_Cons set_bt_insert)
qed

lemma set_bt_remove_subset: "set (bt_remove k m) \<subseteq> set m"
  by (induction m rule: bt_remove.induct) auto

lemma bt_ok_remove [intro, simp]: "bt_ok m \<Longrightarrow> bt_ok (bt_remove k m)"
  by (induction m rule: bt_remove.induct)
    (auto simp: bt_ok_Cons dest!: subsetD [OF set_bt_remove_subset])

lemma bt_get_None: "bt_get m k = None \<longleftrightarrow> k \<notin> fst ` set m"
  by (simp add: bt_get_map_of map_of_eq_None_iff)

lemma bt_get_remove: "bt_ok m \<Longrightarrow> bt_get (bt_remove k m) j = (if j = k then None else bt_get m j)"
proof (induction k m rule: bt_remove.induct)
  case (2 k a b m)
  then have "a \<notin> fst ` set m" by (auto simp: bt_ok_Cons)
  then have "bt_get m a = None" by (simp add: bt_get_None)
  then show ?case
    using 2 by (auto simp: bt_ok_Cons)
qed simp

interpretation bt: ordered_map "[]" bt_get bt_insert bt_remove "\<lambda>m. m" bt_ok
  by unfold_locales (simp_all add: bt_get_remove bt_get_map_of [symmetric] bt_ok_def [symmetric])

lemma bt_insert_same_keys:
  "bt_ok m \<Longrightarrow> bt_get m k = Some w \<Longrightarrow> map fst (bt_insert k v m) = map fst m"
proof (induction k v m rule: bt_insert.induct)
  case (2 k v a b m)
  show ?case
  proof (cases "k = a")
    case False
    with "2.prems" have "bt_get m k = Some w" by simp
    then have "k \<in> fst ` set m" by (metis bt_get_None option.distinct(1))
    then have "\<not> k < a" using "2.prems" by (auto simp: bt_ok_Cons)
    then show ?thesis using 2 False by (auto simp: bt_ok_Cons)
  qed simp
qed simp

lemma bt_ok_retain [intro, simp]: "bt_ok m \<Longrightarrow> bt_ok (bt_retain keep m)"
  by (induction m) (auto simp: bt_retain_def bt_ok_Cons)

lemma bt_get_retain:
  "bt_ok m \<Longrightarrow> bt_get (bt_retain keep m) k =
     (case bt_get m k of None \<Rightarrow> None | Some v \<Rightarrow> if keep k v then Some v else None)"
proof (induction m)
  case (Cons p m)
  obtain a b where p: "p = (a, b)" by force
  from Cons.prems p have "bt_ok m" and less: "\<forall>j \<in> fst ` set m. a < j"
    by (auto simp: bt_ok_Cons)
  then have IH: "bt_get (bt_retain keep m) k =
      (case bt_get m k of None \<Rightarrow> None | Some v \<Rightarrow> if keep k v then Some v else None)"
    using Cons.IH by blast
  have "a \<notin> fst ` set m" using less by auto
  then have "bt_get m a = None" by (simp add: bt_get_None)
  then show ?case
    using IH p by (auto simp: bt_retain_def)
qed (simp add: bt_retain_def)

lemma bt_map_values_simps [simp]:
  "map fst (bt_map_values f m) = map fst m"
  "length (bt_map_values f m) = length m"
  "bt_ok (bt_map_values f m) = bt_ok m"
  by (auto simp: bt_map_values_def bt_ok_def o_def case_prod_beta')

lemma bt_get_map_values: "bt_get (bt_map_values f m) k = map_option f (bt_get m k)"
  by (induction m) (auto simp: bt_map_values_def)

lemma bt_insert_append:
  "(\<And>a. a \<in> fst ` set m \<Longrightarrow> a < k) \<Longrightarrow> bt_insert k v m = m @ [(k, v)]"
proof (induction m)
  case (Cons p m)
  obtain a b where "p = (a, b)" by force
  then show ?case using Cons by (force dest: less_asym)
qed simp

section \<open>Print/parse pairs\<close>

text \<open>
  The contract of a type with \<open>Display\<close> and \<open>FromStr\<close>: what is printed parses back.
  \<open>clean\<close> is what the sidecar files need of a printed value: it stays on one line.
\<close>

locale str_codec =
  fixes print :: "'a \<Rightarrow> string"
    and parse :: "string \<Rightarrow> 'a option"
    and valid :: "'a \<Rightarrow> bool"
  assumes parse_print: "valid x \<Longrightarrow> parse (print x) = Some x"
begin

lemma print_inject: "valid x \<Longrightarrow> valid y \<Longrightarrow> print x = print y \<Longrightarrow> x = y"
  by (metis option.inject parse_print)

lemma parse_print_case:
  "valid x \<Longrightarrow> (case parse (print x) of None \<Rightarrow> a | Some y \<Rightarrow> f y) = f x"
  by (simp add: parse_print)

end

text \<open>A type whose parser accepts nothing but what the printer writes.\<close>

locale exact_codec = str_codec +
  assumes print_parse: "parse s = Some x \<Longrightarrow> valid x \<and> print x = s"
begin

lemma parse_inject: "parse s = Some x \<Longrightarrow> parse t = Some x \<Longrightarrow> s = t"
  using print_parse by metis

lemma parse_iff: "parse s = Some x \<longleftrightarrow> valid x \<and> s = print x"
  using print_parse parse_print by metis

end

end
