(* ===== verification/Rust_Str.thy ===== *)
theory Rust_Str
  imports Prelude
begin

text \<open>
  The operations of Rust's \<open>str\<close> and integer parsing that the program calls. A
  \<open>str\<close> is the list of its UTF-8 bytes (\<open>string\<close> is \<open>char list\<close> and a
  \<open>char\<close> is a byte), so \<open>length\<close> is \<open>str::len\<close> and slicing is by byte
  positions. Every function below is meant on valid UTF-8, which is what a \<open>str\<close> holds.
\<close>

section \<open>Characters\<close>

abbreviation nl :: char where "nl \<equiv> CHR 0x0A"
abbreviation cr :: char where "cr \<equiv> CHR 0x0D"
abbreviation tab :: char where "tab \<equiv> CHR 0x09"
abbreviation sp :: char where "sp \<equiv> CHR 0x20"

definition byte :: "char \<Rightarrow> nat" where
  "byte c = of_char c"

definition is_digit :: "char \<Rightarrow> bool" where
  "is_digit c \<longleftrightarrow> 48 \<le> byte c \<and> byte c \<le> 57"

definition is_lower :: "char \<Rightarrow> bool" where
  "is_lower c \<longleftrightarrow> 97 \<le> byte c \<and> byte c \<le> 122"

definition is_upper :: "char \<Rightarrow> bool" where
  "is_upper c \<longleftrightarrow> 65 \<le> byte c \<and> byte c \<le> 90"

definition to_lower :: "char \<Rightarrow> char" where
  "to_lower c = (if is_upper c then char_of (byte c + 32) else c)"

text \<open>\<open>str::eq_ignore_ascii_case\<close>.\<close>

definition eq_ignore_case :: "string \<Rightarrow> string \<Rightarrow> bool" where
  "eq_ignore_case s t \<longleftrightarrow> map to_lower s = map to_lower t"

section \<open>Trimming\<close>

text \<open>
  \<open>char::is_whitespace\<close> is Unicode's \<open>White_Space\<close>: six ASCII bytes, two code
  points of two bytes (U+0085 and U+00A0) and seventeen of three bytes.
\<close>

definition ws1 :: "char \<Rightarrow> bool" where
  "ws1 c \<longleftrightarrow> c = sp \<or> (9 \<le> byte c \<and> byte c \<le> 13)"

definition ws2 :: "char \<Rightarrow> char \<Rightarrow> bool" where
  "ws2 a b \<longleftrightarrow> byte a = 0xC2 \<and> (byte b = 0x85 \<or> byte b = 0xA0)"

definition ws3 :: "char \<Rightarrow> char \<Rightarrow> char \<Rightarrow> bool" where
  "ws3 a b c \<longleftrightarrow>
     (byte a = 0xE1 \<and> byte b = 0x9A \<and> byte c = 0x80) \<or>
     (byte a = 0xE2 \<and> byte b = 0x80 \<and>
        ((0x80 \<le> byte c \<and> byte c \<le> 0x8A) \<or> byte c = 0xA8 \<or> byte c = 0xA9 \<or> byte c = 0xAF)) \<or>
     (byte a = 0xE2 \<and> byte b = 0x81 \<and> byte c = 0x9F) \<or>
     (byte a = 0xE3 \<and> byte b = 0x80 \<and> byte c = 0x80)"

text \<open>Drops leading whitespace; \<open>w2\<close> and \<open>w3\<close> recognise the longer encodings.\<close>

fun drop_ws :: "(char \<Rightarrow> char \<Rightarrow> bool) \<Rightarrow> (char \<Rightarrow> char \<Rightarrow> char \<Rightarrow> bool) \<Rightarrow> string \<Rightarrow> string" where
  "drop_ws w2 w3 [] = []"
| "drop_ws w2 w3 [a] = (if ws1 a then [] else [a])"
| "drop_ws w2 w3 [a, b] =
     (if ws1 a then drop_ws w2 w3 [b] else if w2 a b then [] else [a, b])"
| "drop_ws w2 w3 (a # b # c # s) =
     (if ws1 a then drop_ws w2 w3 (b # c # s)
      else if w2 a b then drop_ws w2 w3 (c # s)
      else if w3 a b c then drop_ws w2 w3 s
      else a # b # c # s)"

definition trim_start :: "string \<Rightarrow> string" where
  "trim_start = drop_ws ws2 ws3"

definition trim_end :: "string \<Rightarrow> string" where
  "trim_end s = rev (drop_ws (\<lambda>a b. ws2 b a) (\<lambda>a b c. ws3 c b a) (rev s))"

definition trim :: "string \<Rightarrow> string" where
  "trim s = trim_end (trim_start s)"

text \<open>A string that starts and ends with a printable ASCII byte is its own trimming.\<close>

definition graphic :: "char \<Rightarrow> bool" where
  "graphic c \<longleftrightarrow> 33 \<le> byte c \<and> byte c \<le> 126"

lemma byte_sp [simp]: "byte sp = 32"
  by (simp add: byte_def)

lemma graphic_not_ws1: "graphic c \<Longrightarrow> \<not> ws1 c"
  by (auto simp: graphic_def ws1_def)

lemma drop_ws_id:
  assumes "\<And>a b. graphic a \<Longrightarrow> \<not> w2 a b" and "\<And>a b c. graphic a \<Longrightarrow> \<not> w3 a b c"
    and "s = [] \<or> graphic (hd s)"
  shows "drop_ws w2 w3 s = s"
  using assms by (cases "(w2, w3, s)" rule: drop_ws.cases) (auto simp: graphic_not_ws1)

lemma trim_start_id: "s = [] \<or> graphic (hd s) \<Longrightarrow> trim_start s = s"
  unfolding trim_start_def by (rule drop_ws_id) (auto simp: graphic_def ws2_def ws3_def)

lemma trim_end_id: "s = [] \<or> graphic (last s) \<Longrightarrow> trim_end s = s"
proof -
  assume "s = [] \<or> graphic (last s)"
  then have "rev s = [] \<or> graphic (hd (rev s))" by (simp add: hd_rev)
  then have "drop_ws (\<lambda>a b. ws2 b a) (\<lambda>a b c. ws3 c b a) (rev s) = rev s"
    by (intro drop_ws_id) (auto simp: graphic_def ws2_def ws3_def)
  then show ?thesis by (simp add: trim_end_def)
qed

lemma drop_ws_keeps:
  assumes "\<And>a b. w2 a b \<Longrightarrow> \<not> graphic a \<and> \<not> graphic b"
    and "\<And>a b c. w3 a b c \<Longrightarrow> \<not> graphic a \<and> \<not> graphic b \<and> \<not> graphic c"
    and "graphic c" and "c \<in> set s"
  shows "c \<in> set (drop_ws w2 w3 s)"
  using assms by (induction w2 w3 s rule: drop_ws.induct) (auto simp: graphic_not_ws1)

lemma trim_keeps: "c \<in> set (trim s)" if "graphic c" and "c \<in> set s"
proof -
  have "c \<in> set (trim_start s)"
    unfolding trim_start_def using that
    by (elim drop_ws_keeps [rotated 2]) (auto simp: graphic_def ws2_def ws3_def)
  then have "c \<in> set (drop_ws (\<lambda>a b. ws2 b a) (\<lambda>a b c. ws3 c b a) (rev (trim_start s)))"
    using that(1)
    by (intro drop_ws_keeps) (auto simp: graphic_def ws2_def ws3_def)
  then show ?thesis
    by (simp add: trim_def trim_end_def)
qed

lemma trim_nonempty: "graphic c \<Longrightarrow> c \<in> set s \<Longrightarrow> trim s \<noteq> []"
  using trim_keeps by fastforce

section \<open>Prefixes, suffixes and searching\<close>

definition strip_prefix :: "string \<Rightarrow> string \<Rightarrow> string option" where
  "strip_prefix p s = (if take (length p) s = p then Some (drop (length p) s) else None)"

definition strip_suffix :: "string \<Rightarrow> string \<Rightarrow> string option" where
  "strip_suffix p s = map_option rev (strip_prefix (rev p) (rev s))"

definition starts_with :: "string \<Rightarrow> string \<Rightarrow> bool" where
  "starts_with p s \<longleftrightarrow> take (length p) s = p"

definition ends_with :: "string \<Rightarrow> string \<Rightarrow> bool" where
  "ends_with p s \<longleftrightarrow> starts_with (rev p) (rev s)"

text \<open>\<open>str::find\<close> for a pattern: the byte position of its first occurrence.\<close>

fun str_find :: "string \<Rightarrow> string \<Rightarrow> nat option" where
  "str_find p [] = (if p = [] then Some 0 else None)"
| "str_find p (c # s) =
     (if starts_with p (c # s) then Some 0 else map_option Suc (str_find p s))"

definition str_contains :: "string \<Rightarrow> string \<Rightarrow> bool" where
  "str_contains s p \<longleftrightarrow> str_find p s \<noteq> None"

lemma strip_prefix_append [simp]: "strip_prefix p (p @ s) = Some s"
  by (simp add: strip_prefix_def)

lemma strip_prefix_Some_iff: "strip_prefix p s = Some t \<longleftrightarrow> s = p @ t"
  by (auto simp: strip_prefix_def) (metis append_take_drop_id)

lemma strip_prefix_Nil [simp]: "strip_prefix (c # p) [] = None"
  by (simp add: strip_prefix_def)

lemma strip_prefix_Cons [simp]:
  "strip_prefix (c # p) (d # s) = (if c = d then strip_prefix p s else None)"
  by (simp add: strip_prefix_def)

lemma strip_prefix_empty [simp]: "strip_prefix [] s = Some s"
  by (simp add: strip_prefix_def)

lemma starts_with_Nil [simp]: "starts_with [] s"
  by (simp add: starts_with_def)

lemma starts_with_Cons [simp]:
  "starts_with (c # p) [] = False"
  "starts_with (c # p) (d # s) = (c = d \<and> starts_with p s)"
  by (auto simp: starts_with_def)

lemma starts_with_append [simp]: "starts_with p (p @ s)"
  by (simp add: starts_with_def)

lemma str_find_notin: "c \<notin> set s \<Longrightarrow> str_find [c] s = None"
  by (induction s) auto

lemma str_find_char: "c \<notin> set s \<Longrightarrow> str_find [c] (s @ c # t) = Some (length s)"
  by (induction s) auto

lemma str_contains_char [simp]: "str_contains s [c] \<longleftrightarrow> c \<in> set s"
  unfolding str_contains_def by (induction s) auto

lemma str_find_two: "c \<notin> set s \<Longrightarrow> str_find [c, d] (s @ c # d # t) = Some (length s)"
  by (induction s) auto

text \<open>What the searches find: an occurrence of the pattern, the first one.\<close>

definition occurs :: "string \<Rightarrow> string \<Rightarrow> bool" where
  "occurs p s \<longleftrightarrow> (\<exists>l r. s = l @ p @ r)"

lemma starts_with_iff: "starts_with p s \<longleftrightarrow> (\<exists>r. s = p @ r)"
  unfolding starts_with_def by (metis append_eq_conv_conj append_take_drop_id)

lemma occurs_Cons: "occurs p (c # s) \<longleftrightarrow> starts_with p (c # s) \<or> occurs p s"
proof -
  have "occurs p (c # s) \<Longrightarrow> starts_with p (c # s) \<or> occurs p s"
    unfolding occurs_def starts_with_iff by (metis append_Nil append_eq_Cons_conv)
  moreover have "starts_with p (c # s) \<Longrightarrow> occurs p (c # s)"
    unfolding occurs_def starts_with_iff by (metis append_Nil)
  moreover have "occurs p s \<Longrightarrow> occurs p (c # s)"
    unfolding occurs_def by (metis append_Cons)
  ultimately show ?thesis by blast
qed

lemma str_find_occurs: "str_find p s = None \<longleftrightarrow> \<not> occurs p s"
  by (induction s) (auto simp: occurs_Cons, auto simp: occurs_def)

lemma str_find_Some:
  "str_find p s = Some i \<Longrightarrow> s = take i s @ p @ drop (i + length p) s \<and> (\<forall>l r. s = l @ p @ r \<longrightarrow> i \<le> length l)"
proof (induction s arbitrary: i)
  case step: (Cons c s)
  show ?case
  proof (cases "starts_with p (c # s)")
    case True
    then show ?thesis using step.prems by (auto simp: starts_with_iff)
  next
    case False
    obtain j where j: "str_find p s = Some j" "i = Suc j" using step.prems False by auto
    have "i \<le> length l" if "c # s = l @ p @ r" for l r
    proof (cases l)
      case Nil
      then show ?thesis using that False by (metis append_Nil starts_with_append)
    next
      case (Cons a l')
      then have "s = l' @ p @ r" using that by simp
      then have "j \<le> length l'" using step.IH [OF j(1)] by blast
      then show ?thesis using j(2) Cons by (simp only: list.size)
    qed
    then show ?thesis using step.IH [OF j(1)] j(2) by auto
  qed
qed (simp split: if_splits)

lemma str_contains_iff: "str_contains s p \<longleftrightarrow> (\<exists>u v. s = u @ p @ v)"
  by (simp add: str_contains_def str_find_occurs occurs_def)

section \<open>Lines\<close>

text \<open>
  \<open>str::lines\<close>: a line ends at a newline, the last line need not; a carriage return
  is dropped only where it stands right before a newline.
\<close>

definition chomp_cr :: "string \<Rightarrow> string" where
  "chomp_cr s = (case strip_suffix [cr] s of None \<Rightarrow> s | Some t \<Rightarrow> t)"

fun lines_from :: "string \<Rightarrow> string \<Rightarrow> string list" where
  "lines_from acc [] = (if acc = [] then [] else [rev acc])"
| "lines_from acc (c # s) =
     (if c = nl then chomp_cr (rev acc) # lines_from [] s else lines_from (c # acc) s)"

definition str_lines :: "string \<Rightarrow> string list" where
  "str_lines s = lines_from [] s"

text \<open>\<open>str::split\<close> on a character.\<close>

fun split_char :: "char \<Rightarrow> string \<Rightarrow> string list" where
  "split_char c [] = [[]]"
| "split_char c (a # s) =
     (if a = c then [] # split_char c s
      else (case split_char c s of [] \<Rightarrow> [[a]] | p # ps \<Rightarrow> (a # p) # ps))"

text \<open>\<open>[String]::join\<close>.\<close>

fun join :: "string \<Rightarrow> string list \<Rightarrow> string" where
  "join d [] = []"
| "join d [s] = s"
| "join d (s # t # ss) = s @ d @ join d (t # ss)"

text \<open>The text of a list of lines, each with its newline.\<close>

definition unlines :: "string list \<Rightarrow> string" where
  "unlines ls = concat (map (\<lambda>l. l @ [nl]) ls)"

text \<open>A line that survives being written and read back: no newline, no final return.\<close>

definition line_ok :: "string \<Rightarrow> bool" where
  "line_ok l \<longleftrightarrow> nl \<notin> set l \<and> (l = [] \<or> last l \<noteq> cr)"

lemma unlines_simps [simp]:
  "unlines [] = []"
  "unlines (l # ls) = l @ nl # unlines ls"
  "unlines (ls @ ms) = unlines ls @ unlines ms"
  by (simp_all add: unlines_def)

lemma chomp_cr_id: "l = [] \<or> last l \<noteq> cr \<Longrightarrow> chomp_cr l = l"
proof -
  assume a: "l = [] \<or> last l \<noteq> cr"
  show ?thesis
  proof (cases l rule: rev_cases)
    case Nil
    then show ?thesis by (simp add: chomp_cr_def strip_suffix_def)
  next
    case (snoc m c)
    with a show ?thesis by (simp add: chomp_cr_def strip_suffix_def)
  qed
qed

lemma lines_from_line:
  "nl \<notin> set l \<Longrightarrow> lines_from acc (l @ nl # s) = chomp_cr (rev acc @ l) # lines_from [] s"
  by (induction l arbitrary: acc) auto

lemma str_lines_unlines: "\<forall>l \<in> set ls. line_ok l \<Longrightarrow> str_lines (unlines ls) = ls"
  by (induction ls) (auto simp: str_lines_def line_ok_def lines_from_line chomp_cr_id)

lemma split_char_not_Nil [simp]: "split_char c s \<noteq> []"
  by (induction s) (auto split: list.splits)

lemma join_Cons: "ss \<noteq> [] \<Longrightarrow> join d (s # ss) = s @ d @ join d ss"
  by (cases ss) auto

lemma join_split_char: "join [c] (split_char c s) = s"
proof (induction s)
  case (Cons a s)
  show ?case
  proof (cases "split_char c s")
    case (Cons p ps)
    with \<open>join [c] (split_char c s) = s\<close> show ?thesis
      by (cases ps) auto
  qed simp
qed simp

lemma split_char_notin: "p \<in> set (split_char c s) \<Longrightarrow> c \<notin> set p"
  by (induction s arbitrary: p) (auto split: if_splits list.splits)

lemma set_split_char: "p \<in> set (split_char c s) \<Longrightarrow> set p \<subseteq> set s"
  by (induction s arbitrary: p) (fastforce split: if_splits list.splits)+

section \<open>Numbers\<close>

text \<open>\<open>Display\<close> of an unsigned integer.\<close>

definition digit :: "nat \<Rightarrow> char" where
  "digit d = ''0123456789'' ! d"

fun show_nat :: "nat \<Rightarrow> string" where
  "show_nat n = (if n < 10 then [digit n] else show_nat (n div 10) @ [digit (n mod 10)])"

declare show_nat.simps [simp del]

text \<open>
  \<open>u32::from_str\<close> and \<open>u64::from_str\<close>: an optional plus sign (not alone), then
  one or more digits; \<open>None\<close> on anything else and on overflow.
\<close>

fun parse_digits :: "nat \<Rightarrow> string \<Rightarrow> nat option" where
  "parse_digits acc [] = Some acc"
| "parse_digits acc (c # s) =
     (if is_digit c then parse_digits (10 * acc + (byte c - 48)) s else None)"

definition parse_uint :: "nat \<Rightarrow> string \<Rightarrow> nat option" where
  "parse_uint bound s =
     (let body = (case s of c # t \<Rightarrow> if c = CHR ''+'' then t else s | [] \<Rightarrow> s) in
      if body = [] then None
      else case parse_digits 0 body of
             None \<Rightarrow> None
           | Some n \<Rightarrow> if n < bound then Some n else None)"

definition parse_u32 :: "string \<Rightarrow> 32 word option" where
  "parse_u32 s = map_option of_nat (parse_uint (2 ^ 32) s)"

definition parse_u64 :: "string \<Rightarrow> 64 word option" where
  "parse_u64 s = map_option of_nat (parse_uint (2 ^ 64) s)"

definition show_word :: "'a::len word \<Rightarrow> string" where
  "show_word w = show_nat (unat w)"

lemma byte_digit [simp]: "d < 10 \<Longrightarrow> byte (digit d) = 48 + d"
proof -
  assume "d < 10"
  then have "d \<in> {0, 1, 2, 3, 4, 5, 6, 7, 8, 9}" by force
  then show ?thesis by (auto simp: byte_def digit_def)
qed

lemma is_digit_digit [simp]: "d < 10 \<Longrightarrow> is_digit (digit d)"
  by (simp add: is_digit_def)

lemma show_nat_not_Nil [simp]: "show_nat n \<noteq> []"
  by (subst show_nat.simps) simp

lemma show_nat_digits: "c \<in> set (show_nat n) \<Longrightarrow> is_digit c"
proof (induction n rule: show_nat.induct)
  case (1 n)
  then show ?case
    by (auto simp: show_nat.simps [of n] split: if_splits)
qed

lemma parse_digits_append:
  "parse_digits acc (s @ t) = (case parse_digits acc s of None \<Rightarrow> None | Some n \<Rightarrow> parse_digits n t)"
  by (induction acc s rule: parse_digits.induct) auto

lemma parse_digits_show: "parse_digits 0 (show_nat n) = Some n"
proof (induction n rule: show_nat.induct)
  case (1 n)
  show ?case
  proof (cases "n < 10")
    case True
    then show ?thesis by (simp add: show_nat.simps [of n])
  next
    case False
    with 1 show ?thesis
      by (simp add: show_nat.simps [of n] parse_digits_append)
  qed
qed

lemma parse_uint_show: "n < bound \<Longrightarrow> parse_uint bound (show_nat n) = Some n"
proof -
  assume n: "n < bound"
  obtain c t where ct: "show_nat n = c # t"
    by (cases "show_nat n") auto
  then have "is_digit c" using show_nat_digits [of c n] by simp
  then have "c \<noteq> CHR ''+''" by (auto simp: is_digit_def byte_def)
  then show ?thesis
    using n ct parse_digits_show [of n] by (simp add: parse_uint_def)
qed

lemma parse_u32_show [codec]: "parse_u32 (show_word w) = Some w"
proof -
  have "unat w < 2 ^ 32" using unsigned_less [where w = w] by simp
  then show ?thesis by (simp add: parse_u32_def show_word_def parse_uint_show)
qed

lemma parse_u64_show [codec]: "parse_u64 (show_word w) = Some w"
proof -
  have "unat w < 2 ^ 64" using unsigned_less [where w = w] by simp
  then show ?thesis by (simp add: parse_u64_def show_word_def parse_uint_show)
qed

interpretation u32: str_codec show_word parse_u32 "\<lambda>_. True"
  by unfold_locales (rule parse_u32_show)

interpretation u64: str_codec show_word parse_u64 "\<lambda>_. True"
  by unfold_locales (rule parse_u64_show)

end
