(* ===== verification/Diagnostics.thy ===== *)
theory Diagnostics
  imports Rust_Str
begin

text \<open>
  Diagnostics: \<open>crates/agm-core/src/error/codes.rs\<close> (the registry of error codes, their
  category, number, default severity, message template, \<open>Display\<close> and \<open>FromStr\<close>) and
  \<open>crates/agm-core/src/error/diagnostic.rs\<close> (\<open>Severity\<close>, \<open>ErrorLocation\<close>, \<open>AgmError\<close> and
  \<open>DiagnosticCollection\<close>). The \<open>miette\<close> rendering of a diagnostic is third-party code and
  is left out.
\<close>

section \<open>Error codes\<close>

datatype error_category = CatParse | CatValidation | CatImport | CatRuntime | CatLint

datatype error_code =
    P001 | P002 | P003 | P004 | P005 | P006 | P007 | P008 | P009 | P010 | V001 | V002 | V003
    | V004 | V005 | V006 | V007 | V008 | V009 | V010 | V011 | V012 | V013 | V014 | V015 | V016
    | V017 | V018 | V019 | V020 | V021 | V022 | V023 | V024 | V025 | V026 | V027 | V029 | V030
    | V031 | V032 | I001 | I002 | I003 | I004 | I005 | R001 | R002 | R003 | R004 | R005 | R006
    | R007 | R008 | L001 | L002 | L003

datatype severity = SevError | SevWarning | SevInfo

fun category_prefix :: "error_category \<Rightarrow> char" where
  "category_prefix CatParse = CHR ''P''"
| "category_prefix CatValidation = CHR ''V''"
| "category_prefix CatImport = CHR ''I''"
| "category_prefix CatRuntime = CHR ''R''"
| "category_prefix CatLint = CHR ''L''"

fun show_category :: "error_category \<Rightarrow> string" where
  "show_category CatParse = ''parse''"
| "show_category CatValidation = ''validation''"
| "show_category CatImport = ''import''"
| "show_category CatRuntime = ''runtime''"
| "show_category CatLint = ''lint''"

fun show_severity :: "severity \<Rightarrow> string" where
  "show_severity SevError = ''error''"
| "show_severity SevWarning = ''warning''"
| "show_severity SevInfo = ''info''"

primrec category :: "error_code \<Rightarrow> error_category" where
  "category P001 = CatParse"
| "category P002 = CatParse"
| "category P003 = CatParse"
| "category P004 = CatParse"
| "category P005 = CatParse"
| "category P006 = CatParse"
| "category P007 = CatParse"
| "category P008 = CatParse"
| "category P009 = CatParse"
| "category P010 = CatParse"
| "category V001 = CatValidation"
| "category V002 = CatValidation"
| "category V003 = CatValidation"
| "category V004 = CatValidation"
| "category V005 = CatValidation"
| "category V006 = CatValidation"
| "category V007 = CatValidation"
| "category V008 = CatValidation"
| "category V009 = CatValidation"
| "category V010 = CatValidation"
| "category V011 = CatValidation"
| "category V012 = CatValidation"
| "category V013 = CatValidation"
| "category V014 = CatValidation"
| "category V015 = CatValidation"
| "category V016 = CatValidation"
| "category V017 = CatValidation"
| "category V018 = CatValidation"
| "category V019 = CatValidation"
| "category V020 = CatValidation"
| "category V021 = CatValidation"
| "category V022 = CatValidation"
| "category V023 = CatValidation"
| "category V024 = CatValidation"
| "category V025 = CatValidation"
| "category V026 = CatValidation"
| "category V027 = CatValidation"
| "category V029 = CatValidation"
| "category V030 = CatValidation"
| "category V031 = CatValidation"
| "category V032 = CatValidation"
| "category I001 = CatImport"
| "category I002 = CatImport"
| "category I003 = CatImport"
| "category I004 = CatImport"
| "category I005 = CatImport"
| "category R001 = CatRuntime"
| "category R002 = CatRuntime"
| "category R003 = CatRuntime"
| "category R004 = CatRuntime"
| "category R005 = CatRuntime"
| "category R006 = CatRuntime"
| "category R007 = CatRuntime"
| "category R008 = CatRuntime"
| "category L001 = CatLint"
| "category L002 = CatLint"
| "category L003 = CatLint"

primrec code_number :: "error_code \<Rightarrow> nat" where
  "code_number P001 = 1"
| "code_number P002 = 2"
| "code_number P003 = 3"
| "code_number P004 = 4"
| "code_number P005 = 5"
| "code_number P006 = 6"
| "code_number P007 = 7"
| "code_number P008 = 8"
| "code_number P009 = 9"
| "code_number P010 = 10"
| "code_number V001 = 1"
| "code_number V002 = 2"
| "code_number V003 = 3"
| "code_number V004 = 4"
| "code_number V005 = 5"
| "code_number V006 = 6"
| "code_number V007 = 7"
| "code_number V008 = 8"
| "code_number V009 = 9"
| "code_number V010 = 10"
| "code_number V011 = 11"
| "code_number V012 = 12"
| "code_number V013 = 13"
| "code_number V014 = 14"
| "code_number V015 = 15"
| "code_number V016 = 16"
| "code_number V017 = 17"
| "code_number V018 = 18"
| "code_number V019 = 19"
| "code_number V020 = 20"
| "code_number V021 = 21"
| "code_number V022 = 22"
| "code_number V023 = 23"
| "code_number V024 = 24"
| "code_number V025 = 25"
| "code_number V026 = 26"
| "code_number V027 = 27"
| "code_number V029 = 29"
| "code_number V030 = 30"
| "code_number V031 = 31"
| "code_number V032 = 32"
| "code_number I001 = 1"
| "code_number I002 = 2"
| "code_number I003 = 3"
| "code_number I004 = 4"
| "code_number I005 = 5"
| "code_number R001 = 1"
| "code_number R002 = 2"
| "code_number R003 = 3"
| "code_number R004 = 4"
| "code_number R005 = 5"
| "code_number R006 = 6"
| "code_number R007 = 7"
| "code_number R008 = 8"
| "code_number L001 = 1"
| "code_number L002 = 2"
| "code_number L003 = 3"

primrec default_severity :: "error_code \<Rightarrow> severity" where
  "default_severity P001 = SevError"
| "default_severity P002 = SevError"
| "default_severity P003 = SevError"
| "default_severity P004 = SevError"
| "default_severity P005 = SevError"
| "default_severity P006 = SevError"
| "default_severity P007 = SevError"
| "default_severity P008 = SevError"
| "default_severity P009 = SevWarning"
| "default_severity P010 = SevInfo"
| "default_severity V001 = SevError"
| "default_severity V002 = SevError"
| "default_severity V003 = SevError"
| "default_severity V004 = SevError"
| "default_severity V005 = SevError"
| "default_severity V006 = SevError"
| "default_severity V007 = SevError"
| "default_severity V008 = SevError"
| "default_severity V009 = SevError"
| "default_severity V010 = SevWarning"
| "default_severity V011 = SevWarning"
| "default_severity V012 = SevWarning"
| "default_severity V013 = SevWarning"
| "default_severity V014 = SevWarning"
| "default_severity V015 = SevError"
| "default_severity V016 = SevError"
| "default_severity V017 = SevWarning"
| "default_severity V018 = SevError"
| "default_severity V019 = SevError"
| "default_severity V020 = SevError"
| "default_severity V021 = SevError"
| "default_severity V022 = SevError"
| "default_severity V023 = SevError"
| "default_severity V024 = SevError"
| "default_severity V025 = SevError"
| "default_severity V026 = SevWarning"
| "default_severity V027 = SevError"
| "default_severity V029 = SevError"
| "default_severity V030 = SevError"
| "default_severity V031 = SevError"
| "default_severity V032 = SevWarning"
| "default_severity I001 = SevError"
| "default_severity I002 = SevError"
| "default_severity I003 = SevError"
| "default_severity I004 = SevError"
| "default_severity I005 = SevWarning"
| "default_severity R001 = SevError"
| "default_severity R002 = SevError"
| "default_severity R003 = SevError"
| "default_severity R004 = SevError"
| "default_severity R005 = SevError"
| "default_severity R006 = SevError"
| "default_severity R007 = SevWarning"
| "default_severity R008 = SevError"
| "default_severity L001 = SevInfo"
| "default_severity L002 = SevInfo"
| "default_severity L003 = SevInfo"

primrec message_template :: "error_code \<Rightarrow> string" where
  "message_template P001 = ''Missing required header field: `{field}`''"
| "message_template P002 = ''Invalid node declaration syntax''"
| "message_template P003 = ''Unexpected indentation''"
| "message_template P004 = ''Tab character in indentation (spaces required)''"
| "message_template P005 = ''Unterminated block field''"
| "message_template P006 = ''Duplicate field `{field}` in node `{node}`''"
| "message_template P007 = ''Invalid inline list syntax''"
| "message_template P008 = ''Empty file (no nodes)''"
| "message_template P009 = ''Unknown field `{field}` in node `{node}`''"
| "message_template P010 = ''File spec version `{file_version}` newer than parser version `{parser_version}`''"
| "message_template V001 = ''Node `{node}` missing required field: `type`''"
| "message_template V002 = ''Node `{node}` missing required field: `summary`''"
| "message_template V003 = ''Duplicate node ID: `{node}`''"
| "message_template V004 = ''Unresolved reference `{ref}` in `{field}` of node `{node}`''"
| "message_template V005 = ''Cycle detected in `depends`: `{cycle_path}`''"
| "message_template V006 = ''Invalid `execution_status` value: `{value}`''"
| "message_template V007 = ''`valid_from` is after `valid_until` in node `{node}`''"
| "message_template V008 = ''Code block missing required field: `{field}`''"
| "message_template V009 = ''Verify entry missing required field: `{field}`''"
| "message_template V010 = ''Node type `{type}` typically includes field `{field}` (missing)''"
| "message_template V011 = ''Summary is empty in node `{node}`''"
| "message_template V012 = ''Summary exceeds 200 characters in node `{node}`''"
| "message_template V013 = ''Conflicting active nodes co-loaded: `{node_a}` and `{node_b}`''"
| "message_template V014 = ''Deprecated node `{node}` missing `replaces` or `superseded_by`''"
| "message_template V015 = ''`target` path is absolute or contains traversal: `{path}`''"
| "message_template V016 = ''Disallowed field `{field}` on node type `{type}` (strict mode)''"
| "message_template V017 = ''Disallowed field `{field}` on node type `{type}` (standard mode)''"
| "message_template V018 = ''Orchestration group `{group}` references non-existent node `{node}`''"
| "message_template V019 = ''Cycle in orchestration `requires`: `{cycle_path}`''"
| "message_template V020 = ''Invalid `execution_status` transition: `{from}` -> `{to}`''"
| "message_template V021 = ''Node ID does not match required pattern: `{node}`''"
| "message_template V022 = ''Memory key does not match required pattern: `{key}`''"
| "message_template V023 = ''Invalid memory action: `{action}`''"
| "message_template V024 = ''Node `{node}` of type `{type}` missing required schema field: `{field}`''"
| "message_template V025 = ''Memory topic does not match required pattern: `{topic}`''"
| "message_template V026 = ''Unresolved memory topic `{topic}` in `agent_context.load_memory` of node `{node}`''"
| "message_template V027 = ''Memory value exceeds maximum size limit (32 KiB) for key `{key}`''"
| "message_template V029 = ''Invalid ticket `action` value: `{value}` (expected one of create|edit|close|archive|split|link)''"
| "message_template V030 = ''Invalid ticket `sdd_phase` value: `{value}` (expected one of backlog|explore|propose|spec|design|tasks|apply|verify|archive)''"
| "message_template V031 = ''Ticket `{node}` with action `{action}` requires `ticket_id`''"
| "message_template V032 = ''Ticket `{node}` title exceeds 200 characters''"
| "message_template I001 = ''Unresolved import: `{package}`''"
| "message_template I002 = ''Import version constraint not satisfied: `{package}'' @ ''@'' @ ''{constraint}` (found `{actual}`)''"
| "message_template I003 = ''Circular import detected: `{cycle_path}`''"
| "message_template I004 = ''Cross-package reference to non-existent node: `{ref}`''"
| "message_template I005 = ''Import `{package}` is deprecated''"
| "message_template R001 = ''Code block target file not found: `{path}`''"
| "message_template R002 = ''Code block anchor/old pattern not found in target: `{pattern}`''"
| "message_template R003 = ''Code block anchor/old matches multiple locations in target''"
| "message_template R004 = ''Verification check failed: `{check_description}`''"
| "message_template R005 = ''Agent context file not found: `{path}`''"
| "message_template R006 = ''Memory operation failed: `{action}` on key `{key}`''"
| "message_template R007 = ''Node `{node}` retry count exceeded threshold: `{count}`''"
| "message_template R008 = ''Execution timeout for node `{node}`''"
| "message_template L001 = ''Summary of node `{node}` exceeds 100 characters (quality hint)''"
| "message_template L002 = ''Nodes `{node_a}` and `{node_b}` have identical summaries''"
| "message_template L003 = ''Node `{node}` has too many populated fields; consider splitting''"

text \<open>The format \<open>{:03}\<close>: at least three digits, padded with zeros.\<close>

definition pad3 :: "nat \<Rightarrow> string" where
  "pad3 n = (let s = show_nat n in replicate (3 - length s) (CHR ''0'') @ s)"

definition display_code :: "error_code \<Rightarrow> string" where
  "display_code c = ''AGM-'' @ [category_prefix (category c)] @ pad3 (code_number c)"

definition error_code_table :: "(string \<times> error_code) list" where
  "error_code_table =
    [(''AGM-P001'', P001), (''AGM-P002'', P002), (''AGM-P003'', P003), (''AGM-P004'', P004),
     (''AGM-P005'', P005), (''AGM-P006'', P006), (''AGM-P007'', P007), (''AGM-P008'', P008),
     (''AGM-P009'', P009), (''AGM-P010'', P010), (''AGM-V001'', V001), (''AGM-V002'', V002),
     (''AGM-V003'', V003), (''AGM-V004'', V004), (''AGM-V005'', V005), (''AGM-V006'', V006),
     (''AGM-V007'', V007), (''AGM-V008'', V008), (''AGM-V009'', V009), (''AGM-V010'', V010),
     (''AGM-V011'', V011), (''AGM-V012'', V012), (''AGM-V013'', V013), (''AGM-V014'', V014),
     (''AGM-V015'', V015), (''AGM-V016'', V016), (''AGM-V017'', V017), (''AGM-V018'', V018),
     (''AGM-V019'', V019), (''AGM-V020'', V020), (''AGM-V021'', V021), (''AGM-V022'', V022),
     (''AGM-V023'', V023), (''AGM-V024'', V024), (''AGM-V025'', V025), (''AGM-V026'', V026),
     (''AGM-V027'', V027), (''AGM-V029'', V029), (''AGM-V030'', V030), (''AGM-V031'', V031),
     (''AGM-V032'', V032), (''AGM-I001'', I001), (''AGM-I002'', I002), (''AGM-I003'', I003),
     (''AGM-I004'', I004), (''AGM-I005'', I005), (''AGM-R001'', R001), (''AGM-R002'', R002),
     (''AGM-R003'', R003), (''AGM-R004'', R004), (''AGM-R005'', R005), (''AGM-R006'', R006),
     (''AGM-R007'', R007), (''AGM-R008'', R008), (''AGM-L001'', L001), (''AGM-L002'', L002),
     (''AGM-L003'', L003)]"

definition parse_error_code :: "string \<Rightarrow> string + error_code" where
  "parse_error_code s =
     (case map_of error_code_table s of
        None \<Rightarrow> Inl (''unknown error code: '' @ s)
      | Some c \<Rightarrow> Inr c)"

section \<open>Diagnostics\<close>

record error_location =
  loc_file :: "string option"
  loc_line :: "nat option"
  loc_node :: "string option"

definition error_location_new ::
  "string option \<Rightarrow> nat option \<Rightarrow> string option \<Rightarrow> error_location" where
  "error_location_new file line node =
     \<lparr>loc_file = file, loc_line = line, loc_node = node\<rparr>"

definition file_line :: "string \<Rightarrow> nat \<Rightarrow> error_location" where
  "file_line file line = \<lparr>loc_file = Some file, loc_line = Some line, loc_node = None\<rparr>"

definition full_location :: "string \<Rightarrow> nat \<Rightarrow> string \<Rightarrow> error_location" where
  "full_location file line node =
     \<lparr>loc_file = Some file, loc_line = Some line, loc_node = Some node\<rparr>"

record agm_error =
  err_code :: error_code
  err_severity :: severity
  err_message :: string
  err_location :: error_location

definition agm_error_new :: "error_code \<Rightarrow> string \<Rightarrow> error_location \<Rightarrow> agm_error" where
  "agm_error_new code message location =
     \<lparr>err_code = code, err_severity = default_severity code, err_message = message,
      err_location = location\<rparr>"

definition agm_error_with_severity ::
  "error_code \<Rightarrow> severity \<Rightarrow> string \<Rightarrow> error_location \<Rightarrow> agm_error" where
  "agm_error_with_severity code sev message location =
     \<lparr>err_code = code, err_severity = sev, err_message = message, err_location = location\<rparr>"

definition is_error :: "agm_error \<Rightarrow> bool" where
  "is_error e \<longleftrightarrow> err_severity e = SevError"

definition is_warning :: "agm_error \<Rightarrow> bool" where
  "is_warning e \<longleftrightarrow> err_severity e = SevWarning"

definition is_info :: "agm_error \<Rightarrow> bool" where
  "is_info e \<longleftrightarrow> err_severity e = SevInfo"

text \<open>An error at a line, the form every parser of the program uses.\<close>

abbreviation error_at :: "error_code \<Rightarrow> string \<Rightarrow> nat \<Rightarrow> agm_error" where
  "error_at code message line \<equiv>
     agm_error_new code message (error_location_new None (Some line) None)"

text \<open>What every fallible parser of the program returns.\<close>

type_synonym 'a parse_result = "agm_error list + 'a"

section \<open>Diagnostic collections\<close>

record diagnostic_collection =
  diagnostics :: "agm_error list"
  source_code :: string
  file_name :: string

definition collection_new :: "string \<Rightarrow> string \<Rightarrow> diagnostic_collection" where
  "collection_new file src = \<lparr>diagnostics = [], source_code = src, file_name = file\<rparr>"

definition collection_push ::
  "agm_error \<Rightarrow> diagnostic_collection \<Rightarrow> diagnostic_collection" where
  "collection_push e dc = dc\<lparr>diagnostics := diagnostics dc @ [e]\<rparr>"

definition collection_extend ::
  "agm_error list \<Rightarrow> diagnostic_collection \<Rightarrow> diagnostic_collection" where
  "collection_extend es dc = dc\<lparr>diagnostics := diagnostics dc @ es\<rparr>"

definition has_errors :: "diagnostic_collection \<Rightarrow> bool" where
  "has_errors dc \<longleftrightarrow> list_ex is_error (diagnostics dc)"

definition error_count :: "diagnostic_collection \<Rightarrow> nat" where
  "error_count dc = length (filter is_error (diagnostics dc))"

definition warning_count :: "diagnostic_collection \<Rightarrow> nat" where
  "warning_count dc = length (filter is_warning (diagnostics dc))"

definition info_count :: "diagnostic_collection \<Rightarrow> nat" where
  "info_count dc = length (filter is_info (diagnostics dc))"

text \<open>
  \<open>line_byte_offset\<close>: the scan starts on line 1 at offset 0; each newline read at
  offset \<open>i\<close> starts the next line at \<open>i + 1\<close>.
\<close>

fun offset_scan :: "nat \<Rightarrow> nat \<Rightarrow> nat \<Rightarrow> string \<Rightarrow> nat option" where
  "offset_scan line current i [] = None"
| "offset_scan line current i (c # s) =
     (if c = nl
      then (if Suc current = line then Some (Suc i) else offset_scan line (Suc current) (Suc i) s)
      else offset_scan line current (Suc i) s)"

definition line_byte_offset :: "string \<Rightarrow> nat \<Rightarrow> nat option" where
  "line_byte_offset src line =
     (if line = 0 then None
      else if line = 1 then Some 0
      else offset_scan line 1 0 src)"

definition line_byte_len :: "string \<Rightarrow> nat \<Rightarrow> nat" where
  "line_byte_len src line =
     (case line_byte_offset src line of
        None \<Rightarrow> 0
      | Some start \<Rightarrow>
          (let rest = drop start src in
           case str_find [nl] rest of None \<Rightarrow> length rest | Some n \<Rightarrow> n))"

section \<open>Lemmas\<close>

lemma agm_error_new_simps [simp]:
  "err_code (agm_error_new c m l) = c"
  "err_severity (agm_error_new c m l) = default_severity c"
  "is_error (agm_error_new c m l) \<longleftrightarrow> default_severity c = SevError"
  by (simp_all add: agm_error_new_def is_error_def)

lemma table_codes: "c \<in> snd ` set error_code_table"
  unfolding error_code_table_def list.set image_insert image_empty snd_conv
  by (cases c) (simp_all only: insert_iff simp_thms)

lemma pad3_small: "n < 10 \<Longrightarrow> pad3 n = ''00'' @ [digit n]"
  by (simp add: pad3_def show_nat.simps [of n] numeral_2_eq_2)

lemma pad3_medium: "10 \<le> n \<Longrightarrow> n < 100 \<Longrightarrow> pad3 n = ''0'' @ [digit (n div 10), digit (n mod 10)]"
proof -
  assume "10 \<le> n" and "n < 100"
  moreover from this have "n div 10 < 10" by linarith
  ultimately show ?thesis
    by (simp add: pad3_def show_nat.simps [of n] show_nat.simps [of "n div 10"])
qed

lemma table_displays: "map (\<lambda>(s, c). (display_code c, c)) error_code_table = error_code_table"
  by (simp add: error_code_table_def display_code_def pad3_small pad3_medium digit_def)

lemma table_distinct: "distinct (map fst error_code_table)"
  by code_simp

lemma parse_display_code: "parse_error_code (display_code c) = Inr c"
proof -
  obtain s where s: "(s, c) \<in> set error_code_table"
    using table_codes [of c] by force
  then have "(display_code c, c) \<in> set (map (\<lambda>(s, c). (display_code c, c)) error_code_table)"
    by force
  then have "(display_code c, c) \<in> set error_code_table"
    by (simp only: table_displays)
  then have "map_of error_code_table (display_code c) = Some c"
    using table_distinct by (rule map_of_is_SomeI [rotated])
  then show ?thesis by (simp add: parse_error_code_def)
qed

lemma severity_partition:
  "error_count dc + warning_count dc + info_count dc = length (diagnostics dc)"
proof -
  have "length (filter is_error es) + length (filter is_warning es) + length (filter is_info es)
      = length es" for es
  proof (induction es)
    case (Cons e es)
    then show ?case
      by (cases "err_severity e") (simp_all add: is_error_def is_warning_def is_info_def)
  qed simp
  then show ?thesis
    by (simp add: error_count_def warning_count_def info_count_def)
qed

lemma offset_scan_in_range:
  "offset_scan line current i s = Some k \<Longrightarrow>
     i < k \<and> k \<le> i + length s \<and> s ! (k - 1 - i) = nl"
proof (induction line current i s rule: offset_scan.induct)
  case (2 line current i c s)
  show ?case
  proof (cases "c = nl \<and> Suc current = line")
    case True
    with 2 show ?thesis by auto
  next
    case False
    with 2 have "Suc i < k \<and> k \<le> Suc i + length s \<and> s ! (k - 1 - Suc i) = nl"
      by (auto split: if_splits)
    then show ?thesis
      by (auto simp: nth_Cons' )
  qed
qed simp

end
