(* ===== verification/Model_Fields.thy ===== *)
theory Model_Fields
  imports Diagnostics
begin

text \<open>
  The enumerations of \<open>crates/agm-core/src/model/\<close> with their \<open>Display\<close> (\<open>show_\<close>) and
  \<open>FromStr\<close> (\<open>parse_\<close>) implementations, one group per Rust enum, in the order of
  \<open>fields.rs\<close>, \<open>execution.rs\<close>, \<open>orchestration.rs\<close>, \<open>memory.rs\<close>, \<open>code.rs\<close> and \<open>schema.rs\<close>.
  Each pair is an instance of the codec interface of the prelude: printing then parsing
  gives the value back, and nothing else parses to it.
\<close>

section \<open>Errors, field values and spans\<close>

record parse_enum_error =
  type_name :: string
  enum_value :: string

definition enum_error :: "string \<Rightarrow> string \<Rightarrow> parse_enum_error" where
  "enum_error t v = \<lparr>type_name = t, enum_value = v\<rparr>"

datatype field_value = FvScalar string | FvList "string list" | FvBlock string

record span =
  start_line :: nat
  end_line :: nat

definition span_new :: "nat \<Rightarrow> nat \<Rightarrow> span" where
  "span_new s e = \<lparr>start_line = s, end_line = e\<rparr>"

section \<open>NodeType\<close>

datatype node_type =
    NtFacts | NtRules | NtWorkflow | NtEntity | NtDecision | NtException | NtExample
    | NtGlossary | NtAntiPattern | NtOrchestration | NtTicket | NtCustom string

fun show_node_type :: "node_type \<Rightarrow> string" where
  "show_node_type NtFacts = ''facts''"
| "show_node_type NtRules = ''rules''"
| "show_node_type NtWorkflow = ''workflow''"
| "show_node_type NtEntity = ''entity''"
| "show_node_type NtDecision = ''decision''"
| "show_node_type NtException = ''exception''"
| "show_node_type NtExample = ''example''"
| "show_node_type NtGlossary = ''glossary''"
| "show_node_type NtAntiPattern = ''anti_pattern''"
| "show_node_type NtOrchestration = ''orchestration''"
| "show_node_type NtTicket = ''ticket''"
| "show_node_type (NtCustom s) = s"

definition parse_node_type :: "string \<Rightarrow> node_type" where
  "parse_node_type s =
     (if s = ''facts'' then NtFacts
      else if s = ''rules'' then NtRules
      else if s = ''workflow'' then NtWorkflow
      else if s = ''entity'' then NtEntity
      else if s = ''decision'' then NtDecision
      else if s = ''exception'' then NtException
      else if s = ''example'' then NtExample
      else if s = ''glossary'' then NtGlossary
      else if s = ''anti_pattern'' then NtAntiPattern
      else if s = ''orchestration'' then NtOrchestration
      else if s = ''ticket'' then NtTicket
      else NtCustom s)"

text \<open>A custom type is one that does not spell a built-in name.\<close>

definition node_type_valid :: "node_type \<Rightarrow> bool" where
  "node_type_valid t \<longleftrightarrow> (case t of NtCustom s \<Rightarrow>
     s \<notin> {''facts'', ''rules'', ''workflow'', ''entity'', ''decision'', ''exception'', ''example'',
          ''glossary'', ''anti_pattern'', ''orchestration'', ''ticket''} | _ \<Rightarrow> True)"

interpretation node_type: exact_codec
  show_node_type "\<lambda>s. Some (parse_node_type s)" node_type_valid
proof unfold_locales
  fix x :: node_type
  assume "node_type_valid x"
  then show "Some (parse_node_type (show_node_type x)) = Some x"
    by (cases x) (auto simp: parse_node_type_def node_type_valid_def)
next
  fix s x
  assume "Some (parse_node_type s) = Some x"
  then show "node_type_valid x \<and> show_node_type x = s"
    by (auto simp: parse_node_type_def node_type_valid_def split: if_splits)
qed

section \<open>TicketAction\<close>

datatype ticket_action =
    TaCreate | TaEdit | TaClose | TaArchive | TaSplit | TaLink

fun show_ticket_action :: "ticket_action \<Rightarrow> string" where
  "show_ticket_action TaCreate = ''create''"
| "show_ticket_action TaEdit = ''edit''"
| "show_ticket_action TaClose = ''close''"
| "show_ticket_action TaArchive = ''archive''"
| "show_ticket_action TaSplit = ''split''"
| "show_ticket_action TaLink = ''link''"

definition parse_ticket_action :: "string \<Rightarrow> parse_enum_error + ticket_action" where
  "parse_ticket_action s =
     (if s = ''create'' then Inr TaCreate
      else if s = ''edit'' then Inr TaEdit
      else if s = ''close'' then Inr TaClose
      else if s = ''archive'' then Inr TaArchive
      else if s = ''split'' then Inr TaSplit
      else if s = ''link'' then Inr TaLink
      else Inl (enum_error ''TicketAction'' s))"

lemma parse_show_ticket_action [codec]: "parse_ticket_action (show_ticket_action x) = Inr x"
  by (cases x) (simp_all add: parse_ticket_action_def)

interpretation ticket_action: exact_codec
  show_ticket_action "\<lambda>s. res_ok (parse_ticket_action s)" "\<lambda>_. True"
  by (unfold_locales, simp add: codec, auto simp: parse_ticket_action_def split: if_splits)

section \<open>SddPhase\<close>

datatype sdd_phase =
    SpBacklog | SpExplore | SpPropose | SpSpec | SpDesign | SpTasks | SpApply | SpVerify
    | SpArchive

fun show_sdd_phase :: "sdd_phase \<Rightarrow> string" where
  "show_sdd_phase SpBacklog = ''backlog''"
| "show_sdd_phase SpExplore = ''explore''"
| "show_sdd_phase SpPropose = ''propose''"
| "show_sdd_phase SpSpec = ''spec''"
| "show_sdd_phase SpDesign = ''design''"
| "show_sdd_phase SpTasks = ''tasks''"
| "show_sdd_phase SpApply = ''apply''"
| "show_sdd_phase SpVerify = ''verify''"
| "show_sdd_phase SpArchive = ''archive''"

definition parse_sdd_phase :: "string \<Rightarrow> parse_enum_error + sdd_phase" where
  "parse_sdd_phase s =
     (if s = ''backlog'' then Inr SpBacklog
      else if s = ''explore'' then Inr SpExplore
      else if s = ''propose'' then Inr SpPropose
      else if s = ''spec'' then Inr SpSpec
      else if s = ''design'' then Inr SpDesign
      else if s = ''tasks'' then Inr SpTasks
      else if s = ''apply'' then Inr SpApply
      else if s = ''verify'' then Inr SpVerify
      else if s = ''archive'' then Inr SpArchive
      else Inl (enum_error ''SddPhase'' s))"

lemma parse_show_sdd_phase [codec]: "parse_sdd_phase (show_sdd_phase x) = Inr x"
  by (cases x) (simp_all add: parse_sdd_phase_def)

interpretation sdd_phase: exact_codec
  show_sdd_phase "\<lambda>s. res_ok (parse_sdd_phase s)" "\<lambda>_. True"
  by (unfold_locales, simp add: codec, auto simp: parse_sdd_phase_def split: if_splits)

section \<open>Priority\<close>

datatype priority =
    PriCritical | PriHigh | PriNormal | PriLow

fun show_priority :: "priority \<Rightarrow> string" where
  "show_priority PriCritical = ''critical''"
| "show_priority PriHigh = ''high''"
| "show_priority PriNormal = ''normal''"
| "show_priority PriLow = ''low''"

definition parse_priority :: "string \<Rightarrow> parse_enum_error + priority" where
  "parse_priority s =
     (if s = ''critical'' then Inr PriCritical
      else if s = ''high'' then Inr PriHigh
      else if s = ''normal'' then Inr PriNormal
      else if s = ''low'' then Inr PriLow
      else Inl (enum_error ''Priority'' s))"

lemma parse_show_priority [codec]: "parse_priority (show_priority x) = Inr x"
  by (cases x) (simp_all add: parse_priority_def)

interpretation priority: exact_codec
  show_priority "\<lambda>s. res_ok (parse_priority s)" "\<lambda>_. True"
  by (unfold_locales, simp add: codec, auto simp: parse_priority_def split: if_splits)

section \<open>Stability\<close>

datatype stability =
    StabHigh | StabMedium | StabLow | StabVolatile

fun show_stability :: "stability \<Rightarrow> string" where
  "show_stability StabHigh = ''high''"
| "show_stability StabMedium = ''medium''"
| "show_stability StabLow = ''low''"
| "show_stability StabVolatile = ''volatile''"

definition parse_stability :: "string \<Rightarrow> parse_enum_error + stability" where
  "parse_stability s =
     (if s = ''high'' then Inr StabHigh
      else if s = ''medium'' then Inr StabMedium
      else if s = ''low'' then Inr StabLow
      else if s = ''volatile'' then Inr StabVolatile
      else Inl (enum_error ''Stability'' s))"

lemma parse_show_stability [codec]: "parse_stability (show_stability x) = Inr x"
  by (cases x) (simp_all add: parse_stability_def)

interpretation stability: exact_codec
  show_stability "\<lambda>s. res_ok (parse_stability s)" "\<lambda>_. True"
  by (unfold_locales, simp add: codec, auto simp: parse_stability_def split: if_splits)

section \<open>Confidence\<close>

datatype confidence =
    ConfHigh | ConfMedium | ConfLow | ConfInferred | ConfTentative

fun show_confidence :: "confidence \<Rightarrow> string" where
  "show_confidence ConfHigh = ''high''"
| "show_confidence ConfMedium = ''medium''"
| "show_confidence ConfLow = ''low''"
| "show_confidence ConfInferred = ''inferred''"
| "show_confidence ConfTentative = ''tentative''"

definition parse_confidence :: "string \<Rightarrow> parse_enum_error + confidence" where
  "parse_confidence s =
     (if s = ''high'' then Inr ConfHigh
      else if s = ''medium'' then Inr ConfMedium
      else if s = ''low'' then Inr ConfLow
      else if s = ''inferred'' then Inr ConfInferred
      else if s = ''tentative'' then Inr ConfTentative
      else Inl (enum_error ''Confidence'' s))"

lemma parse_show_confidence [codec]: "parse_confidence (show_confidence x) = Inr x"
  by (cases x) (simp_all add: parse_confidence_def)

interpretation confidence: exact_codec
  show_confidence "\<lambda>s. res_ok (parse_confidence s)" "\<lambda>_. True"
  by (unfold_locales, simp add: codec, auto simp: parse_confidence_def split: if_splits)

section \<open>NodeStatus\<close>

datatype node_status =
    NsActive | NsDraft | NsDeprecated | NsSuperseded

fun show_node_status :: "node_status \<Rightarrow> string" where
  "show_node_status NsActive = ''active''"
| "show_node_status NsDraft = ''draft''"
| "show_node_status NsDeprecated = ''deprecated''"
| "show_node_status NsSuperseded = ''superseded''"

definition parse_node_status :: "string \<Rightarrow> parse_enum_error + node_status" where
  "parse_node_status s =
     (if s = ''active'' then Inr NsActive
      else if s = ''draft'' then Inr NsDraft
      else if s = ''deprecated'' then Inr NsDeprecated
      else if s = ''superseded'' then Inr NsSuperseded
      else Inl (enum_error ''NodeStatus'' s))"

lemma parse_show_node_status [codec]: "parse_node_status (show_node_status x) = Inr x"
  by (cases x) (simp_all add: parse_node_status_def)

interpretation node_status: exact_codec
  show_node_status "\<lambda>s. res_ok (parse_node_status s)" "\<lambda>_. True"
  by (unfold_locales, simp add: codec, auto simp: parse_node_status_def split: if_splits)

section \<open>ExecutionStatus\<close>

datatype execution_status =
    Pending | Ready | InProgress | Completed | Failed | Blocked | Skipped

fun show_execution_status :: "execution_status \<Rightarrow> string" where
  "show_execution_status Pending = ''pending''"
| "show_execution_status Ready = ''ready''"
| "show_execution_status InProgress = ''in_progress''"
| "show_execution_status Completed = ''completed''"
| "show_execution_status Failed = ''failed''"
| "show_execution_status Blocked = ''blocked''"
| "show_execution_status Skipped = ''skipped''"

definition parse_execution_status :: "string \<Rightarrow> parse_enum_error + execution_status" where
  "parse_execution_status s =
     (if s = ''pending'' then Inr Pending
      else if s = ''ready'' then Inr Ready
      else if s = ''in_progress'' then Inr InProgress
      else if s = ''completed'' then Inr Completed
      else if s = ''failed'' then Inr Failed
      else if s = ''blocked'' then Inr Blocked
      else if s = ''skipped'' then Inr Skipped
      else Inl (enum_error ''ExecutionStatus'' s))"

lemma parse_show_execution_status [codec]: "parse_execution_status (show_execution_status x) = Inr x"
  by (cases x) (simp_all add: parse_execution_status_def)

interpretation execution_status: exact_codec
  show_execution_status "\<lambda>s. res_ok (parse_execution_status s)" "\<lambda>_. True"
  by (unfold_locales, simp add: codec, auto simp: parse_execution_status_def split: if_splits)

section \<open>Strategy\<close>

datatype strategy =
    Sequential | Parallel

fun show_strategy :: "strategy \<Rightarrow> string" where
  "show_strategy Sequential = ''sequential''"
| "show_strategy Parallel = ''parallel''"

definition parse_strategy :: "string \<Rightarrow> parse_enum_error + strategy" where
  "parse_strategy s =
     (if s = ''sequential'' then Inr Sequential
      else if s = ''parallel'' then Inr Parallel
      else Inl (enum_error ''Strategy'' s))"

lemma parse_show_strategy [codec]: "parse_strategy (show_strategy x) = Inr x"
  by (cases x) (simp_all add: parse_strategy_def)

interpretation strategy: exact_codec
  show_strategy "\<lambda>s. res_ok (parse_strategy s)" "\<lambda>_. True"
  by (unfold_locales, simp add: codec, auto simp: parse_strategy_def split: if_splits)

section \<open>MemoryAction\<close>

datatype memory_action =
    MaGet | MaUpsert | MaDelete | MaList | MaSearch

fun show_memory_action :: "memory_action \<Rightarrow> string" where
  "show_memory_action MaGet = ''get''"
| "show_memory_action MaUpsert = ''upsert''"
| "show_memory_action MaDelete = ''delete''"
| "show_memory_action MaList = ''list''"
| "show_memory_action MaSearch = ''search''"

definition parse_memory_action :: "string \<Rightarrow> parse_enum_error + memory_action" where
  "parse_memory_action s =
     (if s = ''get'' then Inr MaGet
      else if s = ''upsert'' then Inr MaUpsert
      else if s = ''delete'' then Inr MaDelete
      else if s = ''list'' then Inr MaList
      else if s = ''search'' then Inr MaSearch
      else Inl (enum_error ''MemoryAction'' s))"

lemma parse_show_memory_action [codec]: "parse_memory_action (show_memory_action x) = Inr x"
  by (cases x) (simp_all add: parse_memory_action_def)

interpretation memory_action: exact_codec
  show_memory_action "\<lambda>s. res_ok (parse_memory_action s)" "\<lambda>_. True"
  by (unfold_locales, simp add: codec, auto simp: parse_memory_action_def split: if_splits)

section \<open>MemoryScope\<close>

datatype memory_scope =
    ScopeNode | ScopeSession | ScopeProject | ScopeGlobal

fun show_memory_scope :: "memory_scope \<Rightarrow> string" where
  "show_memory_scope ScopeNode = ''node''"
| "show_memory_scope ScopeSession = ''session''"
| "show_memory_scope ScopeProject = ''project''"
| "show_memory_scope ScopeGlobal = ''global''"

definition parse_memory_scope :: "string \<Rightarrow> parse_enum_error + memory_scope" where
  "parse_memory_scope s =
     (if s = ''node'' then Inr ScopeNode
      else if s = ''session'' then Inr ScopeSession
      else if s = ''project'' then Inr ScopeProject
      else if s = ''global'' then Inr ScopeGlobal
      else Inl (enum_error ''MemoryScope'' s))"

lemma parse_show_memory_scope [codec]: "parse_memory_scope (show_memory_scope x) = Inr x"
  by (cases x) (simp_all add: parse_memory_scope_def)

interpretation memory_scope: exact_codec
  show_memory_scope "\<lambda>s. res_ok (parse_memory_scope s)" "\<lambda>_. True"
  by (unfold_locales, simp add: codec, auto simp: parse_memory_scope_def split: if_splits)

section \<open>MemoryTtl\<close>

datatype memory_ttl =
    TtlPermanent | TtlSession | TtlDuration string

fun show_memory_ttl :: "memory_ttl \<Rightarrow> string" where
  "show_memory_ttl TtlPermanent = ''permanent''"
| "show_memory_ttl TtlSession = ''session''"
| "show_memory_ttl (TtlDuration d) = ''duration:'' @ d"

definition parse_memory_ttl :: "string \<Rightarrow> parse_enum_error + memory_ttl" where
  "parse_memory_ttl s =
     (if s = ''permanent'' then Inr TtlPermanent
      else if s = ''session'' then Inr TtlSession
      else (case strip_prefix ''duration:'' s of
              Some duration \<Rightarrow>
                if duration = [] then Inl (enum_error ''MemoryTtl'' s) else Inr (TtlDuration duration)
            | None \<Rightarrow> Inl (enum_error ''MemoryTtl'' s)))"

definition ttl_valid :: "memory_ttl \<Rightarrow> bool" where
  "ttl_valid t \<longleftrightarrow> t \<noteq> TtlDuration []"

lemma parse_show_memory_ttl [codec]:
  "ttl_valid t \<Longrightarrow> parse_memory_ttl (show_memory_ttl t) = Inr t"
  by (cases t) (simp_all add: parse_memory_ttl_def ttl_valid_def)

interpretation memory_ttl: exact_codec
  show_memory_ttl "\<lambda>s. res_ok (parse_memory_ttl s)" ttl_valid
  by (unfold_locales, simp add: codec, auto simp: parse_memory_ttl_def ttl_valid_def
      strip_prefix_Some_iff split: if_splits option.splits)

section \<open>CodeAction\<close>

datatype code_action =
    CaCreate | CaAppend | CaPrepend | CaReplace | CaInsertBefore | CaInsertAfter | CaFull

fun show_code_action :: "code_action \<Rightarrow> string" where
  "show_code_action CaCreate = ''create''"
| "show_code_action CaAppend = ''append''"
| "show_code_action CaPrepend = ''prepend''"
| "show_code_action CaReplace = ''replace''"
| "show_code_action CaInsertBefore = ''insert_before''"
| "show_code_action CaInsertAfter = ''insert_after''"
| "show_code_action CaFull = ''full''"

definition parse_code_action :: "string \<Rightarrow> parse_enum_error + code_action" where
  "parse_code_action s =
     (if s = ''create'' then Inr CaCreate
      else if s = ''append'' then Inr CaAppend
      else if s = ''prepend'' then Inr CaPrepend
      else if s = ''replace'' then Inr CaReplace
      else if s = ''insert_before'' then Inr CaInsertBefore
      else if s = ''insert_after'' then Inr CaInsertAfter
      else if s = ''full'' then Inr CaFull
      else Inl (enum_error ''CodeAction'' s))"

lemma parse_show_code_action [codec]: "parse_code_action (show_code_action x) = Inr x"
  by (cases x) (simp_all add: parse_code_action_def)

interpretation code_action: exact_codec
  show_code_action "\<lambda>s. res_ok (parse_code_action s)" "\<lambda>_. True"
  by (unfold_locales, simp add: codec, auto simp: parse_code_action_def split: if_splits)

section \<open>EnforcementLevel\<close>

datatype enforcement_level =
    EnfStrict | EnfStandard | EnfPermissive

fun show_enforcement_level :: "enforcement_level \<Rightarrow> string" where
  "show_enforcement_level EnfStrict = ''strict''"
| "show_enforcement_level EnfStandard = ''standard''"
| "show_enforcement_level EnfPermissive = ''permissive''"

definition parse_enforcement_level :: "string \<Rightarrow> parse_enum_error + enforcement_level" where
  "parse_enforcement_level s =
     (if s = ''strict'' then Inr EnfStrict
      else if s = ''standard'' then Inr EnfStandard
      else if s = ''permissive'' then Inr EnfPermissive
      else Inl (enum_error ''EnforcementLevel'' s))"

lemma parse_show_enforcement_level [codec]: "parse_enforcement_level (show_enforcement_level x) = Inr x"
  by (cases x) (simp_all add: parse_enforcement_level_def)

interpretation enforcement_level: exact_codec
  show_enforcement_level "\<lambda>s. res_ok (parse_enforcement_level s)" "\<lambda>_. True"
  by (unfold_locales, simp add: codec, auto simp: parse_enforcement_level_def split: if_splits)

end
