(* ===== verification/Model_Node.thy ===== *)
theory Model_Node
  imports Model_Fields
begin

text \<open>
  The data model of \<open>crates/agm-core/src/model/\<close>: nodes and their structured fields
  (\<open>code.rs\<close>, \<open>verify.rs\<close>, \<open>context.rs\<close>, \<open>orchestration.rs\<close>, \<open>memory.rs\<close>, \<open>node.rs\<close>),
  headers and files (\<open>imports.rs\<close>, \<open>file.rs\<close>) and the contents of the two sidecar files
  (\<open>state.rs\<close>, \<open>mem_file.rs\<close>). A \<open>u32\<close> or \<open>u64\<close> is a word of that width, a \<open>BTreeMap\<close>
  an ordered association list. The serde derivations (JSON) are not modelled.
\<close>

section \<open>Structured fields of a node\<close>

record code_block =
  cb_lang :: "string option"
  cb_target :: "string option"
  cb_action :: code_action
  cb_body :: string
  cb_anchor :: "string option"
  cb_old :: "string option"

datatype verify_check =
    VcCommand string "string option"
  | VcFileExists string
  | VcFileContains string string
  | VcFileNotContains string string
  | VcNodeStatus string string

datatype file_range = RangeFull | RangeLines "64 word" "64 word" | RangeFunction string

record load_file =
  lf_path :: string
  lf_range :: file_range

record agent_context =
  ac_load_nodes :: "string list option"
  ac_load_files :: "load_file list option"
  ac_system_hint :: "string option"
  ac_max_tokens :: "64 word option"
  ac_load_memory :: "string list option"

record parallel_group =
  pg_group :: string
  pg_nodes :: "string list"
  pg_strategy :: strategy
  pg_requires :: "string list option"
  pg_max_concurrency :: "32 word option"

record memory_entry =
  me_key :: string
  me_topic :: string
  me_action :: memory_action
  me_value :: "string option"
  me_scope :: "memory_scope option"
  me_ttl :: "memory_ttl option"
  me_query :: "string option"
  me_max_results :: "32 word option"
  me_extra_fields :: "(string, field_value) btree"

section \<open>Nodes\<close>

record node =
  n_id :: string
  n_type :: node_type
  n_summary :: string
  n_priority :: "priority option"
  n_stability :: "stability option"
  n_confidence :: "confidence option"
  n_status :: "node_status option"
  n_depends :: "string list option"
  n_related_to :: "string list option"
  n_replaces :: "string list option"
  n_conflicts :: "string list option"
  n_see_also :: "string list option"
  n_items :: "string list option"
  n_steps :: "string list option"
  n_fields :: "string list option"
  n_input :: "string list option"
  n_output :: "string list option"
  n_detail :: "string option"
  n_rationale :: "string list option"
  n_tradeoffs :: "string list option"
  n_resolution :: "string list option"
  n_examples :: "string option"
  n_notes :: "string option"
  n_code :: "code_block option"
  n_code_blocks :: "code_block list option"
  n_verify :: "verify_check list option"
  n_agent_context :: "agent_context option"
  n_target :: "string option"
  n_execution_status :: "execution_status option"
  n_executed_by :: "string option"
  n_executed_at :: "string option"
  n_execution_log :: "string option"
  n_retry_count :: "32 word option"
  n_parallel_groups :: "parallel_group list option"
  n_memory :: "memory_entry list option"
  n_scope :: "string list option"
  n_applies_when :: "string option"
  n_valid_from :: "string option"
  n_valid_until :: "string option"
  n_tags :: "string list option"
  n_aliases :: "string list option"
  n_keywords :: "string list option"
  n_title :: "string option"
  n_description :: "string option"
  n_action :: "ticket_action option"
  n_sdd_phase :: "sdd_phase option"
  n_prompt :: "string option"
  n_assignee :: "string option"
  n_labels :: "string list option"
  n_ticket_id :: "string option"
  n_extra_fields :: "(string, field_value) btree"
  n_span :: span

definition node_default :: node where
  "node_default =
     \<lparr>n_id = [], n_type = NtFacts, n_summary = [],
      n_priority = None, n_stability = None, n_confidence = None, n_status = None,
      n_depends = None, n_related_to = None, n_replaces = None, n_conflicts = None,
      n_see_also = None, n_items = None, n_steps = None, n_fields = None, n_input = None,
      n_output = None, n_detail = None, n_rationale = None, n_tradeoffs = None,
      n_resolution = None, n_examples = None, n_notes = None, n_code = None,
      n_code_blocks = None, n_verify = None, n_agent_context = None, n_target = None,
      n_execution_status = None, n_executed_by = None, n_executed_at = None,
      n_execution_log = None, n_retry_count = None, n_parallel_groups = None,
      n_memory = None, n_scope = None, n_applies_when = None, n_valid_from = None,
      n_valid_until = None, n_tags = None, n_aliases = None, n_keywords = None,
      n_title = None, n_description = None, n_action = None, n_sdd_phase = None,
      n_prompt = None, n_assignee = None, n_labels = None, n_ticket_id = None,
      n_extra_fields = [], n_span = span_new 0 0\<rparr>"

section \<open>Files\<close>

record import_entry =
  imp_package :: string
  imp_version_constraint :: "string option"

definition parse_import_entry :: "string \<Rightarrow> string + import_entry" where
  "parse_import_entry s0 =
     (let s = trim s0 in
      if s = [] then Inl s
      else case str_find ''@'' s of
        Some i \<Rightarrow>
          (let package = trim (take i s); c = trim (drop (Suc i) s) in
           if package = [] then Inl s
           else Inr \<lparr>imp_package = package,
                     imp_version_constraint = (if c = [] then None else Some c)\<rparr>)
      | None \<Rightarrow> Inr \<lparr>imp_package = s, imp_version_constraint = None\<rparr>)"

definition show_import_entry :: "import_entry \<Rightarrow> string" where
  "show_import_entry e =
     imp_package e @
     (case imp_version_constraint e of None \<Rightarrow> [] | Some c \<Rightarrow> ''@'' @ c)"

datatype token_estimate = TeCount "64 word" | TeVariable

fun show_token_estimate :: "token_estimate \<Rightarrow> string" where
  "show_token_estimate (TeCount n) = show_word n"
| "show_token_estimate TeVariable = ''variable''"

definition parse_token_estimate :: "string \<Rightarrow> token_estimate option" where
  "parse_token_estimate s =
     (if eq_ignore_case s ''variable'' then Some TeVariable
      else map_option TeCount (parse_u64 s))"

record load_profile =
  lp_filter :: string
  lp_estimated_tokens :: "token_estimate option"

record header =
  h_agm :: string
  h_package :: string
  h_version :: string
  h_title :: "string option"
  h_owner :: "string option"
  h_imports :: "import_entry list option"
  h_default_load :: "string option"
  h_description :: "string option"
  h_tags :: "string list option"
  h_status :: "string option"
  h_load_profiles :: "(string, load_profile) btree option"
  h_target_runtime :: "string option"

record agm_file =
  f_header :: header
  f_nodes :: "node list"

text \<open>
  \<open>HashMap<&str, &Node>\<close> of the nodes by id, as the runtime collects it: a later node with
  the same id replaces an earlier one.
\<close>

definition node_map :: "agm_file \<Rightarrow> string \<Rightarrow> node option" where
  "node_map file = map_of (rev (map (\<lambda>n. (n_id n, n)) (f_nodes file)))"

section \<open>Sidecar contents\<close>

record node_state =
  ns_execution_status :: execution_status
  ns_executed_by :: "string option"
  ns_executed_at :: "string option"
  ns_execution_log :: "string option"
  ns_retry_count :: "32 word"

definition node_state_default :: node_state where
  "node_state_default =
     \<lparr>ns_execution_status = Pending, ns_executed_by = None, ns_executed_at = None,
      ns_execution_log = None, ns_retry_count = 0\<rparr>"

record state_file =
  sf_format_version :: string
  sf_package :: string
  sf_version :: string
  sf_session_id :: string
  sf_started_at :: string
  sf_updated_at :: string
  sf_nodes :: "(string, node_state) btree"

record mem_file_entry =
  mf_topic :: string
  mf_scope :: memory_scope
  mf_ttl :: memory_ttl
  mf_value :: string
  mf_created_at :: string
  mf_updated_at :: string

record mem_file =
  mem_format_version :: string
  mem_package :: string
  mem_updated_at :: string
  mem_entries :: "(string, mem_file_entry) btree"

section \<open>Lemmas\<close>

lemma eq_ignore_variable_digits: "is_digit c \<Longrightarrow> \<not> eq_ignore_case (c # s) ''variable''"
  by (auto simp: eq_ignore_case_def to_lower_def is_upper_def is_digit_def byte_def)

lemma parse_show_token_estimate: "parse_token_estimate (show_token_estimate t) = Some t"
proof (cases t)
  case (TeCount n)
  obtain c s where cs: "show_nat (unat n) = c # s"
    by (cases "show_nat (unat n)") auto
  then have "is_digit c"
    using show_nat_digits [of c "unat n"] by simp
  then show ?thesis
    using TeCount cs codec(2)
    by (metis eq_ignore_variable_digits option.simps(9) parse_token_estimate_def
        show_token_estimate.simps(1) show_word_def parse_u64_show)
next
  case TeVariable
  then show ?thesis by (simp add: parse_token_estimate_def eq_ignore_case_def)
qed

interpretation token_estimate: str_codec show_token_estimate parse_token_estimate "\<lambda>_. True"
  by unfold_locales (rule parse_show_token_estimate)

text \<open>
  An import that its printed form can carry: both parts are trimmed and not empty, and
  only the constraint may hold an at sign.
\<close>

definition import_entry_valid :: "import_entry \<Rightarrow> bool" where
  "import_entry_valid e \<longleftrightarrow>
     imp_package e \<noteq> [] \<and> trim (imp_package e) = imp_package e \<and>
     CHR ''@'' \<notin> set (imp_package e) \<and> trim (show_import_entry e) = show_import_entry e \<and>
     (\<forall>c. imp_version_constraint e = Some c \<longrightarrow> c \<noteq> [] \<and> trim c = c)"

lemma parse_show_import_entry:
  assumes "import_entry_valid e"
  shows "parse_import_entry (show_import_entry e) = Inr e"
proof (cases "imp_version_constraint e")
  case None
  then show ?thesis
    using assms
    by (simp add: import_entry_valid_def parse_import_entry_def show_import_entry_def
        str_find_notin)
next
  case (Some c)
  have find: "str_find ''@'' (imp_package e @ CHR ''@'' # c) = Some (length (imp_package e))"
    using assms by (intro str_find_char) (simp add: import_entry_valid_def)
  show ?thesis
    using assms Some find
    by (simp add: import_entry_valid_def parse_import_entry_def show_import_entry_def)
qed

interpretation import_entry:
  str_codec show_import_entry "\<lambda>s. res_ok (parse_import_entry s)" import_entry_valid
  by unfold_locales (simp add: parse_show_import_entry)

lemma node_map_Some_id: "node_map file k = Some n \<Longrightarrow> n_id n = k \<and> n \<in> set (f_nodes file)"
  unfolding node_map_def by (auto dest!: map_of_SomeD)

lemma node_map_None: "node_map file k = None \<longleftrightarrow> k \<notin> n_id ` set (f_nodes file)"
  unfolding node_map_def by (force simp: map_of_eq_None_iff)

lemma node_map_unique:
  assumes "distinct (map n_id (f_nodes file))" and "n \<in> set (f_nodes file)"
  shows "node_map file (n_id n) = Some n"
proof -
  have "map fst (rev (map (\<lambda>n. (n_id n, n)) (f_nodes file))) = rev (map n_id (f_nodes file))"
    by (simp add: rev_map o_def)
  then show ?thesis
    unfolding node_map_def using assms by (intro map_of_is_SomeI) auto
qed

end
