(* ===== verification/Utf8.thy ===== *)
theory Utf8
  imports Rust_Str
begin

text \<open>
  Strings as sequences of characters, where the code looks at them so: character boundaries
  and slices, which panic off a boundary, the lossy decoding of bytes, and the upper and
  lower case of the standard library. A string is the list of its UTF-8 bytes.
\<close>

section \<open>Lossy decoding\<close>

text \<open>
  \<open>String::from_utf8_lossy\<close>: every maximal prefix of a character that is not completed, and
  every byte that starts none, becomes U+FFFD. \<open>utf8_width\<close> is the length a first byte asks
  for, \<open>utf8_second\<close> the range it leaves to the second byte.
\<close>

definition utf8_width :: "char \<Rightarrow> nat" where
  "utf8_width c =
     (let b = byte c in
      if b < 0x80 then 1
      else if 0xC2 \<le> b \<and> b \<le> 0xDF then 2
      else if 0xE0 \<le> b \<and> b \<le> 0xEF then 3
      else if 0xF0 \<le> b \<and> b \<le> 0xF4 then 4
      else 0)"

definition utf8_cont :: "char \<Rightarrow> bool" where
  "utf8_cont c \<longleftrightarrow> 0x80 \<le> byte c \<and> byte c \<le> 0xBF"

definition utf8_second :: "char \<Rightarrow> char \<Rightarrow> bool" where
  "utf8_second a c \<longleftrightarrow> utf8_cont c \<and>
     (byte a = 0xE0 \<longrightarrow> 0xA0 \<le> byte c) \<and> (byte a = 0xED \<longrightarrow> byte c \<le> 0x9F) \<and>
     (byte a = 0xF0 \<longrightarrow> 0x90 \<le> byte c) \<and> (byte a = 0xF4 \<longrightarrow> byte c \<le> 0x8F)"

definition utf8_tail :: "char \<Rightarrow> string \<Rightarrow> nat" where
  "utf8_tail a s =
     (case s of
        [] \<Rightarrow> 0
      | c # t \<Rightarrow>
          if utf8_second a c then Suc (length (takeWhile utf8_cont (take (utf8_width a - 2) t))) else 0)"

definition utf8_replacement :: string where
  "utf8_replacement = [CHR 0xEF, CHR 0xBF, CHR 0xBD]"

function from_utf8_lossy :: "string \<Rightarrow> string" where
  "from_utf8_lossy [] = []"
| "from_utf8_lossy (a # s) =
     (let k = (if utf8_width a < 2 then 0 else utf8_tail a s) in
      (if utf8_width a = Suc k then a # take k s else utf8_replacement) @ from_utf8_lossy (drop k s))"
  by pat_completeness auto
termination by (relation "measure length") auto

section \<open>Characters and slices\<close>

definition is_char_boundary :: "string \<Rightarrow> nat \<Rightarrow> bool" where
  "is_char_boundary s i \<longleftrightarrow> i = 0 \<or> i = length s \<or> (i < length s \<and> \<not> utf8_cont (s ! i))"

text \<open>\<open>&s[a..b]\<close>; \<open>None\<close> is the panic.\<close>

definition str_slice :: "string \<Rightarrow> nat \<Rightarrow> nat \<Rightarrow> string option" where
  "str_slice s a b =
     (if a \<le> b \<and> b \<le> length s \<and> is_char_boundary s a \<and> is_char_boundary s b
      then Some (take (b - a) (drop a s)) else None)"

text \<open>The characters of a string; a malformed byte counts as one.\<close>

function str_chars :: "string \<Rightarrow> string list" where
  "str_chars [] = []"
| "str_chars (a # s) = (let k = utf8_width a - 1 in (a # take k s) # str_chars (drop k s))"
  by pat_completeness auto
termination by (relation "measure length") auto

text \<open>\<open>str::rfind\<close> of a character.\<close>

definition rfind_char :: "char \<Rightarrow> string \<Rightarrow> nat option" where
  "rfind_char c s = map_option (\<lambda>i. length s - Suc i) (str_find [c] (rev s))"

text \<open>
  \<open>to_uppercase\<close> and \<open>to_lowercase\<close> go through the tables of Unicode, which are a parameter:
  functions that agree with the ASCII case on ASCII text.
\<close>

definition to_upper :: "char \<Rightarrow> char" where
  "to_upper c = (if is_lower c then char_of (byte c - 32) else c)"

definition is_ascii :: "string \<Rightarrow> bool" where
  "is_ascii s \<longleftrightarrow> list_all (\<lambda>c. byte c < 0x80) s"

definition lower_ok :: "(string \<Rightarrow> string) \<Rightarrow> bool" where
  "lower_ok lc \<longleftrightarrow> (\<forall>s. is_ascii s \<longrightarrow> lc s = map to_lower s)"

definition upper_ok :: "(string \<Rightarrow> string) \<Rightarrow> bool" where
  "upper_ok uc \<longleftrightarrow> (\<forall>s. is_ascii s \<longrightarrow> uc s = map to_upper s)"

section \<open>Lemmas\<close>

text \<open>Text that is ASCII decodes to itself.\<close>

lemma from_utf8_lossy_ascii: "(\<And>c. c \<in> set s \<Longrightarrow> byte c < 0x80) \<Longrightarrow> from_utf8_lossy s = s"
  by (induction s) (simp_all add: utf8_width_def)

lemma set_drop_ws: "set (drop_ws w2 w3 s) \<subseteq> set s"
  by (induction w2 w3 s rule: drop_ws.induct) auto

lemma set_trim: "set (trim s) \<subseteq> set s"
  unfolding trim_def trim_end_def trim_start_def using set_drop_ws by (metis set_rev subset_trans)

lemma not_cont_ascii: "byte c < 0x80 \<Longrightarrow> \<not> utf8_cont c"
  by (simp add: utf8_cont_def)

lemma ascii_boundary: "is_ascii s \<Longrightarrow> i \<le> length s \<Longrightarrow> is_char_boundary s i"
  by (auto simp: is_char_boundary_def is_ascii_def list_all_length not_cont_ascii)

lemma ascii_slice: "is_ascii s \<Longrightarrow> a \<le> b \<Longrightarrow> b \<le> length s \<Longrightarrow> str_slice s a b = Some (take (b - a) (drop a s))"
  by (simp add: str_slice_def ascii_boundary)

lemma concat_str_chars: "concat (str_chars s) = s"
  by (induction s rule: str_chars.induct) (simp_all add: Let_def)

lemma str_chars_ascii: "is_ascii s \<Longrightarrow> str_chars s = map (\<lambda>c. [c]) s"
  by (induction s) (simp_all add: is_ascii_def utf8_width_def)

lemma rfind_char_last: "c \<notin> set t \<Longrightarrow> rfind_char c (s @ c # t) = Some (length s)"
  using str_find_char [of c "rev t" "rev s"] by (simp add: rfind_char_def)

lemma lower_ok_ascii: "lower_ok (map to_lower)" "upper_ok (map to_upper)"
  by (simp_all add: lower_ok_def upper_ok_def)

end
