(* ===== verification/Lexer.thy ===== *)
theory Lexer
  imports Model_Node Utf8
begin

text \<open>
  The line lexer of \<open>.agm\<close> sources, \<open>crates/agm-core/src/parser/lexer.rs\<close>: each line is
  classified by the first rule that matches. A body indicator is kept at its width of 8 bits.
\<close>

section \<open>Lines\<close>

datatype line_kind =
    LkBlank
  | LkComment
  | LkNode string
  | LkScalar string string
  | LkList string "string list"
  | LkStart string
  | LkItem string
  | LkIndented string
  | LkBody "8 word option"
  | LkExpect string

record agm_line =
  ln_kind :: line_kind
  ln_number :: nat
  ln_indent :: nat
  ln_raw :: string

definition find_tab :: "string \<Rightarrow> nat option" where
  "find_tab s = str_find [tab] s"

definition count_indent :: "string \<Rightarrow> nat" where
  "count_indent s = length (takeWhile (\<lambda>c. c = sp) s)"

definition is_alpha :: "char \<Rightarrow> bool" where
  "is_alpha c \<longleftrightarrow> is_lower c \<or> is_upper c"

definition is_valid_field_key :: "string \<Rightarrow> bool" where
  "is_valid_field_key key =
     (case key of
        [] \<Rightarrow> False
      | c # cs \<Rightarrow>
          (is_alpha c \<or> c = CHR ''_'') \<and> list_all (\<lambda>c. is_alpha c \<or> is_digit c \<or> c = CHR ''_'') cs)"

definition list_error :: "nat \<Rightarrow> agm_error" where
  "list_error number = error_at P007 ''Invalid inline list syntax'' number"

definition parse_inline_list :: "string \<Rightarrow> nat \<Rightarrow> agm_error + string list" where
  "parse_inline_list value number =
     (if \<not> ends_with '']'' value then Inl (list_error number)
      else
        (let inner = take (length value - 2) (drop 1 value) in
         Inr (filter (\<lambda>s. s \<noteq> []) (map trim (split_char CHR '','' inner)))))"

section \<open>Classification\<close>

definition lex_tab_error :: "nat \<Rightarrow> agm_error" where
  "lex_tab_error number = error_at P004 ''Tab character in indentation (spaces required)'' number"

text \<open>Rule 6: the indicator after \<open>body:\<close>; \<open>None\<close> falls through to the field rules.\<close>

definition body_marker :: "string \<Rightarrow> 8 word option option" where
  "body_marker r =
     (if r = ''|'' then Some None
      else case strip_prefix ''|'' r of
        None \<Rightarrow> None
      | Some rest \<Rightarrow>
          (let d = trim rest in
           if length d = 1 \<and> is_digit (hd d) \<and> hd d \<noteq> CHR ''0''
           then Some (Some (of_nat (byte (hd d) - 48))) else None))"

text \<open>Rules 7 to 9: a field; \<open>None\<close> falls through.\<close>

definition classify_agm_field :: "string \<Rightarrow> nat \<Rightarrow> (agm_error + line_kind) option" where
  "classify_agm_field raw number =
     (case str_find '':'' raw of
        None \<Rightarrow> None
      | Some colon \<Rightarrow>
          (let key = trim (take colon raw); value = trim (drop (colon + 1) raw) in
           if \<not> is_valid_field_key key then None
           else if starts_with ''['' value then
             Some (if \<not> ends_with '']'' value then Inl (list_error number)
               else res_bind (parse_inline_list value number) (\<lambda>items. Inr (LkList key items)))
           else if value \<noteq> [] then Some (Inr (LkScalar key value))
           else Some (Inr (LkStart key))))"

text \<open>Rules 10 to 12.\<close>

definition classify_rest :: "string \<Rightarrow> line_kind" where
  "classify_rest raw =
     (let stripped = dropWhile (\<lambda>c. c = sp) raw in
      if starts_with ''- '' stripped \<or> stripped = ''-'' then
        LkItem (if stripped = ''-'' then [] else drop 2 stripped)
      else LkIndented (trim raw))"

definition agm_line_of :: "line_kind \<Rightarrow> nat \<Rightarrow> nat \<Rightarrow> string \<Rightarrow> agm_line" where
  "agm_line_of kind number indent raw =
     \<lparr>ln_kind = kind, ln_number = number, ln_indent = indent, ln_raw = raw\<rparr>"

definition classify_line :: "string \<Rightarrow> nat \<Rightarrow> agm_error + agm_line" where
  "classify_line raw number =
     (if find_tab raw \<noteq> None then Inl (lex_tab_error number)
      else
        (let trimmed = trim raw; indent = count_indent raw;
             ok = (\<lambda>kind. Inr (agm_line_of kind number indent raw));
             fields =
               (case classify_agm_field raw number of
                  Some r \<Rightarrow> res_bind r ok
                | None \<Rightarrow> ok (classify_rest raw)) in
         if trimmed = [] then Inr (agm_line_of LkBlank number 0 raw)
         else case strip_prefix ''# expect:'' trimmed of
           Some rest \<Rightarrow> Inr (agm_line_of (LkExpect (trim rest)) number 0 raw)
         | None \<Rightarrow>
             if starts_with ''#'' trimmed then ok LkComment
             else if trimmed = ''node'' \<or> starts_with ''node '' trimmed then
               ok (LkNode (if trimmed = ''node'' then [] else trim (drop 5 trimmed)))
             else case strip_prefix ''body:'' trimmed of
               None \<Rightarrow> fields
             | Some rest \<Rightarrow>
                 (case body_marker (trim rest) of
                    Some indicator \<Rightarrow> ok (LkBody indicator)
                  | None \<Rightarrow> fields)))"

section \<open>The lexer\<close>

fun lex_from :: "nat \<Rightarrow> string list \<Rightarrow> agm_line list \<times> agm_error list" where
  "lex_from number [] = ([], [])"
| "lex_from number (raw # raws) =
     (let (lines, errors) = lex_from (Suc number) raws in
      case classify_line raw number of
        Inr line \<Rightarrow> (line # lines, errors)
      | Inl e \<Rightarrow> (lines, e # errors))"

definition lex :: "string \<Rightarrow> agm_line list parse_result" where
  "lex input =
     (let (lines, errors) = lex_from 1 (str_lines input) in
      if errors = [] then Inr lines else Inl errors)"

section \<open>Lemmas\<close>

definition is_blank :: "agm_line \<Rightarrow> bool" where
  "is_blank l \<longleftrightarrow> ln_kind l = LkBlank"

text \<open>What the lexer guarantees of each line: its indentation counts leading spaces.\<close>

definition line_wf :: "agm_line \<Rightarrow> bool" where
  "line_wf l \<longleftrightarrow>
     ln_indent l \<le> length (ln_raw l) \<and> take (ln_indent l) (ln_raw l) = replicate (ln_indent l) sp \<and>
     tab \<notin> set (ln_raw l)"

lemma find_tab_None [simp]: "find_tab s = None \<longleftrightarrow> tab \<notin> set s"
  using str_contains_char [of s tab] by (auto simp: find_tab_def str_contains_def simp del: str_contains_char)

lemma count_indent_prefix:
  "count_indent s \<le> length s \<and> take (count_indent s) s = replicate (count_indent s) sp"
  by (induction s) (auto simp: count_indent_def)

lemma classify_line_Inr:
  assumes "classify_line raw number = Inr l"
  shows "ln_raw l = raw \<and> ln_number l = number \<and> tab \<notin> set raw \<and> (ln_indent l = 0 \<or> ln_indent l = count_indent raw)"
  using assms
  by (auto simp: classify_line_def agm_line_of_def Let_def res_bind_Inr_iff split: if_splits option.splits)

lemma classify_line_wf: "classify_line raw number = Inr l \<Longrightarrow> line_wf l"
  using classify_line_Inr [of raw number l] count_indent_prefix [of raw] by (auto simp: line_wf_def)

lemma classify_line_errors:
  "classify_line raw number = Inl e \<Longrightarrow> e = lex_tab_error number \<or> e = list_error number"
  by (auto simp: classify_line_def classify_agm_field_def parse_inline_list_def Let_def res_bind_Inl_iff
      split: if_splits option.splits)

lemma lex_from_wf: "l \<in> set (fst (lex_from n raws)) \<Longrightarrow> line_wf l"
  by (induction raws arbitrary: n) (auto simp: case_prod_beta Let_def classify_line_wf split: sum.splits)

lemma lex_from_append:
  "lex_from n (xs @ ys) =
     (fst (lex_from n xs) @ fst (lex_from (n + length xs) ys),
      snd (lex_from n xs) @ snd (lex_from (n + length xs) ys))"
  by (induction xs arbitrary: n) (auto simp: case_prod_beta Let_def split: sum.split)

lemma lex_from_complete: "snd (lex_from n raws) = [] \<Longrightarrow> map ln_raw (fst (lex_from n raws)) = raws"
  by (induction raws arbitrary: n)
    (auto simp: case_prod_beta Let_def dest: classify_line_Inr split: sum.splits)

lemma is_error_codes [simp]: "is_error (lex_tab_error n)" "is_error (list_error n)"
  by (simp_all add: is_error_def lex_tab_error_def list_error_def)

end
