(* ===== verification/Parse_Fields.thy ===== *)
theory Parse_Fields
  imports Lexer
begin

text \<open>
  The helpers the header and node parsers share, \<open>crates/agm-core/src/parser/fields.rs\<close>. A
  parser of the source reads \<open>lines\<close> at \<open>*pos\<close> and advances it; here it takes the lines from
  \<open>*pos\<close> on and returns its value with the lines that are left.
\<close>

section \<open>The outside\<close>

text \<open>
  \<open>pe_semver\<close> tells whether \<open>semver::Version::parse\<close> accepts a version, \<open>pe_escape\<close> is how
  \<open>Debug\<close> prints a character beyond ASCII, from the tables of Unicode.
\<close>

record parse_env =
  pe_semver :: "string \<Rightarrow> bool"
  pe_escape :: "string \<Rightarrow> string"

text \<open>\<open>Debug\<close> of a string, as \<open>{:?}\<close> prints it.\<close>

definition hex_digit :: "nat \<Rightarrow> char" where
  "hex_digit d = (if d < 10 then char_of (48 + d) else char_of (87 + d))"

definition debug_char :: "parse_env \<Rightarrow> string \<Rightarrow> string" where
  "debug_char pe s =
     (case s of
        [c] \<Rightarrow>
          (if c = CHR 0x22 then [CHR 0x5C, CHR 0x22]
           else if c = CHR 0x5C then [CHR 0x5C, CHR 0x5C]
           else if c = nl then [CHR 0x5C, CHR ''n'']
           else if c = cr then [CHR 0x5C, CHR ''r'']
           else if c = tab then [CHR 0x5C, CHR ''t'']
           else if byte c = 0 then [CHR 0x5C, CHR ''0'']
           else if byte c < 16 then CHR 0x5C # ''u{'' @ [hex_digit (byte c)] @ ''}''
           else if byte c < 32 \<or> byte c = 127 then
             CHR 0x5C # ''u{'' @ [hex_digit (byte c div 16), hex_digit (byte c mod 16)] @ ''}''
           else if byte c < 127 then [c]
           else pe_escape pe [c])
      | _ \<Rightarrow> pe_escape pe s)"

definition str_debug :: "parse_env \<Rightarrow> string \<Rightarrow> string" where
  "str_debug pe s = CHR 0x22 # concat (map (debug_char pe) (str_chars s)) @ [CHR 0x22]"

section \<open>Structured fields\<close>

definition structured_field_names :: "string list" where
  "structured_field_names =
     [''code'', ''code_blocks'', ''verify'', ''agent_context'', ''parallel_groups'', ''memory'', ''load_profiles'']"

definition is_structured_field :: "string \<Rightarrow> bool" where
  "is_structured_field name \<longleftrightarrow> name \<in> set structured_field_names"

text \<open>The duplicate check: the names seen, and whether the name was there already.\<close>

definition track :: "string \<Rightarrow> string list \<Rightarrow> bool \<times> string list" where
  "track name seen = (name \<in> set seen, if name \<in> set seen then seen else name # seen)"

section \<open>Lists\<close>

definition is_comment :: "agm_line \<Rightarrow> bool" where
  "is_comment l \<longleftrightarrow> (case ln_kind l of LkComment \<Rightarrow> True | LkExpect _ \<Rightarrow> True | _ \<Rightarrow> False)"

definition is_item :: "agm_line \<Rightarrow> bool" where
  "is_item l \<longleftrightarrow> (case ln_kind l of LkItem _ \<Rightarrow> True | _ \<Rightarrow> False)"

definition is_node :: "agm_line \<Rightarrow> bool" where
  "is_node l \<longleftrightarrow> (case ln_kind l of LkNode _ \<Rightarrow> True | _ \<Rightarrow> False)"

text \<open>Whether the first line after blanks and comments is a list item.\<close>

fun item_ahead :: "agm_line list \<Rightarrow> bool" where
  "item_ahead [] = False"
| "item_ahead (l # ls) =
     (if is_blank l \<or> is_comment l then item_ahead ls else is_item l)"

fun parse_indented_list :: "agm_line list \<Rightarrow> string list \<times> agm_line list" where
  "parse_indented_list [] = ([], [])"
| "parse_indented_list (l # ls) =
     (case ln_kind l of
        LkItem value \<Rightarrow> (let (items, rest) = parse_indented_list ls in (value # items, rest))
      | LkComment \<Rightarrow> parse_indented_list ls
      | LkExpect _ \<Rightarrow> parse_indented_list ls
      | LkBlank \<Rightarrow> if item_ahead ls then parse_indented_list ls else ([], l # ls)
      | _ \<Rightarrow> ([], l # ls))"

section \<open>Blocks\<close>

definition is_text :: "agm_line \<Rightarrow> bool" where
  "is_text l \<longleftrightarrow> (case ln_kind l of LkIndented _ \<Rightarrow> True | LkItem _ \<Rightarrow> True | _ \<Rightarrow> False)"

text \<open>The indentation of the first line of the block.\<close>

fun block_base :: "agm_line list \<Rightarrow> nat" where
  "block_base [] = 0"
| "block_base (l # ls) =
     (if is_text l then ln_indent l else if is_blank l then block_base ls else 0)"

fun text_ahead :: "agm_line list \<Rightarrow> bool" where
  "text_ahead [] = False"
| "text_ahead (l # ls) = (if is_blank l then text_ahead ls else is_text l)"

text \<open>The lines of the block; \<open>None\<close> is the panic of slicing inside a character.\<close>

fun block_lines :: "nat \<Rightarrow> agm_line list \<Rightarrow> (string list \<times> agm_line list) option" where
  "block_lines base [] = Some ([], [])"
| "block_lines base (l # ls) =
     (if is_text l then
        Option.bind
          (if base \<le> length (ln_raw l) then str_slice (ln_raw l) base (length (ln_raw l))
           else Some (trim_start (ln_raw l)))
          (\<lambda>stripped. map_option (\<lambda>(parts, rest). (stripped # parts, rest)) (block_lines base ls))
      else if is_blank l \<and> text_ahead ls then
        map_option (\<lambda>(parts, rest). ([] # parts, rest)) (block_lines base ls)
      else Some ([], l # ls))"

definition finish_block :: "string list \<Rightarrow> string" where
  "finish_block parts = join [nl] (rev (dropWhile (\<lambda>s. s = []) (rev parts)))"

definition parse_block :: "agm_line list \<Rightarrow> (string \<times> agm_line list) option" where
  "parse_block ls =
     map_option (\<lambda>(parts, rest). (finish_block parts, rest)) (block_lines (block_base ls) ls)"

section \<open>Imports\<close>

fun parse_imports :: "parse_env \<Rightarrow> string list \<Rightarrow> nat \<Rightarrow> import_entry list \<times> agm_error list" where
  "parse_imports pe [] number = ([], [])"
| "parse_imports pe (item # items) number =
     (let (entries, errors) = parse_imports pe items number in
      case parse_import_entry item of
        Inr e \<Rightarrow> (e # entries, errors)
      | Inl _ \<Rightarrow> (entries, error_at P001 (''Invalid import entry: '' @ str_debug pe item) number # errors))"

section \<open>Fields that are skipped\<close>

definition is_content :: "agm_line \<Rightarrow> bool" where
  "is_content l \<longleftrightarrow>
     (case ln_kind l of
        LkScalar _ _ \<Rightarrow> True | LkList _ _ \<Rightarrow> True | LkStart _ \<Rightarrow> True | LkItem _ \<Rightarrow> True
      | LkIndented _ \<Rightarrow> True | LkBody _ \<Rightarrow> True | _ \<Rightarrow> False)"

definition is_body :: "agm_line \<Rightarrow> bool" where
  "is_body l \<longleftrightarrow> (case ln_kind l of LkBody _ \<Rightarrow> True | _ \<Rightarrow> False)"

fun raw_ahead :: "agm_line list \<Rightarrow> bool" where
  "raw_ahead [] = False"
| "raw_ahead (l # ls) =
     (if is_blank l then raw_ahead ls else is_content l \<and> \<not> is_body l \<and> 0 < ln_indent l)"

fun raw_lines :: "agm_line list \<Rightarrow> string list \<times> agm_line list" where
  "raw_lines [] = ([], [])"
| "raw_lines (l # ls) =
     (if is_content l \<and> (0 < ln_indent l \<or> is_text l) \<or> is_blank l \<and> raw_ahead ls then
        (let (parts, rest) = raw_lines ls in (ln_raw l # parts, rest))
      else ([], l # ls))"

definition collect_structured_raw :: "agm_line list \<Rightarrow> string \<times> agm_line list" where
  "collect_structured_raw ls = (let (parts, rest) = raw_lines ls in (join [nl] parts, rest))"

definition skip_field_body :: "agm_line list \<Rightarrow> agm_line list" where
  "skip_field_body ls = snd (collect_structured_raw ls)"

section \<open>Lemmas\<close>

text \<open>
  A parser never reads past a node declaration: what follows one does not change the value
  and is left over. \<open>at_node\<close> says that the lines end or a node begins.
\<close>

definition at_node :: "agm_line list \<Rightarrow> bool" where
  "at_node ls \<longleftrightarrow> (case ls of [] \<Rightarrow> True | l # _ \<Rightarrow> is_node l)"

lemma at_node_simps [simp]: "at_node []" "at_node (l # ls) \<longleftrightarrow> is_node l"
  by (simp_all add: at_node_def)

named_theorems local_simps "what follows a node declaration does not matter"

lemma node_is_not [simp]:
  assumes "is_node l"
  shows "\<not> is_blank l" "\<not> is_comment l" "\<not> is_item l" "\<not> is_text l" "\<not> is_content l"
  using assms
  by (auto simp: is_node_def is_blank_def is_comment_def is_item_def is_text_def is_content_def split: line_kind.splits)

lemma item_ahead_local [local_simps]: "at_node tail \<Longrightarrow> item_ahead (ls @ tail) = item_ahead ls"
  by (induction ls) (cases tail; simp)+

lemma text_ahead_local [local_simps]: "at_node tail \<Longrightarrow> text_ahead (ls @ tail) = text_ahead ls"
  by (induction ls) (cases tail; simp)+

lemma raw_ahead_local [local_simps]: "at_node tail \<Longrightarrow> raw_ahead (ls @ tail) = raw_ahead ls"
  by (induction ls) (cases tail; simp)+

lemma block_base_local [local_simps]: "at_node tail \<Longrightarrow> block_base (ls @ tail) = block_base ls"
  by (induction ls) (cases tail; simp)+

lemma parse_indented_list_local [local_simps]:
  "at_node tail \<Longrightarrow> parse_indented_list (ls @ tail) = apsnd (\<lambda>r. r @ tail) (parse_indented_list ls)"
proof (induction ls)
  case Nil
  then show ?case by (cases tail) (auto simp: is_node_def split: line_kind.splits)
next
  case (Cons l ls)
  then show ?case by (auto simp: local_simps case_prod_beta Let_def apsnd_def map_prod_def split: line_kind.splits)
qed

lemma block_lines_local [local_simps]:
  "at_node tail \<Longrightarrow> block_lines base (ls @ tail) = map_option (apsnd (\<lambda>r. r @ tail)) (block_lines base ls)"
proof (induction ls)
  case Nil
  then show ?case by (cases tail) auto
next
  case (Cons l ls)
  then show ?case
    by (cases "block_lines base ls") (auto simp: local_simps case_prod_beta split: option.splits bind_splits)
qed

lemma parse_block_local [local_simps]:
  "at_node tail \<Longrightarrow> parse_block (ls @ tail) = map_option (apsnd (\<lambda>r. r @ tail)) (parse_block ls)"
  by (cases "block_lines (block_base ls) ls") (auto simp: parse_block_def local_simps)

lemma raw_lines_local [local_simps]:
  "at_node tail \<Longrightarrow> raw_lines (ls @ tail) = apsnd (\<lambda>r. r @ tail) (raw_lines ls)"
proof (induction ls)
  case Nil
  then show ?case by (cases tail) auto
next
  case (Cons l ls)
  then show ?case by (auto simp: local_simps case_prod_beta Let_def)
qed

lemma skip_field_body_local [local_simps]: "at_node tail \<Longrightarrow> skip_field_body (ls @ tail) = skip_field_body ls @ tail"
  by (simp add: skip_field_body_def collect_structured_raw_def local_simps case_prod_beta Let_def)

lemma collect_structured_raw_local [local_simps]:
  "at_node tail \<Longrightarrow> collect_structured_raw (ls @ tail) = apsnd (\<lambda>r. r @ tail) (collect_structured_raw ls)"
  by (simp add: collect_structured_raw_def local_simps case_prod_beta Let_def)

text \<open>What is left is a suffix, so every parser moves forward.\<close>

lemma parse_indented_list_length: "length (snd (parse_indented_list ls)) \<le> length ls"
  by (induction ls) (auto simp: case_prod_beta Let_def le_SucI split: line_kind.splits)

lemma block_lines_length: "block_lines base ls = Some (parts, rest) \<Longrightarrow> length rest \<le> length ls"
  by (induction ls arbitrary: parts)
    (fastforce simp: le_SucI split: if_splits bind_splits)+

lemma parse_block_length: "parse_block ls = Some (s, rest) \<Longrightarrow> length rest \<le> length ls"
  by (auto simp: parse_block_def dest: block_lines_length)

lemma raw_lines_length: "length (snd (raw_lines ls)) \<le> length ls"
  by (induction ls) (auto simp: case_prod_beta Let_def le_SucI)

lemma skip_field_body_length: "length (skip_field_body ls) \<le> length ls"
  by (simp add: skip_field_body_def collect_structured_raw_def case_prod_beta Let_def raw_lines_length)

lemma collect_structured_raw_length: "length (snd (collect_structured_raw ls)) \<le> length ls"
  by (simp add: collect_structured_raw_def case_prod_beta Let_def raw_lines_length)

end
