(* ===== verification/Structured.thy ===== *)
theory Structured
  imports Parse_Fields
begin

text \<open>
  The parsers of structured fields, \<open>crates/agm-core/src/parser/structured.rs\<close>. A loop of the
  source that skips blank lines and then looks at the line reached is one recursion over the
  lines. The errors a parser adds are part of its value.
\<close>

section \<open>Indentation\<close>

fun detect_base_indent :: "agm_line list \<Rightarrow> nat option" where
  "detect_base_indent [] = None"
| "detect_base_indent (l # ls) =
     (if is_blank l then detect_base_indent ls else if is_node l then None else Some (ln_indent l))"

definition is_within_field :: "agm_line list \<Rightarrow> nat \<Rightarrow> bool" where
  "is_within_field ls base \<longleftrightarrow>
     (case ls of [] \<Rightarrow> False | l # _ \<Rightarrow> is_blank l \<or> \<not> is_node l \<and> base \<le> ln_indent l)"

definition skip_blanks :: "agm_line list \<Rightarrow> agm_line list" where
  "skip_blanks ls = dropWhile is_blank ls"

text \<open>After blanks the block goes on: the peek of every loop over indented lines.\<close>

definition more_body :: "nat \<Rightarrow> agm_line list \<Rightarrow> bool" where
  "more_body indent ls \<longleftrightarrow> skip_blanks ls \<noteq> [] \<and> is_within_field (skip_blanks ls) indent"

definition parse_kv_from_text :: "string \<Rightarrow> (string \<times> string) option" where
  "parse_kv_from_text text =
     (let trimmed = trim text in
      Option.bind (str_find '':'' trimmed) (\<lambda>colon.
        (let key = trim (take colon trimmed); value = trim (drop (colon + 1) trimmed) in
         if key = [] then None else Some (key, value))))"

section \<open>Bodies\<close>

text \<open>
  The bytes cut off a line of the body are spaces (\<open>strip_indent_spaces\<close>), so the slice never
  falls inside a character.
\<close>

definition strip_indent :: "nat \<Rightarrow> string \<Rightarrow> string" where
  "strip_indent indent raw = (if indent \<le> length raw then drop indent raw else trim_start raw)"

fun body_lines :: "nat \<Rightarrow> agm_line list \<Rightarrow> string list \<times> agm_line list" where
  "body_lines indent [] = ([], [])"
| "body_lines indent (l # ls) =
     (if is_node l then ([], l # ls)
      else if is_blank l then
        (if more_body indent ls then (let (parts, rest) = body_lines indent ls in ([] # parts, rest))
         else ([], l # ls))
      else if ln_indent l < indent then ([], l # ls)
      else (let (parts, rest) = body_lines indent ls in (strip_indent indent (ln_raw l) # parts, rest)))"

definition collect_pipe_body ::
  "agm_line list \<Rightarrow> (nat \<times> 8 word) option \<Rightarrow> string \<times> agm_line list" where
  "collect_pipe_body ls explicit =
     (case (case explicit of Some (marker, n) \<Rightarrow> Some (marker + unat n) | None \<Rightarrow> detect_base_indent ls) of
        None \<Rightarrow> ([], ls)
      | Some indent \<Rightarrow> (let (parts, rest) = body_lines indent ls in (finish_block parts, rest)))"

section \<open>Sub-fields\<close>

datatype sub_value = SfScalar string | SfList "string list" | SfPipe string

type_synonym sub_fields = "(string \<times> sub_value) list"

fun sub_items :: "nat \<Rightarrow> agm_line list \<Rightarrow> string list \<times> agm_line list" where
  "sub_items indent [] = ([], [])"
| "sub_items indent (l # ls) =
     (case ln_kind l of
        LkItem v \<Rightarrow> (let (items, rest) = sub_items indent ls in (v # items, rest))
      | LkBlank \<Rightarrow>
          (case skip_blanks ls of
             [] \<Rightarrow> ([], l # ls)
           | m # _ \<Rightarrow> if is_item m \<and> indent < ln_indent m then sub_items indent ls else ([], l # ls))
      | _ \<Rightarrow> ([], l # ls))"

text \<open>What follows a field without a value: a list, a deeper block, or nothing.\<close>

definition start_value :: "nat \<Rightarrow> agm_line list \<Rightarrow> sub_value \<times> agm_line list" where
  "start_value indent ls =
     (let ls = skip_blanks ls in
      case ls of
        [] \<Rightarrow> (SfScalar [], [])
      | l # _ \<Rightarrow>
          if is_item l then (let (items, rest) = sub_items indent ls in (SfList items, rest))
          else if indent < ln_indent l then
            (let (parts, rest) = body_lines (ln_indent l) ls in (SfScalar (finish_block parts), rest))
          else (SfScalar [], ls))"

lemma skip_blanks_length: "length (skip_blanks ls) \<le> length ls"
  by (simp add: skip_blanks_def length_dropWhile_le)

lemma body_lines_length: "length (snd (body_lines indent ls)) \<le> length ls"
  by (induction ls) (auto simp: case_prod_beta Let_def le_SucI)

lemma collect_pipe_body_length: "length (snd (collect_pipe_body ls explicit)) \<le> length ls"
  by (auto simp: collect_pipe_body_def case_prod_beta Let_def body_lines_length split: option.split)

lemma sub_items_length: "length (snd (sub_items indent ls)) \<le> length ls"
  by (induction ls) (auto simp: case_prod_beta Let_def le_SucI split: line_kind.split list.split)

lemma start_value_length: "length (snd (start_value indent ls)) \<le> length ls"
  using skip_blanks_length [of ls] sub_items_length [of indent "skip_blanks ls"]
    body_lines_length [of _ "skip_blanks ls"]
  by (auto simp: start_value_def case_prod_beta Let_def intro: le_trans split: list.split)

function collect_sub_fields :: "nat \<Rightarrow> agm_line list \<Rightarrow> sub_fields \<times> agm_line list" where
  "collect_sub_fields base [] = ([], [])"
| "collect_sub_fields base (l # ls) =
     (if is_blank l then (if more_body base ls then collect_sub_fields base ls else ([], l # ls))
      else if is_node l \<or> ln_indent l < base then ([], l # ls)
      else case ln_kind l of
        LkScalar key value \<Rightarrow>
          (let (fs, rest) = collect_sub_fields base ls in ((key, SfScalar value) # fs, rest))
      | LkList key items \<Rightarrow>
          (let (fs, rest) = collect_sub_fields base ls in ((key, SfList items) # fs, rest))
      | LkBody indicator \<Rightarrow>
          (let (body, after) = collect_pipe_body ls (map_option (Pair (ln_indent l)) indicator);
               (fs, rest) = collect_sub_fields base after in
           ((''body'', SfPipe body) # fs, rest))
      | LkStart key \<Rightarrow>
          (let (value, after) = start_value (ln_indent l) ls;
               (fs, rest) = collect_sub_fields base after in
           ((key, value) # fs, rest))
      | _ \<Rightarrow> ([], l # ls))"
  by pat_completeness auto
termination
  by (relation "measure (\<lambda>(base, ls). length ls)")
    (auto simp: less_Suc_eq_le collect_pipe_body_length start_value_length
      intro: collect_pipe_body_length [of _ _, THEN le_trans] dest!: arg_cong [of _ _ snd]
      split: prod.splits)

declare collect_sub_fields.simps [simp del]


lemma collect_sub_fields_length: "length (snd (collect_sub_fields base ls)) \<le> length ls"
proof (induction ls rule: length_induct)
  case (1 ls)
  show ?case
  proof (cases ls)
    case (Cons l xs)
    have ih: "length ys \<le> length xs \<Longrightarrow> length (snd (collect_sub_fields base ys)) \<le> Suc (length xs)" for ys
      using 1 Cons by (metis le_SucI le_imp_less_Suc le_trans length_Cons)
    have "length (snd (collect_sub_fields base (l # xs))) \<le> Suc (length xs)"
      using ih [OF order_refl] ih [OF collect_pipe_body_length] ih [OF start_value_length]
      by (subst collect_sub_fields.simps) (simp add: case_prod_beta Let_def split: line_kind.split)
    then show ?thesis by (simp add: Cons)
  qed (simp add: collect_sub_fields.simps)
qed

section \<open>Looking up sub-fields\<close>

fun get_scalar :: "sub_fields \<Rightarrow> string \<Rightarrow> string option" where
  "get_scalar [] key = None"
| "get_scalar ((k, v) # fs) key =
     (case (k = key, v) of
        (True, SfScalar s) \<Rightarrow> Some s
      | (True, SfPipe s) \<Rightarrow> Some s
      | _ \<Rightarrow> get_scalar fs key)"

fun get_list :: "sub_fields \<Rightarrow> string \<Rightarrow> string list option" where
  "get_list [] key = None"
| "get_list ((k, v) # fs) key =
     (case (k = key, v) of (True, SfList items) \<Rightarrow> Some items | _ \<Rightarrow> get_list fs key)"

text \<open>A value that is there and not empty.\<close>

definition get_filled :: "sub_fields \<Rightarrow> string \<Rightarrow> string option" where
  "get_filled fs key =
     (case get_scalar fs key of Some s \<Rightarrow> if s = [] then None else Some s | None \<Rightarrow> None)"

definition field_missing :: "error_code \<Rightarrow> string \<Rightarrow> string \<Rightarrow> nat \<Rightarrow> agm_error" where
  "field_missing code what key number =
     error_at code (what @ '' missing required field: `'' @ key @ ''`'') number"

section \<open>Lists of objects\<close>

text \<open>An entry: the pair on the line of the dash and the fields below it.\<close>

definition entry_fields :: "nat \<Rightarrow> string \<Rightarrow> agm_line list \<Rightarrow> sub_fields \<times> agm_line list" where
  "entry_fields base text ls =
     (let first = (if text = [] then []
            else case parse_kv_from_text text of Some (k, v) \<Rightarrow> [(k, SfScalar v)] | None \<Rightarrow> []) in
      case detect_base_indent ls of
        Some si \<Rightarrow>
          if base < si then (let (fs, rest) = collect_sub_fields si ls in (first @ fs, rest))
          else (first, ls)
      | None \<Rightarrow> (first, ls))"

lemma entry_fields_length: "length (snd (entry_fields base text ls)) \<le> length ls"
  using collect_sub_fields_length
  by (auto simp: entry_fields_def case_prod_beta Let_def split: option.split)

text \<open>The loop over the entries of a list: the line of each dash with the fields.\<close>

function object_entries :: "nat \<Rightarrow> agm_line list \<Rightarrow> (nat \<times> sub_fields) list \<times> agm_line list" where
  "object_entries base [] = ([], [])"
| "object_entries base (l # ls) =
     (if is_blank l then object_entries base ls
      else if \<not> is_within_field (l # ls) base then ([], l # ls)
      else case ln_kind l of
        LkItem text \<Rightarrow>
          (let (fs, after) = entry_fields base text ls;
               (entries, rest) = object_entries base after in
           ((ln_number l, fs) # entries, rest))
      | _ \<Rightarrow> ([], l # ls))"
  by pat_completeness auto
termination
proof (relation "measure (\<lambda>(base, ls). length ls)")
  fix base :: nat and l ls s p and fs :: sub_fields and after
  assume "p = entry_fields base s ls" "(fs, after) = p"
  then show "((base, after), base, l # ls) \<in> measure (\<lambda>(base, ls). length ls)"
    using entry_fields_length [of base s ls] by (metis case_prod_conv in_measure le_imp_less_Suc length_Cons snd_conv)
qed auto

declare object_entries.simps [simp del]

text \<open>
  Every list of objects is parsed by this loop with a builder of one entry, which may refuse
  the entry and may add errors.
\<close>

definition parse_objects ::
  "(nat \<Rightarrow> sub_fields \<Rightarrow> 'a option \<times> agm_error list) \<Rightarrow> nat \<Rightarrow> agm_line list \<Rightarrow>
   ('a list \<times> agm_error list) \<times> agm_line list" where
  "parse_objects build base ls =
     (let (entries, rest) = object_entries base ls;
          built = map (\<lambda>(number, fs). build number fs) entries in
      ((List.map_filter fst built, concat (map snd built)), rest))"

definition parse_object_list ::
  "(nat \<Rightarrow> sub_fields \<Rightarrow> 'a option \<times> agm_error list) \<Rightarrow> agm_line list \<Rightarrow>
   ('a list \<times> agm_error list) \<times> agm_line list" where
  "parse_object_list build ls =
     (case detect_base_indent ls of
        None \<Rightarrow> (([], []), ls)
      | Some base \<Rightarrow> parse_objects build base ls)"

section \<open>Code blocks\<close>

definition build_code_block_from_fields ::
  "parse_env \<Rightarrow> nat \<Rightarrow> sub_fields \<Rightarrow> code_block \<times> agm_error list" where
  "build_code_block_from_fields pe number fs =
     (let (action, errors) =
            (case get_filled fs ''action'' of
               None \<Rightarrow> (CaFull, [field_missing V008 ''Code block'' ''action'' number])
             | Some a \<Rightarrow>
                 (case parse_code_action a of
                    Inr action \<Rightarrow> (action, [])
                  | Inl _ \<Rightarrow>
                      (CaFull, [error_at P003 (''Invalid `action` value in code block: '' @ str_debug pe a) number])));
          body = (case get_scalar fs ''body'' of Some b \<Rightarrow> b | None \<Rightarrow> []) in
      (\<lparr>cb_lang = get_filled fs ''lang'', cb_target = get_filled fs ''target'', cb_action = action,
        cb_body = body, cb_anchor = get_filled fs ''anchor'', cb_old = get_filled fs ''old''\<rparr>,
       errors @ (if body = [] then [field_missing V008 ''Code block'' ''body'' number] else [])))"

text \<open>\<open>number\<close> is the number of the line before, that of the field.\<close>

definition parse_code_block ::
  "parse_env \<Rightarrow> nat \<Rightarrow> agm_line list \<Rightarrow> (code_block \<times> agm_error list) \<times> agm_line list" where
  "parse_code_block pe number ls =
     (case detect_base_indent ls of
        None \<Rightarrow>
          ((\<lparr>cb_lang = None, cb_target = None, cb_action = CaFull, cb_body = [], cb_anchor = None, cb_old = None\<rparr>,
            [field_missing V008 ''Code block'' ''action'' number, field_missing V008 ''Code block'' ''body'' number]),
           ls)
      | Some base \<Rightarrow>
          (let (fs, rest) = collect_sub_fields base ls in
           (build_code_block_from_fields pe number fs, rest)))"

definition parse_code_blocks ::
  "parse_env \<Rightarrow> agm_line list \<Rightarrow> (code_block list \<times> agm_error list) \<times> agm_line list" where
  "parse_code_blocks pe ls =
     parse_object_list (\<lambda>number fs. apfst Some (build_code_block_from_fields pe number fs)) ls"

section \<open>Verify checks\<close>

text \<open>A required value of an entry, or the error that it is missing.\<close>

definition required ::
  "error_code \<Rightarrow> string \<Rightarrow> nat \<Rightarrow> sub_fields \<Rightarrow> string \<Rightarrow> (string \<Rightarrow> 'a option \<times> agm_error list) \<Rightarrow>
   'a option \<times> agm_error list" where
  "required code what number fs key f =
     (case get_filled fs key of
        None \<Rightarrow> (None, [field_missing code what key number])
      | Some s \<Rightarrow> f s)"

definition build_verify_check_from_fields ::
  "parse_env \<Rightarrow> nat \<Rightarrow> sub_fields \<Rightarrow> verify_check option \<times> agm_error list" where
  "build_verify_check_from_fields pe number fs =
     (let need = required V009 ''Verify entry'' number fs in
      need ''type'' (\<lambda>t.
        if t = ''command'' then need ''run'' (\<lambda>r. (Some (VcCommand r (get_filled fs ''expect'')), []))
        else if t = ''file_exists'' then need ''file'' (\<lambda>f. (Some (VcFileExists f), []))
        else if t = ''file_contains'' then
          need ''file'' (\<lambda>f. need ''pattern'' (\<lambda>p. (Some (VcFileContains f p), [])))
        else if t = ''file_not_contains'' then
          need ''file'' (\<lambda>f. need ''pattern'' (\<lambda>p. (Some (VcFileNotContains f p), [])))
        else if t = ''node_status'' then
          need ''node'' (\<lambda>n. need ''status'' (\<lambda>s. (Some (VcNodeStatus n s), [])))
        else (None, [error_at P003 (''Unknown verify type: '' @ str_debug pe t) number])))"

definition parse_verify ::
  "parse_env \<Rightarrow> agm_line list \<Rightarrow> (verify_check list \<times> agm_error list) \<times> agm_line list" where
  "parse_verify pe ls = parse_object_list (build_verify_check_from_fields pe) ls"


section \<open>Agent contexts\<close>

definition parse_file_range :: "string \<Rightarrow> file_range" where
  "parse_file_range s =
     (if s = ''full'' then RangeFull
      else case strip_prefix ''function:'' s of
        Some name \<Rightarrow> RangeFunction (trim name)
      | None \<Rightarrow>
          (case str_find ''-'' s of
             None \<Rightarrow> RangeFull
           | Some dash \<Rightarrow>
               (case (parse_u64 (trim (take dash s)), parse_u64 (trim (drop (dash + 1) s))) of
                  (Some a, Some b) \<Rightarrow> RangeLines a b
                | _ \<Rightarrow> RangeFull)))"

definition build_load_file :: "nat \<Rightarrow> sub_fields \<Rightarrow> load_file option \<times> agm_error list" where
  "build_load_file number fs =
     required P003 ''load_files entry'' number fs ''path'' (\<lambda>path.
       (Some \<lparr>lf_path = path,
              lf_range = (case get_scalar fs ''range'' of Some r \<Rightarrow> parse_file_range r | None \<Rightarrow> RangeFull)\<rparr>, []))"

definition parse_load_files_list ::
  "agm_line list \<Rightarrow> nat \<Rightarrow> (load_file list \<times> agm_error list) \<times> agm_line list" where
  "parse_load_files_list ls base = parse_objects build_load_file base ls"

text \<open>The items of a list that is indented by at least \<open>indent\<close>.\<close>

fun context_items :: "nat \<Rightarrow> agm_line list \<Rightarrow> string list \<times> agm_line list" where
  "context_items indent [] = ([], [])"
| "context_items indent (l # ls) =
     (if is_blank l then context_items indent ls
      else if \<not> is_within_field (l # ls) indent then ([], l # ls)
      else case ln_kind l of
        LkItem v \<Rightarrow> (let (items, rest) = context_items indent ls in (v # items, rest))
      | _ \<Rightarrow> ([], l # ls))"

fun skip_deeper :: "nat \<Rightarrow> agm_line list \<Rightarrow> agm_line list" where
  "skip_deeper indent [] = []"
| "skip_deeper indent (l # ls) =
     (if is_within_field (l # ls) indent then skip_deeper indent ls else l # ls)"

text \<open>The lines below a field: handled by \<open>f\<close> when they are deeper than the field.\<close>

definition when_deeper ::
  "nat \<Rightarrow> agm_line list \<Rightarrow> (nat \<Rightarrow> agm_line list \<Rightarrow> 'a \<times> agm_line list) \<Rightarrow> 'a option \<times> agm_line list" where
  "when_deeper base ls f =
     (case detect_base_indent ls of
        Some si \<Rightarrow> if base < si then apfst Some (f si ls) else (None, ls)
      | None \<Rightarrow> (None, ls))"

definition context_scalar ::
  "parse_env \<Rightarrow> nat \<Rightarrow> string \<Rightarrow> string \<Rightarrow> agent_context \<Rightarrow> agent_context \<times> agm_error list" where
  "context_scalar pe number key value ac =
     (if key = ''system_hint'' then (ac\<lparr>ac_system_hint := Some value\<rparr>, [])
      else if key = ''max_tokens'' then
        (case parse_u64 value of
           Some n \<Rightarrow> (ac\<lparr>ac_max_tokens := Some n\<rparr>, [])
         | None \<Rightarrow> (ac, [error_at P003 (''Invalid `max_tokens` value: '' @ str_debug pe value) number]))
      else (ac, []))"

definition context_list :: "string \<Rightarrow> string list \<Rightarrow> agent_context \<Rightarrow> agent_context" where
  "context_list key items ac =
     (if key = ''load_nodes'' then ac\<lparr>ac_load_nodes := Some items\<rparr>
      else if key = ''load_memory'' then ac\<lparr>ac_load_memory := Some items\<rparr>
      else ac)"

definition context_start ::
  "nat \<Rightarrow> string \<Rightarrow> agm_line list \<Rightarrow> agent_context \<Rightarrow> (agent_context \<times> agm_error list) \<times> agm_line list" where
  "context_start base key ls ac =
     (if key = ''load_nodes'' \<or> key = ''load_memory'' then
        (let (items, rest) = when_deeper base ls context_items in
         ((case items of Some xs \<Rightarrow> context_list key xs ac | None \<Rightarrow> ac, []), rest))
      else if key = ''load_files'' then
        (let (r, rest) = when_deeper base ls (\<lambda>si ls. parse_load_files_list ls si) in
         case r of
           None \<Rightarrow> ((ac, []), rest)
         | Some (files, errors) \<Rightarrow>
             ((if files = [] then ac else ac\<lparr>ac_load_files := Some files\<rparr>, errors), rest))
      else
        (let (_, rest) = when_deeper base ls (\<lambda>si ls. ((), skip_deeper si ls)) in ((ac, []), rest)))"

lemma object_entries_length: "length (snd (object_entries base ls)) \<le> length ls"
proof (induction ls rule: length_induct)
  case (1 ls)
  show ?case
  proof (cases ls)
    case (Cons l xs)
    have ih: "length ys \<le> length xs \<Longrightarrow> length (snd (object_entries base ys)) \<le> Suc (length xs)" for ys
      using 1 Cons by (metis le_SucI le_imp_less_Suc le_trans length_Cons)
    have "length (snd (object_entries base (l # xs))) \<le> Suc (length xs)"
      using ih [OF order_refl] ih [OF entry_fields_length]
      by (subst object_entries.simps) (simp add: case_prod_beta Let_def split: line_kind.split)
    then show ?thesis by (simp add: Cons)
  qed (simp add: object_entries.simps)
qed

lemma context_items_length: "length (snd (context_items indent ls)) \<le> length ls"
  by (induction ls) (auto simp: case_prod_beta Let_def le_SucI split: line_kind.split)

lemma skip_deeper_length: "length (skip_deeper indent ls) \<le> length ls"
  by (induction ls) (auto simp: le_SucI)

lemma when_deeper_length:
  "(\<And>si ls. length (snd (f si ls)) \<le> length ls) \<Longrightarrow> length (snd (when_deeper base ls f)) \<le> length ls"
  by (auto simp: when_deeper_def split: option.split)

lemma parse_objects_length: "length (snd (parse_objects build base ls)) \<le> length ls"
  by (simp add: parse_objects_def case_prod_beta Let_def object_entries_length)

lemma context_start_length: "length (snd (context_start base key ls ac)) \<le> length ls"
  by (auto simp: context_start_def parse_load_files_list_def case_prod_beta Let_def split: option.split
      intro!: when_deeper_length context_items_length parse_objects_length skip_deeper_length)

text \<open>One line of the context, with the lines it takes.\<close>

definition context_step ::
  "parse_env \<Rightarrow> nat \<Rightarrow> agent_context \<Rightarrow> agm_line \<Rightarrow> agm_line list \<Rightarrow>
   (agent_context \<times> agm_error list) \<times> agm_line list" where
  "context_step pe base ac l ls =
     (if ln_indent l \<noteq> base then ((ac, []), ls)
      else case ln_kind l of
        LkScalar key value \<Rightarrow> (context_scalar pe (ln_number l) key value ac, ls)
      | LkList key items \<Rightarrow> ((context_list key items ac, []), ls)
      | LkStart key \<Rightarrow> context_start base key ls ac
      | _ \<Rightarrow> ((ac, []), ls))"

lemma context_step_length: "length (snd (context_step pe base ac l ls)) \<le> length ls"
  by (auto simp: context_step_def context_start_length split: line_kind.split)

function context_loop ::
  "parse_env \<Rightarrow> nat \<Rightarrow> agent_context \<Rightarrow> agm_line list \<Rightarrow> (agent_context \<times> agm_error list) \<times> agm_line list" where
  "context_loop pe base ac [] = ((ac, []), [])"
| "context_loop pe base ac (l # ls) =
     (if is_blank l then context_loop pe base ac ls
      else if \<not> is_within_field (l # ls) base then ((ac, []), l # ls)
      else
        (let (r, after) = context_step pe base ac l ls;
             (r2, rest) = context_loop pe base (fst r) after in
         ((fst r2, snd r @ snd r2), rest)))"
  by pat_completeness auto
termination
proof (relation "measure (\<lambda>(pe, base, ac, ls). length ls)", goal_cases)
  case (3 pe base ac l ls p r after)
  then have "snd (context_step pe base ac l ls) = after" by (metis snd_conv)
  then show ?case using context_step_length [of pe base ac l ls] by auto
qed auto

declare context_loop.simps [simp del]

definition context_empty :: agent_context where
  "context_empty =
     \<lparr>ac_load_nodes = None, ac_load_files = None, ac_system_hint = None, ac_max_tokens = None,
      ac_load_memory = None\<rparr>"

definition parse_agent_context ::
  "parse_env \<Rightarrow> agm_line list \<Rightarrow> (agent_context \<times> agm_error list) \<times> agm_line list" where
  "parse_agent_context pe ls =
     (case detect_base_indent ls of
        None \<Rightarrow> ((context_empty, []), ls)
      | Some base \<Rightarrow> context_loop pe base context_empty ls)"

section \<open>Parallel groups\<close>

definition build_parallel_group ::
  "parse_env \<Rightarrow> nat \<Rightarrow> sub_fields \<Rightarrow> parallel_group option \<times> agm_error list" where
  "build_parallel_group pe number fs =
     required P003 ''parallel_groups entry'' number fs ''group'' (\<lambda>g.
       (let s = (case get_scalar fs ''strategy'' of Some s \<Rightarrow> s | None \<Rightarrow> ''sequential'');
            (strategy, errors) =
              (case parse_strategy s of
                 Inr x \<Rightarrow> (x, [])
               | Inl _ \<Rightarrow> (Sequential, [error_at P003 (''Invalid `strategy` value: '' @ str_debug pe s) number])) in
        (Some \<lparr>pg_group = g,
               pg_nodes = (case get_list fs ''nodes'' of Some xs \<Rightarrow> xs | None \<Rightarrow> []),
               pg_strategy = strategy, pg_requires = get_list fs ''requires'',
               pg_max_concurrency = Option.bind (get_scalar fs ''max_concurrency'') parse_u32\<rparr>, errors)))"

definition parse_parallel_groups ::
  "parse_env \<Rightarrow> agm_line list \<Rightarrow> (parallel_group list \<times> agm_error list) \<times> agm_line list" where
  "parse_parallel_groups pe ls = parse_object_list (build_parallel_group pe) ls"

section \<open>Memory entries\<close>

definition build_memory_entry ::
  "parse_env \<Rightarrow> nat \<Rightarrow> sub_fields \<Rightarrow> memory_entry option \<times> agm_error list" where
  "build_memory_entry pe number fs =
     (let need = required P003 ''memory entry'' number fs in
      need ''key'' (\<lambda>key. need ''topic'' (\<lambda>topic.
        (let a = (case get_scalar fs ''action'' of Some a \<Rightarrow> a | None \<Rightarrow> []) in
         case parse_memory_action a of
           Inl _ \<Rightarrow>
             (None, [error_at P003 (''memory entry missing or invalid `action`: '' @ str_debug pe a) number])
         | Inr action \<Rightarrow>
             (Some \<lparr>me_key = key, me_topic = topic, me_action = action, me_value = get_filled fs ''value'',
                me_scope = Option.bind (get_scalar fs ''scope'') (\<lambda>s. res_ok (parse_memory_scope s)),
                me_ttl = Option.bind (get_scalar fs ''ttl'') (\<lambda>s. res_ok (parse_memory_ttl s)),
                me_query = get_filled fs ''query'',
                me_max_results = Option.bind (get_scalar fs ''max_results'') parse_u32,
                me_extra_fields = []\<rparr>, [])))))"

definition parse_memory ::
  "parse_env \<Rightarrow> agm_line list \<Rightarrow> (memory_entry list \<times> agm_error list) \<times> agm_line list" where
  "parse_memory pe ls = parse_object_list (build_memory_entry pe) ls"

section \<open>Load profiles\<close>

definition build_load_profile :: "parse_env \<Rightarrow> string \<Rightarrow> sub_fields \<Rightarrow> load_profile \<times> agm_error list" where
  "build_load_profile pe name fs =
     (let flt = (case get_scalar fs ''filter'' of Some f \<Rightarrow> f | None \<Rightarrow> []) in
      (\<lparr>lp_filter = flt,
        lp_estimated_tokens = Option.bind (get_scalar fs ''estimated_tokens'') parse_token_estimate\<rparr>,
       if flt = [] then
         [agm_error_new P003 (''load_profile '' @ str_debug pe name @ '' missing required field: `filter`'')
            (error_location_new None None None)]
       else []))"

function profile_loop ::
  "parse_env \<Rightarrow> nat \<Rightarrow> (string, load_profile) btree \<Rightarrow> agm_line list \<Rightarrow>
   ((string, load_profile) btree \<times> agm_error list) \<times> agm_line list" where
  "profile_loop pe base profiles [] = ((profiles, []), [])"
| "profile_loop pe base profiles (l # ls) =
     (if is_blank l then profile_loop pe base profiles ls
      else if \<not> is_within_field (l # ls) base then ((profiles, []), l # ls)
      else
        (let start = (case ln_kind l of LkStart name \<Rightarrow> if ln_indent l = base then Some name else None | _ \<Rightarrow> None);
             (fs, after) = (if start = None then (None, ls) else when_deeper base ls collect_sub_fields) in
         case (start, fs) of
           (Some name, Some f) \<Rightarrow>
             (let (p, errors) = build_load_profile pe name f;
                  (r, rest) = profile_loop pe base (bt_insert name p profiles) after in
              ((fst r, errors @ snd r), rest))
         | _ \<Rightarrow> profile_loop pe base profiles after))"
  by pat_completeness auto
termination
proof (relation "measure (\<lambda>(pe, base, ps, ls). length ls)", goal_cases)
  case (3 pe base ps l ls start p fs after)
  have "length (snd p) \<le> length ls" using 3 by (auto simp: when_deeper_length collect_sub_fields_length)
  then show ?case using 3 by (auto simp: less_Suc_eq_le)
qed (auto simp: less_Suc_eq_le when_deeper_length collect_sub_fields_length dest!: arg_cong [of _ _ snd] split: if_splits)

declare profile_loop.simps [simp del]

definition parse_load_profiles ::
  "parse_env \<Rightarrow> agm_line list \<Rightarrow> ((string, load_profile) btree \<times> agm_error list) \<times> agm_line list" where
  "parse_load_profiles pe ls =
     (case detect_base_indent ls of
        None \<Rightarrow> (([], []), ls)
      | Some base \<Rightarrow> profile_loop pe base [] ls)"


section \<open>Lemmas\<close>

lemma strip_indent_spaces:
  assumes "line_wf l" and "indent \<le> ln_indent l"
  shows "ln_raw l = replicate indent sp @ strip_indent indent (ln_raw l)"
proof -
  have "take indent (ln_raw l) = take indent (take (ln_indent l) (ln_raw l))" using assms(2) by simp
  also have "\<dots> = replicate indent sp" using assms by (simp add: line_wf_def take_replicate min_def)
  finally have "take indent (ln_raw l) = replicate indent sp" .
  moreover have "indent \<le> length (ln_raw l)" using assms by (simp add: line_wf_def)
  ultimately show ?thesis by (metis append_take_drop_id strip_indent_def)
qed

text \<open>Nothing is read past a node declaration.\<close>

lemma detect_base_indent_local [local_simps]:
  "at_node tail \<Longrightarrow> detect_base_indent (ls @ tail) = detect_base_indent ls"
  by (induction ls) (cases tail; simp)+

lemma skip_blanks_local [local_simps]: "at_node tail \<Longrightarrow> skip_blanks (ls @ tail) = skip_blanks ls @ tail"
  unfolding skip_blanks_def by (induction ls) (cases tail; simp)+

lemma within_local [local_simps]: "at_node tail \<Longrightarrow> is_within_field (ls @ tail) base = is_within_field ls base"
  by (cases ls; cases tail) (auto simp: is_within_field_def)

lemma more_body_local [local_simps]: "at_node tail \<Longrightarrow> more_body indent (ls @ tail) = more_body indent ls"
  by (cases "skip_blanks ls"; cases tail) (auto simp: more_body_def local_simps is_within_field_def)

lemma body_lines_local [local_simps]:
  "at_node tail \<Longrightarrow> body_lines indent (ls @ tail) = apsnd (\<lambda>r. r @ tail) (body_lines indent ls)"
proof (induction ls)
  case Nil
  then show ?case by (cases tail) auto
next
  case (Cons l ls)
  then show ?case by (simp add: local_simps case_prod_beta Let_def)
qed

lemma collect_pipe_body_local [local_simps]:
  "at_node tail \<Longrightarrow> collect_pipe_body (ls @ tail) e = apsnd (\<lambda>r. r @ tail) (collect_pipe_body ls e)"
  by (auto simp: collect_pipe_body_def local_simps case_prod_beta Let_def split: option.split)

lemma sub_items_local [local_simps]:
  "at_node tail \<Longrightarrow> sub_items indent (ls @ tail) = apsnd (\<lambda>r. r @ tail) (sub_items indent ls)"
proof (induction ls)
  case Nil
  then show ?case by (cases tail) (auto simp: is_node_def split: line_kind.splits)
next
  case (Cons l ls)
  have "is_item m \<Longrightarrow> at_node tail \<Longrightarrow> tail \<noteq> m # ms" for m ms by auto
  then show ?case using Cons
    by (auto simp: local_simps case_prod_beta Let_def append_eq_Cons_conv split: line_kind.split list.split)
qed

lemma start_value_local [local_simps]:
  "at_node tail \<Longrightarrow> start_value indent (ls @ tail) = apsnd (\<lambda>r. r @ tail) (start_value indent ls)"
proof (cases "skip_blanks ls")
  case Nil
  assume "at_node tail"
  then show ?thesis using Nil
    by (cases tail) (auto simp: start_value_def local_simps case_prod_beta Let_def finish_block_def)
next
  case (Cons l xs)
  assume tail: "at_node tail"
  show ?thesis
    using Cons body_lines_local [OF tail, of _ "l # xs"] sub_items_local [OF tail, of _ "l # xs"]
    by (simp add: start_value_def skip_blanks_local [OF tail] case_prod_beta Let_def del: body_lines.simps sub_items.simps)
qed

lemma collect_sub_fields_local [local_simps]:
  assumes "at_node tail"
  shows "collect_sub_fields base (ls @ tail) = apsnd (\<lambda>r. r @ tail) (collect_sub_fields base ls)"
proof (induction ls rule: length_induct)
  case (1 ls)
  show ?case
  proof (cases ls)
    case Nil
    then show ?thesis using assms by (cases tail) (auto simp: collect_sub_fields.simps)
  next
    case (Cons l xs)
    have ih: "length ys \<le> length xs \<Longrightarrow>
      collect_sub_fields base (ys @ tail) = apsnd (\<lambda>r. r @ tail) (collect_sub_fields base ys)" for ys
      using 1 Cons by simp
    show ?thesis
      using ih [OF order_refl] ih [OF collect_pipe_body_length] ih [OF start_value_length]
      by (simp add: Cons collect_sub_fields.simps local_simps assms case_prod_beta Let_def split: line_kind.split)
  qed
qed

lemma entry_fields_local [local_simps]:
  "at_node tail \<Longrightarrow> entry_fields base t (ls @ tail) = apsnd (\<lambda>r. r @ tail) (entry_fields base t ls)"
  by (auto simp: entry_fields_def local_simps case_prod_beta Let_def split: option.split)

lemma within_Cons_local [local_simps]: "is_within_field (l # ls @ tail) base = is_within_field (l # ls) base"
  by (simp add: is_within_field_def)

lemma node_not_within [simp]: "is_node l \<Longrightarrow> \<not> is_within_field (l # ls) base"
  by (simp add: is_within_field_def)

lemma object_entries_local [local_simps]:
  assumes "at_node tail"
  shows "object_entries base (ls @ tail) = apsnd (\<lambda>r. r @ tail) (object_entries base ls)"
proof (induction ls rule: length_induct)
  case (1 ls)
  show ?case
  proof (cases ls)
    case Nil
    then show ?thesis using assms by (cases tail) (auto simp: object_entries.simps)
  next
    case (Cons l xs)
    have ih: "length ys \<le> length xs \<Longrightarrow>
      object_entries base (ys @ tail) = apsnd (\<lambda>r. r @ tail) (object_entries base ys)" for ys
      using 1 Cons by simp
    show ?thesis
      using ih [OF order_refl] ih [OF entry_fields_length]
      by (simp add: Cons object_entries.simps local_simps assms case_prod_beta Let_def split: line_kind.split)
  qed
qed

lemma parse_objects_local [local_simps]:
  "at_node tail \<Longrightarrow> parse_objects build base (ls @ tail) = apsnd (\<lambda>r. r @ tail) (parse_objects build base ls)"
  by (simp add: parse_objects_def local_simps case_prod_beta Let_def)

lemma parse_object_list_local [local_simps]:
  "at_node tail \<Longrightarrow> parse_object_list build (ls @ tail) = apsnd (\<lambda>r. r @ tail) (parse_object_list build ls)"
  by (simp add: parse_object_list_def local_simps split: option.split)

lemma parse_code_block_local [local_simps]:
  "at_node tail \<Longrightarrow> parse_code_block pe n (ls @ tail) = apsnd (\<lambda>r. r @ tail) (parse_code_block pe n ls)"
  by (simp add: parse_code_block_def local_simps case_prod_beta Let_def split: option.split)

lemma context_items_local [local_simps]:
  "at_node tail \<Longrightarrow> context_items indent (ls @ tail) = apsnd (\<lambda>r. r @ tail) (context_items indent ls)"
proof (induction ls)
  case Nil
  then show ?case by (cases tail) auto
next
  case (Cons l ls)
  then show ?case by (simp add: local_simps case_prod_beta Let_def split: line_kind.split)
qed

lemma skip_deeper_local [local_simps]: "at_node tail \<Longrightarrow> skip_deeper indent (ls @ tail) = skip_deeper indent ls @ tail"
proof (induction ls)
  case Nil
  then show ?case by (cases tail) auto
next
  case (Cons l ls)
  then show ?case by (simp add: local_simps)
qed

lemma when_deeper_local:
  assumes "at_node tail" and "\<And>si. f si (ls @ tail) = apsnd (\<lambda>r. r @ tail) (f si ls)"
  shows "when_deeper base (ls @ tail) f = apsnd (\<lambda>r. r @ tail) (when_deeper base ls f)"
  using assms by (auto simp: when_deeper_def local_simps split: option.split)

lemma context_start_local [local_simps]:
  assumes "at_node tail"
  shows "context_start base key (ls @ tail) ac = apsnd (\<lambda>r. r @ tail) (context_start base key ls ac)"
proof -
  have "when_deeper base (ls @ tail) context_items = apsnd (\<lambda>r. r @ tail) (when_deeper base ls context_items)"
    "when_deeper base (ls @ tail) (\<lambda>si ls. parse_load_files_list ls si) =
     apsnd (\<lambda>r. r @ tail) (when_deeper base ls (\<lambda>si ls. parse_load_files_list ls si))"
    "when_deeper base (ls @ tail) (\<lambda>si ls. ((), skip_deeper si ls)) =
     apsnd (\<lambda>r. r @ tail) (when_deeper base ls (\<lambda>si ls. ((), skip_deeper si ls)))"
    using assms by (auto intro!: when_deeper_local simp: local_simps parse_load_files_list_def)
  then show ?thesis by (auto simp: context_start_def case_prod_beta Let_def split: option.split)
qed

lemma context_step_local [local_simps]:
  "at_node tail \<Longrightarrow> context_step pe base ac l (ls @ tail) = apsnd (\<lambda>r. r @ tail) (context_step pe base ac l ls)"
  by (simp add: context_step_def local_simps split: line_kind.split)

lemma context_loop_local [local_simps]:
  assumes "at_node tail"
  shows "context_loop pe base ac (ls @ tail) = apsnd (\<lambda>r. r @ tail) (context_loop pe base ac ls)"
proof (induction ls arbitrary: ac rule: length_induct)
  case (1 ls)
  show ?case
  proof (cases ls)
    case Nil
    then show ?thesis using assms by (cases tail) (auto simp: context_loop.simps)
  next
    case (Cons l xs)
    have ih: "length ys \<le> length xs \<Longrightarrow>
      context_loop pe base c (ys @ tail) = apsnd (\<lambda>r. r @ tail) (context_loop pe base c ys)" for ys c
      using 1 Cons by simp
    show ?thesis
      using ih [OF order_refl] ih [OF context_step_length]
      by (simp add: Cons context_loop.simps local_simps assms case_prod_beta Let_def)
  qed
qed

lemma parse_agent_context_local [local_simps]:
  "at_node tail \<Longrightarrow> parse_agent_context pe (ls @ tail) = apsnd (\<lambda>r. r @ tail) (parse_agent_context pe ls)"
  by (simp add: parse_agent_context_def local_simps split: option.split)

lemma profile_loop_local [local_simps]:
  assumes "at_node tail"
  shows "profile_loop pe base ps (ls @ tail) = apsnd (\<lambda>r. r @ tail) (profile_loop pe base ps ls)"
proof (induction ls arbitrary: ps rule: length_induct)
  case (1 ls)
  show ?case
  proof (cases ls)
    case Nil
    then show ?thesis using assms by (cases tail) (auto simp: profile_loop.simps)
  next
    case (Cons l xs)
    have ih: "length ys \<le> length xs \<Longrightarrow>
      profile_loop pe base c (ys @ tail) = apsnd (\<lambda>r. r @ tail) (profile_loop pe base c ys)" for ys c
      using 1 Cons by simp
    have deeper: "length (snd (when_deeper base xs collect_sub_fields)) \<le> length xs"
      by (rule when_deeper_length) (rule collect_sub_fields_length)
    have "when_deeper base (xs @ tail) collect_sub_fields = apsnd (\<lambda>r. r @ tail) (when_deeper base xs collect_sub_fields)"
      using assms by (intro when_deeper_local) (simp_all add: local_simps)
    then show ?thesis
      using ih [OF order_refl] ih [OF deeper]
      by (simp add: Cons profile_loop.simps local_simps assms case_prod_beta Let_def split: line_kind.split option.split)
  qed
qed

lemma parse_load_profiles_local [local_simps]:
  "at_node tail \<Longrightarrow> parse_load_profiles pe (ls @ tail) = apsnd (\<lambda>r. r @ tail) (parse_load_profiles pe ls)"
  by (simp add: parse_load_profiles_def local_simps split: option.split)

lemma context_loop_length: "length (snd (context_loop pe base ac ls)) \<le> length ls"
proof (induction ls arbitrary: ac rule: length_induct)
  case (1 ls)
  show ?case
  proof (cases ls)
    case (Cons l xs)
    have ih: "length ys \<le> length xs \<Longrightarrow> length (snd (context_loop pe base c ys)) \<le> Suc (length xs)" for ys c
      using 1 Cons by (metis le_SucI le_imp_less_Suc le_trans length_Cons)
    then show ?thesis
      using ih [OF order_refl] ih [OF context_step_length]
      by (simp add: Cons context_loop.simps case_prod_beta Let_def)
  qed (simp add: context_loop.simps)
qed

lemma profile_loop_length: "length (snd (profile_loop pe base ps ls)) \<le> length ls"
proof (induction ls arbitrary: ps rule: length_induct)
  case (1 ls)
  show ?case
  proof (cases ls)
    case (Cons l xs)
    have ih: "length ys \<le> length xs \<Longrightarrow> length (snd (profile_loop pe base c ys)) \<le> Suc (length xs)" for ys c
      using 1 Cons by (metis le_SucI le_imp_less_Suc le_trans length_Cons)
    have deeper: "length (snd (when_deeper base xs collect_sub_fields)) \<le> length xs"
      by (rule when_deeper_length) (rule collect_sub_fields_length)
    show ?thesis
      using ih [OF order_refl] ih [OF deeper]
      by (simp add: Cons profile_loop.simps case_prod_beta Let_def split: line_kind.split option.split)
  qed (simp add: profile_loop.simps)
qed

lemma structured_lengths:
  "length (snd (parse_object_list build ls)) \<le> length ls"
  "length (snd (parse_code_block pe n ls)) \<le> length ls"
  "length (snd (parse_agent_context pe ls)) \<le> length ls"
  "length (snd (parse_load_profiles pe ls)) \<le> length ls"
  by (auto simp: parse_object_list_def parse_code_block_def parse_agent_context_def parse_load_profiles_def
      parse_objects_length collect_sub_fields_length context_loop_length profile_loop_length case_prod_beta Let_def
      split: option.split)

end
