(* ===== verification/Node_Parser.thy ===== *)
theory Node_Parser
  imports Structured
begin

text \<open>
  The header parser (\<open>crates/agm-core/src/parser/header.rs\<close>) and the node parser
  (\<open>crates/agm-core/src/parser/node.rs\<close>). \<open>None\<close> is the panic of \<open>parse_block\<close>.
\<close>

section \<open>Formats\<close>

text \<open>The regular expressions of the source, which the \<open>regex\<close> crate matches.\<close>

definition ident_ok :: "string \<Rightarrow> bool" where
  "ident_ok s =
     (case s of [] \<Rightarrow> False | c # cs \<Rightarrow> is_lower c \<and> list_all (\<lambda>c. is_lower c \<or> is_digit c) cs)"

definition digits_ok :: "string \<Rightarrow> bool" where
  "digits_ok s \<longleftrightarrow> s \<noteq> [] \<and> list_all is_digit s"

definition agm_version_ok :: "string \<Rightarrow> bool" where
  "agm_version_ok s = (case split_char CHR ''.'' s of [a, b] \<Rightarrow> digits_ok a \<and> digits_ok b | _ \<Rightarrow> False)"

definition package_ok :: "string \<Rightarrow> bool" where
  "package_ok s = list_all ident_ok (split_char CHR ''.'' s)"

definition segment_ok :: "string \<Rightarrow> bool" where
  "segment_ok s =
     (case s of
        [] \<Rightarrow> False
      | c # cs \<Rightarrow> is_lower c \<and> list_all (\<lambda>c. is_lower c \<or> is_digit c \<or> c = CHR ''_'') cs)"

definition node_id_ok :: "string \<Rightarrow> bool" where
  "node_id_ok s = list_all segment_ok (concat (map (split_char CHR ''-'') (split_char CHR ''.'' s)))"

definition validate_agm_format :: "parse_env \<Rightarrow> string \<Rightarrow> nat \<Rightarrow> agm_error list" where
  "validate_agm_format pe value number =
     (if agm_version_ok value then []
      else [error_at P001 (''Invalid `agm` format: expected MAJOR.MINOR, got '' @ str_debug pe value) number])"

definition validate_package_format :: "parse_env \<Rightarrow> string \<Rightarrow> nat \<Rightarrow> agm_error list" where
  "validate_package_format pe value number =
     (if package_ok value then []
      else [error_at P001 (''Invalid `package` format: '' @ str_debug pe value) number])"

definition validate_version_format :: "parse_env \<Rightarrow> string \<Rightarrow> nat \<Rightarrow> agm_error list" where
  "validate_version_format pe value number =
     (if pe_semver pe value then []
      else [error_at P001 (''Invalid `version` (expected semver): '' @ str_debug pe value) number])"

section \<open>The header\<close>

text \<open>What the loop of the header carries: \<open>hs_header\<close> holds the optional fields.\<close>

record header_state =
  hs_seen :: "string list"
  hs_agm :: "string option"
  hs_package :: "string option"
  hs_version :: "string option"
  hs_header :: header

definition header_empty :: header where
  "header_empty =
     \<lparr>h_agm = [], h_package = [], h_version = [], h_title = None, h_owner = None, h_imports = None,
      h_default_load = None, h_description = None, h_tags = None, h_status = None,
      h_load_profiles = None, h_target_runtime = None\<rparr>"

definition header_start :: header_state where
  "header_start =
     \<lparr>hs_seen = [], hs_agm = None, hs_package = None, hs_version = None, hs_header = header_empty\<rparr>"

definition on_header :: "(header \<Rightarrow> header) \<Rightarrow> header_state \<Rightarrow> header_state" where
  "on_header f s = s\<lparr>hs_header := f (hs_header s)\<rparr>"

definition header_scalar ::
  "parse_env \<Rightarrow> string \<Rightarrow> string \<Rightarrow> nat \<Rightarrow> header_state \<Rightarrow> header_state \<times> agm_error list" where
  "header_scalar pe key value number s =
     (if key = ''agm'' then (s\<lparr>hs_agm := Some value\<rparr>, validate_agm_format pe value number)
      else if key = ''package'' then (s\<lparr>hs_package := Some value\<rparr>, validate_package_format pe value number)
      else if key = ''version'' then (s\<lparr>hs_version := Some value\<rparr>, validate_version_format pe value number)
      else
        (on_header (\<lambda>h.
           if key = ''title'' then h\<lparr>h_title := Some value\<rparr>
           else if key = ''owner'' then h\<lparr>h_owner := Some value\<rparr>
           else if key = ''default_load'' then h\<lparr>h_default_load := Some value\<rparr>
           else if key = ''description'' then h\<lparr>h_description := Some value\<rparr>
           else if key = ''status'' then h\<lparr>h_status := Some value\<rparr>
           else if key = ''target_runtime'' then h\<lparr>h_target_runtime := Some value\<rparr>
           else h) s, []))"

definition header_list ::
  "parse_env \<Rightarrow> string \<Rightarrow> string list \<Rightarrow> nat \<Rightarrow> header_state \<Rightarrow> header_state \<times> agm_error list" where
  "header_list pe key items number s =
     (if key = ''tags'' then (on_header (\<lambda>h. h\<lparr>h_tags := Some items\<rparr>) s, [])
      else if key = ''imports'' then
        (let (entries, errors) = parse_imports pe items number in
         (on_header (\<lambda>h. h\<lparr>h_imports := Some entries\<rparr>) s, errors))
      else (s, []))"

definition header_field ::
  "parse_env \<Rightarrow> string \<Rightarrow> nat \<Rightarrow> header_state \<Rightarrow> agm_line list \<Rightarrow>
   ((header_state \<times> agm_error list) \<times> agm_line list) option" where
  "header_field pe key number s ls =
     (if key = ''description'' then
        map_option (\<lambda>(text, rest). ((on_header (\<lambda>h. h\<lparr>h_description := Some text\<rparr>) s, []), rest)) (parse_block ls)
      else if key = ''tags'' \<or> key = ''imports'' then
        (let (items, rest) = parse_indented_list ls in Some (header_list pe key items number s, rest))
      else if key = ''load_profiles'' then
        (let ((profiles, errors), rest) = parse_load_profiles pe ls in
         Some ((on_header (\<lambda>h. h\<lparr>h_load_profiles := Some profiles\<rparr>) s, errors), rest))
      else Some ((s, []), skip_field_body ls))"

definition header_duplicate :: "string \<Rightarrow> nat \<Rightarrow> agm_error" where
  "header_duplicate key number = error_at P006 (''Duplicate field `'' @ key @ ''` in header'') number"

text \<open>One line of the header with the lines it takes.\<close>

definition header_step ::
  "parse_env \<Rightarrow> header_state \<Rightarrow> agm_line \<Rightarrow> agm_line list \<Rightarrow>
   ((header_state \<times> agm_error list) \<times> agm_line list) option" where
  "header_step pe s l ls =
     (let number = ln_number l;
          tracked = (\<lambda>key. s\<lparr>hs_seen := snd (track key (hs_seen s))\<rparr>) in
      case ln_kind l of
        LkScalar key value \<Rightarrow>
          Some (if fst (track key (hs_seen s)) then (s, [header_duplicate key number])
                else header_scalar pe key value number (tracked key), ls)
      | LkList key items \<Rightarrow>
          Some (if fst (track key (hs_seen s)) then (s, [header_duplicate key number])
                else header_list pe key items number (tracked key), ls)
      | LkStart key \<Rightarrow>
          if fst (track key (hs_seen s)) then Some ((s, [header_duplicate key number]), skip_field_body ls)
          else header_field pe key number (tracked key) ls
      | LkItem _ \<Rightarrow>
          Some ((s, [error_at P003 (''Unexpected indentation in header at line '' @ show_nat number) number]), ls)
      | LkIndented _ \<Rightarrow>
          Some ((s, [error_at P003 (''Unexpected indentation in header at line '' @ show_nat number) number]), ls)
      | _ \<Rightarrow> Some ((s, []), ls))"

lemma header_field_length: "header_field pe key n s ls = Some (r, rest) \<Longrightarrow> length rest \<le> length ls"
  using parse_indented_list_length [of ls] structured_lengths(4) [of pe ls] skip_field_body_length [of ls]
  by (auto simp: header_field_def case_prod_beta Let_def dest: parse_block_length split: if_splits)

lemma header_step_length: "header_step pe s l ls = Some (r, rest) \<Longrightarrow> length rest \<le> length ls"
  using skip_field_body_length [of ls]
  by (auto simp: header_step_def Let_def dest: header_field_length split: line_kind.splits if_splits)

function header_loop ::
  "parse_env \<Rightarrow> header_state \<Rightarrow> agm_line list \<Rightarrow> ((header_state \<times> agm_error list) \<times> agm_line list) option" where
  "header_loop pe s [] = Some ((s, []), [])"
| "header_loop pe s (l # ls) =
     (if is_node l then Some ((s, []), l # ls)
      else Option.bind (header_step pe s l ls) (\<lambda>(r, after).
        map_option (\<lambda>(r2, rest). ((fst r2, snd r @ snd r2), rest)) (header_loop pe (fst r) after)))"
  by pat_completeness auto
termination
  by (relation "measure (\<lambda>(pe, s, ls). length ls)") (auto simp: less_Suc_eq_le dest: header_step_length)

declare header_loop.simps [simp del]

definition header_missing :: "string \<Rightarrow> 'a option \<Rightarrow> agm_error list" where
  "header_missing field x =
     (if x = None then
        [agm_error_new P001 (''Missing required header field: '' @ CHR 0x27 # field @ [CHR 0x27])
           (error_location_new None None None)]
      else [])"

text \<open>The check of the required fields, and the header.\<close>

definition header_finish :: "header_state \<Rightarrow> header \<times> agm_error list" where
  "header_finish s =
     (let value = (\<lambda>x. case x of Some v \<Rightarrow> v | None \<Rightarrow> []) in
      ((hs_header s)\<lparr>h_agm := value (hs_agm s), h_package := value (hs_package s), h_version := value (hs_version s)\<rparr>,
       header_missing ''agm'' (hs_agm s) @ header_missing ''package'' (hs_package s) @
       header_missing ''version'' (hs_version s)))"

definition parse_header :: "parse_env \<Rightarrow> agm_line list \<Rightarrow> ((header \<times> agm_error list) \<times> agm_line list) option" where
  "parse_header pe ls =
     map_option (\<lambda>((s, errors), rest).
       (let (h, missing) = header_finish s in ((h, errors @ missing), rest))) (header_loop pe header_start ls)"


section \<open>The fields of a node\<close>

definition node_error :: "error_code \<Rightarrow> string \<Rightarrow> nat \<Rightarrow> node \<Rightarrow> agm_error" where
  "node_error code message number n =
     agm_error_new code message (error_location_new None (Some number) (Some (n_id n)))"

definition invalid_value :: "parse_env \<Rightarrow> error_code \<Rightarrow> string \<Rightarrow> string \<Rightarrow> nat \<Rightarrow> node \<Rightarrow> agm_error" where
  "invalid_value pe code field value number n =
     node_error code (''Invalid `'' @ field @ ''` value: '' @ str_debug pe value) number n"

definition insert_extra :: "string \<Rightarrow> field_value \<Rightarrow> node \<Rightarrow> node" where
  "insert_extra key v n = n\<lparr>n_extra_fields := bt_insert key v (n_extra_fields n)\<rparr>"

definition assign_scalar_field ::
  "parse_env \<Rightarrow> string \<Rightarrow> string \<Rightarrow> nat \<Rightarrow> node \<Rightarrow> node \<times> agm_error list" where
  "assign_scalar_field pe key value number n =
     (if key = ''type'' then (n\<lparr>n_type := parse_node_type value\<rparr>, [])
      else if key = ''summary'' then (n\<lparr>n_summary := value\<rparr>, [])
      else if key = ''priority'' then
        (case parse_priority value of Inr x \<Rightarrow> (n\<lparr>n_priority := Some x\<rparr>, []) | Inl _ \<Rightarrow> (n, [invalid_value pe P003 ''priority'' value number n]))
      else if key = ''stability'' then
        (case parse_stability value of Inr x \<Rightarrow> (n\<lparr>n_stability := Some x\<rparr>, []) | Inl _ \<Rightarrow> (n, [invalid_value pe P003 ''stability'' value number n]))
      else if key = ''confidence'' then
        (case parse_confidence value of Inr x \<Rightarrow> (n\<lparr>n_confidence := Some x\<rparr>, []) | Inl _ \<Rightarrow> (n, [invalid_value pe P003 ''confidence'' value number n]))
      else if key = ''status'' then
        (case parse_node_status value of Inr x \<Rightarrow> (n\<lparr>n_status := Some x\<rparr>, []) | Inl _ \<Rightarrow> (n, [invalid_value pe P003 ''status'' value number n]))
      else if key = ''detail'' then (n\<lparr>n_detail := Some value\<rparr>, [])
      else if key = ''examples'' then (n\<lparr>n_examples := Some value\<rparr>, [])
      else if key = ''notes'' then (n\<lparr>n_notes := Some value\<rparr>, [])
      else if key = ''target'' then (n\<lparr>n_target := Some value\<rparr>, [])
      else if key = ''applies_when'' then (n\<lparr>n_applies_when := Some value\<rparr>, [])
      else if key = ''valid_from'' then (n\<lparr>n_valid_from := Some value\<rparr>, [])
      else if key = ''valid_until'' then (n\<lparr>n_valid_until := Some value\<rparr>, [])
      else if key = ''title'' then (n\<lparr>n_title := Some value\<rparr>, [])
      else if key = ''description'' then (n\<lparr>n_description := Some value\<rparr>, [])
      else if key = ''action'' then
        (case parse_ticket_action value of Inr x \<Rightarrow> (n\<lparr>n_action := Some x\<rparr>, []) | Inl _ \<Rightarrow> (n, [invalid_value pe V029 ''action'' value number n]))
      else if key = ''sdd_phase'' then
        (case parse_sdd_phase value of Inr x \<Rightarrow> (n\<lparr>n_sdd_phase := Some x\<rparr>, []) | Inl _ \<Rightarrow> (n, [invalid_value pe V030 ''sdd_phase'' value number n]))
      else if key = ''prompt'' then (n\<lparr>n_prompt := Some value\<rparr>, [])
      else if key = ''assignee'' then (n\<lparr>n_assignee := Some value\<rparr>, [])
      else if key = ''ticket_id'' then (n\<lparr>n_ticket_id := Some value\<rparr>, [])
      else if key = ''execution_status'' then
        (case parse_execution_status value of Inr x \<Rightarrow> (n\<lparr>n_execution_status := Some x\<rparr>, []) | Inl _ \<Rightarrow> (n, [invalid_value pe P003 ''execution_status'' value number n]))
      else if key = ''executed_by'' then (n\<lparr>n_executed_by := Some value\<rparr>, [])
      else if key = ''executed_at'' then (n\<lparr>n_executed_at := Some value\<rparr>, [])
      else if key = ''execution_log'' then (n\<lparr>n_execution_log := Some value\<rparr>, [])
      else if key = ''retry_count'' then
        (case parse_u32 value of
           Some x \<Rightarrow> (n\<lparr>n_retry_count := Some x\<rparr>, [])
         | None \<Rightarrow> (n, [invalid_value pe P003 ''retry_count'' value number n]))
      else (insert_extra key (FvScalar value) n, []))"

definition assign_list_field :: "string \<Rightarrow> string list \<Rightarrow> node \<Rightarrow> node" where
  "assign_list_field key xs n =
     (if key = ''depends'' then n\<lparr>n_depends := Some xs\<rparr>
      else if key = ''related_to'' then n\<lparr>n_related_to := Some xs\<rparr>
      else if key = ''replaces'' then n\<lparr>n_replaces := Some xs\<rparr>
      else if key = ''conflicts'' then n\<lparr>n_conflicts := Some xs\<rparr>
      else if key = ''see_also'' then n\<lparr>n_see_also := Some xs\<rparr>
      else if key = ''items'' then n\<lparr>n_items := Some xs\<rparr>
      else if key = ''steps'' then n\<lparr>n_steps := Some xs\<rparr>
      else if key = ''fields'' then n\<lparr>n_fields := Some xs\<rparr>
      else if key = ''input'' then n\<lparr>n_input := Some xs\<rparr>
      else if key = ''output'' then n\<lparr>n_output := Some xs\<rparr>
      else if key = ''rationale'' then n\<lparr>n_rationale := Some xs\<rparr>
      else if key = ''tradeoffs'' then n\<lparr>n_tradeoffs := Some xs\<rparr>
      else if key = ''resolution'' then n\<lparr>n_resolution := Some xs\<rparr>
      else if key = ''scope'' then n\<lparr>n_scope := Some xs\<rparr>
      else if key = ''tags'' then n\<lparr>n_tags := Some xs\<rparr>
      else if key = ''aliases'' then n\<lparr>n_aliases := Some xs\<rparr>
      else if key = ''keywords'' then n\<lparr>n_keywords := Some xs\<rparr>
      else if key = ''labels'' then n\<lparr>n_labels := Some xs\<rparr>
      else insert_extra key (FvList xs) n)"

definition assign_block_field :: "string \<Rightarrow> string \<Rightarrow> node \<Rightarrow> node" where
  "assign_block_field key value n =
     (if key = ''detail'' then n\<lparr>n_detail := Some value\<rparr>
      else if key = ''examples'' then n\<lparr>n_examples := Some value\<rparr>
      else if key = ''notes'' then n\<lparr>n_notes := Some value\<rparr>
      else if key = ''execution_log'' then n\<lparr>n_execution_log := Some value\<rparr>
      else if key = ''applies_when'' then n\<lparr>n_applies_when := Some value\<rparr>
      else if key = ''title'' then n\<lparr>n_title := Some value\<rparr>
      else if key = ''description'' then n\<lparr>n_description := Some value\<rparr>
      else if key = ''prompt'' then n\<lparr>n_prompt := Some value\<rparr>
      else insert_extra key (FvBlock value) n)"

section \<open>The node\<close>

definition default_node :: "string \<Rightarrow> nat \<Rightarrow> node" where
  "default_node i line = node_default\<lparr>n_id := i, n_span := span_new line line\<rparr>"

record node_build =
  nb_node :: node
  nb_seen :: "string list"
  nb_last :: nat

definition node_duplicate :: "string \<Rightarrow> nat \<Rightarrow> node \<Rightarrow> agm_error" where
  "node_duplicate key number n =
     node_error P006 (''Duplicate field `'' @ key @ ''` in node `'' @ n_id n @ ''`'') number n"

definition with_parsed ::
  "('a \<Rightarrow> node \<Rightarrow> node) \<Rightarrow> node \<Rightarrow> ('a \<times> agm_error list) \<times> agm_line list \<Rightarrow> (node \<times> agm_error list) \<times> agm_line list" where
  "with_parsed f n r = ((f (fst (fst r)) n, snd (fst r)), snd r)"

text \<open>A structured field: \<open>number\<close> is the line of the field.\<close>

definition structured_node_field ::
  "parse_env \<Rightarrow> string \<Rightarrow> nat \<Rightarrow> node \<Rightarrow> agm_line list \<Rightarrow> (node \<times> agm_error list) \<times> agm_line list" where
  "structured_node_field pe key number n ls =
     (if key = ''code'' then with_parsed (\<lambda>x n. n\<lparr>n_code := Some x\<rparr>) n (parse_code_block pe number ls)
      else if key = ''code_blocks'' then with_parsed (\<lambda>x n. n\<lparr>n_code_blocks := Some x\<rparr>) n (parse_code_blocks pe ls)
      else if key = ''verify'' then with_parsed (\<lambda>x n. n\<lparr>n_verify := Some x\<rparr>) n (parse_verify pe ls)
      else if key = ''agent_context'' then
        with_parsed (\<lambda>x n. n\<lparr>n_agent_context := Some x\<rparr>) n (parse_agent_context pe ls)
      else if key = ''parallel_groups'' then
        with_parsed (\<lambda>x n. n\<lparr>n_parallel_groups := Some x\<rparr>) n (parse_parallel_groups pe ls)
      else if key = ''memory'' then with_parsed (\<lambda>x n. n\<lparr>n_memory := Some x\<rparr>) n (parse_memory pe ls)
      else
        (let (raw, rest) = collect_structured_raw ls in ((insert_extra key (FvBlock raw) n, []), rest)))"

text \<open>A field without a value: structured, or a list or block by the first line that is no comment.\<close>

definition node_field ::
  "parse_env \<Rightarrow> string \<Rightarrow> nat \<Rightarrow> node \<Rightarrow> agm_line list \<Rightarrow> ((node \<times> agm_error list) \<times> agm_line list) option" where
  "node_field pe key number n ls =
     (if is_structured_field key then Some (structured_node_field pe key number n ls)
      else if (case dropWhile is_comment ls of [] \<Rightarrow> False | l # _ \<Rightarrow> is_item l) then
        (let (items, rest) = parse_indented_list ls in Some ((assign_list_field key items n, []), rest))
      else map_option (\<lambda>(text, rest). ((assign_block_field key text n, []), rest)) (parse_block ls))"

definition assign_body :: "bool \<Rightarrow> string \<Rightarrow> node \<Rightarrow> node" where
  "assign_body dup text n =
     (if \<not> dup \<and> n_detail n = None then n\<lparr>n_detail := Some text\<rparr> else insert_extra ''body'' (FvBlock text) n)"

definition unexpected_indent :: "nat \<Rightarrow> node \<Rightarrow> agm_error" where
  "unexpected_indent number n =
     node_error P003 (''Unexpected indentation at line '' @ show_nat number @ '' in node `'' @ n_id n @ ''`'') number n"

text \<open>One line of the node with the lines it takes.\<close>

definition node_step ::
  "parse_env \<Rightarrow> node_build \<Rightarrow> agm_line \<Rightarrow> agm_line list \<Rightarrow>
   ((node_build \<times> agm_error list) \<times> agm_line list) option" where
  "node_step pe b l ls =
     (let number = ln_number l; n = nb_node b;
          at = b\<lparr>nb_last := number\<rparr>;
          dup = (\<lambda>key. fst (track key (nb_seen b)));
          done = (\<lambda>key n. at\<lparr>nb_seen := snd (track key (nb_seen b)), nb_node := n\<rparr>) in
      case ln_kind l of
        LkScalar key value \<Rightarrow>
          Some (if dup key then (at, [node_duplicate key number n])
                else apfst (done key) (assign_scalar_field pe key value number n), ls)
      | LkList key items \<Rightarrow>
          Some (if dup key then (at, [node_duplicate key number n])
                else (done key (assign_list_field key items n), []), ls)
      | LkStart key \<Rightarrow>
          if dup key then Some ((at, [node_duplicate key number n]), skip_field_body ls)
          else map_option (apfst (apfst (done key))) (node_field pe key number n ls)
      | LkBody indicator \<Rightarrow>
          (let (text, rest) = collect_pipe_body ls (map_option (Pair (ln_indent l)) indicator) in
           Some ((done ''body'' (assign_body (dup ''body'') text n), []), rest))
      | LkItem _ \<Rightarrow> Some ((at, [unexpected_indent number n]), ls)
      | LkIndented _ \<Rightarrow> Some ((at, [unexpected_indent number n]), ls)
      | _ \<Rightarrow> Some ((at, []), ls))"

lemma node_field_length: "node_field pe key number n ls = Some (r, rest) \<Longrightarrow> length rest \<le> length ls"
  using parse_indented_list_length [of ls] collect_structured_raw_length [of ls]
  by (auto simp: node_field_def structured_node_field_def with_parsed_def structured_lengths parse_code_blocks_def parse_verify_def
      parse_parallel_groups_def parse_memory_def case_prod_beta Let_def dest: parse_block_length split: if_splits)

lemma node_step_length: "node_step pe b l ls = Some (r, rest) \<Longrightarrow> length rest \<le> length ls"
  using skip_field_body_length [of ls] collect_pipe_body_length [of ls]
  by (auto simp: node_step_def Let_def case_prod_beta dest: node_field_length split: line_kind.splits if_splits)

function node_loop ::
  "parse_env \<Rightarrow> node_build \<Rightarrow> agm_line list \<Rightarrow> ((node_build \<times> agm_error list) \<times> agm_line list) option" where
  "node_loop pe b [] = Some ((b, []), [])"
| "node_loop pe b (l # ls) =
     (if is_node l then Some ((b, []), l # ls)
      else Option.bind (node_step pe b l ls) (\<lambda>(r, after).
        map_option (\<lambda>(r2, rest). ((fst r2, snd r @ snd r2), rest)) (node_loop pe (fst r) after)))"
  by pat_completeness auto
termination
  by (relation "measure (\<lambda>(pe, b, ls). length ls)") (auto simp: less_Suc_eq_le dest: node_step_length)

declare node_loop.simps [simp del]

definition node_id_errors :: "parse_env \<Rightarrow> string \<Rightarrow> nat \<Rightarrow> agm_error list" where
  "node_id_errors pe i line =
     (if i = [] then [error_at P002 ''Node declaration missing ID'' line]
      else if \<not> node_id_ok i then
        [error_at P002 (''Invalid node ID: '' @ str_debug pe i @
           '' (must match [a-z][a-z0-9]*([.'' @ CHR 0x5C # ''-][a-z][a-z0-9]*)*)'') line]
      else [])"

text \<open>\<open>None\<close> also for the index out of bounds on no lines at all, which no caller passes.\<close>

definition parse_node :: "parse_env \<Rightarrow> agm_line list \<Rightarrow> ((node \<times> agm_error list) \<times> agm_line list) option" where
  "parse_node pe ls =
     (case ls of
        [] \<Rightarrow> None
      | l # rest \<Rightarrow>
          (case ln_kind l of
             LkNode i \<Rightarrow>
               map_option (\<lambda>((b, errors), left).
                 (((nb_node b)\<lparr>n_span := (n_span (nb_node b))\<lparr>end_line := nb_last b\<rparr>\<rparr>,
                   node_id_errors pe i (ln_number l) @ errors), left))
                 (node_loop pe \<lparr>nb_node = default_node i (ln_number l), nb_seen = [], nb_last = ln_number l\<rparr> rest)
           | _ \<Rightarrow> Some ((default_node [] (ln_number l), []), ls)))"

end
