(* ===== verification/Parser.thy ===== *)
theory Parser
  imports Node_Parser "HOL-Library.Sublist"
begin

text \<open>
  The batch parser (\<open>crates/agm-core/src/parser/mod.rs\<close>) and the streaming parser
  (\<open>crates/agm-core/src/parser/stream.rs\<close>). The streaming parser is a state machine over
  lines, fed by chunks of text; its value with the events it emits is \<open>None\<close> when a parser
  below it panics.
\<close>

section \<open>The batch parser\<close>

lemma node_loop_length: "node_loop pe b ls = Some (r, rest) \<Longrightarrow> length rest \<le> length ls"
proof (induction ls arbitrary: b r rule: length_induct)
  case (1 ls)
  show ?case
  proof (cases ls)
    case (Cons l xs)
    show ?thesis
    proof (cases "is_node l")
      case False
      obtain p after r2 where p: "node_step pe b l xs = Some (p, after)"
        and r2: "node_loop pe (fst p) after = Some (r2, rest)"
        using "1.prems" Cons False by (auto simp: node_loop.simps split: bind_splits)
      have "length after \<le> length xs" by (rule node_step_length [OF p])
      then show ?thesis using "1.IH" r2 Cons by (metis le_SucI le_imp_less_Suc le_trans length_Cons)
    qed (use "1.prems" Cons in \<open>simp add: node_loop.simps\<close>)
  qed (use "1.prems" in \<open>simp add: node_loop.simps\<close>)
qed

lemma parse_node_length: "is_node l \<Longrightarrow> parse_node pe (l # ls) = Some (r, rest) \<Longrightarrow> length rest \<le> length ls"
  by (auto simp: parse_node_def is_node_def dest: node_loop_length split: line_kind.splits)

function parse_nodes :: "parse_env \<Rightarrow> agm_line list \<Rightarrow> (node list \<times> agm_error list) option" where
  "parse_nodes pe [] = Some ([], [])"
| "parse_nodes pe (l # ls) =
     (if is_blank l \<or> is_comment l then parse_nodes pe ls
      else if is_node l then
        Option.bind (parse_node pe (l # ls)) (\<lambda>(r, rest).
          map_option (\<lambda>(nodes, errors). (fst r # nodes, snd r @ errors)) (parse_nodes pe rest))
      else
        map_option (apsnd (Cons (error_at P003 (''Unexpected content at line '' @ show_nat (ln_number l)) (ln_number l))))
          (parse_nodes pe ls))"
  by pat_completeness auto
termination
  by (relation "measure (\<lambda>(pe, ls). length ls)") (auto simp: less_Suc_eq_le dest: parse_node_length)

declare parse_nodes.simps [simp del]

definition empty_file_error :: agm_error where
  "empty_file_error = agm_error_new P008 ''Empty file (no nodes)'' (error_location_new None None None)"

text \<open>The file, or all errors when one of them is an error and not a warning.\<close>

definition file_result :: "header \<Rightarrow> node list \<Rightarrow> agm_error list \<Rightarrow> agm_file parse_result" where
  "file_result h nodes errors =
     (if list_ex is_error errors then Inl errors else Inr \<lparr>f_header = h, f_nodes = nodes\<rparr>)"

definition parse_lines :: "parse_env \<Rightarrow> agm_line list \<Rightarrow> agm_file parse_result option" where
  "parse_lines pe lines =
     Option.bind (parse_header pe lines) (\<lambda>((h, errors), rest).
       map_option (\<lambda>(nodes, more).
         file_result h nodes (errors @ more @ (if nodes = [] then [empty_file_error] else [])))
         (parse_nodes pe rest))"

definition parse :: "parse_env \<Rightarrow> string \<Rightarrow> agm_file parse_result option" where
  "parse pe input =
     (case lex input of Inl errors \<Rightarrow> Some (Inl errors) | Inr lines \<Rightarrow> parse_lines pe lines)"

section \<open>The streaming parser\<close>

datatype stream_state = StBeforeHeader | StInHeader | StBetweenNodes | StInNode | StDone

datatype parse_event =
    EvHeaderComplete header
  | EvNodeStarted string nat
  | EvNodeComplete node
  | EvWarning agm_error
  | EvError agm_error
  | EvEndOfFile

record stream_parser =
  sp_pending :: string
  sp_buffered :: "agm_line list"
  sp_state :: stream_state
  sp_header :: "header option"
  sp_nodes :: "node list"
  sp_errors :: "agm_error list"
  sp_line_number :: nat
  sp_bytes :: nat

definition stream_new :: stream_parser where
  "stream_new =
     \<lparr>sp_pending = [], sp_buffered = [], sp_state = StBeforeHeader, sp_header = None, sp_nodes = [],
      sp_errors = [], sp_line_number = 0, sp_bytes = 0\<rparr>"

definition error_event :: "agm_error \<Rightarrow> parse_event" where
  "error_event e = (if is_error e then EvError e else EvWarning e)"

definition add_errors :: "agm_error list \<Rightarrow> stream_parser \<Rightarrow> stream_parser" where
  "add_errors errors s = s\<lparr>sp_errors := sp_errors s @ errors\<rparr>"

definition flush_header :: "parse_env \<Rightarrow> stream_parser \<Rightarrow> (parse_event list \<times> stream_parser) option" where
  "flush_header pe s =
     map_option (\<lambda>((h, errors), _).
       (map error_event errors @ [EvHeaderComplete h],
        (add_errors errors s)\<lparr>sp_buffered := [], sp_header := Some h, sp_state := StBetweenNodes\<rparr>))
       (parse_header pe (sp_buffered s))"

definition flush_node :: "parse_env \<Rightarrow> stream_parser \<Rightarrow> (parse_event list \<times> stream_parser) option" where
  "flush_node pe s =
     (if sp_buffered s = [] then Some ([], s\<lparr>sp_state := StBetweenNodes\<rparr>)
      else
        map_option (\<lambda>((n, errors), _).
          (map error_event errors @ [EvNodeComplete n],
           (add_errors errors s)\<lparr>sp_buffered := [], sp_nodes := sp_nodes s @ [n], sp_state := StBetweenNodes\<rparr>))
          (parse_node pe (sp_buffered s)))"

definition flush_current_section :: "parse_env \<Rightarrow> stream_parser \<Rightarrow> (parse_event list \<times> stream_parser) option" where
  "flush_current_section pe s =
     (case sp_state s of
        StInHeader \<Rightarrow>
          map_option (\<lambda>((h, errors), _).
            (map error_event errors,
             (add_errors errors s)\<lparr>sp_buffered := [], sp_header := Some h, sp_state := StBetweenNodes\<rparr>))
            (parse_header pe (sp_buffered s))
      | StInNode \<Rightarrow> flush_node pe s
      | _ \<Rightarrow> Some ([], s))"

definition buffer :: "agm_line \<Rightarrow> stream_parser \<Rightarrow> stream_parser" where
  "buffer line s = s\<lparr>sp_buffered := sp_buffered s @ [line]\<rparr>"

text \<open>A node declaration begins a node after \<open>flushed\<close> has flushed the section before it.\<close>

definition start_section ::
  "agm_line \<Rightarrow> string \<Rightarrow> (parse_event list \<times> stream_parser) option \<Rightarrow> (parse_event list \<times> stream_parser) option" where
  "start_section line i flushed =
     map_option (\<lambda>(events, s).
       (events @ [EvNodeStarted i (ln_number line)], (buffer line s)\<lparr>sp_state := StInNode\<rparr>)) flushed"

definition stream_step :: "parse_env \<Rightarrow> agm_line \<Rightarrow> stream_parser \<Rightarrow> (parse_event list \<times> stream_parser) option" where
  "stream_step pe line s =
     (let header =
        (case ln_kind line of
           LkNode i \<Rightarrow> start_section line i (flush_header pe s)
         | _ \<Rightarrow> Some ([], (buffer line s)\<lparr>sp_state := StInHeader\<rparr>)) in
      case sp_state s of
        StBeforeHeader \<Rightarrow> header
      | StInHeader \<Rightarrow> header
      | StBetweenNodes \<Rightarrow>
          (case ln_kind line of LkNode i \<Rightarrow> start_section line i (Some ([], s)) | _ \<Rightarrow> Some ([], s))
      | StInNode \<Rightarrow>
          (case ln_kind line of
             LkNode i \<Rightarrow> start_section line i (flush_node pe s)
           | _ \<Rightarrow> Some ([], buffer line s))
      | StDone \<Rightarrow> Some ([], s))"

text \<open>One line of text, its number already counted.\<close>

definition feed_line :: "parse_env \<Rightarrow> string \<Rightarrow> stream_parser \<Rightarrow> (parse_event list \<times> stream_parser) option" where
  "feed_line pe raw s0 =
     (let s = s0\<lparr>sp_line_number := Suc (sp_line_number s0)\<rparr> in
      case classify_line raw (sp_line_number s) of
        Inl e \<Rightarrow> Some ([EvError e], add_errors [e] s)
      | Inr line \<Rightarrow> stream_step pe line s)"

text \<open>What no section touches: the text not yet read and the count of lines.\<close>

definition same_text :: "stream_parser \<Rightarrow> stream_parser \<Rightarrow> bool" where
  "same_text s s' \<longleftrightarrow> sp_pending s' = sp_pending s \<and> sp_line_number s' = sp_line_number s"

lemma same_text_updates [simp]:
  "same_text s (s\<lparr>sp_state := st\<rparr>)" "same_text s (buffer line s)" "same_text s ((buffer line s)\<lparr>sp_state := st\<rparr>)"
  "same_text s (add_errors errors s)" "same_text s s"
  by (simp_all add: same_text_def buffer_def add_errors_def)

lemma flush_text:
  "flush_header pe s = Some (es, s') \<Longrightarrow> same_text s s'"
  "flush_node pe s = Some (es, s') \<Longrightarrow> same_text s s'"
  by (auto simp: flush_header_def flush_node_def add_errors_def same_text_def split: if_splits)

lemma start_section_text:
  assumes "start_section line i flushed = Some (es, s')" and "\<And>es s1. flushed = Some (es, s1) \<Longrightarrow> same_text s s1"
  shows "same_text s s'"
  using assms by (fastforce simp: start_section_def same_text_def buffer_def)

lemma stream_step_text: "stream_step pe line s = Some (es, s') \<Longrightarrow> same_text s s'"
proof -
  assume step: "stream_step pe line s = Some (es, s')"
  have header: "same_text s s'" if "start_section line i (flush_header pe s) = Some (es, s')" for i
    using start_section_text [OF that, of s] flush_text(1) by blast
  have node: "same_text s s'" if "start_section line i (flush_node pe s) = Some (es, s')" for i
    using start_section_text [OF that, of s] flush_text(2) by blast
  have between: "same_text s s'" if "start_section line i (Some ([], s)) = Some (es, s')" for i
    using start_section_text [OF that, of s] by simp
  show ?thesis
    using step header node between
    by (cases "sp_state s"; cases "ln_kind line") (auto simp: stream_step_def)
qed

lemma feed_line_pending: "feed_line pe raw s = Some (es, s') \<Longrightarrow> sp_pending s' = sp_pending s"
  using stream_step_text [of pe _ "s\<lparr>sp_line_number := Suc (sp_line_number s)\<rparr>" es s']
  by (auto simp: feed_line_def Let_def same_text_def add_errors_def split: sum.splits)

function drain_lines :: "parse_env \<Rightarrow> stream_parser \<Rightarrow> (parse_event list \<times> stream_parser) option" where
  "drain_lines pe s =
     (case str_find [nl] (sp_pending s) of
        None \<Rightarrow> Some ([], s)
      | Some i \<Rightarrow>
          Option.bind
            (feed_line pe (chomp_cr (take i (sp_pending s))) (s\<lparr>sp_pending := drop (i + 1) (sp_pending s)\<rparr>))
            (\<lambda>(es, s1). map_option (apfst (append es)) (drain_lines pe s1)))"
  by pat_completeness auto
termination
proof (relation "measure (\<lambda>(pe, s). length (sp_pending s))")
  fix pe s i x es s1
  assume a: "str_find [nl] (sp_pending s) = Some i"
    "feed_line pe (chomp_cr (take i (sp_pending s))) (s\<lparr>sp_pending := drop (i + 1) (sp_pending s)\<rparr>) = Some x" "(es, s1) = x"
  have "sp_pending s \<noteq> []" using a(1) by auto
  then show "((pe, s1), pe, s) \<in> measure (\<lambda>(pe, s). length (sp_pending s))"
    using a feed_line_pending by fastforce
qed auto

declare drain_lines.simps [simp del]


definition push_chunk ::
  "parse_env \<Rightarrow> string \<Rightarrow> stream_parser \<Rightarrow> (parse_event list \<times> stream_parser) option" where
  "push_chunk pe chunk s =
     drain_lines pe (s\<lparr>sp_bytes := sp_bytes s + length chunk, sp_pending := sp_pending s @ chunk\<rparr>)"

definition header_complete :: "stream_parser \<Rightarrow> bool" where
  "header_complete s \<longleftrightarrow> sp_header s \<noteq> None"

text \<open>The end of the stream; a header never seen is parsed from no lines.\<close>

definition close_line :: "stream_parser \<Rightarrow> stream_parser" where
  "close_line s =
     (if sp_pending s \<noteq> [] \<and> \<not> ends_with [nl] (sp_pending s)
      then s\<lparr>sp_pending := sp_pending s @ [nl]\<rparr> else s)"

definition finish_result ::
  "parse_env \<Rightarrow> stream_parser \<Rightarrow> agm_file parse_result option" where
  "finish_result pe s =
     (case sp_header s of
        Some h \<Rightarrow> Some (file_result h (sp_nodes s) (sp_errors s))
      | None \<Rightarrow>
          map_option (\<lambda>((h, errors), _). file_result h (sp_nodes s) (sp_errors s @ errors)) (parse_header pe []))"

text \<open>What follows the last line: the last section, the check for nodes, the result.\<close>

definition stream_close ::
  "parse_env \<Rightarrow> stream_parser \<Rightarrow> (parse_event list \<times> agm_file parse_result) option" where
  "stream_close pe s =
     Option.bind (flush_current_section pe s) (\<lambda>(es, s2).
       (let (more, s3) =
          (if sp_nodes s2 = [] then ([EvError empty_file_error], add_errors [empty_file_error] s2) else ([], s2)) in
        map_option (Pair (es @ more @ [EvEndOfFile])) (finish_result pe (s3\<lparr>sp_state := StDone\<rparr>))))"

definition stream_finish ::
  "parse_env \<Rightarrow> stream_parser \<Rightarrow> (parse_event list \<times> agm_file parse_result) option" where
  "stream_finish pe s =
     Option.bind (drain_lines pe (close_line s)) (\<lambda>(es, s1). map_option (apfst (append es)) (stream_close pe s1))"

text \<open>A client pushes the chunks and finishes.\<close>

fun push_chunks ::
  "parse_env \<Rightarrow> string list \<Rightarrow> stream_parser \<Rightarrow> (parse_event list \<times> stream_parser) option" where
  "push_chunks pe [] s = Some ([], s)"
| "push_chunks pe (c # cs) s =
     Option.bind (push_chunk pe c s) (\<lambda>(es, s1). map_option (apfst (append es)) (push_chunks pe cs s1))"

definition stream_parse ::
  "parse_env \<Rightarrow> string list \<Rightarrow> (parse_event list \<times> agm_file parse_result) option" where
  "stream_parse pe chunks =
     Option.bind (push_chunks pe chunks stream_new) (\<lambda>(es, s). map_option (apfst (append es)) (stream_finish pe s))"

section \<open>Sections of lines\<close>

text \<open>What a parser leaves over are lines it was given.\<close>

named_theorems left_over "lines left over"

lemma left_fields [left_over]:
  "set (snd (parse_indented_list ls)) \<subseteq> set ls"
  "block_lines base ls = Some r \<Longrightarrow> set (snd r) \<subseteq> set ls"
  "set (snd (raw_lines ls)) \<subseteq> set ls"
  "set (skip_blanks ls) \<subseteq> set ls"
  "set (snd (body_lines indent ls)) \<subseteq> set ls"
  "set (snd (sub_items indent ls)) \<subseteq> set ls"
  "set (snd (context_items indent ls)) \<subseteq> set ls"
  "set (skip_deeper indent ls) \<subseteq> set ls"
proof -
  show "set (snd (parse_indented_list ls)) \<subseteq> set ls"
    by (induction ls) (auto simp: case_prod_beta Let_def split: line_kind.split)
  show "set (snd (raw_lines ls)) \<subseteq> set ls" "set (snd (body_lines indent ls)) \<subseteq> set ls"
    "set (snd (sub_items indent ls)) \<subseteq> set ls" "set (snd (context_items indent ls)) \<subseteq> set ls"
    "set (skip_deeper indent ls) \<subseteq> set ls"
    by (induction ls; auto simp: case_prod_beta Let_def split: line_kind.split list.split)+
  show "set (skip_blanks ls) \<subseteq> set ls" by (auto simp: skip_blanks_def dest: set_dropWhileD)
  show "block_lines base ls = Some r \<Longrightarrow> set (snd r) \<subseteq> set ls"
    by (induction ls arbitrary: r) (fastforce split: if_splits bind_splits)+
qed

lemma left_bodies [left_over]:
  "set (snd (collect_pipe_body ls e)) \<subseteq> set ls"
  "set (snd (start_value indent ls)) \<subseteq> set ls"
  "parse_block ls = Some r \<Longrightarrow> set (snd r) \<subseteq> set ls"
  "set (skip_field_body ls) \<subseteq> set ls"
  "set (snd (collect_structured_raw ls)) \<subseteq> set ls"
proof -
  show "set (snd (collect_pipe_body ls e)) \<subseteq> set ls"
    using left_fields(5) by (auto simp: collect_pipe_body_def case_prod_beta Let_def split: option.split)
  show "set (snd (start_value indent ls)) \<subseteq> set ls"
    using left_fields(4) [of ls] left_fields(5,6) [of _ "skip_blanks ls"]
    by (auto simp: start_value_def case_prod_beta Let_def split: list.split; blast)
  show "parse_block ls = Some r \<Longrightarrow> set (snd r) \<subseteq> set ls"
    using left_fields(2) by (auto simp: parse_block_def; fastforce)
  show "set (skip_field_body ls) \<subseteq> set ls" "set (snd (collect_structured_raw ls)) \<subseteq> set ls"
    using left_fields(3) by (auto simp: skip_field_body_def collect_structured_raw_def case_prod_beta Let_def)
qed

lemma left_sub_fields [left_over]: "set (snd (collect_sub_fields base ls)) \<subseteq> set ls"
proof (induction ls rule: length_induct)
  case (1 ls)
  show ?case
  proof (cases ls)
    case (Cons l xs)
    have ih: "length ys \<le> length xs \<Longrightarrow> set (snd (collect_sub_fields base ys)) \<subseteq> set ys" for ys
      using 1 Cons by simp
    show ?thesis
      using ih [OF order_refl] subset_trans [OF ih [OF collect_pipe_body_length] left_bodies(1)]
        subset_trans [OF ih [OF start_value_length] left_bodies(2)]
      by (subst Cons, subst collect_sub_fields.simps)
        (auto simp: Cons case_prod_beta Let_def split: line_kind.split; blast)
  qed (simp add: collect_sub_fields.simps)
qed

lemma left_entry [left_over]: "set (snd (entry_fields base t ls)) \<subseteq> set ls"
  using left_sub_fields by (auto simp: entry_fields_def case_prod_beta Let_def split: option.split; blast)

lemma left_objects [left_over]: "set (snd (object_entries base ls)) \<subseteq> set ls"
proof (induction ls rule: length_induct)
  case (1 ls)
  show ?case
  proof (cases ls)
    case (Cons l xs)
    have ih: "length ys \<le> length xs \<Longrightarrow> set (snd (object_entries base ys)) \<subseteq> set ys" for ys
      using 1 Cons by simp
    show ?thesis
      using ih [OF order_refl] subset_trans [OF ih [OF entry_fields_length] left_entry]
      by (subst Cons, subst object_entries.simps)
        (auto simp: Cons case_prod_beta Let_def split: line_kind.split)
  qed (simp add: object_entries.simps)
qed

lemma left_object_list [left_over]:
  "set (snd (parse_objects build base ls)) \<subseteq> set ls"
  "set (snd (parse_object_list build ls)) \<subseteq> set ls"
  "set (snd (parse_code_block pe n ls)) \<subseteq> set ls"
  using left_objects left_sub_fields
  by (auto simp: parse_objects_def parse_object_list_def parse_code_block_def case_prod_beta Let_def
      split: option.split; blast)+

lemma left_when_deeper [left_over]:
  "(\<And>si. set (snd (f si ls)) \<subseteq> set ls) \<Longrightarrow> set (snd (when_deeper base ls f)) \<subseteq> set ls"
  by (auto simp: when_deeper_def split: option.split)

lemma left_context_start [left_over]: "set (snd (context_start base key ls ac)) \<subseteq> set ls"
proof -
  have "set (snd (when_deeper base ls context_items)) \<subseteq> set ls"
    "set (snd (when_deeper base ls (\<lambda>si ls. parse_load_files_list ls si))) \<subseteq> set ls"
    "set (snd (when_deeper base ls (\<lambda>si ls. ((), skip_deeper si ls)))) \<subseteq> set ls"
    using left_fields(7,8) left_object_list(1) by (auto intro!: left_when_deeper simp: parse_load_files_list_def; blast)+
  then show ?thesis by (auto simp: context_start_def case_prod_beta Let_def split: option.split)
qed

lemma left_context_step [left_over]: "set (snd (context_step pe base ac l ls)) \<subseteq> set ls"
  using left_context_start by (auto simp: context_step_def split: line_kind.split; blast)

lemma left_context [left_over]:
  "set (snd (context_loop pe base ac ls)) \<subseteq> set ls" "set (snd (parse_agent_context pe ls)) \<subseteq> set ls"
proof -
  show loop: "set (snd (context_loop pe base ac ls)) \<subseteq> set ls" for ac base
  proof (induction ls arbitrary: ac rule: length_induct)
    case (1 ls)
    show ?case
    proof (cases ls)
      case (Cons l xs)
      have ih: "length ys \<le> length xs \<Longrightarrow> set (snd (context_loop pe base c ys)) \<subseteq> set ys" for ys c
        using 1 Cons by simp
      have "set (snd (context_loop pe base c (snd (context_step pe base ac l xs)))) \<subseteq> set xs" for c
        using subset_trans [OF ih [OF context_step_length] left_context_step] .
      then show ?thesis using ih [OF order_refl]
        by (auto simp: Cons context_loop.simps case_prod_beta Let_def)
    qed (simp add: context_loop.simps)
  qed
  show "set (snd (parse_agent_context pe ls)) \<subseteq> set ls"
    using loop by (auto simp: parse_agent_context_def split: option.split; blast)
qed

lemma left_profiles [left_over]:
  "set (snd (profile_loop pe base ps ls)) \<subseteq> set ls" "set (snd (parse_load_profiles pe ls)) \<subseteq> set ls"
proof -
  show loop: "set (snd (profile_loop pe base ps ls)) \<subseteq> set ls" for ps base
  proof (induction ls arbitrary: ps rule: length_induct)
    case (1 ls)
    show ?case
    proof (cases ls)
      case (Cons l xs)
      have ih: "length ys \<le> length xs \<Longrightarrow> set (snd (profile_loop pe base c ys)) \<subseteq> set ys" for ys c
        using 1 Cons by simp
      have deeper: "length (snd (when_deeper base xs collect_sub_fields)) \<le> length xs"
        by (rule when_deeper_length) (rule collect_sub_fields_length)
      have left: "set (snd (when_deeper base xs collect_sub_fields)) \<subseteq> set xs"
        by (rule left_when_deeper) (rule left_sub_fields)
      show ?thesis
        using ih [OF order_refl] subset_trans [OF ih [OF deeper] left]
        by (auto simp: Cons profile_loop.simps case_prod_beta Let_def split: line_kind.split option.split)
    qed (simp add: profile_loop.simps)
  qed
  show "set (snd (parse_load_profiles pe ls)) \<subseteq> set ls"
    using loop by (auto simp: parse_load_profiles_def split: option.split; blast)
qed

lemma left_header_step [left_over]: "header_step pe s l ls = Some r \<Longrightarrow> set (snd r) \<subseteq> set ls"
  using left_fields(1) [of ls] left_profiles(2) [of pe ls] left_bodies(4) [of ls]
  by (auto simp: header_step_def header_field_def case_prod_beta Let_def dest!: left_bodies(3)
      split: line_kind.splits if_splits; blast)

lemma left_node_field [left_over]: "node_field pe key number n ls = Some r \<Longrightarrow> set (snd r) \<subseteq> set ls"
  using left_fields(1) [of ls] left_object_list(3) [of pe number ls] left_context(2) [of pe ls] left_bodies(5) [of ls]
  by (auto simp: node_field_def structured_node_field_def with_parsed_def parse_code_blocks_def parse_verify_def
      parse_parallel_groups_def parse_memory_def case_prod_beta Let_def subsetD [OF left_object_list(2)] dest!: left_bodies(3)
      split: if_splits; blast)

lemma left_node_step [left_over]: "node_step pe b l ls = Some r \<Longrightarrow> set (snd r) \<subseteq> set ls"
  using left_bodies(4) [of ls] left_bodies(1) [of ls]
  by (auto simp: node_step_def case_prod_beta Let_def dest!: left_node_field split: line_kind.splits if_splits; blast)

section \<open>Complete lines\<close>

fun feed_lines :: "parse_env \<Rightarrow> string list \<Rightarrow> stream_parser \<Rightarrow> (parse_event list \<times> stream_parser) option" where
  "feed_lines pe [] s = Some ([], s)"
| "feed_lines pe (raw # raws) s =
     Option.bind (feed_line pe raw s) (\<lambda>(es, s1). map_option (apfst (append es)) (feed_lines pe raws s1))"

text \<open>The text split at its newlines: the complete lines and the rest.\<close>

definition whole_lines :: "string \<Rightarrow> string list" where
  "whole_lines s = map chomp_cr (butlast (split_char nl s))"

definition last_piece :: "string \<Rightarrow> string" where
  "last_piece s = last (split_char nl s)"

lemma split_char_find:
  "str_find [c] s = Some i \<Longrightarrow> split_char c s = take i s # split_char c (drop (i + 1) s)"
  by (induction s arbitrary: i) (auto split: if_splits)

lemma split_char_none: "str_find [c] s = None \<Longrightarrow> split_char c s = [s]"
  by (induction s) (auto split: if_splits)

lemma split_char_append:
  "split_char c (s @ t) = butlast (split_char c s) @ split_char c (last (split_char c s) @ t)"
  by (induction s) (auto simp: neq_Nil_conv split: list.split)

lemma feed_lines_append:
  "feed_lines pe (xs @ ys) s =
     Option.bind (feed_lines pe xs s) (\<lambda>(es, s1). map_option (apfst (append es)) (feed_lines pe ys s1))"
proof (induction xs arbitrary: s)
  case Nil
  then show ?case by (simp add: apfst_def map_prod_def option.map_id)
next
  case (Cons x xs)
  then show ?case
    by (cases "feed_line pe x s") (auto simp: bind_map_option case_prod_beta o_def option.map_comp apfst_def map_prod_def
        intro!: bind_option_cong split: bind_splits)
qed


text \<open>The text not yet read does not matter to a line.\<close>

definition with_text :: "string \<Rightarrow> nat \<Rightarrow> stream_parser \<Rightarrow> stream_parser" where
  "with_text p b s = s\<lparr>sp_bytes := b, sp_pending := p\<rparr>"

lemma with_text_fields [simp]:
  "sp_pending (with_text p b s) = p" "sp_bytes (with_text p b s) = b"
  "sp_buffered (with_text p b s) = sp_buffered s" "sp_state (with_text p b s) = sp_state s"
  "sp_header (with_text p b s) = sp_header s" "sp_nodes (with_text p b s) = sp_nodes s"
  "sp_errors (with_text p b s) = sp_errors s" "sp_line_number (with_text p b s) = sp_line_number s"
  "with_text p b (with_text q c s) = with_text p b s"
  "(with_text q b s)\<lparr>sp_pending := p\<rparr> = with_text p b s"
  by (simp_all add: with_text_def)

lemma with_text_self: "s = with_text (sp_pending s) (sp_bytes s) s"
  by (simp add: with_text_def)

lemma with_text_updates:
  "(with_text p b s)\<lparr>sp_state := st\<rparr> = with_text p b (s\<lparr>sp_state := st\<rparr>)"
  "(with_text p b s)\<lparr>sp_line_number := n\<rparr> = with_text p b (s\<lparr>sp_line_number := n\<rparr>)"
  "buffer line (with_text p b s) = with_text p b (buffer line s)"
  "add_errors errors (with_text p b s) = with_text p b (add_errors errors s)"
  "(with_text p b s)\<lparr>sp_buffered := [], sp_header := ho, sp_state := st\<rparr> =
   with_text p b (s\<lparr>sp_buffered := [], sp_header := ho, sp_state := st\<rparr>)"
  "(with_text p b s)\<lparr>sp_buffered := [], sp_nodes := ns, sp_state := st\<rparr> =
   with_text p b (s\<lparr>sp_buffered := [], sp_nodes := ns, sp_state := st\<rparr>)"
  by (simp_all add: with_text_def buffer_def add_errors_def)

lemma flush_with_text:
  "flush_header pe (with_text p b s) = map_option (apsnd (with_text p b)) (flush_header pe s)"
  "flush_node pe (with_text p b s) = map_option (apsnd (with_text p b)) (flush_node pe s)"
  "flush_current_section pe (with_text p b s) = map_option (apsnd (with_text p b)) (flush_current_section pe s)"
proof -
  show node: "flush_node pe (with_text p b s) = map_option (apsnd (with_text p b)) (flush_node pe s)"
    by (auto simp: flush_node_def with_text_updates option.map_comp o_def split: prod.splits intro!: option.map_cong0)
  show "flush_header pe (with_text p b s) = map_option (apsnd (with_text p b)) (flush_header pe s)"
    by (auto simp: flush_header_def with_text_updates option.map_comp o_def split: prod.splits intro!: option.map_cong0)
  show "flush_current_section pe (with_text p b s) = map_option (apsnd (with_text p b)) (flush_current_section pe s)"
    by (auto simp: flush_current_section_def node with_text_updates option.map_comp o_def
        split: stream_state.split prod.splits intro!: option.map_cong0)
qed

lemma start_section_with_text:
  "start_section line i (map_option (apsnd (with_text p b)) r) = map_option (apsnd (with_text p b)) (start_section line i r)"
  by (simp add: start_section_def with_text_updates case_prod_beta option.map_comp o_def)

lemma stream_step_with_text:
  "stream_step pe line (with_text p b s) = map_option (apsnd (with_text p b)) (stream_step pe line s)"
  using start_section_with_text [of line _ p b "Some ([], s)"]
  by (simp add: stream_step_def flush_with_text start_section_with_text with_text_updates Let_def
      split: stream_state.split line_kind.split)

lemma feed_line_with_text:
  "feed_line pe raw (with_text p b s) = map_option (apsnd (with_text p b)) (feed_line pe raw s)"
  by (simp add: feed_line_def Let_def with_text_updates stream_step_with_text split: sum.split)

lemma drain_lines_feed:
  "drain_lines pe (with_text p b s) =
     map_option (apsnd (with_text (last_piece p) b)) (feed_lines pe (whole_lines p) s)"
proof (induction p arbitrary: s rule: length_induct)
  case (1 p)
  show ?case
  proof (cases "str_find [nl] p")
    case None
    then show ?thesis
      by (subst drain_lines.simps) (simp add: whole_lines_def last_piece_def split_char_none)
  next
    case (Some i)
    have "p \<noteq> []" using Some by auto
    then have ih: "drain_lines pe (with_text (drop (i + 1) p) b t) =
      map_option (apsnd (with_text (last_piece (drop (i + 1) p)) b)) (feed_lines pe (whole_lines (drop (i + 1) p)) t)" for t
      using 1 by simp
    have split: "whole_lines p = chomp_cr (take i p) # whole_lines (drop (i + 1) p)" "last_piece p = last_piece (drop (i + 1) p)"
      by (simp_all add: whole_lines_def last_piece_def split_char_find [OF Some])
    show ?thesis
      by (subst drain_lines.simps)
        (simp add: Some split feed_line_with_text ih [simplified] case_prod_beta option.map_comp o_def
          bind_map_option apsnd_def apfst_def map_prod_def split: bind_splits)
  qed
qed

lemma feed_lines_with_text:
  "feed_lines pe raws (with_text p b s) = map_option (apsnd (with_text p b)) (feed_lines pe raws s)"
proof (induction raws arbitrary: s)
  case (Cons raw raws)
  then show ?case
    by (simp add: feed_line_with_text bind_map_option case_prod_beta option.map_comp o_def split: bind_splits)
qed simp

lemma split_char_last: "nl \<notin> set (last_piece s)"
  unfolding last_piece_def by (rule split_char_notin [of _ _ s]) simp

lemma whole_lines_append: "whole_lines (s @ t) = whole_lines s @ whole_lines (last_piece s @ t)"
  by (simp add: whole_lines_def last_piece_def split_char_append [of _ s] butlast_append)

lemma last_piece_append: "last_piece (s @ t) = last_piece (last_piece s @ t)"
  by (simp add: last_piece_def split_char_append [of _ s])

lemma push_chunks_feed:
  "push_chunks pe cs (with_text (last_piece p) b s) =
     map_option (apsnd (with_text (last_piece (p @ concat cs)) (b + length (concat cs))))
       (feed_lines pe (drop (length (whole_lines p)) (whole_lines (p @ concat cs))) s)"
proof (induction cs arbitrary: p b s)
  case Nil
  then show ?case by simp
next
  case (Cons c cs)
  have push: "push_chunk pe c (with_text (last_piece p) b s) =
    map_option (apsnd (with_text (last_piece (p @ c)) (b + length c))) (feed_lines pe (whole_lines (last_piece p @ c)) s)"
    using drain_lines_feed [of pe "last_piece p @ c" "b + length c" s]
    by (simp add: push_chunk_def with_text_def last_piece_append [of p c])
  have lines: "drop (length (whole_lines p)) (whole_lines (p @ concat (c # cs))) =
    whole_lines (last_piece p @ c) @ drop (length (whole_lines (p @ c))) (whole_lines ((p @ c) @ concat cs))"
    using whole_lines_append [of p c] whole_lines_append [of "p @ c" "concat cs"] by simp
  show ?case
    unfolding lines feed_lines_append
    by (simp add: push Cons.IH [of "p @ c"] bind_map_option case_prod_beta option.map_comp o_def add.assoc
        split: bind_splits)
qed


section \<open>A source\<close>

text \<open>A source of two nodes, its version checked by equality and pushed in two chunks that split a line.\<close>

definition sample_pe :: parse_env where
  "sample_pe = \<lparr>pe_semver = (\<lambda>s. s = ''0.1.0''), pe_escape = (\<lambda>s. s)\<rparr>"

definition sample_source :: string where
  "sample_source = unlines [''agm: 1.0'', ''package: p.q'', ''version: 0.1.0'', [], ''node a.b'', ''type: facts'',
     ''summary: one'', ''steps:'', ''  - x'', ''node c'', ''depends: [a.b]'']"

definition sample_chunks :: "string list" where
  "sample_chunks = [take 30 sample_source, drop 30 sample_source]"

end
