(* ===== verification/Canonical.thy ===== *)
theory Canonical
  imports Parser
begin

text \<open>
  The canonical renderer, \<open>crates/agm-core/src/renderer/canonical.rs\<close>: a file as text with its
  fields in a fixed order. The source pushes to one buffer; here each function returns what it
  pushes.
\<close>

section \<open>Scalars, blocks and lists\<close>

definition emit_scalar :: "string \<Rightarrow> string \<Rightarrow> string" where
  "emit_scalar key val = key @ '': '' @ val @ [nl]"

definition emit_opt :: "('a \<Rightarrow> string) \<Rightarrow> 'a option \<Rightarrow> string" where
  "emit_opt emit x = (case x of None \<Rightarrow> [] | Some v \<Rightarrow> emit v)"

definition emit_opt_scalar :: "string \<Rightarrow> string option \<Rightarrow> string" where
  "emit_opt_scalar key val = emit_opt (emit_scalar key) val"

definition emit_opt_enum :: "('a \<Rightarrow> string) \<Rightarrow> string \<Rightarrow> 'a option \<Rightarrow> string" where
  "emit_opt_enum shw key val = emit_opt (\<lambda>v. emit_scalar key (shw v)) val"

text \<open>The lines of a text, each behind an indentation.\<close>

definition indented :: "string \<Rightarrow> string \<Rightarrow> string" where
  "indented indent val = concat (map (\<lambda>line. indent @ line @ [nl]) (str_lines val))"

definition emit_block_or_scalar :: "string \<Rightarrow> string \<Rightarrow> string" where
  "emit_block_or_scalar key val =
     (if str_contains val [nl] then key @ '':'' @ [nl] @ indented ''  '' val else emit_scalar key val)"

definition emit_opt_block_or_scalar :: "string \<Rightarrow> string option \<Rightarrow> string" where
  "emit_opt_block_or_scalar key val = emit_opt (emit_block_or_scalar key) val"

definition use_inline :: "string list \<Rightarrow> bool" where
  "use_inline items \<longleftrightarrow>
     length items \<le> 3 \<and>
     list_all (\<lambda>s. \<not> str_contains s '','' \<and> \<not> str_contains s ''['' \<and> \<not> str_contains s '']'') items"

text \<open>A list on one line or on one line per item, the items behind \<open>indent\<close>.\<close>

definition emit_items :: "string \<Rightarrow> string \<Rightarrow> string list \<Rightarrow> string" where
  "emit_items key indent items =
     (if use_inline items then key @ '': ['' @ join '', '' items @ '']'' @ [nl]
      else key @ '':'' @ [nl] @ concat (map (\<lambda>item. indent @ ''- '' @ item @ [nl]) items))"

definition emit_list_raw :: "string \<Rightarrow> string list \<Rightarrow> string" where
  "emit_list_raw key items = (if items = [] then [] else emit_items key ''  '' items)"

definition emit_opt_list :: "string \<Rightarrow> string list option \<Rightarrow> string" where
  "emit_opt_list key val =
     emit_opt (\<lambda>items. if items = [] then [] else emit_list_raw key items) val"

section \<open>Imports and load profiles\<close>

definition emit_imports :: "import_entry list \<Rightarrow> string" where
  "emit_imports entries =
     (if entries = [] then []
      else ''imports:'' @ [nl] @ concat (map (\<lambda>e. ''  - '' @ show_import_entry e @ [nl]) entries))"

definition emit_load_profiles :: "(string, load_profile) btree \<Rightarrow> string" where
  "emit_load_profiles profiles =
     (if profiles = [] then []
      else ''load_profiles:'' @ [nl] @ concat (map (\<lambda>(name, lp).
        ''  '' @ name @ '':'' @ [nl] @ ''    filter: '' @ lp_filter lp @ [nl] @
        emit_opt (\<lambda>est. ''    estimated_tokens: '' @ show_token_estimate est @ [nl])
          (lp_estimated_tokens lp)) profiles))"

section \<open>Structured fields\<close>

text \<open>The lines of a body; an empty one is a line of spaces.\<close>

definition emit_body :: "string \<Rightarrow> string \<Rightarrow> string" where
  "emit_body indent body = (if body = [] then indent @ [nl] else indented indent body)"

definition emit_code_block :: "string \<Rightarrow> code_block \<Rightarrow> string" where
  "emit_code_block key cb =
     key @ '':'' @ [nl] @
     emit_opt_scalar ''  lang'' (cb_lang cb) @
     emit_opt_scalar ''  target'' (cb_target cb) @
     emit_scalar ''  action'' (show_code_action (cb_action cb)) @
     ''  body: |2'' @ [nl] @ emit_body ''    '' (cb_body cb) @
     emit_opt_scalar ''  anchor'' (cb_anchor cb) @
     emit_opt (\<lambda>old. ''  old:'' @ [nl] @ indented ''    '' old) (cb_old cb)"

definition emit_code_blocks :: "code_block list \<Rightarrow> string" where
  "emit_code_blocks blocks =
     (if blocks = [] then []
      else ''code_blocks:'' @ [nl] @ concat (map (\<lambda>cb.
        ''  - '' @
        (case cb_lang cb of
           None \<Rightarrow> emit_scalar ''action'' (show_code_action (cb_action cb))
         | Some lang \<Rightarrow>
             emit_scalar ''lang'' lang @
             emit_opt_scalar ''    target'' (cb_target cb) @
             emit_scalar ''    action'' (show_code_action (cb_action cb))) @
        ''    body: |2'' @ [nl] @ emit_body ''      '' (cb_body cb) @
        emit_opt_scalar ''    anchor'' (cb_anchor cb) @
        emit_opt (\<lambda>old. ''    old:'' @ [nl] @ indented ''      '' old) (cb_old cb)) blocks))"

fun emit_verify_check :: "verify_check \<Rightarrow> string" where
  "emit_verify_check (VcCommand run expect) =
     ''  - type: command'' @ [nl] @ emit_scalar ''    run'' run @ emit_opt_scalar ''    expect'' expect"
| "emit_verify_check (VcFileExists f) = ''  - type: file_exists'' @ [nl] @ emit_scalar ''    file'' f"
| "emit_verify_check (VcFileContains f p) =
     ''  - type: file_contains'' @ [nl] @ emit_scalar ''    file'' f @ emit_scalar ''    pattern'' p"
| "emit_verify_check (VcFileNotContains f p) =
     ''  - type: file_not_contains'' @ [nl] @ emit_scalar ''    file'' f @ emit_scalar ''    pattern'' p"
| "emit_verify_check (VcNodeStatus n s) =
     ''  - type: node_status'' @ [nl] @ emit_scalar ''    node'' n @ emit_scalar ''    status'' s"

definition emit_verify_checks :: "verify_check list \<Rightarrow> string" where
  "emit_verify_checks checks =
     (if checks = [] then [] else ''verify:'' @ [nl] @ concat (map emit_verify_check checks))"

fun show_file_range :: "file_range \<Rightarrow> string" where
  "show_file_range RangeFull = ''full''"
| "show_file_range (RangeLines s e) = show_word s @ ''-'' @ show_word e"
| "show_file_range (RangeFunction name) = ''function: '' @ name"

definition emit_block_or_scalar_indented :: "string \<Rightarrow> string \<Rightarrow> string" where
  "emit_block_or_scalar_indented key val =
     (if str_contains val [nl] then key @ '':'' @ [nl] @ indented ''    '' val else emit_scalar key val)"

definition emit_agent_context :: "agent_context \<Rightarrow> string" where
  "emit_agent_context ctx =
     ''agent_context:'' @ [nl] @
     emit_opt (emit_items ''  load_nodes'' ''    '') (ac_load_nodes ctx) @
     emit_opt (\<lambda>files. ''  load_files:'' @ [nl] @ concat (map (\<lambda>lf.
       emit_scalar ''    - path'' (lf_path lf) @
       emit_scalar ''      range'' (show_file_range (lf_range lf))) files)) (ac_load_files ctx) @
     emit_opt (emit_block_or_scalar_indented ''  system_hint'') (ac_system_hint ctx) @
     emit_opt (\<lambda>n. emit_scalar ''  max_tokens'' (show_word n)) (ac_max_tokens ctx) @
     emit_opt (emit_items ''  load_memory'' ''    '') (ac_load_memory ctx)"

definition emit_memory_entries :: "memory_entry list \<Rightarrow> string" where
  "emit_memory_entries entries =
     (if entries = [] then []
      else ''memory:'' @ [nl] @ concat (map (\<lambda>e.
        emit_scalar ''  - key'' (me_key e) @
        emit_scalar ''    topic'' (me_topic e) @
        emit_scalar ''    action'' (show_memory_action (me_action e)) @
        emit_opt_scalar ''    value'' (me_value e) @
        emit_opt_enum show_memory_scope ''    scope'' (me_scope e) @
        emit_opt_enum show_memory_ttl ''    ttl'' (me_ttl e) @
        emit_opt_scalar ''    query'' (me_query e) @
        emit_opt_enum show_word ''    max_results'' (me_max_results e)) entries))"

definition emit_parallel_groups :: "parallel_group list \<Rightarrow> string" where
  "emit_parallel_groups groups =
     (if groups = [] then []
      else ''parallel_groups:'' @ [nl] @ concat (map (\<lambda>g.
        emit_scalar ''  - group'' (pg_group g) @
        emit_items ''    nodes'' ''      '' (pg_nodes g) @
        emit_scalar ''    strategy'' (show_strategy (pg_strategy g)) @
        emit_opt (emit_items ''    requires'' ''      '') (pg_requires g) @
        emit_opt_enum show_word ''    max_concurrency'' (pg_max_concurrency g)) groups))"

section \<open>Nodes\<close>

fun emit_extra_field :: "string \<times> field_value \<Rightarrow> string" where
  "emit_extra_field (k, FvScalar s) = emit_scalar k s"
| "emit_extra_field (k, FvBlock s) = emit_block_or_scalar k s"
| "emit_extra_field (k, FvList items) = emit_list_raw k items"

definition emit_node :: "node \<Rightarrow> string" where
  "emit_node n =
     ''node '' @ n_id n @ [nl] @
     emit_scalar ''type'' (show_node_type (n_type n)) @
     emit_opt_block_or_scalar ''title'' (n_title n) @
     emit_opt_block_or_scalar ''description'' (n_description n) @
     emit_opt_enum show_ticket_action ''action'' (n_action n) @
     emit_opt_enum show_sdd_phase ''sdd_phase'' (n_sdd_phase n) @
     emit_opt_scalar ''assignee'' (n_assignee n) @
     emit_opt_scalar ''ticket_id'' (n_ticket_id n) @
     emit_opt_list ''labels'' (n_labels n) @
     emit_opt_block_or_scalar ''prompt'' (n_prompt n) @
     emit_opt_enum show_node_status ''status'' (n_status n) @
     emit_opt_enum show_stability ''stability'' (n_stability n) @
     emit_opt_enum show_priority ''priority'' (n_priority n) @
     emit_opt_enum show_confidence ''confidence'' (n_confidence n) @
     emit_opt_list ''depends'' (n_depends n) @
     emit_opt_list ''related_to'' (n_related_to n) @
     emit_opt_list ''replaces'' (n_replaces n) @
     emit_opt_list ''conflicts'' (n_conflicts n) @
     emit_opt_list ''see_also'' (n_see_also n) @
     emit_opt_list ''input'' (n_input n) @
     emit_opt_list ''output'' (n_output n) @
     emit_scalar ''summary'' (n_summary n) @
     emit_opt_list ''items'' (n_items n) @
     emit_opt_list ''steps'' (n_steps n) @
     emit_opt_list ''fields'' (n_fields n) @
     emit_opt (emit_code_block ''code'') (n_code n) @
     emit_opt emit_code_blocks (n_code_blocks n) @
     emit_opt emit_verify_checks (n_verify n) @
     emit_opt emit_agent_context (n_agent_context n) @
     emit_opt_scalar ''target'' (n_target n) @
     emit_opt emit_memory_entries (n_memory n) @
     emit_opt_enum show_execution_status ''execution_status'' (n_execution_status n) @
     emit_opt_scalar ''executed_by'' (n_executed_by n) @
     emit_opt_scalar ''executed_at'' (n_executed_at n) @
     emit_opt_block_or_scalar ''execution_log'' (n_execution_log n) @
     emit_opt_enum show_word ''retry_count'' (n_retry_count n) @
     emit_opt emit_parallel_groups (n_parallel_groups n) @
     emit_opt_block_or_scalar ''detail'' (n_detail n) @
     emit_opt_list ''rationale'' (n_rationale n) @
     emit_opt_list ''tradeoffs'' (n_tradeoffs n) @
     emit_opt_list ''resolution'' (n_resolution n) @
     emit_opt_block_or_scalar ''examples'' (n_examples n) @
     emit_opt_block_or_scalar ''notes'' (n_notes n) @
     emit_opt_list ''scope'' (n_scope n) @
     emit_opt_block_or_scalar ''applies_when'' (n_applies_when n) @
     emit_opt_scalar ''valid_from'' (n_valid_from n) @
     emit_opt_scalar ''valid_until'' (n_valid_until n) @
     emit_opt_list ''tags'' (n_tags n) @
     emit_opt_list ''aliases'' (n_aliases n) @
     emit_opt_list ''keywords'' (n_keywords n) @
     concat (map emit_extra_field (n_extra_fields n))"

section \<open>The file\<close>

definition emit_header :: "header \<Rightarrow> string" where
  "emit_header h =
     emit_scalar ''agm'' (h_agm h) @
     emit_scalar ''package'' (h_package h) @
     emit_scalar ''version'' (h_version h) @
     emit_opt_scalar ''title'' (h_title h) @
     emit_opt_scalar ''owner'' (h_owner h) @
     emit_opt emit_imports (h_imports h) @
     emit_opt_scalar ''default_load'' (h_default_load h) @
     emit_opt_block_or_scalar ''description'' (h_description h) @
     emit_opt_list ''tags'' (h_tags h) @
     emit_opt_scalar ''status'' (h_status h) @
     emit_opt emit_load_profiles (h_load_profiles h) @
     emit_opt_scalar ''target_runtime'' (h_target_runtime h)"

definition render_canonical :: "agm_file \<Rightarrow> string" where
  "render_canonical f =
     (let buf = emit_header (f_header f) @ concat (map (\<lambda>n. nl # emit_node n) (f_nodes f)) in
      if ends_with [nl] buf then buf else buf @ [nl])"

end
