(* ===== verification/Sidecar.thy ===== *)
theory Sidecar
  imports Model_Node
begin

text \<open>
  The line classifier and lexer shared by the two sidecar formats:
  \<open>crates/agm-core/src/parser/sidecar.rs\<close>, with the lemmas that say how a line written
  by a renderer is classified.
\<close>

section \<open>Lines\<close>

datatype sidecar_line_kind =
    SlHeader string string
  | SlBlockDecl string string
  | SlField string string
  | SlContinuation string
  | SlBlank
  | SlComment string

record sidecar_line =
  sl_kind :: sidecar_line_kind
  sl_number :: nat
  sl_raw :: string

definition is_header_key :: "string \<Rightarrow> bool" where
  "is_header_key s =
     (case s of
        [] \<Rightarrow> False
      | c # cs \<Rightarrow>
          is_lower c \<and>
          list_all (\<lambda>c. is_lower c \<or> is_digit c \<or> c = CHR ''_'' \<or> c = CHR ''.'') cs)"

definition is_field_key :: "string \<Rightarrow> bool" where
  "is_field_key s =
     (case s of
        [] \<Rightarrow> False
      | c # cs \<Rightarrow>
          (is_lower c \<or> c = CHR ''_'') \<and>
          list_all (\<lambda>c. is_lower c \<or> is_digit c \<or> c = CHR ''_'') cs)"

definition classify_hash :: "string \<Rightarrow> string \<Rightarrow> sidecar_line_kind" where
  "classify_hash line rest_of_hash =
     (case strip_prefix ''# '' line of
        None \<Rightarrow> SlComment (trim_start rest_of_hash)
      | Some after_hash \<Rightarrow>
          (let fallback =
             (case strip_suffix '':'' after_hash of
                Some key \<Rightarrow>
                  if is_header_key key then SlHeader key [] else SlComment after_hash
              | None \<Rightarrow> SlComment after_hash) in
           case str_find '': '' after_hash of
             Some colon \<Rightarrow>
               (let key = take colon after_hash; value = drop (colon + 2) after_hash in
                if is_header_key key then SlHeader key value else fallback)
           | None \<Rightarrow> fallback))"

definition classify_block :: "string \<Rightarrow> string \<Rightarrow> sidecar_line_kind option" where
  "classify_block keyword line =
     (case strip_prefix (keyword @ '' '') line of
        Some rest \<Rightarrow>
          (let i = trim_end rest in if i \<noteq> [] then Some (SlBlockDecl keyword i) else None)
      | None \<Rightarrow> None)"

definition classify_field :: "string \<Rightarrow> sidecar_line_kind" where
  "classify_field line =
     (case str_find '':'' line of
        Some colon \<Rightarrow>
          (let key = take colon line; rest = drop (colon + 1) line in
           if is_field_key key then
             SlField key (case strip_prefix '' '' rest of Some stripped \<Rightarrow> stripped | None \<Rightarrow> rest)
           else SlComment line)
      | None \<Rightarrow> SlComment line)"

definition classify_sidecar_line :: "string \<Rightarrow> sidecar_line_kind" where
  "classify_sidecar_line line =
     (if trim line = [] then SlBlank
      else case strip_prefix ''#'' line of
        Some rest_of_hash \<Rightarrow> classify_hash line rest_of_hash
      | None \<Rightarrow>
          (case classify_block ''state'' line of
             Some k \<Rightarrow> k
           | None \<Rightarrow>
               (case classify_block ''entry'' line of
                  Some k \<Rightarrow> k
                | None \<Rightarrow>
                    (case strip_prefix ''  '' line of
                       Some stripped \<Rightarrow> SlContinuation stripped
                     | None \<Rightarrow> classify_field line))))"

section \<open>The lexer\<close>

definition tab_error :: "nat \<Rightarrow> agm_error" where
  "tab_error number =
     error_at P004
       (''Tab character in indentation at line '' @ show_nat number @ '' (spaces required)'') number"

text \<open>The loop over the numbered lines: the classified lines and the errors.\<close>

fun lex_lines :: "nat \<Rightarrow> string list \<Rightarrow> sidecar_line list \<times> agm_error list" where
  "lex_lines number [] = ([], [])"
| "lex_lines number (raw # raws) =
     (let (lines, errors) = lex_lines (number + 1) raws in
      if str_contains raw [tab] then (lines, tab_error number # errors)
      else (\<lparr>sl_kind = classify_sidecar_line raw, sl_number = number, sl_raw = raw\<rparr> # lines,
            errors))"

definition lex_sidecar :: "string \<Rightarrow> sidecar_line list parse_result" where
  "lex_sidecar input =
     (let (lines, errors) = lex_lines 1 (str_lines input) in
      if errors = [] then Inr lines else Inl errors)"

text \<open>A string in single quotes, as the messages show names.\<close>

definition sq :: "string \<Rightarrow> string" where
  "sq s = CHR 0x27 # s @ [CHR 0x27]"

section \<open>Lemmas\<close>

text \<open>A string that a rendered line can carry and that its line gives back.\<close>

definition clean :: "string \<Rightarrow> bool" where
  "clean s \<longleftrightarrow> tab \<notin> set s \<and> line_ok s"

lemma clean_Nil [simp]: "clean []"
  by (simp add: clean_def line_ok_def)

lemma clean_append:
  "clean s \<Longrightarrow> tab \<notin> set p \<Longrightarrow> nl \<notin> set p \<Longrightarrow> cr \<notin> set p \<Longrightarrow> clean (p @ s)"
  by (cases "s = []") (force simp: clean_def line_ok_def dest: last_in_set)+

definition lex_line :: "nat \<Rightarrow> string \<Rightarrow> sidecar_line" where
  "lex_line number raw =
     \<lparr>sl_kind = classify_sidecar_line raw, sl_number = number, sl_raw = raw\<rparr>"

lemma lex_line_kind [simp]: "sl_kind (lex_line n raw) = classify_sidecar_line raw"
  by (simp add: lex_line_def)

fun number_lines :: "nat \<Rightarrow> string list \<Rightarrow> sidecar_line list" where
  "number_lines n [] = []"
| "number_lines n (l # ls) = lex_line n l # number_lines (Suc n) ls"

lemma number_lines_append:
  "number_lines n (ls @ ms) = number_lines n ls @ number_lines (n + length ls) ms"
  by (induction ls arbitrary: n) auto

lemma lex_lines_clean: "\<forall>l \<in> set ls. tab \<notin> set l \<Longrightarrow> lex_lines n ls = (number_lines n ls, [])"
  by (induction ls arbitrary: n) (simp_all add: lex_line_def)

lemma lex_sidecar_unlines:
  assumes "\<forall>l \<in> set ls. clean l"
  shows "lex_sidecar (unlines ls) = Inr (number_lines 1 ls)"
proof -
  have "str_lines (unlines ls) = ls"
    using assms by (intro str_lines_unlines) (simp add: clean_def)
  moreover have "lex_lines 1 ls = (number_lines 1 ls, [])"
    using assms by (intro lex_lines_clean) (simp add: clean_def)
  ultimately show ?thesis by (simp add: lex_sidecar_def)
qed

lemma lex_lines_tab:
  "(snd (lex_lines n ls) = []) \<longleftrightarrow> (\<forall>l \<in> set ls. tab \<notin> set l)"
  by (induction ls arbitrary: n) (auto split: prod.splits, (metis snd_conv)+)

lemma header_key_chars: "is_header_key k \<Longrightarrow> c \<in> set k \<Longrightarrow> is_lower c \<or> is_digit c \<or> c = CHR ''_'' \<or> c = CHR ''.''"
  by (auto simp: is_header_key_def list_all_iff split: list.splits)

lemma field_key_chars: "is_field_key k \<Longrightarrow> c \<in> set k \<Longrightarrow> is_lower c \<or> is_digit c \<or> c = CHR ''_''"
  by (auto simp: is_field_key_def list_all_iff split: list.splits)

lemma key_no_colon:
  "is_header_key k \<Longrightarrow> CHR '':'' \<notin> set k"
  "is_field_key k \<Longrightarrow> CHR '':'' \<notin> set k"
  by (auto dest!: header_key_chars field_key_chars simp: is_lower_def is_digit_def byte_def)

lemma graphic_literals [simp]:
  "graphic CHR ''#''" "graphic CHR '':''" "graphic CHR ''s''" "graphic CHR ''e''"
  by (simp_all add: graphic_def byte_def)

lemma classify_blank [simp]: "classify_sidecar_line [] = SlBlank"
  by (simp add: classify_sidecar_line_def trim_def trim_start_def trim_end_def)

lemma classify_header_line:
  assumes "is_header_key key"
  shows "classify_sidecar_line (''# '' @ key @ '': '' @ v) = SlHeader key v"
proof -
  have "trim (''# '' @ key @ '': '' @ v) \<noteq> []"
    by (rule trim_nonempty [of "CHR ''#''"]) auto
  moreover have "str_find '': '' (key @ '': '' @ v) = Some (length key)"
    using str_find_two [of "CHR '':''" key "CHR '' ''" v] key_no_colon(1) [OF assms] by simp
  ultimately show ?thesis
    using assms by (simp add: classify_sidecar_line_def classify_hash_def)
qed

lemma classify_block_line:
  assumes "trim_end i = i" and "i \<noteq> []"
  shows "classify_sidecar_line (''state '' @ i) = SlBlockDecl ''state'' i"
    and "classify_sidecar_line (''entry '' @ i) = SlBlockDecl ''entry'' i"
proof -
  have "trim (''state '' @ i) \<noteq> []" "trim (''entry '' @ i) \<noteq> []"
    by (rule trim_nonempty [of "CHR ''s''"] trim_nonempty [of "CHR ''e''"]; simp)+
  then show "classify_sidecar_line (''state '' @ i) = SlBlockDecl ''state'' i"
    and "classify_sidecar_line (''entry '' @ i) = SlBlockDecl ''entry'' i"
    using assms by (simp_all add: classify_sidecar_line_def classify_block_def)
qed

lemma classify_field_line:
  assumes "is_field_key key" and "key \<noteq> ''state''" and "key \<noteq> ''entry''"
  shows "classify_sidecar_line (key @ '': '' @ v) = SlField key v"
proof -
  let ?l = "key @ '': '' @ v"
  have "trim ?l \<noteq> []"
    by (rule trim_nonempty [of "CHR '':''"]) auto
  moreover have "str_find '':'' ?l = Some (length key)"
    using str_find_char [of "CHR '':''" key "CHR '' '' # v"] key_no_colon(2) [OF assms(1)] by simp
  moreover have "strip_prefix ''#'' ?l = None" "strip_prefix ''  '' ?l = None"
    using assms(1)
    by (auto simp: is_field_key_def is_lower_def byte_def split: list.splits)
  moreover have "strip_prefix p ?l = None"
    if "p = q @ '' ''" "CHR '' '' \<notin> set q" "CHR '':'' \<notin> set q" for p q
  proof (rule ccontr)
    assume "strip_prefix p ?l \<noteq> None"
    then obtain t where "strip_prefix p ?l = Some t" by blast
    then have "?l = p @ t" by (simp only: strip_prefix_Some_iff)
    then have eq: "key @ CHR '':'' # CHR '' '' # v = q @ CHR '' '' # t"
      by (simp add: that(1))
    have "CHR '' '' \<notin> set key"
      using field_key_chars [OF assms(1), of sp] by (auto simp: is_lower_def is_digit_def byte_def)
    with eq that(2,3) key_no_colon(2) [OF assms(1)] show False
      by (auto simp: append_eq_append_conv2 append_eq_Cons_conv Cons_eq_append_conv)
  qed
  from this [of "''state ''" "''state''"] this [of "''entry ''" "''entry''"]
  have "strip_prefix ''state '' ?l = None" "strip_prefix ''entry '' ?l = None" by simp_all
  ultimately show ?thesis
    using assms(1)
    by (simp add: classify_sidecar_line_def classify_block_def classify_field_def)
qed

lemma drop_ws_sp: "drop_ws w2 w3 (sp # s) = drop_ws w2 w3 s"
proof -
  have "ws1 sp" by (simp add: ws1_def)
  then show ?thesis
    by (cases "(w2, w3, sp # s)" rule: drop_ws.cases) auto
qed

lemma trim_sp [simp]: "trim (sp # s) = trim s"
  by (simp add: trim_def trim_start_def drop_ws_sp)

lemma classify_continuation_line:
  assumes "trim c \<noteq> []"
  shows "classify_sidecar_line (''  '' @ c) = SlContinuation c"
proof -
  have "trim (''  '' @ c) \<noteq> []" using assms trim_sp by simp
  then show ?thesis
    by (simp add: classify_sidecar_line_def classify_block_def)
qed

lemma classify_continuation_blank:
  "trim c = [] \<Longrightarrow> classify_sidecar_line (''  '' @ c) = SlBlank"
  using trim_sp by (simp add: classify_sidecar_line_def)

end
