(* ===== verification/Canonical_Lines.thy ===== *)
theory Canonical_Lines
  imports Canonical Sidecar
begin

text \<open>
  How the lexer reads the lines that the canonical renderer writes: fields at an indentation,
  list items, lines of blocks and bodies.
\<close>

section \<open>Trimming\<close>

text \<open>A value that is written after a key and read back: visible at both ends, on one line.\<close>

definition plain :: "string \<Rightarrow> bool" where
  "plain s \<longleftrightarrow> clean s \<and> s \<noteq> [] \<and> graphic (hd s) \<and> graphic (last s)"

definition spaces :: "nat \<Rightarrow> string" where
  "spaces k = replicate k sp"

lemma spaces_simps [simp]: "spaces 0 = []" "spaces (Suc k) = sp # spaces k" "c \<in> set (spaces k) \<longleftrightarrow> k \<noteq> 0 \<and> c = sp"
  by (auto simp: spaces_def)

lemma trim_spaces [simp]: "trim (spaces k @ s) = trim s"
  by (induction k) auto

lemma trim_visible: "s \<noteq> [] \<Longrightarrow> graphic (hd s) \<Longrightarrow> graphic (last s) \<Longrightarrow> trim s = s"
  by (simp add: trim_def trim_start_id trim_end_id)

lemma trim_plain [simp]: "plain s \<Longrightarrow> trim s = s"
  by (simp add: plain_def trim_visible)

lemma trim_Nil [simp]: "trim [] = []"
  by (simp add: trim_def trim_start_def trim_end_def)

lemma count_indent_spaces: "s = [] \<or> hd s \<noteq> sp \<Longrightarrow> count_indent (spaces k @ s) = k"
  by (induction k; cases s) (auto simp: count_indent_def)

lemma valid_key_chars:
  "is_valid_field_key key \<Longrightarrow> c \<in> set key \<Longrightarrow> graphic c \<and> c \<noteq> CHR '':'' \<and> c \<noteq> sp \<and> c \<noteq> CHR ''#'' \<and> c \<noteq> CHR ''-''"
  by (auto simp: is_valid_field_key_def is_alpha_def is_lower_def is_upper_def is_digit_def graphic_def byte_def
      list_all_iff split: list.splits)

lemma valid_key_hd: "is_valid_field_key key \<Longrightarrow> key \<noteq> [] \<and> hd key \<in> set key"
  by (cases key) (auto simp: is_valid_field_key_def)

section \<open>Fields\<close>

lemma classify_key_line:
  fixes k n :: nat
  assumes key: "is_valid_field_key key" "key \<noteq> ''body''" and w: "w = [] \<or> graphic (last w)" "tab \<notin> set w"
  defines "raw == spaces k @ key @ CHR '':'' # w"
  shows "classify_line raw n =
    (let value = trim w in
     if starts_with ''['' value then
       (if \<not> ends_with '']'' value then Inl (list_error n)
        else res_bind (parse_inline_list value n) (\<lambda>items. Inr (agm_line_of (LkList key items) n k raw)))
     else Inr (agm_line_of (if value \<noteq> [] then LkScalar key value else LkStart key) n k raw))"
proof -
  let ?t = "key @ CHR '':'' # w"
  have hd: "hd ?t \<in> set key" "key \<noteq> []" using valid_key_hd [OF key(1)] by auto
  have chars: "\<And>c. c \<in> set key \<Longrightarrow> graphic c \<and> c \<noteq> CHR '':'' \<and> c \<noteq> sp \<and> c \<noteq> CHR ''#'' \<and> c \<noteq> CHR ''-''"
    using valid_key_chars [OF key(1)] by blast
  have trim_raw: "trim raw = ?t"
    using w(1) chars [OF hd(1)] hd(2) by (auto simp: raw_def intro!: trim_visible)
  have find: "str_find '':'' raw = Some (k + length key)"
    using str_find_char [of "CHR '':''" "spaces k @ key" w] chars
    by (auto simp: raw_def spaces_def)
  have sides: "trim (take (k + length key) raw) = key" "drop (k + length key + 1) raw = w"
    using hd chars [of "last key"] chars [of "hd key"]
    by (auto simp: raw_def spaces_def trim_spaces [unfolded spaces_def] intro!: trim_visible)
  have indent: "count_indent raw = k"
    unfolding raw_def using chars [OF hd(1)] by (intro count_indent_spaces) auto
  have no_tab: "tab \<notin> set raw"
    using w(2) chars [of tab] by (auto simp: raw_def graphic_def byte_def)
  obtain c cs where cs: "key = c # cs" using hd(2) by (cases key) auto
  have hash: "c \<noteq> CHR ''#''" using chars [of c] cs by simp
  have node: "?t \<noteq> ''node''" "\<not> starts_with ''node '' ?t"
  proof -
    show "?t \<noteq> ''node''"
    proof
      assume "?t = ''node''"
      then have "CHR '':'' \<in> set ''node''" by (metis in_set_conv_decomp)
      then show False by simp
    qed
    show "\<not> starts_with ''node '' ?t"
    proof
      assume "starts_with ''node '' ?t"
      then obtain r where "key @ CHR '':'' # w = ''node'' @ sp # r" by (auto simp: starts_with_iff)
      then show False
        using chars [of sp] chars [of "CHR '':''"]
        by (auto simp: append_eq_append_conv2 append_eq_Cons_conv Cons_eq_append_conv)
    qed
  qed
  have body: "strip_prefix ''body:'' ?t = None"
  proof (rule ccontr)
    assume "strip_prefix ''body:'' ?t \<noteq> None"
    then obtain r where "strip_prefix ''body:'' ?t = Some r" by blast
    then have "key @ CHR '':'' # w = ''body'' @ CHR '':'' # r" by (simp add: strip_prefix_Some_iff)
    then show False
      using chars [of "CHR '':''"] key(2)
      by (auto simp: append_eq_append_conv2 append_eq_Cons_conv Cons_eq_append_conv)
  qed
  have field: "classify_agm_field raw n =
    (let value = trim w in
     if starts_with ''['' value then
       Some (if \<not> ends_with '']'' value then Inl (list_error n)
             else res_bind (parse_inline_list value n) (\<lambda>items. Inr (LkList key items)))
     else Some (Inr (if value \<noteq> [] then LkScalar key value else LkStart key)))"
    using find sides key(1) by (simp add: classify_agm_field_def Let_def)
  have "strip_prefix ''# expect:'' ?t = None" "\<not> starts_with ''#'' ?t" using hash by (simp_all add: cs)
  then show ?thesis
    using no_tab trim_raw node body indent
    by (simp add: classify_line_def field Let_def res_bind_def split: sum.split)
qed

lemma trim_sp_end: "w = sp # v \<Longrightarrow> trim w = trim v"
  by simp

text \<open>The three forms of a field.\<close>

definition key_ok :: "string \<Rightarrow> bool" where
  "key_ok key \<longleftrightarrow> is_valid_field_key key \<and> key \<noteq> ''body''"

definition scalar_ok :: "string \<Rightarrow> bool" where
  "scalar_ok v \<longleftrightarrow> plain v \<and> hd v \<noteq> CHR ''[''"

definition inline_ok :: "string \<Rightarrow> bool" where
  "inline_ok v \<longleftrightarrow> plain v \<and> CHR '','' \<notin> set v"

lemma plain_no_tab: "plain v \<Longrightarrow> tab \<notin> set v"
  by (simp add: plain_def clean_def)

lemma classify_scalar:
  assumes "key_ok key" and "scalar_ok v"
  shows "classify_line (spaces k @ key @ '': '' @ v) n =
    Inr (agm_line_of (LkScalar key v) n k (spaces k @ key @ '': '' @ v))"
proof -
  obtain c cs where v: "v = c # cs" "c \<noteq> CHR ''[''" using assms(2) by (cases v) (auto simp: scalar_ok_def plain_def)
  have "graphic (last v)" "tab \<notin> set v" "trim v = v"
    using assms(2) plain_no_tab by (auto simp: scalar_ok_def plain_def trim_visible)
  then show ?thesis
    using assms(1) v by (simp add: classify_key_line key_ok_def Let_def)
qed

lemma classify_start:
  "key_ok key \<Longrightarrow> classify_line (spaces k @ key @ '':'') n =
     Inr (agm_line_of (LkStart key) n k (spaces k @ key @ '':''))"
  by (simp add: classify_key_line key_ok_def Let_def)

lemma split_char_join: "c \<notin> set s \<Longrightarrow> split_char c (s @ c # t) = s # split_char c t"
  by (induction s) auto

lemma split_char_single: "c \<notin> set s \<Longrightarrow> split_char c s = [s]"
  by (induction s) auto

lemma split_join_items:
  assumes "list_all inline_ok items" and "items \<noteq> []"
  shows "map trim (split_char CHR '','' (join '', '' items)) = items"
  using assms
proof (induction items rule: induct_list012)
  case (2 s)
  then show ?case by (simp add: inline_ok_def split_char_single)
next
  case (3 s t ss)
  have "split_char CHR '','' (s @ CHR '','' # sp # join '', '' (t # ss)) = s # split_char CHR '','' (sp # join '', '' (t # ss))"
    using "3.prems" by (intro split_char_join) (simp add: inline_ok_def)
  moreover obtain x xs where xs: "split_char CHR '','' (join '', '' (t # ss)) = x # xs"
    by (cases "split_char CHR '','' (join '', '' (t # ss))") auto
  ultimately have "map trim (split_char CHR '','' (join '', '' (s # t # ss))) = trim s # trim (sp # x) # map trim xs"
    by simp
  also have "\<dots> = s # map trim (split_char CHR '','' (join '', '' (t # ss)))"
    using "3.prems" xs by (simp add: inline_ok_def)
  finally show ?case using 3 by simp
qed simp

lemma join_no_char: "c \<notin> set d \<Longrightarrow> \<forall>s \<in> set ss. c \<notin> set s \<Longrightarrow> c \<notin> set (join d ss)"
  by (induction d ss rule: join.induct) auto

lemma ends_with_snoc: "ends_with [c] (s @ [c])"
  by (simp add: ends_with_def strip_suffix_def)

lemma classify_list:
  assumes "key_ok key" and "list_all inline_ok items" and "items \<noteq> []"
  shows "classify_line (spaces k @ key @ '': ['' @ join '', '' items @ '']'') n =
    Inr (agm_line_of (LkList key items) n k (spaces k @ key @ '': ['' @ join '', '' items @ '']''))"
proof -
  let ?w = "sp # CHR ''['' # join '', '' items @ '']''"
  have "tab \<notin> set (join '', '' items)"
    using assms(2) by (intro join_no_char) (auto simp: list_all_iff inline_ok_def plain_no_tab)
  moreover have "trim ?w = tl ?w" by (simp add: trim_visible graphic_def byte_def)
  moreover have "ends_with '']'' (CHR ''['' # join '', '' items @ '']'')"
    using ends_with_snoc [of "CHR '']''" "CHR ''['' # join '', '' items"] by simp
  moreover have "filter (\<lambda>s. s \<noteq> []) items = items"
    using assms(2) by (auto simp: list_all_iff inline_ok_def plain_def intro: filter_True)
  ultimately show ?thesis
    using assms(1) split_join_items [OF assms(2,3)]
    by (simp add: classify_key_line key_ok_def Let_def parse_inline_list_def graphic_def byte_def)
qed

section \<open>Items and blocks\<close>

lemma drop_ws_suffix: "suffix (drop_ws w2 w3 s) s"
  by (induction w2 w3 s rule: drop_ws.induct) (auto simp: suffix_Cons)

lemma trim_end_hd:
  assumes "graphic c"
  shows "\<exists>u. trim_end (c # s) = c # u"
proof -
  let ?d = "drop_ws (\<lambda>a b. ws2 b a) (\<lambda>a b c. ws3 c b a) (rev (c # s))"
  obtain p where p: "rev (c # s) = p @ ?d" using drop_ws_suffix suffixE by blast
  have "c \<in> set ?d"
    using assms by (intro drop_ws_keeps) (auto simp: graphic_def ws2_def ws3_def)
  then have "?d \<noteq> []" by auto
  then have "last ?d = c" using arg_cong [OF p, of last] by simp
  then have "?d = butlast ?d @ [c]" using \<open>?d \<noteq> []\<close> by (metis append_butlast_last_id)
  then have "rev ?d = c # rev (butlast ?d)" by (metis rev.simps(2) rev_append rev_rev_ident append_Cons append_Nil)
  moreover have "trim_end (c # s) = rev ?d" by (simp only: trim_end_def)
  ultimately show ?thesis by metis
qed

lemma trim_start_spaces: "trim_start (spaces k @ s) = trim_start s"
  by (induction k) (simp_all add: trim_start_def drop_ws_sp)

lemma dash_before_colon: "spaces k @ CHR ''-'' # w = a @ CHR '':'' # b \<Longrightarrow> CHR ''-'' \<in> set a"
proof (induction k arbitrary: a)
  case 0
  then show ?case by (cases a) auto
next
  case (Suc k)
  then show ?case by (cases a) auto
qed

text \<open>An item of a list that is written on its own line.\<close>

lemma classify_item:
  assumes "tab \<notin> set v"
  shows "classify_line (spaces k @ ''- '' @ v) n = Inr (agm_line_of (LkItem v) n k (spaces k @ ''- '' @ v))"
proof -
  let ?raw = "spaces k @ ''- '' @ v"
  have dash: "graphic CHR ''-''" by (simp add: graphic_def byte_def)
  obtain u where u: "trim ?raw = CHR ''-'' # u"
  proof -
    have "trim ?raw = trim_end (CHR ''-'' # sp # v)"
      using dash trim_start_id [of "CHR ''-'' # sp # v"] by (simp add: trim_def trim_start_spaces)
    moreover have "\<exists>u. trim_end (CHR ''-'' # s) = CHR ''-'' # u" for s
      by (rule trim_end_hd [OF dash])
    ultimately show ?thesis using that by auto
  qed
  have stripped: "dropWhile (\<lambda>c. c = sp) ?raw = ''- '' @ v"
    by (induction k) auto
  have indent: "count_indent ?raw = k" by (intro count_indent_spaces) simp
  have field: "classify_agm_field ?raw n = None"
  proof (cases "str_find '':'' ?raw")
    case (Some i)
    let ?a = "take i ?raw"
    have raw: "?raw = ?a @ '':'' @ drop (i + length '':'') ?raw"
      by (rule str_find_Some [OF Some, THEN conjunct1])
    have "CHR ''-'' \<in> set ?a" 
      by (rule dash_before_colon [of k "sp # v" _ "drop (i + length '':'') ?raw"]) (use raw in \<open>simp only: append_Cons append_Nil\<close>)
    then have "CHR ''-'' \<in> set (trim ?a)" using trim_keeps dash by blast
    then have "\<not> is_valid_field_key (trim ?a)" using valid_key_chars by blast
    then show ?thesis using Some by (simp add: classify_agm_field_def Let_def)
  qed (simp add: classify_agm_field_def)
  show ?thesis
    using assms u indent stripped field
    by (simp add: classify_line_def classify_rest_def Let_def)
qed

section \<open>What follows a field\<close>

text \<open>
  Behind a field of a rendered node comes, after blank lines, the end, a node or a field that is
  not indented.
\<close>

definition is_field :: "agm_line \<Rightarrow> bool" where
  "is_field l \<longleftrightarrow> (case ln_kind l of LkScalar _ _ \<Rightarrow> True | LkList _ _ \<Rightarrow> True | LkStart _ \<Rightarrow> True | _ \<Rightarrow> False)"

definition boundary :: "agm_line list \<Rightarrow> bool" where
  "boundary ls \<longleftrightarrow> (case skip_blanks ls of [] \<Rightarrow> True | l # _ \<Rightarrow> ln_indent l = 0 \<and> (is_node l \<or> is_field l))"

lemma skip_blanks_simps [simp]:
  "skip_blanks [] = []"
  "skip_blanks (l # ls) = (if is_blank l then skip_blanks ls else l # ls)"
  "skip_blanks (skip_blanks ls) = skip_blanks ls"
  by (simp_all add: skip_blanks_def)

lemma boundary_simps [simp]:
  "boundary []"
  "is_blank l \<Longrightarrow> boundary (l # ls) = boundary ls"
  "\<not> is_blank l \<Longrightarrow> boundary (l # ls) \<longleftrightarrow> ln_indent l = 0 \<and> (is_node l \<or> is_field l)"
  "boundary (skip_blanks ls) = boundary ls"
  by (simp_all add: boundary_def)

lemma field_is_not [simp]:
  assumes "is_field l"
  shows "\<not> is_blank l" "\<not> is_comment l" "\<not> is_item l" "\<not> is_text l"
  using assms
  by (auto simp: is_field_def is_node_def is_blank_def is_comment_def is_item_def is_text_def split: line_kind.splits)

lemma field_no_node: "is_field l \<Longrightarrow> \<not> is_node l"
  by (auto simp: is_field_def is_node_def split: line_kind.splits)

lemma blank_is_not [simp]:
  assumes "is_blank l"
  shows "\<not> is_comment l" "\<not> is_item l" "\<not> is_text l"
  using assms
  by (auto simp: is_field_def is_node_def is_blank_def is_comment_def is_item_def is_text_def split: line_kind.splits)

lemma boundary_induct [consumes 1, case_names Nil blank node field]:
  assumes "boundary ls" and "P []"
    and "\<And>l ls. is_blank l \<Longrightarrow> boundary ls \<Longrightarrow> P ls \<Longrightarrow> P (l # ls)"
    and "\<And>l ls. is_node l \<Longrightarrow> ln_indent l = 0 \<Longrightarrow> P (l # ls)"
    and "\<And>l ls. is_field l \<Longrightarrow> ln_indent l = 0 \<Longrightarrow> P (l # ls)"
  shows "P ls"
  using assms(1)
proof (induction ls)
  case (Cons l ls)
  then show ?case using assms(3-5) by (cases "is_blank l") auto
qed (rule assms(2))

lemma boundary_ahead [simp]: "boundary ls \<Longrightarrow> \<not> item_ahead ls" "boundary ls \<Longrightarrow> \<not> text_ahead ls"
  by (induction rule: boundary_induct; simp)+

lemma boundary_block_base [simp]: "boundary ls \<Longrightarrow> block_base ls = 0"
  by (induction rule: boundary_induct) simp_all

lemma boundary_list [simp]: "boundary ls \<Longrightarrow> parse_indented_list ls = ([], ls)"
proof (induction rule: boundary_induct)
  case (blank l ls)
  then show ?case by (simp add: is_blank_def)
next
  case (node l ls)
  then show ?case by (auto simp: is_node_def split: line_kind.splits)
next
  case (field l ls)
  then show ?case by (auto simp: is_field_def split: line_kind.splits)
qed simp

lemma boundary_block [simp]: "boundary ls \<Longrightarrow> block_lines base ls = Some ([], ls)"
  by (induction rule: boundary_induct) simp_all

section \<open>Lexed lines\<close>

definition lexed :: "nat \<Rightarrow> string list \<Rightarrow> agm_line list" where
  "lexed n raws = fst (lex_from n raws)"

text \<open>Lines without errors; the number of a line plays no part.\<close>

definition lexes :: "string list \<Rightarrow> bool" where
  "lexes raws \<longleftrightarrow> (\<forall>raw \<in> set raws. clean raw \<and> (\<forall>n. \<exists>l. classify_line raw n = Inr l))"

lemma lexes_simps [simp]:
  "lexes []"
  "lexes (raw # raws) \<longleftrightarrow> clean raw \<and> (\<forall>n. \<exists>l. classify_line raw n = Inr l) \<and> lexes raws"
  "lexes (raws @ raws') \<longleftrightarrow> lexes raws \<and> lexes raws'"
  by (auto simp: lexes_def)

lemma lexed_simps [simp]:
  "lexed n [] = []"
  "classify_line raw n = Inr l \<Longrightarrow> lexed n (raw # raws) = l # lexed (Suc n) raws"
  "lexed n (raws @ raws') = lexed n raws @ lexed (n + length raws) raws'"
  by (simp_all add: lexed_def case_prod_beta Let_def lex_from_append)

lemma lexes_no_errors: "lexes raws \<Longrightarrow> snd (lex_from n raws) = []"
proof (induction raws arbitrary: n)
  case (Cons raw raws)
  have "\<exists>l. classify_line raw n = Inr l" "lexes raws" using Cons.prems by (simp_all add: lexes_def)
  then show ?case using Cons.IH [of "Suc n"] by (auto simp: case_prod_beta Let_def)
qed simp

text \<open>The number does not matter to the kind, the indentation and the text.\<close>

lemma classify_agm_field_number:
  "classify_agm_field raw m = map_option (map_sum (\<lambda>_. list_error m) id) (classify_agm_field raw n)"
  by (simp add: classify_agm_field_def parse_inline_list_def Let_def res_bind_def split: option.split)

lemma classify_line_number:
  assumes "classify_line raw n = Inr l"
  shows "classify_line raw m = Inr (l\<lparr>ln_number := m\<rparr>)"
  using assms
  by (cases "classify_agm_field raw n"; cases "the (classify_agm_field raw n)")
    (simp_all add: classify_line_def Let_def classify_agm_field_number [of raw m n] agm_line_of_def
      split: if_splits option.splits, auto)

lemma is_kind_number [simp]:
  "is_text (l\<lparr>ln_number := m\<rparr>) = is_text l" "is_blank (l\<lparr>ln_number := m\<rparr>) = is_blank l"
  "is_node (l\<lparr>ln_number := m\<rparr>) = is_node l" "is_item (l\<lparr>ln_number := m\<rparr>) = is_item l"
  by (simp_all add: is_text_def is_blank_def is_node_def is_item_def)

lemma agm_line_of_simps [simp]:
  "ln_kind (agm_line_of kind n k raw) = kind" "ln_number (agm_line_of kind n k raw) = n"
  "ln_indent (agm_line_of kind n k raw) = k" "ln_raw (agm_line_of kind n k raw) = raw"
  by (simp_all add: agm_line_of_def)

section \<open>Lists and blocks below a field\<close>

definition item_lines :: "nat \<Rightarrow> string list \<Rightarrow> string list" where
  "item_lines k items = map (\<lambda>v. spaces k @ ''- '' @ v) items"

lemma clean_spaces [simp]: "clean v \<Longrightarrow> clean (spaces k @ v)"
  by (rule clean_append) auto

lemma item_lines_lexes [simp]: "list_all clean items \<Longrightarrow> lexes (item_lines k items)"
proof -
  have "clean (spaces k @ ''- '' @ v)" if "clean v" for v
    using that clean_append [of v "''- ''"] by (intro clean_spaces) simp
  moreover have "\<exists>l. classify_line (spaces k @ ''- '' @ v) n = Inr l" if "clean v" for v n
    using that classify_item [of v k n] by (auto simp: clean_def)
  ultimately show "list_all clean items \<Longrightarrow> lexes (item_lines k items)"
    by (auto simp: lexes_def item_lines_def list_all_iff)
qed

lemma list_reads_items:
  assumes "list_all clean items" and "boundary rest"
  shows "parse_indented_list (lexed n (item_lines k items) @ rest) = (items, rest)"
  using assms(1)
proof (induction items arbitrary: n)
  case Nil
  then show ?case using assms(2) by (simp add: item_lines_def)
next
  case (Cons v items)
  have "classify_line (spaces k @ ''- '' @ v) n = Inr (agm_line_of (LkItem v) n k (spaces k @ ''- '' @ v))"
    using Cons.prems by (intro classify_item) (simp add: clean_def)
  then show ?case using Cons by (simp add: item_lines_def)
qed

lemma items_head:
  assumes "list_all clean items" and "items \<noteq> []"
  shows "\<exists>l ls. lexed n (item_lines k items) = l # ls \<and> is_item l"
proof -
  obtain v vs where v: "items = v # vs" using assms(2) by (cases items) auto
  have "classify_line (spaces k @ ''- '' @ v) n = Inr (agm_line_of (LkItem v) n k (spaces k @ ''- '' @ v))"
    using assms(1) v by (intro classify_item) (simp add: clean_def)
  then show ?thesis using v by (simp add: item_lines_def is_item_def)
qed

text \<open>A line of a block is text, not a field, a comment or a node.\<close>

definition text_line_ok :: "string \<Rightarrow> bool" where
  "text_line_ok l = (case classify_line (''  '' @ l) 0 of Inr x \<Rightarrow> is_text x | Inl _ \<Rightarrow> False)"

definition block_line_ok :: "string \<Rightarrow> bool" where
  "block_line_ok l \<longleftrightarrow> clean l \<and> (l = [] \<or> text_line_ok l \<and> \<not> utf8_cont (hd l))"

lemma classify_blank_line: "classify_line (spaces k) n = Inr (agm_line_of LkBlank n 0 (spaces k))"
  using trim_spaces [of k "[]"] by (simp add: classify_line_def Let_def)

lemma classify_text_line:
  assumes "text_line_ok l"
  shows "\<exists>x. classify_line (''  '' @ l) n = Inr x \<and> is_text x \<and> ln_raw x = ''  '' @ l \<and> ln_indent x = count_indent (''  '' @ l)"
proof -
  obtain x where x: "classify_line (''  '' @ l) 0 = Inr x" "is_text x"
    using assms by (auto simp: text_line_ok_def split: sum.splits)
  have y: "classify_line (''  '' @ l) n = Inr (x\<lparr>ln_number := n\<rparr>)" by (rule classify_line_number [OF x(1)])
  have "ln_raw x = ''  '' @ l \<and> ln_indent x = count_indent (''  '' @ l)"
    using x
    by (cases "classify_agm_field (''  '' @ l) 0"; cases "the (classify_agm_field (''  '' @ l) 0)")
      (simp_all add: classify_line_def Let_def agm_line_of_def is_text_def split: if_splits option.splits, auto)
  then show ?thesis using x(2) y by simp
qed

definition block_lines_of :: "string list \<Rightarrow> string list" where
  "block_lines_of ls = map (\<lambda>l. ''  '' @ l) ls"

lemma block_lexes: "list_all block_line_ok ls \<Longrightarrow> lexes (block_lines_of ls)"
proof -
  have "\<exists>x. classify_line (''  '' @ l) n = Inr x" if "block_line_ok l" for l n
    using that classify_text_line [of l n] classify_blank_line [of 2 n]
    by (auto simp: block_line_ok_def numeral_2_eq_2)
  moreover have "clean (''  '' @ l)" if "block_line_ok l" for l
    using that by (intro clean_append) (auto simp: block_line_ok_def)
  ultimately show "list_all block_line_ok ls \<Longrightarrow> lexes (block_lines_of ls)"
    by (auto simp: lexes_def block_lines_of_def list_all_iff)
qed

lemma block_line_cases:
  assumes "block_line_ok l"
  obtains x where "classify_line (''  '' @ l) n = Inr x" "l = []" "is_blank x"
  | x where "classify_line (''  '' @ l) n = Inr x" "l \<noteq> []" "is_text x" "ln_raw x = ''  '' @ l"
      "ln_indent x = count_indent (''  '' @ l)" "\<not> utf8_cont (hd l)"
  using assms classify_text_line [of l n] classify_blank_line [of 2 n]
  by (auto simp: block_line_ok_def numeral_2_eq_2 is_blank_def)

lemma text_not_blank: "is_text l \<Longrightarrow> \<not> is_blank l"
  by (auto simp: is_text_def is_blank_def split: line_kind.splits)

lemma block_ahead:
  assumes "list_all block_line_ok ls" and "ls \<noteq> []" and "last ls \<noteq> []"
  shows "text_ahead (lexed n (block_lines_of ls) @ rest)"
  using assms
proof (induction ls arbitrary: n)
  case (Cons l ls)
  then have "block_line_ok l" by simp
  then show ?case
  proof (cases rule: block_line_cases [where n = n])
    case (1 x)
    then show ?thesis using Cons by (cases "ls = []") (auto simp: block_lines_of_def)
  next
    case (2 x)
    then show ?thesis by (simp add: block_lines_of_def text_not_blank)
  qed
qed simp

lemma block_reads_lines:
  assumes "list_all block_line_ok ls" and "ls \<noteq> []" and "last ls \<noteq> []" and "boundary rest"
  shows "block_lines 2 (lexed n (block_lines_of ls) @ rest) = Some (ls, rest)"
  using assms(1-3)
proof (induction ls arbitrary: n)
  case (Cons l ls)
  have rec: "block_lines 2 (lexed (Suc n) (block_lines_of ls) @ rest) = Some (ls, rest)"
    using Cons assms(4) by (cases "ls = []") (auto simp: block_lines_of_def)
  have "block_line_ok l" using Cons.prems by simp
  then show ?case
  proof (cases rule: block_line_cases [where n = n])
    case (1 x)
    then have "ls \<noteq> []" using Cons.prems by auto
    then have "text_ahead (lexed (Suc n) (block_lines_of ls) @ rest)"
      using Cons.prems by (intro block_ahead) auto
    then show ?thesis using 1 rec by (simp add: block_lines_of_def)
  next
    case (2 x)
    have "str_slice (''  '' @ l) 2 (length (''  '' @ l)) = Some l"
      using 2(2,6) by (cases l) (auto simp: str_slice_def is_char_boundary_def)
    then show ?thesis using 2 rec by (simp add: block_lines_of_def)
  qed
qed simp

text \<open>A text that a block gives back.\<close>

definition block_head_ok :: "string \<Rightarrow> bool" where
  "block_head_ok l \<longleftrightarrow>
     l \<noteq> [] \<and> hd l \<noteq> sp \<and> (case classify_line (''  '' @ l) 0 of Inr x \<Rightarrow> \<not> is_item x | Inl _ \<Rightarrow> False)"

definition block_ok :: "string \<Rightarrow> bool" where
  "block_ok v \<longleftrightarrow>
     (let ls = str_lines v in
      list_all block_line_ok ls \<and> ls \<noteq> [] \<and> block_head_ok (hd ls) \<and> last ls \<noteq> [] \<and> join [nl] ls = v)"

lemma block_reads:
  assumes "block_ok v" and "boundary rest"
  shows "parse_block (lexed n (block_lines_of (str_lines v)) @ rest) = Some (v, rest)"
    and "\<exists>l ls. lexed n (block_lines_of (str_lines v)) = l # ls \<and> is_text l \<and> \<not> is_item l"
proof -
  obtain l ls where ls: "str_lines v = l # ls" "l \<noteq> []" "hd l \<noteq> sp" "block_line_ok l"
    using assms(1) by (cases "str_lines v") (auto simp: block_ok_def Let_def block_head_ok_def)
  obtain x where x: "classify_line (''  '' @ l) n = Inr x" "is_text x" "ln_indent x = count_indent (''  '' @ l)"
    using ls(4,2) by (cases rule: block_line_cases [where n = n]) auto
  have "count_indent (''  '' @ l) = 2"
    using count_indent_spaces [of l 2] ls(3) by (simp add: numeral_2_eq_2)
  then have base: "block_base (lexed n (block_lines_of (str_lines v)) @ rest) = 2"
    using x ls(1) by (simp add: block_lines_of_def)
  have "block_lines 2 (lexed n (block_lines_of (str_lines v)) @ rest) = Some (str_lines v, rest)"
    using assms by (intro block_reads_lines) (auto simp: block_ok_def Let_def)
  moreover have "finish_block (str_lines v) = v"
  proof -
    have "rev (str_lines v) \<noteq> [] \<and> hd (rev (str_lines v)) \<noteq> []"
      using assms(1) by (auto simp: block_ok_def Let_def hd_rev)
    then have "dropWhile (\<lambda>s. s = []) (rev (str_lines v)) = rev (str_lines v)"
      by (cases "rev (str_lines v)") auto
    then show ?thesis using assms(1) by (simp add: finish_block_def block_ok_def Let_def)
  qed
  ultimately show "parse_block (lexed n (block_lines_of (str_lines v)) @ rest) = Some (v, rest)"
    using base by (simp add: parse_block_def)
  obtain y where y: "classify_line (''  '' @ l) 0 = Inr y" "\<not> is_item y"
    using assms(1) ls(1) by (auto simp: block_ok_def Let_def block_head_ok_def split: sum.splits)
  have "\<not> is_item x" using classify_line_number [OF y(1), of n] x(1) y(2) by auto
  then show "\<exists>l ls. lexed n (block_lines_of (str_lines v)) = l # ls \<and> is_text l \<and> \<not> is_item l"
    using x ls(1) by (auto simp: block_lines_of_def)
qed

end
