(* ===== verification/Canonical_Pieces.thy ===== *)
theory Canonical_Pieces
  imports Canonical_Lines
begin

text \<open>
  A rendered node or header is a sequence of pieces, each the lines of one field. A loop of the
  parser reads a piece when it takes exactly its lines and applies its effect; then it reads
  every sequence of pieces with different keys.
\<close>

section \<open>Pieces\<close>

type_synonym 'v piece = "string \<times> string list \<times> ('v \<Rightarrow> 'v)"

definition piece_lines :: "'v piece list \<Rightarrow> string list" where
  "piece_lines ps = concat (map (\<lambda>(_, raws, _). raws) ps)"

definition apply_pieces :: "'v piece list \<Rightarrow> 'v \<Rightarrow> 'v" where
  "apply_pieces ps v = fold (\<lambda>(_, _, eff). eff) ps v"

lemma pieces_simps [simp]:
  "piece_lines [] = []" "piece_lines (p # ps) = fst (snd p) @ piece_lines ps"
  "piece_lines (ps @ qs) = piece_lines ps @ piece_lines qs"
  "apply_pieces [] v = v" "apply_pieces (p # ps) v = apply_pieces ps (snd (snd p) v)"
  "apply_pieces (ps @ qs) v = apply_pieces qs (apply_pieces ps v)"
  by (auto simp: piece_lines_def apply_pieces_def split: prod.split)

text \<open>The piece of an optional field, which sets the field.\<close>

definition opt_piece ::
  "string \<Rightarrow> ('a \<Rightarrow> string list) \<Rightarrow> (('a option \<Rightarrow> 'a option) \<Rightarrow> 'v \<Rightarrow> 'v) \<Rightarrow> 'a option \<Rightarrow> 'v piece list" where
  "opt_piece key write upd x = (case x of None \<Rightarrow> [] | Some v \<Rightarrow> [(key, write v, upd (\<lambda>_. Some v))])"

lemma opt_piece_lines: "unlines (piece_lines (opt_piece key write upd x)) = emit_opt (\<lambda>v. unlines (write v)) x"
  by (simp add: opt_piece_def emit_opt_def split: option.split)

lemma opt_piece_apply: "upd (\<lambda>_. None) v = v \<Longrightarrow> apply_pieces (opt_piece key write upd x) v = upd (\<lambda>_. x) v"
  by (simp add: opt_piece_def split: option.split)

lemma opt_piece_keys: "subseq (map fst (opt_piece key write upd x)) [key]"
  by (simp add: opt_piece_def split: option.split)

section \<open>Loops over fields\<close>

locale field_loop =
  fixes loop :: "'s \<Rightarrow> agm_line list \<Rightarrow> 'r" and seen :: "'s \<Rightarrow> string list" and val :: "'s \<Rightarrow> 'v"
  assumes blank: "is_blank l \<Longrightarrow> \<exists>s'. val s' = val s \<and> seen s' = seen s \<and> loop s (l # ls) = loop s' ls"
begin

lemma skip: "\<exists>s'. val s' = val s \<and> seen s' = seen s \<and> loop s ls = loop s' (skip_blanks ls)"
proof (induction ls arbitrary: s)
  case (Cons l ls)
  show ?case
  proof (cases "is_blank l")
    case True
    then obtain t where "val t = val s" "seen t = seen s" "loop s (l # ls) = loop t ls" using blank by blast
    then show ?thesis using Cons.IH [of t] True by auto
  next
    case False
    then show ?thesis by auto
  qed
qed auto

definition reads :: "'v piece \<Rightarrow> bool" where
  "reads p \<longleftrightarrow>
     lexes (fst (snd p)) \<and>
     (\<forall>n. \<exists>l ls. lexed n (fst (snd p)) = l # ls \<and> is_field l \<and> ln_indent l = 0) \<and>
     (\<forall>n s rest. boundary rest \<longrightarrow> fst p \<notin> set (seen s) \<longrightarrow>
       (\<exists>s'. val s' = snd (snd p) (val s) \<and> seen s' = fst p # seen s \<and>
             loop s (lexed n (fst (snd p)) @ rest) = loop s' (skip_blanks rest)))"

text \<open>It suffices that the loop goes on behind the lines, before or behind the blank lines.\<close>

lemma readsI:
  assumes "lexes raws" and "\<And>n. \<exists>l ls. lexed n raws = l # ls \<and> is_field l \<and> ln_indent l = 0"
    and "\<And>n s rest. boundary rest \<Longrightarrow> key \<notin> set (seen s) \<Longrightarrow>
      \<exists>s' rest'. (rest' = rest \<or> rest' = skip_blanks rest) \<and> val s' = eff (val s) \<and> seen s' = key # seen s \<and>
        loop s (lexed n raws @ rest) = loop s' rest'"
  shows "reads (key, raws, eff)"
proof -
  have "\<exists>s'. val s' = eff (val s) \<and> seen s' = key # seen s \<and> loop s (lexed n raws @ rest) = loop s' (skip_blanks rest)"
    if new: "boundary rest" "key \<notin> set (seen s)" for n s rest
  proof -
    obtain t rest' where t: "rest' = rest \<or> rest' = skip_blanks rest" "val t = eff (val s)" "seen t = key # seen s"
        "loop s (lexed n raws @ rest) = loop t rest'"
      using assms(3) [OF new] by blast
    obtain u where "val u = val t" "seen u = seen t" "loop t rest' = loop u (skip_blanks rest')"
      using skip by blast
    then show ?thesis using t by auto
  qed
  then show ?thesis using assms(1,2) by (simp add: reads_def)
qed

lemma reads_head: "reads p \<Longrightarrow> \<exists>l ls. lexed n (fst (snd p)) = l # ls \<and> is_field l \<and> ln_indent l = 0"
  by (simp add: reads_def)

lemma reads_loop:
  "reads p \<Longrightarrow> boundary rest \<Longrightarrow> fst p \<notin> set (seen s) \<Longrightarrow>
     \<exists>s'. val s' = snd (snd p) (val s) \<and> seen s' = fst p # seen s \<and>
           loop s (lexed n (fst (snd p)) @ rest) = loop s' (skip_blanks rest)"
  by (simp add: reads_def)

lemma reads_lines: "list_all reads ps \<Longrightarrow> lexes (piece_lines ps)"
  by (induction ps) (simp_all add: reads_def)

lemma pieces_boundary:
  "list_all reads ps \<Longrightarrow> boundary rest \<Longrightarrow>
   boundary (lexed n (piece_lines ps) @ rest) \<and> (ps \<noteq> [] \<longrightarrow> skip_blanks (lexed n (piece_lines ps) @ rest) = lexed n (piece_lines ps) @ rest)"
proof (cases ps)
  case (Cons p qs)
  assume "list_all reads ps" "boundary rest"
  then obtain l ls where "lexed n (fst (snd p)) = l # ls" "is_field l" "ln_indent l = 0"
    using Cons reads_head [of p n] by auto
  then show ?thesis using Cons by simp
qed simp

lemma loop_pieces:
  assumes "list_all reads ps" and "distinct (map fst ps)" and "fst ` set ps \<inter> set (seen s) = {}" and "boundary rest"
  shows "\<exists>s'. val s' = apply_pieces ps (val s) \<and> loop s (lexed n (piece_lines ps) @ rest) = loop s' (skip_blanks rest)"
  using assms(1-3)
proof (induction ps arbitrary: s n)
  case Nil
  then show ?case using skip [of s rest] by auto
next
  case (Cons p ps)
  let ?m = "n + length (fst (snd p))"
  let ?tail = "lexed ?m (piece_lines ps) @ rest"
  have "boundary ?tail" using pieces_boundary Cons.prems(1) assms(4) by simp
  moreover have "fst p \<notin> set (seen s)" using Cons.prems(3) by auto
  ultimately obtain t where t: "val t = snd (snd p) (val s)" "seen t = fst p # seen s"
      "loop s (lexed n (fst (snd p)) @ ?tail) = loop t (skip_blanks ?tail)"
    using Cons.prems(1) reads_loop by (metis list.pred_inject(2))
  show ?case
  proof (cases "ps = []")
    case True
    then show ?thesis using t by auto
  next
    case False
    then have "skip_blanks ?tail = ?tail" using pieces_boundary Cons.prems(1) assms(4) by simp
    moreover have "fst ` set ps \<inter> set (seen t) = {}" using Cons.prems(2,3) t(2) by auto
    ultimately show ?thesis using Cons.IH [of t ?m] Cons.prems(1,2) t(1,3) by auto
  qed
qed

end

section \<open>The lines of a field\<close>

definition scalar_lines :: "string \<Rightarrow> string \<Rightarrow> string list" where
  "scalar_lines key v = [key @ '': '' @ v]"

definition list_lines :: "string \<Rightarrow> string list \<Rightarrow> string list" where
  "list_lines key items =
     (if use_inline items then [key @ '': ['' @ join '', '' items @ '']''] else (key @ '':'') # item_lines 2 items)"

definition text_lines :: "string \<Rightarrow> string \<Rightarrow> string list" where
  "text_lines key v =
     (if nl \<in> set v then (key @ '':'') # block_lines_of (str_lines v) else scalar_lines key v)"

definition list_ok :: "string list \<Rightarrow> bool" where
  "list_ok items \<longleftrightarrow> items \<noteq> [] \<and> list_all (if use_inline items then inline_ok else clean) items"

definition text_ok :: "string \<Rightarrow> bool" where
  "text_ok v \<longleftrightarrow> (if nl \<in> set v then block_ok v else scalar_ok v)"

lemma unlines_map: "unlines (map f xs) = concat (map (\<lambda>x. f x @ [nl]) xs)"
  by (simp add: unlines_def o_def)

lemma scalar_unlines: "unlines (scalar_lines key v) = emit_scalar key v"
  by (simp add: scalar_lines_def emit_scalar_def)

lemma list_unlines: "unlines (list_lines key items) = emit_items key ''  '' items"
  by (simp add: list_lines_def emit_items_def item_lines_def unlines_map numeral_2_eq_2)

lemma text_unlines: "unlines (text_lines key v) = emit_block_or_scalar key v"
  by (simp add: text_lines_def emit_block_or_scalar_def block_lines_of_def indented_def unlines_map scalar_unlines)

lemma key_clean: "is_valid_field_key key \<Longrightarrow> clean (key @ CHR '':'' # w)" if "clean w" for w
proof -
  assume key: "is_valid_field_key key"
  have "tab \<notin> set key" "nl \<notin> set key" "cr \<notin> set key"
    using valid_key_chars [OF key, of tab] valid_key_chars [OF key, of nl] valid_key_chars [OF key, of cr]
    by (auto simp: graphic_def byte_def)
  then show ?thesis using clean_append [of w "key @ '':''"] that by simp
qed

lemma plain_clean: "plain v \<Longrightarrow> clean v"
  by (simp add: plain_def)

lemma scalar_lexed:
  assumes "key_ok key" and "scalar_ok v"
  shows "lexes (scalar_lines key v)"
    and "lexed n (scalar_lines key v) = [agm_line_of (LkScalar key v) n 0 (key @ '': '' @ v)]"
proof -
  have "clean (key @ '': '' @ v)"
    using assms key_clean [of "sp # v" key] clean_append [of v "'' ''"] by (simp add: key_ok_def scalar_ok_def plain_clean)
  then show "lexes (scalar_lines key v)"
    using classify_scalar [OF assms, of 0] by (simp add: scalar_lines_def)
  show "lexed n (scalar_lines key v) = [agm_line_of (LkScalar key v) n 0 (key @ '': '' @ v)]"
    using classify_scalar [OF assms, of 0 n] by (simp add: scalar_lines_def)
qed

lemma start_lexed:
  assumes "key_ok key" and "lexes raws"
  shows "lexes ((key @ '':'') # raws)"
    and "lexed n ((key @ '':'') # raws) = agm_line_of (LkStart key) n 0 (key @ '':'') # lexed (Suc n) raws"
  using classify_start [OF assms(1), of 0] key_clean [of "[]" key] assms by (simp_all add: key_ok_def)

lemma list_ok_cases:
  assumes "list_ok items"
  obtains "use_inline items" "list_all inline_ok items" "items \<noteq> []"
  | "\<not> use_inline items" "list_all clean items" "items \<noteq> []"
  using assms by (auto simp: list_ok_def split: if_splits)

lemma inline_lexed:
  assumes "key_ok key" and "list_all inline_ok items" and "items \<noteq> []"
  shows "lexes [key @ '': ['' @ join '', '' items @ '']'']"
    and "lexed n [key @ '': ['' @ join '', '' items @ '']''] =
      [agm_line_of (LkList key items) n 0 (key @ '': ['' @ join '', '' items @ '']'')]"
proof -
  have no: "c \<notin> set (join '', '' items)" if "c \<noteq> CHR '',''" "c \<noteq> sp" "\<forall>v \<in> set items. c \<notin> set v" for c
    using that by (intro join_no_char) auto
  have "nl \<notin> set (join '', '' items)" "tab \<notin> set (join '', '' items)"
    using assms(2) by (intro no; auto simp: list_all_iff inline_ok_def plain_def clean_def line_ok_def)+
  then have "clean (sp # CHR ''['' # join '', '' items @ '']'')"
    by (auto simp: clean_def line_ok_def)
  then have "clean (key @ '': ['' @ join '', '' items @ '']'')"
    using key_clean assms(1) by (simp add: key_ok_def)
  then show "lexes [key @ '': ['' @ join '', '' items @ '']'']"
    using classify_list [OF assms, of 0] by simp
  show "lexed n [key @ '': ['' @ join '', '' items @ '']''] =
      [agm_line_of (LkList key items) n 0 (key @ '': ['' @ join '', '' items @ '']'')]"
    using classify_list [OF assms, of 0 n] by simp
qed

lemma scalar_clean_append: "scalar_ok v \<Longrightarrow> clean v"
  by (simp add: scalar_ok_def plain_clean)

end
