(* ===== verification/Canonical_Fields.thy ===== *)
theory Canonical_Fields
  imports Canonical_Pieces
begin

text \<open>
  The loops of the header and of a node read the pieces of scalars, lists and texts. The pieces
  of structured fields follow in \<open>Canonical_Structured\<close>.
\<close>

section \<open>The loop of a node\<close>

lemma node_loop_step:
  "\<not> is_node l \<Longrightarrow> node_step pe b l ls = Some ((b', []), after) \<Longrightarrow> node_loop pe b (l # ls) = node_loop pe b' after"
  by (simp add: node_loop.simps option.map_id)

lemma line_no_node [simp]:
  "\<not> is_node (agm_line_of (LkScalar k v) n i r)" "\<not> is_node (agm_line_of (LkList k xs) n i r)"
  "\<not> is_node (agm_line_of (LkStart k) n i r)" "\<not> is_node (agm_line_of LkBlank n i r)"
  by (simp_all add: is_node_def)

lemma line_is_field [simp]:
  "is_field (agm_line_of (LkScalar k v) n i r)" "is_field (agm_line_of (LkList k xs) n i r)"
  "is_field (agm_line_of (LkStart k) n i r)"
  by (simp_all add: is_field_def)

interpretation node: field_loop "node_loop pe" nb_seen nb_node for pe
proof
  fix l ls b
  assume l: "is_blank l"
  then have "node_step pe b l ls = Some ((b\<lparr>nb_last := ln_number l\<rparr>, []), ls)"
    by (simp add: node_step_def is_blank_def)
  moreover have "\<not> is_node l" using l by (auto simp: is_blank_def is_node_def)
  ultimately have "node_loop pe b (l # ls) = node_loop pe (b\<lparr>nb_last := ln_number l\<rparr>) ls"
    by (intro node_loop_step)
  then show "\<exists>b'. nb_node b' = nb_node b \<and> nb_seen b' = nb_seen b \<and> node_loop pe b (l # ls) = node_loop pe b' ls"
    by (intro exI [of _ "b\<lparr>nb_last := ln_number l\<rparr>"]) simp
qed

abbreviation node_reads :: "parse_env \<Rightarrow> node piece \<Rightarrow> bool" where
  "node_reads pe \<equiv> field_loop.reads (node_loop pe) nb_seen nb_node"

definition done_field :: "string \<Rightarrow> nat \<Rightarrow> node \<Rightarrow> node_build \<Rightarrow> node_build" where
  "done_field key number n b = \<lparr>nb_node = n, nb_seen = key # nb_seen b, nb_last = number\<rparr>"

lemma done_field_simps [simp]:
  "nb_node (done_field key number n b) = n" "nb_seen (done_field key number n b) = key # nb_seen b"
  by (simp_all add: done_field_def)

lemma node_reads_scalar:
  assumes "key_ok key" and "scalar_ok v"
    and "\<And>number n. assign_scalar_field pe key v number n = (eff n, [])"
  shows "node_reads pe (key, scalar_lines key v, eff)"
proof (rule node.readsI)
  fix n rest and b :: node_build
  assume new: "key \<notin> set (nb_seen b)"
  let ?l = "agm_line_of (LkScalar key v) n 0 (key @ '': '' @ v)"
  have "node_step pe b ?l rest = Some ((done_field key n (eff (nb_node b)) b, []), rest)"
    using new assms(3) by (simp add: node_step_def track_def Let_def done_field_def)
  then show "\<exists>s' rest'. (rest' = rest \<or> rest' = skip_blanks rest) \<and> nb_node s' = eff (nb_node b) \<and>
      nb_seen s' = key # nb_seen b \<and> node_loop pe b (lexed n (scalar_lines key v) @ rest) = node_loop pe s' rest'"
    using node_loop_step [of ?l pe b rest] scalar_lexed(2) [OF assms(1,2)]
    by (intro exI [of _ "done_field key n (eff (nb_node b)) b"] exI [of _ rest]) simp
qed (use scalar_lexed [OF assms(1,2)] in auto)

lemma node_reads_start:
  assumes "key_ok key" and "lexes raws"
    and "\<And>number n m rest. boundary rest \<Longrightarrow>
      \<exists>rest'. (rest' = rest \<or> rest' = skip_blanks rest) \<and>
        node_field pe key number n (lexed m raws @ rest) = Some ((eff n, []), rest')"
  shows "node_reads pe (key, (key @ '':'') # raws, eff)"
proof (rule node.readsI)
  fix n rest and b :: node_build
  assume new: "boundary rest" "key \<notin> set (nb_seen b)"
  let ?l = "agm_line_of (LkStart key) n 0 (key @ '':'')"
  obtain rest' where rest': "rest' = rest \<or> rest' = skip_blanks rest"
      "node_field pe key n (nb_node b) (lexed (Suc n) raws @ rest) = Some ((eff (nb_node b), []), rest')"
    using assms(3) [OF new(1)] by blast
  have "node_step pe b ?l (lexed (Suc n) raws @ rest) = Some ((done_field key n (eff (nb_node b)) b, []), rest')"
    using new rest'(2) by (simp add: node_step_def track_def Let_def done_field_def)
  then show "\<exists>s' rest'. (rest' = rest \<or> rest' = skip_blanks rest) \<and> nb_node s' = eff (nb_node b) \<and>
      nb_seen s' = key # nb_seen b \<and> node_loop pe b (lexed n ((key @ '':'') # raws) @ rest) = node_loop pe s' rest'"
    using node_loop_step [of ?l pe b] start_lexed(2) [OF assms(1,2)] rest'(1)
    by (intro exI [of _ "done_field key n (eff (nb_node b)) b"] exI [of _ rest']) simp
qed (use start_lexed [OF assms(1,2)] in auto)

lemma node_reads_list:
  assumes "key_ok key" and "list_ok items" and "\<not> is_structured_field key"
    and "\<And>n. assign_list_field key items n = eff n"
  shows "node_reads pe (key, list_lines key items, eff)"
  using assms(2)
proof (cases rule: list_ok_cases)
  case 1
  have "node_reads pe (key, [key @ '': ['' @ join '', '' items @ '']''], eff)"
  proof (rule node.readsI)
    fix n rest and b :: node_build
    assume new: "key \<notin> set (nb_seen b)"
    let ?l = "agm_line_of (LkList key items) n 0 (key @ '': ['' @ join '', '' items @ '']'')"
    have "node_step pe b ?l rest = Some ((done_field key n (eff (nb_node b)) b, []), rest)"
      using new assms(4) by (simp add: node_step_def track_def Let_def done_field_def)
    then show "\<exists>s' rest'. (rest' = rest \<or> rest' = skip_blanks rest) \<and> nb_node s' = eff (nb_node b) \<and>
        nb_seen s' = key # nb_seen b \<and>
        node_loop pe b (lexed n [key @ '': ['' @ join '', '' items @ '']''] @ rest) = node_loop pe s' rest'"
      using node_loop_step [of ?l pe b rest] inline_lexed(2) [OF assms(1) 1(2,3)]
      by (intro exI [of _ "done_field key n (eff (nb_node b)) b"] exI [of _ rest]) simp
  qed (use inline_lexed [OF assms(1) 1(2,3)] in auto)
  then show ?thesis using 1 by (simp add: list_lines_def)
next
  case 2
  have "node_reads pe (key, (key @ '':'') # item_lines 2 items, eff)"
  proof (rule node_reads_start [OF assms(1)])
    fix number n m rest
    assume rest: "boundary rest"
    obtain l ls where "lexed m (item_lines 2 items) = l # ls" "is_item l" using items_head [OF 2(2,3)] by blast
    moreover have "is_item l \<Longrightarrow> \<not> is_comment l" for l
      by (auto simp: is_item_def is_comment_def split: line_kind.splits)
    ultimately have "node_field pe key number n (lexed m (item_lines 2 items) @ rest) = Some ((eff n, []), rest)"
      using list_reads_items [OF 2(2) rest, of m 2] assms(3,4) by (simp add: node_field_def)
    then show "\<exists>rest'. (rest' = rest \<or> rest' = skip_blanks rest) \<and>
        node_field pe key number n (lexed m (item_lines 2 items) @ rest) = Some ((eff n, []), rest')" by blast
  qed (use 2 in simp)
  then show ?thesis using 2 by (simp add: list_lines_def)
qed

lemma node_reads_block:
  assumes "key_ok key" and "block_ok v" and "\<not> is_structured_field key"
    and "\<And>n. assign_block_field key v n = eff n"
  shows "node_reads pe (key, (key @ '':'') # block_lines_of (str_lines v), eff)"
proof (rule node_reads_start [OF assms(1)])
  show "lexes (block_lines_of (str_lines v))" using assms(2) by (intro block_lexes) (simp add: block_ok_def Let_def)
  fix number n m rest
  assume rest: "boundary rest"
  obtain l ls where "lexed m (block_lines_of (str_lines v)) = l # ls" "is_text l" "\<not> is_item l"
    using block_reads(2) [OF assms(2) rest] by blast
  moreover have "is_text l \<Longrightarrow> \<not> is_comment l" for l
    by (auto simp: is_text_def is_comment_def split: line_kind.splits)
  ultimately have "node_field pe key number n (lexed m (block_lines_of (str_lines v)) @ rest) = Some ((eff n, []), rest)"
    using block_reads(1) [OF assms(2) rest, of m] assms(3,4) by (simp add: node_field_def)
  then show "\<exists>rest'. (rest' = rest \<or> rest' = skip_blanks rest) \<and>
      node_field pe key number n (lexed m (block_lines_of (str_lines v)) @ rest) = Some ((eff n, []), rest')" by blast
qed

lemma node_reads_text:
  assumes "key_ok key" and "text_ok v" and "\<not> is_structured_field key"
    and "\<And>number n. assign_scalar_field pe key v number n = (eff n, [])"
    and "\<And>n. assign_block_field key v n = eff n"
  shows "node_reads pe (key, text_lines key v, eff)"
  using assms node_reads_block [of key v eff pe] node_reads_scalar [of key v pe eff]
  by (auto simp: text_lines_def text_ok_def)

section \<open>The loop of the header\<close>

lemma header_loop_step:
  "\<not> is_node l \<Longrightarrow> header_step pe s l ls = Some ((s', []), after) \<Longrightarrow> header_loop pe s (l # ls) = header_loop pe s' after"
  by (simp add: header_loop.simps option.map_id)

definition header_value :: "header_state \<Rightarrow> header_state" where
  "header_value s = s\<lparr>hs_seen := []\<rparr>"

interpretation header: field_loop "header_loop pe" hs_seen header_value for pe
proof
  fix l ls s
  assume l: "is_blank l"
  then have "header_step pe s l ls = Some ((s, []), ls)" by (simp add: header_step_def is_blank_def)
  moreover have "\<not> is_node l" using l by (auto simp: is_blank_def is_node_def)
  ultimately have "header_loop pe s (l # ls) = header_loop pe s ls" by (intro header_loop_step)
  then show "\<exists>s'. header_value s' = header_value s \<and> hs_seen s' = hs_seen s \<and> header_loop pe s (l # ls) = header_loop pe s' ls"
    by blast
qed

abbreviation header_reads :: "parse_env \<Rightarrow> header_state piece \<Rightarrow> bool" where
  "header_reads pe \<equiv> field_loop.reads (header_loop pe) hs_seen header_value"

text \<open>An effect on the header that leaves the names seen alone.\<close>

definition header_effect :: "(header_state \<Rightarrow> header_state) \<Rightarrow> bool" where
  "header_effect eff \<longleftrightarrow>
     (\<forall>s. hs_seen (eff s) = hs_seen s) \<and> (\<forall>s xs. eff (s\<lparr>hs_seen := xs\<rparr>) = (eff s)\<lparr>hs_seen := xs\<rparr>)"

lemma header_reads_scalar:
  assumes "key_ok key" and "scalar_ok v" and "header_effect eff"
    and "\<And>number s. header_scalar pe key v number s = (eff s, [])"
  shows "header_reads pe (key, scalar_lines key v, eff)"
proof (rule header.readsI)
  fix n rest and s :: header_state
  assume new: "key \<notin> set (hs_seen s)"
  let ?l = "agm_line_of (LkScalar key v) n 0 (key @ '': '' @ v)"
  have "header_step pe s ?l rest = Some ((eff (s\<lparr>hs_seen := key # hs_seen s\<rparr>), []), rest)"
    using new assms(4) by (simp add: header_step_def track_def Let_def)
  then show "\<exists>s' rest'. (rest' = rest \<or> rest' = skip_blanks rest) \<and> header_value s' = eff (header_value s) \<and>
      hs_seen s' = key # hs_seen s \<and> header_loop pe s (lexed n (scalar_lines key v) @ rest) = header_loop pe s' rest'"
    using header_loop_step [of ?l pe s rest] scalar_lexed(2) [OF assms(1,2)] assms(3)
    by (intro exI [of _ "eff (s\<lparr>hs_seen := key # hs_seen s\<rparr>)"] exI [of _ rest]) (simp add: header_effect_def header_value_def)
qed (use scalar_lexed [OF assms(1,2)] in auto)

lemma header_reads_start:
  assumes "key_ok key" and "lexes raws" and "header_effect eff"
    and "\<And>number s m rest. boundary rest \<Longrightarrow>
      \<exists>rest'. (rest' = rest \<or> rest' = skip_blanks rest) \<and>
        header_field pe key number s (lexed m raws @ rest) = Some ((eff s, []), rest')"
  shows "header_reads pe (key, (key @ '':'') # raws, eff)"
proof (rule header.readsI)
  fix n rest and s :: header_state
  assume new: "boundary rest" "key \<notin> set (hs_seen s)"
  let ?l = "agm_line_of (LkStart key) n 0 (key @ '':'')" and ?s = "s\<lparr>hs_seen := key # hs_seen s\<rparr>"
  obtain rest' where rest': "rest' = rest \<or> rest' = skip_blanks rest"
      "header_field pe key n ?s (lexed (Suc n) raws @ rest) = Some ((eff ?s, []), rest')"
    using assms(4) [OF new(1)] by blast
  have "header_step pe s ?l (lexed (Suc n) raws @ rest) = Some ((eff ?s, []), rest')"
    using new rest'(2) by (simp add: header_step_def track_def Let_def)
  then show "\<exists>s' rest'. (rest' = rest \<or> rest' = skip_blanks rest) \<and> header_value s' = eff (header_value s) \<and>
      hs_seen s' = key # hs_seen s \<and> header_loop pe s (lexed n ((key @ '':'') # raws) @ rest) = header_loop pe s' rest'"
    using header_loop_step [of ?l pe s] start_lexed(2) [OF assms(1,2)] rest'(1) assms(3)
    by (intro exI [of _ "eff ?s"] exI [of _ rest']) (simp add: header_effect_def header_value_def)
qed (use start_lexed [OF assms(1,2)] in auto)

text \<open>Below \<open>tags\<close> and \<open>imports\<close>, an indented list.\<close>

lemma header_reads_items:
  assumes "key_ok key" and "list_all clean items" and "header_effect eff" and "key = ''tags'' \<or> key = ''imports''"
    and "\<And>number s. header_list pe key items number s = (eff s, [])"
  shows "header_reads pe (key, (key @ '':'') # item_lines 2 items, eff)"
proof (rule header_reads_start [OF assms(1) _ assms(3)])
  fix number m rest and s :: header_state
  assume "boundary rest"
  then have "header_field pe key number s (lexed m (item_lines 2 items) @ rest) = Some ((eff s, []), rest)"
    using list_reads_items [OF assms(2), of rest m 2] assms(4,5) by (auto simp: header_field_def)
  then show "\<exists>rest'. (rest' = rest \<or> rest' = skip_blanks rest) \<and>
      header_field pe key number s (lexed m (item_lines 2 items) @ rest) = Some ((eff s, []), rest')" by blast
qed (use assms(2) in simp)

lemma header_reads_list:
  assumes "key_ok key" and "list_ok items" and "header_effect eff" and "key = ''tags''"
    and "\<And>number s. header_list pe key items number s = (eff s, [])"
  shows "header_reads pe (key, list_lines key items, eff)"
  using assms(2)
proof (cases rule: list_ok_cases)
  case 1
  have "header_reads pe (key, [key @ '': ['' @ join '', '' items @ '']''], eff)"
  proof (rule header.readsI)
    fix n rest and s :: header_state
    assume new: "key \<notin> set (hs_seen s)"
    let ?l = "agm_line_of (LkList key items) n 0 (key @ '': ['' @ join '', '' items @ '']'')"
    have "header_step pe s ?l rest = Some ((eff (s\<lparr>hs_seen := key # hs_seen s\<rparr>), []), rest)"
      using new assms(5) by (simp add: header_step_def track_def Let_def)
    then show "\<exists>s' rest'. (rest' = rest \<or> rest' = skip_blanks rest) \<and> header_value s' = eff (header_value s) \<and>
        hs_seen s' = key # hs_seen s \<and>
        header_loop pe s (lexed n [key @ '': ['' @ join '', '' items @ '']''] @ rest) = header_loop pe s' rest'"
      using header_loop_step [of ?l pe s rest] inline_lexed(2) [OF assms(1) 1(2,3)] assms(3)
      by (intro exI [of _ "eff (s\<lparr>hs_seen := key # hs_seen s\<rparr>)"] exI [of _ rest]) (simp add: header_effect_def header_value_def)
  qed (use inline_lexed [OF assms(1) 1(2,3)] in auto)
  then show ?thesis using 1 by (simp add: list_lines_def)
next
  case 2
  then show ?thesis using header_reads_items [OF assms(1) 2(2) assms(3)] assms(4,5) by (simp add: list_lines_def)
qed

lemma header_reads_text:
  assumes "text_ok v" and "header_effect eff"
    and "\<And>s. eff s = on_header (\<lambda>h. h\<lparr>h_description := Some v\<rparr>) s"
  shows "header_reads pe (''description'', text_lines ''description'' v, eff)"
proof -
  have key: "key_ok ''description''" by code_simp
  show ?thesis
  proof (cases "nl \<in> set v")
    case True
    have ok: "block_ok v" using assms(1) True by (simp add: text_ok_def)
    have "header_reads pe (''description'', (''description'' @ '':'') # block_lines_of (str_lines v), eff)"
    proof (rule header_reads_start [OF key _ assms(2)])
      show "lexes (block_lines_of (str_lines v))" using ok by (intro block_lexes) (simp add: block_ok_def Let_def)
      fix number m rest and s :: header_state
      assume "boundary rest"
      then have "header_field pe ''description'' number s (lexed m (block_lines_of (str_lines v)) @ rest) = Some ((eff s, []), rest)"
        using block_reads(1) [OF ok] assms(3) by (simp add: header_field_def)
      then show "\<exists>rest'. (rest' = rest \<or> rest' = skip_blanks rest) \<and>
          header_field pe ''description'' number s (lexed m (block_lines_of (str_lines v)) @ rest) = Some ((eff s, []), rest')" by blast
    qed
    then show ?thesis using True by (simp add: text_lines_def)
  next
    case False
    then show ?thesis
      using assms header_reads_scalar [OF key _ assms(2), of v pe] by (simp add: text_lines_def text_ok_def header_scalar_def)
  qed
qed

end
