(* ===== verification/Canonical_Structured.thy ===== *)
theory Canonical_Structured
  imports Canonical_Fields
begin

text \<open>
  The parsers of structured fields read what the canonical renderer writes for them: sub-fields
  at an indentation, and lists of objects whose first field stands behind a dash.
\<close>

section \<open>Sub-fields\<close>

text \<open>
  What follows a sub-field at indentation \<open>k\<close>: what ends the structured field, another
  sub-field, or the dash of the next object, which only some sub-fields leave alone.
\<close>

definition sub_rest :: "nat \<Rightarrow> bool \<Rightarrow> agm_line list \<Rightarrow> bool" where
  "sub_rest k dash rest \<longleftrightarrow>
     boundary rest \<or>
     (\<exists>l ls. rest = l # ls \<and> ((is_field l \<or> is_body l) \<and> ln_indent l \<le> k \<or> dash \<and> is_item l \<and> ln_indent l < k))"

lemmas kind_defs = is_blank_def is_node_def is_item_def is_field_def is_body_def

lemma sub_rest_head:
  "is_field l \<or> is_body l \<Longrightarrow> \<not> is_blank l \<and> \<not> is_node l \<and> \<not> is_item l"
  "is_item l \<Longrightarrow> \<not> is_blank l \<and> \<not> is_node l \<and> \<not> is_field l \<and> \<not> is_body l"
  by (auto simp: kind_defs split: line_kind.splits)

type_synonym sub_piece = "string list \<times> string \<times> sub_value"

definition sub_reads :: "nat \<Rightarrow> bool \<Rightarrow> sub_piece \<Rightarrow> bool" where
  "sub_reads k dash p \<longleftrightarrow>
     lexes (fst p) \<and>
     (\<forall>n. \<exists>l ls. lexed n (fst p) = l # ls \<and> ln_indent l = k \<and> (is_field l \<or> is_body l)) \<and>
     (\<forall>n rest. sub_rest k dash rest \<longrightarrow>
       collect_sub_fields k (lexed n (fst p) @ rest) =
         (snd p # fst (collect_sub_fields k rest), snd (collect_sub_fields k rest)))"

lemma sub_reads_weaken: "sub_reads k True p \<Longrightarrow> sub_reads k dash p"
  by (auto simp: sub_reads_def sub_rest_def)

text \<open>The sub-fields end at the end of the field and at the next dash.\<close>

definition sub_end :: "nat \<Rightarrow> agm_line list \<Rightarrow> bool" where
  "sub_end k rest \<longleftrightarrow> boundary rest \<or> (\<exists>l ls. rest = l # ls \<and> (is_item l \<or> is_field l) \<and> ln_indent l < k)"

lemma skip_blanks_head: "skip_blanks ls = l # xs \<Longrightarrow> \<not> is_blank l"
  by (induction ls) (simp_all split: if_splits)

lemma boundary_no_body: "boundary rest \<Longrightarrow> 0 < k \<Longrightarrow> \<not> more_body k rest"
proof -
  assume a: "boundary rest" "0 < k"
  show ?thesis
  proof (cases "skip_blanks rest")
    case (Cons l ls)
    then have "ln_indent l = 0" "is_node l \<or> is_field l" using a(1) by (simp_all add: boundary_def)
    moreover have "\<not> is_blank l" using Cons by (rule skip_blanks_head)
    ultimately show ?thesis using a(2) Cons by (simp add: more_body_def is_within_field_def)
  qed (simp add: more_body_def)
qed

lemma collect_item: "is_item l \<or> is_field l \<Longrightarrow> ln_indent l < k \<Longrightarrow> collect_sub_fields k (l # ls) = ([], l # ls)"
proof -
  assume a: "is_item l \<or> is_field l" "ln_indent l < k"
  then have "\<not> is_blank l" "\<not> is_node l" using sub_rest_head [of l] by blast+
  then show ?thesis using a(2) by (subst collect_sub_fields.simps) simp
qed

lemma collect_boundary:
  assumes "boundary rest" and "0 < k"
  shows "collect_sub_fields k rest = ([], rest)"
  using assms(1)
proof (induction rest rule: boundary_induct)
  case (blank l ls)
  then have "\<not> more_body k ls" using boundary_no_body assms(2) by blast
  then show ?case using blank by (simp add: collect_sub_fields.simps)
next
  case (node l ls)
  then show ?case using node_is_not(1) [OF node(1)] by (subst collect_sub_fields.simps) simp
next
  case (field l ls)
  then show ?case using assms(2) sub_rest_head(1) [OF disjI1 [OF field(1)]] by (subst collect_sub_fields.simps) simp
qed (simp add: collect_sub_fields.simps)

lemma sub_end_collect: "sub_end k rest \<Longrightarrow> 0 < k \<Longrightarrow> collect_sub_fields k rest = ([], rest)"
  using collect_boundary collect_item by (auto simp: sub_end_def)

definition sub_lines :: "sub_piece list \<Rightarrow> string list" where
  "sub_lines ps = concat (map fst ps)"

lemma sub_lines_simps [simp]:
  "sub_lines [] = []" "sub_lines (p # ps) = fst p @ sub_lines ps" "sub_lines (ps @ qs) = sub_lines ps @ sub_lines qs"
  by (simp_all add: sub_lines_def)

text \<open>All sub-fields can be followed by another one, the last by a dash.\<close>

definition sub_chain :: "nat \<Rightarrow> sub_piece list \<Rightarrow> bool" where
  "sub_chain k ps \<longleftrightarrow> list_all (sub_reads k False) ps \<and> ps \<noteq> [] \<and> sub_reads k True (last ps)"

lemma sub_reads_head:
  "sub_reads k dash p \<Longrightarrow> \<exists>l ls. lexed n (fst p) = l # ls \<and> ln_indent l = k \<and> (is_field l \<or> is_body l)"
  by (simp add: sub_reads_def)

lemma sub_head:
  assumes "list_all (sub_reads k False) ps" and "ps \<noteq> []"
  shows "\<exists>l ls. lexed n (sub_lines ps) = l # ls \<and> ln_indent l = k \<and> (is_field l \<or> is_body l)"
proof -
  obtain p qs where p: "ps = p # qs" using assms(2) by (cases ps) auto
  then show ?thesis using assms(1) sub_reads_head [of k False p n] by auto
qed

lemma sub_reads_collect:
  "sub_reads k dash p \<Longrightarrow> sub_rest k dash rest \<Longrightarrow>
   collect_sub_fields k (lexed n (fst p) @ rest) =
     (snd p # fst (collect_sub_fields k rest), snd (collect_sub_fields k rest))"
  by (simp add: sub_reads_def)

lemma sub_chain_collect:
  assumes "sub_chain k ps" and "sub_end k rest" and "0 < k"
  shows "collect_sub_fields k (lexed n (sub_lines ps) @ rest) = (map snd ps, rest)"
  using assms(1)
proof (induction ps arbitrary: n)
  case (Cons p ps)
  let ?tail = "lexed (n + length (fst p)) (sub_lines ps) @ rest"
  show ?case
  proof (cases "ps = []")
    case True
    then have "sub_reads k True p" "sub_rest k True rest"
      using Cons.prems assms(2) by (auto simp: sub_chain_def sub_rest_def sub_end_def)
    then have "collect_sub_fields k (lexed n (fst p) @ rest) = ([snd p], rest)"
      using sub_reads_collect sub_end_collect [OF assms(2,3)] by simp
    then show ?thesis using True by simp
  next
    case False
    then have chain: "sub_chain k ps" "sub_reads k False p" using Cons.prems by (auto simp: sub_chain_def)
    then have "sub_rest k False ?tail"
      using sub_head [of k ps "n + length (fst p)"] False by (auto simp: sub_chain_def sub_rest_def)
    then have "collect_sub_fields k (lexed n (fst p) @ ?tail) =
        (snd p # fst (collect_sub_fields k ?tail), snd (collect_sub_fields k ?tail))"
      using sub_reads_collect [OF chain(2)] by blast
    then show ?thesis using Cons.IH [OF chain(1)] by simp
  qed
qed (simp add: sub_chain_def)

lemma sub_chain_lexes: "sub_chain k ps \<Longrightarrow> lexes (sub_lines ps)"
proof -
  have "list_all (sub_reads k False) ps \<Longrightarrow> lexes (sub_lines ps)" for ps
    by (induction ps) (auto simp: sub_reads_def)
  then show "sub_chain k ps \<Longrightarrow> lexes (sub_lines ps)" by (simp add: sub_chain_def)
qed

section \<open>Kinds of sub-fields\<close>

definition sub_scalar :: "nat \<Rightarrow> string \<Rightarrow> string \<Rightarrow> sub_piece" where
  "sub_scalar k key v = ([spaces k @ key @ '': '' @ v], key, SfScalar v)"

definition sub_list :: "nat \<Rightarrow> string \<Rightarrow> string list \<Rightarrow> sub_piece" where
  "sub_list k key items =
     (if use_inline items then [spaces k @ key @ '': ['' @ join '', '' items @ '']'']
      else (spaces k @ key @ '':'') # item_lines (k + 2) items, key, SfList items)"

lemma sub_scalar_simps [simp]: "snd (sub_scalar k key v) = (key, SfScalar v)" "snd (sub_list k key items) = (key, SfList items)"
  by (simp_all add: sub_scalar_def sub_list_def)

lemma clean_line: "clean v \<Longrightarrow> is_valid_field_key key \<Longrightarrow> clean (spaces k @ key @ CHR '':'' # v)"
  by (intro clean_spaces key_clean) auto

lemma line_no_node_sub [simp]: "\<not> is_blank (agm_line_of (LkScalar a v) n k r)" "\<not> is_blank (agm_line_of (LkList a xs) n k r)"
  "\<not> is_blank (agm_line_of (LkStart a) n k r)" "\<not> is_blank (agm_line_of (LkBody x) n k r)" "\<not> is_node (agm_line_of (LkBody x) n k r)"
  "is_body (agm_line_of (LkBody x) n k r)"
  by (simp_all add: is_blank_def is_node_def is_body_def)

lemma sub_reads_scalar:
  assumes "key_ok key" and "scalar_ok v"
  shows "sub_reads k dash (sub_scalar k key v)"
proof -
  have "clean (spaces k @ key @ CHR '':'' # sp # v)"
    using assms clean_append [of v "'' ''"] by (intro clean_line) (simp_all add: key_ok_def scalar_clean_append)
  then show ?thesis
    using classify_scalar [OF assms, of k]
    by (simp add: sub_reads_def sub_scalar_def collect_sub_fields.simps case_prod_beta)
qed

lemma sub_items_reads:
  assumes "list_all clean items" and "sub_rest k False rest"
  shows "sub_items k (lexed n (item_lines m items) @ rest) = (items, rest)"
  using assms(1)
proof (induction items arbitrary: n)
  case Nil
  have "sub_items k rest = ([], rest)" if "boundary rest" for rest
  proof (cases rest)
    case (Cons l ls)
    then show ?thesis
      using that
      by (auto simp: is_field_def is_node_def is_blank_def is_item_def boundary_def split: line_kind.splits list.splits)
  qed simp
  moreover have "sub_items k (l # ls) = ([], l # ls)" if "is_field l \<or> is_body l" for l ls
    using that by (auto simp: is_field_def is_body_def split: line_kind.splits)
  ultimately show ?case using assms(2) by (auto simp: sub_rest_def item_lines_def)
next
  case (Cons v items)
  have "classify_line (spaces m @ ''- '' @ v) n = Inr (agm_line_of (LkItem v) n m (spaces m @ ''- '' @ v))"
    using Cons.prems by (intro classify_item) (simp add: clean_def)
  then show ?case using Cons by (simp add: item_lines_def)
qed

lemma sub_reads_list:
  assumes "key_ok key" and "list_ok items" and "use_inline items \<or> \<not> dash"
  shows "sub_reads k dash (sub_list k key items)"
  using assms(2)
proof (cases rule: list_ok_cases)
  case 1
  have "clean (spaces k @ key @ '': ['' @ join '', '' items @ '']'')"
    using inline_lexed(1) [OF assms(1) 1(2,3)] by (intro clean_spaces) simp
  then show ?thesis
    using 1 classify_list [OF assms(1) 1(2,3), of k]
    by (simp add: sub_reads_def sub_list_def collect_sub_fields.simps case_prod_beta)
next
  case 2
  have start: "classify_line (spaces k @ key @ '':'') n = Inr (agm_line_of (LkStart key) n k (spaces k @ key @ '':''))" for n
    by (rule classify_start [OF assms(1)])
  have "clean (spaces k @ key @ '':'')" using clean_line [of "[]" key k] assms(1) by (simp add: key_ok_def)
  moreover have "collect_sub_fields k (lexed n ((spaces k @ key @ '':'') # item_lines (k + 2) items) @ rest) =
      ((key, SfList items) # fst (collect_sub_fields k rest), snd (collect_sub_fields k rest))"
    if "sub_rest k False rest" for n rest
  proof -
    let ?ls = "lexed (Suc n) (item_lines (k + 2) items) @ rest"
    obtain l ls where l: "lexed (Suc n) (item_lines (k + 2) items) = l # ls" "is_item l" using items_head [OF 2(2,3)] by blast
    moreover have "\<not> is_blank l" using sub_rest_head(2) [OF l(2)] by simp
    moreover have "sub_items k ?ls = (items, rest)" by (rule sub_items_reads [OF 2(2) that])
    ultimately have "start_value k ?ls = (SfList items, rest)"
      by (simp add: start_value_def del: sub_items.simps)
    then show ?thesis using start [of n] by (simp add: collect_sub_fields.simps case_prod_beta)
  qed
  ultimately show ?thesis
    using 2 start assms(3) by (simp add: sub_reads_def sub_list_def)
qed

section \<open>Lists of objects\<close>

text \<open>An object: the pair behind the dash and the sub-fields below it.\<close>

type_synonym object = "(string \<times> string) \<times> sub_piece list"

definition object_lines :: "nat \<Rightarrow> object \<Rightarrow> string list" where
  "object_lines b ob = (spaces b @ ''- '' @ fst (fst ob) @ '': '' @ snd (fst ob)) # sub_lines (snd ob)"

definition object_fields :: "object \<Rightarrow> sub_fields" where
  "object_fields ob = (fst (fst ob), SfScalar (snd (fst ob))) # map snd (snd ob)"

definition object_ok :: "nat \<Rightarrow> object \<Rightarrow> bool" where
  "object_ok b ob \<longleftrightarrow> key_ok (fst (fst ob)) \<and> scalar_ok (snd (fst ob)) \<and> sub_chain (b + 2) (snd ob)"

lemma object_ok_2:
  "object_ok 2 ob \<longleftrightarrow> key_ok (fst (fst ob)) \<and> scalar_ok (snd (fst ob)) \<and> sub_chain 4 (snd ob)"
  by (simp add: object_ok_def)

lemma parse_kv_pair:
  assumes "key_ok key" and "scalar_ok v"
  shows "parse_kv_from_text (key @ '': '' @ v) = Some (key, v)"
proof -
  have chars: "\<And>c. c \<in> set key \<Longrightarrow> graphic c \<and> c \<noteq> CHR '':''" "key \<noteq> []" "hd key \<in> set key"
    using valid_key_chars [of key] valid_key_hd [of key] assms(1) by (auto simp: key_ok_def)
  have v: "v \<noteq> []" "graphic (last v)" "trim v = v" using assms(2) by (auto simp: scalar_ok_def plain_def trim_visible)
  have "trim (key @ '': '' @ v) = key @ '': '' @ v" using chars v by (intro trim_visible) auto
  moreover have "str_find '':'' (key @ CHR '':'' # sp # v) = Some (length key)"
    using chars(1) by (intro str_find_char) auto
  moreover have "trim key = key" using chars by (intro trim_visible) auto
  ultimately show ?thesis using chars(2) v(3) by (simp add: parse_kv_from_text_def Let_def)
qed

lemma object_first_line:
  assumes "object_ok b ob"
  defines "t == fst (fst ob) @ '': '' @ snd (fst ob)"
  shows "classify_line (spaces b @ ''- '' @ t) n = Inr (agm_line_of (LkItem t) n b (spaces b @ ''- '' @ t))"
    and "clean (spaces b @ ''- '' @ t)"
proof -
  have "clean t"
    unfolding t_def using assms(1) key_clean [of "sp # snd (fst ob)"] clean_append [of "snd (fst ob)" "'' ''"]
    by (simp add: object_ok_def key_ok_def scalar_clean_append)
  then show "clean (spaces b @ ''- '' @ t)" using clean_append [of t "''- ''"] by (intro clean_spaces) auto
  have "tab \<notin> set t" using \<open>clean t\<close> by (simp add: clean_def)
  then show "classify_line (spaces b @ ''- '' @ t) n = Inr (agm_line_of (LkItem t) n b (spaces b @ ''- '' @ t))"
    using classify_item [of t b n] by simp
qed

lemma object_lines_lexes: "list_all (object_ok b) obs \<Longrightarrow> lexes (concat (map (object_lines b) obs))"
proof (induction obs)
  case (Cons ob obs)
  then have "sub_chain (b + 2) (snd ob)" "object_ok b ob" by (simp_all add: object_ok_def)
  then show ?case
    using Cons object_first_line [of b ob] sub_chain_lexes by (simp add: object_lines_def)
qed simp

lemma entry_fields_reads:
  assumes "object_ok b ob" and "sub_end (b + 2) rest"
  shows "entry_fields b (fst (fst ob) @ '': '' @ snd (fst ob)) (lexed n (sub_lines (snd ob)) @ rest) = (object_fields ob, rest)"
proof -
  have chain: "sub_chain (b + 2) (snd ob)" using assms(1) by (simp add: object_ok_def)
  then obtain l ls where l: "lexed n (sub_lines (snd ob)) = l # ls" "ln_indent l = b + 2" "is_field l \<or> is_body l"
    using sub_head [of "b + 2" "snd ob" n] by (auto simp: sub_chain_def)
  then have "detect_base_indent (lexed n (sub_lines (snd ob)) @ rest) = Some (b + 2)" using sub_rest_head(1) [OF l(3)] by simp
  moreover have "parse_kv_from_text (fst (fst ob) @ '': '' @ snd (fst ob)) = Some (fst (fst ob), snd (fst ob))"
    using assms(1) by (intro parse_kv_pair) (simp_all add: object_ok_def)
  ultimately show ?thesis
    using sub_chain_collect [OF chain assms(2)] by (simp add: entry_fields_def object_fields_def case_prod_beta)
qed

text \<open>The list ends before a line that is indented less.\<close>

definition objects_end :: "nat \<Rightarrow> agm_line list \<Rightarrow> bool" where
  "objects_end b rest \<longleftrightarrow> boundary rest \<or> (\<exists>l ls. rest = l # ls \<and> is_field l \<and> ln_indent l < b)"

lemma object_entries_end:
  assumes "objects_end b rest" and "0 < b"
  shows "object_entries b rest = ([], skip_blanks rest)"
proof (cases "boundary rest")
  case True
  then show ?thesis
  proof (induction rest rule: boundary_induct)
    case (field l ls)
    then show ?case using assms(2) by (auto simp: object_entries.simps is_within_field_def field_no_node)
  qed (auto simp: object_entries.simps is_within_field_def)
next
  case False
  then show ?thesis using assms by (auto simp: objects_end_def object_entries.simps is_within_field_def field_no_node)
qed

lemma object_entries_reads:
  assumes "list_all (object_ok b) obs" and "objects_end b rest" and "0 < b"
  shows "map snd (fst (object_entries b (lexed n (concat (map (object_lines b) obs)) @ rest))) = map object_fields obs \<and>
    snd (object_entries b (lexed n (concat (map (object_lines b) obs)) @ rest)) = skip_blanks rest"
  using assms(1)
proof (induction obs arbitrary: n)
  case Nil
  then show ?case using object_entries_end [OF assms(2,3)] by simp
next
  case (Cons ob obs)
  let ?text = "fst (fst ob) @ '': '' @ snd (fst ob)"
  let ?m = "Suc n + length (sub_lines (snd ob))"
  let ?tail = "lexed ?m (concat (map (object_lines b) obs)) @ rest"
  have ob: "object_ok b ob" using Cons.prems by simp
  have "sub_end (b + 2) ?tail"
  proof (cases obs)
    case Nil
    then show ?thesis using assms(2,3) by (auto simp: sub_end_def objects_end_def)
  next
    case (Cons ob' obs')
    then have "object_ok b ob'" using Cons.prems by simp
    then show ?thesis
      using object_first_line(1) [of b ob' ?m] Cons by (auto simp: sub_end_def object_lines_def is_item_def)
  qed
  then have fields: "entry_fields b ?text (lexed (Suc n) (sub_lines (snd ob)) @ ?tail) = (object_fields ob, ?tail)"
    by (rule entry_fields_reads [OF ob])
  let ?l = "agm_line_of (LkItem ?text) n b (spaces b @ ''- '' @ ?text)"
  have "object_entries b (?l # lexed (Suc n) (sub_lines (snd ob)) @ ?tail) =
      ((n, object_fields ob) # fst (object_entries b ?tail), snd (object_entries b ?tail))"
    by (subst object_entries.simps) (simp add: is_within_field_def is_blank_def is_node_def case_prod_beta Let_def fields [simplified])
  moreover have "lexed n (concat (map (object_lines b) (ob # obs))) @ rest = ?l # lexed (Suc n) (sub_lines (snd ob)) @ ?tail"
    using object_first_line(1) [OF ob, of n] by (simp add: object_lines_def)
  ultimately show ?case using Cons.IH [of ?m] Cons.prems by simp
qed

lemma objects_read:
  assumes "list_all (object_ok b) (map obj xs)" and "objects_end b rest" and "0 < b"
    and "\<And>x number. x \<in> set xs \<Longrightarrow> build number (object_fields (obj x)) = (Some x, [])"
  shows "parse_objects build b (lexed n (concat (map (object_lines b \<circ> obj) xs)) @ rest) = ((xs, []), skip_blanks rest)"
proof -
  let ?ls = "lexed n (concat (map (object_lines b) (map obj xs))) @ rest"
  have "List.map_filter fst (map (\<lambda>(number, fs). build number fs) es) = xs' \<and>
      concat (map snd (map (\<lambda>(number, fs). build number fs) es)) = []"
    if "map snd es = map (object_fields \<circ> obj) xs'" "set xs' \<subseteq> set xs" for es xs'
    using that
  proof (induction xs' arbitrary: es)
    case (Cons y ys)
    then obtain num es' where es: "es = (num, object_fields (obj y)) # es'" "map snd es' = map (object_fields \<circ> obj) ys"
      by (cases es) auto
    moreover have "build num (object_fields (obj y)) = (Some y, [])" using assms(4) Cons.prems(2) by simp
    ultimately show ?case using Cons.IH [of es'] Cons.prems(2) by (simp add: List.map_filter_simps)
  qed (simp add: List.map_filter_simps)
  moreover have "map snd (fst (object_entries b ?ls)) = map (object_fields \<circ> obj) xs"
    using object_entries_reads [OF assms(1-3), of n] by simp
  ultimately show ?thesis
    using object_entries_reads [OF assms(1-3), of n]
    by (simp add: parse_objects_def case_prod_beta Let_def)
qed

lemma objects_indent:
  assumes "list_all (object_ok b) (map obj xs)" and "xs \<noteq> []"
  shows "detect_base_indent (lexed n (concat (map (object_lines b \<circ> obj) xs)) @ rest) = Some b"
proof -
  obtain x ys where x: "xs = x # ys" using assms(2) by (cases xs) auto
  then show ?thesis
    using object_first_line(1) [of b "obj x" n] assms(1) by (simp add: object_lines_def is_blank_def is_node_def)
qed

lemma object_list_reads:
  assumes "list_all (object_ok 2) (map obj xs)" and "xs \<noteq> []" and "boundary rest"
    and "\<And>x number. x \<in> set xs \<Longrightarrow> build number (object_fields (obj x)) = (Some x, [])"
  shows "parse_object_list build (lexed n (concat (map (object_lines 2 \<circ> obj) xs)) @ rest) = ((xs, []), skip_blanks rest)"
  using objects_indent [OF assms(1,2)] objects_read [OF assms(1) _ _ assms(4), where rest = rest and n = n] assms(3)
  by (simp add: parse_object_list_def objects_end_def)

end
