(* ===== verification/Canonical_Objects.thy ===== *)
theory Canonical_Objects
  imports Canonical_Structured
begin

text \<open>
  Which structured fields the canonical text gives back, and that it does: verify checks,
  memory entries, parallel groups, code blocks, agent contexts and load profiles.
\<close>

section \<open>Optional sub-fields\<close>

definition opt_sub :: "nat \<Rightarrow> string \<Rightarrow> ('a \<Rightarrow> string) \<Rightarrow> 'a option \<Rightarrow> sub_piece list" where
  "opt_sub k key shw x = (case x of None \<Rightarrow> [] | Some v \<Rightarrow> [sub_scalar k key (shw v)])"

lemma get_scalar_sub [simp]:
  "get_scalar ((key, SfScalar v) # fs) j = (if j = key then Some v else get_scalar fs j)"
  "get_scalar ((key, SfList xs) # fs) j = get_scalar fs j"
  "get_scalar (map snd (opt_sub k key shw x) @ fs) j =
     (if j = key \<and> x \<noteq> None then map_option shw x else get_scalar fs j)"
  "get_scalar (map snd (opt_sub k key shw x)) j = (if j = key \<and> x \<noteq> None then map_option shw x else None)"
  by (auto simp: opt_sub_def split: option.split bool.split)

lemma get_list_sub [simp]:
  "get_list ((key, SfScalar v) # fs) j = get_list fs j"
  "get_list ((key, SfList xs) # fs) j = (if j = key then Some xs else get_list fs j)"
  "get_list (map snd (opt_sub k key shw x) @ fs) j = get_list fs j"
  "get_list (map snd (opt_sub k key shw x)) j = None"
  by (auto simp: opt_sub_def split: option.split bool.split)

declare get_scalar.simps(2) [simp del] get_list.simps(2) [simp del]

lemma sub_chain_snoc: "list_all (sub_reads k False) ps \<Longrightarrow> sub_reads k True p \<Longrightarrow> sub_chain k (ps @ [p])"
  by (simp add: sub_chain_def sub_reads_weaken)

lemma sub_chain_opt:
  "sub_chain k ps \<Longrightarrow> (\<And>v. x = Some v \<Longrightarrow> key_ok key \<and> scalar_ok (shw v)) \<Longrightarrow> sub_chain k (ps @ opt_sub k key shw x)"
  by (cases x) (auto simp: opt_sub_def sub_chain_def sub_reads_scalar)

lemma sub_chain_scalar: "sub_chain k ps \<Longrightarrow> key_ok key \<Longrightarrow> scalar_ok v \<Longrightarrow> sub_chain k (ps @ [sub_scalar k key v])"
  by (simp add: sub_chain_def sub_reads_scalar)

lemma sub_chain_one: "key_ok key \<Longrightarrow> scalar_ok v \<Longrightarrow> sub_chain k [sub_scalar k key v]"
  by (simp add: sub_chain_def sub_reads_scalar)

lemma sub_unlines [simp]:
  "unlines (fst (sub_scalar k key v)) = emit_scalar (spaces k @ key) v"
  "unlines (sub_lines (opt_sub k key shw x)) = emit_opt (\<lambda>v. emit_scalar (spaces k @ key) (shw v)) x"
  by (simp_all add: sub_scalar_def opt_sub_def emit_scalar_def emit_opt_def split: option.split)

lemma spaces_literal [simp]: "spaces 2 = ''  ''" "spaces 4 = ''    ''" "spaces 6 = ''      ''"
  by (simp_all add: spaces_def numeral_eq_Suc)

lemma plain_scalar: "plain v \<Longrightarrow> hd v \<noteq> CHR ''['' \<Longrightarrow> scalar_ok v"
  by (simp add: scalar_ok_def)

text \<open>The printed numbers and enumerations are scalars.\<close>

lemma digits_scalar: "s \<noteq> [] \<Longrightarrow> \<forall>c \<in> set s. is_digit c \<Longrightarrow> scalar_ok s"
proof -
  assume s: "s \<noteq> []" "\<forall>c \<in> set s. is_digit c"
  have digit: "is_digit c \<Longrightarrow> graphic c \<and> c \<noteq> tab \<and> c \<noteq> nl \<and> c \<noteq> cr \<and> c \<noteq> CHR ''[''" for c
    by (auto simp: is_digit_def graphic_def byte_def)
  have "hd s \<in> set s" "last s \<in> set s" using s(1) by auto
  then show ?thesis using s digit by (auto simp: scalar_ok_def plain_def clean_def line_ok_def)
qed

lemma show_word_scalar [simp]: "scalar_ok (show_word w)"
  unfolding show_word_def using show_nat_digits by (intro digits_scalar) auto

lemmas visible_defs = scalar_ok_def plain_def clean_def line_ok_def graphic_def byte_def

lemma code_action_scalar [simp]: "scalar_ok (show_code_action x)"
  by (cases x) (simp_all add: visible_defs)

lemma memory_action_scalar [simp]: "scalar_ok (show_memory_action x)"
  by (cases x) (simp_all add: visible_defs)

lemma memory_scope_scalar [simp]: "scalar_ok (show_memory_scope x)"
  by (cases x) (simp_all add: visible_defs)

lemma strategy_scalar [simp]: "scalar_ok (show_strategy x)"
  by (cases x) (simp_all add: visible_defs)

lemma ticket_action_scalar [simp]: "scalar_ok (show_ticket_action x)"
  by (cases x) (simp_all add: visible_defs)

lemma sdd_phase_scalar [simp]: "scalar_ok (show_sdd_phase x)"
  by (cases x) (simp_all add: visible_defs)

lemma node_status_scalar [simp]: "scalar_ok (show_node_status x)"
  by (cases x) (simp_all add: visible_defs)

lemma stability_scalar [simp]: "scalar_ok (show_stability x)"
  by (cases x) (simp_all add: visible_defs)

lemma priority_scalar [simp]: "scalar_ok (show_priority x)"
  by (cases x) (simp_all add: visible_defs)

lemma confidence_scalar [simp]: "scalar_ok (show_confidence x)"
  by (cases x) (simp_all add: visible_defs)

lemma execution_status_scalar [simp]: "scalar_ok (show_execution_status x)"
  by (cases x) (simp_all add: visible_defs)

section \<open>Memory entries\<close>

definition memory_object :: "memory_entry \<Rightarrow> object" where
  "memory_object e =
     ((''key'', me_key e),
      [sub_scalar 4 ''topic'' (me_topic e), sub_scalar 4 ''action'' (show_memory_action (me_action e))] @
      opt_sub 4 ''value'' id (me_value e) @ opt_sub 4 ''scope'' show_memory_scope (me_scope e) @
      opt_sub 4 ''ttl'' show_memory_ttl (me_ttl e) @ opt_sub 4 ''query'' id (me_query e) @
      opt_sub 4 ''max_results'' show_word (me_max_results e))"

definition memory_entry_ok :: "memory_entry \<Rightarrow> bool" where
  "memory_entry_ok e \<longleftrightarrow>
     scalar_ok (me_key e) \<and> scalar_ok (me_topic e) \<and> pred_option scalar_ok (me_value e) \<and>
     pred_option (\<lambda>t. ttl_valid t \<and> scalar_ok (show_memory_ttl t)) (me_ttl e) \<and>
     pred_option scalar_ok (me_query e) \<and> me_extra_fields e = []"

lemma scalar_not_Nil: "scalar_ok v \<Longrightarrow> v \<noteq> []"
  by (simp add: scalar_ok_def plain_def)

lemma keys_ok [simp]:
  "key_ok ''key''" "key_ok ''topic''" "key_ok ''action''" "key_ok ''value''" "key_ok ''scope''" "key_ok ''ttl''"
  "key_ok ''query''" "key_ok ''max_results''" "key_ok ''type''" "key_ok ''run''" "key_ok ''expect''" "key_ok ''file''"
  "key_ok ''pattern''" "key_ok ''node''" "key_ok ''status''" "key_ok ''group''" "key_ok ''nodes''" "key_ok ''strategy''"
  "key_ok ''requires''" "key_ok ''max_concurrency''" "key_ok ''lang''" "key_ok ''target''" "key_ok ''anchor''"
  "key_ok ''old''" "key_ok ''load_nodes''" "key_ok ''load_files''" "key_ok ''system_hint''" "key_ok ''max_tokens''"
  "key_ok ''load_memory''" "key_ok ''path''" "key_ok ''range''" "key_ok ''filter''" "key_ok ''estimated_tokens''"
  "key_ok ''code''" "key_ok ''code_blocks''" "key_ok ''verify''" "key_ok ''agent_context''" "key_ok ''memory''"
  "key_ok ''parallel_groups''" "key_ok ''load_profiles''"
  by code_simp+

lemma memory_object_ok: "memory_entry_ok e \<Longrightarrow> object_ok 2 (memory_object e)"
  unfolding object_ok_2 memory_object_def memory_entry_ok_def fst_conv snd_conv append_assoc [symmetric]
  by (intro conjI sub_chain_opt) (auto simp: sub_chain_def sub_reads_scalar)

lemma memory_builds:
  "memory_entry_ok e \<Longrightarrow> build_memory_entry pe number (object_fields (memory_object e)) = (Some e, [])"
  by (cases e)
    (auto simp: build_memory_entry_def required_def get_filled_def object_fields_def memory_object_def
      memory_entry_ok_def scalar_not_Nil codec pred_option_def split: option.splits)

lemma memory_reads:
  assumes "list_all memory_entry_ok es" and "es \<noteq> []" and "boundary rest"
  shows "parse_memory pe (lexed n (concat (map (object_lines 2 \<circ> memory_object) es)) @ rest) = ((es, []), skip_blanks rest)"
  unfolding parse_memory_def
  using assms memory_object_ok memory_builds by (intro object_list_reads) (auto simp: list_all_iff)

section \<open>Verify checks\<close>

fun verify_object :: "verify_check \<Rightarrow> object" where
  "verify_object (VcCommand r x) = ((''type'', ''command''), sub_scalar 4 ''run'' r # opt_sub 4 ''expect'' id x)"
| "verify_object (VcFileExists f) = ((''type'', ''file_exists''), [sub_scalar 4 ''file'' f])"
| "verify_object (VcFileContains f p) =
     ((''type'', ''file_contains''), [sub_scalar 4 ''file'' f, sub_scalar 4 ''pattern'' p])"
| "verify_object (VcFileNotContains f p) =
     ((''type'', ''file_not_contains''), [sub_scalar 4 ''file'' f, sub_scalar 4 ''pattern'' p])"
| "verify_object (VcNodeStatus n s) =
     ((''type'', ''node_status''), [sub_scalar 4 ''node'' n, sub_scalar 4 ''status'' s])"

fun verify_ok :: "verify_check \<Rightarrow> bool" where
  "verify_ok (VcCommand r x) \<longleftrightarrow> scalar_ok r \<and> pred_option scalar_ok x"
| "verify_ok (VcFileExists f) \<longleftrightarrow> scalar_ok f"
| "verify_ok (VcFileContains f p) \<longleftrightarrow> scalar_ok f \<and> scalar_ok p"
| "verify_ok (VcFileNotContains f p) \<longleftrightarrow> scalar_ok f \<and> scalar_ok p"
| "verify_ok (VcNodeStatus n s) \<longleftrightarrow> scalar_ok n \<and> scalar_ok s"

lemma type_scalars [simp]:
  "scalar_ok ''command''" "scalar_ok ''file_exists''" "scalar_ok ''file_contains''"
  "scalar_ok ''file_not_contains''" "scalar_ok ''node_status''"
  by code_simp+

lemma verify_object_ok: "verify_ok c \<Longrightarrow> object_ok 2 (verify_object c)"
  by (cases c) (auto simp: object_ok_2 sub_chain_def sub_reads_scalar opt_sub_def split: option.split)

lemma verify_builds:
  "verify_ok c \<Longrightarrow> build_verify_check_from_fields pe number (object_fields (verify_object c)) = (Some c, [])"
  by (cases c)
    (auto simp: build_verify_check_from_fields_def required_def get_filled_def object_fields_def scalar_not_Nil
      pred_option_def Let_def split: option.splits)

lemma verify_reads:
  assumes "list_all verify_ok cs" and "cs \<noteq> []" and "boundary rest"
  shows "parse_verify pe (lexed n (concat (map (object_lines 2 \<circ> verify_object) cs)) @ rest) = ((cs, []), skip_blanks rest)"
  unfolding parse_verify_def
  using assms verify_object_ok verify_builds by (intro object_list_reads) (auto simp: list_all_iff)

section \<open>Parallel groups\<close>

definition opt_list_sub :: "nat \<Rightarrow> string \<Rightarrow> string list option \<Rightarrow> sub_piece list" where
  "opt_list_sub k key x = (case x of None \<Rightarrow> [] | Some xs \<Rightarrow> [sub_list k key xs])"

definition group_object :: "parallel_group \<Rightarrow> object" where
  "group_object g =
     ((''group'', pg_group g),
      [sub_list 4 ''nodes'' (pg_nodes g), sub_scalar 4 ''strategy'' (show_strategy (pg_strategy g))] @
      opt_list_sub 4 ''requires'' (pg_requires g) @ opt_sub 4 ''max_concurrency'' show_word (pg_max_concurrency g))"

text \<open>
  Requirements that are written one per line must not be the last field of the group: the parser
  would take the dash of the next group for one of them.
\<close>

definition group_ok :: "parallel_group \<Rightarrow> bool" where
  "group_ok g \<longleftrightarrow>
     scalar_ok (pg_group g) \<and> list_ok (pg_nodes g) \<and>
     pred_option (\<lambda>xs. list_ok xs \<and> (use_inline xs \<or> pg_max_concurrency g \<noteq> None)) (pg_requires g)"

lemma get_list_opt [simp]:
  "get_scalar (map snd (opt_list_sub k key x) @ fs) j = get_scalar fs j"
  "get_list (map snd (opt_list_sub k key x) @ fs) j = (if j = key \<and> x \<noteq> None then x else get_list fs j)"
  by (auto simp: opt_list_sub_def split: option.split)

lemma group_object_ok: "group_ok g \<Longrightarrow> object_ok 2 (group_object g)"
  by (cases "pg_requires g"; cases "pg_max_concurrency g")
    (auto simp: object_ok_2 group_object_def group_ok_def opt_list_sub_def opt_sub_def sub_chain_def
      sub_reads_scalar sub_reads_list)

lemma group_builds:
  "group_ok g \<Longrightarrow> build_parallel_group pe number (object_fields (group_object g)) = (Some g, [])"
  by (cases g)
    (auto simp: build_parallel_group_def required_def get_filled_def object_fields_def group_object_def
      group_ok_def scalar_not_Nil codec split: option.splits)

lemma group_reads:
  assumes "list_all group_ok gs" and "gs \<noteq> []" and "boundary rest"
  shows "parse_parallel_groups pe (lexed n (concat (map (object_lines 2 \<circ> group_object) gs)) @ rest) = ((gs, []), skip_blanks rest)"
  unfolding parse_parallel_groups_def
  using assms group_object_ok group_builds by (intro object_list_reads) (auto simp: list_all_iff)

end
