(* ===== verification/Canonical_Code.thy ===== *)
theory Canonical_Code
  imports Canonical_Objects
begin

text \<open>
  The remaining structured fields in their canonical form: code blocks, whose bodies keep their
  own indentation, agent contexts and load profiles.
\<close>

section \<open>Bodies\<close>

definition raw_lines_of :: "nat \<Rightarrow> string list \<Rightarrow> string list" where
  "raw_lines_of k ls = map (\<lambda>l. spaces k @ l) ls"

text \<open>A line of a body is empty or lexes to something that is no node and is indented.\<close>

definition body_line_ok :: "nat \<Rightarrow> string \<Rightarrow> bool" where
  "body_line_ok k l \<longleftrightarrow>
     clean l \<and>
     (l = [] \<or> (case classify_line (spaces k @ l) 0 of
                   Inr x \<Rightarrow> \<not> is_node x \<and> \<not> is_blank x \<and> k \<le> ln_indent x | Inl _ \<Rightarrow> False))"

definition body_ok :: "nat \<Rightarrow> string \<Rightarrow> bool" where
  "body_ok k v \<longleftrightarrow>
     (let ls = str_lines v in list_all (body_line_ok k) ls \<and> ls \<noteq> [] \<and> last ls \<noteq> [] \<and> join [nl] ls = v)"

definition body_end :: "nat \<Rightarrow> agm_line list \<Rightarrow> bool" where
  "body_end k rest \<longleftrightarrow> boundary rest \<or> (\<exists>l ls. rest = l # ls \<and> \<not> is_blank l \<and> ln_indent l < k)"

lemma body_line_cases:
  assumes "body_line_ok k l"
  obtains "classify_line (spaces k @ l) n = Inr (agm_line_of LkBlank n 0 (spaces k))" "l = []"
  | x where "classify_line (spaces k @ l) n = Inr x" "l \<noteq> []" "\<not> is_node x" "\<not> is_blank x"
      "k \<le> ln_indent x" "ln_raw x = spaces k @ l"
proof (cases "l = []")
  case False
  obtain x where x: "classify_line (spaces k @ l) 0 = Inr x" "\<not> is_node x" "\<not> is_blank x" "k \<le> ln_indent x"
    using assms False by (auto simp: body_line_ok_def split: sum.splits)
  have "ln_raw x = spaces k @ l" using classify_line_Inr [OF x(1)] by blast
  then show ?thesis using that(2) [of "x\<lparr>ln_number := n\<rparr>"] classify_line_number [OF x(1), of n] False x by simp
qed (use that(1) classify_blank_line in simp)

lemma body_line_lexes:
  assumes "body_line_ok k l"
  shows "clean (spaces k @ l)" and "\<exists>x. classify_line (spaces k @ l) n = Inr x"
proof -
  show "clean (spaces k @ l)" using assms by (intro clean_spaces) (simp add: body_line_ok_def)
  show "\<exists>x. classify_line (spaces k @ l) n = Inr x" using assms by (cases rule: body_line_cases [where n = n]) blast+
qed

lemma raw_lexes: "list_all (body_line_ok k) ls \<Longrightarrow> lexes (raw_lines_of k ls)"
  using body_line_lexes by (auto simp: lexes_def raw_lines_of_def list_all_iff)

lemma body_end_lines: "body_end k rest \<Longrightarrow> 0 < k \<Longrightarrow> body_lines k rest = ([], rest)"
proof (cases "boundary rest")
  case True
  assume k: "0 < k"
  show ?thesis
    using True
  proof (induction rest rule: boundary_induct)
    case (blank l ls)
    have "\<not> more_body k ls" using boundary_no_body [OF blank(2) k] .
    moreover have "\<not> is_node l" using blank(1) by (auto simp: kind_defs)
    ultimately show ?case using blank by simp
  next
    case (field l ls)
    then show ?case using k field_no_node by auto
  qed auto
qed (auto simp: body_end_def)

lemma raw_more:
  assumes "list_all (body_line_ok k) ls" and "ls \<noteq> []" and "last ls \<noteq> []"
  shows "more_body k (lexed n (raw_lines_of k ls) @ rest)"
  using assms
proof (induction ls arbitrary: n)
  case (Cons l ls)
  then have "body_line_ok k l" by simp
  then show ?case
  proof (cases rule: body_line_cases [where n = n])
    case 1
    then have "ls \<noteq> []" using Cons.prems by auto
    then have "more_body k (lexed (Suc n) (raw_lines_of k ls) @ rest)" using Cons by simp
    then show ?thesis using 1 by (simp add: raw_lines_of_def more_body_def is_blank_def)
  next
    case (2 x)
    then show ?thesis by (simp add: raw_lines_of_def more_body_def is_within_field_def)
  qed
qed simp

lemma raw_reads:
  assumes "list_all (body_line_ok k) ls" and "ls \<noteq> []" and "last ls \<noteq> []" and "body_end k rest" and "0 < k"
  shows "body_lines k (lexed n (raw_lines_of k ls) @ rest) = (ls, rest)"
  using assms(1-3)
proof (induction ls arbitrary: n)
  case (Cons l ls)
  have rec: "body_lines k (lexed (Suc n) (raw_lines_of k ls) @ rest) = (ls, rest)"
    using Cons body_end_lines [OF assms(4,5)] by (cases "ls = []") (auto simp: raw_lines_of_def)
  have "body_line_ok k l" using Cons.prems by simp
  then show ?case
  proof (cases rule: body_line_cases [where n = n])
    case 1
    then have "ls \<noteq> []" using Cons.prems by auto
    then have "more_body k (lexed (Suc n) (raw_lines_of k ls) @ rest)" using Cons.prems by (intro raw_more) auto
    then show ?thesis using 1 rec by (simp add: raw_lines_of_def is_blank_def)
  next
    case (2 x)
    have "strip_indent k (spaces k @ l) = l" by (simp add: strip_indent_def spaces_def)
    then show ?thesis using 2 rec by (simp add: raw_lines_of_def)
  qed
qed simp

lemma body_reads:
  assumes "body_ok k v" and "body_end k rest" and "0 < k"
  shows "body_lines k (lexed n (raw_lines_of k (str_lines v)) @ rest) = (str_lines v, rest)"
    and "finish_block (str_lines v) = v" and "lexes (raw_lines_of k (str_lines v))"
proof -
  show "body_lines k (lexed n (raw_lines_of k (str_lines v)) @ rest) = (str_lines v, rest)"
    using assms by (intro raw_reads) (auto simp: body_ok_def Let_def)
  show "lexes (raw_lines_of k (str_lines v))" using assms by (intro raw_lexes) (simp add: body_ok_def Let_def)
  have "rev (str_lines v) \<noteq> [] \<and> hd (rev (str_lines v)) \<noteq> []"
    using assms(1) by (auto simp: body_ok_def Let_def hd_rev)
  then have "dropWhile (\<lambda>s. s = []) (rev (str_lines v)) = rev (str_lines v)" by (cases "rev (str_lines v)") auto
  then show "finish_block (str_lines v) = v" using assms(1) by (simp add: finish_block_def body_ok_def Let_def)
qed

section \<open>Code blocks\<close>

definition sub_body :: "nat \<Rightarrow> string \<Rightarrow> sub_piece" where
  "sub_body k v = ((spaces k @ ''body: |2'') # raw_lines_of (k + 2) (str_lines v), ''body'', SfPipe v)"

definition sub_old :: "nat \<Rightarrow> string \<Rightarrow> sub_piece" where
  "sub_old k v = ((spaces k @ ''old:'') # raw_lines_of (k + 2) (str_lines v), ''old'', SfScalar v)"

text \<open>The text after \<open>old:\<close> begins neither with a dash nor with a space.\<close>

definition old_ok :: "nat \<Rightarrow> string \<Rightarrow> bool" where
  "old_ok k v \<longleftrightarrow>
     body_ok k v \<and> hd (str_lines v) \<noteq> [] \<and>
     (case classify_line (spaces k @ hd (str_lines v)) 0 of Inr x \<Rightarrow> \<not> is_item x \<and> ln_indent x = k | Inl _ \<Rightarrow> False)"

lemma sub_rest_body_end: "sub_rest k dash rest \<Longrightarrow> body_end (k + 2) rest"
proof -
  have "\<not> is_blank l" if "is_field l \<or> is_body l \<or> is_item l" for l using that sub_rest_head by blast
  then show "sub_rest k dash rest \<Longrightarrow> body_end (k + 2) rest" by (fastforce simp only: sub_rest_def body_end_def)
qed

lemma start_value_text:
  assumes "ls = l # xs" and "\<not> is_blank l" and "\<not> is_item l" and "k < ln_indent l"
    and "body_lines (ln_indent l) ls = (parts, rest)"
  shows "start_value k ls = (SfScalar (finish_block parts), rest)"
  using assms by (simp add: start_value_def del: body_lines.simps)

lemma body_marker_two: "body_marker (trim '' |2'') = Some (Some 2)" "trim ''body: |2'' = ''body: |2''"
  by code_simp+

lemma classify_body_line:
  "classify_line (spaces k @ ''body: |2'') n = Inr (agm_line_of (LkBody (Some 2)) n k (spaces k @ ''body: |2''))"
proof -
  have "count_indent (spaces k @ ''body: |2'') = k" by (rule count_indent_spaces) simp
  then show ?thesis using body_marker_two by (simp add: classify_line_def Let_def)
qed

lemma sub_reads_body:
  assumes "body_ok (k + 2) v"
  shows "sub_reads k dash (sub_body k v)"
proof -
  have "collect_sub_fields k (lexed n ((spaces k @ ''body: |2'') # raw_lines_of (k + 2) (str_lines v)) @ rest) =
      ((''body'', SfPipe v) # fst (collect_sub_fields k rest), snd (collect_sub_fields k rest))"
    if "sub_rest k dash rest" for n rest
  proof -
    let ?ls = "lexed (Suc n) (raw_lines_of (k + 2) (str_lines v)) @ rest"
    have "collect_pipe_body ?ls (Some (k, 2)) = (v, rest)"
      using body_reads(1) [OF assms sub_rest_body_end [OF that], of "Suc n"] body_reads(2) [OF assms sub_rest_body_end [OF that]]
      by (simp add: collect_pipe_body_def)
    then show ?thesis
      using classify_body_line [of k n] by (simp add: collect_sub_fields.simps case_prod_beta)
  qed
  moreover have "clean (spaces k @ ''body: |2'')" by (intro clean_spaces) code_simp
  ultimately show ?thesis
    using classify_body_line [of k] assms raw_lexes [of "k + 2" "str_lines v"]
    by (simp add: sub_reads_def sub_body_def body_ok_def Let_def)
qed

lemma sub_reads_old:
  assumes "old_ok (k + 2) v"
  shows "sub_reads k dash (sub_old k v)"
proof -
  have body: "body_ok (k + 2) v" using assms by (simp add: old_ok_def)
  have start: "classify_line (spaces k @ ''old:'') n = Inr (agm_line_of (LkStart ''old'') n k (spaces k @ ''old:''))" for n
    using classify_start [of "''old''" k n] by simp
  have "collect_sub_fields k (lexed n ((spaces k @ ''old:'') # raw_lines_of (k + 2) (str_lines v)) @ rest) =
      ((''old'', SfScalar v) # fst (collect_sub_fields k rest), snd (collect_sub_fields k rest))"
    if rest: "sub_rest k dash rest" for n rest
  proof -
    let ?ls = "lexed (Suc n) (raw_lines_of (k + 2) (str_lines v)) @ rest"
    obtain l ls where ls: "str_lines v = l # ls" "l \<noteq> []" "body_line_ok (k + 2) l"
      using assms by (cases "str_lines v") (auto simp: old_ok_def body_ok_def Let_def)
    obtain y where y: "classify_line (spaces (k + 2) @ l) 0 = Inr y" "\<not> is_item y" "ln_indent y = k + 2"
      using assms ls(1) by (auto simp: old_ok_def split: sum.splits)
    let ?y = "y\<lparr>ln_number := Suc n\<rparr>"
    have head: "classify_line (spaces (k + 2) @ l) (Suc n) = Inr ?y" by (rule classify_line_number [OF y(1)])
    then have "\<not> is_blank ?y" using ls(2,3) by (cases rule: body_line_cases [OF ls(3), where n = "Suc n"]) auto
    moreover have "?ls = ?y # tl ?ls" using head ls(1) by (simp add: raw_lines_of_def)
    moreover have "body_lines (k + 2) ?ls = (str_lines v, rest)"
      using body_reads(1) [OF body sub_rest_body_end [OF rest]] by simp
    ultimately have "start_value k ?ls = (SfScalar (finish_block (str_lines v)), rest)"
      using y(2,3) by (intro start_value_text [of ?ls ?y "tl ?ls"]) simp_all
    then have "start_value k ?ls = (SfScalar v, rest)"
      using body_reads(2) [OF body sub_rest_body_end [OF rest]] by simp
    then show ?thesis using start [of n] by (simp add: collect_sub_fields.simps case_prod_beta)
  qed
  moreover have "clean (spaces k @ ''old:'')" by (intro clean_spaces) code_simp
  ultimately show ?thesis
    using start body raw_lexes [of "k + 2" "str_lines v"]
    by (simp add: sub_reads_def sub_old_def body_ok_def Let_def)
qed

definition opt_old :: "nat \<Rightarrow> string option \<Rightarrow> sub_piece list" where
  "opt_old k x = (case x of None \<Rightarrow> [] | Some v \<Rightarrow> [sub_old k v])"

definition code_subs :: "nat \<Rightarrow> code_block \<Rightarrow> sub_piece list" where
  "code_subs k cb = sub_body k (cb_body cb) # opt_sub k ''anchor'' id (cb_anchor cb) @ opt_old k (cb_old cb)"

definition code_ok :: "nat \<Rightarrow> code_block \<Rightarrow> bool" where
  "code_ok k cb \<longleftrightarrow>
     pred_option scalar_ok (cb_lang cb) \<and> pred_option scalar_ok (cb_target cb) \<and>
     body_ok (k + 2) (cb_body cb) \<and> pred_option scalar_ok (cb_anchor cb) \<and> pred_option (old_ok (k + 2)) (cb_old cb)"

lemma get_scalar_code [simp]:
  "get_scalar ((key, SfPipe v) # fs) j = (if j = key then Some v else get_scalar fs j)"
  "get_scalar (map snd (opt_old k x)) j = (if j = ''old'' then x else None)"
  by (auto simp: opt_old_def sub_old_def get_scalar.simps(2) split: option.split bool.split)

lemma code_subs_chain: "code_ok k cb \<Longrightarrow> sub_chain k (code_subs k cb)"
  by (cases "cb_anchor cb"; cases "cb_old cb")
    (auto simp: code_ok_def code_subs_def opt_sub_def opt_old_def sub_chain_def sub_reads_scalar sub_reads_body sub_reads_old)

lemma code_subs_get [simp]:
  "get_scalar (map snd (code_subs k cb)) j =
     (if j = ''body'' then Some (cb_body cb)
      else if j = ''anchor'' \<and> cb_anchor cb \<noteq> None then cb_anchor cb
      else if j = ''old'' then cb_old cb else None)"
  by (simp add: code_subs_def sub_body_def option.map_id)

lemma body_ok_not_Nil: "body_ok k v \<Longrightarrow> v \<noteq> []"
  by (auto simp: body_ok_def str_lines_def Let_def)

lemma old_ok_not_Nil: "old_ok k v \<Longrightarrow> v \<noteq> []"
  by (metis body_ok_not_Nil old_ok_def)

definition code_chain :: "code_block \<Rightarrow> sub_piece list" where
  "code_chain cb =
     (opt_sub 2 ''lang'' id (cb_lang cb) @ opt_sub 2 ''target'' id (cb_target cb) @
      [sub_scalar 2 ''action'' (show_code_action (cb_action cb))]) @ code_subs 2 cb"

lemma sub_chain_append: "list_all (sub_reads k False) ps \<Longrightarrow> sub_chain k qs \<Longrightarrow> sub_chain k (ps @ qs)"
  by (simp add: sub_chain_def)

lemma sub_chain_Cons: "sub_reads k False p \<Longrightarrow> sub_chain k qs \<Longrightarrow> sub_chain k (p # qs)"
  by (simp add: sub_chain_def)

lemma code_chain_ok: "code_ok 2 cb \<Longrightarrow> sub_chain 2 (code_chain cb)"
  unfolding code_chain_def
  by (intro sub_chain_append code_subs_chain)
    (auto simp: code_ok_def opt_sub_def sub_reads_scalar split: option.split)

lemma code_builds:
  assumes "code_ok k cb" and "\<And>j. get_scalar fs j = (if j = ''lang'' then cb_lang cb else if j = ''target'' then cb_target cb
      else if j = ''action'' then Some (show_code_action (cb_action cb)) else get_scalar (map snd (code_subs k cb)) j)"
  shows "build_code_block_from_fields pe number fs = (cb, [])"
proof -
  have filled: "get_filled fs j = x" if "get_scalar fs j = x" "\<And>v. x = Some v \<Longrightarrow> v \<noteq> []" for j x
    using that by (auto simp: get_filled_def split: option.split)
  have "get_filled fs ''lang'' = cb_lang cb" "get_filled fs ''target'' = cb_target cb" "get_filled fs ''anchor'' = cb_anchor cb"
      "get_filled fs ''old'' = cb_old cb" "get_filled fs ''action'' = Some (show_code_action (cb_action cb))"
    using assms(1) scalar_not_Nil old_ok_not_Nil [of "k + 2"]
    by (intro filled; fastforce simp: assms(2) code_ok_def)+
  moreover have "get_scalar fs ''body'' = Some (cb_body cb)" by (simp add: assms(2))
  moreover have "cb_body cb \<noteq> []" using assms(1) body_ok_not_Nil unfolding code_ok_def by blast
  ultimately show ?thesis by (simp add: build_code_block_from_fields_def codec)
qed

lemma code_reads:
  assumes "code_ok 2 cb" and "boundary rest"
  shows "parse_code_block pe number (lexed n (sub_lines (code_chain cb)) @ rest) = ((cb, []), rest)"
proof -
  have chain: "sub_chain 2 (code_chain cb)" by (rule code_chain_ok [OF assms(1)])
  then obtain l ls where l: "lexed n (sub_lines (code_chain cb)) = l # ls" "ln_indent l = 2" "is_field l \<or> is_body l"
    using sub_head [of 2 "code_chain cb" n] by (auto simp: sub_chain_def)
  then have "detect_base_indent (lexed n (sub_lines (code_chain cb)) @ rest) = Some 2"
    using sub_rest_head(1) [OF l(3)] by simp
  moreover have "collect_sub_fields 2 (lexed n (sub_lines (code_chain cb)) @ rest) = (map snd (code_chain cb), rest)"
    using assms(2) by (intro sub_chain_collect [OF chain]) (auto simp: sub_end_def)
  moreover have "build_code_block_from_fields pe number (map snd (code_chain cb)) = (cb, [])"
    by (rule code_builds [OF assms(1)]) (simp add: code_chain_def option.map_id)
  ultimately show ?thesis by (simp add: parse_code_block_def)
qed

text \<open>In a list, a block without a language is written without its target.\<close>

definition code_object :: "code_block \<Rightarrow> object" where
  "code_object cb =
     (case cb_lang cb of
        None \<Rightarrow> ((''action'', show_code_action (cb_action cb)), code_subs 4 cb)
      | Some lang \<Rightarrow>
          ((''lang'', lang),
           (opt_sub 4 ''target'' id (cb_target cb) @ [sub_scalar 4 ''action'' (show_code_action (cb_action cb))]) @
           code_subs 4 cb))"

definition code_item_ok :: "code_block \<Rightarrow> bool" where
  "code_item_ok cb \<longleftrightarrow> code_ok 4 cb \<and> (cb_lang cb = None \<longrightarrow> cb_target cb = None)"

lemma code_object_ok: "code_item_ok cb \<Longrightarrow> object_ok 2 (code_object cb)"
  using code_subs_chain [of 4 cb]
  by (auto simp: code_item_ok_def code_object_def object_ok_2 code_ok_def opt_sub_def sub_reads_scalar
      intro!: sub_chain_Cons split: option.split)

lemma code_item_builds: "code_item_ok cb \<Longrightarrow> build_code_block_from_fields pe number (object_fields (code_object cb)) = (cb, [])"
  by (intro code_builds [of 4])
    (auto simp: code_item_ok_def object_fields_def code_object_def option.map_id split: option.split)

lemma code_blocks_read:
  assumes "list_all code_item_ok cbs" and "cbs \<noteq> []" and "boundary rest"
  shows "parse_code_blocks pe (lexed n (concat (map (object_lines 2 \<circ> code_object) cbs)) @ rest) = ((cbs, []), skip_blanks rest)"
  unfolding parse_code_blocks_def
  using assms code_object_ok code_item_builds by (intro object_list_reads) (auto simp: list_all_iff)

end
