(* ===== verification/Canonical_Context.thy ===== *)
theory Canonical_Context
  imports Canonical_Code
begin

text \<open>
  Agent contexts and load profiles in their canonical form.
\<close>

section \<open>Agent contexts\<close>

lemma context_loop_step:
  assumes "\<not> is_blank l" and "\<not> is_node l" and "ln_indent l = 2" and "context_step pe 2 ac l ls = ((ac', []), after)"
  shows "context_loop pe 2 ac (l # ls) = context_loop pe 2 ac' after"
  using assms by (subst context_loop.simps) (simp add: is_within_field_def case_prod_beta)

lemma context_skip: "context_loop pe 2 ac (skip_blanks ls) = context_loop pe 2 ac ls"
  by (induction ls) (auto simp: context_loop.simps)

text \<open>What follows a field of the context: another one, or the end of the context.\<close>

definition ctx_rest :: "agm_line list \<Rightarrow> bool" where
  "ctx_rest rest \<longleftrightarrow> boundary rest \<or> (\<exists>l ls. rest = l # ls \<and> is_field l \<and> ln_indent l = 2)"

lemma ctx_rest_ends: "ctx_rest rest \<Longrightarrow> sub_rest 2 False rest" "ctx_rest rest \<Longrightarrow> objects_end 4 rest"
  by (auto simp: ctx_rest_def sub_rest_def objects_end_def)

type_synonym ctx_piece = "string list \<times> (agent_context \<Rightarrow> agent_context)"

definition ctx_reads :: "parse_env \<Rightarrow> ctx_piece \<Rightarrow> bool" where
  "ctx_reads pe p \<longleftrightarrow>
     lexes (fst p) \<and>
     (\<forall>n. \<exists>l ls. lexed n (fst p) = l # ls \<and> ln_indent l = 2 \<and> is_field l) \<and>
     (\<forall>n ac rest. ctx_rest rest \<longrightarrow>
       context_loop pe 2 ac (lexed n (fst p) @ rest) = context_loop pe 2 (snd p ac) rest)"

lemma ctx_head: "ctx_reads pe p \<Longrightarrow> \<exists>l ls. lexed n (fst p) = l # ls \<and> ln_indent l = 2 \<and> is_field l"
  by (simp add: ctx_reads_def)

lemma ctx_loop:
  "ctx_reads pe p \<Longrightarrow> ctx_rest rest \<Longrightarrow>
   context_loop pe 2 ac (lexed n (fst p) @ rest) = context_loop pe 2 (snd p ac) rest"
  by (simp add: ctx_reads_def)

lemma context_end: "boundary rest \<Longrightarrow> context_loop pe 2 ac rest = ((ac, []), skip_blanks rest)"
  by (induction rest rule: boundary_induct) (auto simp: context_loop.simps is_within_field_def field_no_node)

lemma ctx_pieces_read:
  assumes "list_all (ctx_reads pe) ps" and "boundary rest"
  shows "context_loop pe 2 ac (lexed n (concat (map fst ps)) @ rest) = ((fold snd ps ac, []), skip_blanks rest)"
  using assms(1)
proof (induction ps arbitrary: n ac)
  case Nil
  then show ?case using context_end [OF assms(2)] by simp
next
  case (Cons p ps)
  let ?m = "n + length (fst p)"
  have "ctx_rest (lexed ?m (concat (map fst ps)) @ rest)"
  proof (cases ps)
    case Nil
    then show ?thesis using assms(2) by (simp add: ctx_rest_def)
  next
    case (Cons q qs)
    then show ?thesis using Cons.prems ctx_head [of pe q ?m] by (auto simp: ctx_rest_def)
  qed
  then show ?case using Cons ctx_loop [of pe p _ ac n] by simp
qed

definition ctx_opt :: "('a \<Rightarrow> string list) \<Rightarrow> (('a option \<Rightarrow> 'a option) \<Rightarrow> agent_context \<Rightarrow> agent_context) \<Rightarrow> 'a option \<Rightarrow> ctx_piece list" where
  "ctx_opt write upd x = (case x of None \<Rightarrow> [] | Some v \<Rightarrow> [(write v, upd (\<lambda>_. Some v))])"

lemma ctx_scalar:
  assumes "key_ok key" and "scalar_ok v" and "\<And>number ac. context_scalar pe number key v ac = (eff ac, [])"
  shows "ctx_reads pe (fst (sub_scalar 2 key v), eff)"
proof -
  let ?l = "\<lambda>n. agm_line_of (LkScalar key v) n 2 (spaces 2 @ key @ '': '' @ v)"
  have "lexes (fst (sub_scalar 2 key v))" using sub_reads_scalar [OF assms(1,2), of 2 True] by (simp add: sub_reads_def)
  moreover have "lexed n (fst (sub_scalar 2 key v)) = [?l n]" for n
    using classify_scalar [OF assms(1,2), of 2 n] by (simp add: sub_scalar_def del: spaces_literal)
  moreover have "context_loop pe 2 ac (?l n # rest) = context_loop pe 2 (eff ac) rest" for ac n rest
    by (rule context_loop_step) (simp_all add: context_step_def assms(3))
  ultimately show ?thesis by (simp add: ctx_reads_def)
qed

lemma context_items_read:
  assumes "list_all clean items" and "ctx_rest rest"
  shows "context_items 4 (lexed n (item_lines 4 items) @ rest) = (items, skip_blanks rest)"
  using assms(1)
proof (induction items arbitrary: n)
  case Nil
  have "context_items 4 rest = ([], skip_blanks rest)" if "boundary rest" for rest
    using that by (induction rest rule: boundary_induct) (auto simp: is_within_field_def field_no_node)
  moreover have "context_items 4 (l # ls) = ([], l # ls)" "\<not> is_blank l" if "is_field l" "ln_indent l = 2" for l ls
    using that by (simp_all add: is_within_field_def field_no_node)
  ultimately show ?case using assms(2) by (auto simp: ctx_rest_def item_lines_def simp del: context_items.simps)
next
  case (Cons v items)
  have "classify_line (spaces 4 @ ''- '' @ v) n = Inr (agm_line_of (LkItem v) n 4 (spaces 4 @ ''- '' @ v))"
    using Cons.prems by (intro classify_item) (simp add: clean_def)
  then show ?case using Cons by (simp add: item_lines_def is_within_field_def is_blank_def is_node_def del: spaces_literal)
qed

lemma ctx_list:
  assumes "key = ''load_nodes'' \<or> key = ''load_memory''" and "list_ok items" and "\<And>ac. context_list key items ac = eff ac"
  shows "ctx_reads pe (fst (sub_list 2 key items), eff)"
proof -
  have key: "key_ok key" using assms(1) by auto
  have reads: "sub_reads 2 False (sub_list 2 key items)" by (rule sub_reads_list [OF key assms(2)]) simp
  show ?thesis
    using assms(2)
  proof (cases rule: list_ok_cases)
    case 1
    let ?raw = "spaces 2 @ key @ '': ['' @ join '', '' items @ '']''"
    let ?l = "\<lambda>n. agm_line_of (LkList key items) n 2 ?raw"
    have "lexed n [?raw] = [?l n]" for n
      using classify_list [OF key 1(2,3), of 2 n] by (simp del: spaces_literal)
    moreover have "context_loop pe 2 ac (?l n # rest) = context_loop pe 2 (eff ac) rest" for ac n rest
      by (rule context_loop_step) (simp_all add: context_step_def assms(3))
    ultimately show ?thesis using 1 reads by (simp add: ctx_reads_def sub_reads_def sub_list_def)
  next
    case 2
    let ?raw = "spaces 2 @ key @ '':''"
    let ?l = "\<lambda>n. agm_line_of (LkStart key) n 2 ?raw"
    have lexed: "lexed n (?raw # item_lines 4 items) = ?l n # lexed (Suc n) (item_lines 4 items)" for n
      using classify_start [OF key, of 2 n] by (simp del: spaces_literal)
    have "context_loop pe 2 ac (?l n # lexed m (item_lines 4 items) @ rest) = context_loop pe 2 (eff ac) rest"
      if rest: "ctx_rest rest" for ac n m rest
    proof -
      obtain v vs where v: "items = v # vs" using 2 by (cases items) auto
      have "classify_line (spaces 4 @ ''- '' @ v) m = Inr (agm_line_of (LkItem v) m 4 (spaces 4 @ ''- '' @ v))"
        using 2(2) v by (intro classify_item) (simp add: clean_def)
      then have "detect_base_indent (lexed m (item_lines 4 items) @ rest) = Some 4"
        using v by (simp add: item_lines_def is_blank_def is_node_def del: spaces_literal)
      then have "context_start 2 key (lexed m (item_lines 4 items) @ rest) ac = ((eff ac, []), skip_blanks rest)"
        using context_items_read [OF 2(2) rest, of m] assms(1,3) by (auto simp: context_start_def when_deeper_def)
      then have "context_loop pe 2 ac (?l n # lexed m (item_lines 4 items) @ rest) = context_loop pe 2 (eff ac) (skip_blanks rest)"
        by (intro context_loop_step) (simp_all add: context_step_def)
      then show ?thesis by (simp add: context_skip)
    qed
    then show ?thesis using 2 reads lexed by (simp add: ctx_reads_def sub_reads_def sub_list_def del: spaces_literal)
  qed
qed

text \<open>The files of a context.\<close>

definition load_file_object :: "load_file \<Rightarrow> object" where
  "load_file_object lf = ((''path'', lf_path lf), [sub_scalar 6 ''range'' (show_file_range (lf_range lf))])"

definition range_ok :: "file_range \<Rightarrow> bool" where
  "range_ok r \<longleftrightarrow> (case r of RangeFunction name \<Rightarrow> plain name | _ \<Rightarrow> True)"

definition load_file_ok :: "load_file \<Rightarrow> bool" where
  "load_file_ok lf \<longleftrightarrow> scalar_ok (lf_path lf) \<and> range_ok (lf_range lf)"

lemma show_word_digit: "c \<in> set (show_word w) \<Longrightarrow> is_digit c"
  unfolding show_word_def by (rule show_nat_digits)

lemma show_word_trim [simp]: "trim (show_word w) = show_word w"
  using show_word_scalar [of w] by (simp add: scalar_ok_def)

lemma range_scalar: "range_ok r \<Longrightarrow> scalar_ok (show_file_range r)"
proof (cases r)
  case (RangeLines s e)
  have digit: "is_digit c \<Longrightarrow> graphic c \<and> c \<noteq> tab \<and> c \<noteq> nl \<and> c \<noteq> cr \<and> c \<noteq> CHR ''[''" for c
    by (auto simp: is_digit_def graphic_def byte_def)
  have ends: "hd (show_word s) \<in> set (show_word s)" "last (show_word e) \<in> set (show_word e)" "show_word s \<noteq> []" "show_word e \<noteq> []"
    by (simp_all add: show_word_def)
  have "tab \<notin> set (show_word w) \<and> nl \<notin> set (show_word w)" for w :: "64 word" using show_word_digit digit by metis
  moreover have "graphic (hd (show_word s))" "hd (show_word s) \<noteq> CHR ''[''" "graphic (last (show_word e))" "last (show_word e) \<noteq> cr"
    using ends show_word_digit digit by metis+
  ultimately show ?thesis
    using RangeLines ends(3,4) by (simp add: scalar_ok_def plain_def clean_def line_ok_def)
next
  case (RangeFunction name)
  assume "range_ok r"
  then have "plain name" using RangeFunction by (simp add: range_ok_def)
  then have "clean (''function: '' @ name)" by (intro clean_append) (auto simp: plain_def)
  then show ?thesis using RangeFunction \<open>plain name\<close> by (simp add: scalar_ok_def plain_def graphic_def byte_def)
qed (simp add: visible_defs)

lemma parse_show_range: "range_ok r \<Longrightarrow> parse_file_range (show_file_range r) = r"
proof (cases r)
  case (RangeLines s e)
  obtain c cs where c: "show_word s = c # cs" "is_digit c"
    using show_word_digit [of _ s] by (cases "show_word s") (auto simp: show_word_def)
  have dash: "CHR ''-'' \<notin> set (show_word s)" using show_word_digit [of "CHR ''-''" s] by (auto simp: is_digit_def byte_def)
  have "c \<noteq> CHR ''f''" using c(2) by (auto simp: is_digit_def byte_def)
  then have "show_word s @ w \<noteq> ''full''" "strip_prefix ''function:'' (show_word s @ w) = None" for w
    using c(1) by simp_all
  moreover have "str_find ''-'' (show_word s @ CHR ''-'' # show_word e) = Some (length (show_word s))" by (rule str_find_char [OF dash])
  ultimately show ?thesis using RangeLines by (simp add: parse_file_range_def codec)
next
  case (RangeFunction name)
  assume "range_ok r"
  then show ?thesis using RangeFunction by (simp add: range_ok_def parse_file_range_def)
qed (simp add: parse_file_range_def)

lemma load_file_object_ok: "load_file_ok lf \<Longrightarrow> object_ok 4 (load_file_object lf)"
  by (simp add: load_file_ok_def object_ok_def load_file_object_def sub_chain_def sub_reads_scalar range_scalar)

lemma load_file_builds: "load_file_ok lf \<Longrightarrow> build_load_file number (object_fields (load_file_object lf)) = (Some lf, [])"
  by (simp add: load_file_ok_def build_load_file_def required_def get_filled_def object_fields_def load_file_object_def
      scalar_not_Nil parse_show_range)

lemma ctx_files:
  assumes "list_all load_file_ok files" and "files \<noteq> []"
  shows "ctx_reads pe ((''  load_files:'') # concat (map (object_lines 4 \<circ> load_file_object) files), \<lambda>ac. ac\<lparr>ac_load_files := Some files\<rparr>)"
proof -
  let ?raws = "concat (map (object_lines 4 \<circ> load_file_object) files)"
  let ?raw = "spaces 2 @ ''load_files:''"
  let ?l = "\<lambda>n. agm_line_of (LkStart ''load_files'') n 2 ?raw"
  have objs: "list_all (object_ok 4) (map load_file_object files)"
    using assms(1) load_file_object_ok by (simp add: list_all_iff)
  have line: "classify_line ?raw n = Inr (?l n)" for n
    using classify_start [of "''load_files''" 2 n] by (simp del: spaces_literal)
  have lexes: "lexes ?raws" using object_lines_lexes [OF objs] by simp
  have "context_loop pe 2 ac (?l n # lexed m ?raws @ rest) = context_loop pe 2 (ac\<lparr>ac_load_files := Some files\<rparr>) rest"
    if rest: "ctx_rest rest" for ac n m rest
  proof -
    have "parse_objects build_load_file 4 (lexed m ?raws @ rest) = ((files, []), skip_blanks rest)"
      using load_file_builds assms(1) by (intro objects_read [OF objs ctx_rest_ends(2) [OF rest]]) (auto simp: list_all_iff)
    then have "context_start 2 ''load_files'' (lexed m ?raws @ rest) ac = ((ac\<lparr>ac_load_files := Some files\<rparr>, []), skip_blanks rest)"
      using objects_indent [OF objs assms(2), of m rest] assms(2)
      by (simp add: context_start_def when_deeper_def parse_load_files_list_def)
    then have "context_loop pe 2 ac (?l n # lexed m ?raws @ rest) = context_loop pe 2 (ac\<lparr>ac_load_files := Some files\<rparr>) (skip_blanks rest)"
      by (intro context_loop_step) (simp_all add: context_step_def)
    then show ?thesis by (simp add: context_skip)
  qed
  moreover have "clean ?raw" by (intro clean_spaces) code_simp
  moreover have "lexed n (?raw # ?raws) = ?l n # lexed (Suc n) ?raws" for n using line by (simp del: spaces_literal)
  ultimately have "ctx_reads pe (?raw # ?raws, \<lambda>ac. ac\<lparr>ac_load_files := Some files\<rparr>)"
    using line lexes by (simp add: ctx_reads_def del: spaces_literal)
  then show ?thesis by simp
qed

text \<open>The context.\<close>

definition context_pieces :: "agent_context \<Rightarrow> ctx_piece list" where
  "context_pieces ac =
     ctx_opt (\<lambda>xs. fst (sub_list 2 ''load_nodes'' xs)) ac_load_nodes_update (ac_load_nodes ac) @
     ctx_opt (\<lambda>files. (''  load_files:'') # concat (map (object_lines 4 \<circ> load_file_object) files))
       ac_load_files_update (ac_load_files ac) @
     ctx_opt (\<lambda>v. fst (sub_scalar 2 ''system_hint'' v)) ac_system_hint_update (ac_system_hint ac) @
     ctx_opt (\<lambda>n. fst (sub_scalar 2 ''max_tokens'' (show_word n))) ac_max_tokens_update (ac_max_tokens ac) @
     ctx_opt (\<lambda>xs. fst (sub_list 2 ''load_memory'' xs)) ac_load_memory_update (ac_load_memory ac)"

text \<open>A hint of several lines would be lost, since the parser skips it.\<close>

definition context_ok :: "agent_context \<Rightarrow> bool" where
  "context_ok ac \<longleftrightarrow>
     pred_option list_ok (ac_load_nodes ac) \<and>
     pred_option (\<lambda>fs. list_all load_file_ok fs \<and> fs \<noteq> []) (ac_load_files ac) \<and>
     pred_option scalar_ok (ac_system_hint ac) \<and> pred_option list_ok (ac_load_memory ac) \<and> ac \<noteq> context_empty"

lemma context_pieces_reads: "context_ok ac \<Longrightarrow> list_all (ctx_reads pe) (context_pieces ac)"
  by (auto simp: context_ok_def context_pieces_def ctx_opt_def context_scalar_def context_list_def codec
      intro!: ctx_list ctx_scalar ctx_files split: option.split)

lemma context_pieces_fold: "fold snd (context_pieces ac) context_empty = ac"
  by (cases ac) (auto simp: context_pieces_def ctx_opt_def context_empty_def split: option.split)

lemma context_reads:
  assumes "context_ok ac" and "boundary rest"
  shows "parse_agent_context pe (lexed n (concat (map fst (context_pieces ac))) @ rest) = ((ac, []), skip_blanks rest)"
proof -
  have reads: "list_all (ctx_reads pe) (context_pieces ac)" by (rule context_pieces_reads [OF assms(1)])
  have "context_pieces ac \<noteq> []"
    using assms(1) by (cases ac) (auto simp: context_ok_def context_pieces_def ctx_opt_def context_empty_def split: option.splits)
  then obtain p ps where p: "context_pieces ac = p # ps" by (cases "context_pieces ac") auto
  then obtain l ls where l: "lexed n (fst p) = l # ls" "ln_indent l = 2" "is_field l"
    using ctx_head [of pe p n] reads by auto
  then have "detect_base_indent (lexed n (concat (map fst (context_pieces ac))) @ rest) = Some 2"
    using p by (simp add: field_no_node)
  then show ?thesis
    using ctx_pieces_read [OF reads assms(2)] by (simp add: parse_agent_context_def context_pieces_fold)
qed

lemma context_lexes: "context_ok ac \<Longrightarrow> lexes (concat (map fst (context_pieces ac)))"
proof -
  have "list_all (ctx_reads pe) ps \<Longrightarrow> lexes (concat (map fst ps))" for pe ps
    by (induction ps) (auto simp: ctx_reads_def)
  then show "context_ok ac \<Longrightarrow> lexes (concat (map fst (context_pieces ac)))" using context_pieces_reads by blast
qed

section \<open>Load profiles\<close>

definition profile_subs :: "load_profile \<Rightarrow> sub_piece list" where
  "profile_subs lp = sub_scalar 4 ''filter'' (lp_filter lp) # opt_sub 4 ''estimated_tokens'' show_token_estimate (lp_estimated_tokens lp)"

definition profile_lines :: "string \<times> load_profile \<Rightarrow> string list" where
  "profile_lines p = (spaces 2 @ fst p @ '':'') # sub_lines (profile_subs (snd p))"

definition profile_ok :: "string \<times> load_profile \<Rightarrow> bool" where
  "profile_ok p \<longleftrightarrow> key_ok (fst p) \<and> scalar_ok (lp_filter (snd p))"

lemma estimate_scalar: "scalar_ok (show_token_estimate t)"
proof (cases t)
  case TeVariable
  then show ?thesis by (simp add: visible_defs)
qed simp

lemma profile_chain: "profile_ok p \<Longrightarrow> sub_chain 4 (profile_subs (snd p))"
  by (cases "lp_estimated_tokens (snd p)")
    (auto simp: profile_ok_def profile_subs_def sub_chain_def opt_sub_def sub_reads_scalar estimate_scalar)

lemma profile_builds: "profile_ok p \<Longrightarrow> build_load_profile pe name (map snd (profile_subs (snd p))) = (snd p, [])"
  by (cases p; cases "snd p")
    (auto simp: build_load_profile_def profile_subs_def profile_ok_def scalar_not_Nil parse_show_token_estimate split: option.splits)

lemma profile_line: "profile_ok p \<Longrightarrow> classify_line (spaces 2 @ fst p @ '':'') n = Inr (agm_line_of (LkStart (fst p)) n 2 (spaces 2 @ fst p @ '':''))"
  by (rule classify_start) (simp add: profile_ok_def)

lemma profile_lexes: "list_all profile_ok ps \<Longrightarrow> lexes (concat (map profile_lines ps))"
proof (induction ps)
  case (Cons p ps)
  have "clean (spaces 2 @ fst p @ '':'')" using Cons.prems clean_line [of "[]" "fst p" 2] by (simp add: profile_ok_def key_ok_def)
  then show ?case
    using Cons profile_line [of p] sub_chain_lexes [OF profile_chain [of p]] by (simp add: profile_lines_def del: spaces_literal)
qed simp

lemma profiles_read:
  assumes "list_all profile_ok ps" and "boundary rest" and "bt_ok (m @ ps)"
  shows "profile_loop pe 2 m (lexed n (concat (map profile_lines ps)) @ rest) = ((m @ ps, []), skip_blanks rest)"
  using assms(1,3)
proof (induction ps arbitrary: m n)
  case Nil
  have "profile_loop pe 2 m rest = ((m, []), skip_blanks rest)"
    using assms(2) by (induction rest rule: boundary_induct) (auto simp: profile_loop.simps is_within_field_def field_no_node)
  then show ?case by simp
next
  case (Cons p ps)
  let ?k = "Suc n + length (sub_lines (profile_subs (snd p)))"
  let ?tail = "lexed ?k (concat (map profile_lines ps)) @ rest"
  let ?subs = "lexed (Suc n) (sub_lines (profile_subs (snd p)))"
  let ?l = "agm_line_of (LkStart (fst p)) n 2 (spaces 2 @ fst p @ '':'')"
  have p: "profile_ok p" using Cons.prems by simp
  have "sub_end 4 ?tail"
  proof (cases ps)
    case Nil
    then show ?thesis using assms(2) by (simp add: sub_end_def)
  next
    case (Cons q qs)
    then show ?thesis using Cons.prems profile_line [of q ?k] by (auto simp: sub_end_def profile_lines_def simp del: spaces_literal)
  qed
  then have "collect_sub_fields 4 (?subs @ ?tail) = (map snd (profile_subs (snd p)), ?tail)"
    using sub_chain_collect [OF profile_chain [OF p]] by simp
  moreover have "detect_base_indent (?subs @ ?tail) = Some 4"
  proof -
    obtain l ls where l: "?subs = l # ls" "ln_indent l = 4" "is_field l \<or> is_body l"
      using sub_head [of 4 "profile_subs (snd p)" "Suc n"] profile_chain [OF p] by (auto simp: sub_chain_def)
    then show ?thesis using sub_rest_head(1) [OF l(3)] by simp
  qed
  ultimately have "when_deeper 2 (?subs @ ?tail) collect_sub_fields = (Some (map snd (profile_subs (snd p))), ?tail)"
    by (simp add: when_deeper_def)
  then have "profile_loop pe 2 m (?l # ?subs @ ?tail) = profile_loop pe 2 (bt_insert (fst p) (snd p) m) ?tail"
    using profile_builds [OF p, of pe "fst p"]
    by (subst profile_loop.simps) (simp add: is_within_field_def is_node_def case_prod_beta)
  moreover have "bt_insert (fst p) (snd p) m = m @ [p]"
    using Cons.prems(2) bt_insert_append [of m "fst p" "snd p"] by (auto simp: bt_ok_def sorted_wrt_append)
  ultimately show ?case
    using Cons.IH [of "m @ [p]" ?k] Cons.prems profile_line [OF p, of n] by (simp add: profile_lines_def [of p] del: spaces_literal)
qed

end
