(* ===== verification/Canonical_Nodes.thy ===== *)
theory Canonical_Nodes
  imports Canonical_Context
begin

text \<open>
  A node in its canonical form as a sequence of pieces: their lines are what the renderer emits,
  the parser reads each of them, and their effects make up the node.
\<close>

section \<open>The lines of structured fields\<close>

definition code_lines :: "code_block \<Rightarrow> string list" where
  "code_lines cb = (''code'' @ '':'') # sub_lines (code_chain cb)"

definition code_blocks_lines :: "code_block list \<Rightarrow> string list" where
  "code_blocks_lines cbs = (''code_blocks'' @ '':'') # concat (map (object_lines 2 \<circ> code_object) cbs)"

definition verify_lines :: "verify_check list \<Rightarrow> string list" where
  "verify_lines cs = (''verify'' @ '':'') # concat (map (object_lines 2 \<circ> verify_object) cs)"

definition agent_context_lines :: "agent_context \<Rightarrow> string list" where
  "agent_context_lines ac = (''agent_context'' @ '':'') # concat (map fst (context_pieces ac))"

definition memory_lines :: "memory_entry list \<Rightarrow> string list" where
  "memory_lines es = (''memory'' @ '':'') # concat (map (object_lines 2 \<circ> memory_object) es)"

definition parallel_groups_lines :: "parallel_group list \<Rightarrow> string list" where
  "parallel_groups_lines gs = (''parallel_groups'' @ '':'') # concat (map (object_lines 2 \<circ> group_object) gs)"

lemma unlines_concat: "unlines (concat xss) = concat (map unlines xss)"
  by (induction xss) simp_all

lemma sub_list_unlines: "unlines (fst (sub_list k key items)) = emit_items (spaces k @ key) (spaces (k + 2)) items"
  by (simp add: sub_list_def emit_items_def item_lines_def unlines_map)

lemma opt_list_unlines: "unlines (sub_lines (opt_list_sub k key x)) = emit_opt (emit_items (spaces k @ key) (spaces (k + 2))) x"
  by (simp add: opt_list_sub_def emit_opt_def sub_list_unlines split: option.split)

lemma raw_unlines: "unlines (raw_lines_of k (str_lines v)) = indented (spaces k) v"
  by (simp add: raw_lines_of_def indented_def unlines_map)

lemma opt_old_unlines: "unlines (sub_lines (opt_old k x)) = emit_opt (\<lambda>old. spaces k @ ''old:'' @ [nl] @ indented (spaces (k + 2)) old) x"
  by (simp add: opt_old_def sub_old_def emit_opt_def raw_unlines split: option.split)

lemma emit_opt_cong_scalar: "emit_opt_scalar key x = emit_opt (\<lambda>v. emit_scalar key v) x"
  by (simp add: emit_opt_scalar_def)

lemma code_subs_unlines:
  "body_ok (k + 2) (cb_body cb) \<Longrightarrow>
   unlines (sub_lines (code_subs k cb)) =
     spaces k @ ''body: |2'' @ [nl] @ emit_body (spaces (k + 2)) (cb_body cb) @
     emit_opt_scalar (spaces k @ ''anchor'') (cb_anchor cb) @
     emit_opt (\<lambda>old. spaces k @ ''old:'' @ [nl] @ indented (spaces (k + 2)) old) (cb_old cb)"
  using body_ok_not_Nil [of "k + 2" "cb_body cb"]
  by (simp add: code_subs_def sub_body_def emit_body_def raw_unlines opt_old_unlines emit_opt_cong_scalar)

lemma code_unlines: "code_ok 2 cb \<Longrightarrow> unlines (code_lines cb) = emit_code_block ''code'' cb"
  by (simp add: code_lines_def code_chain_def emit_code_block_def code_ok_def emit_opt_cong_scalar
      code_subs_unlines [of 2 cb, simplified])

lemma code_blocks_unlines:
  "list_all code_item_ok cbs \<Longrightarrow> cbs \<noteq> [] \<Longrightarrow> unlines (code_blocks_lines cbs) = emit_code_blocks cbs"
proof -
  assume a: "list_all code_item_ok cbs" "cbs \<noteq> []"
  have "unlines (object_lines 2 (code_object cb)) =
      ''  - '' @
      (case cb_lang cb of
         None \<Rightarrow> emit_scalar ''action'' (show_code_action (cb_action cb))
       | Some lang \<Rightarrow>
           emit_scalar ''lang'' lang @ emit_opt_scalar ''    target'' (cb_target cb) @
           emit_scalar ''    action'' (show_code_action (cb_action cb))) @
      ''    body: |2'' @ [nl] @ emit_body ''      '' (cb_body cb) @
      emit_opt_scalar ''    anchor'' (cb_anchor cb) @
      emit_opt (\<lambda>old. ''    old:'' @ [nl] @ indented ''      '' old) (cb_old cb)"
    if "code_item_ok cb" for cb
    using that code_subs_unlines [of 4 cb]
    by (cases "cb_lang cb")
      (auto simp: object_lines_def code_object_def code_item_ok_def code_ok_def emit_opt_cong_scalar emit_scalar_def)
  then show ?thesis
    using a by (auto simp: code_blocks_lines_def emit_code_blocks_def unlines_concat list_all_iff
        intro!: arg_cong [of _ _ concat])
qed

lemma verify_unlines: "cs \<noteq> [] \<Longrightarrow> unlines (verify_lines cs) = emit_verify_checks cs"
proof -
  have "unlines (object_lines 2 (verify_object c)) = emit_verify_check c" for c
    by (cases c) (simp_all add: object_lines_def emit_opt_cong_scalar)
  then show "cs \<noteq> [] \<Longrightarrow> ?thesis"
    by (simp add: verify_lines_def emit_verify_checks_def unlines_concat o_def)
qed

lemma memory_unlines: "es \<noteq> [] \<Longrightarrow> unlines (memory_lines es) = emit_memory_entries es"
proof -
  have "unlines (object_lines 2 (memory_object e)) =
      emit_scalar ''  - key'' (me_key e) @ emit_scalar ''    topic'' (me_topic e) @
      emit_scalar ''    action'' (show_memory_action (me_action e)) @
      emit_opt_scalar ''    value'' (me_value e) @ emit_opt_enum show_memory_scope ''    scope'' (me_scope e) @
      emit_opt_enum show_memory_ttl ''    ttl'' (me_ttl e) @ emit_opt_scalar ''    query'' (me_query e) @
      emit_opt_enum show_word ''    max_results'' (me_max_results e)" for e
    by (simp add: object_lines_def memory_object_def emit_opt_cong_scalar emit_opt_enum_def)
      (simp add: emit_scalar_def)
  then show "es \<noteq> [] \<Longrightarrow> ?thesis"
    by (simp add: memory_lines_def emit_memory_entries_def unlines_concat o_def)
qed

lemma groups_unlines: "gs \<noteq> [] \<Longrightarrow> unlines (parallel_groups_lines gs) = emit_parallel_groups gs"
proof -
  have "unlines (object_lines 2 (group_object g)) =
      emit_scalar ''  - group'' (pg_group g) @ emit_items ''    nodes'' ''      '' (pg_nodes g) @
      emit_scalar ''    strategy'' (show_strategy (pg_strategy g)) @
      emit_opt (emit_items ''    requires'' ''      '') (pg_requires g) @
      emit_opt_enum show_word ''    max_concurrency'' (pg_max_concurrency g)" for g
    by (simp add: object_lines_def group_object_def sub_list_unlines opt_list_unlines emit_opt_enum_def)
      (simp add: emit_scalar_def)
  then show "gs \<noteq> [] \<Longrightarrow> ?thesis"
    by (simp add: parallel_groups_lines_def emit_parallel_groups_def unlines_concat o_def)
qed

lemma ctx_opt_unlines: "unlines (concat (map fst (ctx_opt write upd x))) = emit_opt (\<lambda>v. unlines (write v)) x"
  by (simp add: ctx_opt_def emit_opt_def split: option.split)

lemma context_unlines: "context_ok ac \<Longrightarrow> unlines (agent_context_lines ac) = emit_agent_context ac"
proof -
  assume ok: "context_ok ac"
  have "unlines (object_lines 4 (load_file_object lf)) =
      emit_scalar ''    - path'' (lf_path lf) @ emit_scalar ''      range'' (show_file_range (lf_range lf))" for lf
    by (simp add: object_lines_def load_file_object_def) (simp add: emit_scalar_def)
  then have files: "unlines (concat (map (object_lines 4 \<circ> load_file_object) fs)) = concat (map (\<lambda>lf.
      emit_scalar ''    - path'' (lf_path lf) @ emit_scalar ''      range'' (show_file_range (lf_range lf))) fs)" for fs
    by (simp add: unlines_concat o_def)
  have "nl \<notin> set v" if "ac_system_hint ac = Some v" for v
    using ok that by (auto simp: context_ok_def scalar_ok_def plain_def clean_def line_ok_def)
  then have "emit_opt (\<lambda>v. emit_scalar (''  '' @ ''system_hint'') v) (ac_system_hint ac) =
      emit_opt (emit_block_or_scalar_indented ''  system_hint'') (ac_system_hint ac)"
    by (auto simp: emit_opt_def emit_block_or_scalar_indented_def split: option.split)
  then show ?thesis
    by (simp add: agent_context_lines_def context_pieces_def emit_agent_context_def ctx_opt_unlines sub_list_unlines files)
qed

section \<open>The pieces of a node\<close>

fun extra_piece :: "string \<times> field_value \<Rightarrow> node piece" where
  "extra_piece (k, FvScalar s) = (k, scalar_lines k s, insert_extra k (FvScalar s))"
| "extra_piece (k, FvBlock s) = (k, text_lines k s, insert_extra k (FvBlock s))"
| "extra_piece (k, FvList xs) = (k, list_lines k xs, insert_extra k (FvList xs))"

definition node_names :: "string list" where
  "node_names =
     [''type'', ''title'', ''description'', ''action'', ''sdd_phase'', ''assignee'', ''ticket_id'', ''labels'',
      ''prompt'', ''status'', ''stability'', ''priority'', ''confidence'', ''depends'', ''related_to'', ''replaces'',
      ''conflicts'', ''see_also'', ''input'', ''output'', ''summary'', ''items'', ''steps'', ''fields'',
      ''code'', ''code_blocks'', ''verify'', ''agent_context'', ''target'', ''memory'', ''execution_status'', ''executed_by'',
      ''executed_at'', ''execution_log'', ''retry_count'', ''parallel_groups'', ''detail'', ''rationale'', ''tradeoffs'', ''resolution'',
      ''examples'', ''notes'', ''scope'', ''applies_when'', ''valid_from'', ''valid_until'', ''tags'', ''aliases'',
      ''keywords'']"

definition node_pieces :: "node \<Rightarrow> node piece list" where
  "node_pieces n =
     [(''type'', scalar_lines ''type'' (show_node_type (n_type n)), n_type_update (\<lambda>_. n_type n))] @
     opt_piece ''title'' (text_lines ''title'') n_title_update (n_title n) @
     opt_piece ''description'' (text_lines ''description'') n_description_update (n_description n) @
     opt_piece ''action'' (\<lambda>v. scalar_lines ''action'' (show_ticket_action v)) n_action_update (n_action n) @
     opt_piece ''sdd_phase'' (\<lambda>v. scalar_lines ''sdd_phase'' (show_sdd_phase v)) n_sdd_phase_update (n_sdd_phase n) @
     opt_piece ''assignee'' (scalar_lines ''assignee'') n_assignee_update (n_assignee n) @
     opt_piece ''ticket_id'' (scalar_lines ''ticket_id'') n_ticket_id_update (n_ticket_id n) @
     opt_piece ''labels'' (list_lines ''labels'') n_labels_update (n_labels n) @
     opt_piece ''prompt'' (text_lines ''prompt'') n_prompt_update (n_prompt n) @
     opt_piece ''status'' (\<lambda>v. scalar_lines ''status'' (show_node_status v)) n_status_update (n_status n) @
     opt_piece ''stability'' (\<lambda>v. scalar_lines ''stability'' (show_stability v)) n_stability_update (n_stability n) @
     opt_piece ''priority'' (\<lambda>v. scalar_lines ''priority'' (show_priority v)) n_priority_update (n_priority n) @
     opt_piece ''confidence'' (\<lambda>v. scalar_lines ''confidence'' (show_confidence v)) n_confidence_update (n_confidence n) @
     opt_piece ''depends'' (list_lines ''depends'') n_depends_update (n_depends n) @
     opt_piece ''related_to'' (list_lines ''related_to'') n_related_to_update (n_related_to n) @
     opt_piece ''replaces'' (list_lines ''replaces'') n_replaces_update (n_replaces n) @
     opt_piece ''conflicts'' (list_lines ''conflicts'') n_conflicts_update (n_conflicts n) @
     opt_piece ''see_also'' (list_lines ''see_also'') n_see_also_update (n_see_also n) @
     opt_piece ''input'' (list_lines ''input'') n_input_update (n_input n) @
     opt_piece ''output'' (list_lines ''output'') n_output_update (n_output n) @
     [(''summary'', scalar_lines ''summary'' (n_summary n), n_summary_update (\<lambda>_. n_summary n))] @
     opt_piece ''items'' (list_lines ''items'') n_items_update (n_items n) @
     opt_piece ''steps'' (list_lines ''steps'') n_steps_update (n_steps n) @
     opt_piece ''fields'' (list_lines ''fields'') n_fields_update (n_fields n) @
     opt_piece ''code'' code_lines n_code_update (n_code n) @
     opt_piece ''code_blocks'' code_blocks_lines n_code_blocks_update (n_code_blocks n) @
     opt_piece ''verify'' verify_lines n_verify_update (n_verify n) @
     opt_piece ''agent_context'' agent_context_lines n_agent_context_update (n_agent_context n) @
     opt_piece ''target'' (scalar_lines ''target'') n_target_update (n_target n) @
     opt_piece ''memory'' memory_lines n_memory_update (n_memory n) @
     opt_piece ''execution_status'' (\<lambda>v. scalar_lines ''execution_status'' (show_execution_status v)) n_execution_status_update (n_execution_status n) @
     opt_piece ''executed_by'' (scalar_lines ''executed_by'') n_executed_by_update (n_executed_by n) @
     opt_piece ''executed_at'' (scalar_lines ''executed_at'') n_executed_at_update (n_executed_at n) @
     opt_piece ''execution_log'' (text_lines ''execution_log'') n_execution_log_update (n_execution_log n) @
     opt_piece ''retry_count'' (\<lambda>v. scalar_lines ''retry_count'' (show_word v)) n_retry_count_update (n_retry_count n) @
     opt_piece ''parallel_groups'' parallel_groups_lines n_parallel_groups_update (n_parallel_groups n) @
     opt_piece ''detail'' (text_lines ''detail'') n_detail_update (n_detail n) @
     opt_piece ''rationale'' (list_lines ''rationale'') n_rationale_update (n_rationale n) @
     opt_piece ''tradeoffs'' (list_lines ''tradeoffs'') n_tradeoffs_update (n_tradeoffs n) @
     opt_piece ''resolution'' (list_lines ''resolution'') n_resolution_update (n_resolution n) @
     opt_piece ''examples'' (text_lines ''examples'') n_examples_update (n_examples n) @
     opt_piece ''notes'' (text_lines ''notes'') n_notes_update (n_notes n) @
     opt_piece ''scope'' (list_lines ''scope'') n_scope_update (n_scope n) @
     opt_piece ''applies_when'' (text_lines ''applies_when'') n_applies_when_update (n_applies_when n) @
     opt_piece ''valid_from'' (scalar_lines ''valid_from'') n_valid_from_update (n_valid_from n) @
     opt_piece ''valid_until'' (scalar_lines ''valid_until'') n_valid_until_update (n_valid_until n) @
     opt_piece ''tags'' (list_lines ''tags'') n_tags_update (n_tags n) @
     opt_piece ''aliases'' (list_lines ''aliases'') n_aliases_update (n_aliases n) @
     opt_piece ''keywords'' (list_lines ''keywords'') n_keywords_update (n_keywords n) @
     map extra_piece (n_extra_fields n)"

definition node_fields_ok :: "node \<Rightarrow> bool" where
  "node_fields_ok n \<longleftrightarrow>
     pred_option text_ok (n_title n) \<and> pred_option text_ok (n_description n) \<and> pred_option scalar_ok (n_assignee n) \<and>
     pred_option scalar_ok (n_ticket_id n) \<and> pred_option list_ok (n_labels n) \<and> pred_option text_ok (n_prompt n) \<and>
     pred_option list_ok (n_depends n) \<and> pred_option list_ok (n_related_to n) \<and> pred_option list_ok (n_replaces n) \<and>
     pred_option list_ok (n_conflicts n) \<and> pred_option list_ok (n_see_also n) \<and> pred_option list_ok (n_input n) \<and>
     pred_option list_ok (n_output n) \<and> scalar_ok (n_summary n) \<and> pred_option list_ok (n_items n) \<and>
     pred_option list_ok (n_steps n) \<and> pred_option list_ok (n_fields n) \<and> pred_option scalar_ok (n_target n) \<and>
     pred_option scalar_ok (n_executed_by n) \<and> pred_option scalar_ok (n_executed_at n) \<and> pred_option text_ok (n_execution_log n) \<and>
     pred_option text_ok (n_detail n) \<and> pred_option list_ok (n_rationale n) \<and> pred_option list_ok (n_tradeoffs n) \<and>
     pred_option list_ok (n_resolution n) \<and> pred_option text_ok (n_examples n) \<and> pred_option text_ok (n_notes n) \<and>
     pred_option list_ok (n_scope n) \<and> pred_option text_ok (n_applies_when n) \<and> pred_option scalar_ok (n_valid_from n) \<and>
     pred_option scalar_ok (n_valid_until n) \<and> pred_option list_ok (n_tags n) \<and> pred_option list_ok (n_aliases n) \<and>
     pred_option list_ok (n_keywords n)"

definition node_structures_ok :: "node \<Rightarrow> bool" where
  "node_structures_ok n \<longleftrightarrow>
     pred_option (code_ok 2) (n_code n) \<and>
     pred_option (\<lambda>cs. list_all code_item_ok cs \<and> cs \<noteq> []) (n_code_blocks n) \<and>
     pred_option (\<lambda>cs. list_all verify_ok cs \<and> cs \<noteq> []) (n_verify n) \<and>
     pred_option context_ok (n_agent_context n) \<and>
     pred_option (\<lambda>es. list_all memory_entry_ok es \<and> es \<noteq> []) (n_memory n) \<and>
     pred_option (\<lambda>gs. list_all group_ok gs \<and> gs \<noteq> []) (n_parallel_groups n)"

lemma node_none:
  "n_title m = None \<Longrightarrow> n_title_update (\<lambda>_. None) m = m"
  "n_description m = None \<Longrightarrow> n_description_update (\<lambda>_. None) m = m"
  "n_action m = None \<Longrightarrow> n_action_update (\<lambda>_. None) m = m"
  "n_sdd_phase m = None \<Longrightarrow> n_sdd_phase_update (\<lambda>_. None) m = m"
  "n_assignee m = None \<Longrightarrow> n_assignee_update (\<lambda>_. None) m = m"
  "n_ticket_id m = None \<Longrightarrow> n_ticket_id_update (\<lambda>_. None) m = m"
  "n_labels m = None \<Longrightarrow> n_labels_update (\<lambda>_. None) m = m"
  "n_prompt m = None \<Longrightarrow> n_prompt_update (\<lambda>_. None) m = m"
  "n_status m = None \<Longrightarrow> n_status_update (\<lambda>_. None) m = m"
  "n_stability m = None \<Longrightarrow> n_stability_update (\<lambda>_. None) m = m"
  "n_priority m = None \<Longrightarrow> n_priority_update (\<lambda>_. None) m = m"
  "n_confidence m = None \<Longrightarrow> n_confidence_update (\<lambda>_. None) m = m"
  "n_depends m = None \<Longrightarrow> n_depends_update (\<lambda>_. None) m = m"
  "n_related_to m = None \<Longrightarrow> n_related_to_update (\<lambda>_. None) m = m"
  "n_replaces m = None \<Longrightarrow> n_replaces_update (\<lambda>_. None) m = m"
  "n_conflicts m = None \<Longrightarrow> n_conflicts_update (\<lambda>_. None) m = m"
  "n_see_also m = None \<Longrightarrow> n_see_also_update (\<lambda>_. None) m = m"
  "n_input m = None \<Longrightarrow> n_input_update (\<lambda>_. None) m = m"
  "n_output m = None \<Longrightarrow> n_output_update (\<lambda>_. None) m = m"
  "n_items m = None \<Longrightarrow> n_items_update (\<lambda>_. None) m = m"
  "n_steps m = None \<Longrightarrow> n_steps_update (\<lambda>_. None) m = m"
  "n_fields m = None \<Longrightarrow> n_fields_update (\<lambda>_. None) m = m"
  "n_code m = None \<Longrightarrow> n_code_update (\<lambda>_. None) m = m"
  "n_code_blocks m = None \<Longrightarrow> n_code_blocks_update (\<lambda>_. None) m = m"
  "n_verify m = None \<Longrightarrow> n_verify_update (\<lambda>_. None) m = m"
  "n_agent_context m = None \<Longrightarrow> n_agent_context_update (\<lambda>_. None) m = m"
  "n_target m = None \<Longrightarrow> n_target_update (\<lambda>_. None) m = m"
  "n_memory m = None \<Longrightarrow> n_memory_update (\<lambda>_. None) m = m"
  "n_execution_status m = None \<Longrightarrow> n_execution_status_update (\<lambda>_. None) m = m"
  "n_executed_by m = None \<Longrightarrow> n_executed_by_update (\<lambda>_. None) m = m"
  "n_executed_at m = None \<Longrightarrow> n_executed_at_update (\<lambda>_. None) m = m"
  "n_execution_log m = None \<Longrightarrow> n_execution_log_update (\<lambda>_. None) m = m"
  "n_retry_count m = None \<Longrightarrow> n_retry_count_update (\<lambda>_. None) m = m"
  "n_parallel_groups m = None \<Longrightarrow> n_parallel_groups_update (\<lambda>_. None) m = m"
  "n_detail m = None \<Longrightarrow> n_detail_update (\<lambda>_. None) m = m"
  "n_rationale m = None \<Longrightarrow> n_rationale_update (\<lambda>_. None) m = m"
  "n_tradeoffs m = None \<Longrightarrow> n_tradeoffs_update (\<lambda>_. None) m = m"
  "n_resolution m = None \<Longrightarrow> n_resolution_update (\<lambda>_. None) m = m"
  "n_examples m = None \<Longrightarrow> n_examples_update (\<lambda>_. None) m = m"
  "n_notes m = None \<Longrightarrow> n_notes_update (\<lambda>_. None) m = m"
  "n_scope m = None \<Longrightarrow> n_scope_update (\<lambda>_. None) m = m"
  "n_applies_when m = None \<Longrightarrow> n_applies_when_update (\<lambda>_. None) m = m"
  "n_valid_from m = None \<Longrightarrow> n_valid_from_update (\<lambda>_. None) m = m"
  "n_valid_until m = None \<Longrightarrow> n_valid_until_update (\<lambda>_. None) m = m"
  "n_tags m = None \<Longrightarrow> n_tags_update (\<lambda>_. None) m = m"
  "n_aliases m = None \<Longrightarrow> n_aliases_update (\<lambda>_. None) m = m"
  "n_keywords m = None \<Longrightarrow> n_keywords_update (\<lambda>_. None) m = m"
  by (cases m; simp)+

fun extra_ok :: "string \<times> field_value \<Rightarrow> bool" where
  "extra_ok (k, v) \<longleftrightarrow>
     key_ok k \<and> \<not> is_structured_field k \<and> k \<notin> set node_names \<and>
     (case v of FvScalar s \<Rightarrow> scalar_ok s | FvBlock s \<Rightarrow> nl \<in> set s \<and> block_ok s | FvList xs \<Rightarrow> list_ok xs)"

definition canonical_node :: "node \<Rightarrow> bool" where
  "canonical_node n \<longleftrightarrow>
     node_id_ok (n_id n) \<and> node_type_valid (n_type n) \<and> scalar_ok (show_node_type (n_type n)) \<and>
     node_fields_ok n \<and> node_structures_ok n \<and>
     list_all extra_ok (n_extra_fields n) \<and> bt_ok (n_extra_fields n)"

section \<open>Their lines\<close>

lemma piece_unlines:
  "unlines (piece_lines (opt_piece key (text_lines key) upd x)) = emit_opt_block_or_scalar key x"
  "unlines (piece_lines (opt_piece key (scalar_lines key) upd' x)) = emit_opt_scalar key x"
  "unlines (piece_lines (opt_piece key (\<lambda>v. scalar_lines key (shw v)) upd'' y)) = emit_opt_enum shw key y"
  "pred_option list_ok z \<Longrightarrow> unlines (piece_lines (opt_piece key (list_lines key) upd''' z)) = emit_opt_list key z"
  by (auto simp: opt_piece_lines text_unlines scalar_unlines list_unlines emit_opt_block_or_scalar_def emit_opt_scalar_def
      emit_opt_enum_def emit_opt_list_def emit_opt_def list_ok_def emit_list_raw_def split: option.split)

lemma emit_enum_id: "emit_opt_enum (\<lambda>v. v) key x = emit_opt_scalar key x"
  by (simp add: emit_opt_enum_def emit_opt_scalar_def)

lemma structure_unlines:
  "pred_option P x \<Longrightarrow> (\<And>v. P v \<Longrightarrow> unlines (write v) = emit v) \<Longrightarrow> unlines (piece_lines (opt_piece key write upd x)) = emit_opt emit x"
  by (auto simp: opt_piece_lines emit_opt_def split: option.split)

lemma extra_unlines: "extra_ok p \<Longrightarrow> unlines (fst (snd (extra_piece p))) = emit_extra_field p"
  by (cases p rule: extra_piece.cases)
    (auto simp: scalar_unlines text_unlines list_unlines emit_list_raw_def list_ok_def)

lemma extras_unlines: "list_all extra_ok es \<Longrightarrow> unlines (piece_lines (map extra_piece es)) = concat (map emit_extra_field es)"
  by (induction es) (simp_all add: extra_unlines)

lemma node_unlines:
  assumes "canonical_node n"
  shows "unlines ((''node '' @ n_id n) # piece_lines (node_pieces n)) = emit_node n"
proof -
  have lists: "pred_option list_ok (n_labels n)" "pred_option list_ok (n_depends n)" "pred_option list_ok (n_related_to n)"
    "pred_option list_ok (n_replaces n)" "pred_option list_ok (n_conflicts n)" "pred_option list_ok (n_see_also n)"
    "pred_option list_ok (n_input n)" "pred_option list_ok (n_output n)" "pred_option list_ok (n_items n)"
    "pred_option list_ok (n_steps n)" "pred_option list_ok (n_fields n)" "pred_option list_ok (n_rationale n)"
    "pred_option list_ok (n_tradeoffs n)" "pred_option list_ok (n_resolution n)" "pred_option list_ok (n_scope n)"
    "pred_option list_ok (n_tags n)" "pred_option list_ok (n_aliases n)" "pred_option list_ok (n_keywords n)"
    using assms by (simp_all add: canonical_node_def node_fields_ok_def)
  have structures: "unlines (piece_lines (opt_piece ''code'' code_lines u1 (n_code n))) = emit_opt (emit_code_block ''code'') (n_code n)"
    "unlines (piece_lines (opt_piece ''code_blocks'' code_blocks_lines u2 (n_code_blocks n))) = emit_opt emit_code_blocks (n_code_blocks n)"
    "unlines (piece_lines (opt_piece ''verify'' verify_lines u3 (n_verify n))) = emit_opt emit_verify_checks (n_verify n)"
    "unlines (piece_lines (opt_piece ''agent_context'' agent_context_lines u4 (n_agent_context n))) = emit_opt emit_agent_context (n_agent_context n)"
    "unlines (piece_lines (opt_piece ''memory'' memory_lines u5 (n_memory n))) = emit_opt emit_memory_entries (n_memory n)"
    "unlines (piece_lines (opt_piece ''parallel_groups'' parallel_groups_lines u6 (n_parallel_groups n))) = emit_opt emit_parallel_groups (n_parallel_groups n)"
    for u1 u2 u3 u4 u5 u6
    using assms unfolding canonical_node_def node_structures_ok_def
    by (auto elim!: structure_unlines simp: code_unlines code_blocks_unlines verify_unlines context_unlines memory_unlines groups_unlines)
  have extras: "unlines (piece_lines (map extra_piece (n_extra_fields n))) = concat (map emit_extra_field (n_extra_fields n))"
    using assms by (intro extras_unlines) (simp add: canonical_node_def)
  show ?thesis
    unfolding node_pieces_def emit_node_def pieces_simps(3)
    by (simp add: piece_unlines lists structures extras scalar_unlines emit_enum_id)
qed

section \<open>Their effects\<close>

lemma extras_apply:
  "bt_ok (n_extra_fields m @ es) \<Longrightarrow> apply_pieces (map extra_piece es) m = m\<lparr>n_extra_fields := n_extra_fields m @ es\<rparr>"
proof (induction es arbitrary: m)
  case (Cons p es)
  have "bt_insert (fst p) (snd p) (n_extra_fields m) = n_extra_fields m @ [p]"
    using Cons.prems bt_insert_append [of "n_extra_fields m" "fst p" "snd p"] by (auto simp: bt_ok_def sorted_wrt_append)
  moreover have "snd (snd (extra_piece p)) m = insert_extra (fst p) (snd p) m" by (cases p rule: extra_piece.cases) simp_all
  ultimately show ?case using Cons by (simp add: insert_extra_def)
qed simp

lemma node_pieces_apply:
  assumes "bt_ok (n_extra_fields n)"
  shows "apply_pieces (node_pieces n) (default_node (n_id n) k) = n\<lparr>n_span := span_new k k\<rparr>"
  unfolding node_pieces_def pieces_simps(6) default_node_def node_default_def
  using assms
  by (cases n) (simp add: opt_piece_apply node_none extras_apply)

section \<open>Their keys\<close>

lemma subseq_step: "subseq xs [k] \<Longrightarrow> subseq ys (ks @ es) \<Longrightarrow> subseq (xs @ ys) ((k # ks) @ es)"
  using list_emb_append_mono [of "(=)" xs "[k]" ys "ks @ es"] by simp

lemma extra_keys: "map fst (map extra_piece es) = map fst es"
proof (induction es)
  case (Cons p es)
  then show ?case by (cases p rule: extra_piece.cases) simp_all
qed simp

lemma node_keys: "subseq (map fst (node_pieces n)) (node_names @ map fst (n_extra_fields n))"
  unfolding node_pieces_def node_names_def map_append extra_keys
  by (intro subseq_step opt_piece_keys) simp_all

lemma node_names_distinct: "distinct node_names"
  by code_simp

lemma node_keys_distinct: "canonical_node n \<Longrightarrow> distinct (map fst (node_pieces n))"
proof -
  assume ok: "canonical_node n"
  have "set node_names \<inter> fst ` set (n_extra_fields n) = {}"
    using ok by (auto simp: canonical_node_def list_all_iff)
  then have "distinct (node_names @ map fst (n_extra_fields n))"
    using ok node_names_distinct by (simp add: canonical_node_def bt_ok_def strict_sorted_iff)
  then show ?thesis using node_keys [of n] by (auto simp: subseq_conv_nths intro: distinct_nthsI)
qed

section \<open>Their reading\<close>

lemma opt_reads:
  "(\<And>v. x = Some v \<Longrightarrow> node_reads pe (key, write v, upd (\<lambda>_. Some v))) \<Longrightarrow> list_all (node_reads pe) (opt_piece key write upd x)"
  by (simp add: opt_piece_def split: option.split)

lemma opt_reads_text:
  assumes "pred_option text_ok x" and "key_ok key" and "\<not> is_structured_field key"
    and "\<And>v number n. assign_scalar_field pe key v number n = (upd (\<lambda>_. Some v) n, [])"
    and "\<And>v n. assign_block_field key v n = upd (\<lambda>_. Some v) n"
  shows "list_all (node_reads pe) (opt_piece key (text_lines key) upd x)"
  using assms by (intro opt_reads node_reads_text) auto

lemma opt_reads_list:
  assumes "pred_option list_ok x" and "key_ok key" and "\<not> is_structured_field key"
    and "\<And>v n. assign_list_field key v n = upd (\<lambda>_. Some v) n"
  shows "list_all (node_reads pe) (opt_piece key (list_lines key) upd x)"
  using assms by (intro opt_reads node_reads_list) auto

lemma opt_reads_scalar:
  assumes "pred_option scalar_ok x" and "key_ok key"
    and "\<And>v number n. assign_scalar_field pe key v number n = (upd (\<lambda>_. Some v) n, [])"
  shows "list_all (node_reads pe) (opt_piece key (scalar_lines key) upd x)"
  using assms by (intro opt_reads node_reads_scalar) auto

lemma opt_reads_enum:
  assumes "\<And>v. scalar_ok (shw v)" and "key_ok key"
    and "\<And>v number n. assign_scalar_field pe key (shw v) number n = (upd (\<lambda>_. Some v) n, [])"
  shows "list_all (node_reads pe) (opt_piece key (\<lambda>v. scalar_lines key (shw v)) upd x)"
  using assms by (intro opt_reads node_reads_scalar) auto

lemma opt_reads_structure:
  assumes "pred_option P x" and "key_ok key" and "is_structured_field key"
    and "\<And>v. write v = (key @ '':'') # raws v" and "\<And>v. P v \<Longrightarrow> lexes (raws v)"
    and "\<And>v number n m rest. P v \<Longrightarrow> boundary rest \<Longrightarrow>
      \<exists>rest'. (rest' = rest \<or> rest' = skip_blanks rest) \<and>
        structured_node_field pe key number n (lexed m (raws v) @ rest) = ((upd (\<lambda>_. Some v) n, []), rest')"
  shows "list_all (node_reads pe) (opt_piece key write upd x)"
proof (rule opt_reads)
  fix v
  assume "x = Some v"
  then have "P v" using assms(1) by simp
  then show "node_reads pe (key, write v, upd (\<lambda>_. Some v))"
    unfolding assms(4) using assms(2,3,5) assms(6) [OF \<open>P v\<close>]
    by (intro node_reads_start) (auto simp: node_field_def)
qed

lemma extra_reads: "extra_ok p \<Longrightarrow> node_reads pe (extra_piece p)"
  by (cases p rule: extra_piece.cases)
    (auto simp: node_names_def assign_scalar_field_def assign_list_field_def assign_block_field_def text_lines_def
      intro!: node_reads_scalar node_reads_list node_reads_block)

lemma structures_read:
  assumes "node_structures_ok n"
  shows "list_all (node_reads pe) (opt_piece ''code'' code_lines n_code_update (n_code n))"
    "list_all (node_reads pe) (opt_piece ''code_blocks'' code_blocks_lines n_code_blocks_update (n_code_blocks n))"
    "list_all (node_reads pe) (opt_piece ''verify'' verify_lines n_verify_update (n_verify n))"
    "list_all (node_reads pe) (opt_piece ''agent_context'' agent_context_lines n_agent_context_update (n_agent_context n))"
    "list_all (node_reads pe) (opt_piece ''memory'' memory_lines n_memory_update (n_memory n))"
    "list_all (node_reads pe) (opt_piece ''parallel_groups'' parallel_groups_lines n_parallel_groups_update (n_parallel_groups n))"
proof -
  have objects: "lexes (concat (map (object_lines 2 \<circ> obj) xs))" if "\<And>x. x \<in> set xs \<Longrightarrow> object_ok 2 (obj x)" for obj xs
    using object_lines_lexes [of 2 "map obj xs"] that by (simp add: list_all_iff)
  note structured = structured_node_field_def with_parsed_def is_structured_field_def structured_field_names_def
  show "list_all (node_reads pe) (opt_piece ''code'' code_lines n_code_update (n_code n))"
    using assms
    by (intro opt_reads_structure [of "code_ok 2", OF _ _ _ code_lines_def])
      (auto simp: node_structures_ok_def structured code_reads intro: sub_chain_lexes code_chain_ok)
  show "list_all (node_reads pe) (opt_piece ''code_blocks'' code_blocks_lines n_code_blocks_update (n_code_blocks n))"
    using assms
    by (intro opt_reads_structure [of "\<lambda>cs. list_all code_item_ok cs \<and> cs \<noteq> []", OF _ _ _ code_blocks_lines_def])
      (auto simp: node_structures_ok_def structured code_blocks_read list_all_iff intro!: objects code_object_ok)
  show "list_all (node_reads pe) (opt_piece ''verify'' verify_lines n_verify_update (n_verify n))"
    using assms
    by (intro opt_reads_structure [of "\<lambda>cs. list_all verify_ok cs \<and> cs \<noteq> []", OF _ _ _ verify_lines_def])
      (auto simp: node_structures_ok_def structured verify_reads list_all_iff intro!: objects verify_object_ok)
  show "list_all (node_reads pe) (opt_piece ''agent_context'' agent_context_lines n_agent_context_update (n_agent_context n))"
    using assms
    by (intro opt_reads_structure [of context_ok, OF _ _ _ agent_context_lines_def])
      (auto simp: node_structures_ok_def structured context_reads intro: context_lexes)
  show "list_all (node_reads pe) (opt_piece ''memory'' memory_lines n_memory_update (n_memory n))"
    using assms
    by (intro opt_reads_structure [of "\<lambda>es. list_all memory_entry_ok es \<and> es \<noteq> []", OF _ _ _ memory_lines_def])
      (auto simp: node_structures_ok_def structured memory_reads list_all_iff intro!: objects memory_object_ok)
  show "list_all (node_reads pe) (opt_piece ''parallel_groups'' parallel_groups_lines n_parallel_groups_update (n_parallel_groups n))"
    using assms
    by (intro opt_reads_structure [of "\<lambda>gs. list_all group_ok gs \<and> gs \<noteq> []", OF _ _ _ parallel_groups_lines_def])
      (auto simp: node_structures_ok_def structured group_reads list_all_iff intro!: objects group_object_ok)
qed

lemma node_keys_ok [simp]:
  "key_ok ''title''" "key_ok ''description''" "key_ok ''sdd_phase''" "key_ok ''assignee''" "key_ok ''ticket_id''"
  "key_ok ''labels''" "key_ok ''prompt''" "key_ok ''stability''" "key_ok ''priority''" "key_ok ''confidence''"
  "key_ok ''depends''" "key_ok ''related_to''" "key_ok ''replaces''" "key_ok ''conflicts''" "key_ok ''see_also''"
  "key_ok ''input''" "key_ok ''output''" "key_ok ''summary''" "key_ok ''items''" "key_ok ''steps''" "key_ok ''fields''"
  "key_ok ''execution_status''" "key_ok ''executed_by''" "key_ok ''executed_at''" "key_ok ''execution_log''"
  "key_ok ''retry_count''" "key_ok ''detail''" "key_ok ''rationale''" "key_ok ''tradeoffs''" "key_ok ''resolution''"
  "key_ok ''examples''" "key_ok ''notes''" "key_ok ''applies_when''" "key_ok ''valid_from''" "key_ok ''valid_until''"
  "key_ok ''tags''" "key_ok ''aliases''" "key_ok ''keywords''"
  by code_simp+

lemma scalar_effects:
  "assign_scalar_field pe ''title'' v number m = (n_title_update (\<lambda>_. Some v) m, [])"
  "assign_scalar_field pe ''description'' v number m = (n_description_update (\<lambda>_. Some v) m, [])"
  "assign_scalar_field pe ''action'' (show_ticket_action (x2 :: ticket_action)) number m = (n_action_update (\<lambda>_. Some x2) m, [])"
  "assign_scalar_field pe ''sdd_phase'' (show_sdd_phase (x3 :: sdd_phase)) number m = (n_sdd_phase_update (\<lambda>_. Some x3) m, [])"
  "assign_scalar_field pe ''assignee'' v number m = (n_assignee_update (\<lambda>_. Some v) m, [])"
  "assign_scalar_field pe ''ticket_id'' v number m = (n_ticket_id_update (\<lambda>_. Some v) m, [])"
  "assign_scalar_field pe ''prompt'' v number m = (n_prompt_update (\<lambda>_. Some v) m, [])"
  "assign_scalar_field pe ''status'' (show_node_status (x7 :: node_status)) number m = (n_status_update (\<lambda>_. Some x7) m, [])"
  "assign_scalar_field pe ''stability'' (show_stability (x8 :: stability)) number m = (n_stability_update (\<lambda>_. Some x8) m, [])"
  "assign_scalar_field pe ''priority'' (show_priority (x9 :: priority)) number m = (n_priority_update (\<lambda>_. Some x9) m, [])"
  "assign_scalar_field pe ''confidence'' (show_confidence (x10 :: confidence)) number m = (n_confidence_update (\<lambda>_. Some x10) m, [])"
  "assign_scalar_field pe ''summary'' v number m = (n_summary_update (\<lambda>_. v) m, [])"
  "assign_scalar_field pe ''target'' v number m = (n_target_update (\<lambda>_. Some v) m, [])"
  "assign_scalar_field pe ''execution_status'' (show_execution_status (x13 :: execution_status)) number m = (n_execution_status_update (\<lambda>_. Some x13) m, [])"
  "assign_scalar_field pe ''executed_by'' v number m = (n_executed_by_update (\<lambda>_. Some v) m, [])"
  "assign_scalar_field pe ''executed_at'' v number m = (n_executed_at_update (\<lambda>_. Some v) m, [])"
  "assign_scalar_field pe ''execution_log'' v number m = (n_execution_log_update (\<lambda>_. Some v) m, [])"
  "assign_scalar_field pe ''retry_count'' (show_word (x17 :: 32 word)) number m = (n_retry_count_update (\<lambda>_. Some x17) m, [])"
  "assign_scalar_field pe ''detail'' v number m = (n_detail_update (\<lambda>_. Some v) m, [])"
  "assign_scalar_field pe ''examples'' v number m = (n_examples_update (\<lambda>_. Some v) m, [])"
  "assign_scalar_field pe ''notes'' v number m = (n_notes_update (\<lambda>_. Some v) m, [])"
  "assign_scalar_field pe ''applies_when'' v number m = (n_applies_when_update (\<lambda>_. Some v) m, [])"
  "assign_scalar_field pe ''valid_from'' v number m = (n_valid_from_update (\<lambda>_. Some v) m, [])"
  "assign_scalar_field pe ''valid_until'' v number m = (n_valid_until_update (\<lambda>_. Some v) m, [])"
  by (simp_all add: assign_scalar_field_def codec)

lemma block_effects:
  "assign_block_field ''title'' v m = n_title_update (\<lambda>_. Some v) m"
  "assign_block_field ''description'' v m = n_description_update (\<lambda>_. Some v) m"
  "assign_block_field ''prompt'' v m = n_prompt_update (\<lambda>_. Some v) m"
  "assign_block_field ''execution_log'' v m = n_execution_log_update (\<lambda>_. Some v) m"
  "assign_block_field ''detail'' v m = n_detail_update (\<lambda>_. Some v) m"
  "assign_block_field ''examples'' v m = n_examples_update (\<lambda>_. Some v) m"
  "assign_block_field ''notes'' v m = n_notes_update (\<lambda>_. Some v) m"
  "assign_block_field ''applies_when'' v m = n_applies_when_update (\<lambda>_. Some v) m"
  by (simp_all add: assign_block_field_def)

lemma list_effects:
  "assign_list_field ''labels'' xs m = n_labels_update (\<lambda>_. Some xs) m"
  "assign_list_field ''depends'' xs m = n_depends_update (\<lambda>_. Some xs) m"
  "assign_list_field ''related_to'' xs m = n_related_to_update (\<lambda>_. Some xs) m"
  "assign_list_field ''replaces'' xs m = n_replaces_update (\<lambda>_. Some xs) m"
  "assign_list_field ''conflicts'' xs m = n_conflicts_update (\<lambda>_. Some xs) m"
  "assign_list_field ''see_also'' xs m = n_see_also_update (\<lambda>_. Some xs) m"
  "assign_list_field ''input'' xs m = n_input_update (\<lambda>_. Some xs) m"
  "assign_list_field ''output'' xs m = n_output_update (\<lambda>_. Some xs) m"
  "assign_list_field ''items'' xs m = n_items_update (\<lambda>_. Some xs) m"
  "assign_list_field ''steps'' xs m = n_steps_update (\<lambda>_. Some xs) m"
  "assign_list_field ''fields'' xs m = n_fields_update (\<lambda>_. Some xs) m"
  "assign_list_field ''rationale'' xs m = n_rationale_update (\<lambda>_. Some xs) m"
  "assign_list_field ''tradeoffs'' xs m = n_tradeoffs_update (\<lambda>_. Some xs) m"
  "assign_list_field ''resolution'' xs m = n_resolution_update (\<lambda>_. Some xs) m"
  "assign_list_field ''scope'' xs m = n_scope_update (\<lambda>_. Some xs) m"
  "assign_list_field ''tags'' xs m = n_tags_update (\<lambda>_. Some xs) m"
  "assign_list_field ''aliases'' xs m = n_aliases_update (\<lambda>_. Some xs) m"
  "assign_list_field ''keywords'' xs m = n_keywords_update (\<lambda>_. Some xs) m"
  by (simp_all add: assign_list_field_def)

lemma not_structured:
  "\<not> is_structured_field ''title''"
  "\<not> is_structured_field ''description''"
  "\<not> is_structured_field ''labels''"
  "\<not> is_structured_field ''prompt''"
  "\<not> is_structured_field ''depends''"
  "\<not> is_structured_field ''related_to''"
  "\<not> is_structured_field ''replaces''"
  "\<not> is_structured_field ''conflicts''"
  "\<not> is_structured_field ''see_also''"
  "\<not> is_structured_field ''input''"
  "\<not> is_structured_field ''output''"
  "\<not> is_structured_field ''items''"
  "\<not> is_structured_field ''steps''"
  "\<not> is_structured_field ''fields''"
  "\<not> is_structured_field ''execution_log''"
  "\<not> is_structured_field ''detail''"
  "\<not> is_structured_field ''rationale''"
  "\<not> is_structured_field ''tradeoffs''"
  "\<not> is_structured_field ''resolution''"
  "\<not> is_structured_field ''examples''"
  "\<not> is_structured_field ''notes''"
  "\<not> is_structured_field ''scope''"
  "\<not> is_structured_field ''applies_when''"
  "\<not> is_structured_field ''tags''"
  "\<not> is_structured_field ''aliases''"
  "\<not> is_structured_field ''keywords''"
  by (simp_all add: is_structured_field_def structured_field_names_def)

lemma node_pieces_read:
  assumes "canonical_node n"
  shows "list_all (node_reads pe) (node_pieces n)"
proof -
  have fields: "node_fields_ok n" and structures: "node_structures_ok n" and extras: "list_all extra_ok (n_extra_fields n)"
    and type: "node_type_valid (n_type n)" "scalar_ok (show_node_type (n_type n))"
    using assms by (simp_all add: canonical_node_def)
  have "list_all (node_reads pe) (map extra_piece (n_extra_fields n))"
    using extras extra_reads by (auto simp: list_all_iff)
  moreover have "list_all (node_reads pe) [(''type'', scalar_lines ''type'' (show_node_type (n_type n)), n_type_update (\<lambda>_. n_type n))]"
    using type node_type.parse_print [of "n_type n"] by (simp add: node_reads_scalar assign_scalar_field_def)
  moreover have "list_all (node_reads pe) [(''summary'', scalar_lines ''summary'' (n_summary n), n_summary_update (\<lambda>_. n_summary n))]"
    using fields by (simp add: node_reads_scalar assign_scalar_field_def node_fields_ok_def)
  ultimately have pieces: "list_all (node_reads pe) (map extra_piece (n_extra_fields n))"
      "list_all (node_reads pe) [(''type'', scalar_lines ''type'' (show_node_type (n_type n)), n_type_update (\<lambda>_. n_type n))]"
      "list_all (node_reads pe) [(''summary'', scalar_lines ''summary'' (n_summary n), n_summary_update (\<lambda>_. n_summary n))]"
    by blast+
  note ok = fields [unfolded node_fields_ok_def]
  show ?thesis
    unfolding node_pieces_def list_all_append
    by (intro conjI pieces opt_reads_text opt_reads_list opt_reads_scalar opt_reads_enum structures_read [OF structures])
      (simp_all add: ok scalar_effects block_effects list_effects not_structured)
qed

end
