(* ===== verification/Canonical_Roundtrip.thy ===== *)
theory Canonical_Roundtrip
  imports Canonical_Nodes
begin

text \<open>
  The canonical text of a file parses back to the file, up to the spans of its nodes, and where
  it does not: what the renderer loses and what it writes so that the parser reads it otherwise.
\<close>

section \<open>The header\<close>

definition header_pieces :: "header \<Rightarrow> header_state piece list" where
  "header_pieces h =
     [(''agm'', scalar_lines ''agm'' (h_agm h), hs_agm_update (\<lambda>_. Some (h_agm h)))] @
     [(''package'', scalar_lines ''package'' (h_package h), hs_package_update (\<lambda>_. Some (h_package h)))] @
     [(''version'', scalar_lines ''version'' (h_version h), hs_version_update (\<lambda>_. Some (h_version h)))] @
     opt_piece ''title'' (scalar_lines ''title'') (\<lambda>f. on_header (h_title_update f)) (h_title h) @
     opt_piece ''owner'' (scalar_lines ''owner'') (\<lambda>f. on_header (h_owner_update f)) (h_owner h) @
     opt_piece ''imports'' (\<lambda>es. (''imports'' @ '':'') # item_lines 2 (map show_import_entry es))
       (\<lambda>f. on_header (h_imports_update f)) (h_imports h) @
     opt_piece ''default_load'' (scalar_lines ''default_load'') (\<lambda>f. on_header (h_default_load_update f)) (h_default_load h) @
     opt_piece ''description'' (text_lines ''description'') (\<lambda>f. on_header (h_description_update f)) (h_description h) @
     opt_piece ''tags'' (list_lines ''tags'') (\<lambda>f. on_header (h_tags_update f)) (h_tags h) @
     opt_piece ''status'' (scalar_lines ''status'') (\<lambda>f. on_header (h_status_update f)) (h_status h) @
     opt_piece ''load_profiles'' (\<lambda>ps. (''load_profiles'' @ '':'') # concat (map profile_lines ps))
       (\<lambda>f. on_header (h_load_profiles_update f)) (h_load_profiles h) @
     opt_piece ''target_runtime'' (scalar_lines ''target_runtime'') (\<lambda>f. on_header (h_target_runtime_update f)) (h_target_runtime h)"

definition canonical_header :: "parse_env \<Rightarrow> header \<Rightarrow> bool" where
  "canonical_header pe h \<longleftrightarrow>
     agm_version_ok (h_agm h) \<and> scalar_ok (h_agm h) \<and> package_ok (h_package h) \<and> scalar_ok (h_package h) \<and>
     pe_semver pe (h_version h) \<and> scalar_ok (h_version h) \<and>
     pred_option scalar_ok (h_title h) \<and> pred_option scalar_ok (h_owner h) \<and>
     pred_option (\<lambda>es. es \<noteq> [] \<and> list_all (\<lambda>e. import_entry_valid e \<and> clean (show_import_entry e)) es) (h_imports h) \<and>
     pred_option scalar_ok (h_default_load h) \<and> pred_option text_ok (h_description h) \<and> pred_option list_ok (h_tags h) \<and>
     pred_option scalar_ok (h_status h) \<and>
     pred_option (\<lambda>ps. ps \<noteq> [] \<and> bt_ok ps \<and> list_all profile_ok ps) (h_load_profiles h) \<and>
     pred_option scalar_ok (h_target_runtime h)"

lemma header_keys_ok [simp]: "key_ok ''agm''" "key_ok ''package''" "key_ok ''version''" "key_ok ''owner''" "key_ok ''imports''"
    "key_ok ''default_load''" "key_ok ''target_runtime''"
  by code_simp+

lemma header_effects [simp]:
  "header_effect (hs_agm_update f)" "header_effect (hs_package_update f)" "header_effect (hs_version_update f)"
  "header_effect (on_header g)"
  by (simp_all add: header_effect_def on_header_def)

lemma header_opt_reads:
  "(\<And>v. x = Some v \<Longrightarrow> header_reads pe (key, write v, upd (\<lambda>_. Some v))) \<Longrightarrow> list_all (header_reads pe) (opt_piece key write upd x)"
  by (simp add: opt_piece_def split: option.split)

lemma header_opt_scalar:
  assumes "pred_option scalar_ok x" and "key_ok key"
    and "\<And>v number s. header_scalar pe key v number s = (on_header (upd (\<lambda>_. Some v)) s, [])"
  shows "list_all (header_reads pe) (opt_piece key (scalar_lines key) (\<lambda>f. on_header (upd f)) x)"
  using assms by (intro header_opt_reads header_reads_scalar) auto

lemma imports_parse:
  "list_all (\<lambda>e. import_entry_valid e \<and> P e) es \<Longrightarrow> parse_imports pe (map show_import_entry es) number = (es, [])"
  by (induction es) (simp_all add: parse_show_import_entry)

lemma header_imports_read:
  assumes "es \<noteq> []" and "list_all (\<lambda>e. import_entry_valid e \<and> clean (show_import_entry e)) es"
  shows "header_reads pe (''imports'', (''imports'' @ '':'') # item_lines 2 (map show_import_entry es),
    on_header (h_imports_update (\<lambda>_. Some es)))"
  using assms imports_parse [OF assms(2)]
  by (intro header_reads_items) (auto simp: header_list_def list_all_iff)

lemma header_profiles_read:
  assumes "ps \<noteq> []" and "bt_ok ps" and "list_all profile_ok ps"
  shows "header_reads pe (''load_profiles'', (''load_profiles'' @ '':'') # concat (map profile_lines ps),
    on_header (h_load_profiles_update (\<lambda>_. Some ps)))"
proof (rule header_reads_start)
  fix number m rest and s :: header_state
  assume rest: "boundary rest"
  obtain p qs where p: "ps = p # qs" "profile_ok p" using assms(1,3) by (cases ps) auto
  then have "detect_base_indent (lexed m (concat (map profile_lines ps)) @ rest) = Some 2"
    using profile_line [OF p(2), of m] by (simp add: profile_lines_def del: spaces_literal)
  then have "parse_load_profiles pe (lexed m (concat (map profile_lines ps)) @ rest) = ((ps, []), skip_blanks rest)"
    using profiles_read [OF assms(3) rest, of "[]"] assms(2) by (simp add: parse_load_profiles_def)
  then show "\<exists>rest'. (rest' = rest \<or> rest' = skip_blanks rest) \<and>
      header_field pe ''load_profiles'' number s (lexed m (concat (map profile_lines ps)) @ rest) =
        Some ((on_header (h_load_profiles_update (\<lambda>_. Some ps)) s, []), rest')"
    by (auto simp: header_field_def)
qed (use profile_lexes [OF assms(3)] in simp_all)

lemma header_pieces_read:
  assumes "canonical_header pe h"
  shows "list_all (header_reads pe) (header_pieces h)"
proof -
  note ok = assms [unfolded canonical_header_def]
  have "header_reads pe (''agm'', scalar_lines ''agm'' (h_agm h), hs_agm_update (\<lambda>_. Some (h_agm h)))"
    using ok by (intro header_reads_scalar) (simp_all add: header_scalar_def validate_agm_format_def)
  moreover have "header_reads pe (''package'', scalar_lines ''package'' (h_package h), hs_package_update (\<lambda>_. Some (h_package h)))"
    using ok by (intro header_reads_scalar) (simp_all add: header_scalar_def validate_package_format_def)
  moreover have "header_reads pe (''version'', scalar_lines ''version'' (h_version h), hs_version_update (\<lambda>_. Some (h_version h)))"
    using ok by (intro header_reads_scalar) (simp_all add: header_scalar_def validate_version_format_def)
  moreover have "list_all (header_reads pe) (opt_piece ''imports'' (\<lambda>es. (''imports'' @ '':'') # item_lines 2 (map show_import_entry es))
       (\<lambda>f. on_header (h_imports_update f)) (h_imports h))"
    using ok by (intro header_opt_reads header_imports_read) auto
  moreover have "list_all (header_reads pe) (opt_piece ''load_profiles'' (\<lambda>ps. (''load_profiles'' @ '':'') # concat (map profile_lines ps))
       (\<lambda>f. on_header (h_load_profiles_update f)) (h_load_profiles h))"
    using ok by (intro header_opt_reads header_profiles_read) auto
  moreover have "list_all (header_reads pe) (opt_piece ''description'' (text_lines ''description'')
       (\<lambda>f. on_header (h_description_update f)) (h_description h))"
    using ok by (intro header_opt_reads header_reads_text) auto
  moreover have "list_all (header_reads pe) (opt_piece ''tags'' (list_lines ''tags'') (\<lambda>f. on_header (h_tags_update f)) (h_tags h))"
    using ok by (intro header_opt_reads header_reads_list) (auto simp: header_list_def)
  moreover have "list_all (header_reads pe) (opt_piece key (scalar_lines key) (\<lambda>f. on_header (upd f)) x)"
    if "pred_option scalar_ok x" "key_ok key"
      "\<And>v number s. header_scalar pe key v number s = (on_header (upd (\<lambda>_. Some v)) s, [])" for key x upd
    using that by (rule header_opt_scalar)
  ultimately show ?thesis
    unfolding header_pieces_def using ok by (simp add: header_scalar_def)
qed

lemma header_piece_unlines: "canonical_header pe h \<Longrightarrow> unlines (piece_lines (header_pieces h)) = emit_header h"
proof -
  assume ok: "canonical_header pe h"
  have imps: "unlines (piece_lines (opt_piece ''imports'' (\<lambda>es. (''imports'' @ '':'') # item_lines 2 (map show_import_entry es)) u (h_imports h))) =
      emit_opt emit_imports (h_imports h)" for u :: "(import_entry list option \<Rightarrow> import_entry list option) \<Rightarrow> header_state \<Rightarrow> header_state"
    using ok unfolding canonical_header_def
    by (auto elim!: structure_unlines simp: emit_imports_def item_lines_def unlines_map o_def)
  have profile: "unlines (profile_lines p) =
      ''  '' @ fst p @ '':'' @ [nl] @ ''    filter: '' @ lp_filter (snd p) @ [nl] @
      emit_opt (\<lambda>est. ''    estimated_tokens: '' @ show_token_estimate est @ [nl]) (lp_estimated_tokens (snd p))" for p
    by (simp add: profile_lines_def profile_subs_def) (simp add: emit_scalar_def)
  have profiles: "unlines (piece_lines (opt_piece ''load_profiles'' (\<lambda>ps. (''load_profiles'' @ '':'') # concat (map profile_lines ps)) u (h_load_profiles h))) =
      emit_opt emit_load_profiles (h_load_profiles h)"
    for u :: "((string, load_profile) btree option \<Rightarrow> (string, load_profile) btree option) \<Rightarrow> header_state \<Rightarrow> header_state"
    using ok unfolding canonical_header_def
    by (auto elim!: structure_unlines simp: emit_load_profiles_def unlines_concat profile case_prod_beta' o_def)
  have tags: "pred_option list_ok (h_tags h)" using ok by (simp add: canonical_header_def)
  show ?thesis
    unfolding header_pieces_def emit_header_def pieces_simps(3)
    by (simp add: piece_unlines tags imps [simplified] profiles [simplified] scalar_unlines emit_enum_id)
qed

lemma header_none:
  "hs_header s = h \<Longrightarrow> upd (\<lambda>_. None) h = h \<Longrightarrow> on_header (upd (\<lambda>_. None)) s = s"
  by (simp add: on_header_def)

lemma header_pieces_apply:
  "header_finish (apply_pieces (header_pieces h) header_start) = (h, [])"
  by (cases h)
    (simp add: header_pieces_def opt_piece_apply header_none header_start_def header_empty_def header_finish_def
      header_missing_def on_header_def)

lemma header_keys: "distinct (map fst (header_pieces h))"
proof -
  have "subseq (map fst (header_pieces h)) ([''agm'', ''package'', ''version'', ''title'', ''owner'', ''imports'', ''default_load'',
      ''description'', ''tags'', ''status'', ''load_profiles'', ''target_runtime''] @ [])"
    unfolding header_pieces_def map_append
    by (intro subseq_step opt_piece_keys) (simp_all add: opt_piece_keys)
  then show ?thesis by (auto simp: subseq_conv_nths intro: distinct_nthsI)
qed

section \<open>Nodes and the file\<close>

definition node_lines_of :: "node \<Rightarrow> string list" where
  "node_lines_of n = [] # (''node '' @ n_id n) # piece_lines (node_pieces n)"

text \<open>Two nodes and two files that differ in spans only.\<close>

definition same_node :: "node \<Rightarrow> node \<Rightarrow> bool" where
  "same_node m n \<longleftrightarrow> m\<lparr>n_span := span_new 0 0\<rparr> = n\<lparr>n_span := span_new 0 0\<rparr>"

definition same_file :: "agm_file \<Rightarrow> agm_file \<Rightarrow> bool" where
  "same_file f g \<longleftrightarrow> f_header f = f_header g \<and> list_all2 same_node (f_nodes f) (f_nodes g)"

text \<open>A file whose canonical text says what it is.\<close>

definition canonical_file :: "parse_env \<Rightarrow> agm_file \<Rightarrow> bool" where
  "canonical_file pe f \<longleftrightarrow> canonical_header pe (f_header f) \<and> f_nodes f \<noteq> [] \<and> list_all canonical_node (f_nodes f)"

lemma split_char_cover: "c \<in> set s \<Longrightarrow> c = d \<or> (\<exists>p \<in> set (split_char d s). c \<in> set p)"
  by (induction s) (auto split: list.splits)

lemma node_id_chars:
  assumes "node_id_ok s" and "c \<in> set s"
  shows "graphic c"
proof -
  have segment: "graphic c" if "segment_ok p" "c \<in> set p" for p
    using that by (auto simp: segment_ok_def is_lower_def is_digit_def graphic_def byte_def list_all_iff split: list.splits)
  show ?thesis
    using split_char_cover [OF assms(2), of "CHR ''.''"]
  proof
    assume "\<exists>p \<in> set (split_char CHR ''.'' s). c \<in> set p"
    then obtain p where p: "p \<in> set (split_char CHR ''.'' s)" "c \<in> set p" by blast
    then show ?thesis
      using split_char_cover [OF p(2), of "CHR ''-''"] segment assms(1)
      by (auto simp: node_id_ok_def list_all_iff graphic_def byte_def)
  qed (simp add: graphic_def byte_def)
qed

lemma node_id_plain: "node_id_ok s \<Longrightarrow> plain s"
proof -
  assume ok: "node_id_ok s"
  then have "s \<noteq> []" by (auto simp: node_id_ok_def segment_ok_def)
  moreover have "\<not> graphic tab" "\<not> graphic nl" "\<not> graphic cr" by (simp_all add: graphic_def byte_def)
  then have "tab \<notin> set s" "nl \<notin> set s" "last s \<noteq> cr"
    using node_id_chars [OF ok] last_in_set [OF \<open>s \<noteq> []\<close>] by metis+
  moreover have "graphic (hd s)" "graphic (last s)" using node_id_chars [OF ok] \<open>s \<noteq> []\<close> by simp_all
  ultimately show ?thesis by (simp add: plain_def clean_def line_ok_def)
qed

lemma node_line:
  assumes "node_id_ok i"
  shows "classify_line (''node '' @ i) n = Inr (agm_line_of (LkNode i) n 0 (''node '' @ i))"
    and "clean (''node '' @ i)"
proof -
  have i: "plain i" by (rule node_id_plain [OF assms])
  then have "trim (''node '' @ i) = ''node '' @ i" by (intro trim_visible) (simp_all add: plain_def graphic_def byte_def)
  moreover have "count_indent (''node '' @ i) = 0" using count_indent_spaces [of "''node '' @ i" 0] by simp
  ultimately show "classify_line (''node '' @ i) n = Inr (agm_line_of (LkNode i) n 0 (''node '' @ i))"
    using i plain_no_tab [OF i] by (simp add: classify_line_def Let_def)
  show "clean (''node '' @ i)" using i by (intro clean_append) (simp_all add: plain_def)
qed

lemma parse_nodes_skip: "parse_nodes pe (skip_blanks ls) = parse_nodes pe ls"
  by (induction ls) (simp_all add: parse_nodes.simps)

text \<open>What follows a node: the end, or blank lines and a node.\<close>

definition node_ahead :: "agm_line list \<Rightarrow> bool" where
  "node_ahead ls \<longleftrightarrow> (case skip_blanks ls of [] \<Rightarrow> True | l # _ \<Rightarrow> is_node l \<and> ln_indent l = 0)"

lemma node_ahead_boundary: "node_ahead ls \<Longrightarrow> boundary ls"
  by (auto simp: node_ahead_def boundary_def split: list.splits)

lemma loop_at_node: "node_ahead ls \<Longrightarrow> node_loop pe b (skip_blanks ls) = Some ((b, []), skip_blanks ls)"
  by (auto simp: node_ahead_def node_loop.simps split: list.splits)

lemma header_at_node: "node_ahead ls \<Longrightarrow> header_loop pe s (skip_blanks ls) = Some ((s, []), skip_blanks ls)"
  by (auto simp: node_ahead_def header_loop.simps split: list.splits)

lemma node_reads_back:
  assumes "canonical_node n" and "node_ahead rest"
  shows "\<exists>m. parse_node pe (agm_line_of (LkNode (n_id n)) k 0 raw # lexed (Suc k) (piece_lines (node_pieces n)) @ rest) =
      Some ((m, []), skip_blanks rest) \<and> same_node n m"
proof -
  let ?b = "\<lparr>nb_node = default_node (n_id n) k, nb_seen = [], nb_last = k\<rparr>"
  obtain b where b: "nb_node b = apply_pieces (node_pieces n) (nb_node ?b)"
      "node_loop pe ?b (lexed (Suc k) (piece_lines (node_pieces n)) @ rest) = node_loop pe b (skip_blanks rest)"
    using node.loop_pieces [OF node_pieces_read [OF assms(1)] node_keys_distinct [OF assms(1)] _ node_ahead_boundary [OF assms(2)],
        where s = ?b and n = "Suc k"] by auto
  have "nb_node b = n\<lparr>n_span := span_new k k\<rparr>"
    using b(1) node_pieces_apply [of n k] assms(1) by (simp add: canonical_node_def)
  moreover have "node_id_errors pe (n_id n) k = []"
    using assms(1) node_id_plain by (auto simp: node_id_errors_def canonical_node_def plain_def)
  ultimately show ?thesis
    using b(2) loop_at_node [OF assms(2), of pe b] by (simp add: parse_node_def same_node_def)
qed

lemma nodes_ahead:
  assumes "list_all canonical_node ns"
  shows "node_ahead (lexed k (concat (map node_lines_of ns)))"
proof (cases ns)
  case (Cons n ns')
  then have id: "node_id_ok (n_id n)" using assms by (simp add: canonical_node_def)
  show ?thesis
    using Cons classify_blank_line [of 0 k] node_line(1) [OF id, of "Suc k"]
    by (simp add: node_lines_of_def node_ahead_def is_blank_def is_node_def)
qed (simp add: node_ahead_def)

lemma nodes_read_back:
  assumes "list_all canonical_node ns"
  shows "\<exists>ms. parse_nodes pe (lexed k (concat (map node_lines_of ns))) = Some (ms, []) \<and> list_all2 same_node ns ms"
  using assms
proof (induction ns arbitrary: k)
  case (Cons n ns)
  let ?k = "Suc (Suc k) + length (piece_lines (node_pieces n))"
  let ?rest = "lexed ?k (concat (map node_lines_of ns))"
  let ?l = "agm_line_of (LkNode (n_id n)) (Suc k) 0 (''node '' @ n_id n)"
  have id: "node_id_ok (n_id n)" and n: "canonical_node n" using Cons.prems by (simp_all add: canonical_node_def)
  have ahead: "node_ahead ?rest" using Cons.prems by (intro nodes_ahead) simp
  obtain m where m: "parse_node pe (?l # lexed (Suc (Suc k)) (piece_lines (node_pieces n)) @ ?rest) =
      Some ((m, []), skip_blanks ?rest)" "same_node n m"
    using node_reads_back [OF n ahead] by blast
  obtain ms where ms: "parse_nodes pe ?rest = Some (ms, [])" "list_all2 same_node ns ms" using Cons by auto
  have "parse_nodes pe (?l # lexed (Suc (Suc k)) (piece_lines (node_pieces n)) @ ?rest) = Some (m # ms, [])"
    using m(1) ms(1) parse_nodes_skip [of pe ?rest]
    by (subst parse_nodes.simps) (simp add: is_blank_def is_comment_def is_node_def)
  moreover have "lexed k (concat (map node_lines_of (n # ns))) =
      agm_line_of LkBlank k 0 [] # ?l # lexed (Suc (Suc k)) (piece_lines (node_pieces n)) @ ?rest"
    using classify_blank_line [of 0 k] node_line(1) [OF id, of "Suc k"] by (simp add: node_lines_of_def)
  moreover have "parse_nodes pe (agm_line_of LkBlank k 0 [] # ls) = parse_nodes pe ls" for ls
    by (simp add: parse_nodes.simps is_blank_def)
  ultimately show ?case using m(2) ms(2) by auto
qed (simp add: parse_nodes.simps)

lemma header_reads_back:
  assumes "canonical_header pe h" and "node_ahead rest"
  shows "parse_header pe (lexed k (piece_lines (header_pieces h)) @ rest) = Some ((h, []), skip_blanks rest)"
proof -
  obtain s where s: "header_value s = apply_pieces (header_pieces h) (header_value header_start)"
      "header_loop pe header_start (lexed k (piece_lines (header_pieces h)) @ rest) = header_loop pe s (skip_blanks rest)"
    using header.loop_pieces [OF header_pieces_read [OF assms(1)] header_keys _ node_ahead_boundary [OF assms(2)],
        where s = header_start and n = k] by (auto simp: header_start_def)
  have "header_finish s = header_finish (header_value s)" by (simp add: header_finish_def header_value_def)
  also have "\<dots> = (h, [])"
    using s(1) header_pieces_apply [of h] by (simp add: header_value_def header_start_def)
  finally show ?thesis using s(2) header_at_node [OF assms(2), of pe s] by (simp add: parse_header_def)
qed

text \<open>The text of a canonical file, and what the lexer makes of it.\<close>

definition file_lines :: "agm_file \<Rightarrow> string list" where
  "file_lines f = piece_lines (header_pieces (f_header f)) @ concat (map node_lines_of (f_nodes f))"

lemma file_unlines:
  assumes "canonical_file pe f"
  shows "render_canonical f = unlines (file_lines f)"
proof -
  have "unlines (concat (map node_lines_of (f_nodes f))) = concat (map (\<lambda>n. nl # emit_node n) (f_nodes f))"
    using assms node_unlines
    by (auto simp: canonical_file_def list_all_iff unlines_concat node_lines_of_def intro!: arg_cong [of _ _ concat])
  then have buf: "emit_header (f_header f) @ concat (map (\<lambda>n. nl # emit_node n) (f_nodes f)) = unlines (file_lines f)"
    using assms header_piece_unlines [of pe "f_header f"] by (simp add: canonical_file_def file_lines_def)
  have "file_lines f \<noteq> []" by (simp add: file_lines_def header_pieces_def scalar_lines_def)
  then have "ends_with [nl] (unlines (file_lines f))"
    by (cases "file_lines f" rule: rev_cases) (simp_all add: ends_with_def strip_suffix_def)
  then show ?thesis unfolding render_canonical_def Let_def buf by simp
qed

lemma file_lexes: "canonical_file pe f \<Longrightarrow> lexes (file_lines f)"
proof -
  assume ok: "canonical_file pe f"
  have "lexes (node_lines_of n)" if "canonical_node n" for n
    using that node.reads_lines [OF node_pieces_read [OF that]] node_line [of "n_id n"] classify_blank_line [of 0]
    by (simp add: node_lines_of_def canonical_node_def)
  then have "lexes (concat (map node_lines_of ns))" if "list_all canonical_node ns" for ns
    using that by (induction ns) auto
  then show ?thesis
    using ok header.reads_lines [OF header_pieces_read, of pe "f_header f"] by (simp add: canonical_file_def file_lines_def)
qed

lemma same_node_emit: "same_node m n \<Longrightarrow> emit_node m = emit_node n"
  by (cases m; cases n) (simp add: same_node_def emit_node_def)

lemma same_file_render: "same_file f g \<Longrightarrow> render_canonical g = render_canonical f"
proof -
  have "map emit_node ms = map emit_node ns" if "list_all2 same_node ns ms" for ns ms
    using that by (induction rule: list_all2_induct) (simp_all add: same_node_emit [symmetric])
  then have nodes: "map (\<lambda>n. nl # emit_node n) ms = map (\<lambda>n. nl # emit_node n) ns" if "list_all2 same_node ns ms" for ns ms
    using that map_map [of "Cons nl" emit_node] by (metis (no_types, lifting) comp_apply list.map_cong0)
  show "same_file f g \<Longrightarrow> render_canonical g = render_canonical f"
    using nodes [of "f_nodes f" "f_nodes g"] by (simp add: same_file_def render_canonical_def)
qed

lemma canonical_parses_back:
  assumes "canonical_file pe f"
  shows "\<exists>g. parse pe (render_canonical f) = Some (Inr g) \<and> same_file f g"
proof -
  have lexes: "lexes (file_lines f)" by (rule file_lexes [OF assms])
  then have "str_lines (render_canonical f) = file_lines f"
    unfolding file_unlines [OF assms] by (intro str_lines_unlines) (simp add: lexes_def clean_def)
  then have lex: "lex (render_canonical f) = Inr (lexed 1 (file_lines f))"
    using lexes_no_errors [OF lexes, of 1] by (simp add: lex_def lexed_def case_prod_beta)
  let ?k = "1 + length (piece_lines (header_pieces (f_header f)))"
  let ?rest = "lexed ?k (concat (map node_lines_of (f_nodes f)))"
  have nodes: "list_all canonical_node (f_nodes f)" "f_nodes f \<noteq> []" "canonical_header pe (f_header f)"
    using assms by (simp_all add: canonical_file_def)
  obtain ms where ms: "parse_nodes pe ?rest = Some (ms, [])" "list_all2 same_node (f_nodes f) ms"
    using nodes_read_back [OF nodes(1)] by blast
  have "parse_header pe (lexed 1 (file_lines f)) = Some ((f_header f, []), skip_blanks ?rest)"
    using header_reads_back [OF nodes(3) nodes_ahead [OF nodes(1)], of 1 ?k] by (simp add: file_lines_def)
  moreover have "ms \<noteq> []" using ms(2) nodes(2) by auto
  ultimately have "parse pe (render_canonical f) = Some (Inr \<lparr>f_header = f_header f, f_nodes = ms\<rparr>)"
    using ms(1) parse_nodes_skip [of pe ?rest] by (simp add: parse_def lex parse_lines_def file_result_def)
  then show ?thesis using ms(2) by (simp add: same_file_def)
qed

section \<open>Properties\<close>

text \<open>A file with fields of every kind.\<close>

definition sample_block :: code_block where
  "sample_block =
     \<lparr>cb_lang = Some ''rust'', cb_target = Some ''src/a.rs'', cb_action = CaReplace, cb_body = ''fn a() {'' @ [nl] @ ''  1'' @ [nl, nl] @ ''}'',
      cb_anchor = Some ''fn a'', cb_old = Some (''fn a() {'' @ [nl] @ ''}'')\<rparr>"

definition sample_node :: node where
  "sample_node = node_default
     \<lparr>n_id := ''auth.login'', n_type := NtWorkflow, n_summary := ''log in'', n_priority := Some PriCritical,
      n_depends := Some [''auth.user'', ''auth.token''], n_steps := Some [''read'', ''check, twice'', ''answer'', ''log''],
      n_detail := Some (''first'' @ [nl, nl] @ ''  then more''), n_code := Some sample_block, n_code_blocks := Some [sample_block],
      n_verify := Some [VcCommand ''cargo test'' (Some ''exit_code_0''), VcFileContains ''a'' ''b''],
      n_agent_context := Some \<lparr>ac_load_nodes = Some [''auth.user''],
        ac_load_files = Some [\<lparr>lf_path = ''src/a.rs'', lf_range = RangeLines 3 9\<rparr>], ac_system_hint = Some ''be brief'',
        ac_max_tokens = Some 500, ac_load_memory = None\<rparr>,
      n_memory := Some [\<lparr>me_key = ''k'', me_topic = ''t'', me_action = MaUpsert, me_value = Some ''v'', me_scope = None, me_ttl = None,
        me_query = None, me_max_results = Some 3, me_extra_fields = []\<rparr>],
      n_parallel_groups := Some [\<lparr>pg_group = ''g'', pg_nodes = [''a'', ''b'', ''c'', ''d''], pg_strategy = Parallel, pg_requires = None,
        pg_max_concurrency = None\<rparr>],
      n_retry_count := Some 2, n_extra_fields := [(''owner_team'', FvScalar ''core'')]\<rparr>"

definition sample_file :: agm_file where
  "sample_file =
     \<lparr>f_header = \<lparr>h_agm = ''1.0'', h_package = ''a.b'', h_version = ''0.1.0'', h_title = Some ''A title'', h_owner = None,
        h_imports = Some [\<lparr>imp_package = ''c'', imp_version_constraint = Some ''^1''\<rparr>], h_default_load = None,
        h_description = Some (''x'' @ [nl] @ ''y''), h_tags = Some [''t'', ''u''], h_status = None,
        h_load_profiles = Some [(''small'', \<lparr>lp_filter = ''type:facts'', lp_estimated_tokens = Some (TeCount 9)\<rparr>)],
        h_target_runtime = None\<rparr>,
      f_nodes = [sample_node]\<rparr>"

lemma pred_option_code [code]: "pred_option P None \<longleftrightarrow> True" "pred_option P (Some x) \<longleftrightarrow> P x"
  by simp_all

lemma import_entry_valid_code [code]:
  "import_entry_valid e \<longleftrightarrow>
     imp_package e \<noteq> [] \<and> trim (imp_package e) = imp_package e \<and> CHR ''@'' \<notin> set (imp_package e) \<and>
     trim (show_import_entry e) = show_import_entry e \<and>
     pred_option (\<lambda>c. c \<noteq> [] \<and> trim c = c) (imp_version_constraint e)"
  by (cases "imp_version_constraint e") (simp_all add: import_entry_valid_def)

lemma sample_canonical: "canonical_file sample_pe sample_file"
  by code_simp

text \<open>
  C3: the canonical text of a file is accepted by the parser and gives the same header and the
  same nodes with every field, up to spans, provided the values can stand where the renderer
  writes them (\<open>canonical_file\<close>); hence rendering the parsed file gives the same text again.
\<close>

theorem canonical_roundtrip:
  assumes "canonical_file pe f"
  shows "\<exists>g. parse pe (render_canonical f) = Some (Inr g) \<and> same_file f g \<and> render_canonical g = render_canonical f"
  using canonical_parses_back [OF assms] same_file_render by metis

theorem canonical_roundtrip_witness:
  "\<exists>g. parse sample_pe (render_canonical sample_file) = Some (Inr g) \<and> same_file sample_file g \<and>
     render_canonical g = render_canonical sample_file"
  by (rule canonical_roundtrip [OF sample_canonical])

text \<open>What the renderer leaves out of a list of code blocks: the target of a block without a language.\<close>

definition forget_target :: "code_block \<Rightarrow> code_block" where
  "forget_target cb = (if cb_lang cb = None then cb\<lparr>cb_target := None\<rparr> else cb)"

definition forget_targets :: "agm_file \<Rightarrow> agm_file" where
  "forget_targets f =
     f\<lparr>f_nodes := map (\<lambda>n. n\<lparr>n_code_blocks := map_option (map forget_target) (n_code_blocks n)\<rparr>) (f_nodes f)\<rparr>"

lemma forget_blocks: "emit_code_blocks (map forget_target cbs) = emit_code_blocks cbs"
proof -
  have "cb_lang (forget_target cb) = cb_lang cb" "cb_action (forget_target cb) = cb_action cb"
      "cb_body (forget_target cb) = cb_body cb" "cb_anchor (forget_target cb) = cb_anchor cb"
      "cb_old (forget_target cb) = cb_old cb" "cb_lang cb \<noteq> None \<Longrightarrow> forget_target cb = cb" for cb
    by (auto simp: forget_target_def)
  then show ?thesis by (auto simp: emit_code_blocks_def intro!: arg_cong [of _ _ concat] split: option.split)
qed

lemma forget_render: "render_canonical (forget_targets f) = render_canonical f"
proof -
  have "emit_opt emit_code_blocks (map_option (map forget_target) x) = emit_opt emit_code_blocks x" for x
    by (cases x) (simp_all add: emit_opt_def forget_blocks)
  then have "emit_node (n\<lparr>n_code_blocks := map_option (map forget_target) (n_code_blocks n)\<rparr>) = emit_node n" for n
    by (simp add: emit_node_def)
  then show ?thesis by (simp add: render_canonical_def forget_targets_def o_def)
qed

definition targeted_file :: agm_file where
  "targeted_file = sample_file\<lparr>f_nodes := [sample_node\<lparr>n_code_blocks := Some [sample_block\<lparr>cb_lang := None\<rparr>]\<rparr>]\<rparr>"

text \<open>
  C36: a code block in a list that names a target file but no language loses its target: the
  canonical text parses to the file without it.
\<close>

theorem canonical_loses_target:
  assumes "canonical_file pe (forget_targets f)"
  shows "\<exists>g. parse pe (render_canonical f) = Some (Inr g) \<and> same_file (forget_targets f) g"
  using canonical_parses_back [OF assms] by (simp add: forget_render)

theorem canonical_loses_target_witness:
  "(\<exists>g. parse sample_pe (render_canonical targeted_file) = Some (Inr g) \<and> same_file (forget_targets targeted_file) g) \<and>
   map n_code_blocks (f_nodes (forget_targets targeted_file)) \<noteq> map n_code_blocks (f_nodes targeted_file)"
proof
  show "\<exists>g. parse sample_pe (render_canonical targeted_file) = Some (Inr g) \<and> same_file (forget_targets targeted_file) g"
    by (rule canonical_loses_target) code_simp
  show "map n_code_blocks (f_nodes (forget_targets targeted_file)) \<noteq> map n_code_blocks (f_nodes targeted_file)"
    by (simp add: forget_targets_def targeted_file_def forget_target_def sample_block_def)
qed

end
