(* ===== verification/State_Sidecar.thy ===== *)
theory State_Sidecar
  imports Sidecar
begin

text \<open>
  The \<open>.agm.state\<close> sidecar: \<open>crates/agm-core/src/parser/state.rs\<close> and the text and SQL
  renderers of \<open>crates/agm-core/src/renderer/state.rs\<close>. The parser's position in the
  list of lines is the list of the lines that are left. The theorems: what is rendered
  parses back, for every state whose strings one line can carry.
\<close>

section \<open>The parser\<close>

record state_headers =
  sh_format_version :: "string option"
  sh_package :: "string option"
  sh_version :: "string option"
  sh_session_id :: "string option"
  sh_started_at :: "string option"
  sh_updated_at :: "string option"

definition state_headers_empty :: state_headers where
  "state_headers_empty =
     \<lparr>sh_format_version = None, sh_package = None, sh_version = None, sh_session_id = None,
      sh_started_at = None, sh_updated_at = None\<rparr>"

definition state_header_field ::
  "string \<Rightarrow> string \<Rightarrow> nat \<Rightarrow> state_headers \<Rightarrow> state_headers \<times> agm_error list" where
  "state_header_field key v number h =
     (if key = ''agm.state'' then (h\<lparr>sh_format_version := Some v\<rparr>, [])
      else if key = ''package'' then (h\<lparr>sh_package := Some v\<rparr>, [])
      else if key = ''version'' then (h\<lparr>sh_version := Some v\<rparr>, [])
      else if key = ''session_id'' then (h\<lparr>sh_session_id := Some v\<rparr>, [])
      else if key = ''started_at'' then (h\<lparr>sh_started_at := Some v\<rparr>, [])
      else if key = ''updated_at'' then (h\<lparr>sh_updated_at := Some v\<rparr>, [])
      else (h, [error_at P009 (''Unknown header field '' @ sq key @ '' in state file'') number]))"

fun parse_state_headers ::
  "sidecar_line list \<Rightarrow> state_headers \<Rightarrow> state_headers \<times> agm_error list \<times> sidecar_line list" where
  "parse_state_headers [] h = (h, [], [])"
| "parse_state_headers (l # ls) h =
     (case sl_kind l of
        SlBlank \<Rightarrow> parse_state_headers ls h
      | SlComment _ \<Rightarrow> parse_state_headers ls h
      | SlHeader key v \<Rightarrow>
          (let (h', es) = state_header_field key v (sl_number l) h;
               (h'', es', rest) = parse_state_headers ls h' in
           (h'', es @ es', rest))
      | _ \<Rightarrow> (h, [], l # ls))"

definition missing_header :: "string \<Rightarrow> string \<Rightarrow> agm_error" where
  "missing_header file_kind field =
     error_at P001 (''Missing required header field '' @ sq field @ '' in '' @ file_kind @ '' file'') 1"

definition missing_state_headers :: "state_headers \<Rightarrow> agm_error list" where
  "missing_state_headers h =
     map (\<lambda>(field, present). missing_header ''state'' field)
       (filter (\<lambda>(field, present). \<not> present)
         [(''agm.state'', sh_format_version h \<noteq> None), (''package'', sh_package h \<noteq> None),
          (''version'', sh_version h \<noteq> None), (''session_id'', sh_session_id h \<noteq> None),
          (''started_at'', sh_started_at h \<noteq> None), (''updated_at'', sh_updated_at h \<noteq> None)])"

record state_block =
  sb_status :: "execution_status option"
  sb_executed_by :: "string option"
  sb_executed_at :: "string option"
  sb_execution_log :: "string option"
  sb_retry_count :: "32 word"

definition state_block_empty :: state_block where
  "state_block_empty =
     \<lparr>sb_status = None, sb_executed_by = None, sb_executed_at = None, sb_execution_log = None,
      sb_retry_count = 0\<rparr>"

definition nonempty :: "string \<Rightarrow> string option" where
  "nonempty v = (if v = [] then None else Some v)"

definition state_field ::
  "string \<Rightarrow> string \<Rightarrow> string \<Rightarrow> nat \<Rightarrow> state_block \<Rightarrow> state_block \<times> agm_error list" where
  "state_field node_id key v number b =
     (if key = ''execution_status'' then
        (case parse_execution_status v of
           Inr s \<Rightarrow> (b\<lparr>sb_status := Some s\<rparr>, [])
         | Inl _ \<Rightarrow>
             (b, [error_at P003 (''Invalid execution_status value '' @ sq v @ '' in node '' @
                   sq node_id) number]))
      else if key = ''executed_by'' then (b\<lparr>sb_executed_by := nonempty v\<rparr>, [])
      else if key = ''executed_at'' then (b\<lparr>sb_executed_at := nonempty v\<rparr>, [])
      else if key = ''execution_log'' then (b\<lparr>sb_execution_log := nonempty v\<rparr>, [])
      else if key = ''retry_count'' then
        (case parse_u32 v of
           Some n \<Rightarrow> (b\<lparr>sb_retry_count := n\<rparr>, [])
         | None \<Rightarrow>
             (b, [error_at P003 (''Invalid retry_count value '' @ sq v @ '' in node '' @
                   sq node_id) number]))
      else (b, [error_at P009 (''Unknown field '' @ sq key @ '' in state block '' @ sq node_id)
                 number]))"

fun parse_state_block ::
  "string \<Rightarrow> sidecar_line list \<Rightarrow> state_block \<Rightarrow> state_block \<times> agm_error list \<times> sidecar_line list" where
  "parse_state_block node_id [] b = (b, [], [])"
| "parse_state_block node_id (l # ls) b =
     (case sl_kind l of
        SlBlank \<Rightarrow> (b, [], l # ls)
      | SlBlockDecl _ _ \<Rightarrow> (b, [], l # ls)
      | SlField key v \<Rightarrow>
          (let (b', es) = state_field node_id key v (sl_number l) b;
               (b'', es', rest) = parse_state_block node_id ls b' in
           (b'', es @ es', rest))
      | _ \<Rightarrow> parse_state_block node_id ls b)"

definition finish_state_block ::
  "string \<Rightarrow> nat \<Rightarrow> state_block \<Rightarrow> (string, node_state) btree \<Rightarrow>
   (string, node_state) btree \<times> agm_error list" where
  "finish_state_block node_id line_num b nodes =
     (let (status, es) =
        (case sb_status b of
           Some s \<Rightarrow> (s, [])
         | None \<Rightarrow>
             (Pending,
              [error_at P001 (''Missing required field '' @ sq ''execution_status'' @
                 '' in state block '' @ sq node_id) line_num])) in
      case bt_get nodes node_id of
        Some _ \<Rightarrow>
          (nodes,
           es @ [error_at P006 (''Duplicate node ID '' @ sq node_id @ '' in state file'') line_num])
      | None \<Rightarrow>
          (bt_insert node_id
             \<lparr>ns_execution_status = status, ns_executed_by = sb_executed_by b,
              ns_executed_at = sb_executed_at b, ns_execution_log = sb_execution_log b,
              ns_retry_count = sb_retry_count b\<rparr> nodes,
           es))"

lemma parse_state_block_length:
  "parse_state_block i ls b = (b', es, rest) \<Longrightarrow> length rest \<le> length ls"
proof (induction i ls b arbitrary: b' es rest rule: parse_state_block.induct)
  case (2 i l ls b)
  then show ?case
    by (fastforce split: sidecar_line_kind.splits prod.splits)
qed simp

function parse_state_blocks ::
  "sidecar_line list \<Rightarrow> (string, node_state) btree \<Rightarrow> (string, node_state) btree \<times> agm_error list" where
  "parse_state_blocks [] nodes = (nodes, [])"
| "parse_state_blocks (l # ls) nodes =
     (case sl_kind l of
        SlBlockDecl keyword i \<Rightarrow>
          (if keyword = ''state'' then
             (let (b, es1, rest) = parse_state_block i ls state_block_empty;
                  (nodes', es2) = finish_state_block i (sl_number l) b nodes;
                  (nodes'', es3) = parse_state_blocks rest nodes' in
              (nodes'', es1 @ es2 @ es3))
           else
             (let (nodes', es) = parse_state_blocks ls nodes in
              (nodes',
               error_at P003 (''Unexpected block keyword '' @ sq keyword @
                 '' in state file (expected '' @ sq ''state'' @ '')'') (sl_number l) # es)))
      | SlField key v \<Rightarrow>
          (let (nodes', es) = parse_state_blocks ls nodes in
           (nodes',
            error_at P003 (''Field '' @ sq key @ '' outside of a '' @ sq ''state'' @ '' block'')
              (sl_number l) # es))
      | _ \<Rightarrow> parse_state_blocks ls nodes)"
  by pat_completeness auto

termination
proof (relation "measure (\<lambda>(ls, nodes). length ls)")
  fix l :: sidecar_line and ls nodes keyword i x b y es1 rest z nodes' es2
  assume "x = parse_state_block i ls state_block_empty" "(b, y) = x" "(es1, rest) = y"
  then show "((rest, nodes'), l # ls, nodes) \<in> measure (\<lambda>(ls, nodes). length ls)"
    using parse_state_block_length [of i ls state_block_empty b es1 rest] by simp
qed simp_all

definition unwrap_or_default :: "string option \<Rightarrow> string" where
  "unwrap_or_default x = (case x of None \<Rightarrow> [] | Some s \<Rightarrow> s)"

definition parse_state :: "string \<Rightarrow> state_file parse_result" where
  "parse_state input =
     res_bind (lex_sidecar input) (\<lambda>lines.
       let (h, es1, rest) = parse_state_headers lines state_headers_empty;
           es2 = missing_state_headers h;
           (nodes, es3) = parse_state_blocks rest [];
           errors = es1 @ es2 @ es3 in
       if list_ex is_error errors then Inl errors
       else Inr
         \<lparr>sf_format_version = unwrap_or_default (sh_format_version h),
          sf_package = unwrap_or_default (sh_package h),
          sf_version = unwrap_or_default (sh_version h),
          sf_session_id = unwrap_or_default (sh_session_id h),
          sf_started_at = unwrap_or_default (sh_started_at h),
          sf_updated_at = unwrap_or_default (sh_updated_at h),
          sf_nodes = nodes\<rparr>)"

section \<open>The renderers\<close>

definition line :: "string \<Rightarrow> string" where
  "line s = s @ [nl]"

definition opt_line :: "string \<Rightarrow> string option \<Rightarrow> string" where
  "opt_line key v = (case v of None \<Rightarrow> [] | Some s \<Rightarrow> line (key @ '': '' @ s))"

definition render_state_node :: "string \<times> node_state \<Rightarrow> string" where
  "render_state_node e =
     (let (i, ns) = e in
      [nl] @ line (''state '' @ i) @
      line (''execution_status: '' @ show_execution_status (ns_execution_status ns)) @
      opt_line ''executed_by'' (ns_executed_by ns) @
      opt_line ''executed_at'' (ns_executed_at ns) @
      line (''retry_count: '' @ show_word (ns_retry_count ns)) @
      opt_line ''execution_log'' (ns_execution_log ns))"

definition render_state :: "state_file \<Rightarrow> string" where
  "render_state sf =
     line (''# agm.state: '' @ sf_format_version sf) @
     line (''# package: '' @ sf_package sf) @
     line (''# version: '' @ sf_version sf) @
     line (''# session_id: '' @ sf_session_id sf) @
     line (''# started_at: '' @ sf_started_at sf) @
     line (''# updated_at: '' @ sf_updated_at sf) @
     concat (map render_state_node (sf_nodes sf))"

text \<open>\<open>escape\<close> doubles single quotes; \<open>opt_str\<close> quotes or writes \<open>NULL\<close>.\<close>

definition sql_escape :: "string \<Rightarrow> string" where
  "sql_escape s = concat (map (\<lambda>c. if c = CHR 0x27 then [c, c] else [c]) s)"

definition sql_opt :: "string option \<Rightarrow> string" where
  "sql_opt v = (case v of Some s \<Rightarrow> sq (sql_escape s) | None \<Rightarrow> ''NULL'')"

definition sql_node_row :: "state_file \<Rightarrow> string \<times> node_state \<Rightarrow> string" where
  "sql_node_row sf e =
     (let (i, ns) = e in
      line (''INSERT INTO agm_node_state (session_id, node_id, execution_status, executed_by, executed_at, retry_count, execution_log) VALUES ('' @
        join '', ''
          [sq (sql_escape (sf_session_id sf)), sq (sql_escape i),
           sq (sql_escape (show_execution_status (ns_execution_status ns))),
           sql_opt (ns_executed_by ns), sql_opt (ns_executed_at ns),
           show_word (ns_retry_count ns), sql_opt (ns_execution_log ns)] @ '');''))"

definition render_state_sql :: "state_file \<Rightarrow> string" where
  "render_state_sql sf =
     line (''INSERT INTO agm_session (format_version, package, version, session_id, started_at, updated_at) VALUES ('' @
       join '', '' (map (\<lambda>s. sq (sql_escape s))
         [sf_format_version sf, sf_package sf, sf_version sf, sf_session_id sf,
          sf_started_at sf, sf_updated_at sf]) @ '');'') @
     concat (map (sql_node_row sf) (sf_nodes sf))"

section \<open>Round trip\<close>

definition clean_opt :: "string option \<Rightarrow> bool" where
  "clean_opt v \<longleftrightarrow> (case v of None \<Rightarrow> True | Some s \<Rightarrow> s \<noteq> [] \<and> clean s)"

definition id_ok :: "string \<Rightarrow> bool" where
  "id_ok i \<longleftrightarrow> i \<noteq> [] \<and> trim_end i = i \<and> clean i"

definition node_state_ok :: "node_state \<Rightarrow> bool" where
  "node_state_ok ns \<longleftrightarrow>
     clean_opt (ns_executed_by ns) \<and> clean_opt (ns_executed_at ns) \<and>
     clean_opt (ns_execution_log ns)"

definition state_file_ok :: "state_file \<Rightarrow> bool" where
  "state_file_ok sf \<longleftrightarrow>
     clean (sf_format_version sf) \<and> clean (sf_package sf) \<and> clean (sf_version sf) \<and>
     clean (sf_session_id sf) \<and> clean (sf_started_at sf) \<and> clean (sf_updated_at sf) \<and>
     bt_ok (sf_nodes sf) \<and> list_all (\<lambda>(i, ns). id_ok i \<and> node_state_ok ns) (sf_nodes sf)"

definition opt_lines :: "string \<Rightarrow> string option \<Rightarrow> string list" where
  "opt_lines key v = (case v of None \<Rightarrow> [] | Some s \<Rightarrow> [key @ '': '' @ s])"

definition state_field_lines :: "node_state \<Rightarrow> string list" where
  "state_field_lines ns =
     [''execution_status'' @ '': '' @ show_execution_status (ns_execution_status ns)] @
     opt_lines ''executed_by'' (ns_executed_by ns) @
     opt_lines ''executed_at'' (ns_executed_at ns) @
     [''retry_count'' @ '': '' @ show_word (ns_retry_count ns)] @
     opt_lines ''execution_log'' (ns_execution_log ns)"

definition state_node_lines :: "string \<times> node_state \<Rightarrow> string list" where
  "state_node_lines e = [] # (''state '' @ fst e) # state_field_lines (snd e)"

definition state_header_lines :: "state_file \<Rightarrow> string list" where
  "state_header_lines sf =
     [''# '' @ ''agm.state'' @ '': '' @ sf_format_version sf, ''# '' @ ''package'' @ '': '' @ sf_package sf,
      ''# '' @ ''version'' @ '': '' @ sf_version sf, ''# '' @ ''session_id'' @ '': '' @ sf_session_id sf,
      ''# '' @ ''started_at'' @ '': '' @ sf_started_at sf, ''# '' @ ''updated_at'' @ '': '' @ sf_updated_at sf]"

definition state_header_pairs :: "state_file \<Rightarrow> (string \<times> string) list" where
  "state_header_pairs sf =
     [(''agm.state'', sf_format_version sf), (''package'', sf_package sf),
      (''version'', sf_version sf), (''session_id'', sf_session_id sf),
      (''started_at'', sf_started_at sf), (''updated_at'', sf_updated_at sf)]"

lemma render_state_lines:
  "render_state sf = unlines (state_header_lines sf @ concat (map state_node_lines (sf_nodes sf)))"
proof -
  have opt: "opt_line key v = unlines (opt_lines key v)" for key v
    by (simp add: opt_line_def opt_lines_def line_def split: option.split)
  have node: "render_state_node e = unlines (state_node_lines e)" for e
    by (cases e) (simp add: render_state_node_def state_node_lines_def state_field_lines_def opt line_def)
  have "concat (map render_state_node es) = unlines (concat (map state_node_lines es))" for es
    by (induction es) (simp_all add: node)
  then show ?thesis
    by (simp add: render_state_def state_header_lines_def line_def)
qed

lemma clean_show_nat [simp]: "clean (show_nat n)"
proof -
  have "c \<noteq> tab \<and> c \<noteq> nl \<and> c \<noteq> cr" if "c \<in> set (show_nat n)" for c
    using show_nat_digits [OF that] by (auto simp: is_digit_def byte_def)
  then show ?thesis
    using last_in_set [of "show_nat n"] by (auto simp: clean_def line_ok_def)
qed

lemma clean_status [simp]: "clean (show_execution_status st)"
  by (cases st) (simp_all add: clean_def line_ok_def)

lemma clean_opt_lines: "clean_opt v \<Longrightarrow> clean (key @ '': '') \<Longrightarrow> cr \<notin> set key \<Longrightarrow> l \<in> set (opt_lines key v) \<Longrightarrow> clean l"
  using clean_append [of _ "key @ '': ''"]
  by (auto simp: opt_lines_def clean_opt_def clean_def line_ok_def split: option.splits)

lemma state_lines_clean:
  assumes "state_file_ok sf"
    and "l \<in> set (state_header_lines sf @ concat (map state_node_lines (sf_nodes sf)))"
  shows "clean l"
proof -
  have node: "clean l'" if e: "e \<in> set (sf_nodes sf)" and l: "l' \<in> set (state_node_lines e)" for e l'
  proof -
    have ok: "id_ok (fst e)" "node_state_ok (snd e)"
      using assms(1) e by (auto simp: state_file_ok_def list_all_iff)
    have opts: "clean l'" if "l' \<in> set (opt_lines key v)" "clean_opt v"
        "key \<in> {''executed_by'', ''executed_at'', ''execution_log''}" for key v
      by (rule clean_opt_lines [OF that(2) _ _ that(1)])
        (use that(3) in \<open>auto simp: clean_def line_ok_def\<close>)
    have "clean (''state '' @ fst e)"
      by (rule clean_append) (use ok in \<open>simp_all add: id_ok_def\<close>)
    moreover have "clean (''execution_status'' @ '': '' @ show_execution_status st)" for st
      by (cases st) (simp_all add: clean_def line_ok_def)
    moreover have "clean (''retry_count: '' @ show_word w)" for w :: "32 word"
      by (rule clean_append) (simp_all add: show_word_def)
    ultimately show ?thesis
      using l ok opts [of "''executed_by''"] opts [of "''executed_at''"] opts [of "''execution_log''"]
      by (auto simp: state_node_lines_def state_field_lines_def node_state_ok_def)
  qed
  have header: "clean l'" if l: "l' \<in> set (state_header_lines sf)" for l'
  proof -
    have "clean (''# '' @ key @ '': '' @ v)" if "clean v" "tab \<notin> set key" "nl \<notin> set key" "cr \<notin> set key" for key v
      using clean_append [of v "''# '' @ key @ '': ''"] that by simp
    moreover have "state_header_lines sf = map (\<lambda>(k, v). ''# '' @ k @ '': '' @ v) (state_header_pairs sf)"
      by (simp add: state_header_lines_def state_header_pairs_def)
    with l obtain k v where "l' = ''# '' @ k @ '': '' @ v" "(k, v) \<in> set (state_header_pairs sf)"
      by auto
    moreover from this(2) have "clean v \<and> tab \<notin> set k \<and> nl \<notin> set k \<and> cr \<notin> set k"
      using assms(1) unfolding state_header_pairs_def state_file_ok_def by auto
    ultimately show ?thesis by blast
  qed
  show ?thesis using assms(2) node header by auto
qed

definition block_of :: "node_state \<Rightarrow> state_block" where
  "block_of ns =
     \<lparr>sb_status = Some (ns_execution_status ns), sb_executed_by = ns_executed_by ns,
      sb_executed_at = ns_executed_at ns, sb_execution_log = ns_execution_log ns,
      sb_retry_count = ns_retry_count ns\<rparr>"

definition at_block_end :: "sidecar_line list \<Rightarrow> bool" where
  "at_block_end ls \<longleftrightarrow> (case ls of [] \<Rightarrow> True | l # _ \<Rightarrow> sl_kind l = SlBlank)"

lemma parse_block_end: "at_block_end rest \<Longrightarrow> parse_state_block i rest b = (b, [], rest)"
  by (auto simp: at_block_end_def split: list.splits)

lemma state_keys [simp]:
  "is_field_key ''execution_status''" "is_field_key ''executed_by''" "is_field_key ''executed_at''"
  "is_field_key ''execution_log''" "is_field_key ''retry_count''"
  by code_simp+

declare parse_state_block.simps(2) [simp del]

lemma parse_block_field:
  assumes "is_field_key key" and "key \<noteq> ''state''" and "key \<noteq> ''entry''"
    and "state_field i key v n b = (b', [])"
  shows "parse_state_block i (lex_line n (key @ '': '' @ v) # ls) b = parse_state_block i ls b'"
  using assms classify_field_line [OF assms(1-3), of v]
  by (simp add: lex_line_def parse_state_block.simps(2) split: prod.split)

text \<open>The fields of a rendered block, as pairs of a key and a value.\<close>

definition opt_pair :: "string \<Rightarrow> string option \<Rightarrow> (string \<times> string) list" where
  "opt_pair key v = (case v of None \<Rightarrow> [] | Some s \<Rightarrow> [(key, s)])"

definition state_pairs :: "node_state \<Rightarrow> (string \<times> string) list" where
  "state_pairs ns =
     [(''execution_status'', show_execution_status (ns_execution_status ns))] @
     opt_pair ''executed_by'' (ns_executed_by ns) @
     opt_pair ''executed_at'' (ns_executed_at ns) @
     [(''retry_count'', show_word (ns_retry_count ns))] @
     opt_pair ''execution_log'' (ns_execution_log ns)"

lemma state_field_lines_pairs:
  "state_field_lines ns = map (\<lambda>(k, v). k @ '': '' @ v) (state_pairs ns)"
  by (simp add: state_field_lines_def state_pairs_def opt_lines_def opt_pair_def split: option.split)

definition pair_ok :: "string \<Rightarrow> string \<times> string \<Rightarrow> bool" where
  "pair_ok i p \<longleftrightarrow>
     is_field_key (fst p) \<and> fst p \<noteq> ''state'' \<and> fst p \<noteq> ''entry'' \<and>
     (\<forall>n b. snd (state_field i (fst p) (snd p) n b) = [])"

lemma state_field_number: "fst (state_field i k v n b) = fst (state_field i k v m b)"
  by (simp add: state_field_def split: sum.split option.split)

lemma parse_block_pairs:
  "list_all (pair_ok i) ps \<Longrightarrow> at_block_end rest \<Longrightarrow>
   parse_state_block i (number_lines n (map (\<lambda>(k, v). k @ '': '' @ v) ps) @ rest) b =
     (fold (\<lambda>(k, v) b. fst (state_field i k v 0 b)) ps b, [], rest)"
proof (induction ps arbitrary: n b)
  case Nil
  then show ?case by (simp add: parse_block_end)
next
  case (Cons p ps)
  obtain k v where p: "p = (k, v)" by force
  with Cons.prems(1) have ok: "is_field_key k" "k \<noteq> ''state''" "k \<noteq> ''entry''"
    "snd (state_field i k v n b) = []"
    by (auto simp: pair_ok_def)
  have ps: "list_all (pair_ok i) ps" using Cons.prems(1) by simp
  have "state_field i k v n b = (fst (state_field i k v 0 b), [])"
    using ok(4) state_field_number [of i k v n b 0] by (simp add: prod_eq_iff)
  from parse_block_field [OF ok(1-3) this]
  have "parse_state_block i (number_lines n (map (\<lambda>(k, v). k @ '': '' @ v) (p # ps)) @ rest) b =
      parse_state_block i
        (number_lines (Suc n) (map (\<lambda>(k, v). k @ '': '' @ v) ps) @ rest) (fst (state_field i k v 0 b))"
    by (simp only: p list.map prod.case number_lines.simps append_Cons)
  then show ?case
    using Cons.IH [OF ps Cons.prems(2)] by (simp add: p)
qed

lemma state_field_keys:
  "state_field i ''execution_status'' (show_execution_status st) n b = (b\<lparr>sb_status := Some st\<rparr>, [])"
  "state_field i ''executed_by'' v n b = (b\<lparr>sb_executed_by := nonempty v\<rparr>, [])"
  "state_field i ''executed_at'' v n b = (b\<lparr>sb_executed_at := nonempty v\<rparr>, [])"
  "state_field i ''execution_log'' v n b = (b\<lparr>sb_execution_log := nonempty v\<rparr>, [])"
  "state_field i ''retry_count'' (show_word w) n b = (b\<lparr>sb_retry_count := w\<rparr>, [])"
  by (simp_all add: state_field_def codec)

lemma pair_ok_keys:
  "pair_ok i (''execution_status'', show_execution_status st)" "pair_ok i (''executed_by'', v)"
  "pair_ok i (''executed_at'', v)" "pair_ok i (''execution_log'', v)"
  "pair_ok i (''retry_count'', show_word (w :: 32 word))"
  unfolding pair_ok_def fst_conv snd_conv state_field_keys by simp_all

lemma state_pairs_ok: "list_all (pair_ok i) (state_pairs ns)"
  unfolding state_pairs_def opt_pair_def
  by (simp add: pair_ok_keys split: option.split)

lemma fold_opt_pair:
  "fold f (opt_pair key v) b = (case v of None \<Rightarrow> b | Some s \<Rightarrow> f (key, s) b)"
  by (simp add: opt_pair_def split: option.split)

lemma fold_state_pairs:
  assumes "node_state_ok ns"
  shows "fold (\<lambda>(k, v) b. fst (state_field i k v 0 b)) (state_pairs ns) state_block_empty = block_of ns"
proof -
  have "nonempty v = Some v" if "clean_opt (Some v)" for v
    using that by (simp add: clean_opt_def nonempty_def)
  then show ?thesis
    using assms
    unfolding state_pairs_def fold_append comp_def fold_opt_pair fold_simps prod.case
      state_field_keys fst_conv node_state_ok_def
    by (cases "ns_executed_by ns"; cases "ns_executed_at ns"; cases "ns_execution_log ns")
      (simp_all add: state_block_empty_def block_of_def)
qed

lemma parse_state_block_lines:
  "node_state_ok ns \<Longrightarrow> at_block_end rest \<Longrightarrow>
   parse_state_block i (number_lines n (state_field_lines ns) @ rest) state_block_empty =
    (block_of ns, [], rest)"
  using parse_block_pairs [OF state_pairs_ok] fold_state_pairs [of ns i]
  by (simp only: state_field_lines_pairs)

lemma finish_block_of:
  "bt_get nodes i = None \<Longrightarrow>
     finish_state_block i n (block_of ns) nodes = (bt_insert i ns nodes, [])"
  by (cases ns) (simp add: finish_state_block_def block_of_def)

lemma at_block_end_nodes: "at_block_end (number_lines n (concat (map state_node_lines es)))"
  by (cases es) (simp_all add: at_block_end_def state_node_lines_def)

lemma parse_state_blocks_lines:
  assumes "list_all (\<lambda>(i, ns). id_ok i \<and> node_state_ok ns) es" and "bt_ok (nodes @ es)"
  shows "parse_state_blocks (number_lines n (concat (map state_node_lines es))) nodes = (nodes @ es, [])"
  using assms
proof (induction es arbitrary: n nodes)
  case (Cons e es)
  obtain i ns where e: "e = (i, ns)" by force
  have ok: "id_ok i" "node_state_ok ns" and rest: "list_all (\<lambda>(i, ns). id_ok i \<and> node_state_ok ns) es"
    using Cons.prems(1) e by auto
  have less: "a < i" if "a \<in> fst ` set nodes" for a
    using Cons.prems(2) that by (auto simp: bt_ok_def e sorted_wrt_append)
  then have none: "bt_get nodes i = None" by (force simp: bt_get_None)
  have ins: "bt_insert i ns nodes = nodes @ [(i, ns)]"
    using less by (rule bt_insert_append)
  define n' where "n' = Suc (Suc n) + length (state_field_lines ns)"
  let ?rest = "number_lines n' (concat (map state_node_lines es))"
  have lines: "number_lines n (concat (map state_node_lines (e # es))) =
      lex_line n [] # lex_line (Suc n) (''state '' @ i) #
        (number_lines (Suc (Suc n)) (state_field_lines ns) @ ?rest)"
    by (simp add: e state_node_lines_def number_lines_append n'_def)
  have "classify_sidecar_line (''state '' @ i) = SlBlockDecl ''state'' i"
    using ok(1) by (intro classify_block_line) (simp_all add: id_ok_def)
  then have "parse_state_blocks (number_lines n (concat (map state_node_lines (e # es)))) nodes =
      parse_state_blocks ?rest (nodes @ [(i, ns)])"
    unfolding lines
    using parse_state_block_lines [OF ok(2) at_block_end_nodes] finish_block_of [OF none] ins
    by (simp add: prod.case_eq_if)
  also have "\<dots> = ((nodes @ [(i, ns)]) @ es, [])"
    by (rule Cons.IH [OF rest]) (use Cons.prems(2) e in simp)
  finally show ?case by (simp add: e)
qed simp

lemma state_header_keys [simp]:
  "is_header_key ''agm.state''" "is_header_key ''package''" "is_header_key ''version''"
  "is_header_key ''session_id''" "is_header_key ''started_at''" "is_header_key ''updated_at''"
  by code_simp+

lemma parse_state_header_line:
  assumes "is_header_key key" and "state_header_field key v n h = (h', [])"
  shows "parse_state_headers (lex_line n (''# '' @ key @ '': '' @ v) # ls) h = parse_state_headers ls h'"
  using assms classify_header_line [OF assms(1), of v]
  by (simp add: lex_line_def split: prod.split)

lemma parse_state_header_pairs:
  "list_all (\<lambda>(k, v). is_header_key k \<and>
      (\<forall>n h. snd (state_header_field k v n h) = [])) ps \<Longrightarrow>
   parse_state_headers (number_lines n (map (\<lambda>(k, v). ''# '' @ k @ '': '' @ v) ps) @ rest) h =
     parse_state_headers rest (fold (\<lambda>(k, v) h. fst (state_header_field k v 0 h)) ps h)"
proof (induction ps arbitrary: n h)
  case (Cons p ps)
  obtain k v where p: "p = (k, v)" by force
  with Cons.prems have key: "is_header_key k" "snd (state_header_field k v n h) = []" by auto
  have "fst (state_header_field k v n h) = fst (state_header_field k v 0 h)"
    by (simp add: state_header_field_def)
  with key(2) have ok: "state_header_field k v n h = (fst (state_header_field k v 0 h), [])"
    by (simp add: prod_eq_iff)
  have "parse_state_headers (number_lines n (map (\<lambda>(k, v). ''# '' @ k @ '': '' @ v) (p # ps)) @ rest) h =
      parse_state_headers
        (lex_line n (''# '' @ k @ '': '' @ v) #
          (number_lines (Suc n) (map (\<lambda>(k, v). ''# '' @ k @ '': '' @ v) ps) @ rest)) h"
    by (simp only: p list.map prod.case number_lines.simps append_Cons)
  also have "\<dots> = parse_state_headers
        (number_lines (Suc n) (map (\<lambda>(k, v). ''# '' @ k @ '': '' @ v) ps) @ rest)
        (fst (state_header_field k v 0 h))"
    by (rule parse_state_header_line [OF key(1) ok])
  also have "\<dots> = parse_state_headers rest
        (fold (\<lambda>(k, v) h. fst (state_header_field k v 0 h)) ps (fst (state_header_field k v 0 h)))"
    by (rule Cons.IH) (use Cons.prems in simp)
  finally show ?case by (simp add: p)
qed simp

lemma state_header_field_keys:
  "state_header_field ''agm.state'' v n h = (h\<lparr>sh_format_version := Some v\<rparr>, [])"
  "state_header_field ''package'' v n h = (h\<lparr>sh_package := Some v\<rparr>, [])"
  "state_header_field ''version'' v n h = (h\<lparr>sh_version := Some v\<rparr>, [])"
  "state_header_field ''session_id'' v n h = (h\<lparr>sh_session_id := Some v\<rparr>, [])"
  "state_header_field ''started_at'' v n h = (h\<lparr>sh_started_at := Some v\<rparr>, [])"
  "state_header_field ''updated_at'' v n h = (h\<lparr>sh_updated_at := Some v\<rparr>, [])"
  by (simp_all add: state_header_field_def)

definition headers_of :: "state_file \<Rightarrow> state_headers" where
  "headers_of sf =
     \<lparr>sh_format_version = Some (sf_format_version sf), sh_package = Some (sf_package sf),
      sh_version = Some (sf_version sf), sh_session_id = Some (sf_session_id sf),
      sh_started_at = Some (sf_started_at sf), sh_updated_at = Some (sf_updated_at sf)\<rparr>"

text \<open>Reading a file from its header lines and the lines of its blocks.\<close>

definition block_start :: "string list \<Rightarrow> bool" where
  "block_start ls \<longleftrightarrow> ls = [] \<or> (\<exists>i ls'. ls = [] # (''state '' @ i) # ls' \<and> id_ok i)"

lemma parse_state_headers_lines:
  assumes "block_start ls"
  shows "\<exists>rest. parse_state_headers (number_lines n (state_header_lines sf @ ls)) state_headers_empty =
      (headers_of sf, [], rest) \<and>
      parse_state_blocks rest [] = parse_state_blocks (number_lines (n + 6) ls) []"
proof -
  have "list_all (\<lambda>(k, v). is_header_key k \<and>
      (\<forall>n h. snd (state_header_field k v n h) = [])) (state_header_pairs sf)"
    unfolding state_header_pairs_def list.pred_inject prod.case state_header_field_keys snd_conv
    by simp
  moreover have "fold (\<lambda>(k, v) h. fst (state_header_field k v 0 h)) (state_header_pairs sf)
      state_headers_empty = headers_of sf"
    unfolding state_header_pairs_def fold_simps prod.case state_header_field_keys fst_conv
    by (simp add: state_headers_empty_def headers_of_def)
  moreover have "state_header_lines sf = map (\<lambda>(k, v). ''# '' @ k @ '': '' @ v) (state_header_pairs sf)"
    "length (state_header_lines sf) = 6"
    by (simp_all add: state_header_lines_def state_header_pairs_def)
  ultimately have head: "parse_state_headers
      (number_lines n (state_header_lines sf @ ls)) state_headers_empty =
      parse_state_headers (number_lines (n + 6) ls) (headers_of sf)"
    using parse_state_header_pairs by (simp only: number_lines_append)
  show ?thesis
  proof (cases "ls = []")
    case True
    then show ?thesis using head by simp
  next
    case False
    then obtain i ls' where ls: "ls = [] # (''state '' @ i) # ls'" "id_ok i"
      using assms by (auto simp: block_start_def)
    then have "classify_sidecar_line (''state '' @ i) = SlBlockDecl ''state'' i"
      by (intro classify_block_line) (simp_all add: id_ok_def)
    then show ?thesis using head ls by simp
  qed
qed

lemma parse_state_unlines:
  assumes "\<forall>l \<in> set (state_header_lines sf @ ls). clean l" and "block_start ls"
    and "parse_state_blocks (number_lines 7 ls) [] = (nodes, [])"
  shows "parse_state (unlines (state_header_lines sf @ ls)) = Inr (sf\<lparr>sf_nodes := nodes\<rparr>)"
proof -
  have lex: "lex_sidecar (unlines (state_header_lines sf @ ls)) = Inr (number_lines 1 (state_header_lines sf @ ls))"
    using assms(1) by (rule lex_sidecar_unlines)
  from parse_state_headers_lines [OF assms(2), of 1 sf] obtain rest where
    h: "parse_state_headers (number_lines 1 (state_header_lines sf @ ls)) state_headers_empty =
      (headers_of sf, [], rest)" and "parse_state_blocks rest [] = (nodes, [])"
    using assms(3) by auto
  moreover have "missing_state_headers (headers_of sf) = []"
    by (simp add: missing_state_headers_def headers_of_def)
  ultimately show ?thesis
    unfolding parse_state_def lex res_bind_simps h
    by (simp add: headers_of_def unwrap_or_default_def)
qed

lemma block_start_nodes:
  "list_all (\<lambda>(i, ns). id_ok i \<and> node_state_ok ns) es \<Longrightarrow> block_start (concat (map state_node_lines es))"
  by (cases es) (auto simp: block_start_def state_node_lines_def)

lemma parse_render_state:
  assumes "state_file_ok sf"
  shows "parse_state (render_state sf) = Inr sf"
proof -
  have ok: "list_all (\<lambda>(i, ns). id_ok i \<and> node_state_ok ns) (sf_nodes sf)" "bt_ok (sf_nodes sf)"
    using assms by (auto simp: state_file_ok_def)
  then have "parse_state_blocks (number_lines 7 (concat (map state_node_lines (sf_nodes sf)))) [] =
      (sf_nodes sf, [])"
    using parse_state_blocks_lines [OF ok(1), of "[]"] by simp
  from parse_state_unlines [OF _ block_start_nodes [OF ok(1)] this] show ?thesis
    unfolding render_state_lines using state_lines_clean [OF assms] by simp
qed

text \<open>A log whose second line is a \<open>retry_count\<close> field.\<close>

definition inject_retry :: "string \<Rightarrow> 32 word \<Rightarrow> string" where
  "inject_retry log r = log @ [nl] @ ''retry_count: '' @ show_word r"

lemma parse_injected_state:
  assumes "state_file_ok sf" and "sf_nodes sf = [(i, ns)]" and "ns_execution_log ns = Some log"
  shows "parse_state (render_state
      (sf\<lparr>sf_nodes := [(i, ns\<lparr>ns_execution_log := Some (inject_retry log r)\<rparr>)]\<rparr>)) =
    Inr (sf\<lparr>sf_nodes := [(i, ns\<lparr>ns_retry_count := r\<rparr>)]\<rparr>)"
proof -
  let ?ps = "state_pairs ns @ [(''retry_count'', show_word r)]"
  let ?field = "\<lambda>(k, v). k @ '': '' @ v"
  let ?ls = "[] # (''state '' @ i) # map ?field ?ps"
  let ?sf = "sf\<lparr>sf_nodes := [(i, ns\<lparr>ns_execution_log := Some (inject_retry log r)\<rparr>)]\<rparr>"
  have ok: "id_ok i" "node_state_ok ns" using assms(1,2) by (auto simp: state_file_ok_def)
  have header: "state_header_lines ?sf = state_header_lines sf"
    by (simp add: state_header_lines_def)
  have "unlines (concat (map state_node_lines (sf_nodes ?sf))) = unlines ?ls"
    using assms(3) by (simp add: state_node_lines_def state_field_lines_def state_pairs_def
        opt_lines_def opt_pair_def inject_retry_def split: option.split)
  then have render: "render_state ?sf = unlines (state_header_lines sf @ ?ls)"
    unfolding render_state_lines header by (simp only: unlines_simps)
  have lines: "?ls = state_node_lines (i, ns) @ [''retry_count: '' @ show_word r]"
    by (simp add: state_node_lines_def state_field_lines_pairs)
  have "clean (''retry_count: '' @ show_word r)"
    by (rule clean_append) (simp_all add: show_word_def)
  then have clean: "\<forall>l \<in> set (state_header_lines sf @ ?ls). clean l"
    unfolding lines using state_lines_clean [OF assms(1)] assms(2) by auto
  have "list_all (pair_ok i) ?ps" by (simp add: state_pairs_ok pair_ok_keys)
  moreover have "fold (\<lambda>(k, v) b. fst (state_field i k v 0 b)) ?ps state_block_empty =
      block_of (ns\<lparr>ns_retry_count := r\<rparr>)"
    unfolding fold_append comp_def fold_state_pairs [OF ok(2)] fold_simps prod.case state_field_keys
    by (simp add: block_of_def)
  ultimately have "parse_state_block i (number_lines n (map ?field ?ps) @ []) state_block_empty =
      (block_of (ns\<lparr>ns_retry_count := r\<rparr>), [], [])" for n
    by (subst parse_block_pairs) (simp_all add: at_block_end_def)
  moreover have "classify_sidecar_line (''state '' @ i) = SlBlockDecl ''state'' i"
    using ok(1) by (intro classify_block_line) (simp_all add: id_ok_def)
  ultimately have "parse_state_blocks (number_lines 7 ?ls) [] = ([(i, ns\<lparr>ns_retry_count := r\<rparr>)], [])"
    by (simp add: finish_block_of del: list.map map_append)
  moreover have "block_start ?ls" using ok(1) by (auto simp: block_start_def)
  ultimately show ?thesis
    unfolding render using parse_state_unlines [OF clean] by blast
qed

section \<open>SQL literals\<close>

text \<open>
  How a SQL reader reads a string literal: from an opening quote up to the next quote
  that is not doubled. The result is the string and the text after the literal.
\<close>

fun sql_body :: "string \<Rightarrow> string \<Rightarrow> (string \<times> string) option" where
  "sql_body acc [] = None"
| "sql_body acc [c] = (if c = CHR 0x27 then Some (rev acc, []) else None)"
| "sql_body acc (c # d # s) =
     (if c \<noteq> CHR 0x27 then sql_body (c # acc) (d # s)
      else if d = CHR 0x27 then sql_body (c # acc) s
      else Some (rev acc, d # s))"

definition sql_literal :: "string \<Rightarrow> (string \<times> string) option" where
  "sql_literal s = (case s of c # t \<Rightarrow> if c = CHR 0x27 then sql_body [] t else None | [] \<Rightarrow> None)"

lemma sql_body_escape:
  "rest = [] \<or> hd rest \<noteq> CHR 0x27 \<Longrightarrow>
   sql_body acc (sql_escape s @ CHR 0x27 # rest) = Some (rev acc @ s, rest)"
proof (induction s arbitrary: acc)
  case Nil
  then show ?case by (cases rest) (auto simp: sql_escape_def)
next
  case (Cons c s)
  have cons: "sql_escape (c # s) = (if c = CHR 0x27 then [c, c] else [c]) @ sql_escape s"
    by (simp add: sql_escape_def)
  obtain d t where dt: "sql_escape s @ CHR 0x27 # rest = d # t"
    by (cases "sql_escape s @ CHR 0x27 # rest") auto
  show ?case
    using Cons dt by (auto simp: cons)
qed

section \<open>Properties\<close>

text \<open>C22: A state file whose strings fit on one line (no tab, no newline, no final carriage
  return; node ids non-empty without trailing whitespace; optional strings not empty)
  survives a save and a load: parsing the rendered text gives the same state.\<close>

theorem state_file_roundtrip:
  assumes "state_file_ok sf"
  shows "parse_state (render_state sf) = Inr sf"
  using assms by (rule parse_render_state)

definition sample_state :: "string option \<Rightarrow> state_file" where
  "sample_state log =
     \<lparr>sf_format_version = ''1.0'', sf_package = ''p'', sf_version = ''0.1.0'',
      sf_session_id = ''run-1'', sf_started_at = ''T0'', sf_updated_at = ''T1'',
      sf_nodes =
        [(''a'', \<lparr>ns_execution_status = Completed, ns_executed_by = Some ''shell'',
                  ns_executed_at = Some ''T1'', ns_execution_log = log, ns_retry_count = 2\<rparr>),
         (''b'', node_state_default)]\<rparr>"

lemma state_file_roundtrip_witness:
  "parse_state (render_state (sample_state (Some ''done''))) = Inr (sample_state (Some ''done''))"
proof (rule state_file_roundtrip)
  show "state_file_ok (sample_state (Some ''done''))" by code_simp
qed

text \<open>The renderer does not escape an execution log: when the log of a node has a second
  line that looks like a field, a save and a load cut the log after its first line and
  overwrite that other field (here the retry count) without any error.\<close>

lemma state_log_injection:
  assumes "state_file_ok sf" and "sf_nodes sf = [(i, ns)]" and "ns_execution_log ns = Some log"
  shows "parse_state (render_state
      (sf\<lparr>sf_nodes := [(i, ns\<lparr>ns_execution_log := Some (inject_retry log r)\<rparr>)]\<rparr>)) =
    Inr (sf\<lparr>sf_nodes := [(i, ns\<lparr>ns_retry_count := r\<rparr>)]\<rparr>)"
  using assms by (rule parse_injected_state)

definition sample_single :: state_file where
  "sample_single = (sample_state None)\<lparr>sf_nodes :=
     [(''a'', node_state_default\<lparr>ns_execution_log := Some ''ok''\<rparr>)]\<rparr>"

lemma state_log_injection_witness:
  "parse_state (render_state (sample_single\<lparr>sf_nodes :=
      [(''a'', node_state_default\<lparr>ns_execution_log := Some (inject_retry ''ok'' 7)\<rparr>)]\<rparr>)) =
    Inr (sample_single\<lparr>sf_nodes :=
      [(''a'', node_state_default\<lparr>ns_execution_log := Some ''ok'', ns_retry_count := 7\<rparr>)]\<rparr>)"
proof -
  have "state_file_ok sample_single" by code_simp
  from state_log_injection [OF this, of "''a''" "node_state_default\<lparr>ns_execution_log := Some ''ok''\<rparr>" "''ok''" 7]
  show ?thesis by (simp add: sample_single_def)
qed

lemma lines_from_mem:
  "c \<noteq> nl \<Longrightarrow> c \<noteq> cr \<Longrightarrow> c \<in> set acc \<union> set s \<Longrightarrow> \<exists>l \<in> set (lines_from acc s). c \<in> set l"
proof (induction acc s rule: lines_from.induct)
  case (2 acc a s)
  have chomp: "c \<in> set (chomp_cr l)" if "c \<in> set l" for l
  proof (cases "strip_suffix [cr] l")
    case None
    then show ?thesis using that by (simp add: chomp_cr_def)
  next
    case (Some t)
    then have "l = t @ [cr]"
      by (auto simp: strip_suffix_def strip_prefix_def split: if_splits)
        (metis append_take_drop_id rev.simps(2) rev_append rev_rev_ident self_append_conv2 append_Nil rev_singleton_conv)
    then show ?thesis using that Some \<open>c \<noteq> cr\<close> by (simp add: chomp_cr_def)
  qed
  show ?case
  proof (cases "a = nl")
    case True
    then show ?thesis using 2 chomp [of "rev acc"] by auto
  next
    case False
    then show ?thesis using 2 by auto
  qed
qed auto

text \<open>A tab character anywhere in a state (an execution log that an agent's output put
  there, for instance) makes the rendered file unreadable: loading it back is always an
  error, never a state.\<close>

lemma state_tab_unreadable:
  assumes "(i, ns) \<in> set (sf_nodes sf)" and "ns_execution_log ns = Some log" and "tab \<in> set log"
  shows "\<exists>es. parse_state (render_state sf) = Inl es \<and> es \<noteq> []"
proof -
  have "tab \<in> set (render_state_node (i, ns))"
    using assms(2,3) by (simp add: render_state_node_def opt_line_def line_def)
  then have "tab \<in> set (render_state sf)"
    using assms(1) by (force simp: render_state_def)
  then have "\<exists>l \<in> set (str_lines (render_state sf)). tab \<in> set l"
    unfolding str_lines_def by (intro lines_from_mem) auto
  then have "snd (lex_lines 1 (str_lines (render_state sf))) \<noteq> []"
    by (simp add: lex_lines_tab)
  then show ?thesis
    by (auto simp: parse_state_def lex_sidecar_def split: prod.split)
qed

lemma state_tab_unreadable_witness:
  "\<exists>es. parse_state (render_state (sample_state (Some (''a'' @ [tab] @ ''b'')))) = Inl es \<and> es \<noteq> []"
  by (rule state_tab_unreadable [where i = "''a''" and log = "''a'' @ [tab] @ ''b''"])
    (auto simp: sample_state_def)

text \<open>A SQL reader that meets a string written by \<open>render_state_sql\<close> reads exactly that
  string and stops right after it, whatever quotes the string holds: no value can end its
  literal early.\<close>

lemma sql_escape_no_injection:
  assumes "rest = [] \<or> hd rest \<noteq> CHR 0x27"
  shows "sql_literal (sq (sql_escape s) @ rest) = Some (s, rest)"
  using sql_body_escape [OF assms, of "[]" s] by (simp add: sql_literal_def sq_def)

lemma sql_escape_no_injection_witness:
  "sql_literal (sq (sql_escape ([CHR 0x27] @ ''; DROP'')) @ '', NULL'') =
     Some ([CHR 0x27] @ ''; DROP'', '', NULL'')"
  by (rule sql_escape_no_injection) simp

end
