(* ===== verification/Markdown.thy ===== *)
theory Markdown
  imports State_Sidecar Utf8 "HOL-Library.Multiset"
begin

text \<open>
  The Markdown renderer, \<open>crates/agm-core/src/renderer/markdown.rs\<close>. The output buffer is the
  returned text. \<open>uc\<close> is Unicode's upper case of one character.
\<close>

section \<open>Small pieces\<close>

text \<open>A line of text with its newline.\<close>

definition ln :: "string \<Rightarrow> string" where
  "ln s = s @ [nl]"

text \<open>What an optional part adds.\<close>

definition opt :: "('a \<Rightarrow> string) \<Rightarrow> 'a option \<Rightarrow> string" where
  "opt f v = (case v of None \<Rightarrow> [] | Some x \<Rightarrow> f x)"

text \<open>What an optional list adds, nothing when it is empty.\<close>

definition opt_list :: "('a list \<Rightarrow> string) \<Rightarrow> 'a list option \<Rightarrow> string" where
  "opt_list f v = (case v of None \<Rightarrow> [] | Some xs \<Rightarrow> if xs = [] then [] else f xs)"

definition table_row :: "string \<Rightarrow> string \<Rightarrow> string" where
  "table_row key v = ln (''| '' @ key @ '' | '' @ v @ '' |'')"

definition format_id_list :: "string list \<Rightarrow> string" where
  "format_id_list ids = join '', '' (map (\<lambda>i. CHR 0x60 # i @ [CHR 0x60]) ids)"

text \<open>A text in backquotes.\<close>

definition bq :: "string \<Rightarrow> string" where
  "bq s = CHR 0x60 # s @ [CHR 0x60]"

definition render_opt_rel :: "string \<Rightarrow> string list option \<Rightarrow> string" where
  "render_opt_rel label v = opt_list (\<lambda>ids. nl # ln (''**'' @ label @ ''**: '' @ format_id_list ids)) v"

definition bullets :: "string \<Rightarrow> string list option \<Rightarrow> string" where
  "bullets title v =
     opt_list (\<lambda>xs. nl # ln (''#### '' @ title) @ nl # concat (map (\<lambda>x. ln (''- '' @ x)) xs)) v"

definition paragraph_of :: "string \<Rightarrow> string option \<Rightarrow> string" where
  "paragraph_of title v = opt (\<lambda>t. nl # ln (''#### '' @ title) @ nl # ln t) v"

section \<open>Sub-renderers\<close>

definition render_code_block_md :: "code_block \<Rightarrow> string" where
  "render_code_block_md cb =
     opt (\<lambda>t. ln (''**File**: '' @ bq t @ ''  '')) (cb_target cb) @
     opt (\<lambda>a. ln (''**Anchor**: '' @ bq a @ ''  '')) (cb_anchor cb) @
     ln (''**Action**: '' @ show_code_action (cb_action cb) @ ''  '') @ [nl] @
     ln (replicate 3 CHR 0x60 @ unwrap_or_default (cb_lang cb)) @
     cb_body cb @ (if ends_with [nl] (cb_body cb) then [] else [nl]) @
     ln (replicate 3 CHR 0x60)"

definition render_verify_check_md :: "verify_check \<Rightarrow> string" where
  "render_verify_check_md check =
     (case check of
        VcCommand run expect \<Rightarrow> ln (''- '' @ bq run @ opt (\<lambda>e. '' (expect: '' @ e @ '')'') expect)
      | VcFileExists f \<Rightarrow> ln (''- File exists: '' @ bq f)
      | VcFileContains f p \<Rightarrow> ln (''- '' @ bq f @ '' contains '' @ bq p)
      | VcFileNotContains f p \<Rightarrow> ln (''- '' @ bq f @ '' does NOT contain '' @ bq p)
      | VcNodeStatus i st \<Rightarrow> ln (''- Node '' @ bq i @ '' has status '' @ bq st))"

definition format_file_range :: "file_range \<Rightarrow> string" where
  "format_file_range r =
     (case r of
        RangeFull \<Rightarrow> ''full''
      | RangeLines s e \<Rightarrow> show_word s @ ''-'' @ show_word e
      | RangeFunction name \<Rightarrow> ''function: '' @ name)"

definition render_agent_context_md :: "agent_context \<Rightarrow> string" where
  "render_agent_context_md ctx =
     ln ''#### Agent Context'' @ [nl] @
     opt (\<lambda>ids. ln (''**Load nodes**: '' @ format_id_list ids) @ [nl]) (ac_load_nodes ctx) @
     opt (\<lambda>fs. ln ''**Load files**:'' @
       concat (map (\<lambda>lf. ln (''- '' @ bq (lf_path lf) @ '' (range: '' @ format_file_range (lf_range lf) @ '')'')) fs) @
       [nl]) (ac_load_files ctx) @
     opt (\<lambda>hint. ln (''**System hint**: '' @ hint) @ [nl]) (ac_system_hint ctx)"

definition render_memory_table_md :: "memory_entry list \<Rightarrow> string" where
  "render_memory_table_md entries =
     ln ''| Key | Topic | Action | Value |'' @ ln ''|-----|-------|--------|-------|'' @
     concat (map (\<lambda>e. ln (''| '' @ me_key e @ '' | '' @ me_topic e @ '' | '' @ show_memory_action (me_action e) @
       '' | '' @ (case me_value e of Some v \<Rightarrow> v | None \<Rightarrow> ''-'') @ '' |'')) entries)"

definition render_parallel_groups_md :: "parallel_group list \<Rightarrow> string" where
  "render_parallel_groups_md groups =
     ln ''| Group | Nodes | Strategy |'' @ ln ''|-------|-------|----------|'' @
     concat (map (\<lambda>g. ln (''| '' @ pg_group g @ '' | '' @ join '', '' (pg_nodes g) @ '' | '' @
       show_strategy (pg_strategy g) @ '' |'')) groups)"

section \<open>Types\<close>

definition type_order :: "node_type list" where
  "type_order = [NtFacts, NtRules, NtWorkflow, NtEntity, NtDecision, NtException, NtExample, NtGlossary,
     NtAntiPattern, NtOrchestration, NtTicket]"

fun type_display_name :: "node_type \<Rightarrow> string" where
  "type_display_name NtFacts = ''Facts''"
| "type_display_name NtRules = ''Rules''"
| "type_display_name NtWorkflow = ''Workflow''"
| "type_display_name NtEntity = ''Entity''"
| "type_display_name NtDecision = ''Decision''"
| "type_display_name NtException = ''Exception''"
| "type_display_name NtExample = ''Example''"
| "type_display_name NtGlossary = ''Glossary''"
| "type_display_name NtAntiPattern = ''Anti-Pattern''"
| "type_display_name NtOrchestration = ''Orchestration''"
| "type_display_name NtTicket = ''Tickets''"
| "type_display_name (NtCustom _) = ''Custom''"

text \<open>Equality of \<open>std::mem::discriminant\<close>.\<close>

definition same_variant :: "node_type \<Rightarrow> node_type \<Rightarrow> bool" where
  "same_variant a b \<longleftrightarrow> a = b \<or> (\<exists>s. a = NtCustom s) \<and> (\<exists>t. b = NtCustom t)"

lemma same_variant_code [code]:
  "same_variant a b \<longleftrightarrow> a = b \<or>
     (case a of NtCustom _ \<Rightarrow> (case b of NtCustom _ \<Rightarrow> True | _ \<Rightarrow> False) | _ \<Rightarrow> False)"
  by (cases a; cases b) (simp_all add: same_variant_def)

definition capitalize_first :: "(string \<Rightarrow> string) \<Rightarrow> string \<Rightarrow> string" where
  "capitalize_first uc s =
     (case str_chars s of [] \<Rightarrow> [] | c # _ \<Rightarrow> uc c @ drop (length c) s)"

section \<open>A node\<close>

definition render_ticket_head :: "node \<Rightarrow> string" where
  "render_ticket_head n =
     opt (\<lambda>t. ln (''**Ticket:** '' @ t) @ [nl]) (n_title n) @
     (if n_priority n \<noteq> None \<or> n_action n \<noteq> None \<or> n_sdd_phase n \<noteq> None then
        ln ''| Field | Value |'' @ ln ''|-------|-------|'' @
        opt (\<lambda>p. table_row ''Priority'' (show_priority p)) (n_priority n) @
        opt (\<lambda>a. table_row ''Action'' (show_ticket_action a)) (n_action n) @
        opt (\<lambda>p. table_row ''Phase'' (show_sdd_phase p)) (n_sdd_phase n) @ [nl]
      else []) @
     opt ln (n_description n)"

definition render_control :: "node \<Rightarrow> string" where
  "render_control n =
     (if (if n_type n = NtTicket then False else n_priority n \<noteq> None) \<or> n_stability n \<noteq> None \<or>
         n_confidence n \<noteq> None \<or> n_status n \<noteq> None then
        [nl] @ ln ''| Control | Value |'' @ ln ''|---------|-------|'' @
        (if n_type n \<noteq> NtTicket then opt (\<lambda>p. table_row ''Priority'' (show_priority p)) (n_priority n) else []) @
        opt (\<lambda>s. table_row ''Stability'' (show_stability s)) (n_stability n) @
        opt (\<lambda>c. table_row ''Confidence'' (show_confidence c)) (n_confidence n) @
        opt (\<lambda>s. table_row ''Status'' (show_node_status s)) (n_status n)
      else [])"

definition render_ticket_tail :: "node \<Rightarrow> string" where
  "render_ticket_tail n =
     opt (\<lambda>a. nl # ln (''**Assignee:** '' @ a)) (n_assignee n) @
     opt_list (\<lambda>ls. nl # ln (''**Labels:** '' @ join '', '' ls)) (n_labels n) @
     opt (\<lambda>t. nl # ln (''**Ticket ID:** '' @ t)) (n_ticket_id n) @
     opt (\<lambda>p. nl # ln ''#### Prompt'' @ nl # ln p) (n_prompt n)"

definition render_exec_state :: "node \<Rightarrow> string" where
  "render_exec_state n =
     (if n_execution_status n \<noteq> None \<or> n_executed_by n \<noteq> None \<or> n_executed_at n \<noteq> None then
        [nl] @ ln ''#### Execution State'' @ [nl] @
        opt (\<lambda>s. ln (''- **Status**: '' @ show_execution_status s)) (n_execution_status n) @
        opt (\<lambda>b. ln (''- **Executed by**: '' @ b)) (n_executed_by n) @
        opt (\<lambda>a. ln (''- **Executed at**: '' @ a)) (n_executed_at n) @
        opt (\<lambda>r. ln (''- **Retry count**: '' @ show_word r)) (n_retry_count n)
      else [])"

text \<open>The text fields, then the code, checks, agent context, memory and groups.\<close>

definition render_node_text :: "node \<Rightarrow> string" where
  "render_node_text n =
     paragraph_of ''Detail'' (n_detail n) @
     bullets ''Items'' (n_items n) @
     opt_list (\<lambda>xs. nl # ln ''#### Steps'' @ nl #
       concat (map (\<lambda>(i, x). ln (show_nat (i + 1) @ ''. '' @ x)) (List.enumerate 0 xs))) (n_steps n) @
     bullets ''Fields'' (n_fields n) @
     bullets ''Rationale'' (n_rationale n) @
     bullets ''Tradeoffs'' (n_tradeoffs n) @
     bullets ''Resolution'' (n_resolution n) @
     paragraph_of ''Examples'' (n_examples n) @
     paragraph_of ''Notes'' (n_notes n)"

definition render_node_blocks :: "node \<Rightarrow> string" where
  "render_node_blocks n =
     opt (\<lambda>cb. nl # ln ''#### Code'' @ nl # render_code_block_md cb) (n_code n) @
     opt_list (\<lambda>cbs. nl # ln ''#### Code Blocks'' @ nl # concat (map render_code_block_md cbs)) (n_code_blocks n) @
     opt_list (\<lambda>cs. nl # ln ''#### Verification'' @ nl # concat (map render_verify_check_md cs)) (n_verify n) @
     opt (\<lambda>ctx. nl # render_agent_context_md ctx) (n_agent_context n) @
     opt_list (\<lambda>es. nl # ln ''#### Memory'' @ nl # render_memory_table_md es) (n_memory n) @
     opt_list (\<lambda>gs. nl # ln ''#### Parallel Groups'' @ nl # render_parallel_groups_md gs) (n_parallel_groups n)"

definition render_node_section :: "node \<Rightarrow> string" where
  "render_node_section n =
     ln (''### '' @ bq (n_id n)) @ [nl] @
     (if n_type n = NtTicket then render_ticket_head n else []) @
     ln (n_summary n) @
     render_control n @
     (if n_type n = NtTicket then render_ticket_tail n else []) @
     opt_list (\<lambda>ts. nl # ln (''**Tags**: '' @ join '', '' ts)) (n_tags n) @
     render_opt_rel ''Depends on'' (n_depends n) @
     render_opt_rel ''Related to'' (n_related_to n) @
     render_opt_rel ''Replaces'' (n_replaces n) @
     render_opt_rel ''Conflicts with'' (n_conflicts n) @
     render_opt_rel ''See also'' (n_see_also n) @
     render_opt_rel ''Input'' (n_input n) @
     render_opt_rel ''Output'' (n_output n) @
     render_node_text n @
     render_node_blocks n @
     render_exec_state n @
     [nl] @ ln ''---''"

section \<open>The document\<close>

definition render_md_header :: "header \<Rightarrow> string" where
  "render_md_header h =
     ln (''# '' @ h_package h @ '' v'' @ h_version h) @
     opt (\<lambda>t. nl # ln (''> '' @ t)) (h_title h) @
     opt (\<lambda>d. nl # ln d) (h_description h) @
     (if h_owner h \<noteq> None \<or> h_status h \<noteq> None \<or> h_default_load h \<noteq> None \<or> h_tags h \<noteq> None \<or>
         h_target_runtime h \<noteq> None then
        [nl] @ ln ''| Property | Value |'' @ ln ''|----------|-------|'' @
        opt (table_row ''Owner'') (h_owner h) @
        opt (table_row ''Status'') (h_status h) @
        opt (table_row ''Default load'') (h_default_load h) @
        opt (\<lambda>ts. table_row ''Tags'' (join '', '' ts)) (h_tags h) @
        opt (table_row ''Target runtime'') (h_target_runtime h)
      else []) @
     opt_list (\<lambda>is. [nl] @ ln ''## Imports'' @ [nl] @
       concat (map (\<lambda>i. ln (''- '' @ bq (show_import_entry i))) is)) (h_imports h)"

definition render_group :: "string \<Rightarrow> node list \<Rightarrow> string" where
  "render_group title ns =
     (if ns = [] then []
      else [nl] @ ln (''## '' @ title) @ concat (map (\<lambda>n. nl # render_node_section n) ns))"

fun render_typed_groups :: "node_type list \<Rightarrow> node list \<Rightarrow> string \<times> node list" where
  "render_typed_groups [] remaining = ([], remaining)"
| "render_typed_groups (t # ts) remaining =
     (let chosen = filter (\<lambda>n. same_variant (n_type n) t) remaining in
      if chosen = [] then render_typed_groups ts remaining
      else
        (let (rest, left) = render_typed_groups ts (filter (\<lambda>n. \<not> same_variant (n_type n) t) remaining) in
         (render_group (type_display_name t) chosen @ rest, left)))"

definition render_markdown :: "(string \<Rightarrow> string) \<Rightarrow> agm_file \<Rightarrow> string" where
  "render_markdown uc file =
     (let (typed, remaining) = render_typed_groups type_order (f_nodes file);
          custom_types = sorted_list_of_set (set (map (\<lambda>n. show_node_type (n_type n)) remaining)) in
      render_md_header (f_header file) @ typed @
      concat (map (\<lambda>name. render_group (capitalize_first uc name)
        (filter (\<lambda>n. show_node_type (n_type n) = name) remaining)) custom_types))"

section \<open>Properties\<close>

definition group_ok :: "node list \<Rightarrow> string \<times> node list \<Rightarrow> bool" where
  "group_ok ns g \<longleftrightarrow> (\<exists>P. snd g = filter P ns)"

lemma render_typed_groups_split:
  assumes "render_typed_groups ts ns = (out, left)"
  shows "\<exists>groups. out = concat (map (\<lambda>(t, g). render_group t g) groups) \<and>
    mset (concat (map snd groups)) + mset left = mset ns \<and>
    (\<forall>g \<in> set groups. group_ok ns g) \<and> (\<exists>P. left = filter P ns)"
  using assms
proof (induction ts ns arbitrary: out left rule: render_typed_groups.induct)
  case (1 ns)
  then show ?case by (intro exI [of _ "[]"]) (auto intro: exI [of _ "\<lambda>_. True"])
next
  case (2 t ts ns)
  let ?sel = "filter (\<lambda>n. same_variant (n_type n) t) ns"
    and ?others = "filter (\<lambda>n. \<not> same_variant (n_type n) t) ns"
  show ?case
  proof (cases "?sel = []")
    case True
    then show ?thesis using 2 by simp
  next
    case False
    obtain rest where rest: "render_typed_groups ts ?others = (rest, left)"
      and out: "out = render_group (type_display_name t) ?sel @ rest"
      using "2.prems" False by (auto simp: Let_def case_prod_beta prod_eq_iff)
    obtain groups P where g: "rest = concat (map (\<lambda>(t, g). render_group t g) groups)"
      "mset (concat (map snd groups)) + mset left = mset ?others" "\<forall>g \<in> set groups. group_ok ?others g"
      "left = filter P ?others"
      using "2.IH"(2) [OF refl False rest] by blast
    have "mset ?sel + mset ?others = mset ns" by simp
    then have all: "mset (concat (map snd ((type_display_name t, ?sel) # groups))) + mset left = mset ns"
      using g(2) by (simp only: list.map concat.simps mset_append snd_conv union_assoc)
    show ?thesis
    proof (intro exI [of _ "(type_display_name t, ?sel) # groups"] conjI)
      show "mset (concat (map snd ((type_display_name t, ?sel) # groups))) + mset left = mset ns" by (rule all)
      show "\<exists>P. left = filter P ns"
        using g(4) by (intro exI [of _ "\<lambda>n. \<not> same_variant (n_type n) t \<and> P n"]) simp
    qed (use out g(1,3) in \<open>auto simp: group_ok_def\<close>)
  qed
qed

lemma custom_groups:
  assumes "distinct names"
  shows "mset (concat (map (\<lambda>name. filter (\<lambda>n. f n = name) ns) names)) = mset (filter (\<lambda>n. f n \<in> set names) ns)"
  using assms
proof (induction names)
  case (Cons a names)
  have "filter_mset (\<lambda>n. f n = a) (mset ns) + filter_mset (\<lambda>n. f n \<in> set names) (mset ns) =
      filter_mset (\<lambda>n. f n = a \<or> f n \<in> set names) (mset ns)"
    using Cons.prems by (induction ns) auto
  with Cons show ?case by simp
qed simp

text \<open>The Markdown document shows every node exactly once: it is the header followed by sections, each a
  title over some nodes of the file in file order, and together the sections hold every node
  once.\<close>

lemma markdown_every_node_once:
  "\<exists>groups. render_markdown uc file =
       render_md_header (f_header file) @ concat (map (\<lambda>(t, g). render_group t g) groups) \<and>
     mset (concat (map snd groups)) = mset (f_nodes file) \<and>
     (\<forall>g \<in> set groups. \<exists>P. snd g = filter P (f_nodes file))"
proof -
  obtain typed left where t: "render_typed_groups type_order (f_nodes file) = (typed, left)" by force
  obtain groups P where g: "typed = concat (map (\<lambda>(t, g). render_group t g) groups)"
    "mset (concat (map snd groups)) + mset left = mset (f_nodes file)"
    "\<forall>g \<in> set groups. group_ok (f_nodes file) g" "left = filter P (f_nodes file)"
    using render_typed_groups_split [OF t] by blast
  let ?names = "sorted_list_of_set (set (map (\<lambda>n. show_node_type (n_type n)) left))"
  let ?custom = "map (\<lambda>name. (capitalize_first uc name, filter (\<lambda>n. show_node_type (n_type n) = name) left)) ?names"
  have "mset (concat (map snd ?custom)) = mset (filter (\<lambda>n. show_node_type (n_type n) \<in> set ?names) left)"
    using custom_groups [of ?names "\<lambda>n. show_node_type (n_type n)" left] by (simp add: o_def)
  also have "filter (\<lambda>n. show_node_type (n_type n) \<in> set ?names) left = left"
    by (rule filter_True) simp
  finally have "mset (concat (map snd (groups @ ?custom))) = mset (f_nodes file)"
    using g(2) by (simp only: map_append concat_append mset_append)
  moreover have "render_markdown uc file =
      render_md_header (f_header file) @ concat (map (\<lambda>(t, g). render_group t g) (groups @ ?custom))"
    using t g(1) by (simp add: render_markdown_def o_def)
  moreover have "\<forall>g \<in> set (groups @ ?custom). \<exists>P. snd g = filter P (f_nodes file)"
    using g(3) unfolding g(4) by (auto simp: group_ok_def)
  ultimately show ?thesis by blast
qed

definition sample_doc :: agm_file where
  "sample_doc =
     \<lparr>f_header = \<lparr>h_agm = ''1'', h_package = ''p'', h_version = ''0.1.0'', h_title = None,
        h_owner = None, h_imports = None, h_default_load = None, h_description = None,
        h_tags = None, h_status = None, h_load_profiles = None, h_target_runtime = None\<rparr>,
      f_nodes = [node_default, node_default\<lparr>n_type := NtCustom ''x''\<rparr>]\<rparr>"

lemma markdown_every_node_once_witness:
  "\<exists>groups. render_markdown (map to_upper) sample_doc =
       render_md_header (f_header sample_doc) @ concat (map (\<lambda>(t, g). render_group t g) groups) \<and>
     length (concat (map snd groups)) = 2"
proof -
  obtain groups where g: "render_markdown (map to_upper) sample_doc =
      render_md_header (f_header sample_doc) @ concat (map (\<lambda>(t, g). render_group t g) groups)"
    "mset (concat (map snd groups)) = mset (f_nodes sample_doc)"
    using markdown_every_node_once by blast
  from arg_cong [OF g(2), of size] have "length (concat (map snd groups)) = 2"
    by (simp add: sample_doc_def del: length_concat)
  with g(1) show ?thesis by blast
qed

end
