(* ===== verification/Diff.thy ===== *)
theory Diff
  imports Markdown Parse_Fields
begin

text \<open>
  The semantic diff of two files, \<open>crates/agm-core/src/diff/\<close>: headers (\<open>header.rs\<close>), nodes
  matched by identifier (\<open>node.rs\<close>), their fields (\<open>fields.rs\<close>, \<open>relation.rs\<close>), the report
  (\<open>mod.rs\<close>) and its text forms (\<open>render.rs\<close>). The JSON text of structured values is the
  parameter \<open>json_texts\<close>. A function that pushes to a list of changes returns what it pushes.
\<close>

section \<open>Changes\<close>

datatype change_kind = Added | Removed | Modified

fun show_change_kind :: "change_kind \<Rightarrow> string" where
  "show_change_kind Added = ''added''"
| "show_change_kind Removed = ''removed''"
| "show_change_kind Modified = ''modified''"

datatype change_severity = Info | Minor | Breaking

fun show_change_severity :: "change_severity \<Rightarrow> string" where
  "show_change_severity Info = ''info''"
| "show_change_severity Minor = ''minor''"
| "show_change_severity Breaking = ''breaking''"

text \<open>The derived order: the constructors in the order of their declaration.\<close>

fun change_rank :: "change_severity \<Rightarrow> nat" where
  "change_rank Info = 0"
| "change_rank Minor = 1"
| "change_rank Breaking = 2"

instantiation change_severity :: linorder
begin

definition less_eq_change_severity :: "change_severity \<Rightarrow> change_severity \<Rightarrow> bool" where
  "less_eq_change_severity a b \<longleftrightarrow> change_rank a \<le> change_rank b"

definition less_change_severity :: "change_severity \<Rightarrow> change_severity \<Rightarrow> bool" where
  "less_change_severity a b \<longleftrightarrow> change_rank a < change_rank b"

instance
proof
  fix a b :: change_severity
  assume "a \<le> b" and "b \<le> a"
  then show "a = b"
    by (cases a; cases b) (simp_all add: less_eq_change_severity_def)
qed (auto simp: less_eq_change_severity_def less_change_severity_def)

end

datatype field_value_snapshot =
    SnScalar string | SnList "string list" | SnBlock string | SnComplex string

fun from_field_value :: "field_value \<Rightarrow> field_value_snapshot" where
  "from_field_value (FvScalar s) = SnScalar s"
| "from_field_value (FvList l) = SnList l"
| "from_field_value (FvBlock b) = SnBlock b"

record field_change =
  fc_field :: string
  fc_kind :: change_kind
  fc_severity :: change_severity
  fc_old :: "field_value_snapshot option"
  fc_new :: "field_value_snapshot option"

record header_change =
  hc_field :: string
  hc_kind :: change_kind
  hc_severity :: change_severity
  hc_old :: "string option"
  hc_new :: "string option"

record node_diff =
  nd_id :: string
  nd_field_changes :: "field_change list"
  nd_breaking :: bool

record diff_summary =
  ds_added :: nat
  ds_removed :: nat
  ds_modified :: nat
  ds_unchanged :: nat
  ds_header_changes :: nat
  ds_field_changes :: nat
  ds_breaking :: bool

record diff_report =
  dr_header_changes :: "header_change list"
  dr_added :: "string list"
  dr_removed :: "string list"
  dr_modified :: "node_diff list"
  dr_summary :: diff_summary

section \<open>Severities\<close>

definition classify_severity :: "string \<Rightarrow> change_kind \<Rightarrow> change_severity" where
  "classify_severity f kind =
     (if f \<in> {''node_type'', ''type''} then Breaking
      else if f = ''summary'' then Minor
      else if f \<in> {''priority'', ''stability'', ''confidence'', ''status''} then (if kind = Added then Info else Minor)
      else if f = ''depends'' then (if kind = Removed then Breaking else Minor)
      else if f \<in> {''related_to'', ''see_also''} then Info
      else if f \<in> {''replaces'', ''conflicts''} then Minor
      else if f = ''items'' then Minor
      else if f = ''steps'' then (if kind = Removed then Breaking else Minor)
      else if f \<in> {''fields'', ''input'', ''output''} then (if kind = Removed then Breaking else Minor)
      else if f \<in> {''detail'', ''examples'', ''notes''} then Info
      else if f \<in> {''rationale'', ''tradeoffs'', ''resolution''} then Info
      else if f \<in> {''code'', ''code_blocks''} then (if kind = Removed then Breaking else Minor)
      else if f = ''verify'' then Minor
      else if f = ''agent_context'' then (if kind = Added then Info else Minor)
      else if f = ''target'' then (if kind = Removed then Breaking else Minor)
      else if f \<in> {''execution_status'', ''executed_by'', ''executed_at'', ''execution_log'', ''retry_count''} then Info
      else if f = ''parallel_groups'' then (if kind = Removed then Breaking else Minor)
      else if f = ''memory'' then (if kind = Added then Info else Minor)
      else if f = ''scope'' then (if kind = Added then Info else Minor)
      else if f = ''applies_when'' then (if kind = Added then Info else Minor)
      else if f \<in> {''valid_from'', ''valid_until''} then Info
      else if f \<in> {''tags'', ''keywords''} then Info
      else if f = ''aliases'' then (if kind = Added then Info else Minor)
      else Info)"

definition header_field_severity :: "string \<Rightarrow> change_kind \<Rightarrow> change_severity" where
  "header_field_severity f kind =
     (if f \<in> {''agm'', ''package''} then Breaking
      else if f \<in> {''version'', ''title'', ''owner'', ''description'', ''tags''} then Info
      else if f \<in> {''status'', ''default_load''} then (if kind = Added then Info else Minor)
      else if f = ''imports'' then (if kind = Removed then Breaking else Minor)
      else if f \<in> {''load_profiles'', ''target_runtime''} then (if kind = Added then Info else Minor)
      else Info)"

section \<open>Comparing maps\<close>

text \<open>
  The three loops over two ordered maps: keys of the left map only, keys of the right map only,
  keys of both whose values differ.
\<close>

definition keyed_changes ::
  "('k::linorder \<Rightarrow> 'v \<Rightarrow> 'c) \<Rightarrow> ('k \<Rightarrow> 'v \<Rightarrow> 'c) \<Rightarrow> ('k \<Rightarrow> 'v \<Rightarrow> 'v \<Rightarrow> 'c option) \<Rightarrow>
   ('k, 'v) btree \<Rightarrow> ('k, 'v) btree \<Rightarrow> 'c list" where
  "keyed_changes gone came differ l r =
     List.map_filter (\<lambda>(k, v). if bt_get r k = None then Some (gone k v) else None) l @
     List.map_filter (\<lambda>(k, v). if bt_get l k = None then Some (came k v) else None) r @
     List.map_filter (\<lambda>(k, v). case bt_get r k of None \<Rightarrow> None | Some w \<Rightarrow> differ k v w) l"

text \<open>\<open>collect\<close> into a \<open>BTreeMap\<close>: a later entry replaces an earlier one with its key.\<close>

definition bt_collect :: "('k::linorder \<times> 'v) list \<Rightarrow> ('k, 'v) btree" where
  "bt_collect xs = fold (\<lambda>(k, v). bt_insert k v) xs []"

section \<open>Lists\<close>

definition element_removed :: "string \<Rightarrow> string \<Rightarrow> field_change" where
  "element_removed f e = \<lparr>fc_field = f, fc_kind = Removed, fc_severity = classify_severity f Removed,
     fc_old = Some (SnScalar e), fc_new = None\<rparr>"

definition element_added :: "string \<Rightarrow> string \<Rightarrow> field_change" where
  "element_added f e = \<lparr>fc_field = f, fc_kind = Added, fc_severity = classify_severity f Added,
     fc_old = None, fc_new = Some (SnScalar e)\<rparr>"

text \<open>\<open>BTreeSet::difference\<close> lists the elements in increasing order.\<close>

definition diff_unordered :: "string \<Rightarrow> string list \<Rightarrow> string list \<Rightarrow> field_change list" where
  "diff_unordered f old new =
     map (element_removed f) (sorted_list_of_set (set old - set new)) @
     map (element_added f) (sorted_list_of_set (set new - set old))"

definition diff_ordered :: "string \<Rightarrow> string list \<Rightarrow> string list \<Rightarrow> field_change list" where
  "diff_ordered f old new =
     map (element_removed f) (sorted_list_of_set (set old - set new)) @
     map (element_added f) (sorted_list_of_set (set new - set old)) @
     (if set old = set new \<and> old \<noteq> new
      then [\<lparr>fc_field = f, fc_kind = Modified, fc_severity = Minor,
             fc_old = Some (SnList old), fc_new = Some (SnList new)\<rparr>]
      else [])"

definition is_ordered_field :: "string \<Rightarrow> bool" where
  "is_ordered_field f \<longleftrightarrow> f \<in> {''steps'', ''depends''}"

definition diff_relation_field :: "string \<Rightarrow> string list \<Rightarrow> string list \<Rightarrow> field_change list" where
  "diff_relation_field f old new =
     (if is_ordered_field f then diff_ordered f old new else diff_unordered f old new)"

section \<open>Fields of a node\<close>

definition diff_opt_scalar :: "string \<Rightarrow> string option \<Rightarrow> string option \<Rightarrow> field_change list" where
  "diff_opt_scalar f l r =
     (case (l, r) of
        (None, None) \<Rightarrow> []
      | (None, Some b) \<Rightarrow> [\<lparr>fc_field = f, fc_kind = Added, fc_severity = classify_severity f Added,
          fc_old = None, fc_new = Some (SnScalar b)\<rparr>]
      | (Some a, None) \<Rightarrow> [\<lparr>fc_field = f, fc_kind = Removed, fc_severity = classify_severity f Removed,
          fc_old = Some (SnScalar a), fc_new = None\<rparr>]
      | (Some a, Some b) \<Rightarrow>
          (if a \<noteq> b then [\<lparr>fc_field = f, fc_kind = Modified, fc_severity = classify_severity f Modified,
             fc_old = Some (SnScalar a), fc_new = Some (SnScalar b)\<rparr>] else []))"

definition diff_opt_display :: "string \<Rightarrow> string option \<Rightarrow> string option \<Rightarrow> field_change list" where
  "diff_opt_display f l r = diff_opt_scalar f l r"

definition diff_opt_list_field :: "string \<Rightarrow> string list option \<Rightarrow> string list option \<Rightarrow> field_change list" where
  "diff_opt_list_field f l r =
     (let ls = (case l of None \<Rightarrow> [] | Some xs \<Rightarrow> xs); rs = (case r of None \<Rightarrow> [] | Some ys \<Rightarrow> ys) in
      if l = None \<and> r = None then [] else diff_relation_field f ls rs)"

definition diff_opt_complex :: "('a \<Rightarrow> string) \<Rightarrow> string \<Rightarrow> 'a option \<Rightarrow> 'a option \<Rightarrow> field_change list" where
  "diff_opt_complex json f l r =
     (case (l, r) of
        (None, None) \<Rightarrow> []
      | (None, Some b) \<Rightarrow> [\<lparr>fc_field = f, fc_kind = Added, fc_severity = classify_severity f Added,
          fc_old = None, fc_new = Some (SnComplex (json b))\<rparr>]
      | (Some a, None) \<Rightarrow> [\<lparr>fc_field = f, fc_kind = Removed, fc_severity = classify_severity f Removed,
          fc_old = Some (SnComplex (json a)), fc_new = None\<rparr>]
      | (Some a, Some b) \<Rightarrow>
          (if a \<noteq> b \<and> json a \<noteq> json b
           then [\<lparr>fc_field = f, fc_kind = Modified, fc_severity = classify_severity f Modified,
             fc_old = Some (SnComplex (json a)), fc_new = Some (SnComplex (json b))\<rparr>] else []))"

definition diff_extra_fields :: "(string, field_value) btree \<Rightarrow> (string, field_value) btree \<Rightarrow> field_change list" where
  "diff_extra_fields l r =
     keyed_changes
       (\<lambda>k v. \<lparr>fc_field = k, fc_kind = Removed, fc_severity = Info, fc_old = Some (from_field_value v), fc_new = None\<rparr>)
       (\<lambda>k v. \<lparr>fc_field = k, fc_kind = Added, fc_severity = Info, fc_old = None, fc_new = Some (from_field_value v)\<rparr>)
       (\<lambda>k v w. if v \<noteq> w then Some \<lparr>fc_field = k, fc_kind = Modified, fc_severity = Info,
          fc_old = Some (from_field_value v), fc_new = Some (from_field_value w)\<rparr> else None)
       l r"

text \<open>What \<open>serde_json::to_string\<close> writes, the empty text where it fails.\<close>

record json_texts =
  js_code :: "code_block \<Rightarrow> string"
  js_code_blocks :: "code_block list \<Rightarrow> string"
  js_verify :: "verify_check list \<Rightarrow> string"
  js_context :: "agent_context \<Rightarrow> string"
  js_groups :: "parallel_group list \<Rightarrow> string"
  js_memory :: "memory_entry list \<Rightarrow> string"

definition diff_node_type :: "node \<Rightarrow> node \<Rightarrow> field_change list" where
  "diff_node_type l r =
     (if n_type l \<noteq> n_type r
      then [\<lparr>fc_field = ''type'', fc_kind = Modified, fc_severity = classify_severity ''node_type'' Modified,
             fc_old = Some (SnScalar (show_node_type (n_type l))), fc_new = Some (SnScalar (show_node_type (n_type r)))\<rparr>]
      else [])"

definition diff_summary_field :: "node \<Rightarrow> node \<Rightarrow> field_change list" where
  "diff_summary_field l r =
     (if n_summary l \<noteq> n_summary r
      then [\<lparr>fc_field = ''summary'', fc_kind = Modified, fc_severity = classify_severity ''summary'' Modified,
             fc_old = Some (SnScalar (n_summary l)), fc_new = Some (SnScalar (n_summary r))\<rparr>]
      else [])"

text \<open>Control fields.\<close>

definition diff_control_fields :: "node \<Rightarrow> node \<Rightarrow> field_change list" where
  "diff_control_fields l r =
     diff_opt_display ''priority'' (map_option show_priority (n_priority l)) (map_option show_priority (n_priority r)) @
     diff_opt_display ''stability'' (map_option show_stability (n_stability l)) (map_option show_stability (n_stability r)) @
     diff_opt_display ''confidence'' (map_option show_confidence (n_confidence l)) (map_option show_confidence (n_confidence r)) @
     diff_opt_display ''status'' (map_option show_node_status (n_status l)) (map_option show_node_status (n_status r))"

text \<open>Relationship fields.\<close>

definition diff_relation_fields :: "node \<Rightarrow> node \<Rightarrow> field_change list" where
  "diff_relation_fields l r =
     diff_opt_list_field ''depends'' (n_depends l) (n_depends r) @
     diff_opt_list_field ''related_to'' (n_related_to l) (n_related_to r) @
     diff_opt_list_field ''replaces'' (n_replaces l) (n_replaces r) @
     diff_opt_list_field ''conflicts'' (n_conflicts l) (n_conflicts r) @
     diff_opt_list_field ''see_also'' (n_see_also l) (n_see_also r)"

text \<open>Operational lists.\<close>

definition diff_operational_fields :: "node \<Rightarrow> node \<Rightarrow> field_change list" where
  "diff_operational_fields l r =
     diff_opt_list_field ''items'' (n_items l) (n_items r) @
     diff_opt_list_field ''steps'' (n_steps l) (n_steps r) @
     diff_opt_list_field ''fields'' (n_fields l) (n_fields r) @
     diff_opt_list_field ''input'' (n_input l) (n_input r) @
     diff_opt_list_field ''output'' (n_output l) (n_output r)"

text \<open>Explanatory fields.\<close>

definition diff_explanatory_fields :: "node \<Rightarrow> node \<Rightarrow> field_change list" where
  "diff_explanatory_fields l r =
     diff_opt_scalar ''detail'' (n_detail l) (n_detail r) @
     diff_opt_scalar ''examples'' (n_examples l) (n_examples r) @
     diff_opt_scalar ''notes'' (n_notes l) (n_notes r) @
     diff_opt_list_field ''rationale'' (n_rationale l) (n_rationale r) @
     diff_opt_list_field ''tradeoffs'' (n_tradeoffs l) (n_tradeoffs r) @
     diff_opt_list_field ''resolution'' (n_resolution l) (n_resolution r)"

text \<open>Executable fields.\<close>

definition diff_executable_fields :: "json_texts \<Rightarrow> node \<Rightarrow> node \<Rightarrow> field_change list" where
  "diff_executable_fields js l r =
     diff_opt_scalar ''target'' (n_target l) (n_target r) @
     diff_opt_complex (js_code js) ''code'' (n_code l) (n_code r) @
     diff_opt_complex (js_code_blocks js) ''code_blocks'' (n_code_blocks l) (n_code_blocks r) @
     diff_opt_complex (js_verify js) ''verify'' (n_verify l) (n_verify r) @
     diff_opt_complex (js_context js) ''agent_context'' (n_agent_context l) (n_agent_context r)"

text \<open>The execution state.\<close>

definition diff_execution_fields :: "node \<Rightarrow> node \<Rightarrow> field_change list" where
  "diff_execution_fields l r =
     diff_opt_display ''execution_status'' (map_option show_execution_status (n_execution_status l))
       (map_option show_execution_status (n_execution_status r)) @
     diff_opt_scalar ''executed_by'' (n_executed_by l) (n_executed_by r) @
     diff_opt_scalar ''executed_at'' (n_executed_at l) (n_executed_at r) @
     diff_opt_scalar ''execution_log'' (n_execution_log l) (n_execution_log r) @
     diff_opt_display ''retry_count'' (map_option show_word (n_retry_count l)) (map_option show_word (n_retry_count r))"

text \<open>Context fields.\<close>

definition diff_context_fields :: "node \<Rightarrow> node \<Rightarrow> field_change list" where
  "diff_context_fields l r =
     diff_opt_list_field ''scope'' (n_scope l) (n_scope r) @
     diff_opt_scalar ''applies_when'' (n_applies_when l) (n_applies_when r) @
     diff_opt_scalar ''valid_from'' (n_valid_from l) (n_valid_from r) @
     diff_opt_scalar ''valid_until'' (n_valid_until l) (n_valid_until r) @
     diff_opt_list_field ''tags'' (n_tags l) (n_tags r) @
     diff_opt_list_field ''aliases'' (n_aliases l) (n_aliases r) @
     diff_opt_list_field ''keywords'' (n_keywords l) (n_keywords r)"

definition diff_all_fields :: "json_texts \<Rightarrow> node \<Rightarrow> node \<Rightarrow> field_change list" where
  "diff_all_fields js l r =
     diff_node_type l r @
     diff_summary_field l r @
     diff_control_fields l r @
     diff_relation_fields l r @
     diff_operational_fields l r @
     diff_explanatory_fields l r @
     diff_executable_fields js l r @
     diff_execution_fields l r @
     diff_opt_complex (js_groups js) ''parallel_groups'' (n_parallel_groups l) (n_parallel_groups r) @
     diff_opt_complex (js_memory js) ''memory'' (n_memory l) (n_memory r) @
     diff_context_fields l r @
     diff_extra_fields (n_extra_fields l) (n_extra_fields r)"

section \<open>Nodes\<close>

definition nodes_by_id :: "agm_file \<Rightarrow> (string, node) btree" where
  "nodes_by_id f = bt_collect (map (\<lambda>n. (n_id n, n)) (f_nodes f))"

record node_match_result =
  nm_added :: "string list"
  nm_removed :: "string list"
  nm_modified :: "node_diff list"
  nm_unchanged :: nat

text \<open>One turn of the loop over the left nodes that also exist on the right.\<close>

definition match_node :: "json_texts \<Rightarrow> (string, node) btree \<Rightarrow> string \<times> node \<Rightarrow>
    node_diff list \<times> nat \<Rightarrow> node_diff list \<times> nat" where
  "match_node js right_map entry acc =
     (case (entry, acc) of ((i, left_node), (modified, unchanged)) \<Rightarrow>
        (case bt_get right_map i of
           None \<Rightarrow> acc
         | Some right_node \<Rightarrow>
             (let field_changes = diff_all_fields js left_node right_node in
              if field_changes = [] then (modified, Suc unchanged)
              else (modified @ [\<lparr>nd_id = i, nd_field_changes = field_changes,
                      nd_breaking = list_ex (\<lambda>c. fc_severity c = Breaking) field_changes\<rparr>], unchanged))))"

definition diff_nodes :: "json_texts \<Rightarrow> agm_file \<Rightarrow> agm_file \<Rightarrow> node_match_result" where
  "diff_nodes js left right =
     (let left_map = nodes_by_id left; right_map = nodes_by_id right;
          (modified, unchanged) = fold (match_node js right_map) left_map ([], 0) in
      \<lparr>nm_added = filter (\<lambda>i. bt_get left_map i = None) (map fst right_map),
       nm_removed = filter (\<lambda>i. bt_get right_map i = None) (map fst left_map),
       nm_modified = modified, nm_unchanged = unchanged\<rparr>)"

section \<open>Headers\<close>

definition compare_scalar :: "string \<Rightarrow> string \<Rightarrow> string \<Rightarrow> header_change list" where
  "compare_scalar f l r =
     (if l \<noteq> r then [\<lparr>hc_field = f, hc_kind = Modified, hc_severity = header_field_severity f Modified,
        hc_old = Some l, hc_new = Some r\<rparr>] else [])"

definition compare_opt_scalar :: "string \<Rightarrow> string option \<Rightarrow> string option \<Rightarrow> header_change list" where
  "compare_opt_scalar f l r =
     (case (l, r) of
        (None, None) \<Rightarrow> []
      | (None, Some b) \<Rightarrow> [\<lparr>hc_field = f, hc_kind = Added, hc_severity = header_field_severity f Added,
          hc_old = None, hc_new = Some b\<rparr>]
      | (Some a, None) \<Rightarrow> [\<lparr>hc_field = f, hc_kind = Removed, hc_severity = header_field_severity f Removed,
          hc_old = Some a, hc_new = None\<rparr>]
      | (Some a, Some b) \<Rightarrow>
          (if a \<noteq> b then [\<lparr>hc_field = f, hc_kind = Modified, hc_severity = header_field_severity f Modified,
             hc_old = Some a, hc_new = Some b\<rparr>] else []))"

definition bracketed :: "string list \<Rightarrow> string" where
  "bracketed xs = ''['' @ join '', '' xs @ '']''"

definition compare_opt_tag_list :: "string \<Rightarrow> string list option \<Rightarrow> string list option \<Rightarrow> header_change list" where
  "compare_opt_tag_list f l r =
     (let left_set = set (case l of None \<Rightarrow> [] | Some xs \<Rightarrow> xs);
          right_set = set (case r of None \<Rightarrow> [] | Some ys \<Rightarrow> ys) in
      if left_set \<noteq> right_set
      then [\<lparr>hc_field = f,
             hc_kind = (case (l = None \<or> left_set = {}, r = None \<or> right_set = {}) of
                (True, False) \<Rightarrow> Added | (False, True) \<Rightarrow> Removed | _ \<Rightarrow> Modified),
             hc_severity = Info, hc_old = map_option bracketed l, hc_new = map_option bracketed r\<rparr>]
      else [])"

definition imports_by_package :: "import_entry list option \<Rightarrow> (string, import_entry) btree" where
  "imports_by_package v = bt_collect (map (\<lambda>e. (imp_package e, e)) (case v of None \<Rightarrow> [] | Some es \<Rightarrow> es))"

definition compare_imports :: "import_entry list option \<Rightarrow> import_entry list option \<Rightarrow> header_change list" where
  "compare_imports l r =
     keyed_changes
       (\<lambda>_ e. \<lparr>hc_field = ''imports'', hc_kind = Removed, hc_severity = Breaking,
          hc_old = Some (show_import_entry e), hc_new = None\<rparr>)
       (\<lambda>_ e. \<lparr>hc_field = ''imports'', hc_kind = Added, hc_severity = Minor,
          hc_old = None, hc_new = Some (show_import_entry e)\<rparr>)
       (\<lambda>_ a b. if imp_version_constraint a \<noteq> imp_version_constraint b
          then Some \<lparr>hc_field = ''imports'', hc_kind = Modified, hc_severity = Minor,
            hc_old = Some (show_import_entry a), hc_new = Some (show_import_entry b)\<rparr>
          else None)
       (imports_by_package l) (imports_by_package r)"

definition compare_load_profiles ::
  "(string, load_profile) btree option \<Rightarrow> (string, load_profile) btree option \<Rightarrow> header_change list" where
  "compare_load_profiles l r =
     (let left_map = (case l of None \<Rightarrow> [] | Some ps \<Rightarrow> ps); right_map = (case r of None \<Rightarrow> [] | Some ps \<Rightarrow> ps) in
      if left_map = right_map then []
      else keyed_changes
        (\<lambda>k _. \<lparr>hc_field = ''load_profiles'', hc_kind = Removed, hc_severity = Minor, hc_old = Some k, hc_new = None\<rparr>)
        (\<lambda>k _. \<lparr>hc_field = ''load_profiles'', hc_kind = Added, hc_severity = Info, hc_old = None, hc_new = Some k\<rparr>)
        (\<lambda>k a b. if a \<noteq> b
           then Some \<lparr>hc_field = ''load_profiles'', hc_kind = Modified, hc_severity = Minor,
             hc_old = Some k, hc_new = Some k\<rparr>
           else None)
        left_map right_map)"

definition diff_headers :: "header \<Rightarrow> header \<Rightarrow> header_change list" where
  "diff_headers l r =
     compare_scalar ''agm'' (h_agm l) (h_agm r) @
     compare_scalar ''package'' (h_package l) (h_package r) @
     compare_scalar ''version'' (h_version l) (h_version r) @
     compare_opt_scalar ''title'' (h_title l) (h_title r) @
     compare_opt_scalar ''owner'' (h_owner l) (h_owner r) @
     compare_opt_scalar ''description'' (h_description l) (h_description r) @
     compare_opt_scalar ''status'' (h_status l) (h_status r) @
     compare_opt_scalar ''default_load'' (h_default_load l) (h_default_load r) @
     compare_opt_scalar ''target_runtime'' (h_target_runtime l) (h_target_runtime r) @
     compare_opt_tag_list ''tags'' (h_tags l) (h_tags r) @
     compare_imports (h_imports l) (h_imports r) @
     compare_load_profiles (h_load_profiles l) (h_load_profiles r)"

section \<open>The report\<close>

text \<open>\<open>diff\<close> of the code; the name belongs to the library's set difference.\<close>

definition diff_files :: "json_texts \<Rightarrow> agm_file \<Rightarrow> agm_file \<Rightarrow> diff_report" where
  "diff_files js left right =
     (let header_changes = diff_headers (f_header left) (f_header right);
          result = diff_nodes js left right;
          has_breaking = (nm_removed result \<noteq> [] \<or>
            list_ex (\<lambda>c. hc_severity c = Breaking) header_changes \<or>
            list_ex nd_breaking (nm_modified result));
          total_changes = sum_list (map (\<lambda>d. length (nd_field_changes d)) (nm_modified result)) +
            length header_changes in
      \<lparr>dr_header_changes = header_changes, dr_added = nm_added result, dr_removed = nm_removed result,
       dr_modified = nm_modified result,
       dr_summary = \<lparr>ds_added = length (nm_added result), ds_removed = length (nm_removed result),
         ds_modified = length (nm_modified result), ds_unchanged = nm_unchanged result,
         ds_header_changes = length header_changes, ds_field_changes = total_changes,
         ds_breaking = has_breaking\<rparr>\<rparr>)"

definition report_is_empty :: "diff_report \<Rightarrow> bool" where
  "report_is_empty d \<longleftrightarrow> dr_header_changes d = [] \<and> dr_added d = [] \<and> dr_removed d = [] \<and> dr_modified d = []"

definition has_breaking_changes :: "diff_report \<Rightarrow> bool" where
  "has_breaking_changes d = ds_breaking (dr_summary d)"

definition breaking_only :: "diff_report \<Rightarrow> diff_report" where
  "breaking_only d =
     (let header_changes = filter (\<lambda>c. hc_severity c = Breaking) (dr_header_changes d);
          removed = dr_removed d;
          modified = map (\<lambda>m. \<lparr>nd_id = nd_id m,
              nd_field_changes = filter (\<lambda>c. fc_severity c = Breaking) (nd_field_changes m), nd_breaking = True\<rparr>)
            (filter nd_breaking (dr_modified d));
          total_changes = sum_list (map (\<lambda>m. length (nd_field_changes m)) modified) + length header_changes;
          has_breaking = (removed \<noteq> [] \<or> list_ex (\<lambda>c. hc_severity c = Breaking) header_changes \<or>
            list_ex nd_breaking modified) in
      \<lparr>dr_header_changes = header_changes, dr_added = [], dr_removed = removed, dr_modified = modified,
       dr_summary = \<lparr>ds_added = 0, ds_removed = length removed, ds_modified = length modified,
         ds_unchanged = ds_unchanged (dr_summary d), ds_header_changes = length header_changes,
         ds_field_changes = total_changes, ds_breaking = has_breaking\<rparr>\<rparr>)"

section \<open>Text forms\<close>

datatype diff_format = DfText | DfJson | DfMarkdown

fun change_prefix :: "change_kind \<Rightarrow> string" where
  "change_prefix Added = ''+''"
| "change_prefix Removed = ''-''"
| "change_prefix Modified = ''~''"

fun severity_tag :: "change_severity \<Rightarrow> string" where
  "severity_tag Breaking = ''[BREAKING]''"
| "severity_tag Minor = ''(minor)''"
| "severity_tag Info = ''(info)''"

fun snapshot_display :: "field_value_snapshot option \<Rightarrow> string" where
  "snapshot_display None = ''--''"
| "snapshot_display (Some (SnScalar s)) = s"
| "snapshot_display (Some (SnList v)) = ''['' @ join '', '' v @ '']''"
| "snapshot_display (Some (SnBlock b)) = b"
| "snapshot_display (Some (SnComplex c)) = c"

definition md_escape :: "string \<Rightarrow> string" where
  "md_escape s = concat (map (\<lambda>c. if c = CHR 0x7C then [CHR 0x5C, CHR 0x7C] else [c]) s)"

text \<open>The part of a line behind the field name: old and new value by the kind of the change.\<close>

definition change_values :: "change_kind \<Rightarrow> string \<Rightarrow> string \<Rightarrow> string" where
  "change_values kind old new =
     (case kind of Modified \<Rightarrow> old @ '' -> '' @ new | Added \<Rightarrow> new | Removed \<Rightarrow> old)"

definition or_dashes :: "string option \<Rightarrow> string" where
  "or_dashes v = (case v of None \<Rightarrow> ''--'' | Some s \<Rightarrow> s)"

definition header_change_text :: "parse_env \<Rightarrow> header_change \<Rightarrow> string" where
  "header_change_text pe c =
     ln (''  '' @ change_prefix (hc_kind c) @ '' '' @ hc_field c @ '': '' @
       change_values (hc_kind c) (str_debug pe (or_dashes (hc_old c))) (str_debug pe (or_dashes (hc_new c))) @
       '' '' @ severity_tag (hc_severity c))"

definition field_change_text :: "field_change \<Rightarrow> string" where
  "field_change_text c =
     ln (''    '' @ change_prefix (fc_kind c) @ '' '' @ fc_field c @ '': '' @
       change_values (fc_kind c) (snapshot_display (fc_old c)) (snapshot_display (fc_new c)) @
       '' '' @ severity_tag (fc_severity c))"

definition node_diff_text :: "node_diff \<Rightarrow> string" where
  "node_diff_text d =
     (let changes = nd_field_changes d; n = length changes;
          breaking = length (filter (\<lambda>c. fc_severity c = Breaking) changes) in
      (if breaking > 0
       then ln (''  ~ '' @ nd_id d @ '' ('' @ show_nat n @ '' changes, '' @ show_nat breaking @ '' breaking)'')
       else ln (''  ~ '' @ nd_id d @ '' ('' @ show_nat n @ '' change'' @ (if n = 1 then [] else ''s'') @ '')'')) @
      concat (map field_change_text changes))"

definition section_text :: "'a list \<Rightarrow> string \<Rightarrow> ('a \<Rightarrow> string) \<Rightarrow> string" where
  "section_text xs heading f = (if xs = [] then [] else nl # ln heading @ concat (map f xs))"

definition counted :: "string \<Rightarrow> 'a list \<Rightarrow> string" where
  "counted s xs = ''--- Nodes '' @ s @ '' ('' @ show_nat (length xs) @ '') ---''"

definition render_diff_text :: "parse_env \<Rightarrow> diff_report \<Rightarrow> string" where
  "render_diff_text pe d =
     (let s = dr_summary d in
      ln ''=== AGM Semantic Diff ==='' @
      section_text (dr_header_changes d) ''--- Header Changes ---'' (header_change_text pe) @
      section_text (dr_added d) (counted ''Added'' (dr_added d)) (\<lambda>i. ln (''  + '' @ i)) @
      section_text (dr_removed d) (counted ''Removed'' (dr_removed d)) (\<lambda>i. ln (''  - '' @ i @ '' [BREAKING]'')) @
      section_text (dr_modified d) (counted ''Modified'' (dr_modified d)) node_diff_text @
      nl # ln ''--- Summary ---'' @
      ln (''  Added: '' @ show_nat (ds_added s) @ '' | Removed: '' @ show_nat (ds_removed s) @
        '' | Modified: '' @ show_nat (ds_modified s) @ '' | Unchanged: '' @ show_nat (ds_unchanged s)) @
      ln (''  Breaking changes: '' @ (if ds_breaking s then ''YES'' else ''NO'')))"

definition md_row :: "string list \<Rightarrow> string" where
  "md_row cells = ln (''| '' @ join '' | '' cells @ '' |'')"

definition md_table_head :: string where
  "md_table_head = md_row [''Field'', ''Change'', ''Old'', ''New'', ''Severity''] @ ln ''|---|---|---|---|---|''"

definition header_change_md :: "header_change \<Rightarrow> string" where
  "header_change_md c =
     md_row [hc_field c, show_change_kind (hc_kind c), md_escape (or_dashes (hc_old c)),
       md_escape (or_dashes (hc_new c)), show_change_severity (hc_severity c)]"

definition field_change_md :: "field_change \<Rightarrow> string" where
  "field_change_md c =
     md_row [fc_field c, show_change_kind (fc_kind c), md_escape (snapshot_display (fc_old c)),
       md_escape (snapshot_display (fc_new c)),
       (if fc_severity c = Breaking then ''**'' @ show_change_severity (fc_severity c) @ ''**''
        else show_change_severity (fc_severity c))]"

definition node_diff_md :: "node_diff \<Rightarrow> string" where
  "node_diff_md d = nl # ln (''### '' @ nd_id d) @ nl # md_table_head @ concat (map field_change_md (nd_field_changes d))"

definition render_diff_markdown :: "diff_report \<Rightarrow> string" where
  "render_diff_markdown d =
     (let s = dr_summary d in
      ln ''# AGM Semantic Diff'' @ nl # ln ''## Summary'' @ nl # md_row [''Metric'', ''Count''] @ ln ''|---|---|'' @
      md_row [''Nodes added'', show_nat (ds_added s)] @ md_row [''Nodes removed'', show_nat (ds_removed s)] @
      md_row [''Nodes modified'', show_nat (ds_modified s)] @ md_row [''Nodes unchanged'', show_nat (ds_unchanged s)] @
      md_row [''Header changes'', show_nat (ds_header_changes s)] @
      md_row [''**Breaking changes**'', if ds_breaking s then ''**Yes**'' else ''No''] @
      (if dr_header_changes d = [] then []
       else nl # ln ''## Header Changes'' @ nl # md_table_head @ concat (map header_change_md (dr_header_changes d))) @
      section_text (dr_added d) (''## Added Nodes'' @ [nl]) (\<lambda>i. ln (''- '' @ bq i)) @
      section_text (dr_removed d) (''## Removed Nodes'' @ [nl]) (\<lambda>i. ln (''- '' @ bq i @ '' (BREAKING)'')) @
      section_text (dr_modified d) ''## Modified Nodes'' node_diff_md)"

definition render_diff :: "parse_env \<Rightarrow> (diff_report \<Rightarrow> string) \<Rightarrow> diff_report \<Rightarrow> diff_format \<Rightarrow> string" where
  "render_diff pe json d format =
     (case format of DfText \<Rightarrow> render_diff_text pe d | DfJson \<Rightarrow> json d | DfMarkdown \<Rightarrow> render_diff_markdown d)"

end
