(* ===== verification/Diff_Facts.thy ===== *)
theory Diff_Facts
  imports Diff
begin

text \<open>
  What the diff of two files reports. A comparison returns changes exactly when the two sides
  differ in what it looks at, its view; the locale \<open>comparison\<close> states this contract, and every
  comparison of the code, from a scalar to a whole file, is an interpretation of it.
\<close>

section \<open>The contract of a comparison\<close>

locale comparison =
  fixes report :: "'a \<Rightarrow> 'a \<Rightarrow> 'c list"
    and view :: "'a \<Rightarrow> 'v"
    and ok :: "'a \<Rightarrow> bool"
  assumes report_empty: "ok x \<Longrightarrow> ok y \<Longrightarrow> report x y = [] \<longleftrightarrow> view x = view y"
begin

lemma report_self: "ok x \<Longrightarrow> report x x = []"
  by (simp add: report_empty)

lemma report_sym: "ok x \<Longrightarrow> ok y \<Longrightarrow> report x y = [] \<longleftrightarrow> report y x = []"
  by (auto simp: report_empty)

lemma report_trans:
  assumes "ok x" and "ok y" and "ok z" and "report x y = []" and "report y z = []"
  shows "report x z = []"
  using assms by (simp add: report_empty)

lemma report_changes: "ok x \<Longrightarrow> ok y \<Longrightarrow> report x y \<noteq> [] \<longleftrightarrow> view x \<noteq> view y"
  by (simp add: report_empty)

end

section \<open>Maps\<close>

lemma map_filter_Nil: "List.map_filter f xs = [] \<longleftrightarrow> (\<forall>x \<in> set xs. f x = None)"
  by (induction xs) (auto simp: List.map_filter_simps split: option.split)

lemma keyed_changes_Nil:
  fixes l r :: "('k::linorder, 'v) btree"
  assumes l: "bt_ok l" and r: "bt_ok r" and differ: "\<And>k v w. differ k v w = None \<longleftrightarrow> f v = f w"
  shows "keyed_changes gone came differ l r = [] \<longleftrightarrow> (\<lambda>k. map_option f (bt_get l k)) = (\<lambda>k. map_option f (bt_get r k))"
    (is "?L \<longleftrightarrow> ?R")
proof
  have mem: "bt_get m k = Some v \<longleftrightarrow> (k, v) \<in> set m" if "bt_ok m" for m :: "('k, 'v) btree" and k v
    using bt.set_entries [OF that] by simp
  assume L: ?L
  then have gone: "(k, v) \<in> set l \<Longrightarrow> bt_get r k \<noteq> None" and came: "(k, v) \<in> set r \<Longrightarrow> bt_get l k \<noteq> None"
    and same: "(k, v) \<in> set l \<Longrightarrow> bt_get r k = Some w \<Longrightarrow> differ k v w = None" for k v w
    by (fastforce simp: keyed_changes_def map_filter_Nil split: if_splits)+
  show ?R
  proof
    fix k
    show "map_option f (bt_get l k) = map_option f (bt_get r k)"
    proof (cases "bt_get l k")
      case None
      then have "bt_get r k = None" using came mem [OF r] by (metis not_None_eq)
      with None show ?thesis by simp
    next
      case (Some v)
      then have entry: "(k, v) \<in> set l" using mem [OF l] by simp
      then obtain w where w: "bt_get r k = Some w" using gone by blast
      then have "f v = f w" using same [OF entry w] differ by simp
      with Some w show ?thesis by simp
    qed
  qed
next
  assume R: ?R
  have same: "map_option f (bt_get l k) = map_option f (bt_get r k)" for k using fun_cong [OF R, of k] .
  have mem: "(k, v) \<in> set m \<Longrightarrow> bt_get m k = Some v" if "bt_ok m" for m :: "('k, 'v) btree" and k v
    using bt.set_entries [OF that] by simp
  show ?L
    unfolding keyed_changes_def append_is_Nil_conv map_filter_Nil
  proof (intro conjI ballI, goal_cases)
    case (1 x) then show ?case using same [of "fst x"] mem [OF l, of "fst x" "snd x"] by (auto split: prod.split)
  next
    case (2 x) then show ?case using same [of "fst x"] mem [OF r, of "fst x" "snd x"] by (auto split: prod.split)
  next
    case (3 x) then show ?case
      using same [of "fst x"] mem [OF l, of "fst x" "snd x"] differ by (auto split: prod.split option.split)
  qed
qed

lemma bt_collect_get: "bt_get (bt_collect xs) = map_of (rev xs)" and bt_collect_ok [simp]: "bt_ok (bt_collect xs)"
proof -
  have "bt_ok m \<Longrightarrow> bt_ok (fold (\<lambda>(k, v). bt_insert k v) xs m) \<and>
      bt_get (fold (\<lambda>(k, v). bt_insert k v) xs m) = (\<lambda>k. case map_of (rev xs) k of Some v \<Rightarrow> Some v | None \<Rightarrow> bt_get m k)" for m
  proof (induction xs arbitrary: m)
    case (Cons x xs)
    then show ?case
      using Cons.IH [OF bt_ok_insert [OF Cons.prems, of "fst x" "snd x"]]
      by (auto simp: map_add_def case_prod_beta' fun_eq_iff split: option.split)
  qed (auto split: option.split)
  from this [of "[]"] show "bt_get (bt_collect xs) = map_of (rev xs)" and "bt_ok (bt_collect xs)"
    by (simp_all add: bt_collect_def fun_eq_iff split: option.split)
qed

lemma bt_collect_keys: "map fst (bt_collect xs) = sorted_list_of_set (fst ` set xs)"
proof -
  have "set (map fst (bt_collect xs)) = fst ` set xs"
  proof -
    have "k \<in> fst ` set (bt_collect xs) \<longleftrightarrow> k \<in> fst ` set xs" for k
      using bt_get_None [of "bt_collect xs" k] by (simp add: bt_collect_get map_of_eq_None_iff)
    then show ?thesis by auto
  qed
  moreover have "sorted (map fst (bt_collect xs)) \<and> distinct (map fst (bt_collect xs))"
    using bt_collect_ok [of xs] by (simp add: bt_ok_def strict_sorted_iff)
  ultimately show ?thesis by (metis sorted_list_of_set.idem_if_sorted_distinct)
qed

lemma bt_values_of_keys: "bt_ok m \<Longrightarrow> m = map (\<lambda>k. (k, the (bt_get m k))) (map fst m)"
  by (rule sym, simp add: o_def, rule map_idI) (use bt.set_entries in force)

section \<open>Fields\<close>

definition list_view :: "string list option \<Rightarrow> string list" where
  "list_view v = (case v of None \<Rightarrow> [] | Some xs \<Rightarrow> xs)"

interpretation scalar: comparison "diff_opt_scalar f" "\<lambda>v. v" "\<lambda>_. True"
  by unfold_locales (auto simp: diff_opt_scalar_def split: option.split)

interpretation complex: comparison "diff_opt_complex json f" "map_option json" "\<lambda>_. True"
  by unfold_locales (auto simp: diff_opt_complex_def split: option.split)

lemma sorted_difference_Nil: "sorted_list_of_set (set xs - set ys) = [] \<longleftrightarrow> set xs \<subseteq> set ys"
  by (simp add: sorted_list_of_set_eq_Nil_iff Diff_eq_empty_iff)

interpretation unordered: comparison "diff_unordered f" set "\<lambda>_. True"
  by unfold_locales (auto simp: diff_unordered_def sorted_difference_Nil)

interpretation ordered: comparison "diff_ordered f" "\<lambda>xs. xs" "\<lambda>_. True"
  by unfold_locales (auto simp: diff_ordered_def sorted_difference_Nil)

text \<open>An absent list and an empty one are the same; only \<open>depends\<close> and \<open>steps\<close> are ordered.\<close>

lemma list_field_Nil:
  "diff_opt_list_field f l r = [] \<longleftrightarrow>
     (if is_ordered_field f then list_view l = list_view r else set (list_view l) = set (list_view r))"
  by (cases l; cases r)
    (auto simp: diff_opt_list_field_def diff_relation_field_def list_view_def ordered.report_empty unordered.report_empty)

interpretation extra: comparison diff_extra_fields bt_get bt_ok
proof
  fix x y :: "(string, field_value) btree"
  assume "bt_ok x" and "bt_ok y"
  then show "diff_extra_fields x y = [] \<longleftrightarrow> bt_get x = bt_get y"
    unfolding diff_extra_fields_def by (subst keyed_changes_Nil [where f = "\<lambda>v. v"]) (auto simp: option.map_ident)
qed

section \<open>Nodes\<close>

text \<open>What the diff looks at in a node, field by field in the order of the code.\<close>

datatype field_view =
    VType node_type | VText "string option" | VOrdered "string list" | VSet "string set"
  | VExtra "string \<Rightarrow> field_value option"

definition node_view :: "json_texts \<Rightarrow> node \<Rightarrow> field_view list" where
  "node_view js n =
     [VType (n_type n), VText (Some (n_summary n)), VText (map_option show_priority (n_priority n)),
      VText (map_option show_stability (n_stability n)), VText (map_option show_confidence (n_confidence n)),
      VText (map_option show_node_status (n_status n)), VOrdered (list_view (n_depends n)),
      VSet (set (list_view (n_related_to n))), VSet (set (list_view (n_replaces n))),
      VSet (set (list_view (n_conflicts n))), VSet (set (list_view (n_see_also n))),
      VSet (set (list_view (n_items n))), VOrdered (list_view (n_steps n)),
      VSet (set (list_view (n_fields n))), VSet (set (list_view (n_input n))),
      VSet (set (list_view (n_output n))), VText (n_detail n), VText (n_examples n), VText (n_notes n),
      VSet (set (list_view (n_rationale n))), VSet (set (list_view (n_tradeoffs n))),
      VSet (set (list_view (n_resolution n))), VText (n_target n),
      VText (map_option (js_code js) (n_code n)), VText (map_option (js_code_blocks js) (n_code_blocks n)),
      VText (map_option (js_verify js) (n_verify n)), VText (map_option (js_context js) (n_agent_context n)),
      VText (map_option show_execution_status (n_execution_status n)), VText (n_executed_by n),
      VText (n_executed_at n), VText (n_execution_log n), VText (map_option show_word (n_retry_count n)),
      VText (map_option (js_groups js) (n_parallel_groups n)),
      VText (map_option (js_memory js) (n_memory n)), VSet (set (list_view (n_scope n))),
      VText (n_applies_when n), VText (n_valid_from n), VText (n_valid_until n),
      VSet (set (list_view (n_tags n))), VSet (set (list_view (n_aliases n))),
      VSet (set (list_view (n_keywords n))), VExtra (bt_get (n_extra_fields n))]"

definition extra_ok :: "node \<Rightarrow> bool" where
  "extra_ok n \<longleftrightarrow> bt_ok (n_extra_fields n)"

lemma ordered_fields [simp]:
  "is_ordered_field ''depends''" "is_ordered_field ''steps''"
  "f \<noteq> ''depends'' \<Longrightarrow> f \<noteq> ''steps'' \<Longrightarrow> \<not> is_ordered_field f"
  by (auto simp: is_ordered_field_def)

interpretation node_fields: comparison "diff_all_fields js" "node_view js" extra_ok
proof
  fix x y assume "extra_ok x" and "extra_ok y"
  then have extra: "diff_extra_fields (n_extra_fields x) (n_extra_fields y) = [] \<longleftrightarrow>
      bt_get (n_extra_fields x) = bt_get (n_extra_fields y)"
    unfolding extra_ok_def by (rule extra.report_empty)
  have "diff_node_type x y = [] \<longleftrightarrow> n_type x = n_type y" and "diff_summary_field x y = [] \<longleftrightarrow> n_summary x = n_summary y"
    by (simp_all add: diff_node_type_def diff_summary_field_def)
  then show "diff_all_fields js x y = [] \<longleftrightarrow> node_view js x = node_view js y"
    unfolding diff_all_fields_def diff_control_fields_def diff_relation_fields_def diff_operational_fields_def diff_explanatory_fields_def diff_executable_fields_def diff_execution_fields_def diff_context_fields_def
      append_is_Nil_conv node_view_def list.inject field_view.inject diff_opt_display_def
      option.inject extra scalar.report_empty [OF TrueI TrueI] complex.report_empty [OF TrueI TrueI] list_field_Nil
    by simp
qed

section \<open>Headers\<close>

definition import_view :: "import_entry list option \<Rightarrow> string \<Rightarrow> string option option" where
  "import_view v p = map_option imp_version_constraint (bt_get (imports_by_package v) p)"

interpretation header_imports: comparison compare_imports import_view "\<lambda>_. True"
proof
  fix x y :: "import_entry list option"
  show "compare_imports x y = [] \<longleftrightarrow> import_view x = import_view y"
    unfolding compare_imports_def import_view_def
    by (rule keyed_changes_Nil) (simp_all add: imports_by_package_def)
qed

definition profile_view :: "(string, load_profile) btree option \<Rightarrow> (string, load_profile) btree" where
  "profile_view v = (case v of None \<Rightarrow> [] | Some ps \<Rightarrow> ps)"

definition profiles_ok :: "(string, load_profile) btree option \<Rightarrow> bool" where
  "profiles_ok v \<longleftrightarrow> pred_option bt_ok v"

interpretation profiles: comparison compare_load_profiles profile_view profiles_ok
proof
  fix x y assume "profiles_ok x" and "profiles_ok y"
  then have ok: "bt_ok (profile_view x)" "bt_ok (profile_view y)"
    by (auto simp: profiles_ok_def profile_view_def split: option.split)
  have ext: "profile_view x = profile_view y" if "bt_get (profile_view x) = bt_get (profile_view y)"
    using bt.entries_ext [OF ok] that by simp
  show "compare_load_profiles x y = [] \<longleftrightarrow> profile_view x = profile_view y"
  proof (cases "profile_view x = profile_view y")
    case True
    then show ?thesis by (simp add: compare_load_profiles_def profile_view_def)
  next
    case False
    then have "bt_get (profile_view x) \<noteq> bt_get (profile_view y)" using ext by blast
    with False ok show ?thesis
      unfolding compare_load_profiles_def profile_view_def [symmetric] Let_def
      by (simp, subst keyed_changes_Nil [where f = "\<lambda>v. v"]) (simp_all add: option.map_ident)
  qed
qed

lemma compare_scalar_Nil: "compare_scalar f l r = [] \<longleftrightarrow> l = r"
  by (simp add: compare_scalar_def)

lemma compare_opt_scalar_Nil: "compare_opt_scalar f l r = [] \<longleftrightarrow> l = r"
  by (auto simp: compare_opt_scalar_def split: option.split)

lemma compare_tags_Nil: "compare_opt_tag_list f l r = [] \<longleftrightarrow> set (list_view l) = set (list_view r)"
  unfolding compare_opt_tag_list_def list_view_def Let_def by simp

text \<open>What the diff looks at in a header.\<close>

definition header_view :: "header \<Rightarrow>
    string option list \<times> string set \<times> (string \<Rightarrow> string option option) \<times> (string, load_profile) btree" where
  "header_view h =
     ([Some (h_agm h), Some (h_package h), Some (h_version h), h_title h, h_owner h, h_description h, h_status h,
       h_default_load h, h_target_runtime h],
      set (list_view (h_tags h)), import_view (h_imports h), profile_view (h_load_profiles h))"

interpretation header_fields: comparison diff_headers header_view "\<lambda>h. profiles_ok (h_load_profiles h)"
proof
  fix x y :: header
  assume "profiles_ok (h_load_profiles x)" and "profiles_ok (h_load_profiles y)"
  note profiles = profiles.report_empty [OF this]
  show "diff_headers x y = [] \<longleftrightarrow> header_view x = header_view y"
    unfolding diff_headers_def append_is_Nil_conv header_view_def prod.inject list.inject compare_scalar_Nil
      compare_opt_scalar_Nil compare_tags_Nil profiles header_imports.report_empty [OF TrueI TrueI] by simp
qed

section \<open>Matching nodes\<close>

lemma nodes_by_id_get: "bt_get (nodes_by_id f) = node_map f"
  by (simp add: nodes_by_id_def bt_collect_get node_map_def)

lemma nodes_by_id_ok [simp]: "bt_ok (nodes_by_id f)"
  by (simp add: nodes_by_id_def)

lemma nodes_by_id_keys: "map fst (nodes_by_id f) = sorted_list_of_set (n_id ` set (f_nodes f))"
  by (simp add: nodes_by_id_def bt_collect_keys image_image)

lemma node_map_mem: "node_map f i = Some n \<Longrightarrow> n \<in> set (f_nodes f) \<and> n_id n = i"
  by (auto simp: node_map_def dest!: map_of_SomeD)

text \<open>The changes of the node \<open>i\<close>, which both files have.\<close>

definition changes_of :: "json_texts \<Rightarrow> agm_file \<Rightarrow> agm_file \<Rightarrow> string \<Rightarrow> field_change list" where
  "changes_of js l r i = diff_all_fields js (the (node_map l i)) (the (node_map r i))"

definition node_diff_of :: "json_texts \<Rightarrow> agm_file \<Rightarrow> agm_file \<Rightarrow> string \<Rightarrow> node_diff" where
  "node_diff_of js l r i =
     \<lparr>nd_id = i, nd_field_changes = changes_of js l r i,
      nd_breaking = list_ex (\<lambda>c. fc_severity c = Breaking) (changes_of js l r i)\<rparr>"

definition common_ids :: "agm_file \<Rightarrow> agm_file \<Rightarrow> string list" where
  "common_ids l r = sorted_list_of_set (n_id ` set (f_nodes l) \<inter> n_id ` set (f_nodes r))"

lemma match_nodes:
  assumes "list_all (\<lambda>(i, n). node_map l i = Some n) entries"
  shows "fold (match_node js (nodes_by_id r)) entries (ms, u) =
    (let common = filter (\<lambda>i. node_map r i \<noteq> None) (map fst entries) in
     (ms @ map (node_diff_of js l r) (filter (\<lambda>i. changes_of js l r i \<noteq> []) common),
      u + length (filter (\<lambda>i. changes_of js l r i = []) common)))"
  using assms
proof (induction entries arbitrary: ms u)
  case (Cons e entries)
  obtain i n where e: "e = (i, n)" by force
  with Cons.prems have n: "node_map l i = Some n" by simp
  show ?case
    using Cons.IH Cons.prems e n
    by (simp add: match_node_def nodes_by_id_get Let_def node_diff_of_def changes_of_def split: option.split)
qed simp

lemma filter_sorted_list_of_set:
  "finite A \<Longrightarrow> filter P (sorted_list_of_set A) = sorted_list_of_set {x \<in> A. P x}"
  by (rule strict_sorted_equal) (simp_all add: sorted_wrt_filter)

lemma nodes_diff:
  "diff_nodes js l r =
     \<lparr>nm_added = sorted_list_of_set (n_id ` set (f_nodes r) - n_id ` set (f_nodes l)),
      nm_removed = sorted_list_of_set (n_id ` set (f_nodes l) - n_id ` set (f_nodes r)),
      nm_modified = map (node_diff_of js l r) (filter (\<lambda>i. changes_of js l r i \<noteq> []) (common_ids l r)),
      nm_unchanged = length (filter (\<lambda>i. changes_of js l r i = []) (common_ids l r))\<rparr>"
proof -
  have entries: "list_all (\<lambda>(i, n). node_map l i = Some n) (nodes_by_id l)"
    using bt.set_entries [OF nodes_by_id_ok [of l]] by (force simp: list_all_iff nodes_by_id_get)
  have only: "filter (\<lambda>i. bt_get (nodes_by_id f) i = None) (map fst (nodes_by_id g)) =
      sorted_list_of_set (n_id ` set (f_nodes g) - n_id ` set (f_nodes f))" for f g
    unfolding nodes_by_id_keys nodes_by_id_get node_map_None
    by (subst filter_sorted_list_of_set) (auto intro!: arg_cong [where f = sorted_list_of_set])
  have common: "filter (\<lambda>i. node_map r i \<noteq> None) (map fst (nodes_by_id l)) = common_ids l r"
    unfolding nodes_by_id_keys node_map_None common_ids_def
    by (subst filter_sorted_list_of_set) (auto intro!: arg_cong [where f = sorted_list_of_set])
  show ?thesis
    unfolding diff_nodes_def Let_def only match_nodes [OF entries] common by simp
qed

section \<open>The report\<close>

definition file_view :: "json_texts \<Rightarrow> agm_file \<Rightarrow>
    (string option list \<times> string set \<times> (string \<Rightarrow> string option option) \<times> (string, load_profile) btree) \<times>
    (string \<Rightarrow> field_view list option)" where
  "file_view js f = (header_view (f_header f), \<lambda>i. map_option (node_view js) (node_map f i))"

definition diffable :: "agm_file \<Rightarrow> bool" where
  "diffable f \<longleftrightarrow> profiles_ok (h_load_profiles (f_header f)) \<and> list_all extra_ok (f_nodes f)"

lemma sorted_list_Nil: "finite A \<Longrightarrow> sorted_list_of_set A = [] \<longleftrightarrow> A = {}"
  by (rule sorted_list_of_set_eq_Nil_iff)

lemma node_map_view:
  "(\<lambda>i. map_option (node_view js) (node_map l i)) = (\<lambda>i. map_option (node_view js) (node_map r i)) \<longleftrightarrow>
     n_id ` set (f_nodes l) = n_id ` set (f_nodes r) \<and>
     (\<forall>i \<in> n_id ` set (f_nodes l) \<inter> n_id ` set (f_nodes r).
        node_view js (the (node_map l i)) = node_view js (the (node_map r i)))" (is "?L \<longleftrightarrow> ?R")
proof
  assume L: ?L
  then have same: "map_option (node_view js) (node_map l i) = map_option (node_view js) (node_map r i)" for i
    by (rule fun_cong)
  then have "node_map l i = None \<longleftrightarrow> node_map r i = None" for i by (metis map_option_is_None)
  then have "n_id ` set (f_nodes l) = n_id ` set (f_nodes r)" unfolding node_map_None by blast
  moreover have "node_view js (the (node_map l i)) = node_view js (the (node_map r i))"
    if "i \<in> n_id ` set (f_nodes l) \<inter> n_id ` set (f_nodes r)" for i
    using same [of i] that node_map_None [of l i] by (cases "node_map l i"; cases "node_map r i") auto
  ultimately show ?R by blast
next
  assume R: ?R
  show ?L
  proof
    fix i
    show "map_option (node_view js) (node_map l i) = map_option (node_view js) (node_map r i)"
      using R node_map_None [of l i] node_map_None [of r i]
      by (cases "node_map l i"; cases "node_map r i") (auto dest: bspec [of _ _ i])
  qed
qed

interpretation files: comparison
  "\<lambda>l r. map Inl (dr_header_changes (diff_files js l r)) @ map (Inr \<circ> Inl) (dr_added (diff_files js l r)) @
     map (Inr \<circ> Inr \<circ> Inl) (dr_removed (diff_files js l r)) @ map (Inr \<circ> Inr \<circ> Inr) (dr_modified (diff_files js l r))"
  "file_view js" diffable
proof
  fix l r assume l: "diffable l" and r: "diffable r"
  have header: "diff_headers (f_header l) (f_header r) = [] \<longleftrightarrow> header_view (f_header l) = header_view (f_header r)"
    using l r by (intro header_fields.report_empty) (simp_all add: diffable_def)
  have node: "changes_of js l r i = [] \<longleftrightarrow> node_view js (the (node_map l i)) = node_view js (the (node_map r i))"
    if i: "i \<in> n_id ` set (f_nodes l) \<inter> n_id ` set (f_nodes r)" for i
  proof -
    obtain a b where "node_map l i = Some a" and "node_map r i = Some b"
      using i node_map_None [of l i] node_map_None [of r i] by (cases "node_map l i"; cases "node_map r i") auto
    then show ?thesis
      using l r node_map_mem unfolding changes_of_def
      by (intro node_fields.report_empty) (fastforce simp: diffable_def list_all_iff)+
  qed
  have "filter (\<lambda>i. changes_of js l r i \<noteq> []) (common_ids l r) = [] \<longleftrightarrow>
      (\<forall>i \<in> n_id ` set (f_nodes l) \<inter> n_id ` set (f_nodes r).
        node_view js (the (node_map l i)) = node_view js (the (node_map r i)))"
    unfolding filter_empty_conv by (simp add: common_ids_def node del: Int_iff)
  then show "map Inl (dr_header_changes (diff_files js l r)) @ map (Inr \<circ> Inl) (dr_added (diff_files js l r)) @
     map (Inr \<circ> Inr \<circ> Inl) (dr_removed (diff_files js l r)) @
     map (Inr \<circ> Inr \<circ> Inr) (dr_modified (diff_files js l r)) = [] \<longleftrightarrow> file_view js l = file_view js r"
    unfolding file_view_def prod.inject header [symmetric] node_map_view
    by (auto simp: diff_files_def nodes_diff sorted_list_Nil Let_def)
qed

lemma empty_report_iff:
  "diffable l \<Longrightarrow> diffable r \<Longrightarrow> report_is_empty (diff_files js l r) \<longleftrightarrow> file_view js l = file_view js r"
  using files.report_empty [of l r js] by (simp add: report_is_empty_def)

section \<open>Properties\<close>

definition sample_json :: json_texts where
  "sample_json = \<lparr>js_code = cb_body, js_code_blocks = (\<lambda>cbs. concat (map cb_body cbs)), js_verify = (\<lambda>_. ''v''),
     js_context = (\<lambda>_. ''c''), js_groups = (\<lambda>gs. concat (map pg_group gs)), js_memory = (\<lambda>es. concat (map me_key es))\<rparr>"

definition diff_header :: header where
  "diff_header = \<lparr>h_agm = ''1'', h_package = ''p'', h_version = ''1.0.0'', h_title = None, h_owner = None,
     h_imports = None, h_default_load = None, h_description = None, h_tags = None, h_status = None,
     h_load_profiles = None, h_target_runtime = None\<rparr>"

definition diff_left :: agm_file where
  "diff_left = \<lparr>f_header = diff_header, f_nodes = [node_default\<lparr>n_id := ''a'', n_tags := Some [''x'', ''y'']\<rparr>,
     node_default\<lparr>n_id := ''b'', n_depends := Some [''a'']\<rparr>]\<rparr>"

definition diff_right :: agm_file where
  "diff_right = \<lparr>f_header = diff_header, f_nodes = [node_default\<lparr>n_id := ''b'', n_depends := Some [''a'']\<rparr>,
     node_default\<lparr>n_id := ''a'', n_tags := Some [''y'', ''x'', ''y''], n_title := Some ''t''\<rparr>]\<rparr>"

lemmas diff_sample_defs = diff_left_def diff_right_def diff_header_def sample_json_def node_default_def

text \<open>
  C9: The diff of two files is empty exactly when they agree on what the diff looks at: the header
  field by field (tags as a set, imports by package and constraint, profiles), the identifiers, and
  for each identifier the last node with it, field by field (lists as sets except \<open>depends\<close> and
  \<open>steps\<close>, an absent list as an empty one, structured values by their JSON text). The maps of the
  two files must be maps, in key order.
\<close>

theorem diff_empty_exact:
  assumes "diffable l" and "diffable r"
  shows "report_is_empty (diff_files js l r) \<longleftrightarrow> file_view js l = file_view js r"
  using assms by (rule empty_report_iff)

lemma diff_sample_diffable: "diffable diff_left" "diffable diff_right"
  by (simp_all add: diffable_def diff_sample_defs profiles_ok_def extra_ok_def)

lemma diff_empty_exact_witness:
  "file_view sample_json diff_left = file_view sample_json diff_right \<and> diff_left \<noteq> diff_right"
proof
  have "report_is_empty (diff_files sample_json diff_left diff_right)"
    by code_simp
  then show "file_view sample_json diff_left = file_view sample_json diff_right"
    using diff_empty_exact [OF diff_sample_diffable, of sample_json] by blast
qed (simp add: diff_sample_defs)

text \<open>
  C34: The report lists, in the order of identifiers, exactly the nodes that only the right file has
  as added, those that only the left file has as removed, and among the nodes of both, once each,
  those with changed fields, with their changes; the numbers of the summary are the lengths of
  these lists, and changed and unchanged nodes together are the common ones.
\<close>

theorem diff_report_exact:
  "(let d = diff_files js l r; s = dr_summary d; left = n_id ` set (f_nodes l); right = n_id ` set (f_nodes r) in
     dr_added d = sorted_list_of_set (right - left) \<and>
     dr_removed d = sorted_list_of_set (left - right) \<and>
     dr_modified d = map (node_diff_of js l r)
       (filter (\<lambda>i. diff_all_fields js (the (node_map l i)) (the (node_map r i)) \<noteq> [])
         (sorted_list_of_set (left \<inter> right))) \<and>
     ds_added s = card (right - left) \<and> ds_removed s = card (left - right) \<and>
     ds_modified s + ds_unchanged s = card (left \<inter> right))"
proof -
  have "length (filter (\<lambda>i. changes_of js l r i \<noteq> []) xs) + length (filter (\<lambda>i. changes_of js l r i = []) xs) = length xs" for xs
    by (induction xs) simp_all
  from this [of "common_ids l r"] show ?thesis
    by (simp add: Let_def diff_files_def nodes_diff common_ids_def changes_of_def)
qed

lemma breaking_modified:
  "list_all (\<lambda>m. nd_breaking m = list_ex (\<lambda>c. fc_severity c = Breaking) (nd_field_changes m)) (dr_modified (diff_files js l r))"
  by (simp add: diff_files_def nodes_diff Let_def list_all_iff node_diff_of_def)

text \<open>
  C35: The gate for breaking changes is consistent: the flag of the summary is set exactly when
  something is left by \<open>breaking_only\<close>, which keeps the flag, changes nothing when it is applied
  again, and leaves no node without a breaking field change.
\<close>

theorem breaking_gate:
  "(let d = diff_files js l r; b = breaking_only d in
     (has_breaking_changes d \<longleftrightarrow> \<not> report_is_empty b) \<and> has_breaking_changes b = has_breaking_changes d \<and>
     breaking_only b = b \<and>
     list_all (\<lambda>m. nd_field_changes m \<noteq> [] \<and> list_all (\<lambda>c. fc_severity c = Breaking) (nd_field_changes m)) (dr_modified b))"
proof -
  let ?d = "diff_files js l r"
  have flag: "has_breaking_changes ?d \<longleftrightarrow> dr_removed ?d \<noteq> [] \<or>
      list_ex (\<lambda>c. hc_severity c = Breaking) (dr_header_changes ?d) \<or> list_ex nd_breaking (dr_modified ?d)"
    by (simp add: diff_files_def has_breaking_changes_def Let_def)
  have mods: "list_all (\<lambda>m. nd_field_changes m \<noteq> [] \<and> list_all (\<lambda>c. fc_severity c = Breaking) (nd_field_changes m))
      (dr_modified (breaking_only ?d))"
    using breaking_modified [of js l r] by (auto simp: breaking_only_def Let_def list_all_iff list_ex_iff filter_empty_conv)
  have kept: "filter nd_breaking (map (\<lambda>m. \<lparr>nd_id = f m, nd_field_changes = g m, nd_breaking = True\<rparr>) ms) =
      map (\<lambda>m. \<lparr>nd_id = f m, nd_field_changes = g m, nd_breaking = True\<rparr>) ms" for f g and ms :: "node_diff list"
    by (simp add: filter_True)
  have again: "breaking_only (breaking_only ?d) = breaking_only ?d"
    by (simp add: breaking_only_def Let_def kept o_def list_ex_iff)
  have "has_breaking_changes ?d \<longleftrightarrow> \<not> report_is_empty (breaking_only ?d)"
    by (auto simp: flag report_is_empty_def breaking_only_def Let_def list_ex_iff filter_empty_conv)
  moreover have "has_breaking_changes (breaking_only ?d) = has_breaking_changes ?d"
    unfolding flag by (auto simp: breaking_only_def Let_def has_breaking_changes_def list_ex_iff)
  ultimately show ?thesis
    using again mods by (simp add: Let_def)
qed

text \<open>The fields of tickets, which the list of comparisons does not name.\<close>

definition edit_ticket :: "(node \<Rightarrow> node) \<Rightarrow> node \<Rightarrow> node" where
  "edit_ticket e n = n\<lparr>n_title := n_title (e n), n_description := n_description (e n), n_action := n_action (e n),
     n_sdd_phase := n_sdd_phase (e n), n_prompt := n_prompt (e n), n_assignee := n_assignee (e n),
     n_labels := n_labels (e n), n_ticket_id := n_ticket_id (e n)\<rparr>"

lemma edit_ticket_view [simp]: "node_view js (edit_ticket e n) = node_view js n" "n_id (edit_ticket e n) = n_id n"
    "extra_ok (edit_ticket e n) = extra_ok n"
  by (simp_all add: edit_ticket_def node_view_def extra_ok_def)

text \<open>
  C37: Changes of the ticket fields are not reported: whatever is done to title, description, action,
  phase, prompt, assignee, labels and ticket number of the nodes, the diff is empty, although it
  claims to compare all fields.
\<close>

theorem diff_misses_tickets:
  assumes "diffable f"
  shows "report_is_empty (diff_files js f (f\<lparr>f_nodes := map (edit_ticket e) (f_nodes f)\<rparr>))"
proof -
  let ?g = "f\<lparr>f_nodes := map (edit_ticket e) (f_nodes f)\<rparr>"
  have "diffable ?g" using assms by (simp add: diffable_def list_all_iff)
  moreover have "node_map ?g i = map_option (edit_ticket e) (node_map f i)" for i
  proof -
    have "rev (map (\<lambda>n. (n_id n, edit_ticket e n)) (f_nodes f)) =
        map (\<lambda>(k, v). (k, edit_ticket e v)) (rev (map (\<lambda>n. (n_id n, n)) (f_nodes f)))"
      by (simp add: rev_map)
    then show ?thesis by (simp add: node_map_def o_def map_of_map)
  qed
  then have "file_view js f = file_view js ?g"
    by (simp add: file_view_def option.map_comp o_def)
  ultimately show ?thesis using assms empty_report_iff by blast
qed

lemma diff_misses_tickets_witness:
  "(let edited = diff_left\<lparr>f_nodes := map (edit_ticket (\<lambda>n. n\<lparr>n_prompt := Some ''rm -rf''\<rparr>)) (f_nodes diff_left)\<rparr> in
     edited \<noteq> diff_left \<and> report_is_empty (diff_files sample_json diff_left edited))"
  unfolding Let_def
proof
  show "report_is_empty (diff_files sample_json diff_left
      (diff_left\<lparr>f_nodes := map (edit_ticket (\<lambda>n. n\<lparr>n_prompt := Some ''rm -rf''\<rparr>)) (f_nodes diff_left)\<rparr>))"
    by (rule diff_misses_tickets [OF diff_sample_diffable(1)])
qed (simp add: diff_sample_defs edit_ticket_def)

end
