(* ===== verification/Repair.thy ===== *)
theory Repair
  imports Parser Utf8
begin

text \<open>
  Repair of text before parsing, \<open>crates/agm-core/src/repair/\<close>: the nine rules
  (\<open>rules/whitespace.rs\<close>, \<open>smart_quotes.rs\<close>, \<open>prose_prefix.rs\<close>, \<open>bullets.rs\<close>, \<open>code_fence.rs\<close>),
  their registry (\<open>rules/mod.rs\<close>), the report and the pipeline with its safety net (\<open>mod.rs\<close>).
  A rule is a function from the text to the new text and the records of what it rewrote.
  \<open>lc\<close> is Unicode's lower case, \<open>None\<close> of the pipeline a parser that does not return.
\<close>

section \<open>Records and reports\<close>

record repair_record =
  rr_rule :: string
  rr_line :: nat
  rr_col :: nat
  rr_before :: string
  rr_after :: string

record repair_report =
  rp_rewrites :: "repair_record list"
  rp_rolled_back :: bool

definition repair_report_is_empty :: "repair_report \<Rightarrow> bool" where
  "repair_report_is_empty r \<longleftrightarrow> rp_rewrites r = []"

text \<open>The rules of the records in the order of their first occurrence.\<close>

definition first_rules :: "repair_record list \<Rightarrow> string list" where
  "first_rules recs = fold (\<lambda>r order. if rr_rule r \<in> set order then order else order @ [rr_rule r]) recs []"

definition repair_summary :: "repair_report \<Rightarrow> string" where
  "repair_summary r =
     (if rp_rewrites r = [] then ''0 rewrites''
      else
        (let order = first_rules (rp_rewrites r);
             occurrences = (\<lambda>i. length (filter (\<lambda>x. rr_rule x = i) (rp_rewrites r)));
             n = length (rp_rewrites r); rules = length order;
             parts = map (\<lambda>i. i @ '' '' @ [CHR 0xC3, CHR 0x97] @ show_nat (occurrences i)) order in
         show_nat n @ '' '' @ (if n = 1 then ''rewrite'' else ''rewrites'') @ '' ('' @ show_nat rules @ '' '' @
         (if rules = 1 then ''rule'' else ''rules'') @ ''): '' @ join '', '' parts))"

definition lines_for_rule :: "repair_report \<Rightarrow> string \<Rightarrow> nat list" where
  "lines_for_rule r i = remdups_adj (sort (map rr_line (filter (\<lambda>x. rr_rule x = i) (rp_rewrites r))))"

type_synonym rule_result = "string \<times> repair_record list"

text \<open>The last steps of most rules: the final newline, and the input itself when nothing was rewritten.\<close>

definition drop_added_newline :: "string \<Rightarrow> string \<Rightarrow> string" where
  "drop_added_newline input out =
     (if input \<noteq> [] \<and> \<not> ends_with [nl] input \<and> ends_with [nl] out then butlast out else out)"

definition join_lines :: "string \<Rightarrow> string list \<Rightarrow> string" where
  "join_lines input ls = join [nl] ls @ (if ends_with [nl] input then [nl] else [])"

definition or_input :: "string \<Rightarrow> rule_result \<Rightarrow> rule_result" where
  "or_input input res = (if snd res = [] then (input, []) else res)"

section \<open>Whitespace\<close>

text \<open>U+FEFF, U+200B, U+200C and U+200D.\<close>

definition zero_width_chars :: "string list" where
  "zero_width_chars = [[CHR 0xEF, CHR 0xBB, CHR 0xBF], [CHR 0xE2, CHR 0x80, CHR 0x8B],
     [CHR 0xE2, CHR 0x80, CHR 0x8C], [CHR 0xE2, CHR 0x80, CHR 0x8D]]"

fun zero_width_from :: "nat \<Rightarrow> nat \<Rightarrow> string list \<Rightarrow> rule_result" where
  "zero_width_from line col [] = ([], [])"
| "zero_width_from line col (ch # chs) =
     (if ch \<in> set zero_width_chars
      then (let (out, recs) = zero_width_from line col chs in
        (out, \<lparr>rr_rule = ''R-ZERO-WIDTH'', rr_line = line, rr_col = col, rr_before = ch, rr_after = []\<rparr> # recs))
      else (let (out, recs) = (if ch = [nl] then zero_width_from (line + 1) 1 chs
                               else zero_width_from line (col + 1) chs) in (ch @ out, recs)))"

definition apply_zero_width :: "string \<Rightarrow> rule_result" where
  "apply_zero_width input = zero_width_from 1 1 (str_chars input)"

text \<open>\<open>replace\<close> of a return with its newline by the newline.\<close>

fun replace_crlf :: "string \<Rightarrow> string" where
  "replace_crlf (a # b # s) = (if a = cr \<and> b = nl then nl # replace_crlf s else a # replace_crlf (b # s))"
| "replace_crlf s = s"

definition apply_crlf :: "string \<Rightarrow> rule_result" where
  "apply_crlf input =
     (if cr \<notin> set input then (input, [])
      else (map (\<lambda>c. if c = cr then nl else c) (replace_crlf input),
        [\<lparr>rr_rule = ''R-CRLF'', rr_line = 1, rr_col = 1,
          rr_before = [CHR 0x5C, CHR ''r'', CHR 0x5C, CHR ''n''], rr_after = [CHR 0x5C, CHR ''n'']\<rparr>]))"

text \<open>A loop over the numbered lines that writes every line with a newline.\<close>

fun per_line :: "(nat \<Rightarrow> string \<Rightarrow> rule_result) \<Rightarrow> nat \<Rightarrow> string list \<Rightarrow> rule_result" where
  "per_line f n [] = ([], [])"
| "per_line f n (l # ls) =
     (let (t, recs) = f n l; (out, recs') = per_line f (Suc n) ls in (t @ nl # out, recs @ recs'))"

definition tabs_to_spaces_line :: "nat \<Rightarrow> string \<Rightarrow> rule_result" where
  "tabs_to_spaces_line n l =
     (let tabs = length (takeWhile (\<lambda>c. c = tab) l); spaces = concat (replicate tabs ''  '') in
      if tabs > 0
      then (spaces @ drop tabs l,
        [\<lparr>rr_rule = ''R-TABS-TO-SPACES'', rr_line = n, rr_col = 1, rr_before = replicate tabs tab, rr_after = spaces\<rparr>])
      else (l, []))"

definition apply_tabs_to_spaces :: "string \<Rightarrow> rule_result" where
  "apply_tabs_to_spaces input =
     (let (out, recs) = per_line tabs_to_spaces_line 1 (str_lines input) in
      or_input input (drop_added_newline input out, recs))"

definition trailing_ws_line :: "nat \<Rightarrow> string \<Rightarrow> rule_result" where
  "trailing_ws_line n l =
     (let trimmed = trim_end l in
      if length trimmed < length l
      then (trimmed, [\<lparr>rr_rule = ''R-TRAILING-WS'', rr_line = n, rr_col = length (str_chars trimmed) + 1,
        rr_before = drop (length trimmed) l, rr_after = []\<rparr>])
      else (l, []))"

definition apply_trailing_ws :: "string \<Rightarrow> rule_result" where
  "apply_trailing_ws input =
     (let (out, recs) = per_line trailing_ws_line 1 (str_lines input) in
      or_input input (drop_added_newline input out, recs))"

section \<open>Quotes\<close>

text \<open>U+201C, U+201D, U+00AB, U+00BB become a double quote, U+2018 and U+2019 a single one.\<close>

definition ascii_replacement :: "string \<Rightarrow> char option" where
  "ascii_replacement ch =
     (if ch \<in> {[CHR 0xE2, CHR 0x80, CHR 0x9C], [CHR 0xE2, CHR 0x80, CHR 0x9D], [CHR 0xC2, CHR 0xAB], [CHR 0xC2, CHR 0xBB]}
      then Some CHR 0x22
      else if ch \<in> {[CHR 0xE2, CHR 0x80, CHR 0x98], [CHR 0xE2, CHR 0x80, CHR 0x99]} then Some CHR 0x27
      else None)"

fun quote_chars :: "nat \<Rightarrow> nat \<Rightarrow> string list \<Rightarrow> rule_result" where
  "quote_chars line col [] = ([], [])"
| "quote_chars line col (ch # chs) =
     (let (out, recs) = quote_chars line (Suc col) chs in
      case ascii_replacement ch of
        None \<Rightarrow> (ch @ out, recs)
      | Some q \<Rightarrow> (q # out,
          \<lparr>rr_rule = ''R-SMART-QUOTES'', rr_line = line, rr_col = col, rr_before = ch, rr_after = [q]\<rparr> # recs))"

definition fence :: string where
  "fence = replicate 3 CHR 0x60"

fun quote_lines :: "nat \<Rightarrow> bool \<Rightarrow> string list \<Rightarrow> rule_result" where
  "quote_lines n in_fence [] = ([], [])"
| "quote_lines n in_fence (l # ls) =
     (if starts_with fence (trim_start l)
      then (let (out, recs) = quote_lines (Suc n) (\<not> in_fence) ls in (l @ nl # out, recs))
      else if in_fence
      then (let (out, recs) = quote_lines (Suc n) in_fence ls in (l @ nl # out, recs))
      else (let (t, recs) = quote_chars n 1 (str_chars l); (out, recs') = quote_lines (Suc n) in_fence ls in
        (t @ nl # out, recs @ recs')))"

definition apply_smart_quotes :: "string \<Rightarrow> rule_result" where
  "apply_smart_quotes input =
     (let (out, recs) = quote_lines 1 False (str_lines input) in
      or_input input (drop_added_newline input out, recs))"

section \<open>Fences and prose around the file\<close>

fun position :: "('a \<Rightarrow> bool) \<Rightarrow> 'a list \<Rightarrow> nat option" where
  "position P [] = None"
| "position P (x # xs) = (if P x then Some 0 else map_option Suc (position P xs))"

definition rposition :: "('a \<Rightarrow> bool) \<Rightarrow> 'a list \<Rightarrow> nat option" where
  "rposition P xs = map_option (\<lambda>i. length xs - Suc i) (position P (rev xs))"

definition apply_missing_fence :: "string \<Rightarrow> rule_result" where
  "apply_missing_fence input =
     (let ls = str_lines input in
      case (position (\<lambda>l. trim l \<noteq> []) ls, rposition (\<lambda>l. trim l \<noteq> []) ls) of
        (Some first_idx, Some last_idx) \<Rightarrow>
          (if first_idx = last_idx then (input, [])
           else
             (let first_line = trim (ls ! first_idx); last_line = trim (ls ! last_idx) in
              if (first_line = fence \<or> first_line = fence @ ''agm'') \<and> last_line = fence
              then (join_lines input
                  (map snd (filter (\<lambda>(idx, l). idx \<noteq> first_idx \<and> idx \<noteq> last_idx) (enumerate 0 ls))),
                [\<lparr>rr_rule = ''R-MISSING-AGM-FENCE'', rr_line = 1, rr_col = 1, rr_before = ls ! first_idx, rr_after = []\<rparr>])
              else (input, [])))
      | _ \<Rightarrow> (input, []))"

definition is_agm_marker :: "string \<Rightarrow> bool" where
  "is_agm_marker line =
     (let t = trim_start line in
      starts_with ''agm:'' t \<or> starts_with ''package:'' t \<or> starts_with ''version:'' t \<or>
      starts_with ''# '' t \<or> t = ''#'' \<or> starts_with ''node '' t)"

text \<open>The loop of the prose rule: \<open>seen\<close> non-blank lines so far, at most twenty.\<close>

fun find_header :: "nat \<Rightarrow> nat \<Rightarrow> string list \<Rightarrow> nat option" where
  "find_header idx seen [] = None"
| "find_header idx seen (l # ls) =
     (if trim l = [] then find_header (Suc idx) seen ls
      else if is_agm_marker l then Some idx
      else if 20 \<le> Suc seen then None
      else find_header (Suc idx) (Suc seen) ls)"

definition apply_prose_prefix :: "string \<Rightarrow> rule_result" where
  "apply_prose_prefix input =
     (let ls = str_lines input in
      case find_header 0 0 ls of
        None \<Rightarrow> (input, [])
      | Some start_idx \<Rightarrow>
          (if start_idx = 0 then (input, [])
           else (join_lines input (drop start_idx ls),
             [\<lparr>rr_rule = ''R-PROSE-BEFORE-HEADER'', rr_line = 1, rr_col = 1,
               rr_before = join [nl] (take start_idx ls), rr_after = []\<rparr>])))"

section \<open>Bullets\<close>

definition is_dash_bullet :: "string \<Rightarrow> bool" where
  "is_dash_bullet line \<longleftrightarrow> starts_with ''- '' line \<or> line = ''-'' \<or> starts_with [CHR ''-'', tab] line"

definition ascii_ws :: "char \<Rightarrow> bool" where
  "ascii_ws c \<longleftrightarrow> c \<in> {sp, tab, nl, cr, CHR 0x0C}"

definition indent_len :: "string \<Rightarrow> nat" where
  "indent_len s = length (takeWhile ascii_ws s)"

definition should_rewrite_result :: "nat option \<Rightarrow> string list \<Rightarrow> bool" where
  "should_rewrite_result last_non_blank result =
     (case last_non_blank of
        None \<Rightarrow> False
      | Some prev_idx \<Rightarrow> (let prev = trim (result ! prev_idx) in ends_with '':'' prev \<or> is_dash_bullet prev))"

fun replace_first_char :: "char \<Rightarrow> char \<Rightarrow> string \<Rightarrow> string" where
  "replace_first_char a b [] = []"
| "replace_first_char a b (c # s) = (if c = a then b # s else c # replace_first_char a b s)"

definition is_bullet :: "char \<Rightarrow> string \<Rightarrow> bool" where
  "is_bullet b t \<longleftrightarrow> starts_with [b, sp] t \<or> t = [b] \<or> starts_with [b, tab] t"

text \<open>The loop over the lines: \<open>result\<close> holds the lines written so far.\<close>

fun bullet_lines :: "nat option \<Rightarrow> string list \<Rightarrow> string list \<Rightarrow> string list \<times> repair_record list" where
  "bullet_lines last_non_blank result [] = (result, [])"
| "bullet_lines last_non_blank result (l # ls) =
     (let t = trim_start l; is_star = is_bullet CHR ''*'' t; is_plus = is_bullet CHR ''+'' t;
          rewrite = ((is_star \<or> is_plus) \<and> should_rewrite_result last_non_blank result);
          bullet = (if is_star then CHR ''*'' else CHR ''+'');
          l' = (if rewrite then replace_first_char bullet CHR ''-'' l else l);
          (out, recs) = bullet_lines (if trim l \<noteq> [] then Some (length result) else last_non_blank) (result @ [l']) ls in
      (out, (if rewrite
             then [\<lparr>rr_rule = ''R-BULLET-STAR'', rr_line = length result + 1, rr_col = indent_len l + 1,
               rr_before = [bullet], rr_after = ''-''\<rparr>]
             else []) @ recs))"

definition apply_bullet_star :: "string \<Rightarrow> rule_result" where
  "apply_bullet_star input =
     (let (result, recs) = bullet_lines None [] (str_lines input) in
      or_input input (join_lines input result, recs))"

section \<open>Bare code blocks\<close>

definition lang_tokens :: "string list" where
  "lang_tokens = [''python'', ''rust'', ''javascript'', ''typescript'', ''java'', ''go'', ''bash'', ''sh'', ''sql'',
     ''yaml'', ''json'', ''toml'', ''c'', ''cpp'', ''c++'', ''ruby'', ''php'', ''kotlin'', ''swift'']"

definition looks_like_lang :: "(string \<Rightarrow> string) \<Rightarrow> string \<Rightarrow> bool" where
  "looks_like_lang lc line \<longleftrightarrow> lc (trim line) \<in> set lang_tokens"

text \<open>A line that belongs to the block below a \<open>code:\<close> line indented by \<open>code_indent\<close>.\<close>

definition in_code_block :: "nat \<Rightarrow> string \<Rightarrow> bool" where
  "in_code_block code_indent next_line \<longleftrightarrow>
     trim next_line \<noteq> [] \<and> \<not> indent_len next_line < code_indent + 2 \<and>
     \<not> (indent_len next_line = code_indent \<and> str_contains (trim next_line) '':'')"

function bare_code_lines :: "(string \<Rightarrow> string) \<Rightarrow> nat \<Rightarrow> string list \<Rightarrow> string list \<times> repair_record list" where
  "bare_code_lines lc n [] = ([], [])"
| "bare_code_lines lc n (l # ls) =
     (let block_lines = takeWhile (in_code_block (indent_len l)) ls;
          prefix = replicate (indent_len l + 2) sp; lang = trim (hd block_lines); code_body = tl block_lines in
      if trim l = ''code:'' \<and> 3 \<le> length block_lines \<and> looks_like_lang lc (trim (hd block_lines))
      then (let (out, recs) = bare_code_lines lc (n + 1 + length block_lines)
                  (dropWhile (in_code_block (indent_len l)) ls) in
        (l # (prefix @ fence @ lang) # code_body @ (prefix @ fence) # out,
         \<lparr>rr_rule = ''R-BARE-CODE-BLOCK'', rr_line = n, rr_col = 1, rr_before = join [nl] block_lines,
           rr_after = prefix @ fence @ lang @ [nl] @ join [nl] code_body @ [nl] @ prefix @ fence\<rparr> # recs))
      else (let (out, recs) = bare_code_lines lc (Suc n) ls in (l # out, recs)))"
  by pat_completeness auto
termination
  by (relation "measure (\<lambda>(_, _, ls). length ls)") (auto simp: less_Suc_eq_le length_dropWhile_le)

definition apply_bare_code :: "(string \<Rightarrow> string) \<Rightarrow> string \<Rightarrow> rule_result" where
  "apply_bare_code lc input =
     (let (result, recs) = bare_code_lines lc 1 (str_lines input) in
      or_input input (join_lines input result, recs))"

section \<open>The pipeline\<close>

text \<open>The trait of a rule.\<close>

record repair_rule =
  rl_id :: string
  rl_apply :: "string \<Rightarrow> rule_result"
  rl_default :: bool

definition disabled_by_default :: "repair_rule \<Rightarrow> repair_rule" where
  "disabled_by_default r = r\<lparr>rl_default := False\<rparr>"

definition builtin_rules :: "(string \<Rightarrow> string) \<Rightarrow> repair_rule list" where
  "builtin_rules lc =
     [\<lparr>rl_id = ''R-ZERO-WIDTH'', rl_apply = apply_zero_width, rl_default = True\<rparr>,
      \<lparr>rl_id = ''R-CRLF'', rl_apply = apply_crlf, rl_default = True\<rparr>,
      \<lparr>rl_id = ''R-TABS-TO-SPACES'', rl_apply = apply_tabs_to_spaces, rl_default = True\<rparr>,
      \<lparr>rl_id = ''R-TRAILING-WS'', rl_apply = apply_trailing_ws, rl_default = True\<rparr>,
      \<lparr>rl_id = ''R-SMART-QUOTES'', rl_apply = apply_smart_quotes, rl_default = True\<rparr>,
      \<lparr>rl_id = ''R-MISSING-AGM-FENCE'', rl_apply = apply_missing_fence, rl_default = True\<rparr>,
      \<lparr>rl_id = ''R-PROSE-BEFORE-HEADER'', rl_apply = apply_prose_prefix, rl_default = True\<rparr>,
      \<lparr>rl_id = ''R-BULLET-STAR'', rl_apply = apply_bullet_star, rl_default = True\<rparr>,
      disabled_by_default \<lparr>rl_id = ''R-BARE-CODE-BLOCK'', rl_apply = apply_bare_code lc, rl_default = True\<rparr>]"

definition builtin_rule_ids :: "(string \<Rightarrow> string) \<Rightarrow> string list" where
  "builtin_rule_ids lc = map rl_id (builtin_rules lc)"

record repair_config =
  rc_disabled_rules :: "string list"
  rc_only_rules :: "string list option"
  rc_safety_net :: bool

definition repair_config_default :: repair_config where
  "repair_config_default = \<lparr>rc_disabled_rules = [], rc_only_rules = None, rc_safety_net = True\<rparr>"

record repair_output =
  ro_text :: string
  ro_report :: repair_report
  ro_rolled_back :: bool

definition active_rules :: "repair_config \<Rightarrow> repair_rule list \<Rightarrow> repair_rule list" where
  "active_rules config rules =
     (case rc_only_rules config of
        Some only \<Rightarrow> filter (\<lambda>r. rl_id r \<in> set only) rules
      | None \<Rightarrow> filter (\<lambda>r. rl_default r \<and> rl_id r \<notin> set (rc_disabled_rules config)) rules)"

text \<open>One turn of the loop over the active rules.\<close>

definition apply_rule :: "repair_rule \<Rightarrow> rule_result \<Rightarrow> rule_result" where
  "apply_rule rule res =
     (case res of (current, recs) \<Rightarrow> (case rl_apply rule current of (next_text, new) \<Rightarrow> (next_text, recs @ new)))"

definition repair_text :: "parse_env \<Rightarrow> (string \<Rightarrow> string) \<Rightarrow> string \<Rightarrow> repair_config \<Rightarrow> repair_output option" where
  "repair_text pe lc raw config =
     (let (current, records) = fold apply_rule (active_rules config (builtin_rules lc)) (raw, []);
          kept = \<lparr>ro_text = current, ro_report = \<lparr>rp_rewrites = records, rp_rolled_back = False\<rparr>, ro_rolled_back = False\<rparr> in
      if records \<noteq> [] \<and> rc_safety_net config
      then (case parse pe current of
          None \<Rightarrow> None
        | Some (Inl _) \<Rightarrow> Some \<lparr>ro_text = raw, ro_report = \<lparr>rp_rewrites = records, rp_rolled_back = True\<rparr>, ro_rolled_back = True\<rparr>
        | Some (Inr _) \<Rightarrow> Some kept)
      else Some kept)"

end
