(* ===== verification/Repair_Facts.thy ===== *)
theory Repair_Facts
  imports Repair
begin

text \<open>
  What the repair rules promise. The locale \<open>text_rule\<close> is the contract that the trait of a rule
  documents: without a record the text is unchanged, and a record carries the identifier of its
  rule. Every built-in rule is an interpretation. On it rest the facts of the pipeline: its safety
  net, and the form of the text it lets through.
\<close>

section \<open>The contract of a rule\<close>

locale text_rule =
  fixes rule_id :: string
    and run :: "string \<Rightarrow> rule_result"
  assumes unchanged: "run s = (t, []) \<Longrightarrow> t = s"
    and labelled: "list_all (\<lambda>r. rr_rule r = rule_id) (snd (run s))"
begin

lemma recorded: "fst (run s) \<noteq> s \<Longrightarrow> snd (run s) \<noteq> []"
  using unchanged [of s "fst (run s)"] by (metis prod.collapse)

lemma own_records: "filter (\<lambda>r. rr_rule r = rule_id) (snd (run s)) = snd (run s)"
  using labelled by (simp add: list_all_iff filter_id_conv)

end

lemma or_input_simps [simp]: "snd (or_input s res) = snd res" "or_input s res = (t, []) \<longleftrightarrow> t = s \<and> snd res = []"
  by (auto simp: or_input_def)

lemma per_line_labelled:
  assumes "\<And>n l. list_all P (snd (f n l))"
  shows "list_all P (snd (per_line f n ls))"
  using assms by (induction ls arbitrary: n) (auto simp: Let_def case_prod_beta')

lemma zero_width_labelled: "list_all (\<lambda>r. rr_rule r = ''R-ZERO-WIDTH'') (snd (zero_width_from line col chs))"
  by (induction line col chs rule: zero_width_from.induct) (auto simp: Let_def case_prod_beta')

lemma zero_width_same: "snd (zero_width_from line col chs) = [] \<Longrightarrow> fst (zero_width_from line col chs) = concat chs"
  by (induction line col chs rule: zero_width_from.induct) (auto simp: Let_def case_prod_beta' split: if_splits)

interpretation zero_width: text_rule "''R-ZERO-WIDTH''" apply_zero_width
proof
  fix s t
  assume "apply_zero_width s = (t, [])"
  then show "t = s"
    using zero_width_same [of 1 1 "str_chars s"] by (simp add: apply_zero_width_def concat_str_chars)
qed (simp add: apply_zero_width_def zero_width_labelled)

interpretation crlf: text_rule "''R-CRLF''" apply_crlf
  by unfold_locales (auto simp: apply_crlf_def split: if_splits)

interpretation tabs: text_rule "''R-TABS-TO-SPACES''" apply_tabs_to_spaces
  by unfold_locales
    (auto simp: apply_tabs_to_spaces_def case_prod_beta' Let_def tabs_to_spaces_line_def intro!: per_line_labelled)

interpretation trailing: text_rule "''R-TRAILING-WS''" apply_trailing_ws
  by unfold_locales
    (auto simp: apply_trailing_ws_def case_prod_beta' Let_def trailing_ws_line_def intro!: per_line_labelled)

lemma quote_chars_labelled: "list_all (\<lambda>r. rr_rule r = ''R-SMART-QUOTES'') (snd (quote_chars line col chs))"
  by (induction line col chs rule: quote_chars.induct) (auto simp: Let_def case_prod_beta' split: option.split)

lemma quote_lines_labelled: "list_all (\<lambda>r. rr_rule r = ''R-SMART-QUOTES'') (snd (quote_lines n in_fence ls))"
  using quote_chars_labelled
  by (induction ls arbitrary: n in_fence) (auto simp: Let_def case_prod_beta')

interpretation quotes: text_rule "''R-SMART-QUOTES''" apply_smart_quotes
  by unfold_locales (auto simp: apply_smart_quotes_def case_prod_beta' Let_def quote_lines_labelled)

interpretation missing_fence: text_rule "''R-MISSING-AGM-FENCE''" apply_missing_fence
  by unfold_locales (auto simp: apply_missing_fence_def Let_def split: option.splits if_splits)

interpretation prose: text_rule "''R-PROSE-BEFORE-HEADER''" apply_prose_prefix
  by unfold_locales (auto simp: apply_prose_prefix_def Let_def split: option.splits if_splits)

lemma bullet_labelled: "list_all (\<lambda>r. rr_rule r = ''R-BULLET-STAR'') (snd (bullet_lines last_nb result ls))"
  by (induction last_nb result ls rule: bullet_lines.induct) (auto simp: Let_def case_prod_beta')

interpretation bullet: text_rule "''R-BULLET-STAR''" apply_bullet_star
  by unfold_locales (auto simp: apply_bullet_star_def case_prod_beta' Let_def bullet_labelled)

lemma bare_code_labelled: "list_all (\<lambda>r. rr_rule r = ''R-BARE-CODE-BLOCK'') (snd (bare_code_lines lc n ls))"
  by (induction lc n ls rule: bare_code_lines.induct) (auto simp: Let_def case_prod_beta')

interpretation bare_code: text_rule "''R-BARE-CODE-BLOCK''" "apply_bare_code lc"
  by unfold_locales (auto simp: apply_bare_code_def case_prod_beta' Let_def bare_code_labelled)

lemma builtin_rule_contract: "r \<in> set (builtin_rules lc) \<Longrightarrow> text_rule (rl_id r) (rl_apply r)"
  using zero_width.text_rule_axioms crlf.text_rule_axioms tabs.text_rule_axioms trailing.text_rule_axioms
    quotes.text_rule_axioms missing_fence.text_rule_axioms prose.text_rule_axioms bullet.text_rule_axioms
    bare_code.text_rule_axioms
  by (auto simp: builtin_rules_def disabled_by_default_def)

section \<open>The pipeline\<close>

lemma active_rules_builtin: "set (active_rules config rules) \<subseteq> set rules"
  by (auto simp: active_rules_def split: option.split)

lemma fold_rules:
  assumes "\<And>r. r \<in> set rules \<Longrightarrow> text_rule (rl_id r) (rl_apply r)"
  shows "\<exists>t new. fold apply_rule rules (s, recs) = (t, recs @ new) \<and> (new = [] \<longrightarrow> t = s) \<and>
      rr_rule ` set new \<subseteq> rl_id ` set rules"
  using assms
proof (induction rules arbitrary: s recs)
  case (Cons r rules)
  obtain s' first where step: "rl_apply r s = (s', first)" by force
  have rule: "text_rule (rl_id r) (rl_apply r)" using Cons.prems by simp
  have first: "first = [] \<longrightarrow> s' = s" and label: "rr_rule ` set first \<subseteq> {rl_id r}"
    using text_rule.unchanged [OF rule, of s] text_rule.labelled [OF rule, of s] step by (auto simp: list_all_iff)
  have turn: "apply_rule r (s, recs) = (s', recs @ first)" by (simp add: apply_rule_def step)
  obtain t new where "fold apply_rule rules (s', recs @ first) = (t, (recs @ first) @ new)"
    "new = [] \<longrightarrow> t = s'" "rr_rule ` set new \<subseteq> rl_id ` set rules"
    using Cons.IH [of s' "recs @ first"] Cons.prems by auto
  then show ?case
    using first label by (intro exI [of _ t] exI [of _ "first @ new"]) (auto simp: turn)
qed simp

lemma pipeline_records:
  obtains t recs where "fold apply_rule (active_rules config (builtin_rules lc)) (s, []) = (t, recs)"
    and "recs = [] \<longrightarrow> t = s" and "rr_rule ` set recs \<subseteq> rl_id ` set (active_rules config (builtin_rules lc))"
  using fold_rules [of "active_rules config (builtin_rules lc)" s "[]"] active_rules_builtin builtin_rule_contract
  by (metis append_Nil subsetD)

section \<open>Lines of the text\<close>

text \<open>
  \<open>pieces s\<close> are the lines between newlines; without carriage returns they are the lines of
  \<open>str_lines\<close>, up to an empty last one.
\<close>

definition pieces :: "string \<Rightarrow> string set" where
  "pieces s = set (split_char nl s)"

lemma lines_from_split: "cr \<notin> set acc \<Longrightarrow> cr \<notin> set s \<Longrightarrow>
    set (lines_from acc s) \<subseteq> (case split_char nl s of p # ps \<Rightarrow> insert (rev acc @ p) (set ps))"
proof (induction s arbitrary: acc)
  case (Cons c s)
  have chomp: "chomp_cr (rev acc) = rev acc"
    using Cons.prems(1) by (intro chomp_cr_id) (metis last_in_set set_rev)
  show ?case
  proof (cases "c = nl")
    case True
    then show ?thesis
      using Cons.IH [of "[]"] Cons.prems chomp by (auto split: list.splits)
  next
    case False
    then show ?thesis
      using Cons.IH [of "c # acc"] Cons.prems by (auto split: list.splits)
  qed
qed simp

lemma lines_in_pieces: "cr \<notin> set s \<Longrightarrow> set (str_lines s) \<subseteq> pieces s"
  using lines_from_split [of "[]" s] by (auto simp: str_lines_def pieces_def split: list.splits)

lemma pieces_append_nl: "pieces (s @ nl # t) = pieces s \<union> pieces t"
proof -
  have "split_char nl (s @ nl # t) = split_char nl s @ split_char nl t"
    by (induction s) (auto split: list.splits)
  then show ?thesis by (simp add: pieces_def)
qed

lemma pieces_line: "nl \<notin> set l \<Longrightarrow> pieces l = {l}"
proof -
  have "nl \<notin> set l \<Longrightarrow> split_char nl l = [l]" by (induction l) auto
  then show "nl \<notin> set l \<Longrightarrow> pieces l = {l}" by (simp add: pieces_def)
qed

lemma pieces_join: "list_all (\<lambda>l. nl \<notin> set l) ls \<Longrightarrow> pieces (join [nl] ls) \<subseteq> insert [] (set ls)"
proof (induction ls rule: induct_list012)
  case 1
  then show ?case by (simp add: pieces_def)
next
  case (2 l)
  then show ?case by (simp add: pieces_line)
next
  case (3 l m ls)
  then show ?case by (auto simp: pieces_append_nl pieces_line)
qed

lemma pieces_Nil [simp]: "pieces [] = {[]}"
  by (simp add: pieces_def)

lemma pieces_join_lines: "list_all (\<lambda>l. nl \<notin> set l) ls \<Longrightarrow> pieces (join_lines input ls) \<subseteq> insert [] (set ls)"
  using pieces_join [of ls] pieces_append_nl [of "join [nl] ls" "[]"] by (auto simp: join_lines_def)

lemma pieces_unlines: "list_all (\<lambda>l. nl \<notin> set l) ls \<Longrightarrow> pieces (unlines ls) \<subseteq> insert [] (set ls)"
  by (induction ls) (auto simp: pieces_append_nl pieces_line)

lemma pieces_drop_newline: "pieces (drop_added_newline input s) \<subseteq> pieces s"
proof (cases "drop_added_newline input s = s")
  case False
  then have "ends_with [nl] s" and drop: "drop_added_newline input s = butlast s"
    by (auto simp: drop_added_newline_def split: if_splits)
  then obtain t where "s = t @ [nl]"
    by (cases s rule: rev_cases) (auto simp: ends_with_def)
  then show ?thesis using drop pieces_append_nl [of t "[]"] by auto
qed simp

lemma no_newline: "l \<in> set (str_lines s) \<Longrightarrow> nl \<notin> set l"
proof -
  have "set acc \<inter> {nl} = {} \<Longrightarrow> l \<in> set (lines_from acc s) \<Longrightarrow> nl \<notin> set l" for acc
  proof (induction acc s rule: lines_from.induct)
    case (2 acc c s)
    have "set (chomp_cr (rev acc)) \<subseteq> set acc"
      by (auto simp: chomp_cr_def strip_suffix_def strip_prefix_def split: option.splits if_splits dest: in_set_dropD)
    then show ?case using 2 by (auto split: if_splits)
  qed (auto split: if_splits)
  from this [of "[]"] show "l \<in> set (str_lines s) \<Longrightarrow> nl \<notin> set l" by (simp add: str_lines_def)
qed

lemma no_return: "cr \<notin> set s \<Longrightarrow> l \<in> set (str_lines s) \<Longrightarrow> cr \<notin> set l"
  using lines_in_pieces set_split_char by (fastforce simp: pieces_def)

lemma lines_from_cover:
  "cr \<notin> set acc \<Longrightarrow> cr \<notin> set s \<Longrightarrow> pieces (rev acc @ s) \<subseteq> insert [] (set (lines_from acc s))" if "nl \<notin> set acc"
  using that
proof (induction acc s rule: lines_from.induct)
  case (1 acc)
  then show ?case using pieces_line [of "rev acc"] by simp
next
  case (2 acc c s)
  have chomp: "chomp_cr (rev acc) = rev acc"
    using "2.prems"(1) by (intro chomp_cr_id) (metis last_in_set set_rev)
  show ?case
  proof (cases "c = nl")
    case True
    then show ?thesis
      using "2.IH"(1) [OF True] "2.prems" chomp pieces_line [of "rev acc"] by (auto simp: pieces_append_nl)
  next
    case False
    then show ?thesis using "2.IH"(2) [OF False] "2.prems" by simp
  qed
qed

lemma pieces_lines: "cr \<notin> set s \<Longrightarrow> pieces s \<subseteq> insert [] (set (str_lines s))"
  using lines_from_cover [of "[]" s] by (simp add: str_lines_def)

section \<open>White space at the ends of a line\<close>

text \<open>Whether \<open>drop_ws\<close> takes something away.\<close>

fun leading_ws :: "(char \<Rightarrow> char \<Rightarrow> bool) \<Rightarrow> (char \<Rightarrow> char \<Rightarrow> char \<Rightarrow> bool) \<Rightarrow> string \<Rightarrow> bool" where
  "leading_ws w2 w3 [] = False"
| "leading_ws w2 w3 [a] = ws1 a"
| "leading_ws w2 w3 [a, b] = (ws1 a \<or> w2 a b)"
| "leading_ws w2 w3 (a # b # c # s) = (ws1 a \<or> w2 a b \<or> w3 a b c)"

lemma drop_ws_rest: "\<exists>u. s = u @ drop_ws w2 w3 s"
proof (induction w2 w3 s rule: drop_ws.induct)
  case (4 w2 w3 a b c s)
  have more: "\<exists>u. x = u @ t \<Longrightarrow> \<exists>u. d # x = u @ t" for d :: char and x t by (metis append_Cons)
  show ?case
  proof (cases "ws1 a \<or> w2 a b \<or> w3 a b c")
    case True
    then consider "ws1 a" | "\<not> ws1 a" "w2 a b" | "\<not> ws1 a" "\<not> w2 a b" "w3 a b c" by blast
    then show ?thesis
    proof cases
      case 1
      show ?thesis using more [OF "4.IH"(1) [OF 1], of a] 1 by simp
    next
      case 2
      show ?thesis using more [OF more [OF "4.IH"(2) [OF 2], of b], of a] 2 by simp
    next
      case 3
      show ?thesis using more [OF more [OF more [OF "4.IH"(3) [OF 3], of c], of b], of a] 3 by simp
    qed
  qed simp
qed auto

lemma drop_ws_fixed: "drop_ws w2 w3 s = s \<longleftrightarrow> \<not> leading_ws w2 w3 s"
proof -
  have shorter: "length (drop_ws w2 w3 t) \<le> length t" for t
    using drop_ws_rest [of t w2 w3] by (metis length_append le_add2)
  show ?thesis
  proof (cases "(w2, w3, s)" rule: drop_ws.cases)
    case (4 w2' w3' a b c t)
    then show ?thesis
      using shorter [of "b # c # t"] shorter [of "c # t"] shorter [of t] by (auto dest!: arg_cong [where f = length])
  qed auto
qed

lemma drop_ws_again: "\<not> leading_ws w2 w3 (drop_ws w2 w3 s)"
  by (induction w2 w3 s rule: drop_ws.induct) auto

lemma trim_end_again: "trim_end (trim_end s) = trim_end s"
  using drop_ws_again drop_ws_fixed by (simp add: trim_end_def)

lemma trim_end_prefix: "\<exists>u. s = trim_end s @ u"
proof -
  obtain u where "rev s = u @ drop_ws (\<lambda>a b. ws2 b a) (\<lambda>a b c. ws3 c b a) (rev s)" using drop_ws_rest by blast
  then have "s = rev (u @ drop_ws (\<lambda>a b. ws2 b a) (\<lambda>a b c. ws3 c b a) (rev s))" by (metis rev_rev_ident)
  then show ?thesis by (auto simp: trim_end_def)
qed

lemma leading_ws_changed:
  assumes "\<And>a b. w2 a b \<Longrightarrow> \<not> graphic a \<and> \<not> graphic b"
    and "\<And>a b c. w3 a b c \<Longrightarrow> \<not> graphic a \<and> \<not> graphic b \<and> \<not> graphic c"
    and "graphic q" and "\<not> leading_ws w2 w3 (t @ u)"
  shows "\<not> leading_ws w2 w3 (t @ q # v)"
proof (cases "(w2, w3, t)" rule: leading_ws.cases)
  case 1
  then show ?thesis using assms(1-3) graphic_not_ws1 by (cases v; cases "tl v") auto
next
  case (2 w2' w3' a)
  then have "\<not> ws1 a" using assms(4) by (cases u; cases "tl u") auto
  then show ?thesis using 2 assms(1-3) by (cases v) auto
next
  case (3 w2' w3' a b)
  then have "\<not> ws1 a \<and> \<not> w2 a b" using assms(4) by (cases u) auto
  then show ?thesis using 3 assms(1-3) by auto
next
  case (4 w2' w3' a b c s)
  then show ?thesis using assms(4) by simp
qed

section \<open>Tidy text\<close>

definition tidy_line :: "string \<Rightarrow> bool" where
  "tidy_line l \<longleftrightarrow> \<not> starts_with [tab] l \<and> trim_end l = l"

text \<open>No return, no line with a leading tab or white space at its end.\<close>

definition tidy :: "string \<Rightarrow> bool" where
  "tidy s \<longleftrightarrow> cr \<notin> set s \<and> (\<forall>l \<in> pieces s. tidy_line l)"

lemma tidy_line_Nil [simp]: "tidy_line []"
  by (simp add: tidy_line_def trim_end_def)

text \<open>A line changed at one or more places to a visible ASCII character, and the same behind them.\<close>

definition touched :: "string \<Rightarrow> string \<Rightarrow> bool" where
  "touched l l' \<longleftrightarrow>
     (l' = l \<or> (\<exists>u v q t. l = u @ t \<and> l' = v @ q # t \<and> graphic q)) \<and>
     (starts_with [tab] l' \<longrightarrow> starts_with [tab] l) \<and> (\<forall>c \<in> set l'. c \<in> set l \<or> graphic c)"

lemma touched_same [simp]: "touched l l"
  by (simp add: touched_def)

lemma not_graphic [simp]: "\<not> graphic nl" "\<not> graphic cr" "\<not> graphic tab"
  by (simp_all add: graphic_def byte_def)

lemma touched_tidy: "tidy_line l \<Longrightarrow> touched l l' \<Longrightarrow> tidy_line l'"
proof -
  let ?drop = "drop_ws (\<lambda>a b. ws2 b a) (\<lambda>a b c. ws3 c b a)"
  assume tidy: "tidy_line l" and touched: "touched l l'"
  have "trim_end l' = l'"
  proof (cases "l' = l")
    case False
    then obtain u v q t where l: "l = u @ t" and l': "l' = v @ q # t" and q: "graphic q"
      using touched by (auto simp: touched_def)
    have "?drop (rev l) = rev l" using tidy by (simp add: tidy_line_def trim_end_def rev_swap)
    then have "\<not> leading_ws (\<lambda>a b. ws2 b a) (\<lambda>a b c. ws3 c b a) (rev t @ rev u)"
      by (simp add: l drop_ws_fixed)
    then have "\<not> leading_ws (\<lambda>a b. ws2 b a) (\<lambda>a b c. ws3 c b a) (rev t @ q # rev v)"
      using q by (elim leading_ws_changed [rotated 3]) (auto simp: graphic_def ws2_def ws3_def)
    then show ?thesis by (simp add: l' trim_end_def rev_swap drop_ws_fixed [symmetric])
  qed (use tidy in \<open>simp add: tidy_line_def\<close>)
  with tidy touched show "tidy_line l'" by (auto simp: tidy_line_def touched_def)
qed

lemma touched_chars: "touched l l' \<Longrightarrow> \<not> graphic c \<Longrightarrow> c \<notin> set l \<Longrightarrow> c \<notin> set l'"
  by (auto simp: touched_def)

text \<open>What a rule that works on the lines returns.\<close>

lemma rule_lines:
  assumes input: "cr \<notin> set input" and out: "pieces out \<subseteq> insert [] (set ls)" "set out \<subseteq> insert nl (\<Union>l \<in> set ls. set l)"
    and lines: "\<And>l. l \<in> set ls \<Longrightarrow> Q l \<and> cr \<notin> set l" and nil: "Q []" and same: "recs = [] \<Longrightarrow> ls = str_lines input"
  shows "cr \<notin> set (fst (or_input input (out, recs))) \<and> (\<forall>l \<in> pieces (fst (or_input input (out, recs))). Q l)"
proof (cases "recs = []")
  case True
  then have "\<forall>l \<in> pieces input. Q l" using pieces_lines [OF input] same lines nil by blast
  then show ?thesis using True input by (simp add: or_input_def)
next
  case False
  have "cr \<notin> set out" using out(2) lines by auto
  then show ?thesis using False out(1) lines nil by (auto simp: or_input_def)
qed

lemma set_drop_newline: "set (drop_added_newline input s) \<subseteq> set s"
  by (auto simp: drop_added_newline_def dest: in_set_butlastD)

lemma set_unlines: "set (unlines ls) \<subseteq> insert nl (\<Union>l \<in> set ls. set l)"
  by (induction ls) auto

lemma set_join_lines: "set (join_lines input ls) \<subseteq> insert nl (\<Union>l \<in> set ls. set l)"
proof -
  have "set (join [nl] ls) \<subseteq> insert nl (\<Union>l \<in> set ls. set l)"
    by (induction ls rule: induct_list012) auto
  then show ?thesis unfolding join_lines_def by auto
qed

lemma unlines_rule:
  assumes "cr \<notin> set input" and "\<And>l. l \<in> set ls \<Longrightarrow> Q l \<and> cr \<notin> set l \<and> nl \<notin> set l" and "Q []"
    and "recs = [] \<Longrightarrow> ls = str_lines input"
  shows "cr \<notin> set (fst (or_input input (drop_added_newline input (unlines ls), recs))) \<and>
    (\<forall>l \<in> pieces (fst (or_input input (drop_added_newline input (unlines ls), recs))). Q l)"
proof (rule rule_lines [OF assms(1)])
  have "list_all (\<lambda>l. nl \<notin> set l) ls" using assms(2) by (simp add: list_all_iff)
  then show "pieces (drop_added_newline input (unlines ls)) \<subseteq> insert [] (set ls)"
    by (rule order_trans [OF pieces_drop_newline pieces_unlines])
  show "set (drop_added_newline input (unlines ls)) \<subseteq> insert nl (\<Union>l \<in> set ls. set l)"
    by (rule order_trans [OF set_drop_newline set_unlines])
qed (simp_all add: assms(2-4))

lemma join_rule:
  assumes "cr \<notin> set input" and "\<And>l. l \<in> set ls \<Longrightarrow> Q l \<and> cr \<notin> set l \<and> nl \<notin> set l" and "Q []"
    and "recs = [] \<Longrightarrow> ls = str_lines input"
  shows "cr \<notin> set (fst (or_input input (join_lines input ls, recs))) \<and>
    (\<forall>l \<in> pieces (fst (or_input input (join_lines input ls, recs))). Q l)"
proof (rule rule_lines [OF assms(1)])
  have "list_all (\<lambda>l. nl \<notin> set l) ls" using assms(2) by (simp add: list_all_iff)
  then show "pieces (join_lines input ls) \<subseteq> insert [] (set ls)" by (rule pieces_join_lines)
  show "set (join_lines input ls) \<subseteq> insert nl (\<Union>l \<in> set ls. set l)" by (rule set_join_lines)
qed (simp_all add: assms(2-4))

section \<open>The rules on tidy text\<close>

lemma crlf_no_return: "cr \<notin> set (fst (apply_crlf s))"
  by (auto simp: apply_crlf_def)

lemma per_line_lines:
  assumes "\<And>i l. snd (f i l) = [] \<Longrightarrow> fst (f i l) = l"
  shows "\<exists>ms. fst (per_line f n ls) = unlines ms \<and> (\<forall>m \<in> set ms. \<exists>l \<in> set ls. \<exists>i. m = fst (f i l)) \<and>
    (snd (per_line f n ls) = [] \<longrightarrow> ms = ls)"
proof (induction ls arbitrary: n)
  case (Cons l ls)
  obtain ms where "fst (per_line f (Suc n) ls) = unlines ms" "\<forall>m \<in> set ms. \<exists>l \<in> set ls. \<exists>i. m = fst (f i l)"
    "snd (per_line f (Suc n) ls) = [] \<longrightarrow> ms = ls"
    using Cons.IH by blast
  then show ?case
    using assms [of n l] by (intro exI [of _ "fst (f n l) # ms"]) (auto simp: Let_def case_prod_beta')
qed simp

lemma per_line_rule:
  assumes "cr \<notin> set input" and same: "\<And>i l. snd (f i l) = [] \<Longrightarrow> fst (f i l) = l"
    and lines: "\<And>i l. l \<in> pieces input \<Longrightarrow> Q (fst (f i l)) \<and> set (fst (f i l)) \<subseteq> insert sp (set l)" and "Q []"
    and res: "per_line f 1 (str_lines input) = (out, recs)"
  shows "cr \<notin> set (fst (or_input input (drop_added_newline input out, recs))) \<and>
    (\<forall>l \<in> pieces (fst (or_input input (drop_added_newline input out, recs))). Q l)"
proof -
  obtain ms where out: "out = unlines ms" and ms: "\<And>m. m \<in> set ms \<Longrightarrow> \<exists>l \<in> set (str_lines input). \<exists>i. m = fst (f i l)"
    and recs: "recs = [] \<Longrightarrow> ms = str_lines input"
    using per_line_lines [where f = f and n = 1 and ls = "str_lines input", OF same] res by auto
  have "Q m \<and> cr \<notin> set m \<and> nl \<notin> set m" if "m \<in> set ms" for m
  proof -
    obtain i k where m: "m = fst (f i k)" and k: "k \<in> set (str_lines input)" using ms \<open>m \<in> set ms\<close> by blast
    then have "k \<in> pieces input" using lines_in_pieces assms(1) by blast
    then show ?thesis using lines [of k i] m no_newline [OF k] no_return [OF assms(1) k] by auto
  qed
  then show ?thesis unfolding out using assms(1,4) recs by (intro unlines_rule)
qed

lemma tabs_tidy:
  assumes "cr \<notin> set s"
  shows "cr \<notin> set (fst (apply_tabs_to_spaces s)) \<and> (\<forall>l \<in> pieces (fst (apply_tabs_to_spaces s)). \<not> starts_with [tab] l)"
proof -
  obtain out recs where res: "per_line tabs_to_spaces_line 1 (str_lines s) = (out, recs)" by force
  have line: "\<not> starts_with [tab] (fst (tabs_to_spaces_line i l)) \<and> set (fst (tabs_to_spaces_line i l)) \<subseteq> insert sp (set l)" for i l
  proof (cases l)
    case (Cons c m)
    then show ?thesis
      by (auto simp: tabs_to_spaces_line_def Let_def dest: in_set_dropD)
  qed (simp add: tabs_to_spaces_line_def)
  have "snd (tabs_to_spaces_line i l) = [] \<Longrightarrow> fst (tabs_to_spaces_line i l) = l" for i l
    by (auto simp: tabs_to_spaces_line_def Let_def split: if_splits)
  from per_line_rule [OF assms this line _ res] show ?thesis
    unfolding apply_tabs_to_spaces_def res by simp
qed

lemma trailing_ws_fst: "fst (trailing_ws_line n l) = trim_end l"
proof -
  obtain u where "l = trim_end l @ u" using trim_end_prefix by blast
  then have "u = [] \<or> length (trim_end l) < length l" by (metis length_append length_greater_0_conv less_add_same_cancel1)
  then show ?thesis using \<open>l = trim_end l @ u\<close> by (auto simp: trailing_ws_line_def Let_def)
qed

lemma trailing_tidy:
  assumes "cr \<notin> set s" and "\<forall>l \<in> pieces s. \<not> starts_with [tab] l"
  shows "tidy (fst (apply_trailing_ws s))"
proof -
  obtain out recs where res: "per_line trailing_ws_line 1 (str_lines s) = (out, recs)" by force
  have line: "tidy_line (fst (trailing_ws_line i l)) \<and> set (fst (trailing_ws_line i l)) \<subseteq> insert sp (set l)"
    if "l \<in> pieces s" for i l
  proof -
    obtain u where u: "l = trim_end l @ u" using trim_end_prefix by blast
    have "\<not> starts_with [tab] (trim_end l)"
    proof
      assume "starts_with [tab] (trim_end l)"
      then have "starts_with [tab] l" by (subst u, cases "trim_end l") auto
      then show False using assms(2) that by blast
    qed
    moreover have "set (trim_end l) \<subseteq> set l" by (metis u set_append Un_upper1)
    ultimately show ?thesis unfolding trailing_ws_fst by (auto simp: tidy_line_def trim_end_again)
  qed
  have "snd (trailing_ws_line i l) = [] \<Longrightarrow> fst (trailing_ws_line i l) = l" for i l
    by (auto simp: trailing_ws_line_def Let_def split: if_splits)
  from per_line_rule [OF assms(1) this line _ res] show ?thesis
    unfolding apply_trailing_ws_def res by (simp add: tidy_def)
qed

lemma touched_line:
  assumes "tidy input" and "k \<in> set (str_lines input)" and "touched k m"
  shows "tidy_line m \<and> cr \<notin> set m \<and> nl \<notin> set m"
proof -
  have cr: "cr \<notin> set input" and "\<forall>l \<in> pieces input. tidy_line l" using assms(1) by (simp_all add: tidy_def)
  then have "tidy_line k" using lines_in_pieces [OF cr] assms(2) by blast
  then show ?thesis
    using touched_tidy assms(3) touched_chars [OF assms(3)] no_newline [OF assms(2)] no_return [OF cr assms(2)] by simp
qed

lemma touched_before: "touched l m \<Longrightarrow> c \<noteq> [] \<Longrightarrow> touched (c @ l) (c @ m)"
proof -
  assume t: "touched l m" and c: "c \<noteq> []"
  have "c @ m = c @ l \<or> (\<exists>u v q t. c @ l = u @ t \<and> c @ m = v @ q # t \<and> graphic q)"
    using t unfolding touched_def by (metis append.assoc)
  then show ?thesis using t c by (cases c) (auto simp: touched_def)
qed

lemma touched_replaced: "touched l m \<Longrightarrow> graphic q \<Longrightarrow> touched (c @ l) (q # m)"
proof -
  assume t: "touched l m" and q: "graphic q"
  have "\<exists>u v r t. c @ l = u @ t \<and> q # m = v @ r # t \<and> graphic r"
  proof (cases "m = l")
    case True
    then show ?thesis using q by (intro exI [of _ c] exI [of _ "[]"]) auto
  next
    case False
    then obtain u v r t' where "l = u @ t'" "m = v @ r # t'" "graphic r" using t by (auto simp: touched_def)
    then show ?thesis by (metis append.assoc append_Cons)
  qed
  moreover have "\<not> starts_with [tab] (q # m)" using q by auto
  ultimately show ?thesis using t q unfolding touched_def by auto
qed

lemma quote_graphic: "ascii_replacement ch = Some q \<Longrightarrow> graphic q"
  by (auto simp: ascii_replacement_def graphic_def byte_def split: if_splits)

lemma quote_chars_touched:
  "list_all (\<lambda>c. c \<noteq> []) chs \<Longrightarrow> touched (concat chs) (fst (quote_chars line col chs)) \<and>
     (snd (quote_chars line col chs) = [] \<longrightarrow> fst (quote_chars line col chs) = concat chs)"
proof (induction chs arbitrary: col)
  case (Cons c chs)
  then have IH: "touched (concat chs) (fst (quote_chars line (Suc col) chs))"
    "snd (quote_chars line (Suc col) chs) = [] \<longrightarrow> fst (quote_chars line (Suc col) chs) = concat chs" by simp_all
  show ?case
  proof (cases "ascii_replacement c")
    case None
    then show ?thesis using touched_before [OF IH(1), of c] IH(2) Cons.prems by (simp add: Let_def case_prod_beta')
  next
    case (Some q)
    then show ?thesis
      using touched_replaced [OF IH(1) quote_graphic [OF Some], of c] by (simp add: Let_def case_prod_beta')
  qed
qed simp

lemma str_chars_nonempty: "list_all (\<lambda>c. c \<noteq> []) (str_chars s)"
  by (induction s rule: str_chars.induct) (simp_all add: Let_def)

text \<open>A rule that touches lines, one by one.\<close>

definition touched_lines :: "string list \<Rightarrow> string list \<Rightarrow> bool" where
  "touched_lines ls ms \<longleftrightarrow> list_all2 touched ls ms"

lemma touched_lines_tidy:
  assumes "tidy input" and "touched_lines (str_lines input) ms" and "m \<in> set ms"
  shows "tidy_line m \<and> cr \<notin> set m \<and> nl \<notin> set m"
proof -
  obtain k where "k \<in> set (str_lines input)" and "touched k m"
    using assms(2,3) unfolding touched_lines_def by (metis in_set_conv_nth list_all2_conv_all_nth)
  then show ?thesis using touched_line [OF assms(1)] by blast
qed

lemma quote_lines_touched:
  "\<exists>ms. fst (quote_lines n in_fence ls) = unlines ms \<and> touched_lines ls ms \<and>
     (snd (quote_lines n in_fence ls) = [] \<longrightarrow> ms = ls)"
proof (induction ls arbitrary: n in_fence)
  case Nil
  then show ?case by (simp add: touched_lines_def)
next
  case (Cons l ls)
  let ?next = "if starts_with fence (trim_start l) then \<not> in_fence else in_fence"
  obtain ms where ms: "fst (quote_lines (Suc n) ?next ls) = unlines ms" "touched_lines ls ms"
    "snd (quote_lines (Suc n) ?next ls) = [] \<longrightarrow> ms = ls"
    using Cons.IH by blast
  have chars: "touched l (fst (quote_chars n 1 (str_chars l)))"
    "snd (quote_chars n 1 (str_chars l)) = [] \<longrightarrow> fst (quote_chars n 1 (str_chars l)) = l"
    using quote_chars_touched [OF str_chars_nonempty, of l n 1] by (simp_all add: concat_str_chars)
  let ?line = "if starts_with fence (trim_start l) \<or> in_fence then l else fst (quote_chars n 1 (str_chars l))"
  show ?case
    using ms chars
    by (intro exI [of _ "?line # ms"]) (auto simp: Let_def case_prod_beta' touched_lines_def)
qed

lemma quotes_tidy: "tidy s \<Longrightarrow> tidy (fst (apply_smart_quotes s))"
proof -
  assume s: "tidy s"
  obtain out recs where res: "quote_lines 1 False (str_lines s) = (out, recs)" by force
  then obtain ms where out: "out = unlines ms" and ms: "touched_lines (str_lines s) ms" and same: "recs = [] \<Longrightarrow> ms = str_lines s"
    using quote_lines_touched [of 1 False "str_lines s"] by auto
  have "cr \<notin> set s" using s by (simp add: tidy_def)
  from unlines_rule [OF this touched_lines_tidy [OF s ms] tidy_line_Nil same] show ?thesis
    unfolding apply_smart_quotes_def res out by (simp add: tidy_def)
qed

lemma replace_touched: "touched l (replace_first_char a CHR ''-'' l)"
proof (induction l)
  case (Cons c l)
  have dash: "graphic CHR ''-''" by (simp add: graphic_def byte_def)
  show ?case
    using touched_before [OF Cons.IH, of "[c]"] touched_replaced [OF touched_same dash, of "[c]" l] by (cases "c = a") simp_all
qed simp

lemma bullet_lines_touched:
  "\<exists>ms. fst (bullet_lines nb result ls) = result @ ms \<and> touched_lines ls ms \<and>
     (snd (bullet_lines nb result ls) = [] \<longrightarrow> ms = ls)"
proof (induction ls arbitrary: nb result)
  case Nil
  then show ?case by (simp add: touched_lines_def)
next
  case (Cons l ls)
  define bullet where "bullet = (if is_bullet CHR ''*'' (trim_start l) then CHR ''*'' else CHR ''+'')"
  define rewrite where "rewrite = ((is_bullet CHR ''*'' (trim_start l) \<or> is_bullet CHR ''+'' (trim_start l)) \<and> should_rewrite_result nb result)"
  define m where "m = (if rewrite then replace_first_char bullet CHR ''-'' l else l)"
  define next_nb where "next_nb = (if trim l \<noteq> [] then Some (length result) else nb)"
  obtain out recs where rest: "bullet_lines next_nb (result @ [m]) ls = (out, recs)" by force
  obtain ms where ms: "out = (result @ [m]) @ ms" "touched_lines ls ms" "recs = [] \<longrightarrow> ms = ls"
    using Cons.IH [of next_nb "result @ [m]"] rest by auto
  have step: "fst (bullet_lines nb result (l # ls)) = out"
    "rewrite \<Longrightarrow> snd (bullet_lines nb result (l # ls)) \<noteq> []"
    "\<not> rewrite \<Longrightarrow> snd (bullet_lines nb result (l # ls)) = recs"
    unfolding bullet_lines.simps Let_def rewrite_def [symmetric] bullet_def [symmetric] m_def [symmetric]
      next_nb_def [symmetric] rest by simp_all
  have "touched l m" "\<not> rewrite \<longrightarrow> m = l" by (simp_all add: m_def replace_touched)
  then show ?case
    using ms step by (intro exI [of _ "m # ms"]) (auto simp: touched_lines_def simp del: bullet_lines.simps)
qed

lemma bullet_tidy: "tidy s \<Longrightarrow> tidy (fst (apply_bullet_star s))"
proof -
  assume s: "tidy s"
  obtain out recs where res: "bullet_lines None [] (str_lines s) = (out, recs)" by force
  then have ms: "touched_lines (str_lines s) out" and same: "recs = [] \<Longrightarrow> out = str_lines s"
    using bullet_lines_touched [of None "[]" "str_lines s"] by auto
  have "cr \<notin> set s" using s by (simp add: tidy_def)
  from join_rule [OF this touched_lines_tidy [OF s ms] tidy_line_Nil same] show ?thesis
    unfolding apply_bullet_star_def res by (simp add: tidy_def)
qed

lemma some_lines_tidy:
  assumes "tidy s" and "set ls \<subseteq> set (str_lines s)"
  shows "tidy (join_lines s ls)"
proof -
  have "cr \<notin> set s" using assms(1) by (simp add: tidy_def)
  moreover have "tidy_line l \<and> cr \<notin> set l \<and> nl \<notin> set l" if "l \<in> set ls" for l
    using touched_line [OF assms(1) _ touched_same] assms(2) that by blast
  ultimately show ?thesis
    using join_rule [of s ls tidy_line "[undefined]"] by (simp add: or_input_def tidy_def)
qed

lemma missing_fence_tidy: "tidy s \<Longrightarrow> tidy (fst (apply_missing_fence s))"
proof -
  assume s: "tidy s"
  have "tidy (join_lines s (map snd (filter P (enumerate 0 (str_lines s)))))" for P
  proof (rule some_lines_tidy [OF s])
    have "snd ` set (filter P (enumerate 0 (str_lines s))) \<subseteq> set (map snd (enumerate 0 (str_lines s)))"
      unfolding set_map by (rule image_mono) (rule filter_is_subset)
    then show "set (map snd (filter P (enumerate 0 (str_lines s)))) \<subseteq> set (str_lines s)"
      by (simp only: map_snd_enumerate set_map)
  qed
  with s show ?thesis
    unfolding apply_missing_fence_def Let_def by (simp split: option.split)
qed

lemma prose_tidy: "tidy s \<Longrightarrow> tidy (fst (apply_prose_prefix s))"
  by (auto simp: apply_prose_prefix_def Let_def split: option.split intro!: some_lines_tidy dest: in_set_dropD)

section \<open>Properties\<close>

lemma repair_text_cases:
  assumes "repair_text pe lc raw config = Some res"
  obtains t recs where "fold apply_rule (active_rules config (builtin_rules lc)) (raw, []) = (t, recs)"
    and "recs = [] \<longrightarrow> t = raw" and "rr_rule ` set recs \<subseteq> rl_id ` set (active_rules config (builtin_rules lc))"
    and "rp_rewrites (ro_report res) = recs"
    and "(ro_text res = t \<and> \<not> ro_rolled_back res \<and>
            (recs \<noteq> [] \<longrightarrow> rc_safety_net config \<longrightarrow> (\<exists>f. parse pe t = Some (Inr f)))) \<or>
         (ro_text res = raw \<and> ro_rolled_back res)"
proof -
  obtain t recs where fold: "fold apply_rule (active_rules config (builtin_rules lc)) (raw, []) = (t, recs)"
    "recs = [] \<longrightarrow> t = raw" "rr_rule ` set recs \<subseteq> rl_id ` set (active_rules config (builtin_rules lc))"
    by (rule pipeline_records)
  from assms show thesis
    unfolding repair_text_def Let_def fold(1)
    by (auto intro!: that [OF fold] split: if_splits option.splits sum.splits)
qed

text \<open>
  C11: With the safety net the repaired text is the original or a text that parses, so a text that
  parses is never broken; without a record, and after a rollback, it is the original; and every
  record carries the identifier of a rule that the configuration activates.
\<close>

theorem repair_safe:
  assumes "repair_text pe lc raw config = Some res" and "rc_safety_net config"
  shows "(ro_text res = raw \<or> (\<exists>f. parse pe (ro_text res) = Some (Inr f))) \<and>
    (rp_rewrites (ro_report res) = [] \<or> ro_rolled_back res \<longrightarrow> ro_text res = raw) \<and>
    rr_rule ` set (rp_rewrites (ro_report res)) \<subseteq> rl_id ` set (active_rules config (builtin_rules lc))"
  using assms(1) by (rule repair_text_cases) (use assms(2) in auto)

definition messy_source :: string where
  "messy_source = concat (map (\<lambda>l. l @ [cr, nl])
     [''Sure!'', [], ''agm: 1.0'', ''package: p.q'', ''version: 0.1.0'', [], ''node a.b'', ''type: facts'',
      ''summary: one  '', ''steps:'', [tab] @ ''* x'', [tab] @ ''* y''])"

definition tidied_source :: string where
  "tidied_source = unlines [''agm: 1.0'', ''package: p.q'', ''version: 0.1.0'', [], ''node a.b'', ''type: facts'',
     ''summary: one'', ''steps:'', ''  - x'', ''  - y'']"

lemma messy_repaired:
  obtains res where "repair_text sample_pe (map to_lower) messy_source repair_config_default = Some res"
    and "ro_text res = tidied_source" and "\<not> ro_rolled_back res"
    and "map rr_rule (rp_rewrites (ro_report res)) = [''R-CRLF'', ''R-TABS-TO-SPACES'', ''R-TABS-TO-SPACES'', ''R-TRAILING-WS'',
      ''R-PROSE-BEFORE-HEADER'', ''R-BULLET-STAR'', ''R-BULLET-STAR'']"
proof -
  have "map_option (\<lambda>res. (ro_text res = tidied_source, ro_rolled_back res, map rr_rule (rp_rewrites (ro_report res))))
      (repair_text sample_pe (map to_lower) messy_source repair_config_default) =
    Some (True, False, [''R-CRLF'', ''R-TABS-TO-SPACES'', ''R-TABS-TO-SPACES'', ''R-TRAILING-WS'',
      ''R-PROSE-BEFORE-HEADER'', ''R-BULLET-STAR'', ''R-BULLET-STAR''])"
    by code_simp
  then show thesis using that by auto
qed

lemma repair_safe_witness: "\<exists>f. parse sample_pe tidied_source = Some (Inr f)"
proof -
  obtain res where res: "repair_text sample_pe (map to_lower) messy_source repair_config_default = Some res"
    "ro_text res = tidied_source" by (rule messy_repaired)
  have "tidied_source \<noteq> messy_source" by code_simp
  moreover have "rc_safety_net repair_config_default" by (simp add: repair_config_default_def)
  ultimately show ?thesis using repair_safe [OF res(1)] res(2) by metis
qed

lemma fst_apply_rule: "fst (apply_rule r res) = fst (rl_apply r (fst res))"
  by (simp add: apply_rule_def case_prod_beta')

lemma default_pipeline:
  "fst (fold apply_rule (active_rules repair_config_default (builtin_rules lc)) (raw, [])) =
     fst (apply_bullet_star (fst (apply_prose_prefix (fst (apply_missing_fence (fst (apply_smart_quotes
       (fst (apply_trailing_ws (fst (apply_tabs_to_spaces (fst (apply_crlf (fst (apply_zero_width raw)))))))))))))))"
proof -
  have "map rl_apply (active_rules repair_config_default (builtin_rules lc)) =
    [apply_zero_width, apply_crlf, apply_tabs_to_spaces, apply_trailing_ws, apply_smart_quotes, apply_missing_fence,
     apply_prose_prefix, apply_bullet_star]"
    by (simp add: active_rules_def repair_config_default_def builtin_rules_def disabled_by_default_def)
  moreover have "fst (fold apply_rule rules (raw, recs)) = fold (\<lambda>f t. fst (f t)) (map rl_apply rules) raw" for rules recs
    by (induction rules arbitrary: raw recs) (simp_all add: apply_rule_def case_prod_beta')
  ultimately show ?thesis by simp
qed

text \<open>
  C12: What the default rules let through is tidy: unless they are rolled back, the text has no
  carriage return, and no line has a leading tab or white space at its end, whatever the later rules
  (quotes, fence, prose, bullets) did to it.
\<close>

theorem repair_tidy:
  assumes "repair_text pe lc raw repair_config_default = Some res" and "\<not> ro_rolled_back res"
  shows "cr \<notin> set (ro_text res) \<and> list_all (\<lambda>l. \<not> starts_with [tab] l \<and> trim_end l = l) (str_lines (ro_text res))"
proof -
  from assms(1) obtain t recs where
    fold: "fold apply_rule (active_rules repair_config_default (builtin_rules lc)) (raw, []) = (t, recs)"
    and res: "ro_text res = t"
    by (rule repair_text_cases) (use assms(2) in auto)
  have "tidy t"
    using default_pipeline [of lc raw] bullet_tidy prose_tidy missing_fence_tidy quotes_tidy trailing_tidy
      tabs_tidy [OF crlf_no_return]
    unfolding fold by simp
  then show ?thesis
    using lines_in_pieces [of t] by (auto simp: res tidy_def tidy_line_def list_all_iff)
qed

lemma repair_tidy_witness:
  "\<exists>res. repair_text sample_pe (map to_lower) messy_source repair_config_default = Some res \<and>
     cr \<in> set messy_source \<and> cr \<notin> set (ro_text res)"
proof -
  obtain res where res: "repair_text sample_pe (map to_lower) messy_source repair_config_default = Some res"
    "\<not> ro_rolled_back res" by (rule messy_repaired)
  have "cr \<in> set messy_source" by code_simp
  then show ?thesis using repair_tidy [OF res] res(1) by blast
qed

text \<open>
  The line of a record is not the line of the original text: the bullets of \<open>messy_source\<close> stand
  in lines 11 and 12 and are reported for lines 9 and 10, behind the prose that was cut off.
\<close>

lemma record_lines_shifted:
  "map_option (\<lambda>res. lines_for_rule (ro_report res) ''R-BULLET-STAR'')
     (repair_text sample_pe (map to_lower) messy_source repair_config_default) = Some [9, 10]"
  by code_simp

text \<open>A text in two fences loses one of them at a time.\<close>

lemma double_fence:
  "fst (apply_missing_fence (unlines [fence, fence, ''x'', fence, fence])) = unlines [fence, ''x'', fence]"
  by code_simp

end
