(* ===== verification/Json.thy ===== *)
theory Json
  imports Parse_Fields
begin

text \<open>
  The values of the crate \<open>serde_json\<close> as the program uses them: the six kinds of a value, with an
  object as an ordered map and a number as an unsigned or negative 64-bit integer or the text of a
  float, and the accessors that return nothing on a value of another kind. What the derived
  serializers of structured types do is the parameter \<open>json_env\<close>.
\<close>

datatype json_number = PosInt "64 word" | NegInt int | FloatNum string

datatype json =
    JNull | JBool bool | JNum json_number | JStr string | JArr "json list" | JObj "(string, json) btree"

definition number_of_int :: "int \<Rightarrow> json_number" where
  "number_of_int n = (if 0 \<le> n then PosInt (of_int n) else NegInt n)"

fun show_number :: "json_number \<Rightarrow> string" where
  "show_number (PosInt n) = show_word n"
| "show_number (NegInt n) = CHR ''-'' # show_nat (nat (- n))"
| "show_number (FloatNum s) = s"

fun as_str :: "json \<Rightarrow> string option" where
  "as_str (JStr s) = Some s"
| "as_str _ = None"

fun as_array :: "json \<Rightarrow> json list option" where
  "as_array (JArr xs) = Some xs"
| "as_array _ = None"

fun as_object :: "json \<Rightarrow> (string, json) btree option" where
  "as_object (JObj m) = Some m"
| "as_object _ = None"

fun as_u64 :: "json \<Rightarrow> 64 word option" where
  "as_u64 (JNum (PosInt n)) = Some n"
| "as_u64 _ = None"

definition json_get :: "json \<Rightarrow> string \<Rightarrow> json option" where
  "json_get v key = (case as_object v of None \<Rightarrow> None | Some m \<Rightarrow> bt_get m key)"

text \<open>\<open>i64::from_str\<close>: an optional sign and digits within the range.\<close>

definition parse_i64 :: "string \<Rightarrow> int option" where
  "parse_i64 s =
     (case s of
        c # t \<Rightarrow>
          (if c = CHR ''-''
           then (if t = [] then None
                 else case parse_digits 0 t of None \<Rightarrow> None | Some n \<Rightarrow> if n \<le> 2 ^ 63 then Some (- int n) else None)
           else map_option int (parse_uint (2 ^ 63) s))
      | [] \<Rightarrow> None)"

text \<open>
  A derived serializer (\<open>to_value\<close>, which can fail) with its deserializer (\<open>from_value\<close>, with
  the text of its error), and what else comes from outside: the integral part of a decimal number
  as \<open>f64\<close> gives it, the text of a value, and the tables behind \<open>Debug\<close>.
\<close>

type_synonym 'a serde = "('a \<Rightarrow> json option) \<times> (json \<Rightarrow> string + 'a)"

record json_env =
  je_float :: "string \<Rightarrow> 64 word option"
  je_text :: "json \<Rightarrow> string"
  je_pe :: parse_env
  je_code :: "code_block serde"
  je_code_blocks :: "code_block list serde"
  je_verify :: "verify_check list serde"
  je_context :: "agent_context serde"
  je_groups :: "parallel_group list serde"
  je_memory :: "memory_entry list serde"
  je_profile :: "json \<Rightarrow> string + load_profile"

text \<open>
  What serde's derivations document, for one optional value: what is written is read back, and it is
  not null.
\<close>

definition reads_back :: "'a serde \<Rightarrow> 'a option \<Rightarrow> bool" where
  "reads_back s v \<longleftrightarrow>
     (case v of
        None \<Rightarrow> True
      | Some x \<Rightarrow> (case fst s x of None \<Rightarrow> False | Some j \<Rightarrow> j \<noteq> JNull \<and> snd s j = Inr x))"

end
