(* ===== verification/Json_Canonical.thy ===== *)
theory Json_Canonical
  imports Json
begin

text \<open>
  The canonical JSON form, \<open>crates/agm-core/src/renderer/json_canonical.rs\<close>: \<open>agm_to_json\<close> from a
  file to a value and \<open>json_to_agm\<close> back, with the errors of \<open>renderer/mod.rs\<close>. A function that
  inserts into a map takes and returns the map.
\<close>

datatype render_error =
    MissingField string | InvalidType string string string | InvalidEnumValue string string | JsonError string

section \<open>From a file to JSON\<close>

definition str_list_to_value :: "string list \<Rightarrow> json" where
  "str_list_to_value items = JArr (map JStr items)"

definition coerce_scalar :: "string \<Rightarrow> json" where
  "coerce_scalar s =
     (if s = ''true'' then JBool True
      else if s = ''false'' then JBool False
      else case parse_i64 s of Some n \<Rightarrow> JNum (number_of_int n) | None \<Rightarrow> JStr s)"

definition convert_agm_version :: "json_env \<Rightarrow> string \<Rightarrow> json" where
  "convert_agm_version je s =
     (case parse_u64 s of
        Some n \<Rightarrow> JNum (PosInt n)
      | None \<Rightarrow> (case je_float je s of Some n \<Rightarrow> JNum (PosInt n) | None \<Rightarrow> JStr s))"

definition convert_imports :: "import_entry list \<Rightarrow> json" where
  "convert_imports es = JArr (map (\<lambda>e. JStr (show_import_entry e)) es)"

definition insert_opt :: "('a \<Rightarrow> json option) \<Rightarrow> string \<Rightarrow> 'a option \<Rightarrow> (string, json) btree \<Rightarrow> (string, json) btree" where
  "insert_opt f key v m =
     (case v of
        None \<Rightarrow> m
      | Some x \<Rightarrow> (case f x of None \<Rightarrow> m | Some j \<Rightarrow> bt_insert key j m))"

definition insert_opt_str :: "string \<Rightarrow> string option \<Rightarrow> (string, json) btree \<Rightarrow> (string, json) btree" where
  "insert_opt_str = insert_opt (\<lambda>s. Some (JStr s))"

definition insert_opt_list :: "string \<Rightarrow> string list option \<Rightarrow> (string, json) btree \<Rightarrow> (string, json) btree" where
  "insert_opt_list = insert_opt (\<lambda>xs. Some (str_list_to_value xs))"

definition insert_opt_display ::
  "('a \<Rightarrow> string) \<Rightarrow> string \<Rightarrow> 'a option \<Rightarrow> (string, json) btree \<Rightarrow> (string, json) btree" where
  "insert_opt_display f = insert_opt (\<lambda>x. Some (JStr (f x)))"

definition insert_opt_serde :: "'a serde \<Rightarrow> string \<Rightarrow> 'a option \<Rightarrow> (string, json) btree \<Rightarrow> (string, json) btree" where
  "insert_opt_serde sd = insert_opt (fst sd)"

definition insert_opt_serde_vec ::
  "'a list serde \<Rightarrow> string \<Rightarrow> 'a list option \<Rightarrow> (string, json) btree \<Rightarrow> (string, json) btree" where
  "insert_opt_serde_vec sd = insert_opt (fst sd)"

definition insert_opt_u32 :: "string \<Rightarrow> 32 word option \<Rightarrow> (string, json) btree \<Rightarrow> (string, json) btree" where
  "insert_opt_u32 = insert_opt (\<lambda>n. Some (JNum (PosInt (ucast n))))"

definition load_profile_to_json :: "load_profile \<Rightarrow> json" where
  "load_profile_to_json lp =
     JObj (insert_opt (\<lambda>est. Some (case est of TeCount n \<Rightarrow> JNum (PosInt n) | TeVariable \<Rightarrow> JStr ''variable''))
       ''estimated_tokens'' (lp_estimated_tokens lp) (bt_insert ''filter'' (JStr (lp_filter lp)) []))"

definition extra_to_json :: "field_value \<Rightarrow> json" where
  "extra_to_json v = (case v of FvScalar s \<Rightarrow> coerce_scalar s | FvList xs \<Rightarrow> str_list_to_value xs | FvBlock s \<Rightarrow> JStr s)"

text \<open>The statements of \<open>node_to_json\<close>, in their order.\<close>

definition node_inserts :: "json_env \<Rightarrow> node \<Rightarrow> ((string, json) btree \<Rightarrow> (string, json) btree) list" where
  "node_inserts je n =
     [bt_insert ''node'' (JStr (n_id n)), bt_insert ''type'' (JStr (show_node_type (n_type n))),
      bt_insert ''summary'' (JStr (n_summary n)),
      insert_opt_display show_priority ''priority'' (n_priority n),
      insert_opt_display show_stability ''stability'' (n_stability n),
      insert_opt_display show_confidence ''confidence'' (n_confidence n),
      insert_opt_display show_node_status ''status'' (n_status n),
      insert_opt_list ''depends'' (n_depends n), insert_opt_list ''related_to'' (n_related_to n),
      insert_opt_list ''replaces'' (n_replaces n), insert_opt_list ''conflicts'' (n_conflicts n),
      insert_opt_list ''see_also'' (n_see_also n),
      insert_opt_list ''input'' (n_input n), insert_opt_list ''output'' (n_output n),
      insert_opt_list ''items'' (n_items n), insert_opt_list ''steps'' (n_steps n), insert_opt_list ''fields'' (n_fields n),
      insert_opt_serde (je_code je) ''code'' (n_code n), insert_opt_serde_vec (je_code_blocks je) ''code_blocks'' (n_code_blocks n),
      insert_opt_serde_vec (je_verify je) ''verify'' (n_verify n),
      insert_opt_serde (je_context je) ''agent_context'' (n_agent_context n), insert_opt_str ''target'' (n_target n),
      insert_opt_serde_vec (je_memory je) ''memory'' (n_memory n),
      insert_opt_display show_execution_status ''execution_status'' (n_execution_status n),
      insert_opt_str ''executed_by'' (n_executed_by n), insert_opt_str ''executed_at'' (n_executed_at n),
      insert_opt_str ''execution_log'' (n_execution_log n), insert_opt_u32 ''retry_count'' (n_retry_count n),
      insert_opt_serde_vec (je_groups je) ''parallel_groups'' (n_parallel_groups n),
      insert_opt_str ''detail'' (n_detail n), insert_opt_list ''rationale'' (n_rationale n),
      insert_opt_list ''tradeoffs'' (n_tradeoffs n), insert_opt_list ''resolution'' (n_resolution n),
      insert_opt_str ''examples'' (n_examples n), insert_opt_str ''notes'' (n_notes n),
      insert_opt_list ''scope'' (n_scope n), insert_opt_str ''applies_when'' (n_applies_when n),
      insert_opt_str ''valid_from'' (n_valid_from n), insert_opt_str ''valid_until'' (n_valid_until n),
      insert_opt_list ''tags'' (n_tags n), insert_opt_list ''aliases'' (n_aliases n),
      insert_opt_list ''keywords'' (n_keywords n)]"

definition node_to_json :: "json_env \<Rightarrow> node \<Rightarrow> json" where
  "node_to_json je n =
     JObj (fold (\<lambda>(k, v). bt_insert k (extra_to_json v)) (n_extra_fields n) (fold id (node_inserts je n) []))"

text \<open>The statements of \<open>agm_to_json\<close>.\<close>

definition file_inserts :: "json_env \<Rightarrow> agm_file \<Rightarrow> ((string, json) btree \<Rightarrow> (string, json) btree) list" where
  "file_inserts je f =
     (let h = f_header f in
      [bt_insert ''agm'' (convert_agm_version je (h_agm h)), bt_insert ''package'' (JStr (h_package h)),
       bt_insert ''version'' (JStr (h_version h)), insert_opt_str ''title'' (h_title h), insert_opt_str ''owner'' (h_owner h),
       insert_opt (\<lambda>es. Some (convert_imports es)) ''imports'' (h_imports h),
       insert_opt_str ''default_load'' (h_default_load h), insert_opt_str ''description'' (h_description h),
       insert_opt (\<lambda>ts. Some (str_list_to_value ts)) ''tags'' (h_tags h), insert_opt_str ''status'' (h_status h),
       insert_opt (\<lambda>ps. Some (JObj (bt_map_values load_profile_to_json ps))) ''load_profiles'' (h_load_profiles h),
       insert_opt_str ''target_runtime'' (h_target_runtime h),
       bt_insert ''nodes'' (JArr (map (node_to_json je) (f_nodes f)))])"

definition agm_to_json :: "json_env \<Rightarrow> agm_file \<Rightarrow> json" where
  "agm_to_json je f = JObj (fold id (file_inserts je f) [])"

section \<open>From JSON to a file\<close>

fun json_type_name :: "json \<Rightarrow> string" where
  "json_type_name JNull = ''null''"
| "json_type_name (JBool _) = ''boolean''"
| "json_type_name (JNum _) = ''number''"
| "json_type_name (JStr _) = ''string''"
| "json_type_name (JArr _) = ''array''"
| "json_type_name (JObj _) = ''object''"

definition get_agm_string :: "(string, json) btree \<Rightarrow> render_error + string" where
  "get_agm_string obj =
     (case bt_get obj ''agm'' of
        None \<Rightarrow> Inl (MissingField ''agm'')
      | Some (JNum n) \<Rightarrow>
          (case n of PosInt i \<Rightarrow> Inr (show_word i @ ''.0'') | _ \<Rightarrow> Inr (show_number n))
      | Some (JStr s) \<Rightarrow> Inr s
      | Some v \<Rightarrow> Inl (InvalidType ''agm'' ''number or string'' (json_type_name v)))"

definition get_required_str :: "(string, json) btree \<Rightarrow> string \<Rightarrow> render_error + string" where
  "get_required_str obj key =
     (case bt_get obj key of
        None \<Rightarrow> Inl (MissingField key)
      | Some v \<Rightarrow> (case as_str v of None \<Rightarrow> Inl (InvalidType key ''string'' (json_type_name v)) | Some s \<Rightarrow> Inr s))"

text \<open>An optional field: absent and null are none, the rest is up to the reader of the value.\<close>

definition get_opt :: "(json \<Rightarrow> render_error + 'a) \<Rightarrow> (string, json) btree \<Rightarrow> string \<Rightarrow> render_error + 'a option" where
  "get_opt f obj key =
     (case bt_get obj key of
        None \<Rightarrow> Inr None
      | Some JNull \<Rightarrow> Inr None
      | Some v \<Rightarrow> res_bind (f v) (\<lambda>x. Inr (Some x)))"

definition get_opt_str :: "(string, json) btree \<Rightarrow> string \<Rightarrow> render_error + string option" where
  "get_opt_str obj key =
     get_opt (\<lambda>v. case v of JStr s \<Rightarrow> Inr s | _ \<Rightarrow> Inl (InvalidType key ''string'' (json_type_name v))) obj key"

fun str_items :: "string \<Rightarrow> nat \<Rightarrow> json list \<Rightarrow> render_error + string list" where
  "str_items key i [] = Inr []"
| "str_items key i (v # vs) =
     (case v of
        JStr s \<Rightarrow> res_bind (str_items key (Suc i) vs) (\<lambda>ss. Inr (s # ss))
      | _ \<Rightarrow> Inl (InvalidType (key @ ''['' @ show_nat i @ '']'') ''string'' (json_type_name v)))"

definition get_opt_str_list :: "(string, json) btree \<Rightarrow> string \<Rightarrow> render_error + string list option" where
  "get_opt_str_list obj key =
     get_opt (\<lambda>v. case v of JArr vs \<Rightarrow> str_items key 0 vs | _ \<Rightarrow> Inl (InvalidType key ''array'' (json_type_name v))) obj key"

definition show_enum_error :: "json_env \<Rightarrow> parse_enum_error \<Rightarrow> string" where
  "show_enum_error je e = ''invalid '' @ type_name e @ '' value: '' @ str_debug (je_pe je) (enum_value e)"

definition get_opt_enum ::
  "json_env \<Rightarrow> (string \<Rightarrow> parse_enum_error + 'a) \<Rightarrow> (string, json) btree \<Rightarrow> string \<Rightarrow> render_error + 'a option" where
  "get_opt_enum je parse_value obj key =
     get_opt (\<lambda>v. case v of
         JStr s \<Rightarrow> (case parse_value s of
             Inl e \<Rightarrow> Inl (InvalidEnumValue key (s @ '': '' @ show_enum_error je e))
           | Inr x \<Rightarrow> Inr x)
       | _ \<Rightarrow> Inl (InvalidType key ''string'' (json_type_name v))) obj key"

definition get_opt_u32 :: "(string, json) btree \<Rightarrow> string \<Rightarrow> render_error + 32 word option" where
  "get_opt_u32 obj key =
     get_opt (\<lambda>v. case v of
         JNum n \<Rightarrow> (case as_u64 v of
             Some i \<Rightarrow> if unat i < 2 ^ 32 then Inr (ucast i) else Inl (InvalidType key ''u32'' ''number out of range'')
           | None \<Rightarrow> Inl (InvalidType key ''u32'' ''number out of range''))
       | _ \<Rightarrow> Inl (InvalidType key ''number'' (json_type_name v))) obj key"

definition parse_opt_serde :: "'a serde \<Rightarrow> (string, json) btree \<Rightarrow> string \<Rightarrow> render_error + 'a option" where
  "parse_opt_serde sd obj key =
     get_opt (\<lambda>v. case snd sd v of Inl e \<Rightarrow> Inl (JsonError e) | Inr x \<Rightarrow> Inr x) obj key"

definition parse_opt_serde_vec :: "'a list serde \<Rightarrow> (string, json) btree \<Rightarrow> string \<Rightarrow> render_error + 'a list option" where
  "parse_opt_serde_vec sd obj key =
     get_opt (\<lambda>v. case snd sd v of Inl e \<Rightarrow> Inl (JsonError e) | Inr x \<Rightarrow> Inr x) obj key"

fun import_items :: "json_env \<Rightarrow> nat \<Rightarrow> json list \<Rightarrow> render_error + import_entry list" where
  "import_items je i [] = Inr []"
| "import_items je i (v # vs) =
     (case as_str v of
        None \<Rightarrow> Inl (InvalidType (''imports['' @ show_nat i @ '']'') ''string'' (json_type_name v))
      | Some s \<Rightarrow>
          (case parse_import_entry s of
             Inl input \<Rightarrow> Inl (JsonError (''invalid import entry: '' @ str_debug (je_pe je) input))
           | Inr e \<Rightarrow> res_bind (import_items je (Suc i) vs) (\<lambda>es. Inr (e # es))))"

definition parse_json_imports :: "json_env \<Rightarrow> json \<Rightarrow> render_error + import_entry list" where
  "parse_json_imports je v =
     (case as_array v of
        None \<Rightarrow> Inl (InvalidType ''imports'' ''array'' (json_type_name v))
      | Some vs \<Rightarrow> import_items je 0 vs)"

fun profile_items :: "json_env \<Rightarrow> (string, json) btree \<Rightarrow> (string, load_profile) btree \<Rightarrow>
    render_error + (string, load_profile) btree" where
  "profile_items je [] acc = Inr acc"
| "profile_items je ((k, v) # m) acc =
     (case je_profile je v of
        Inl e \<Rightarrow> Inl (JsonError e)
      | Inr lp \<Rightarrow> profile_items je m (bt_insert k lp acc))"

definition parse_json_profiles :: "json_env \<Rightarrow> json \<Rightarrow> render_error + (string, load_profile) btree" where
  "parse_json_profiles je v =
     (case as_object v of
        None \<Rightarrow> Inl (InvalidType ''load_profiles'' ''object'' (json_type_name v))
      | Some m \<Rightarrow> profile_items je m [])"

definition known_node_fields :: "string list" where
  "known_node_fields = [''node'', ''type'', ''summary'', ''priority'', ''stability'', ''confidence'', ''status'',
     ''depends'', ''related_to'', ''replaces'', ''conflicts'', ''see_also'', ''items'', ''steps'', ''fields'', ''input'',
     ''output'', ''detail'', ''rationale'', ''tradeoffs'', ''resolution'', ''examples'', ''notes'', ''code'', ''code_blocks'',
     ''verify'', ''agent_context'', ''target'', ''execution_status'', ''executed_by'', ''executed_at'', ''execution_log'',
     ''retry_count'', ''parallel_groups'', ''memory'', ''scope'', ''applies_when'', ''valid_from'', ''valid_until'',
     ''tags'', ''aliases'', ''keywords'']"

definition extra_from_json :: "json_env \<Rightarrow> json \<Rightarrow> field_value" where
  "extra_from_json je v =
     (case v of
        JBool b \<Rightarrow> FvScalar (if b then ''true'' else ''false'')
      | JNum n \<Rightarrow> FvScalar (show_number n)
      | JStr s \<Rightarrow> FvScalar s
      | JArr vs \<Rightarrow> FvList (map (\<lambda>item. case item of JStr s \<Rightarrow> s | _ \<Rightarrow> je_text je item) vs)
      | _ \<Rightarrow> FvScalar (je_text je v))"

definition extra_fields_from :: "json_env \<Rightarrow> (string, json) btree \<Rightarrow> (string, field_value) btree" where
  "extra_fields_from je obj =
     fold (\<lambda>(k, v) acc. if k \<in> set known_node_fields then acc else bt_insert k (extra_from_json je v) acc) obj []"

text \<open>One statement of \<open>json_to_node\<close>: read a field, or return its error.\<close>

definition read_field :: "render_error + 'a \<Rightarrow> ('a \<Rightarrow> node \<Rightarrow> node) \<Rightarrow> node \<Rightarrow> render_error + node" where
  "read_field r store n = res_bind r (\<lambda>x. Inr (store x n))"

fun run_reads :: "('s \<Rightarrow> 'e + 's) list \<Rightarrow> 's \<Rightarrow> 'e + 's" where
  "run_reads [] s = Inr s"
| "run_reads (f # fs) s = res_bind (f s) (run_reads fs)"

definition node_reads :: "json_env \<Rightarrow> (string, json) btree \<Rightarrow> (node \<Rightarrow> render_error + node) list" where
  "node_reads je obj =
     [read_field (get_opt_enum je parse_priority obj ''priority'') (\<lambda>v. n_priority_update (\<lambda>_. v)),
      read_field (get_opt_enum je parse_stability obj ''stability'') (\<lambda>v. n_stability_update (\<lambda>_. v)),
      read_field (get_opt_enum je parse_confidence obj ''confidence'') (\<lambda>v. n_confidence_update (\<lambda>_. v)),
      read_field (get_opt_enum je parse_node_status obj ''status'') (\<lambda>v. n_status_update (\<lambda>_. v)),
      read_field (get_opt_str_list obj ''depends'') (\<lambda>v. n_depends_update (\<lambda>_. v)),
      read_field (get_opt_str_list obj ''related_to'') (\<lambda>v. n_related_to_update (\<lambda>_. v)),
      read_field (get_opt_str_list obj ''replaces'') (\<lambda>v. n_replaces_update (\<lambda>_. v)),
      read_field (get_opt_str_list obj ''conflicts'') (\<lambda>v. n_conflicts_update (\<lambda>_. v)),
      read_field (get_opt_str_list obj ''see_also'') (\<lambda>v. n_see_also_update (\<lambda>_. v)),
      read_field (get_opt_str_list obj ''items'') (\<lambda>v. n_items_update (\<lambda>_. v)),
      read_field (get_opt_str_list obj ''steps'') (\<lambda>v. n_steps_update (\<lambda>_. v)),
      read_field (get_opt_str_list obj ''fields'') (\<lambda>v. n_fields_update (\<lambda>_. v)),
      read_field (get_opt_str_list obj ''input'') (\<lambda>v. n_input_update (\<lambda>_. v)),
      read_field (get_opt_str_list obj ''output'') (\<lambda>v. n_output_update (\<lambda>_. v)),
      read_field (get_opt_str obj ''detail'') (\<lambda>v. n_detail_update (\<lambda>_. v)),
      read_field (get_opt_str_list obj ''rationale'') (\<lambda>v. n_rationale_update (\<lambda>_. v)),
      read_field (get_opt_str_list obj ''tradeoffs'') (\<lambda>v. n_tradeoffs_update (\<lambda>_. v)),
      read_field (get_opt_str_list obj ''resolution'') (\<lambda>v. n_resolution_update (\<lambda>_. v)),
      read_field (get_opt_str obj ''examples'') (\<lambda>v. n_examples_update (\<lambda>_. v)),
      read_field (get_opt_str obj ''notes'') (\<lambda>v. n_notes_update (\<lambda>_. v)),
      read_field (parse_opt_serde (je_code je) obj ''code'') (\<lambda>v. n_code_update (\<lambda>_. v)),
      read_field (parse_opt_serde_vec (je_code_blocks je) obj ''code_blocks'') (\<lambda>v. n_code_blocks_update (\<lambda>_. v)),
      read_field (parse_opt_serde_vec (je_verify je) obj ''verify'') (\<lambda>v. n_verify_update (\<lambda>_. v)),
      read_field (parse_opt_serde (je_context je) obj ''agent_context'') (\<lambda>v. n_agent_context_update (\<lambda>_. v)),
      read_field (get_opt_str obj ''target'') (\<lambda>v. n_target_update (\<lambda>_. v)),
      read_field (get_opt_enum je parse_execution_status obj ''execution_status'') (\<lambda>v. n_execution_status_update (\<lambda>_. v)),
      read_field (get_opt_str obj ''executed_by'') (\<lambda>v. n_executed_by_update (\<lambda>_. v)),
      read_field (get_opt_str obj ''executed_at'') (\<lambda>v. n_executed_at_update (\<lambda>_. v)),
      read_field (get_opt_str obj ''execution_log'') (\<lambda>v. n_execution_log_update (\<lambda>_. v)),
      read_field (get_opt_u32 obj ''retry_count'') (\<lambda>v. n_retry_count_update (\<lambda>_. v)),
      read_field (parse_opt_serde_vec (je_groups je) obj ''parallel_groups'') (\<lambda>v. n_parallel_groups_update (\<lambda>_. v)),
      read_field (parse_opt_serde_vec (je_memory je) obj ''memory'') (\<lambda>v. n_memory_update (\<lambda>_. v)),
      read_field (get_opt_str_list obj ''scope'') (\<lambda>v. n_scope_update (\<lambda>_. v)),
      read_field (get_opt_str obj ''applies_when'') (\<lambda>v. n_applies_when_update (\<lambda>_. v)),
      read_field (get_opt_str obj ''valid_from'') (\<lambda>v. n_valid_from_update (\<lambda>_. v)),
      read_field (get_opt_str obj ''valid_until'') (\<lambda>v. n_valid_until_update (\<lambda>_. v)),
      read_field (get_opt_str_list obj ''tags'') (\<lambda>v. n_tags_update (\<lambda>_. v)),
      read_field (get_opt_str_list obj ''aliases'') (\<lambda>v. n_aliases_update (\<lambda>_. v)),
      read_field (get_opt_str_list obj ''keywords'') (\<lambda>v. n_keywords_update (\<lambda>_. v))]"

definition json_to_node :: "json_env \<Rightarrow> json \<Rightarrow> nat \<Rightarrow> render_error + node" where
  "json_to_node je v i =
     (case as_object v of
        None \<Rightarrow> Inl (InvalidType (''nodes['' @ show_nat i @ '']'') ''object'' (json_type_name v))
      | Some obj \<Rightarrow>
          res_bind (get_required_str obj ''node'') (\<lambda>ident.
          res_bind (get_required_str obj ''type'') (\<lambda>type_str.
          res_bind (get_required_str obj ''summary'') (\<lambda>summ.
          res_bind (run_reads (node_reads je obj)
            (node_default\<lparr>n_id := ident, n_type := parse_node_type type_str, n_summary := summ\<rparr>)) (\<lambda>n.
          Inr (n\<lparr>n_extra_fields := extra_fields_from je obj\<rparr>))))))"

fun json_nodes :: "json_env \<Rightarrow> nat \<Rightarrow> json list \<Rightarrow> render_error + node list" where
  "json_nodes je i [] = Inr []"
| "json_nodes je i (v # vs) =
     res_bind (json_to_node je v i) (\<lambda>n. res_bind (json_nodes je (Suc i) vs) (\<lambda>ns. Inr (n # ns)))"

text \<open>An optional field of the header that is parsed even when it is null.\<close>

definition get_present :: "(json \<Rightarrow> render_error + 'a) \<Rightarrow> (string, json) btree \<Rightarrow> string \<Rightarrow> render_error + 'a option" where
  "get_present f obj key =
     (case bt_get obj key of None \<Rightarrow> Inr None | Some v \<Rightarrow> res_bind (f v) (\<lambda>x. Inr (Some x)))"

definition json_to_agm :: "json_env \<Rightarrow> json \<Rightarrow> render_error + agm_file" where
  "json_to_agm je v =
     (case as_object v of
        None \<Rightarrow> Inl (InvalidType ''<root>'' ''object'' (json_type_name v))
      | Some obj \<Rightarrow>
          res_bind (get_agm_string obj) (\<lambda>agm.
          res_bind (get_required_str obj ''package'') (\<lambda>package.
          res_bind (get_required_str obj ''version'') (\<lambda>version.
          res_bind (get_opt_str obj ''title'') (\<lambda>title.
          res_bind (get_opt_str obj ''owner'') (\<lambda>owner.
          res_bind (get_present (parse_json_imports je) obj ''imports'') (\<lambda>imps.
          res_bind (get_opt_str obj ''default_load'') (\<lambda>default_load.
          res_bind (get_opt_str obj ''description'') (\<lambda>description.
          res_bind (get_opt_str_list obj ''tags'') (\<lambda>tags.
          res_bind (get_opt_str obj ''status'') (\<lambda>status.
          res_bind (get_present (parse_json_profiles je) obj ''load_profiles'') (\<lambda>profiles.
          res_bind (get_opt_str obj ''target_runtime'') (\<lambda>target_runtime.
            (case bt_get obj ''nodes'' of
               None \<Rightarrow> Inl (MissingField ''nodes'')
             | Some nodes_val \<Rightarrow>
                 (case as_array nodes_val of
                    None \<Rightarrow> Inl (InvalidType ''nodes'' ''array'' (json_type_name nodes_val))
                  | Some vs \<Rightarrow>
                      res_bind (json_nodes je 0 vs) (\<lambda>ns.
                        Inr \<lparr>f_header = \<lparr>h_agm = agm, h_package = package, h_version = version, h_title = title,
                          h_owner = owner, h_imports = imps, h_default_load = default_load, h_description = description,
                          h_tags = tags, h_status = status, h_load_profiles = profiles,
                          h_target_runtime = target_runtime\<rparr>, f_nodes = ns\<rparr>))))))))))))))))"

end
