(* ===== verification/Json_Roundtrip.thy ===== *)
theory Json_Roundtrip
  imports Json_Canonical Diff_Facts
begin

text \<open>
  What the way through canonical JSON keeps: \<open>json_to_agm (agm_to_json f)\<close> is the file
  \<open>json_file f\<close>, defined below, which drops the ticket fields, the spans and the minor version of
  \<open>agm\<close>, and rewrites scalars of unknown fields that look like numbers.
\<close>

section \<open>What is left of a file\<close>

definition json_extra :: "field_value \<Rightarrow> field_value" where
  "json_extra v =
     (case v of
        FvScalar s \<Rightarrow> (case parse_i64 s of
            Some n \<Rightarrow> FvScalar (show_number (number_of_int n)) | None \<Rightarrow> FvScalar s)
      | FvList xs \<Rightarrow> FvList xs
      | FvBlock s \<Rightarrow> FvScalar s)"

definition json_node :: "node \<Rightarrow> node" where
  "json_node n = n\<lparr>n_title := None, n_description := None, n_action := None, n_sdd_phase := None, n_prompt := None,
     n_assignee := None, n_labels := None, n_ticket_id := None,
     n_extra_fields := bt_map_values json_extra (n_extra_fields n), n_span := span_new 0 0\<rparr>"

definition json_agm :: "json_env \<Rightarrow> string \<Rightarrow> string" where
  "json_agm je s =
     (case parse_u64 s of
        Some i \<Rightarrow> show_word i @ ''.0''
      | None \<Rightarrow> (case je_float je s of Some i \<Rightarrow> show_word i @ ''.0'' | None \<Rightarrow> s))"

definition json_file :: "json_env \<Rightarrow> agm_file \<Rightarrow> agm_file" where
  "json_file je f = \<lparr>f_header = (f_header f)\<lparr>h_agm := json_agm je (h_agm (f_header f))\<rparr>, f_nodes = map json_node (f_nodes f)\<rparr>"

text \<open>
  Well-formed data: maps are maps, custom types are not built-in names, unknown fields are unknown,
  imports print to what they parse from.
\<close>

definition json_node_ok :: "node \<Rightarrow> bool" where
  "json_node_ok n \<longleftrightarrow> node_type_valid (n_type n) \<and> bt_ok (n_extra_fields n) \<and>
     list_all (\<lambda>k. k \<notin> set known_node_fields) (map fst (n_extra_fields n))"

definition json_file_ok :: "agm_file \<Rightarrow> bool" where
  "json_file_ok f \<longleftrightarrow> list_all json_node_ok (f_nodes f) \<and> pred_option bt_ok (h_load_profiles (f_header f)) \<and>
     pred_option (list_all import_entry_valid) (h_imports (f_header f))"

text \<open>What is relied on of the derived serializers, for the values of one file.\<close>

definition node_reads_back :: "json_env \<Rightarrow> node \<Rightarrow> bool" where
  "node_reads_back je n \<longleftrightarrow> reads_back (je_code je) (n_code n) \<and> reads_back (je_code_blocks je) (n_code_blocks n) \<and>
     reads_back (je_verify je) (n_verify n) \<and> reads_back (je_context je) (n_agent_context n) \<and>
     reads_back (je_groups je) (n_parallel_groups n) \<and> reads_back (je_memory je) (n_memory n)"

definition json_env_ok :: "json_env \<Rightarrow> agm_file \<Rightarrow> bool" where
  "json_env_ok je f \<longleftrightarrow> list_all (node_reads_back je) (f_nodes f) \<and>
     pred_option (list_all (\<lambda>(k, lp). je_profile je (load_profile_to_json lp) = Inr lp)) (h_load_profiles (f_header f))"

section \<open>Maps of JSON\<close>

lemma insert_opt_get:
  "bt_get (insert_opt f key v m) j =
     (if j = key then (case v of None \<Rightarrow> bt_get m j | Some x \<Rightarrow> (case f x of None \<Rightarrow> bt_get m j | Some y \<Rightarrow> Some y))
      else bt_get m j)"
  by (auto simp: insert_opt_def split: option.split)

lemma insert_opt_ok [simp]: "bt_ok m \<Longrightarrow> bt_ok (insert_opt f key v m)"
  by (auto simp: insert_opt_def split: option.split)

lemmas insert_opt_defs = insert_opt_str_def insert_opt_list_def insert_opt_display_def insert_opt_serde_def
  insert_opt_serde_vec_def insert_opt_u32_def

lemma fold_inserts_get:
  "bt_ok xs \<Longrightarrow> bt_get (fold (\<lambda>(k, v). bt_insert k (g v)) xs m) k =
     (case bt_get xs k of Some v \<Rightarrow> Some (g v) | None \<Rightarrow> bt_get m k)"
proof (induction xs arbitrary: m)
  case (Cons x xs)
  obtain a b where x: "x = (a, b)" by force
  have ok: "bt_ok xs" and "a \<notin> fst ` set xs" using Cons.prems x by (auto simp: bt_ok_Cons)
  then have "bt_get xs a = None" by (simp add: bt_get_None)
  then show ?case using Cons.IH [OF ok] x by (auto split: option.split)
qed simp

lemma fold_inserts_ok: "bt_ok m \<Longrightarrow> bt_ok (fold (\<lambda>(k, v). bt_insert k (g v)) xs m)"
  by (induction xs arbitrary: m) (auto simp: case_prod_beta')

definition node_map_json :: "json_env \<Rightarrow> node \<Rightarrow> (string, json) btree" where
  "node_map_json je n = fold id (node_inserts je n) []"

lemma node_map_json_ok: "bt_ok (node_map_json je n)"
  unfolding node_map_json_def node_inserts_def insert_opt_defs fold_simps id_apply by (intro insert_opt_ok bt_ok_insert bt_ok_Nil)

lemma node_map_lookup_1:
  "bt_get (node_map_json je n) ''node'' = Some (JStr (n_id n))"
  "bt_get (node_map_json je n) ''type'' = Some (JStr (show_node_type (n_type n)))"
  "bt_get (node_map_json je n) ''summary'' = Some (JStr (n_summary n))"
  "bt_get (node_map_json je n) ''priority'' = map_option (\<lambda>x. JStr (show_priority x)) (n_priority n)"
  "bt_get (node_map_json je n) ''stability'' = map_option (\<lambda>x. JStr (show_stability x)) (n_stability n)"
  "bt_get (node_map_json je n) ''confidence'' = map_option (\<lambda>x. JStr (show_confidence x)) (n_confidence n)"
  "bt_get (node_map_json je n) ''status'' = map_option (\<lambda>x. JStr (show_node_status x)) (n_status n)"
  "bt_get (node_map_json je n) ''depends'' = map_option str_list_to_value (n_depends n)"
  "bt_get (node_map_json je n) ''related_to'' = map_option str_list_to_value (n_related_to n)"
  "bt_get (node_map_json je n) ''replaces'' = map_option str_list_to_value (n_replaces n)"
  "bt_get (node_map_json je n) ''conflicts'' = map_option str_list_to_value (n_conflicts n)"
  "bt_get (node_map_json je n) ''see_also'' = map_option str_list_to_value (n_see_also n)"
  "bt_get (node_map_json je n) ''input'' = map_option str_list_to_value (n_input n)"
  "bt_get (node_map_json je n) ''output'' = map_option str_list_to_value (n_output n)"
  unfolding node_map_json_def node_inserts_def insert_opt_defs fold_simps id_apply
  by (simp_all add: insert_opt_get split: option.split)

lemma node_map_lookup_2:
  "bt_get (node_map_json je n) ''items'' = map_option str_list_to_value (n_items n)"
  "bt_get (node_map_json je n) ''steps'' = map_option str_list_to_value (n_steps n)"
  "bt_get (node_map_json je n) ''fields'' = map_option str_list_to_value (n_fields n)"
  "bt_get (node_map_json je n) ''code'' = (case n_code n of None \<Rightarrow> None | Some x \<Rightarrow> fst (je_code je) x)"
  "bt_get (node_map_json je n) ''code_blocks'' = (case n_code_blocks n of None \<Rightarrow> None | Some x \<Rightarrow> fst (je_code_blocks je) x)"
  "bt_get (node_map_json je n) ''verify'' = (case n_verify n of None \<Rightarrow> None | Some x \<Rightarrow> fst (je_verify je) x)"
  "bt_get (node_map_json je n) ''agent_context'' = (case n_agent_context n of None \<Rightarrow> None | Some x \<Rightarrow> fst (je_context je) x)"
  "bt_get (node_map_json je n) ''target'' = map_option JStr (n_target n)"
  "bt_get (node_map_json je n) ''memory'' = (case n_memory n of None \<Rightarrow> None | Some x \<Rightarrow> fst (je_memory je) x)"
  "bt_get (node_map_json je n) ''execution_status'' = map_option (\<lambda>x. JStr (show_execution_status x)) (n_execution_status n)"
  "bt_get (node_map_json je n) ''executed_by'' = map_option JStr (n_executed_by n)"
  "bt_get (node_map_json je n) ''executed_at'' = map_option JStr (n_executed_at n)"
  "bt_get (node_map_json je n) ''execution_log'' = map_option JStr (n_execution_log n)"
  "bt_get (node_map_json je n) ''retry_count'' = map_option (\<lambda>x. JNum (PosInt (ucast x))) (n_retry_count n)"
  unfolding node_map_json_def node_inserts_def insert_opt_defs fold_simps id_apply
  by (simp_all add: insert_opt_get split: option.split)

lemma node_map_lookup_3:
  "bt_get (node_map_json je n) ''parallel_groups'' = (case n_parallel_groups n of None \<Rightarrow> None | Some x \<Rightarrow> fst (je_groups je) x)"
  "bt_get (node_map_json je n) ''detail'' = map_option JStr (n_detail n)"
  "bt_get (node_map_json je n) ''rationale'' = map_option str_list_to_value (n_rationale n)"
  "bt_get (node_map_json je n) ''tradeoffs'' = map_option str_list_to_value (n_tradeoffs n)"
  "bt_get (node_map_json je n) ''resolution'' = map_option str_list_to_value (n_resolution n)"
  "bt_get (node_map_json je n) ''examples'' = map_option JStr (n_examples n)"
  "bt_get (node_map_json je n) ''notes'' = map_option JStr (n_notes n)"
  "bt_get (node_map_json je n) ''scope'' = map_option str_list_to_value (n_scope n)"
  "bt_get (node_map_json je n) ''applies_when'' = map_option JStr (n_applies_when n)"
  "bt_get (node_map_json je n) ''valid_from'' = map_option JStr (n_valid_from n)"
  "bt_get (node_map_json je n) ''valid_until'' = map_option JStr (n_valid_until n)"
  "bt_get (node_map_json je n) ''tags'' = map_option str_list_to_value (n_tags n)"
  "bt_get (node_map_json je n) ''aliases'' = map_option str_list_to_value (n_aliases n)"
  "bt_get (node_map_json je n) ''keywords'' = map_option str_list_to_value (n_keywords n)"
  unfolding node_map_json_def node_inserts_def insert_opt_defs fold_simps id_apply
  by (simp_all add: insert_opt_get split: option.split)

lemmas node_map_lookups = node_map_lookup_1 node_map_lookup_2 node_map_lookup_3

lemma node_map_other: "k \<notin> set known_node_fields \<Longrightarrow> bt_get (node_map_json je n) k = None"
  unfolding node_map_json_def node_inserts_def insert_opt_defs fold_simps id_apply
  by (simp add: insert_opt_get known_node_fields_def)

section \<open>Reading fields back\<close>

lemma get_opt_str_read: "bt_get obj k = map_option JStr v \<Longrightarrow> get_opt_str obj k = Inr v"
  by (cases v) (simp_all add: get_opt_str_def get_opt_def)

lemma str_items_read: "str_items k i (map JStr xs) = Inr xs"
  by (induction xs arbitrary: i) simp_all

lemma get_opt_str_list_read: "bt_get obj k = map_option str_list_to_value v \<Longrightarrow> get_opt_str_list obj k = Inr v"
  by (cases v) (simp_all add: get_opt_str_list_def get_opt_def str_list_to_value_def str_items_read)

lemma get_opt_enum_read:
  assumes "bt_get obj k = map_option (\<lambda>x. JStr (pr x)) v" and "\<And>x. res_ok (ps (pr x)) = Some x"
  shows "get_opt_enum je ps obj k = Inr v"
  using assms by (cases v) (simp_all add: get_opt_enum_def get_opt_def)

lemma get_opt_u32_read:
  fixes v :: "32 word option"
  assumes "bt_get obj k = map_option (\<lambda>x. JNum (PosInt (ucast x))) v"
  shows "get_opt_u32 obj k = Inr v"
proof (cases v)
  case (Some x)
  have "unat (ucast x :: 64 word) = unat x" by transfer simp
  moreover have "unat x < 2 ^ 32" using unsigned_less [of x] by simp
  moreover have "ucast (ucast x :: 64 word) = x" by transfer simp
  ultimately show ?thesis using assms Some by (simp add: get_opt_u32_def get_opt_def)
qed (use assms in \<open>simp add: get_opt_u32_def get_opt_def\<close>)

lemma parse_opt_serde_read:
  assumes "bt_get obj k = (case v of None \<Rightarrow> None | Some x \<Rightarrow> fst sd x)" and "reads_back sd v"
  shows "parse_opt_serde sd obj k = Inr v"
proof (cases v)
  case (Some x)
  then obtain j where "fst sd x = Some j" "j \<noteq> JNull" "snd sd j = Inr x"
    using assms(2) by (auto simp: reads_back_def split: option.splits)
  then show ?thesis using assms(1) Some by (cases j) (simp_all add: parse_opt_serde_def get_opt_def)
qed (use assms in \<open>simp add: parse_opt_serde_def get_opt_def\<close>)

lemma parse_opt_serde_vec_eq: "parse_opt_serde_vec = parse_opt_serde"
  by (intro ext) (simp add: parse_opt_serde_vec_def parse_opt_serde_def)

lemmas enum_reads = priority.parse_print stability.parse_print confidence.parse_print node_status.parse_print
  execution_status.parse_print

section \<open>Nodes\<close>

lemma extra_json: "extra_from_json je (extra_to_json v) = json_extra v"
proof (cases v)
  case (FvScalar s)
  have words: "parse_i64 ''true'' = None" "parse_i64 ''false'' = None"
    by (simp_all add: parse_i64_def parse_uint_def is_digit_def byte_def)
  show ?thesis
  proof (cases "s = ''true'' \<or> s = ''false''")
    case True
    then show ?thesis using words by (auto simp: FvScalar extra_from_json_def extra_to_json_def coerce_scalar_def json_extra_def)
  next
    case False
    then show ?thesis
      by (cases "parse_i64 s") (simp_all add: FvScalar extra_from_json_def extra_to_json_def coerce_scalar_def json_extra_def)
  qed
qed (simp_all add: extra_from_json_def extra_to_json_def str_list_to_value_def json_extra_def o_def)

definition node_object :: "json_env \<Rightarrow> node \<Rightarrow> (string, json) btree" where
  "node_object je n = fold (\<lambda>(k, v). bt_insert k (extra_to_json v)) (n_extra_fields n) (node_map_json je n)"

lemma node_to_json_object: "node_to_json je n = JObj (node_object je n)"
  by (simp add: node_to_json_def node_object_def node_map_json_def)

lemma node_object_ok: "bt_ok (node_object je n)"
  unfolding node_object_def by (rule fold_inserts_ok [OF node_map_json_ok])

lemma node_object_get:
  assumes "json_node_ok n"
  shows "bt_get (node_object je n) k =
    (if k \<in> set known_node_fields then bt_get (node_map_json je n) k else map_option extra_to_json (bt_get (n_extra_fields n) k))"
proof -
  have ok: "bt_ok (n_extra_fields n)" and "k \<in> set known_node_fields \<Longrightarrow> k \<notin> fst ` set (n_extra_fields n)"
    using assms by (auto simp: json_node_ok_def list_all_iff)
  then have "k \<in> set known_node_fields \<Longrightarrow> bt_get (n_extra_fields n) k = None" by (simp add: bt_get_None)
  then show ?thesis
    unfolding node_object_def fold_inserts_get [OF ok] using node_map_other by (auto split: option.split)
qed

lemma extra_fields_read:
  assumes "json_node_ok n"
  shows "extra_fields_from je (node_object je n) = bt_map_values json_extra (n_extra_fields n)"
proof -
  have gen: "bt_ok xs \<Longrightarrow> bt_ok m \<Longrightarrow>
      bt_ok (fold (\<lambda>(k, v) acc. if k \<in> set known_node_fields then acc else bt_insert k (extra_from_json je v) acc) xs m) \<and>
      bt_get (fold (\<lambda>(k, v) acc. if k \<in> set known_node_fields then acc else bt_insert k (extra_from_json je v) acc) xs m) k =
        (if k \<in> set known_node_fields then bt_get m k
         else case bt_get xs k of Some v \<Rightarrow> Some (extra_from_json je v) | None \<Rightarrow> bt_get m k)" for xs m k
  proof (induction xs arbitrary: m)
    case (Cons x xs)
    obtain a b where x: "x = (a, b)" by force
    have ok: "bt_ok xs" and "a \<notin> fst ` set xs" using Cons.prems(1) x by (auto simp: bt_ok_Cons)
    then have none: "bt_get xs a = None" by (simp add: bt_get_None)
    show ?case
    proof (cases "a \<in> set known_node_fields")
      case True
      then show ?thesis using Cons.IH [OF ok Cons.prems(2)] x by auto
    next
      case False
      then show ?thesis
        using Cons.IH [OF ok bt_ok_insert [OF Cons.prems(2)], of a "extra_from_json je b"] x none
        by (auto split: option.split)
    qed
  qed simp
  let ?m = "extra_fields_from je (node_object je n)"
  have ok: "bt_ok (n_extra_fields n)" using assms by (simp add: json_node_ok_def)
  have get: "bt_get ?m k = bt_get (bt_map_values json_extra (n_extra_fields n)) k" for k
  proof (cases "k \<in> set known_node_fields")
    case True
    then have "k \<notin> fst ` set (n_extra_fields n)" using assms by (auto simp: json_node_ok_def list_all_iff)
    then have "bt_get (n_extra_fields n) k = None" by (simp add: bt_get_None)
    then show ?thesis
      using gen [OF node_object_ok bt_ok_Nil, of je n k] True by (simp add: extra_fields_from_def bt_get_map_values)
  next
    case False
    then show ?thesis
      using gen [OF node_object_ok bt_ok_Nil, of je n k] node_object_get [OF assms, of je k]
      by (simp add: extra_fields_from_def bt_get_map_values extra_json option.map_comp o_def split: option.split)
  qed
  have "bt_ok ?m" using gen [OF node_object_ok bt_ok_Nil, of je n] by (simp add: extra_fields_from_def)
  moreover have "bt_ok (bt_map_values json_extra (n_extra_fields n))" using ok by simp
  ultimately show ?thesis using bt.entries_ext [of ?m "bt_map_values json_extra (n_extra_fields n)"] get by simp
qed

lemma known_lookup: "json_node_ok n \<Longrightarrow> k \<in> set known_node_fields \<Longrightarrow> bt_get (node_object je n) k = bt_get (node_map_json je n) k"
  by (simp add: node_object_get)

lemma get_required_str_read: "bt_get obj k = Some (JStr s) \<Longrightarrow> get_required_str obj k = Inr s"
  by (simp add: get_required_str_def)

lemma node_read:
  assumes env: "node_reads_back je n" and ok: "json_node_ok n"
  shows "json_to_node je (node_to_json je n) i = Inr (json_node n)"
proof -
  let ?obj = "node_object je n"
  have get: "bt_get ?obj k = bt_get (node_map_json je n) k" if "k \<in> set known_node_fields" for k
    using that known_lookup [OF ok] by blast
  note serde = env [unfolded node_reads_back_def]
  have type_read: "parse_node_type (show_node_type (n_type n)) = n_type n"
    using node_type.parse_print ok by (simp add: json_node_ok_def)
  show ?thesis
    unfolding json_to_node_def node_to_json_object as_object.simps option.case node_reads_def
    by (simp add: get known_node_fields_def node_map_lookups get_required_str_read get_opt_str_read get_opt_str_list_read
        get_opt_enum_read get_opt_u32_read parse_opt_serde_read serde parse_opt_serde_vec_eq enum_reads type_read
        read_field_def extra_fields_read [OF ok] json_node_def node_default_def)
qed

section \<open>Files\<close>

definition file_map_json :: "json_env \<Rightarrow> agm_file \<Rightarrow> (string, json) btree" where
  "file_map_json je f = fold id (file_inserts je f) []"

lemma file_map_lookups:
  "bt_get (file_map_json je f) ''agm'' = Some (convert_agm_version je (h_agm (f_header f)))"
  "bt_get (file_map_json je f) ''package'' = Some (JStr (h_package (f_header f)))"
  "bt_get (file_map_json je f) ''version'' = Some (JStr (h_version (f_header f)))"
  "bt_get (file_map_json je f) ''title'' = map_option JStr (h_title (f_header f))"
  "bt_get (file_map_json je f) ''owner'' = map_option JStr (h_owner (f_header f))"
  "bt_get (file_map_json je f) ''imports'' = map_option convert_imports (h_imports (f_header f))"
  "bt_get (file_map_json je f) ''default_load'' = map_option JStr (h_default_load (f_header f))"
  "bt_get (file_map_json je f) ''description'' = map_option JStr (h_description (f_header f))"
  "bt_get (file_map_json je f) ''tags'' = map_option str_list_to_value (h_tags (f_header f))"
  "bt_get (file_map_json je f) ''status'' = map_option JStr (h_status (f_header f))"
  "bt_get (file_map_json je f) ''load_profiles'' =
     map_option (\<lambda>ps. JObj (bt_map_values load_profile_to_json ps)) (h_load_profiles (f_header f))"
  "bt_get (file_map_json je f) ''target_runtime'' = map_option JStr (h_target_runtime (f_header f))"
  "bt_get (file_map_json je f) ''nodes'' = Some (JArr (map (node_to_json je) (f_nodes f)))"
  unfolding file_map_json_def file_inserts_def insert_opt_defs fold_simps id_apply Let_def
  by (simp_all add: insert_opt_get split: option.split)

lemma agm_read: "get_agm_string (file_map_json je f) = Inr (json_agm je (h_agm (f_header f)))"
  by (simp add: get_agm_string_def file_map_lookups convert_agm_version_def json_agm_def split: option.split)

lemma import_items_read:
  "list_all import_entry_valid es \<Longrightarrow> import_items je i (map (\<lambda>e. JStr (show_import_entry e)) es) = Inr es"
  by (induction es arbitrary: i) (simp_all add: parse_show_import_entry)

lemma imports_read:
  assumes "pred_option (list_all import_entry_valid) (h_imports (f_header f))"
  shows "get_present (parse_json_imports je) (file_map_json je f) ''imports'' = Inr (h_imports (f_header f))"
  using assms import_items_read [of _ je 0]
  by (cases "h_imports (f_header f)") (simp_all add: get_present_def file_map_lookups parse_json_imports_def convert_imports_def)

lemma profile_items_read:
  assumes "list_all (\<lambda>(k, lp). je_profile je (load_profile_to_json lp) = Inr lp) ps" and "bt_ok (acc @ ps)"
  shows "profile_items je (bt_map_values load_profile_to_json ps) acc = Inr (acc @ ps)"
  using assms
proof (induction ps arbitrary: acc)
  case (Cons p ps)
  obtain a b where p: "p = (a, b)" by force
  have "\<And>c. c \<in> fst ` set acc \<Longrightarrow> c < a" using Cons.prems(2) p by (fastforce simp: bt_ok_def sorted_wrt_append)
  then have "bt_insert a b acc = acc @ [p]" using bt_insert_append [of acc a b] p by simp
  then show ?case using Cons.IH [of "acc @ [p]"] Cons.prems p by (simp add: bt_map_values_def)
qed (simp add: bt_map_values_def)

lemma json_profiles_read:
  assumes "pred_option (list_all (\<lambda>(k, lp). je_profile je (load_profile_to_json lp) = Inr lp)) (h_load_profiles (f_header f))"
    and "pred_option bt_ok (h_load_profiles (f_header f))"
  shows "get_present (parse_json_profiles je) (file_map_json je f) ''load_profiles'' = Inr (h_load_profiles (f_header f))"
  using assms profile_items_read [of je _ "[]"]
  by (cases "h_load_profiles (f_header f)") (simp_all add: get_present_def file_map_lookups parse_json_profiles_def)

lemma json_nodes_read:
  "list_all (node_reads_back je) ns \<Longrightarrow> list_all json_node_ok ns \<Longrightarrow> json_nodes je i (map (node_to_json je) ns) = Inr (map json_node ns)"
  by (induction ns arbitrary: i) (simp_all add: node_read)

lemma file_read:
  assumes env: "json_env_ok je f" and ok: "json_file_ok f"
  shows "json_to_agm je (agm_to_json je f) = Inr (json_file je f)"
proof -
  have obj: "agm_to_json je f = JObj (file_map_json je f)" by (simp add: agm_to_json_def file_map_json_def)
  note env = env [unfolded json_env_ok_def, THEN conjunct1] env [unfolded json_env_ok_def, THEN conjunct2]
  have parts: "pred_option (list_all import_entry_valid) (h_imports (f_header f))" "pred_option bt_ok (h_load_profiles (f_header f))"
    "list_all json_node_ok (f_nodes f)" using ok by (simp_all add: json_file_ok_def)
  show ?thesis
    unfolding json_to_agm_def obj as_object.simps option.case
    by (simp add: agm_read imports_read [OF parts(1)] json_profiles_read [OF env(2) parts(2)] get_required_str_read
        get_opt_str_read get_opt_str_list_read file_map_lookups json_nodes_read [OF env(1) parts(3)] json_file_def)
qed

section \<open>Properties\<close>

text \<open>A file with a ticket and a code block, and serializers that read it back.\<close>

definition json_code :: code_block where
  "json_code = \<lparr>cb_lang = None, cb_target = None, cb_action = CaFull, cb_body = ''x'', cb_anchor = None, cb_old = None\<rparr>"

definition json_sample :: agm_file where
  "json_sample = \<lparr>f_header = diff_header, f_nodes = [node_default\<lparr>n_id := ''a'', n_code := Some json_code, n_title := Some ''t'',
     n_extra_fields := [(''k'', FvScalar ''007''), (''l'', FvBlock ''b'')]\<rparr>]\<rparr>"

definition sample_je :: json_env where
  "sample_je = \<lparr>je_float = (\<lambda>_. None), je_text = (\<lambda>_. []), je_pe = \<lparr>pe_semver = (\<lambda>_. True), pe_escape = (\<lambda>s. s)\<rparr>,
     je_code = (\<lambda>cb. Some (JStr (cb_body cb)), \<lambda>v. case v of JStr s \<Rightarrow> Inr (json_code\<lparr>cb_body := s\<rparr>) | _ \<Rightarrow> Inl ''code''),
     je_code_blocks = (\<lambda>_. None, \<lambda>_. Inl []), je_verify = (\<lambda>_. None, \<lambda>_. Inl []), je_context = (\<lambda>_. None, \<lambda>_. Inl []),
     je_groups = (\<lambda>_. None, \<lambda>_. Inl []), je_memory = (\<lambda>_. None, \<lambda>_. Inl []), je_profile = (\<lambda>_. Inl [])\<rparr>"

text \<open>
  C4: The way through canonical JSON gives back exactly \<open>json_file\<close> of the file: every header field,
  every node in order and every field of a node, with the version of the format cut to its major
  number, spans reset, ticket fields gone, blocks of unknown fields as scalars and number-like scalars
  in their shortest form. The maps must be maps, custom types not built-in names, unknown fields not
  known ones, imports of the form they are parsed to, and the derived serializers read what they write.
\<close>

theorem json_roundtrip:
  assumes "json_env_ok je f" and "json_file_ok f"
  shows "json_to_agm je (agm_to_json je f) = Inr (json_file je f)"
  using assms by (rule file_read)

lemma json_roundtrip_witness:
  "\<exists>g. json_to_agm sample_je (agm_to_json sample_je json_sample) = Inr g \<and>
     map n_code (f_nodes g) = [Some json_code] \<and> map n_title (f_nodes g) = [None] \<and>
     map n_extra_fields (f_nodes g) = [[(''k'', FvScalar ''7''), (''l'', FvScalar ''b'')]]"
proof -
  have "json_env_ok sample_je json_sample"
    by (simp add: json_env_ok_def json_sample_def node_reads_back_def sample_je_def reads_back_def json_code_def
        node_default_def diff_header_def)
  moreover have "json_file_ok json_sample"
    by (simp add: json_file_ok_def json_sample_def json_node_ok_def node_default_def diff_header_def node_type_valid_def
        known_node_fields_def bt_ok_def)
  moreover have "json_extra (FvScalar ''007'') = FvScalar ''7''"
    by (simp add: json_extra_def parse_i64_def parse_uint_def is_digit_def byte_def number_of_int_def show_word_def
        show_nat.simps digit_def)
  ultimately show ?thesis
    using json_roundtrip [of sample_je json_sample]
    by (simp add: json_file_def json_sample_def json_node_def node_default_def bt_map_values_def json_extra_def)
qed

text \<open>
  C38: Canonical JSON does not hold the ticket fields: files that differ only in the title, description,
  action, phase, prompt, assignee, labels or number of their tickets have the same JSON.
\<close>

theorem json_drops_tickets:
  "agm_to_json je (f\<lparr>f_nodes := map (edit_ticket e) (f_nodes f)\<rparr>) = agm_to_json je f"
proof -
  have "node_inserts je (edit_ticket e n) = node_inserts je n" "n_extra_fields (edit_ticket e n) = n_extra_fields n" for n
    by (simp_all add: node_inserts_def edit_ticket_def)
  then have "node_to_json je (edit_ticket e n) = node_to_json je n" for n
    by (simp add: node_to_json_def)
  then show ?thesis by (simp add: agm_to_json_def file_inserts_def Let_def o_def)
qed

end
