(* ===== verification/Normalize.thy ===== *)
theory Normalize
  imports Canonical
begin

text \<open>
  Normalization of synonyms, \<open>crates/agm-core/src/normalize/\<close>: the rule set (\<open>rules.rs\<close>), the
  report (\<open>report.rs\<close>), the engine over the syntax tree (\<open>engine.rs\<close>) and the text form (\<open>mod.rs\<close>).
  The YAML parser is third-party: \<open>builtin_rules\<close> is the content of \<open>builtin_rules.yaml\<close>, and a
  rule set of the user comes from the parameter \<open>yaml\<close>. \<open>None\<close> is a panic.
\<close>

section \<open>Rules\<close>

datatype rule_parse_error = YamlError string | EmptyRules

type_synonym aliases = "(string, string list) btree"

record rule_set =
  rs_field_aliases :: "(string, aliases) btree"
  rs_type_aliases :: aliases
  rs_universal :: aliases

definition builtin_rule_set :: rule_set where
  "builtin_rule_set =
     \<lparr>rs_field_aliases =
        [(''orchestration'', [(''depends'', [''depends_on'', ''prereq'', ''needs'']), (''parallel_groups'', [''groups'', ''phases''])]),
         (''ticket'', [(''labels'', [''tags_list''])]),
         (''workflow'', [(''code_blocks'', [''steps_with_code'', ''code_steps'']), (''steps'', [''tasks'', ''task_list''])])],
      rs_type_aliases = [(''orchestration'', [''plan'', ''plan_execution'', ''execution_plan''])],
      rs_universal = [(''depends'', [''depends_on'', ''prereq'', ''needs'']), (''related_to'', [''related'', ''see'', ''relates_to''])]\<rparr>"

definition from_yaml_str :: "(string \<Rightarrow> string + rule_set) \<Rightarrow> string \<Rightarrow> rule_parse_error + rule_set" where
  "from_yaml_str yaml input =
     (if trim input = [] then Inl EmptyRules
      else case yaml input of Inl e \<Rightarrow> Inl (YamlError e) | Inr r \<Rightarrow> Inr r)"

text \<open>The loop that inserts the entries of one map into another.\<close>

definition bt_override :: "('k::linorder, 'v) btree \<Rightarrow> ('k, 'v) btree \<Rightarrow> ('k, 'v) btree" where
  "bt_override xs m = fold (\<lambda>(k, v). bt_insert k v) xs m"

definition rules_merge :: "rule_set \<Rightarrow> rule_set \<Rightarrow> rule_set" where
  "rules_merge self other =
     \<lparr>rs_field_aliases = fold (\<lambda>(t, field_map) m.
          bt_insert t (bt_override field_map (case bt_get m t of None \<Rightarrow> [] | Some e \<Rightarrow> e)) m)
        (rs_field_aliases other) (rs_field_aliases self),
      rs_type_aliases = bt_override (rs_type_aliases other) (rs_type_aliases self),
      rs_universal = bt_override (rs_universal other) (rs_universal self)\<rparr>"

text \<open>The first canonical name, in key order, with the synonym in its list.\<close>

fun first_canonical :: "aliases \<Rightarrow> string \<Rightarrow> string option" where
  "first_canonical [] name = None"
| "first_canonical ((c, synonyms) # m) name = (if name \<in> set synonyms then Some c else first_canonical m name)"

definition canonical_field :: "rule_set \<Rightarrow> string \<Rightarrow> string \<Rightarrow> string option" where
  "canonical_field rules t name =
     (case (case bt_get (rs_field_aliases rules) t of None \<Rightarrow> None | Some m \<Rightarrow> first_canonical m name) of
        Some c \<Rightarrow> Some c
      | None \<Rightarrow> first_canonical (rs_universal rules) name)"

definition canonical_type :: "rule_set \<Rightarrow> string \<Rightarrow> string option" where
  "canonical_type rules name = first_canonical (rs_type_aliases rules) name"

section \<open>The report\<close>

record rewrite =
  rw_rule_id :: string
  rw_node_id :: "string option"
  rw_before :: string
  rw_after :: string
  rw_span :: span

datatype normalize_warning_code = CollisionKeepingCanonical | TypeMismatch | TypeRewritten | UnknownNodeType

record normalize_warning =
  nw_code :: normalize_warning_code
  nw_message :: string
  nw_node_id :: "string option"
  nw_span :: span

record normalize_report =
  nr_rewrites :: "rewrite list"
  nr_warnings :: "normalize_warning list"
  nr_rules_applied :: "string list"

definition normalize_report_empty :: normalize_report where
  "normalize_report_empty = \<lparr>nr_rewrites = [], nr_warnings = [], nr_rules_applied = []\<rparr>"

definition normalize_is_empty :: "normalize_report \<Rightarrow> bool" where
  "normalize_is_empty r \<longleftrightarrow> nr_rewrites r = [] \<and> nr_warnings r = []"

definition normalize_summary :: "normalize_report \<Rightarrow> string" where
  "normalize_summary r =
     (let n = length (nr_rewrites r); w = length (nr_warnings r) in
      show_nat n @ '' '' @ (if n = 1 then ''rewrite'' else ''rewrites'') @ '', '' @
      show_nat w @ '' '' @ (if w = 1 then ''warning'' else ''warnings''))"

definition add_rewrite :: "string \<Rightarrow> node \<Rightarrow> string \<Rightarrow> string \<Rightarrow> normalize_report \<Rightarrow> normalize_report" where
  "add_rewrite rule n old new r =
     r\<lparr>nr_rewrites := nr_rewrites r @ [\<lparr>rw_rule_id = rule, rw_node_id = Some (n_id n), rw_before = old,
         rw_after = new, rw_span = n_span n\<rparr>],
       nr_rules_applied := nr_rules_applied r @ [rule]\<rparr>"

definition add_warning :: "normalize_warning_code \<Rightarrow> string \<Rightarrow> node \<Rightarrow> normalize_report \<Rightarrow> normalize_report" where
  "add_warning code msg n r =
     r\<lparr>nr_warnings := nr_warnings r @ [\<lparr>nw_code = code, nw_message = msg, nw_node_id = Some (n_id n), nw_span = n_span n\<rparr>]\<rparr>"

section \<open>Configuration and index\<close>

record normalize_config =
  nc_rules :: rule_set
  nc_warn_on_collision :: bool
  nc_types :: bool
  nc_fields :: bool

definition normalize_config_default :: normalize_config where
  "normalize_config_default = \<lparr>nc_rules = builtin_rule_set, nc_warn_on_collision = True, nc_types = True, nc_fields = True\<rparr>"

definition canonical_node_types :: "string list" where
  "canonical_node_types = [''facts'', ''rules'', ''workflow'', ''entity'', ''decision'', ''exception'', ''example'',
     ''glossary'', ''anti_pattern'', ''orchestration'', ''ticket'']"

text \<open>The two hash maps from synonyms; a later insertion replaces an earlier one.\<close>

record reverse_index =
  ri_per_type :: "string \<times> string \<Rightarrow> string option"
  ri_universal :: "string \<Rightarrow> string option"

definition index_entries :: "aliases \<Rightarrow> (string \<times> string) list" where
  "index_entries m = concat (map (\<lambda>(c, synonyms). map (\<lambda>s. (s, c)) synonyms) m)"

definition reverse_index_build :: "normalize_config \<Rightarrow> reverse_index" where
  "reverse_index_build config =
     (let rules = nc_rules config in
      \<lparr>ri_per_type = map_of (rev (concat (map (\<lambda>(t, m). map (\<lambda>(s, c). ((t, s), c)) (index_entries m)) (rs_field_aliases rules)))),
       ri_universal = map_of (rev (index_entries (rs_universal rules)))\<rparr>)"

definition index_resolve :: "reverse_index \<Rightarrow> string \<Rightarrow> string \<Rightarrow> string option" where
  "index_resolve ix t synonym =
     (case ri_per_type ix (t, synonym) of Some c \<Rightarrow> Some c | None \<Rightarrow> ri_universal ix synonym)"

section \<open>Fields by name\<close>

definition canonical_field_expects_list :: "string \<Rightarrow> bool" where
  "canonical_field_expects_list c \<longleftrightarrow>
     c \<in> {''depends'', ''related_to'', ''replaces'', ''conflicts'', ''see_also'', ''tags'', ''aliases'', ''keywords'', ''items'',
       ''steps'', ''fields'', ''input'', ''output'', ''rationale'', ''tradeoffs'', ''resolution'', ''labels'', ''scope'',
       ''parallel_groups'', ''code_blocks'', ''verify'', ''memory''}"

text \<open>The list fields that the three functions below name, with their update.\<close>

definition list_fields :: "(string \<times> (node \<Rightarrow> string list option) \<times> (string list option \<Rightarrow> node \<Rightarrow> node)) list" where
  "list_fields =
     [(''depends'', n_depends, \<lambda>v n. n\<lparr>n_depends := v\<rparr>), (''related_to'', n_related_to, \<lambda>v n. n\<lparr>n_related_to := v\<rparr>),
      (''replaces'', n_replaces, \<lambda>v n. n\<lparr>n_replaces := v\<rparr>), (''conflicts'', n_conflicts, \<lambda>v n. n\<lparr>n_conflicts := v\<rparr>),
      (''see_also'', n_see_also, \<lambda>v n. n\<lparr>n_see_also := v\<rparr>), (''items'', n_items, \<lambda>v n. n\<lparr>n_items := v\<rparr>),
      (''steps'', n_steps, \<lambda>v n. n\<lparr>n_steps := v\<rparr>), (''fields'', n_fields, \<lambda>v n. n\<lparr>n_fields := v\<rparr>),
      (''input'', n_input, \<lambda>v n. n\<lparr>n_input := v\<rparr>), (''output'', n_output, \<lambda>v n. n\<lparr>n_output := v\<rparr>),
      (''rationale'', n_rationale, \<lambda>v n. n\<lparr>n_rationale := v\<rparr>), (''tradeoffs'', n_tradeoffs, \<lambda>v n. n\<lparr>n_tradeoffs := v\<rparr>),
      (''resolution'', n_resolution, \<lambda>v n. n\<lparr>n_resolution := v\<rparr>), (''tags'', n_tags, \<lambda>v n. n\<lparr>n_tags := v\<rparr>),
      (''aliases'', n_aliases, \<lambda>v n. n\<lparr>n_aliases := v\<rparr>), (''keywords'', n_keywords, \<lambda>v n. n\<lparr>n_keywords := v\<rparr>),
      (''labels'', n_labels, \<lambda>v n. n\<lparr>n_labels := v\<rparr>), (''scope'', n_scope, \<lambda>v n. n\<lparr>n_scope := v\<rparr>)]"

definition is_canonical_field_set :: "node \<Rightarrow> string \<Rightarrow> bool" where
  "is_canonical_field_set n c =
     (case map_of list_fields c of
        Some (get, _) \<Rightarrow> get n \<noteq> None
      | None \<Rightarrow>
          if c = ''detail'' then n_detail n \<noteq> None
          else if c = ''parallel_groups'' then n_parallel_groups n \<noteq> None
          else if c = ''code_blocks'' then n_code_blocks n \<noteq> None
          else False)"

definition get_canonical_field_value :: "node \<Rightarrow> string \<Rightarrow> field_value option" where
  "get_canonical_field_value n c =
     (case map_of list_fields c of
        Some (get, _) \<Rightarrow> map_option FvList (get n)
      | None \<Rightarrow> if c = ''detail'' then map_option FvBlock (n_detail n) else None)"

text \<open>\<open>None\<close> when the field is not one that can be set, \<open>false\<close> in the code.\<close>

definition set_canonical_field :: "node \<Rightarrow> string \<Rightarrow> field_value \<Rightarrow> node option" where
  "set_canonical_field n c v =
     (case v of
        FvList xs \<Rightarrow> (case map_of list_fields c of Some (_, upd) \<Rightarrow> Some (upd (Some xs) n) | None \<Rightarrow> None)
      | FvBlock s \<Rightarrow> if c = ''detail'' then Some (n\<lparr>n_detail := Some s\<rparr>) else None
      | FvScalar s \<Rightarrow> if c = ''detail'' then Some (n\<lparr>n_detail := Some s\<rparr>) else None)"

section \<open>The passes\<close>

definition sq :: "string \<Rightarrow> string" where
  "sq s = CHR 0x27 # s @ [CHR 0x27]"

text \<open>Pass 1 on one node.\<close>

definition normalize_type :: "normalize_config \<Rightarrow> node \<Rightarrow> normalize_report \<Rightarrow> node \<times> normalize_report" where
  "normalize_type config n r =
     (case n_type n of
        NtCustom s \<Rightarrow>
          (case canonical_type (nc_rules config) s of
             None \<Rightarrow> (n, r)
           | Some canonical \<Rightarrow>
               (n\<lparr>n_type := parse_node_type canonical\<rparr>,
                add_warning TypeRewritten (''type '' @ sq s @ '' rewritten to '' @ sq canonical @ '' on node '' @ sq (n_id n)) n
                  (add_rewrite (''type.'' @ canonical) n s canonical r)))
      | _ \<Rightarrow> (n, r))"

definition kind_ok :: "string \<Rightarrow> field_value \<Rightarrow> bool" where
  "kind_ok canonical v =
     (case v of FvList _ \<Rightarrow> canonical_field_expects_list canonical | _ \<Rightarrow> \<not> canonical_field_expects_list canonical)"

text \<open>Pass 2 on one key of one node.\<close>

definition normalize_key :: "normalize_config \<Rightarrow> reverse_index \<Rightarrow> string \<Rightarrow> string \<Rightarrow> node \<times> normalize_report \<Rightarrow>
    (node \<times> normalize_report) option" where
  "normalize_key config ix t synonym acc =
     (case acc of (n, r0) \<Rightarrow>
        (case index_resolve ix t synonym of
           None \<Rightarrow> Some (n, r0)
         | Some canonical \<Rightarrow>
             (let r = (if ri_per_type ix (t, synonym) \<noteq> None \<and> t \<notin> set canonical_node_types
                       then add_warning UnknownNodeType (''rule for unknown node type '' @ sq t @ '' applied to node '' @ sq (n_id n)) n r0
                       else r0) in
              case bt_get (n_extra_fields n) synonym of
                None \<Rightarrow> None
              | Some v \<Rightarrow>
                  (let n1 = n\<lparr>n_extra_fields := bt_remove synonym (n_extra_fields n)\<rparr> in
                   if \<not> kind_ok canonical v
                   then Some (n1\<lparr>n_extra_fields := bt_insert synonym v (n_extra_fields n1)\<rparr>,
                     add_warning TypeMismatch (''field '' @ sq canonical @ '' on node '' @ sq (n_id n) @ '': synonym '' @ sq synonym @
                       '' has wrong value kind for canonical '' @ sq canonical @ [sp, CHR 0xE2, CHR 0x80, CHR 0x94] @
                       '' rewrite skipped'') n r)
                   else if is_canonical_field_set n1 canonical
                   then Some (n1,
                     if get_canonical_field_value n1 canonical = Some v \<or> \<not> nc_warn_on_collision config then r
                     else add_warning CollisionKeepingCanonical (''field '' @ sq canonical @ '' and synonym '' @ sq synonym @
                       '' both present on node '' @ sq (n_id n) @ '' with different values '' @ [CHR 0xE2, CHR 0x80, CHR 0x94] @
                       '' keeping canonical'') n r)
                   else Some
                     (case set_canonical_field n1 canonical v of
                        Some n2 \<Rightarrow> n2
                      | None \<Rightarrow> n1\<lparr>n_extra_fields := bt_insert canonical v (n_extra_fields n1)\<rparr>,
                      add_rewrite (''field.'' @ t @ ''.'' @ canonical) n synonym canonical r)))))"

fun normalize_keys :: "normalize_config \<Rightarrow> reverse_index \<Rightarrow> string \<Rightarrow> string list \<Rightarrow> node \<times> normalize_report \<Rightarrow>
    (node \<times> normalize_report) option" where
  "normalize_keys config ix t [] acc = Some acc"
| "normalize_keys config ix t (k # ks) acc =
     (case normalize_key config ix t k acc of None \<Rightarrow> None | Some acc' \<Rightarrow> normalize_keys config ix t ks acc')"

fun normalize_types :: "normalize_config \<Rightarrow> node list \<Rightarrow> normalize_report \<Rightarrow> node list \<times> normalize_report" where
  "normalize_types config [] r = ([], r)"
| "normalize_types config (n # ns) r =
     (let (n', r') = normalize_type config n r; (ns', r'') = normalize_types config ns r' in (n' # ns', r''))"

fun normalize_fields :: "normalize_config \<Rightarrow> reverse_index \<Rightarrow> node list \<Rightarrow> normalize_report \<Rightarrow>
    (node list \<times> normalize_report) option" where
  "normalize_fields config ix [] r = Some ([], r)"
| "normalize_fields config ix (n # ns) r =
     (case normalize_keys config ix (show_node_type (n_type n)) (map fst (n_extra_fields n)) (n, r) of
        None \<Rightarrow> None
      | Some (n', r') \<Rightarrow> map_option (\<lambda>(ns', r''). (n' # ns', r'')) (normalize_fields config ix ns r'))"

definition normalize_ast :: "normalize_config \<Rightarrow> agm_file \<Rightarrow> (agm_file \<times> normalize_report) option" where
  "normalize_ast config f =
     (let (ns, r) = (if nc_types config then normalize_types config (f_nodes f) normalize_report_empty
                     else (f_nodes f, normalize_report_empty)) in
      if nc_fields config
      then map_option (\<lambda>(ns', r'). (f\<lparr>f_nodes := ns'\<rparr>, r')) (normalize_fields config (reverse_index_build config) ns r)
      else Some (f\<lparr>f_nodes := ns\<rparr>, r))"

definition normalize_text :: "parse_env \<Rightarrow> string \<Rightarrow> normalize_config \<Rightarrow>
    (agm_error list + string \<times> normalize_report) option" where
  "normalize_text pe raw config =
     (case parse pe raw of
        None \<Rightarrow> None
      | Some (Inl errors) \<Rightarrow> Some (Inl errors)
      | Some (Inr f) \<Rightarrow> map_option (\<lambda>(f', r). Inr (render_canonical f', r)) (normalize_ast config f))"

end
