(* ===== verification/Normalize_Facts.thy ===== *)
theory Normalize_Facts
  imports Normalize
begin

text \<open>
  Facts on the normalizer: it never panics, a file that was normalised is left as it is by a
  second run when no canonical name is a synonym itself, and a second synonym of a field that is
  kept untyped replaces the first one without a report.
\<close>

section \<open>One key\<close>

text \<open>No canonical name is a synonym: the property of a rule set under which one pass is enough.\<close>

definition settled_fields :: "reverse_index \<Rightarrow> bool" where
  "settled_fields ix \<longleftrightarrow> (\<forall>t s c. index_resolve ix t s = Some c \<longrightarrow> index_resolve ix t c = None)"

definition settled_types :: "rule_set \<Rightarrow> bool" where
  "settled_types rules \<longleftrightarrow> (\<forall>s c. canonical_type rules s = Some c \<longrightarrow> canonical_type rules c = None)"

text \<open>A key the pass leaves: not a synonym, or one whose value has the wrong kind.\<close>

definition key_done :: "reverse_index \<Rightarrow> string \<Rightarrow> node \<Rightarrow> string \<Rightarrow> bool" where
  "key_done ix t n k \<longleftrightarrow>
     (case bt_get (n_extra_fields n) k of
        None \<Rightarrow> True
      | Some v \<Rightarrow> (case index_resolve ix t k of None \<Rightarrow> True | Some c \<Rightarrow> \<not> kind_ok c v))"

lemma list_fields_keep [simp]:
  "map_of list_fields c = Some (g, upd) \<Longrightarrow>
     n_extra_fields (upd v n) = n_extra_fields n \<and> n_type (upd v n) = n_type n"
  by (auto simp: list_fields_def split: if_splits)

lemma set_canonical_field_keep:
  "set_canonical_field n c v = Some n' \<Longrightarrow>
     n_extra_fields n' = n_extra_fields n \<and> n_type n' = n_type n"
  by (auto simp: set_canonical_field_def split: field_value.splits option.splits if_splits)

lemma report_keep [simp]:
  "nr_rewrites (add_warning c m n r) = nr_rewrites r"
  by (simp add: add_warning_def)

lemma bt_insert_first: "\<forall>x \<in> fst ` set m. a < x \<Longrightarrow> bt_insert a v m = (a, v) # m"
  by (cases m) auto

lemma put_back: "bt_ok m \<Longrightarrow> bt_get m k = Some v \<Longrightarrow> bt_insert k v (bt_remove k m) = m"
  by (induction k m rule: bt_remove.induct) (auto simp: bt_ok_Cons bt_get_map_of bt_insert_first dest!: map_of_SomeD split: if_splits)

lemma bt_keys_distinct: "bt_ok m \<Longrightarrow> distinct (map fst m)"
  by (simp add: bt_ok_def strict_sorted_iff)

lemma normalize_key_step:
  assumes ix: "settled_fields ix" and ok: "bt_ok (n_extra_fields n)" and v: "bt_get (n_extra_fields n) k = Some v"
  shows "\<exists>n' r'. normalize_key cfg ix t k (n, r) = Some (n', r') \<and> n_type n' = n_type n \<and>
    bt_ok (n_extra_fields n') \<and> key_done ix t n' k \<and>
    (\<forall>j. j \<noteq> k \<longrightarrow> bt_get (n_extra_fields n') j = bt_get (n_extra_fields n) j \<or>
       bt_get (n_extra_fields n') j \<noteq> None \<and> index_resolve ix t j = None)"
proof (cases "index_resolve ix t k")
  case None
  then show ?thesis by (simp add: normalize_key_def key_done_def ok v)
next
  case (Some c)
  have cn: "index_resolve ix t c = None" using ix Some unfolding settled_fields_def by blast
  then have ck: "c \<noteq> k" using Some by auto
  show ?thesis
  proof (cases "set_canonical_field (n\<lparr>n_extra_fields := bt_remove k (n_extra_fields n)\<rparr>) c v")
    case None
    then show ?thesis using ok v cn ck Some
      by (auto simp: normalize_key_def key_done_def put_back bt_get_remove Let_def)
  next
    case (Some n2)
    from set_canonical_field_keep [OF this] show ?thesis using ok v cn ck \<open>index_resolve ix t k = Some c\<close> Some
      by (auto simp: normalize_key_def key_done_def put_back bt_get_remove Let_def)
  qed
qed

section \<open>All keys of a node\<close>

lemma normalize_keys_run:
  assumes "settled_fields ix"
  shows "bt_ok (n_extra_fields n) \<Longrightarrow> distinct ks \<Longrightarrow> (\<forall>k \<in> set ks. bt_get (n_extra_fields n) k \<noteq> None) \<Longrightarrow>
    \<exists>n' r'. normalize_keys cfg ix t ks (n, r) = Some (n', r') \<and> n_type n' = n_type n \<and> bt_ok (n_extra_fields n') \<and>
      (\<forall>j. (j \<in> set ks \<longrightarrow> key_done ix t n' j) \<and>
        (key_done ix t n j \<longrightarrow> key_done ix t n' j))"
proof (induction ks arbitrary: n r)
  case (Cons k ks)
  then obtain v where v: "bt_get (n_extra_fields n) k = Some v" by auto
  from normalize_key_step [OF assms Cons.prems(1) v, of cfg t r] obtain n1 r1 where
    one: "normalize_key cfg ix t k (n, r) = Some (n1, r1)" "n_type n1 = n_type n" "bt_ok (n_extra_fields n1)" "key_done ix t n1 k"
    and others: "\<And>j. j \<noteq> k \<Longrightarrow> bt_get (n_extra_fields n1) j = bt_get (n_extra_fields n) j \<or>
       bt_get (n_extra_fields n1) j \<noteq> None \<and> index_resolve ix t j = None" by blast
  have carry: "key_done ix t n j \<Longrightarrow> key_done ix t n1 j" for j
    using others [of j] one(4) by (cases "j = k") (auto simp: key_done_def split: option.splits)
  have "\<forall>j \<in> set ks. bt_get (n_extra_fields n1) j \<noteq> None"
    using others Cons.prems by fastforce
  with Cons.IH [of n1 r1] one Cons.prems obtain n' r' where
    "normalize_keys cfg ix t ks (n1, r1) = Some (n', r')" "n_type n' = n_type n1" "bt_ok (n_extra_fields n')"
    "\<forall>j. (j \<in> set ks \<longrightarrow> key_done ix t n' j) \<and> (key_done ix t n1 j \<longrightarrow> key_done ix t n' j)" by auto
  with one carry show ?case by auto
qed simp

lemma normalize_keys_done:
  assumes "bt_ok (n_extra_fields n)" "\<forall>k \<in> set ks. bt_get (n_extra_fields n) k \<noteq> None \<and> key_done ix t n k"
  shows "\<exists>r'. normalize_keys cfg ix t ks (n, r) = Some (n, r') \<and> nr_rewrites r' = nr_rewrites r"
  using assms(2)
proof (induction ks arbitrary: r)
  case (Cons k ks)
  have "\<exists>r1. normalize_key cfg ix t k (n, r) = Some (n, r1) \<and> nr_rewrites r1 = nr_rewrites r"
    using Cons.prems assms(1)
    by (auto simp: normalize_key_def key_done_def put_back Let_def split: option.splits)
  with Cons show ?case by fastforce
qed simp

section \<open>All nodes\<close>

definition node_extra_ok :: "node \<Rightarrow> bool" where
  "node_extra_ok n \<longleftrightarrow> bt_ok (n_extra_fields n)"

definition node_settled :: "reverse_index \<Rightarrow> node \<Rightarrow> bool" where
  "node_settled ix n \<longleftrightarrow> node_extra_ok n \<and>
     (\<forall>k \<in> fst ` set (n_extra_fields n). key_done ix (show_node_type (n_type n)) n k)"

lemma normalize_fields_run:
  assumes "settled_fields ix"
  shows "list_all node_extra_ok ns \<Longrightarrow>
    \<exists>ns' r'. normalize_fields cfg ix ns r = Some (ns', r') \<and> map n_type ns' = map n_type ns \<and> list_all (node_settled ix) ns'"
proof (induction ns arbitrary: r)
  case (Cons n ns)
  let ?ks = "map fst (n_extra_fields n)" and ?t = "show_node_type (n_type n)"
  have ok: "bt_ok (n_extra_fields n)" using Cons.prems by (simp add: node_extra_ok_def)
  from normalize_keys_run [OF assms ok bt_keys_distinct [OF ok], of cfg ?t r] obtain n' r' where
    one: "normalize_keys cfg ix ?t ?ks (n, r) = Some (n', r')" "n_type n' = n_type n" "bt_ok (n_extra_fields n')"
    and keys: "\<And>j. (j \<in> set ?ks \<longrightarrow> key_done ix ?t n' j) \<and> (key_done ix ?t n j \<longrightarrow> key_done ix ?t n' j)"
    by (auto simp: bt_get_None)
  have "key_done ix ?t n' j" for j
    using keys [of j] by (cases "j \<in> set ?ks") (auto simp: key_done_def bt_get_None [THEN iffD2])
  with one have now: "node_settled ix n'" by (simp add: node_settled_def node_extra_ok_def)
  from Cons obtain ns' r'' where "normalize_fields cfg ix ns r' = Some (ns', r'')" "map n_type ns' = map n_type ns"
    "list_all (node_settled ix) ns'" by fastforce
  with one now show ?case by simp
qed simp

lemma normalize_fields_done:
  "list_all (node_settled ix) ns \<Longrightarrow>
     \<exists>r'. normalize_fields cfg ix ns r = Some (ns, r') \<and> nr_rewrites r' = nr_rewrites r"
proof (induction ns arbitrary: r)
  case (Cons n ns)
  then have "\<exists>r1. normalize_keys cfg ix (show_node_type (n_type n)) (map fst (n_extra_fields n)) (n, r) = Some (n, r1) \<and>
      nr_rewrites r1 = nr_rewrites r"
    by (intro normalize_keys_done) (auto simp: node_settled_def node_extra_ok_def bt_get_None image_iff)
  with Cons show ?case by fastforce
qed simp

definition type_settled :: "rule_set \<Rightarrow> node_type \<Rightarrow> bool" where
  "type_settled rules t \<longleftrightarrow> (case t of NtCustom s \<Rightarrow> canonical_type rules s = None | _ \<Rightarrow> True)"

lemma custom_show: "parse_node_type s = NtCustom c \<Longrightarrow> c = s"
  by (auto simp: parse_node_type_def split: if_splits option.splits)

lemma normalize_types_run:
  "settled_types (nc_rules cfg) \<Longrightarrow>
     list_all (\<lambda>n. type_settled (nc_rules cfg) (n_type n)) (fst (normalize_types cfg ns r)) \<and>
     (list_all node_extra_ok ns \<longrightarrow> list_all node_extra_ok (fst (normalize_types cfg ns r)))"
proof (induction ns arbitrary: r)
  case (Cons n ns)
  have "type_settled (nc_rules cfg) (n_type (fst (normalize_type cfg n r))) \<and>
      n_extra_fields (fst (normalize_type cfg n r)) = n_extra_fields n"
    using Cons.prems custom_show
    by (fastforce simp: normalize_type_def type_settled_def settled_types_def split: node_type.splits option.splits)
  with Cons.IH [OF Cons.prems, of "snd (normalize_type cfg n r)"] show ?case
    by (auto simp: node_extra_ok_def split: prod.splits)
qed simp

lemma normalize_types_done:
  "list_all (\<lambda>n. type_settled (nc_rules cfg) (n_type n)) ns \<Longrightarrow> normalize_types cfg ns r = (ns, r)"
  by (induction ns arbitrary: r)
    (auto simp: normalize_type_def type_settled_def split: node_type.splits)

section \<open>The whole file\<close>

definition types_settled :: "normalize_config \<Rightarrow> agm_file \<Rightarrow> bool" where
  "types_settled cfg f \<longleftrightarrow> (nc_types cfg \<longrightarrow> list_all (\<lambda>n. type_settled (nc_rules cfg) (n_type n)) (f_nodes f))"

lemma same_types: "map n_type ns' = map n_type ns \<Longrightarrow> list_all (\<lambda>n. P (n_type n)) ns \<Longrightarrow> list_all (\<lambda>n. P (n_type n)) ns'"
proof (induction ns arbitrary: ns')
  case (Cons n ns)
  then show ?case by (cases ns') auto
qed simp

lemma normalize_ast_run:
  assumes "settled_types (nc_rules cfg)" "settled_fields (reverse_index_build cfg)" "list_all node_extra_ok (f_nodes f)"
  shows "\<exists>g r. normalize_ast cfg f = Some (g, r) \<and> types_settled cfg g \<and>
    (nc_fields cfg \<longrightarrow> list_all (node_settled (reverse_index_build cfg)) (f_nodes g))"
proof -
  obtain ns r where p: "(if nc_types cfg then normalize_types cfg (f_nodes f) normalize_report_empty
      else (f_nodes f, normalize_report_empty)) = (ns, r)" by fastforce
  have t: "nc_types cfg \<longrightarrow> list_all (\<lambda>n. type_settled (nc_rules cfg) (n_type n)) ns" and ok: "list_all node_extra_ok ns"
    using normalize_types_run [OF assms(1), of "f_nodes f" normalize_report_empty] p assms(3)
    by (auto split: if_splits)
  show ?thesis
  proof (cases "nc_fields cfg")
    case True
    from normalize_fields_run [OF assms(2) ok, of cfg r] obtain ns' r' where
      "normalize_fields cfg (reverse_index_build cfg) ns r = Some (ns', r')" and m: "map n_type ns' = map n_type ns"
      "list_all (node_settled (reverse_index_build cfg)) ns'" by blast
    moreover have "nc_types cfg \<longrightarrow> list_all (\<lambda>n. type_settled (nc_rules cfg) (n_type n)) ns'"
      using t m(1) same_types by blast
    ultimately show ?thesis using p True by (simp add: normalize_ast_def types_settled_def)
  next
    case False
    then show ?thesis using p t by (simp add: normalize_ast_def types_settled_def)
  qed
qed

lemma normalize_ast_done:
  assumes "types_settled cfg g" "nc_fields cfg \<longrightarrow> list_all (node_settled (reverse_index_build cfg)) (f_nodes g)"
  shows "\<exists>r. normalize_ast cfg g = Some (g, r) \<and> nr_rewrites r = []"
proof -
  have "(if nc_types cfg then normalize_types cfg (f_nodes g) normalize_report_empty
      else (f_nodes g, normalize_report_empty)) = (f_nodes g, normalize_report_empty)"
    using assms(1) by (simp add: types_settled_def normalize_types_done)
  then show ?thesis using assms(2) normalize_fields_done [of "reverse_index_build cfg" "f_nodes g" cfg normalize_report_empty]
    by (cases "nc_fields cfg") (auto simp: normalize_ast_def normalize_report_empty_def)
qed

section \<open>Rule sets in which no canonical name is a synonym\<close>

definition alias_names :: "aliases \<Rightarrow> string list" where
  "alias_names m = map fst m"

definition alias_synonyms :: "aliases \<Rightarrow> string list" where
  "alias_synonyms m = concat (map snd m)"

definition rules_settled :: "rule_set \<Rightarrow> bool" where
  "rules_settled rules \<longleftrightarrow>
     (let ms = rs_universal rules # map snd (rs_field_aliases rules); syns = concat (map alias_synonyms ms) in
      list_all (\<lambda>c. c \<notin> set syns) (concat (map alias_names ms))) \<and>
     list_all (\<lambda>c. c \<notin> set (alias_synonyms (rs_type_aliases rules))) (alias_names (rs_type_aliases rules))"

lemma index_entries_names: "(s, c) \<in> set (index_entries m) \<Longrightarrow> s \<in> set (alias_synonyms m) \<and> c \<in> set (alias_names m)"
  by (force simp: index_entries_def alias_synonyms_def alias_names_def)

lemma index_resolve_names:
  assumes "index_resolve (reverse_index_build cfg) t s = Some c"
  shows "\<exists>m \<in> set (rs_universal (nc_rules cfg) # map snd (rs_field_aliases (nc_rules cfg))).
    s \<in> set (alias_synonyms m) \<and> c \<in> set (alias_names m)"
proof (cases "ri_per_type (reverse_index_build cfg) (t, s)")
  case None
  with assms have "map_of (rev (index_entries (rs_universal (nc_rules cfg)))) s = Some c"
    by (simp add: index_resolve_def reverse_index_build_def Let_def)
  from map_of_SomeD [OF this] index_entries_names show ?thesis by fastforce
next
  case (Some c')
  with assms have "map_of (rev (concat (map (\<lambda>(t, m). map (\<lambda>(s, c). ((t, s), c)) (index_entries m))
      (rs_field_aliases (nc_rules cfg))))) (t, s) = Some c"
    by (simp add: index_resolve_def reverse_index_build_def Let_def)
  from map_of_SomeD [OF this] obtain m where "(t, m) \<in> set (rs_field_aliases (nc_rules cfg))" "(s, c) \<in> set (index_entries m)"
    by auto
  with index_entries_names show ?thesis by fastforce
qed

lemma first_canonical_names: "first_canonical m s = Some c \<Longrightarrow> s \<in> set (alias_synonyms m) \<and> c \<in> set (alias_names m)"
  by (induction m s rule: first_canonical.induct) (auto simp: alias_synonyms_def alias_names_def split: if_splits)

lemma rules_settled_both:
  assumes "rules_settled (nc_rules cfg)"
  shows "settled_types (nc_rules cfg)" and "settled_fields (reverse_index_build cfg)"
proof -
  let ?a = "rs_type_aliases (nc_rules cfg)"
  show "settled_types (nc_rules cfg)"
    unfolding settled_types_def canonical_type_def
  proof (intro allI impI)
    fix s c
    assume "first_canonical ?a s = Some c"
    from first_canonical_names [OF this] have "c \<in> set (alias_names ?a)" by simp
    with assms have "c \<notin> set (alias_synonyms ?a)" by (simp only: rules_settled_def list_all_iff) blast
    then show "first_canonical ?a c = None"
      using first_canonical_names [of ?a c] by (cases "first_canonical ?a c") auto
  qed
  show "settled_fields (reverse_index_build cfg)"
    unfolding settled_fields_def
  proof (intro allI impI)
    fix t s c
    let ?ms = "rs_universal (nc_rules cfg) # map snd (rs_field_aliases (nc_rules cfg))"
    assume "index_resolve (reverse_index_build cfg) t s = Some c"
    from index_resolve_names [OF this] have "c \<in> set (concat (map alias_names ?ms))" by auto
    with assms have "c \<notin> set (concat (map alias_synonyms ?ms))" by (simp only: rules_settled_def Let_def list_all_iff) blast
    then show "index_resolve (reverse_index_build cfg) t c = None"
      using index_resolve_names [of cfg t c] by (cases "index_resolve (reverse_index_build cfg) t c") auto
  qed
qed

lemma builtin_settled: "rules_settled builtin_rule_set"
  by code_simp

text \<open>
  C10: A second run of the normalizer over its own result changes nothing and reports no rewrite,
  whatever the flags, for every rule set in which no canonical name is listed as a synonym (the
  built-in one is such a set); and the first run never panics at the \<open>unwrap\<close> of a removed key.
\<close>

theorem normalize_idempotent:
  assumes "rules_settled (nc_rules cfg)" "list_all node_extra_ok (f_nodes f)"
  shows "\<exists>g r r'. normalize_ast cfg f = Some (g, r) \<and> normalize_ast cfg g = Some (g, r') \<and> nr_rewrites r' = []"
  using normalize_ast_run [OF rules_settled_both [OF assms(1)] assms(2)] normalize_ast_done by blast

definition plan_file :: agm_file where
  "plan_file = \<lparr>f_header = header_empty, f_nodes = [node_default\<lparr>n_id := ''p'', n_type := NtCustom ''plan'',
      n_extra_fields := [(''needs'', FvList [''a'']), (''phases'', FvScalar ''x'')]\<rparr>]\<rparr>"

lemma normalize_idempotent_witness:
  "\<exists>g r r'. normalize_ast normalize_config_default plan_file = Some (g, r) \<and>
     normalize_ast normalize_config_default g = Some (g, r') \<and> nr_rewrites r' = []"
proof -
  have "rules_settled (nc_rules normalize_config_default)" by (simp add: normalize_config_default_def builtin_settled)
  moreover have "list_all node_extra_ok (f_nodes plan_file)"
    by (simp add: plan_file_def node_extra_ok_def bt_ok_def)
  ultimately show ?thesis by (rule normalize_idempotent)
qed

text \<open>
  C39: An orchestration that has both \<open>groups\<close> and \<open>phases\<close>, synonyms of \<open>parallel_groups\<close>, comes
  out with the second list only. The first list is lost, two rewrites are reported and no collision.
\<close>

theorem normalize_loses_groups:
  fixes a b :: "string list" and n :: node and f :: agm_file
  defines "n0 \<equiv> n\<lparr>n_type := NtOrchestration, n_parallel_groups := None,
      n_extra_fields := [(''groups'', FvList a), (''phases'', FvList b)]\<rparr>"
  shows "\<exists>r. normalize_ast normalize_config_default (f\<lparr>f_nodes := [n0]\<rparr>) =
      Some (f\<lparr>f_nodes := [n0\<lparr>n_extra_fields := [(''parallel_groups'', FvList b)]\<rparr>]\<rparr>, r) \<and>
    nr_warnings r = [] \<and> map rw_before (nr_rewrites r) = [''groups'', ''phases'']"
proof -
  let ?ix = "reverse_index_build normalize_config_default" and ?t = "''orchestration''"
  have ix: "index_resolve ?ix ?t ''groups'' = Some ''parallel_groups''" "index_resolve ?ix ?t ''phases'' = Some ''parallel_groups''"
    "index_resolve ?ix ?t ''parallel_groups'' = None"
    by (simp_all add: index_resolve_def reverse_index_build_def index_entries_def normalize_config_default_def builtin_rule_set_def)
  have field: "map_of list_fields ''parallel_groups'' = None" "canonical_field_expects_list ''parallel_groups''"
    "?t \<in> set canonical_node_types"
    by (simp_all add: list_fields_def canonical_field_expects_list_def canonical_node_types_def)
  have cfg: "nc_types normalize_config_default" "nc_fields normalize_config_default"
    by (simp_all add: normalize_config_default_def)
  show ?thesis
    by (simp add: n0_def cfg ix field normalize_ast_def normalize_type_def normalize_key_def kind_ok_def
        is_canonical_field_set_def set_canonical_field_def Let_def add_rewrite_def normalize_report_empty_def)
qed

end
