(* ===== verification/Mem_Sidecar.thy ===== *)
theory Mem_Sidecar
  imports State_Sidecar
begin

text \<open>
  The \<open>.agm.mem\<close> sidecar: \<open>crates/agm-core/src/parser/mem.rs\<close> and the text and SQL
  renderers of \<open>crates/agm-core/src/renderer/mem.rs\<close>. Values may have several lines:
  the lines after the first are written indented by two spaces. The round trip holds
  for values none of whose later lines is blank; a value with a blank line inside makes
  the file unreadable.
\<close>

section \<open>The parser\<close>

record mem_headers =
  mh_format_version :: "string option"
  mh_package :: "string option"
  mh_updated_at :: "string option"

definition mem_headers_empty :: mem_headers where
  "mem_headers_empty = \<lparr>mh_format_version = None, mh_package = None, mh_updated_at = None\<rparr>"

definition mem_header_field :: "string \<Rightarrow> string \<Rightarrow> nat \<Rightarrow> mem_headers \<Rightarrow> mem_headers \<times> agm_error list" where
  "mem_header_field key v number h =
     (if key = ''agm.mem'' then (h\<lparr>mh_format_version := Some v\<rparr>, [])
      else if key = ''package'' then (h\<lparr>mh_package := Some v\<rparr>, [])
      else if key = ''updated_at'' then (h\<lparr>mh_updated_at := Some v\<rparr>, [])
      else (h, [error_at P009 (''Unknown header field '' @ sq key @ '' in mem file'') number]))"

fun parse_mem_headers ::
  "sidecar_line list \<Rightarrow> mem_headers \<Rightarrow> mem_headers \<times> agm_error list \<times> sidecar_line list" where
  "parse_mem_headers [] h = (h, [], [])"
| "parse_mem_headers (l # ls) h =
     (case sl_kind l of
        SlBlank \<Rightarrow> parse_mem_headers ls h
      | SlComment _ \<Rightarrow> parse_mem_headers ls h
      | SlHeader key v \<Rightarrow>
          (let (h', es) = mem_header_field key v (sl_number l) h;
               (h'', es', rest) = parse_mem_headers ls h' in
           (h'', es @ es', rest))
      | _ \<Rightarrow> (h, [], l # ls))"

definition missing_mem_headers :: "mem_headers \<Rightarrow> agm_error list" where
  "missing_mem_headers h =
     map (\<lambda>(field, present). missing_header ''mem'' field)
       (filter (\<lambda>(field, present). \<not> present)
         [(''agm.mem'', mh_format_version h \<noteq> None), (''package'', mh_package h \<noteq> None),
          (''updated_at'', mh_updated_at h \<noteq> None)])"

record mem_block =
  mb_topic :: "string option"
  mb_scope :: "memory_scope option"
  mb_ttl :: "memory_ttl option"
  mb_value :: "string option"
  mb_created_at :: "string option"
  mb_updated_at :: "string option"

definition mem_block_empty :: mem_block where
  "mem_block_empty =
     \<lparr>mb_topic = None, mb_scope = None, mb_ttl = None, mb_value = None, mb_created_at = None,
      mb_updated_at = None\<rparr>"

text \<open>The fields other than \<open>value\<close>, whose continuation lines the block loop collects.\<close>

definition mem_field ::
  "string \<Rightarrow> string \<Rightarrow> string \<Rightarrow> nat \<Rightarrow> mem_block \<Rightarrow> mem_block \<times> agm_error list" where
  "mem_field entry_key key v number b =
     (if key = ''topic'' then (b\<lparr>mb_topic := Some v\<rparr>, [])
      else if key = ''scope'' then
        (case parse_memory_scope v of
           Inr s \<Rightarrow> (b\<lparr>mb_scope := Some s\<rparr>, [])
         | Inl _ \<Rightarrow>
             (b, [error_at P003 (''Invalid scope value '' @ sq v @ '' in entry '' @ sq entry_key)
                   number]))
      else if key = ''ttl'' then
        (case parse_memory_ttl v of
           Inr t \<Rightarrow> (b\<lparr>mb_ttl := Some t\<rparr>, [])
         | Inl _ \<Rightarrow>
             (b, [error_at P003 (''Invalid ttl value '' @ sq v @ '' in entry '' @ sq entry_key)
                   number]))
      else if key = ''created_at'' then (b\<lparr>mb_created_at := Some v\<rparr>, [])
      else if key = ''updated_at'' then (b\<lparr>mb_updated_at := Some v\<rparr>, [])
      else (b, [error_at P009 (''Unknown field '' @ sq key @ '' in entry block '' @ sq entry_key)
                 number]))"

fun take_continuations :: "sidecar_line list \<Rightarrow> string \<Rightarrow> string \<times> sidecar_line list" where
  "take_continuations [] collected = (collected, [])"
| "take_continuations (l # ls) collected =
     (case sl_kind l of
        SlContinuation cont \<Rightarrow> take_continuations ls (collected @ [nl] @ cont)
      | _ \<Rightarrow> (collected, l # ls))"

lemma take_continuations_length:
  "length (snd (take_continuations ls v)) \<le> length ls"
proof (induction ls v rule: take_continuations.induct)
  case (2 l ls v)
  then show ?case by (cases "sl_kind l") (auto intro: le_SucI)
qed simp

function parse_mem_block ::
  "string \<Rightarrow> sidecar_line list \<Rightarrow> mem_block \<Rightarrow> mem_block \<times> agm_error list \<times> sidecar_line list" where
  "parse_mem_block entry_key [] b = (b, [], [])"
| "parse_mem_block entry_key (l # ls) b =
     (case sl_kind l of
        SlBlank \<Rightarrow> (b, [], l # ls)
      | SlBlockDecl _ _ \<Rightarrow> (b, [], l # ls)
      | SlField key v \<Rightarrow>
          (if key = ''value'' then
             (let (collected, rest) = take_continuations ls v in
              parse_mem_block entry_key rest (b\<lparr>mb_value := Some collected\<rparr>))
           else
             (let (b', es) = mem_field entry_key key v (sl_number l) b;
                  (b'', es', rest) = parse_mem_block entry_key ls b' in
              (b'', es @ es', rest)))
      | _ \<Rightarrow> parse_mem_block entry_key ls b)"
  by pat_completeness auto

termination
proof (relation "measure (\<lambda>(entry_key, ls, b). length ls)")
  fix entry_key :: string and l :: sidecar_line and ls b key v x collected rest
  assume "x = take_continuations ls v" "(collected, rest) = x"
  then have "length rest \<le> length ls"
    using take_continuations_length [of ls v] by (metis snd_conv)
  then show "((entry_key, rest, b\<lparr>mb_value := Some collected\<rparr>), entry_key, l # ls, b) \<in>
      measure (\<lambda>(entry_key, ls, b). length ls)"
    by simp
qed simp_all

definition missing_mem_fields :: "string \<Rightarrow> nat \<Rightarrow> mem_block \<Rightarrow> agm_error list" where
  "missing_mem_fields entry_key block_line b =
     map (\<lambda>(field, present).
         error_at P001 (''Missing required field '' @ sq field @ '' in entry block '' @ sq entry_key)
           block_line)
       (filter (\<lambda>(field, present). \<not> present)
         [(''topic'', mb_topic b \<noteq> None), (''scope'', mb_scope b \<noteq> None),
          (''ttl'', mb_ttl b \<noteq> None), (''value'', mb_value b \<noteq> None),
          (''created_at'', mb_created_at b \<noteq> None), (''updated_at'', mb_updated_at b \<noteq> None)])"

definition finish_mem_block ::
  "string \<Rightarrow> nat \<Rightarrow> mem_block \<Rightarrow> (string, mem_file_entry) btree \<Rightarrow>
   (string, mem_file_entry) btree \<times> agm_error list" where
  "finish_mem_block entry_key block_line b entries =
     (case (mb_topic b, mb_scope b, mb_ttl b, mb_value b, mb_created_at b, mb_updated_at b) of
        (Some topic, Some scope, Some ttl, Some v, Some created, Some updated) \<Rightarrow>
          (case bt_get entries entry_key of
             Some _ \<Rightarrow>
               (entries,
                [error_at P006 (''Duplicate entry key '' @ sq entry_key @ '' in mem file'') block_line])
           | None \<Rightarrow>
               (bt_insert entry_key
                  \<lparr>mf_topic = topic, mf_scope = scope, mf_ttl = ttl, mf_value = v,
                   mf_created_at = created, mf_updated_at = updated\<rparr> entries, []))
      | _ \<Rightarrow> (entries, missing_mem_fields entry_key block_line b))"

lemma parse_mem_block_length:
  "length (snd (snd (parse_mem_block i ls b))) \<le> length ls"
proof (induction i ls b rule: parse_mem_block.induct)
  case (2 i l ls b)
  show ?case
  proof (cases "sl_kind l")
    case (SlField key v)
    obtain collected rest where t: "take_continuations ls v = (collected, rest)" by force
    obtain b' es where f: "mem_field i key v (sl_number l) b = (b', es)" by force
    show ?thesis
    proof (cases "key = ''value''")
      case True
      then show ?thesis
        using "2.IH"(2) [OF SlField True t [symmetric] refl] take_continuations_length [of ls v] SlField t
        by simp
    next
      case False
      then show ?thesis
        using "2.IH"(3) [OF SlField False f [symmetric] refl] SlField f
        by (simp add: case_prod_beta)
    qed
  qed (use 2 in \<open>auto intro: le_SucI\<close>)
qed simp

function parse_mem_blocks ::
  "sidecar_line list \<Rightarrow> (string, mem_file_entry) btree \<Rightarrow>
   (string, mem_file_entry) btree \<times> agm_error list" where
  "parse_mem_blocks [] entries = (entries, [])"
| "parse_mem_blocks (l # ls) entries =
     (case sl_kind l of
        SlBlockDecl keyword i \<Rightarrow>
          (if keyword = ''entry'' then
             (let (b, es1, rest) = parse_mem_block i ls mem_block_empty;
                  (entries', es2) = finish_mem_block i (sl_number l) b entries;
                  (entries'', es3) = parse_mem_blocks rest entries' in
              (entries'', es1 @ es2 @ es3))
           else
             (let (entries', es) = parse_mem_blocks ls entries in
              (entries',
               error_at P003 (''Unexpected block keyword '' @ sq keyword @
                 '' in mem file (expected '' @ sq ''entry'' @ '')'') (sl_number l) # es)))
      | SlField key v \<Rightarrow>
          (let (entries', es) = parse_mem_blocks ls entries in
           (entries',
            error_at P003 (''Field '' @ sq key @ '' outside of an '' @ sq ''entry'' @ '' block'')
              (sl_number l) # es))
      | _ \<Rightarrow> parse_mem_blocks ls entries)"
  by pat_completeness auto

termination
proof (relation "measure (\<lambda>(ls, entries). length ls)")
  fix l :: sidecar_line and ls entries keyword i x b y es1 rest z entries' es2
  assume "x = parse_mem_block i ls mem_block_empty" "(b, y) = x" "(es1, rest) = y"
  then have "rest = snd (snd (parse_mem_block i ls mem_block_empty))" by (metis snd_conv)
  then show "((rest, entries'), l # ls, entries) \<in> measure (\<lambda>(ls, entries). length ls)"
    using parse_mem_block_length [of i ls mem_block_empty] by simp
qed simp_all

definition parse_mem :: "string \<Rightarrow> mem_file parse_result" where
  "parse_mem input =
     res_bind (lex_sidecar input) (\<lambda>lines.
       let (h, es1, rest) = parse_mem_headers lines mem_headers_empty;
           es2 = missing_mem_headers h;
           (entries, es3) = parse_mem_blocks rest [];
           errors = es1 @ es2 @ es3 in
       if list_ex is_error errors then Inl errors
       else Inr
         \<lparr>mem_format_version = unwrap_or_default (mh_format_version h),
          mem_package = unwrap_or_default (mh_package h),
          mem_updated_at = unwrap_or_default (mh_updated_at h),
          mem_entries = entries\<rparr>)"

section \<open>The renderers\<close>

definition render_value :: "string \<Rightarrow> string" where
  "render_value v =
     (case split_char nl v of
        first # conts \<Rightarrow>
          line (''value: '' @ first) @ concat (map (\<lambda>cont. line (''  '' @ cont)) conts)
      | [] \<Rightarrow> line ''value: '')"

definition render_mem_entry :: "string \<times> mem_file_entry \<Rightarrow> string" where
  "render_mem_entry e =
     (let (key, entry) = e in
      [nl] @ line (''entry '' @ key) @
      line (''topic: '' @ mf_topic entry) @
      line (''scope: '' @ show_memory_scope (mf_scope entry)) @
      line (''ttl: '' @ show_memory_ttl (mf_ttl entry)) @
      render_value (mf_value entry) @
      line (''created_at: '' @ mf_created_at entry) @
      line (''updated_at: '' @ mf_updated_at entry))"

definition render_mem :: "mem_file \<Rightarrow> string" where
  "render_mem mem =
     line (''# agm.mem: '' @ mem_format_version mem) @
     line (''# package: '' @ mem_package mem) @
     line (''# updated_at: '' @ mem_updated_at mem) @
     concat (map render_mem_entry (mem_entries mem))"

definition render_mem_sql :: "mem_file \<Rightarrow> string" where
  "render_mem_sql mem =
     concat (map (\<lambda>(key, entry).
       line (''INSERT INTO agm_memory (package, entry_key, topic, scope, ttl, value, created_at, updated_at) VALUES ('' @
         join '', '' (map (\<lambda>s. sq (sql_escape s))
           [mem_package mem, key, mf_topic entry, show_memory_scope (mf_scope entry),
            show_memory_ttl (mf_ttl entry), mf_value entry, mf_created_at entry,
            mf_updated_at entry]) @ '');''))
       (mem_entries mem))"

section \<open>Round trip\<close>

definition mem_value_ok :: "string \<Rightarrow> bool" where
  "mem_value_ok v \<longleftrightarrow>
     list_all clean (split_char nl v) \<and> list_all (\<lambda>l. trim l \<noteq> []) (tl (split_char nl v))"

definition mem_entry_ok :: "mem_file_entry \<Rightarrow> bool" where
  "mem_entry_ok e \<longleftrightarrow>
     clean (mf_topic e) \<and> ttl_valid (mf_ttl e) \<and> clean (show_memory_ttl (mf_ttl e)) \<and>
     mem_value_ok (mf_value e) \<and> clean (mf_created_at e) \<and> clean (mf_updated_at e)"

definition mem_entry_clean :: "mem_file_entry \<Rightarrow> bool" where
  "mem_entry_clean e \<longleftrightarrow>
     clean (mf_topic e) \<and> clean (show_memory_ttl (mf_ttl e)) \<and>
     list_all clean (split_char nl (mf_value e)) \<and> clean (mf_created_at e) \<and>
     clean (mf_updated_at e)"

lemma mem_entry_ok_clean: "mem_entry_ok e \<Longrightarrow> mem_entry_clean e"
  by (simp add: mem_entry_ok_def mem_entry_clean_def mem_value_ok_def)

definition mem_file_ok :: "mem_file \<Rightarrow> bool" where
  "mem_file_ok mem \<longleftrightarrow>
     clean (mem_format_version mem) \<and> clean (mem_package mem) \<and> clean (mem_updated_at mem) \<and>
     bt_ok (mem_entries mem) \<and> list_all (\<lambda>(i, e). id_ok i \<and> mem_entry_ok e) (mem_entries mem)"

definition value_conts :: "string \<Rightarrow> string list" where
  "value_conts v = map (\<lambda>c. ''  '' @ c) (tl (split_char nl v))"

definition value_first :: "string \<Rightarrow> string" where
  "value_first v = hd (split_char nl v)"

definition mem_pairs1 :: "mem_file_entry \<Rightarrow> (string \<times> string) list" where
  "mem_pairs1 e =
     [(''topic'', mf_topic e), (''scope'', show_memory_scope (mf_scope e)),
      (''ttl'', show_memory_ttl (mf_ttl e))]"

definition mem_pairs2 :: "mem_file_entry \<Rightarrow> (string \<times> string) list" where
  "mem_pairs2 e = [(''created_at'', mf_created_at e), (''updated_at'', mf_updated_at e)]"

abbreviation field_line :: "string \<times> string \<Rightarrow> string" where
  "field_line \<equiv> (\<lambda>(k, v). k @ '': '' @ v)"

definition value_line :: "string \<Rightarrow> string" where
  "value_line v = ''value'' @ '': '' @ value_first v"

definition mem_body_lines :: "mem_file_entry \<Rightarrow> string list" where
  "mem_body_lines e =
     map field_line (mem_pairs1 e) @
     value_line (mf_value e) # value_conts (mf_value e) @
     map field_line (mem_pairs2 e)"

definition mem_entry_lines :: "string \<times> mem_file_entry \<Rightarrow> string list" where
  "mem_entry_lines e = [] # (''entry '' @ fst e) # mem_body_lines (snd e)"

definition mem_header_pairs :: "mem_file \<Rightarrow> (string \<times> string) list" where
  "mem_header_pairs mem =
     [(''agm.mem'', mem_format_version mem), (''package'', mem_package mem),
      (''updated_at'', mem_updated_at mem)]"

definition mem_header_lines :: "mem_file \<Rightarrow> string list" where
  "mem_header_lines mem = map (\<lambda>(k, v). ''# '' @ k @ '': '' @ v) (mem_header_pairs mem)"

lemma render_mem_lines:
  "render_mem mem = unlines (mem_header_lines mem @ concat (map mem_entry_lines (mem_entries mem)))"
proof -
  have conts: "concat (map (\<lambda>cont. line (''  '' @ cont)) cs) = unlines (map (\<lambda>c. ''  '' @ c) cs)" for cs
    by (induction cs) (simp_all add: line_def)
  have "render_value v = unlines (value_line v # value_conts v)" for v
    using conts by (cases "split_char nl v")
      (simp_all add: render_value_def value_line_def value_first_def value_conts_def line_def)
  then have entry: "render_mem_entry e = unlines (mem_entry_lines e)" for e
    by (cases e) (simp add: render_mem_entry_def mem_entry_lines_def mem_body_lines_def value_line_def mem_pairs1_def mem_pairs2_def line_def)
  have "concat (map render_mem_entry es) = unlines (concat (map mem_entry_lines es))" for es
    by (induction es) (simp_all add: entry)
  then show ?thesis
    by (simp add: render_mem_def mem_header_lines_def mem_header_pairs_def line_def)
qed

lemma clean_prefixed: "clean v \<Longrightarrow> tab \<notin> set p \<Longrightarrow> nl \<notin> set p \<Longrightarrow> cr \<notin> set p \<Longrightarrow> clean (p @ v)"
  by (rule clean_append)

lemma clean_field_line:
  "clean v \<Longrightarrow> tab \<notin> set k \<Longrightarrow> nl \<notin> set k \<Longrightarrow> cr \<notin> set k \<Longrightarrow> clean (k @ '': '' @ v)"
  using clean_append [of v "k @ '': ''"] by simp

lemma clean_scope: "clean (show_memory_scope x)"
  by (cases x) (simp_all add: clean_def line_ok_def)

lemma mem_entry_lines_clean:
  assumes "id_ok (fst e)" and "mem_entry_clean (snd e)" and "l \<in> set (mem_entry_lines e)"
  shows "clean l"
proof -
  note ok = assms(2) [unfolded mem_entry_clean_def]
  have decl: "clean (''entry '' @ fst e)"
    by (rule clean_append) (use assms(1) in \<open>simp_all add: id_ok_def\<close>)
  have pairs: "clean (field_line p)" if "p \<in> set (mem_pairs1 (snd e) @ mem_pairs2 (snd e))" for p
  proof -
    obtain k v where p: "p = (k, v)" by force
    have "clean v \<and> tab \<notin> set k \<and> nl \<notin> set k \<and> cr \<notin> set k"
      using that ok clean_scope unfolding p mem_pairs1_def mem_pairs2_def by auto
    then show ?thesis unfolding p prod.case by (intro clean_field_line) auto
  qed
  have parts: "clean p" if "p \<in> set (split_char nl (mf_value (snd e)))" for p
    using ok that by (simp add: list_all_iff)
  have first: "clean (value_line (mf_value (snd e)))"
    unfolding value_line_def by (rule clean_field_line) (simp_all add: value_first_def parts)
  have conts: "clean c" if c: "c \<in> set (value_conts (mf_value (snd e)))" for c
  proof -
    obtain d where d: "c = ''  '' @ d" "d \<in> set (tl (split_char nl (mf_value (snd e))))"
      using c by (auto simp: value_conts_def)
    then have "d \<in> set (split_char nl (mf_value (snd e)))"
      by (meson list.set_sel(2) split_char_not_Nil)
    then show ?thesis unfolding d(1) by (intro clean_append parts) auto
  qed
  show ?thesis
    using assms(3) decl pairs first conts unfolding mem_entry_lines_def mem_body_lines_def by auto
qed

lemma mem_header_lines_clean:
  assumes "mem_file_ok mem" and "l \<in> set (mem_header_lines mem)"
  shows "clean l"
proof -
  obtain k v where kv: "l = ''# '' @ k @ '': '' @ v" "(k, v) \<in> set (mem_header_pairs mem)"
    using assms(2) by (auto simp: mem_header_lines_def)
  have "clean v \<and> tab \<notin> set k \<and> nl \<notin> set k \<and> cr \<notin> set k"
    using kv(2) assms(1) unfolding mem_header_pairs_def mem_file_ok_def by auto
  then show ?thesis using clean_append [of v "''# '' @ k @ '': ''"] kv(1) by simp
qed

lemma mem_lines_clean:
  assumes "mem_file_ok mem"
    and "l \<in> set (mem_header_lines mem @ concat (map mem_entry_lines (mem_entries mem)))"
  shows "clean l"
proof -
  have "clean l'" if "e \<in> set (mem_entries mem)" "l' \<in> set (mem_entry_lines e)" for e l'
    using that assms(1)
    by (intro mem_entry_lines_clean [of e] mem_entry_ok_clean) (auto simp: mem_file_ok_def list_all_iff)
  then show ?thesis using assms mem_header_lines_clean by auto
qed

subsection \<open>One block\<close>

declare parse_mem_block.simps(2) [simp del]

lemma mem_field_number: "fst (mem_field i k v n b) = fst (mem_field i k v m b)"
  by (simp add: mem_field_def split: sum.split)

lemma mem_field_keys:
  "mem_field i ''topic'' v n b = (b\<lparr>mb_topic := Some v\<rparr>, [])"
  "mem_field i ''scope'' (show_memory_scope x) n b = (b\<lparr>mb_scope := Some x\<rparr>, [])"
  "ttl_valid t \<Longrightarrow> mem_field i ''ttl'' (show_memory_ttl t) n b = (b\<lparr>mb_ttl := Some t\<rparr>, [])"
  "mem_field i ''created_at'' v n b = (b\<lparr>mb_created_at := Some v\<rparr>, [])"
  "mem_field i ''updated_at'' v n b = (b\<lparr>mb_updated_at := Some v\<rparr>, [])"
  by (simp_all add: mem_field_def codec)

definition mem_pair_ok :: "string \<Rightarrow> string \<times> string \<Rightarrow> bool" where
  "mem_pair_ok i p \<longleftrightarrow>
     is_field_key (fst p) \<and> fst p \<noteq> ''state'' \<and> fst p \<noteq> ''entry'' \<and> fst p \<noteq> ''value'' \<and>
     (\<forall>n b. snd (mem_field i (fst p) (snd p) n b) = [])"

lemma mem_keys [simp]:
  "is_field_key ''topic''" "is_field_key ''scope''" "is_field_key ''ttl''" "is_field_key ''value''"
  "is_field_key ''created_at''" "is_field_key ''updated_at''"
  by code_simp+

lemma mem_pairs_ok:
  assumes "mem_entry_ok e"
  shows "list_all (mem_pair_ok i) (mem_pairs1 e)" and "list_all (mem_pair_ok i) (mem_pairs2 e)"
proof -
  have "ttl_valid (mf_ttl e)" using assms by (simp add: mem_entry_ok_def)
  then show "list_all (mem_pair_ok i) (mem_pairs1 e)" "list_all (mem_pair_ok i) (mem_pairs2 e)"
    unfolding mem_pairs1_def mem_pairs2_def list.pred_inject mem_pair_ok_def fst_conv snd_conv
    by (simp_all add: mem_field_keys)
qed

lemma parse_mem_pairs:
  "list_all (mem_pair_ok i) ps \<Longrightarrow>
   parse_mem_block i (number_lines n (map field_line ps) @ rest) b =
     parse_mem_block i rest (fold (\<lambda>(k, v) b. fst (mem_field i k v 0 b)) ps b)"
proof (induction ps arbitrary: n b)
  case (Cons p ps)
  obtain k v where p: "p = (k, v)" by force
  with Cons.prems have ok: "is_field_key k" "k \<noteq> ''state''" "k \<noteq> ''entry''" "k \<noteq> ''value''"
    "snd (mem_field i k v n b) = []"
    by (auto simp: mem_pair_ok_def)
  have ps: "list_all (mem_pair_ok i) ps" using Cons.prems by simp
  have f: "mem_field i k v n b = (fst (mem_field i k v 0 b), [])"
    using ok(5) mem_field_number [of i k v n b 0] by (simp add: prod_eq_iff)
  have "parse_mem_block i (lex_line n (k @ '': '' @ v) # ls) b =
      parse_mem_block i ls (fst (mem_field i k v 0 b))" for ls
    using ok(4) f classify_field_line [OF ok(1-3), of v]
    by (simp add: lex_line_def parse_mem_block.simps(2) split: prod.split)
  then have "parse_mem_block i (number_lines n (map field_line (p # ps)) @ rest) b =
      parse_mem_block i
        (number_lines (Suc n) (map field_line ps) @ rest) (fst (mem_field i k v 0 b))"
    by (simp only: p list.map prod.case number_lines.simps append_Cons)
  then show ?case
    using Cons.IH [OF ps] by (simp add: p)
qed simp

lemma take_continuations_lines:
  assumes "list_all (\<lambda>l. trim l \<noteq> []) cs" and "\<forall>c. sl_kind r \<noteq> SlContinuation c"
  shows "take_continuations (number_lines n (map (\<lambda>c. ''  '' @ c) cs) @ r # rest) v =
    (v @ concat (map (\<lambda>c. nl # c) cs), r # rest)"
  using assms(1)
proof (induction cs arbitrary: n v)
  case Nil
  then show ?case using assms(2) by (simp split: sidecar_line_kind.split)
next
  case (Cons c cs)
  then have "classify_sidecar_line (''  '' @ c) = SlContinuation c"
    by (intro classify_continuation_line) simp
  then show ?case using Cons by simp
qed

lemma join_nl: "ps \<noteq> [] \<Longrightarrow> join [nl] ps = hd ps @ concat (map (\<lambda>c. nl # c) (tl ps))"
proof (induction ps)
  case (Cons p ps)
  then show ?case by (cases ps) auto
qed simp

lemma value_parts: "value_first v @ concat (map (\<lambda>c. nl # c) (tl (split_char nl v))) = v"
  using join_nl [of "split_char nl v"] join_split_char [of nl v] by (simp add: value_first_def)

definition mem_block_of :: "mem_file_entry \<Rightarrow> mem_block" where
  "mem_block_of e =
     \<lparr>mb_topic = Some (mf_topic e), mb_scope = Some (mf_scope e), mb_ttl = Some (mf_ttl e),
      mb_value = Some (mf_value e), mb_created_at = Some (mf_created_at e),
      mb_updated_at = Some (mf_updated_at e)\<rparr>"

lemma mem_block_end: "at_block_end rest \<Longrightarrow> parse_mem_block i rest b = (b, [], rest)"
  by (auto simp: at_block_end_def parse_mem_block.simps(2) split: list.splits)

lemma parse_mem_block_lines:
  assumes "mem_entry_ok e" and "at_block_end rest"
  shows "parse_mem_block i (number_lines n (mem_body_lines e) @ rest) mem_block_empty =
    (mem_block_of e, [], rest)"
proof -
  let ?b1 = "fold (\<lambda>(k, v) b. fst (mem_field i k v 0 b)) (mem_pairs1 e) mem_block_empty"
  let ?b2 = "?b1\<lparr>mb_value := Some (mf_value e)\<rparr>"
  have ttl: "ttl_valid (mf_ttl e)" and v: "list_all (\<lambda>l. trim l \<noteq> []) (tl (split_char nl (mf_value e)))"
    using assms(1) by (auto simp: mem_entry_ok_def mem_value_ok_def)
  have "parse_mem_block i (lex_line m (value_line (mf_value e)) #
      number_lines k (value_conts (mf_value e)) @ number_lines l (map field_line (mem_pairs2 e)) @ rest) b =
    parse_mem_block i (number_lines l (map field_line (mem_pairs2 e)) @ rest)
      (b\<lparr>mb_value := Some (mf_value e)\<rparr>)" for m k l b
  proof -
    have kind: "sl_kind (lex_line l (''created_at'' @ '': '' @ mf_created_at e)) =
        SlField ''created_at'' (mf_created_at e)"
      unfolding lex_line_kind by (intro classify_field_line) simp_all
    obtain r ls where r: "number_lines l (map field_line (mem_pairs2 e)) = r # ls"
      "sl_kind r = SlField ''created_at'' (mf_created_at e)"
      using kind by (simp only: mem_pairs2_def list.map prod.case number_lines.simps)
    have tail: "number_lines l (map field_line (mem_pairs2 e)) @ rest = r # (ls @ rest)"
      unfolding r(1) by simp
    have "take_continuations (number_lines k (value_conts (mf_value e)) @
        number_lines l (map field_line (mem_pairs2 e)) @ rest) (value_first (mf_value e)) =
      (mf_value e, number_lines l (map field_line (mem_pairs2 e)) @ rest)"
      unfolding tail value_conts_def
      by (subst take_continuations_lines [OF v]) (simp_all add: value_parts r(2))
    moreover have "classify_sidecar_line (value_line (mf_value e)) =
        SlField ''value'' (value_first (mf_value e))"
      unfolding value_line_def by (intro classify_field_line) simp_all
    ultimately show ?thesis
      by (simp add: parse_mem_block.simps(2) [of _ "lex_line _ _"])
  qed
  moreover have "fold (\<lambda>(k, v) b. fst (mem_field i k v 0 b)) (mem_pairs2 e) ?b2 = mem_block_of e"
    unfolding mem_pairs1_def mem_pairs2_def fold_simps prod.case mem_field_keys(1,2,4,5)
      mem_field_keys(3) [OF ttl] fst_conv
    by (simp add: mem_block_empty_def mem_block_of_def)
  ultimately show ?thesis
    by (simp only: mem_body_lines_def number_lines_append append_assoc number_lines.simps
        append_Cons [of "lex_line _ _"] parse_mem_pairs [OF mem_pairs_ok(1) [OF assms(1)]]
        parse_mem_pairs [OF mem_pairs_ok(2) [OF assms(1)]] mem_block_end [OF assms(2)])
qed

lemma finish_mem_block_of:
  "bt_get entries i = None \<Longrightarrow>
     finish_mem_block i n (mem_block_of e) entries = (bt_insert i e entries, [])"
  by (cases e) (simp add: finish_mem_block_def mem_block_of_def)

subsection \<open>The file\<close>

lemma at_block_end_entries: "at_block_end (number_lines n (concat (map mem_entry_lines es)))"
  by (cases es) (simp_all add: at_block_end_def mem_entry_lines_def)

lemma parse_mem_blocks_lines:
  assumes "list_all (\<lambda>(i, e). id_ok i \<and> mem_entry_ok e) es" and "bt_ok (entries @ es)"
  shows "parse_mem_blocks (number_lines n (concat (map mem_entry_lines es))) entries = (entries @ es, [])"
  using assms
proof (induction es arbitrary: n entries)
  case (Cons p es)
  obtain i e where p: "p = (i, e)" by force
  have ok: "id_ok i" "mem_entry_ok e" and rest: "list_all (\<lambda>(i, e). id_ok i \<and> mem_entry_ok e) es"
    using Cons.prems(1) p by auto
  have less: "a < i" if "a \<in> fst ` set entries" for a
    using Cons.prems(2) that by (auto simp: bt_ok_def p sorted_wrt_append)
  then have none: "bt_get entries i = None" by (force simp: bt_get_None)
  have ins: "bt_insert i e entries = entries @ [(i, e)]"
    using less by (rule bt_insert_append)
  let ?rest = "number_lines (Suc (Suc n) + length (mem_body_lines e)) (concat (map mem_entry_lines es))"
  have lines: "number_lines n (concat (map mem_entry_lines (p # es))) =
      lex_line n [] # lex_line (Suc n) (''entry '' @ i) #
        (number_lines (Suc (Suc n)) (mem_body_lines e) @ ?rest)"
    by (simp add: p mem_entry_lines_def number_lines_append)
  have "classify_sidecar_line (''entry '' @ i) = SlBlockDecl ''entry'' i"
    using ok(1) by (intro classify_block_line) (simp_all add: id_ok_def)
  then have "parse_mem_blocks (number_lines n (concat (map mem_entry_lines (p # es)))) entries =
      parse_mem_blocks ?rest (entries @ [(i, e)])"
    unfolding lines
    using parse_mem_block_lines [OF ok(2) at_block_end_entries, of i] finish_mem_block_of [OF none] ins
    by (simp add: prod.case_eq_if)
  also have "\<dots> = ((entries @ [(i, e)]) @ es, [])"
    by (rule Cons.IH [OF rest]) (use Cons.prems(2) p in simp)
  finally show ?case by (simp add: p)
qed simp

lemma mem_header_keys [simp]: "is_header_key ''agm.mem''"
  by code_simp

lemma parse_mem_header_pairs:
  "list_all (\<lambda>(k, v). is_header_key k \<and> (\<forall>n h. snd (mem_header_field k v n h) = [])) ps \<Longrightarrow>
   parse_mem_headers (number_lines n (map (\<lambda>(k, v). ''# '' @ k @ '': '' @ v) ps) @ rest) h =
     parse_mem_headers rest (fold (\<lambda>(k, v) h. fst (mem_header_field k v 0 h)) ps h)"
proof (induction ps arbitrary: n h)
  case (Cons p ps)
  obtain k v where p: "p = (k, v)" by force
  with Cons.prems have key: "is_header_key k" "snd (mem_header_field k v n h) = []" by auto
  have "fst (mem_header_field k v n h) = fst (mem_header_field k v 0 h)"
    by (simp add: mem_header_field_def)
  with key(2) have f: "mem_header_field k v n h = (fst (mem_header_field k v 0 h), [])"
    by (simp add: prod_eq_iff)
  have "parse_mem_headers (lex_line n (''# '' @ k @ '': '' @ v) # ls) h =
      parse_mem_headers ls (fst (mem_header_field k v 0 h))" for ls
    using f classify_header_line [OF key(1), of v] by (simp add: lex_line_def split: prod.split)
  then have "parse_mem_headers (number_lines n (map (\<lambda>(k, v). ''# '' @ k @ '': '' @ v) (p # ps)) @ rest) h =
      parse_mem_headers (number_lines (Suc n) (map (\<lambda>(k, v). ''# '' @ k @ '': '' @ v) ps) @ rest)
        (fst (mem_header_field k v 0 h))"
    by (simp only: p list.map prod.case number_lines.simps append_Cons)
  also have "\<dots> = parse_mem_headers rest
        (fold (\<lambda>(k, v) h. fst (mem_header_field k v 0 h)) ps (fst (mem_header_field k v 0 h)))"
    by (rule Cons.IH) (use Cons.prems in simp)
  finally show ?case by (simp add: p)
qed simp

definition mem_headers_of :: "mem_file \<Rightarrow> mem_headers" where
  "mem_headers_of mem =
     \<lparr>mh_format_version = Some (mem_format_version mem), mh_package = Some (mem_package mem),
      mh_updated_at = Some (mem_updated_at mem)\<rparr>"

lemma mem_header_field_keys:
  "mem_header_field ''agm.mem'' v n h = (h\<lparr>mh_format_version := Some v\<rparr>, [])"
  "mem_header_field ''package'' v n h = (h\<lparr>mh_package := Some v\<rparr>, [])"
  "mem_header_field ''updated_at'' v n h = (h\<lparr>mh_updated_at := Some v\<rparr>, [])"
  by (simp_all add: mem_header_field_def)

lemma parse_mem_headers_lines:
  assumes "list_all (\<lambda>(i, e). id_ok i) es"
  shows "\<exists>rest. parse_mem_headers
      (number_lines n (mem_header_lines mem @ concat (map mem_entry_lines es))) mem_headers_empty =
      (mem_headers_of mem, [], rest) \<and>
      parse_mem_blocks rest [] = parse_mem_blocks (number_lines (n + 3) (concat (map mem_entry_lines es))) []"
proof -
  have "list_all (\<lambda>(k, v). is_header_key k \<and> (\<forall>n h. snd (mem_header_field k v n h) = [])) (mem_header_pairs mem)"
    unfolding mem_header_pairs_def list.pred_inject prod.case mem_header_field_keys snd_conv by simp
  moreover have "fold (\<lambda>(k, v) h. fst (mem_header_field k v 0 h)) (mem_header_pairs mem)
      mem_headers_empty = mem_headers_of mem"
    unfolding mem_header_pairs_def fold_simps prod.case mem_header_field_keys fst_conv
    by (simp add: mem_headers_empty_def mem_headers_of_def)
  moreover have "length (mem_header_lines mem) = 3"
    by (simp add: mem_header_lines_def mem_header_pairs_def)
  ultimately have head: "parse_mem_headers
      (number_lines n (mem_header_lines mem @ concat (map mem_entry_lines es))) mem_headers_empty =
      parse_mem_headers (number_lines (n + 3) (concat (map mem_entry_lines es))) (mem_headers_of mem)"
    using parse_mem_header_pairs by (simp only: number_lines_append mem_header_lines_def)
  show ?thesis
  proof (cases es)
    case Nil
    then show ?thesis using head by simp
  next
    case (Cons e es')
    have "id_ok (fst e)" using assms Cons by (auto simp: case_prod_beta)
    then have "classify_sidecar_line (''entry '' @ fst e) = SlBlockDecl ''entry'' (fst e)"
      by (intro classify_block_line) (simp_all add: id_ok_def)
    then show ?thesis using head Cons by (simp add: mem_entry_lines_def)
  qed
qed

section \<open>Properties\<close>

lemma parse_render_mem:
  assumes "mem_file_ok mem"
  shows "parse_mem (render_mem mem) = Inr mem"
proof -
  let ?ls = "mem_header_lines mem @ concat (map mem_entry_lines (mem_entries mem))"
  have lex: "lex_sidecar (render_mem mem) = Inr (number_lines 1 ?ls)"
    unfolding render_mem_lines
    using mem_lines_clean [OF assms] by (intro lex_sidecar_unlines) blast
  have ok: "list_all (\<lambda>(i, e). id_ok i \<and> mem_entry_ok e) (mem_entries mem)" "bt_ok (mem_entries mem)"
    using assms by (auto simp: mem_file_ok_def)
  then have "list_all (\<lambda>(i, e). id_ok i) (mem_entries mem)" by (auto simp: list_all_iff)
  from parse_mem_headers_lines [OF this, of 1 mem] obtain rest where
    h: "parse_mem_headers (number_lines 1 ?ls) mem_headers_empty = (mem_headers_of mem, [], rest)" and
    r: "parse_mem_blocks rest [] =
      parse_mem_blocks (number_lines 4 (concat (map mem_entry_lines (mem_entries mem)))) []"
    by auto
  have "parse_mem_blocks rest [] = (mem_entries mem, [])"
    unfolding r using parse_mem_blocks_lines [OF ok(1), of "[]"] ok(2) by simp
  moreover have "missing_mem_headers (mem_headers_of mem) = []"
    by (simp add: missing_mem_headers_def mem_headers_of_def)
  ultimately show ?thesis
    unfolding parse_mem_def lex res_bind_simps h
    by (simp add: mem_headers_of_def unwrap_or_default_def)
qed

text \<open>C23: A memory file whose strings fit on one line and whose multi-line values have no blank
  line after the first survives a save and a load: parsing the rendered text gives the
  same file, values with their line breaks included.\<close>

theorem mem_file_roundtrip:
  assumes "mem_file_ok mem"
  shows "parse_mem (render_mem mem) = Inr mem"
  by (rule parse_render_mem [OF assms])

definition sample_mem :: "string \<Rightarrow> mem_file" where
  "sample_mem v =
     \<lparr>mem_format_version = ''1.0'', mem_package = ''p'', mem_updated_at = ''T1'',
      mem_entries = [(''k'', \<lparr>mf_topic = ''infra'', mf_scope = ScopeNode, mf_ttl = TtlPermanent,
        mf_value = v, mf_created_at = ''T0'', mf_updated_at = ''T1''\<rparr>)]\<rparr>"

lemma mem_file_roundtrip_witness:
  "parse_mem (render_mem (sample_mem (''one'' @ [nl] @ ''two''))) = Inr (sample_mem (''one'' @ [nl] @ ''two''))"
proof (rule mem_file_roundtrip)
  show "mem_file_ok (sample_mem (''one'' @ [nl] @ ''two''))" by code_simp
qed

section \<open>Values with a blank line\<close>

lemma fold_mem_pairs1:
  assumes "mem_entry_ok e"
  shows "fold (\<lambda>(k, v) b. fst (mem_field i k v 0 b)) (mem_pairs1 e) mem_block_empty =
    mem_block_empty\<lparr>mb_topic := Some (mf_topic e), mb_scope := Some (mf_scope e), mb_ttl := Some (mf_ttl e)\<rparr>"
proof -
  have ttl: "ttl_valid (mf_ttl e)" using assms by (simp add: mem_entry_ok_def)
  show ?thesis
    unfolding mem_pairs1_def fold_simps prod.case mem_field_keys(1,2) mem_field_keys(3) [OF ttl] fst_conv
    by simp
qed

lemma parse_mem_block_blank:
  assumes "mem_entry_ok e" and "\<exists>l \<in> set (tl (split_char nl v)). trim l = []"
  shows "mb_created_at (fst (parse_mem_block i
      (number_lines n (mem_body_lines (e\<lparr>mf_value := v\<rparr>)) @ rest) mem_block_empty)) = None"
proof -
  obtain cs1 c cs2 where split: "tl (split_char nl v) = cs1 @ c # cs2" "trim c = []"
    "\<forall>l \<in> set cs1. trim l \<noteq> []"
    using split_list_first_prop [OF assms(2)] by blast
  then have conts: "value_conts v = map (\<lambda>c. ''  '' @ c) cs1 @ (''  '' @ c) # map (\<lambda>c. ''  '' @ c) cs2"
    by (simp add: value_conts_def)
  have step: "mb_created_at (fst (parse_mem_block i (lex_line m (value_line v) #
      number_lines k (value_conts v) @ rest') b)) = mb_created_at b" for m k rest' b
  proof -
    let ?r = "lex_line (k + length cs1) (''  '' @ c)"
    let ?rest = "number_lines (Suc (k + length cs1)) (map (\<lambda>c. ''  '' @ c) cs2) @ rest'"
    have blank: "sl_kind ?r = SlBlank"
      unfolding lex_line_kind by (rule classify_continuation_blank [OF split(2)])
    have "number_lines k (value_conts v) @ rest' =
        number_lines k (map (\<lambda>c. ''  '' @ c) cs1) @ ?r # ?rest"
      by (simp only: conts number_lines_append append_assoc length_map number_lines.simps
          append_Cons [of "lex_line _ _"])
    moreover have "list_all (\<lambda>l. trim l \<noteq> []) cs1" using split(3) by (simp add: list_all_iff)
    ultimately have "take_continuations (number_lines k (value_conts v) @ rest') w =
        (w @ concat (map (\<lambda>c. nl # c) cs1), ?r # ?rest)" for w
      using take_continuations_lines [of cs1 ?r k ?rest w] blank by simp
    moreover have "classify_sidecar_line (value_line v) = SlField ''value'' (value_first v)"
      unfolding value_line_def by (intro classify_field_line) simp_all
    moreover have "parse_mem_block i (?r # ?rest) b' = (b', [], ?r # ?rest)" for b'
      by (rule mem_block_end) (simp only: at_block_end_def list.case blank)
    ultimately show ?thesis
      by (simp add: parse_mem_block.simps(2) [of _ "lex_line m _"])
  qed
  have ok: "mem_pairs1 (e\<lparr>mf_value := v\<rparr>) = mem_pairs1 e" "mf_value (e\<lparr>mf_value := v\<rparr>) = v"
    by (simp_all add: mem_pairs1_def)
  show ?thesis
    unfolding mem_body_lines_def ok number_lines_append append_assoc number_lines.simps
      append_Cons [of "lex_line _ _"] parse_mem_pairs [OF mem_pairs_ok(1) [OF assms(1)]] step
      fold_mem_pairs1 [OF assms(1)]
    by (simp add: mem_block_empty_def)
qed

lemma P001_error: "default_severity P001 = SevError"
  by simp

lemma finish_mem_missing:
  "mb_created_at b = None \<Longrightarrow> list_ex is_error (snd (finish_mem_block i n b entries))"
  by (auto simp: finish_mem_block_def missing_mem_fields_def split: option.split prod.split)

text \<open>A memory value with a blank line inside (any line after its first that is empty or
  only whitespace) makes the rendered file unreadable, although the renderer's comment
  promises a round trip: loading it is an error and all entries are lost.\<close>

lemma mem_blank_line_unreadable:
  assumes "mem_file_ok mem" and "mem_entries mem = [(i, e)]"
    and "list_all clean (split_char nl v)" and "\<exists>l \<in> set (tl (split_char nl v)). trim l = []"
  shows "\<exists>es. parse_mem (render_mem (mem\<lparr>mem_entries := [(i, e\<lparr>mf_value := v\<rparr>)]\<rparr>)) = Inl es \<and> es \<noteq> []"
proof -
  let ?mem = "mem\<lparr>mem_entries := [(i, e\<lparr>mf_value := v\<rparr>)]\<rparr>"
  have ok: "id_ok i" "mem_entry_ok e" using assms(1,2) by (auto simp: mem_file_ok_def)
  let ?e = "(i, e\<lparr>mf_value := v\<rparr>)"
  have header: "mem_header_lines ?mem = mem_header_lines mem"
    by (simp add: mem_header_lines_def mem_header_pairs_def)
  have "mem_entry_clean (e\<lparr>mf_value := v\<rparr>)"
    using mem_entry_ok_clean [OF ok(2)] assms(3) by (simp add: mem_entry_clean_def)
  then have clean: "clean l" if "l \<in> set (mem_header_lines mem @ mem_entry_lines ?e)" for l
    using that mem_entry_lines_clean [of ?e] ok(1) mem_header_lines_clean [OF assms(1)] by auto
  have lines: "concat (map mem_entry_lines (mem_entries ?mem)) = mem_entry_lines ?e" by simp
  have lex: "lex_sidecar (render_mem ?mem) =
      Inr (number_lines 1 (mem_header_lines ?mem @ concat (map mem_entry_lines [?e])))"
    using lex_sidecar_unlines [of "mem_header_lines mem @ mem_entry_lines ?e"] clean
    unfolding render_mem_lines header lines by simp
  have "list_all (\<lambda>(i, e). id_ok i) [?e]" using ok(1) by simp
  from parse_mem_headers_lines [OF this, of 1 ?mem] obtain rest where
    h: "parse_mem_headers (number_lines 1 (mem_header_lines ?mem @ concat (map mem_entry_lines [?e])))
      mem_headers_empty = (mem_headers_of ?mem, [], rest)" and
    r: "parse_mem_blocks rest [] = parse_mem_blocks (number_lines 4 (mem_entry_lines ?e)) []"
    by auto
  have "classify_sidecar_line (''entry '' @ i) = SlBlockDecl ''entry'' i"
    using ok(1) by (intro classify_block_line) (simp_all add: id_ok_def)
  moreover have "mb_created_at (fst (parse_mem_block i
      (number_lines 6 (mem_body_lines (e\<lparr>mf_value := v\<rparr>)) @ []) mem_block_empty)) = None"
    by (rule parse_mem_block_blank [OF ok(2) assms(4)])
  ultimately have "list_ex is_error (snd (parse_mem_blocks rest []))"
    using finish_mem_missing unfolding r mem_entry_lines_def
    by (simp add: case_prod_beta eval_nat_numeral)
  then have "\<exists>es. parse_mem (render_mem ?mem) = Inl es \<and> list_ex is_error es"
    unfolding parse_mem_def lex res_bind_simps h by (simp add: case_prod_beta Let_def)
  then show ?thesis by auto
qed

lemma mem_blank_line_unreadable_witness:
  "\<exists>es. parse_mem (render_mem (sample_mem (''one'' @ [nl, nl] @ ''three''))) = Inl es \<and> es \<noteq> []"
proof -
  have "mem_file_ok (sample_mem ''x'')" by code_simp
  moreover have "list_all clean (split_char nl (''one'' @ [nl, nl] @ ''three''))" by code_simp
  moreover have "\<exists>l \<in> set (tl (split_char nl (''one'' @ [nl, nl] @ ''three''))). trim l = []" by code_simp
  ultimately show ?thesis
    using mem_blank_line_unreadable [of "sample_mem ''x''", OF _ _ _ _] by (simp add: sample_mem_def)
qed

end
