(* ===== verification/Digraph.thy ===== *)
theory Digraph
  imports Model_Node "HOL-Library.Multiset"
begin

text \<open>
  The directed graphs of the \<open>petgraph\<close> crate, as far as \<open>crates/agm-core/src/graph/\<close>
  uses them. A graph is its node weights, a node index being a position in them, and its
  edges in the order they were added (the order of \<open>edge_references\<close>). What the crate
  computes on a graph (the order in which the edges of one node are visited, a topological
  order, the strongly connected components) is third-party code: it is the parameter
  \<open>petgraph\<close> of every definition that uses it, and \<open>petgraph_ok\<close> states the documented
  behaviour. \<open>pg_ref\<close> is an instance that meets it. The depth-first search of
  \<open>graph/query.rs\<close> is here too, with its correctness.
\<close>

section \<open>Graphs\<close>

type_synonym 'e edge = "nat \<times> nat \<times> 'e"

record 'e digraph =
  dg_nodes :: "string list"
  dg_edges :: "'e edge list"

definition dg_empty :: "'e digraph" where
  "dg_empty = \<lparr>dg_nodes = [], dg_edges = []\<rparr>"

definition add_node :: "string \<Rightarrow> 'e digraph \<Rightarrow> 'e digraph \<times> nat" where
  "add_node w g = (g\<lparr>dg_nodes := dg_nodes g @ [w]\<rparr>, length (dg_nodes g))"

definition add_edge :: "nat \<Rightarrow> nat \<Rightarrow> 'e \<Rightarrow> 'e digraph \<Rightarrow> 'e digraph" where
  "add_edge s t k g = g\<lparr>dg_edges := dg_edges g @ [(s, t, k)]\<rparr>"

definition digraph_ok :: "'e digraph \<Rightarrow> bool" where
  "digraph_ok g \<longleftrightarrow>
     (\<forall>(s, t, k) \<in> set (dg_edges g). s < length (dg_nodes g) \<and> t < length (dg_nodes g))"

definition arcs :: "'e digraph \<Rightarrow> (nat \<times> nat) list" where
  "arcs g = map (\<lambda>(s, t, k). (s, t)) (dg_edges g)"

section \<open>Depth-first search\<close>

text \<open>
  The loop of \<open>transitive_deps\<close>: the stack's top is popped, each arc out of it whose end
  is not yet visited pushes that end. \<open>visit\<close> is the inner loop (\<open>visited.insert\<close>
  returns whether the element is new).
\<close>

fun visit :: "(nat \<times> nat) list \<Rightarrow> nat \<Rightarrow> nat list \<Rightarrow> nat list \<Rightarrow> nat list \<times> nat list" where
  "visit [] c stack visited = (stack, visited)"
| "visit ((s, t) # as) c stack visited =
     (if s = c \<and> t \<notin> set visited then visit as c (t # stack) (t # visited)
      else visit as c stack visited)"

lemma visit_visited: "set (snd (visit as c stack visited)) = set visited \<union> {t. (c, t) \<in> set as}"
  by (induction as c stack visited rule: visit.induct) auto

lemma visit_stack:
  "set (fst (visit as c stack visited)) = set stack \<union> ({t. (c, t) \<in> set as} - set visited)"
  by (induction as c stack visited rule: visit.induct) auto

lemma visit_set:
  assumes "visit as c stack visited = (stack', visited')"
  shows "set visited' = set visited \<union> {t. (c, t) \<in> set as}"
    and "set stack' = set stack \<union> ({t. (c, t) \<in> set as} - set visited)"
  using visit_visited [of as c stack visited] visit_stack [of as c stack visited] assms by simp_all

lemma visit_distinct: "distinct visited \<Longrightarrow> distinct (snd (visit as c stack visited))"
  by (induction as c stack visited rule: visit.induct) auto

lemma visit_count:
  "finite V \<Longrightarrow> snd ` set as \<subseteq> V \<Longrightarrow>
     card (V - set (snd (visit as c stack visited))) + length (fst (visit as c stack visited)) =
     card (V - set visited) + length stack"
proof (induction as c stack visited rule: visit.induct)
  case (2 s t as c stack visited)
  show ?case
  proof (cases "s = c \<and> t \<notin> set visited")
    case True
    then have "t \<in> V - set visited" and "finite (V - set visited)"
      using 2 by auto
    moreover have "V - set (t # visited) = (V - set visited) - {t}" by auto
    ultimately have "card (V - set visited) = Suc (card (V - set (t # visited)))"
      using card.remove [of "V - set visited" t] by simp
    then show ?thesis using 2 True by simp
  next
    case False
    then have "visit ((s, t) # as) c stack visited = visit as c stack visited" by auto
    then show ?thesis using "2.IH"(2) [OF False] "2.prems" by simp
  qed
qed simp

function dfs :: "(nat \<times> nat) list \<Rightarrow> nat list \<Rightarrow> nat list \<Rightarrow> nat list" where
  "dfs as [] visited = visited"
| "dfs as (c # stack) visited =
     (let (stack', visited') = visit as c stack visited in dfs as stack' visited')"
  by pat_completeness auto

termination
proof (relation "measure (\<lambda>(as, stack, visited). card (snd ` set as - set visited) + length stack)")
  fix as c stack visited x stack' visited'
  assume x: "x = visit as c stack visited" "(stack', visited') = x"
  have "card (snd ` set as - set visited') + length stack' =
      card (snd ` set as - set visited) + length stack"
    using visit_count [of "snd ` set as" as c stack visited] x by (metis List.finite_set
        finite_imageI fst_conv order_refl snd_conv)
  then show "((as, stack', visited'), as, c # stack, visited) \<in>
      measure (\<lambda>(as, stack, visited). card (snd ` set as - set visited) + length stack)"
    by simp
qed simp

lemma dfs_visited:
  assumes "set stack \<subseteq> set visited"
    and "\<And>u t. u \<in> set visited \<Longrightarrow> u \<notin> set stack \<Longrightarrow> (u, t) \<in> set as \<Longrightarrow> t \<in> set visited"
  shows "set (dfs as stack visited) = (set as)\<^sup>* `` set visited"
  using assms
proof (induction as stack visited rule: dfs.induct)
  case (1 as visited)
  have "y \<in> set visited" if "(x, y) \<in> (set as)\<^sup>*" and "x \<in> set visited" for x y
    using that by (induction rule: rtrancl_induct) (use 1 in auto)
  then show ?case by auto
next
  case (2 as c stack visited)
  obtain stack' visited' where v: "visit as c stack visited = (stack', visited')" by force
  note sets = visit_set [OF v]
  have "set (dfs as stack' visited') = (set as)\<^sup>* `` set visited'"
  proof (rule "2.IH" [OF v [symmetric] refl])
    show "set stack' \<subseteq> set visited'" using sets "2.prems"(1) by auto
    show "t \<in> set visited'" if "u \<in> set visited'" "u \<notin> set stack'" "(u, t) \<in> set as" for u t
      using that sets "2.prems" by (cases "u = c") auto
  qed
  moreover have "(set as)\<^sup>* `` set visited' = (set as)\<^sup>* `` set visited"
  proof -
    have "set visited' \<subseteq> (set as)\<^sup>* `` set visited"
      using sets "2.prems"(1) by auto
    moreover have "set visited \<subseteq> set visited'" using sets by auto
    ultimately show ?thesis by (blast intro: rtrancl_trans)
  qed
  ultimately show ?case using v by simp
qed

lemma dfs_distinct: "distinct visited \<Longrightarrow> distinct (dfs as stack visited)"
proof (induction as stack visited rule: dfs.induct)
  case (2 as c stack visited)
  then show ?case
    using visit_distinct [of visited as c stack]
    by (cases "visit as c stack visited") simp
qed simp

lemma dfs_reach: "set (dfs as [i] [i]) = {j. (i, j) \<in> (set as)\<^sup>*}"
  using dfs_visited [of "[i]" "[i]" as] by auto

section \<open>What the code relies on in petgraph\<close>

text \<open>
  \<open>pg_out g\<close> and \<open>pg_in g\<close> list the edges of \<open>g\<close> so that the edges leaving (entering) a
  node stand in the order \<open>edges(n)\<close> and \<open>edges_directed(n, Incoming)\<close> return
  them; \<open>pg_toposort\<close> and \<open>pg_tarjan\<close> are \<open>algo::toposort\<close> and
  \<open>algo::tarjan_scc\<close>.
\<close>

record 'e petgraph =
  pg_out :: "'e digraph \<Rightarrow> 'e edge list"
  pg_in :: "'e digraph \<Rightarrow> 'e edge list"
  pg_toposort :: "unit digraph \<Rightarrow> nat list option"
  pg_tarjan :: "unit digraph \<Rightarrow> nat list list"

definition topo_order :: "(nat \<times> nat) set \<Rightarrow> nat list \<Rightarrow> bool" where
  "topo_order r xs \<longleftrightarrow> (\<forall>(s, t) \<in> r. \<exists>ys zs. xs = ys @ s # zs \<and> t \<in> set zs)"

definition petgraph_ok :: "'e petgraph \<Rightarrow> bool" where
  "petgraph_ok pg \<longleftrightarrow>
     (\<forall>g. mset (pg_out pg g) = mset (dg_edges g) \<and> mset (pg_in pg g) = mset (dg_edges g)) \<and>
     (\<forall>g. digraph_ok g \<longrightarrow>
        (case pg_toposort pg g of
           None \<Rightarrow> \<not> acyclic (set (arcs g))
         | Some xs \<Rightarrow> mset xs = mset [0..<length (dg_nodes g)] \<and> topo_order (set (arcs g)) xs)) \<and>
     (\<forall>g. digraph_ok g \<longrightarrow>
        mset (concat (pg_tarjan pg g)) = mset [0..<length (dg_nodes g)] \<and>
        [] \<notin> set (pg_tarjan pg g) \<and>
        (\<forall>i < length (dg_nodes g). \<forall>j < length (dg_nodes g).
           (\<exists>c \<in> set (pg_tarjan pg g). i \<in> set c \<and> j \<in> set c) \<longleftrightarrow>
           (i, j) \<in> (set (arcs g))\<^sup>* \<and> (j, i) \<in> (set (arcs g))\<^sup>*))"

lemma petgraph_edges:
  assumes "petgraph_ok pg"
  shows "set (pg_out pg g) = set (dg_edges g)" and "set (pg_in pg g) = set (dg_edges g)"
  using assms unfolding petgraph_ok_def by (auto dest: mset_eq_setD)

lemma petgraph_topo_None:
  "petgraph_ok pg \<Longrightarrow> digraph_ok g \<Longrightarrow> pg_toposort pg g = None \<Longrightarrow> \<not> acyclic (set (arcs g))"
  unfolding petgraph_ok_def by (metis (mono_tags, lifting) option.simps(4))

lemma petgraph_topo_Some:
  "petgraph_ok pg \<Longrightarrow> digraph_ok g \<Longrightarrow> pg_toposort pg g = Some xs \<Longrightarrow>
     mset xs = mset [0..<length (dg_nodes g)] \<and> topo_order (set (arcs g)) xs"
  unfolding petgraph_ok_def by (metis (mono_tags, lifting) option.simps(5))

lemma petgraph_tarjan:
  assumes "petgraph_ok pg" and "digraph_ok g"
  shows "mset (concat (pg_tarjan pg g)) = mset [0..<length (dg_nodes g)]"
    and "[] \<notin> set (pg_tarjan pg g)"
    and "i < length (dg_nodes g) \<Longrightarrow> j < length (dg_nodes g) \<Longrightarrow>
      (\<exists>c \<in> set (pg_tarjan pg g). i \<in> set c \<and> j \<in> set c) \<longleftrightarrow>
      (i, j) \<in> (set (arcs g))\<^sup>* \<and> (j, i) \<in> (set (arcs g))\<^sup>*"
  using assms unfolding petgraph_ok_def by blast+

lemma topo_order_index:
  assumes "topo_order r xs" and "(s, t) \<in> r"
  shows "\<exists>i j. i < j \<and> j < length xs \<and> xs ! i = s \<and> xs ! j = t"
proof -
  obtain ys zs where xs: "xs = ys @ s # zs" "t \<in> set zs"
    using assms unfolding topo_order_def by fast
  then obtain k where k: "k < length zs" "zs ! k = t"
    by (metis in_set_conv_nth)
  then show ?thesis
    using xs by (intro exI [of _ "length ys"] exI [of _ "Suc (length ys + k)"])
      (simp add: nth_append)
qed

lemma topo_order_trancl:
  assumes "topo_order r xs" and "distinct xs" and "(s, t) \<in> r\<^sup>+"
  shows "\<exists>i j. i < j \<and> j < length xs \<and> xs ! i = s \<and> xs ! j = t"
  using assms(3)
proof (induction rule: trancl_induct)
  case (step y z)
  then obtain i j where ij: "i < j" "j < length xs" "xs ! i = s" "xs ! j = y" by blast
  obtain j' k where jk: "j' < k" "k < length xs" "xs ! j' = y" "xs ! k = z"
    using topo_order_index [OF assms(1) step(2)] by blast
  have "j' = j"
    using ij jk assms(2) nth_eq_iff_index_eq [of xs j' j] by simp
  then have "i < k" using ij jk by simp
  then show ?case using ij(3) jk(2,4) by blast
qed (use topo_order_index [OF assms(1)] in blast)

lemma topo_order_acyclic:
  assumes "topo_order r xs" and "distinct xs"
  shows "acyclic r"
  unfolding acyclic_def
proof (intro allI notI)
  fix x assume "(x, x) \<in> r\<^sup>+"
  then obtain i j where "i < j" "j < length xs" "xs ! i = x" "xs ! j = x"
    using topo_order_trancl [OF assms] by blast
  then show False using assms(2) nth_eq_iff_index_eq [of xs i j] by simp
qed

section \<open>An instance\<close>

definition reach_list :: "'e digraph \<Rightarrow> nat \<Rightarrow> nat list" where
  "reach_list g i = dfs (arcs g) [i] [i]"

definition toposort_ref :: "unit digraph \<Rightarrow> nat list option" where
  "toposort_ref g =
     (if list_ex (\<lambda>(s, t). s \<in> set (reach_list g t)) (arcs g) then None
      else Some (rev (sort_key (\<lambda>i. length (reach_list g i)) [0..<length (dg_nodes g)])))"

definition tarjan_ref :: "unit digraph \<Rightarrow> nat list list" where
  "tarjan_ref g =
     remdups (map (\<lambda>i. filter (\<lambda>j. j \<in> set (reach_list g i) \<and> i \<in> set (reach_list g j))
                        [0..<length (dg_nodes g)])
              [0..<length (dg_nodes g)])"

definition pg_ref :: "'e petgraph" where
  "pg_ref = \<lparr>pg_out = (\<lambda>g. rev (dg_edges g)), pg_in = (\<lambda>g. rev (dg_edges g)),
             pg_toposort = toposort_ref, pg_tarjan = tarjan_ref\<rparr>"

lemma set_reach_list: "j \<in> set (reach_list g i) \<longleftrightarrow> (i, j) \<in> (set (arcs g))\<^sup>*"
  unfolding reach_list_def dfs_reach by simp

lemma length_reach_list_less:
  assumes "(s, t) \<in> set (arcs g)" and "s \<notin> set (reach_list g t)"
  shows "length (reach_list g t) < length (reach_list g s)"
proof -
  have card: "length (reach_list g i) = card (set (reach_list g i))" for i
    unfolding reach_list_def by (metis dfs_distinct distinct_card distinct_singleton)
  have "set (reach_list g t) \<subset> set (reach_list g s)"
    using assms by (auto simp: set_reach_list psubset_eq intro: converse_rtrancl_into_rtrancl)
  then show ?thesis unfolding card by (simp add: psubset_card_mono)
qed

lemma toposort_ref_None: "toposort_ref g = None \<Longrightarrow> \<not> acyclic (set (arcs g))"
  by (auto simp: toposort_ref_def list_ex_iff set_reach_list acyclic_def split: if_splits
      intro: rtrancl_into_trancl2)

lemma toposort_ref_Some:
  assumes "toposort_ref g = Some xs" and "digraph_ok g"
  shows "mset xs = mset [0..<length (dg_nodes g)]" and "topo_order (set (arcs g)) xs"
proof -
  let ?f = "\<lambda>i. length (reach_list g i)"
  let ?n = "length (dg_nodes g)"
  have xs: "xs = rev (sort_key ?f [0..<?n])"
    and no: "\<And>s t. (s, t) \<in> set (arcs g) \<Longrightarrow> s \<notin> set (reach_list g t)"
    using assms(1) by (auto simp: toposort_ref_def list_ex_iff split: if_splits)
  show "mset xs = mset [0..<?n]" by (simp add: xs)
  have "sorted (map ?f (rev xs))" by (simp add: xs)
  have "\<exists>ys zs. xs = ys @ s # zs \<and> t \<in> set zs" if st: "(s, t) \<in> set (arcs g)" for s t
  proof -
    have "s < ?n" "t < ?n"
      using assms(2) st by (auto simp: digraph_ok_def arcs_def)
    then have "s \<in> set xs" "t \<in> set xs" by (simp_all add: xs)
    then obtain ys zs where sp: "xs = ys @ s # zs" by (meson split_list)
    have "t \<notin> set ys" "t \<noteq> s"
      using length_reach_list_less [OF st no [OF st]] \<open>sorted (map ?f (rev xs))\<close> sp
      by (auto simp: sorted_append)
    then show ?thesis using sp \<open>t \<in> set xs\<close> by auto
  qed
  then show "topo_order (set (arcs g)) xs" by (auto simp: topo_order_def)
qed

lemma tarjan_ref_classes:
  assumes "i < length (dg_nodes g)" and "j < length (dg_nodes g)"
  shows "(\<exists>c \<in> set (tarjan_ref g). i \<in> set c \<and> j \<in> set c) \<longleftrightarrow>
    (i, j) \<in> (set (arcs g))\<^sup>* \<and> (j, i) \<in> (set (arcs g))\<^sup>*"
proof -
  have "(i, j) \<in> (set (arcs g))\<^sup>* \<and> (j, i) \<in> (set (arcs g))\<^sup>*"
    if "(k, i) \<in> (set (arcs g))\<^sup>*" "(i, k) \<in> (set (arcs g))\<^sup>*"
      "(k, j) \<in> (set (arcs g))\<^sup>*" "(j, k) \<in> (set (arcs g))\<^sup>*" for k
    using that by (meson rtrancl_trans)
  then show ?thesis
    using assms unfolding tarjan_ref_def set_remdups set_map
    by (auto simp: set_reach_list)
qed

lemma concat_disjoint_distinct:
  "distinct cs \<Longrightarrow> \<forall>c \<in> set cs. distinct c \<Longrightarrow>
   (\<forall>c \<in> set cs. \<forall>d \<in> set cs. c \<noteq> d \<longrightarrow> set c \<inter> set d = {}) \<Longrightarrow> distinct (concat cs)"
  by (simp add: distinct_concat)

lemma tarjan_ref_concat: "mset (concat (tarjan_ref g)) = mset [0..<length (dg_nodes g)]"
proof -
  let ?n = "length (dg_nodes g)"
  let ?c = "\<lambda>i. filter (\<lambda>j. j \<in> set (reach_list g i) \<and> i \<in> set (reach_list g j)) [0..<?n]"
  have eq: "?c i = ?c k" if "j \<in> set (?c i)" "j \<in> set (?c k)" for i j k
  proof (rule filter_cong)
    fix l
    have "(i, k) \<in> (set (arcs g))\<^sup>*" "(k, i) \<in> (set (arcs g))\<^sup>*"
      using that by (auto simp: set_reach_list intro: rtrancl_trans)
    then show "(l \<in> set (reach_list g i) \<and> i \<in> set (reach_list g l)) =
        (l \<in> set (reach_list g k) \<and> k \<in> set (reach_list g l))"
      by (auto simp: set_reach_list intro: rtrancl_trans)
  qed simp
  have "distinct (concat (tarjan_ref g))"
  proof (rule concat_disjoint_distinct)
    show "\<forall>c \<in> set (tarjan_ref g). \<forall>d \<in> set (tarjan_ref g). c \<noteq> d \<longrightarrow> set c \<inter> set d = {}"
    proof (intro ballI impI)
      fix c d assume cd: "c \<in> set (tarjan_ref g)" "d \<in> set (tarjan_ref g)" "c \<noteq> d"
      then obtain i k where "c = ?c i" "d = ?c k" unfolding tarjan_ref_def by auto
      with cd(3) eq [of _ i k] show "set c \<inter> set d = {}" by blast
    qed
  qed (auto simp: tarjan_ref_def)
  moreover have "set (concat (tarjan_ref g)) = {0..<?n}"
    by (auto simp: tarjan_ref_def set_reach_list)
  ultimately show ?thesis
    by (metis distinct_upt set_eq_iff_mset_eq_distinct set_upt)
qed

lemma pg_ref_ok: "petgraph_ok pg_ref"
proof -
  have "[] \<notin> set (tarjan_ref g)" for g
  proof
    assume "[] \<in> set (tarjan_ref g)"
    then obtain i where "i < length (dg_nodes g)" and
      "filter (\<lambda>j. j \<in> set (reach_list g i) \<and> i \<in> set (reach_list g j)) [0..<length (dg_nodes g)] = []"
      unfolding tarjan_ref_def by auto
    then show False by (auto simp: filter_empty_conv set_reach_list)
  qed
  then show ?thesis
    using toposort_ref_None toposort_ref_Some tarjan_ref_concat tarjan_ref_classes
    unfolding petgraph_ok_def pg_ref_def
    by (simp split: option.split)
qed

end
