(* ===== verification/Graph.thy ===== *)
theory Graph
  imports Digraph "HOL-Library.Product_Lexorder"
begin

text \<open>
  The dependency graph of a file: \<open>crates/agm-core/src/graph/\<close> (\<open>mod.rs\<close>,
  \<open>build.rs\<close>, \<open>query.rs\<close>, \<open>cycles.rs\<close>, \<open>topo.rs\<close>). The specification is the
  relation \<open>dep_rel\<close> read off the file; the lemmas state what every operation computes in
  terms of it.
\<close>

section \<open>The graph of a file\<close>

datatype relation_kind = Depends | RelatedTo | Replaces | Conflicts | SeeAlso

record agm_graph =
  g_inner :: "relation_kind digraph"
  g_index :: "string \<Rightarrow> nat option"

definition node_count :: "agm_graph \<Rightarrow> nat" where
  "node_count g = length (dg_nodes (g_inner g))"

definition edge_count :: "agm_graph \<Rightarrow> nat" where
  "edge_count g = length (dg_edges (g_inner g))"

definition contains_node :: "agm_graph \<Rightarrow> string \<Rightarrow> bool" where
  "contains_node g i \<longleftrightarrow> g_index g i \<noteq> None"

definition node_index :: "agm_graph \<Rightarrow> string \<Rightarrow> nat option" where
  "node_index g i = g_index g i"

definition node_ids :: "agm_graph \<Rightarrow> string set" where
  "node_ids g = dom (g_index g)"

definition edges_of_kind ::
  "relation_kind petgraph \<Rightarrow> agm_graph \<Rightarrow> string \<Rightarrow> relation_kind \<Rightarrow> string list" where
  "edges_of_kind pg g i kind =
     (case g_index g i of
        None \<Rightarrow> []
      | Some idx \<Rightarrow>
          map (\<lambda>(s, t, k). dg_nodes (g_inner g) ! t)
            (filter (\<lambda>(s, t, k). k = kind)
              (filter (\<lambda>(s, t, k). s = idx) (pg_out pg (g_inner g)))))"

text \<open>
  All nodes keep their positions, so the map from old to new indices is the identity.
\<close>

definition depends_subgraph :: "agm_graph \<Rightarrow> unit digraph" where
  "depends_subgraph g =
     \<lparr>dg_nodes = dg_nodes (g_inner g),
      dg_edges = map (\<lambda>(s, t, k). (s, t, ()))
        (filter (\<lambda>(s, t, k). k = Depends) (dg_edges (g_inner g)))\<rparr>"

subsection \<open>Construction\<close>

definition relation_fields :: "node \<Rightarrow> (string list option \<times> relation_kind) list" where
  "relation_fields n =
     [(n_depends n, Depends), (n_related_to n, RelatedTo), (n_replaces n, Replaces),
      (n_conflicts n, Conflicts), (n_see_also n, SeeAlso)]"

definition unwrap_list :: "'a list option \<Rightarrow> 'a list" where
  "unwrap_list x = (case x of None \<Rightarrow> [] | Some xs \<Rightarrow> xs)"

definition add_target_edges ::
  "(string \<Rightarrow> nat option) \<Rightarrow> nat \<Rightarrow> relation_kind \<Rightarrow> (string \<Rightarrow> nat option) \<Rightarrow>
   string list \<Rightarrow> relation_kind digraph \<Rightarrow> relation_kind digraph" where
  "add_target_edges index src kind resolve targets inner =
     fold (\<lambda>target g. case resolve target of None \<Rightarrow> g | Some tgt \<Rightarrow> add_edge src tgt kind g)
       targets inner"

definition add_edges_from_nodes ::
  "node list \<Rightarrow> (string \<Rightarrow> nat option) \<Rightarrow> relation_kind digraph \<Rightarrow> relation_kind digraph" where
  "add_edges_from_nodes nodes index inner =
     fold (\<lambda>n g.
        case index (n_id n) of
          None \<Rightarrow> g
        | Some src \<Rightarrow>
            fold (\<lambda>(targets, kind) g. add_target_edges index src kind index (unwrap_list targets) g)
              (relation_fields n) g)
       nodes inner"

definition insert_node ::
  "node \<Rightarrow> relation_kind digraph \<times> (string \<Rightarrow> nat option) \<Rightarrow>
   relation_kind digraph \<times> (string \<Rightarrow> nat option)" where
  "insert_node n gi =
     (let (inner, index) = gi; (inner', idx) = add_node (n_id n) inner in
      (inner', index(n_id n \<mapsto> idx)))"

definition build_graph :: "agm_file \<Rightarrow> agm_graph" where
  "build_graph file =
     (let (inner, index) = fold insert_node (f_nodes file) (dg_empty, \<lambda>_. None) in
      \<lparr>g_inner = add_edges_from_nodes (f_nodes file) index inner, g_index = index\<rparr>)"

text \<open>\<open>import::ResolvedPackage\<close>; \<open>'v\<close> stands for \<open>semver::Version\<close>.\<close>

record 'v resolved_package =
  rp_package :: string
  rp_version :: 'v
  rp_path :: string
  rp_file :: agm_file

definition qualify :: "string \<Rightarrow> string \<Rightarrow> string" where
  "qualify package i = package @ ''.'' @ i"

definition insert_new ::
  "string \<Rightarrow> relation_kind digraph \<times> (string \<Rightarrow> nat option) \<Rightarrow>
   relation_kind digraph \<times> (string \<Rightarrow> nat option)" where
  "insert_new i gi =
     (let (inner, index) = gi in
      case index i of
        Some _ \<Rightarrow> (inner, index)
      | None \<Rightarrow> (let (inner', idx) = add_node i inner in (inner', index(i \<mapsto> idx))))"

definition add_edges_for_targets ::
  "nat \<Rightarrow> string list \<Rightarrow> relation_kind \<Rightarrow> string \<Rightarrow> (string \<Rightarrow> nat option) \<Rightarrow>
   relation_kind digraph \<Rightarrow> relation_kind digraph" where
  "add_edges_for_targets src targets kind package index inner =
     fold (\<lambda>target g.
        case index target of
          Some tgt \<Rightarrow> add_edge src tgt kind g
        | None \<Rightarrow>
            (case index (qualify package target) of
               Some tgt \<Rightarrow> add_edge src tgt kind g
             | None \<Rightarrow> g))
       targets inner"

definition add_package_edges ::
  "'v resolved_package \<Rightarrow> (string \<Rightarrow> nat option) \<Rightarrow> relation_kind digraph \<Rightarrow> relation_kind digraph" where
  "add_package_edges pkg index inner =
     fold (\<lambda>n g.
        case index (qualify (rp_package pkg) (n_id n)) of
          None \<Rightarrow> g
        | Some src \<Rightarrow>
            fold (\<lambda>(targets, kind) g.
                add_edges_for_targets src (unwrap_list targets) kind (rp_package pkg) index g)
              (relation_fields n) g)
       (f_nodes (rp_file pkg)) inner"

definition build_graph_with_imports :: "agm_file \<Rightarrow> 'v resolved_package list \<Rightarrow> agm_graph" where
  "build_graph_with_imports file imports =
     (let gi1 = fold (\<lambda>n. insert_new (n_id n)) (f_nodes file) (dg_empty, \<lambda>_. None);
          (inner, index) =
            fold (\<lambda>pkg gi. fold (\<lambda>n. insert_new (qualify (rp_package pkg) (n_id n)))
                                (f_nodes (rp_file pkg)) gi) imports gi1;
          inner2 = add_edges_from_nodes (f_nodes file) index inner;
          inner3 = fold (\<lambda>pkg g. add_package_edges pkg index g) imports inner2 in
      \<lparr>g_inner = inner3, g_index = index\<rparr>)"

section \<open>Queries\<close>

text \<open>
  The arcs the search follows: the \<open>Depends\<close> edges in the order the library visits
  them, from source to target or, for dependents, from target to source. The
  \<open>HashSet\<close> returned has no order.
\<close>

definition depends_out :: "relation_kind petgraph \<Rightarrow> agm_graph \<Rightarrow> (nat \<times> nat) list" where
  "depends_out pg g =
     map (\<lambda>(s, t, k). (s, t)) (filter (\<lambda>(s, t, k). k = Depends) (pg_out pg (g_inner g)))"

definition depends_in :: "relation_kind petgraph \<Rightarrow> agm_graph \<Rightarrow> (nat \<times> nat) list" where
  "depends_in pg g =
     map (\<lambda>(s, t, k). (t, s)) (filter (\<lambda>(s, t, k). k = Depends) (pg_in pg (g_inner g)))"

definition transitive_deps :: "relation_kind petgraph \<Rightarrow> agm_graph \<Rightarrow> string \<Rightarrow> string set" where
  "transitive_deps pg g i =
     (case g_index g i of
        None \<Rightarrow> {}
      | Some start \<Rightarrow>
          (let visited = dfs (depends_out pg g) [start] [start] in
           set (map (\<lambda>idx. dg_nodes (g_inner g) ! idx) (filter (\<lambda>idx. idx \<noteq> start) visited))))"

definition transitive_dependents :: "relation_kind petgraph \<Rightarrow> agm_graph \<Rightarrow> string \<Rightarrow> string set" where
  "transitive_dependents pg g i =
     (case g_index g i of
        None \<Rightarrow> {}
      | Some start \<Rightarrow>
          (let visited = dfs (depends_in pg g) [start] [start] in
           set (map (\<lambda>idx. dg_nodes (g_inner g) ! idx) (filter (\<lambda>idx. idx \<noteq> start) visited))))"

text \<open>A \<open>BTreeSet\<close> of pairs is an ordered map with no values.\<close>

definition find_conflicts :: "agm_graph \<Rightarrow> (string \<times> string) list" where
  "find_conflicts g =
     (let w = (\<lambda>idx. dg_nodes (g_inner g) ! idx);
          pairs = map (\<lambda>(s, t, k). if w s \<le> w t then (w s, w t) else (w t, w s))
            (filter (\<lambda>(s, t, k). k = Conflicts) (dg_edges (g_inner g))) in
      map fst (fold (\<lambda>p seen. bt_insert p () seen) pairs []))"

section \<open>Cycles and topological order\<close>

record cycle_error =
  ce_cycle :: "string list"

definition cycle_error_new :: "string list \<Rightarrow> cycle_error" where
  "cycle_error_new path =
     (if 2 \<le> length path \<and> hd path \<noteq> last path then \<lparr>ce_cycle = path @ [hd path]\<rparr>
      else \<lparr>ce_cycle = path\<rparr>)"

definition display_path :: "cycle_error \<Rightarrow> string" where
  "display_path e = join '' -> '' (ce_cycle e)"

definition show_cycle_error :: "cycle_error \<Rightarrow> string" where
  "show_cycle_error e = ''cycle detected in depends graph: '' @ join '' -> '' (ce_cycle e)"

definition scc_cycle :: "unit digraph \<Rightarrow> nat list \<Rightarrow> string list option" where
  "scc_cycle sub scc =
     (if 1 < length scc then Some (map (\<lambda>idx. dg_nodes sub ! idx) scc)
      else case scc of
        [idx] \<Rightarrow>
          (if list_ex (\<lambda>e. fst e = idx \<and> fst (snd e) = idx) (dg_edges sub)
           then Some [dg_nodes sub ! idx] else None)
      | _ \<Rightarrow> None)"

definition detect_cycles :: "relation_kind petgraph \<Rightarrow> agm_graph \<Rightarrow> string list list" where
  "detect_cycles pg g =
     (let sub = depends_subgraph g in List.map_filter (scc_cycle sub) (pg_tarjan pg sub))"

definition topological_sort :: "relation_kind petgraph \<Rightarrow> agm_graph \<Rightarrow> cycle_error + string list" where
  "topological_sort pg g =
     (let sub = depends_subgraph g in
      case pg_toposort pg sub of
        Some indices \<Rightarrow> Inr (map (\<lambda>idx. dg_nodes sub ! idx) (rev indices))
      | None \<Rightarrow>
          (let cycles = detect_cycles pg g;
               path = (case cycles of [] \<Rightarrow> [] | c # _ \<Rightarrow> c) in
           Inl (cycle_error_new path)))"

section \<open>The specification\<close>

text \<open>The ids a node names in the relationship field of kind \<open>k\<close>.\<close>

definition targets_of :: "relation_kind \<Rightarrow> node \<Rightarrow> string list" where
  "targets_of k n =
     unwrap_list (case k of Depends \<Rightarrow> n_depends n | RelatedTo \<Rightarrow> n_related_to n
                  | Replaces \<Rightarrow> n_replaces n | Conflicts \<Rightarrow> n_conflicts n
                  | SeeAlso \<Rightarrow> n_see_also n)"

definition file_ids :: "agm_file \<Rightarrow> string set" where
  "file_ids file = n_id ` set (f_nodes file)"

definition declared :: "agm_file \<Rightarrow> relation_kind \<Rightarrow> (string \<times> string) set" where
  "declared file k =
     {(a, b). b \<in> file_ids file \<and> (\<exists>n \<in> set (f_nodes file). n_id n = a \<and> b \<in> set (targets_of k n))}"

abbreviation dep_rel :: "agm_file \<Rightarrow> (string \<times> string) set" where
  "dep_rel file \<equiv> declared file Depends"

text \<open>The relation a graph represents, and the invariant of a built graph.\<close>

definition graph_rel :: "agm_graph \<Rightarrow> relation_kind \<Rightarrow> (string \<times> string) set" where
  "graph_rel g k =
     {(a, b). \<exists>s t. g_index g a = Some s \<and> g_index g b = Some t \<and> (s, t, k) \<in> set (dg_edges (g_inner g))}"

definition index_ok :: "relation_kind digraph \<Rightarrow> (string \<Rightarrow> nat option) \<Rightarrow> bool" where
  "index_ok inner index \<longleftrightarrow>
     dom index = set (dg_nodes inner) \<and>
     (\<forall>i k. index i = Some k \<longrightarrow> k < length (dg_nodes inner) \<and> dg_nodes inner ! k = i)"

definition edges_ok :: "relation_kind digraph \<Rightarrow> (string \<Rightarrow> nat option) \<Rightarrow> bool" where
  "edges_ok inner index \<longleftrightarrow>
     (\<forall>s t k. (s, t, k) \<in> set (dg_edges inner) \<longrightarrow> s \<in> ran index \<and> t \<in> ran index)"

definition graph_ok :: "agm_graph \<Rightarrow> bool" where
  "graph_ok g \<longleftrightarrow> index_ok (g_inner g) (g_index g) \<and> edges_ok (g_inner g) (g_index g)"

section \<open>Construction: lemmas\<close>

lemma add_edge_simps [simp]:
  "dg_nodes (add_edge s t k g) = dg_nodes g"
  "dg_edges (add_edge s t k g) = dg_edges g @ [(s, t, k)]"
  by (simp_all add: add_edge_def)

text \<open>Adding edges in a loop: the nodes stay, the edges are those of the single steps.\<close>

lemma fold_edges:
  assumes "\<And>x g. x \<in> set xs \<Longrightarrow> dg_nodes (f x g) = dg_nodes g"
    and "\<And>x g. x \<in> set xs \<Longrightarrow> set (dg_edges (f x g)) = set (dg_edges g) \<union> E x"
  shows "dg_nodes (fold f xs g) = dg_nodes g \<and>
    set (dg_edges (fold f xs g)) = set (dg_edges g) \<union> (\<Union>x \<in> set xs. E x)"
  using assms by (induction xs arbitrary: g) auto

lemma add_target_edges_eq:
  "dg_nodes (add_target_edges index src kind resolve targets g) = dg_nodes g \<and>
   set (dg_edges (add_target_edges index src kind resolve targets g)) =
     set (dg_edges g) \<union> (\<Union>b \<in> set targets. {(src, t, kind) | t. resolve b = Some t})"
  unfolding add_target_edges_def by (rule fold_edges) (auto split: option.splits)

definition node_edges ::
  "(string \<Rightarrow> nat option) \<Rightarrow> (string \<Rightarrow> nat option) \<Rightarrow> string \<Rightarrow> node \<Rightarrow> relation_kind edge set" where
  "node_edges index resolve i n =
     {(s, t, k). index i = Some s \<and> (\<exists>b \<in> set (targets_of k n). resolve b = Some t)}"

lemma fold_relation_fields:
  assumes "\<And>ts k g. dg_nodes (f ts k g) = dg_nodes g"
    and "\<And>ts k g. set (dg_edges (f ts k g)) =
      set (dg_edges g) \<union> (\<Union>b \<in> set (unwrap_list ts). {(s, t, k) | t. resolve b = Some t})"
    and "index i = Some s"
  shows "dg_nodes (fold (\<lambda>(ts, k). f ts k) (relation_fields n) g) = dg_nodes g \<and>
    set (dg_edges (fold (\<lambda>(ts, k). f ts k) (relation_fields n) g)) =
      set (dg_edges g) \<union> node_edges index resolve i n"
proof -
  have "dg_nodes (fold (\<lambda>(ts, k). f ts k) (relation_fields n) g) = dg_nodes g \<and>
    set (dg_edges (fold (\<lambda>(ts, k). f ts k) (relation_fields n) g)) =
      set (dg_edges g) \<union> (\<Union>x \<in> set (relation_fields n). case x of (ts, k) \<Rightarrow>
        (\<Union>b \<in> set (unwrap_list ts). {(s, t, k) | t. resolve b = Some t}))"
    by (rule fold_edges [where f = "\<lambda>(ts, k). f ts k"]) (simp_all only: split_paired_all prod.case assms(1,2))
  moreover have "(\<Union>x \<in> set (relation_fields n). case x of (ts, k) \<Rightarrow>
      (\<Union>b \<in> set (unwrap_list ts). {(s, t, k) | t. resolve b = Some t})) =
      node_edges index resolve i n"
  proof (rule set_eqI)
    fix e :: "relation_kind edge"
    obtain s' t k where e: "e = (s', t, k)" by (cases e)
    show "e \<in> (\<Union>x \<in> set (relation_fields n). case x of (ts, k) \<Rightarrow>
        (\<Union>b \<in> set (unwrap_list ts). {(s, t, k) | t. resolve b = Some t})) \<longleftrightarrow>
      e \<in> node_edges index resolve i n"
      unfolding e using assms(3)
      by (cases k; simp add: relation_fields_def targets_of_def node_edges_def; fast)
  qed
  ultimately show ?thesis by simp
qed

lemma add_edges_from_nodes_eq:
  "dg_nodes (add_edges_from_nodes nodes index g) = dg_nodes g \<and>
   set (dg_edges (add_edges_from_nodes nodes index g)) =
     set (dg_edges g) \<union> (\<Union>n \<in> set nodes. node_edges index index (n_id n) n)"
  unfolding add_edges_from_nodes_def
proof (rule fold_edges)
  fix n :: node and g :: "relation_kind digraph"
  let ?h = "case index (n_id n) of None \<Rightarrow> g | Some src \<Rightarrow>
    fold (\<lambda>(targets, kind). add_target_edges index src kind index (unwrap_list targets))
      (relation_fields n) g"
  have "dg_nodes ?h = dg_nodes g \<and>
      set (dg_edges ?h) = set (dg_edges g) \<union> node_edges index index (n_id n) n"
  proof (cases "index (n_id n)")
    case None
    then have "node_edges index index (n_id n) n = {}" by (simp add: node_edges_def)
    with None show ?thesis by simp
  next
    case (Some s)
    then show ?thesis
      using fold_relation_fields [of
          "\<lambda>ts k. add_target_edges index s k index (unwrap_list ts)" s index index "n_id n" n g]
      by (simp add: add_target_edges_eq)
  qed
  then show "dg_nodes ?h = dg_nodes g"
    and "set (dg_edges ?h) = set (dg_edges g) \<union> node_edges index index (n_id n) n"
    by auto
qed

definition import_resolve :: "string \<Rightarrow> (string \<Rightarrow> nat option) \<Rightarrow> string \<Rightarrow> nat option" where
  "import_resolve package index b =
     (case index b of Some t \<Rightarrow> Some t | None \<Rightarrow> index (qualify package b))"

lemma add_edges_for_targets_eq:
  "dg_nodes (add_edges_for_targets src targets kind package index g) = dg_nodes g \<and>
   set (dg_edges (add_edges_for_targets src targets kind package index g)) =
     set (dg_edges g) \<union>
       (\<Union>b \<in> set targets. {(src, t, kind) | t. import_resolve package index b = Some t})"
  unfolding add_edges_for_targets_def
  by (rule fold_edges) (auto simp: import_resolve_def split: option.splits)

lemma add_package_edges_eq:
  "dg_nodes (add_package_edges pkg index g) = dg_nodes g \<and>
   set (dg_edges (add_package_edges pkg index g)) =
     set (dg_edges g) \<union> (\<Union>n \<in> set (f_nodes (rp_file pkg)).
       node_edges index (import_resolve (rp_package pkg) index) (qualify (rp_package pkg) (n_id n)) n)"
  unfolding add_package_edges_def
proof (rule fold_edges)
  fix n :: node and g :: "relation_kind digraph"
  let ?i = "qualify (rp_package pkg) (n_id n)"
  let ?r = "import_resolve (rp_package pkg) index"
  let ?h = "case index ?i of None \<Rightarrow> g | Some src \<Rightarrow>
    fold (\<lambda>(targets, kind).
        add_edges_for_targets src (unwrap_list targets) kind (rp_package pkg) index)
      (relation_fields n) g"
  have "dg_nodes ?h = dg_nodes g \<and>
      set (dg_edges ?h) = set (dg_edges g) \<union> node_edges index ?r ?i n"
  proof (cases "index ?i")
    case None
    then have "node_edges index ?r ?i n = {}" by (simp add: node_edges_def)
    with None show ?thesis by simp
  next
    case (Some s)
    then show ?thesis
      using fold_relation_fields [of
          "\<lambda>ts k. add_edges_for_targets s (unwrap_list ts) k (rp_package pkg) index" s ?r index ?i n g]
      by (simp add: add_edges_for_targets_eq)
  qed
  then show "dg_nodes ?h = dg_nodes g"
    and "set (dg_edges ?h) = set (dg_edges g) \<union> node_edges index ?r ?i n"
    by auto
qed

subsection \<open>A built graph represents the declared relations\<close>

lemma index_ok_empty: "index_ok dg_empty (\<lambda>_. None)"
  by (simp add: index_ok_def dg_empty_def dom_def)

lemma index_ok_add:
  assumes "index_ok inner index" and "add_node i inner = (inner', k)"
  shows "index_ok inner' (index(i \<mapsto> k))"
proof -
  have "dg_nodes inner' = dg_nodes inner @ [i]" "k = length (dg_nodes inner)"
    using assms(2) by (auto simp: add_node_def)
  then show ?thesis
    using assms(1) by (auto simp: index_ok_def nth_append) (metis less_SucI)
qed

lemma fold_insert_node:
  "index_ok inner index \<Longrightarrow> fold insert_node ns (inner, index) = (inner', index') \<Longrightarrow>
     index_ok inner' index' \<and> dg_nodes inner' = dg_nodes inner @ map n_id ns \<and>
     dg_edges inner' = dg_edges inner"
proof (induction ns arbitrary: inner index)
  case (Cons n ns)
  obtain inner1 k where a: "add_node (n_id n) inner = (inner1, k)" by force
  then have "insert_node n (inner, index) = (inner1, index(n_id n \<mapsto> k))"
    by (simp add: insert_node_def)
  then have f: "fold insert_node ns (inner1, index(n_id n \<mapsto> k)) = (inner', index')"
    using Cons.prems(2) by (simp del: fun_upd_apply)
  moreover have "dg_nodes inner1 = dg_nodes inner @ [n_id n]" "dg_edges inner1 = dg_edges inner"
    using a by (auto simp: add_node_def)
  ultimately show ?case
    using Cons.IH [OF index_ok_add [OF Cons.prems(1) a] f] by simp
qed simp

lemma insert_new_ok:
  assumes "index_ok inner index" and "insert_new i (inner, index) = (inner', index')"
  shows "index_ok inner' index' \<and> set (dg_nodes inner') = insert i (set (dg_nodes inner)) \<and>
    dg_edges inner' = dg_edges inner"
proof (cases "index i")
  case (Some k)
  then have "i \<in> set (dg_nodes inner)" using assms(1) by (auto simp: index_ok_def)
  then show ?thesis using assms Some by (auto simp: insert_new_def)
next
  case None
  obtain inner1 k where a: "add_node i inner = (inner1, k)" by force
  then have "inner' = inner1" "index' = index(i \<mapsto> k)"
    using assms(2) None by (auto simp: insert_new_def)
  then show ?thesis
    using index_ok_add [OF assms(1) a] a by (auto simp: add_node_def)
qed

lemma fold_insert_new:
  assumes "index_ok (fst gi) (snd gi)"
  shows "index_ok (fst (fold (\<lambda>x. insert_new (f x)) xs gi)) (snd (fold (\<lambda>x. insert_new (f x)) xs gi)) \<and>
    set (dg_nodes (fst (fold (\<lambda>x. insert_new (f x)) xs gi))) = set (dg_nodes (fst gi)) \<union> f ` set xs \<and>
    dg_edges (fst (fold (\<lambda>x. insert_new (f x)) xs gi)) = dg_edges (fst gi)"
  using assms
proof (induction xs arbitrary: gi)
  case (Cons x xs)
  obtain inner index where gi: "gi = (inner, index)" by force
  obtain inner1 index1 where i: "insert_new (f x) (inner, index) = (inner1, index1)" by force
  show ?case
    using insert_new_ok [OF _ i] Cons.prems Cons.IH [of "(inner1, index1)"] i gi by auto
qed simp

lemma node_edges_ok:
  assumes "(s, t, k) \<in> node_edges index resolve i n" and "\<And>b t. resolve b = Some t \<Longrightarrow> t \<in> ran index"
  shows "s \<in> ran index \<and> t \<in> ran index"
  using assms by (auto simp: node_edges_def intro: ranI)

lemma index_ok_inj: "index_ok inner index \<Longrightarrow> index a = Some s \<Longrightarrow> index b = Some s \<Longrightarrow> a = b"
  unfolding index_ok_def by metis

lemma index_ok_cong: "dg_nodes g = dg_nodes h \<Longrightarrow> index_ok g index = index_ok h index"
  by (simp add: index_ok_def)

lemma build_graph_props:
  "graph_ok (build_graph file)" (is ?ok)
  "dg_nodes (g_inner (build_graph file)) = map n_id (f_nodes file)" (is ?nodes)
  "graph_rel (build_graph file) k = declared file k" (is ?rel)
proof -
  obtain inner index where f: "fold insert_node (f_nodes file) (dg_empty, \<lambda>_. None) = (inner, index)"
    by force
  have base: "index_ok inner index" "dg_nodes inner = map n_id (f_nodes file)" "dg_edges inner = []"
    using fold_insert_node [OF index_ok_empty f] by (simp_all add: dg_empty_def)
  let ?g = "add_edges_from_nodes (f_nodes file) index inner"
  have b: "build_graph file = \<lparr>g_inner = ?g, g_index = index\<rparr>"
    by (simp add: build_graph_def f)
  have g: "dg_nodes ?g = map n_id (f_nodes file)"
    "set (dg_edges ?g) = (\<Union>n \<in> set (f_nodes file). node_edges index index (n_id n) n)"
    using add_edges_from_nodes_eq [of "f_nodes file" index inner] base by auto
  show ?nodes by (simp add: b g)
  have dom: "dom index = file_ids file"
    using base by (simp add: index_ok_def file_ids_def)
  have "edges_ok ?g index"
    unfolding edges_ok_def g
  proof (intro allI impI)
    fix s t k assume "(s, t, k) \<in> (\<Union>n \<in> set (f_nodes file). node_edges index index (n_id n) n)"
    then obtain n :: node where "(s, t, k) \<in> node_edges index index (n_id n) n" by blast
    then show "s \<in> ran index \<and> t \<in> ran index" by (rule node_edges_ok) (rule ranI)
  qed
  then show ?ok
    using base(1,2) g(1) index_ok_cong [of ?g inner index] by (simp add: b graph_ok_def)
  have "(a, c) \<in> graph_rel (build_graph file) k \<longleftrightarrow> (a, c) \<in> declared file k" for a c
  proof -
    have inj: "\<And>x y s. index x = Some s \<Longrightarrow> index y = Some s \<Longrightarrow> x = y"
      using index_ok_inj [OF base(1)] by blast
    have "(a, c) \<in> graph_rel (build_graph file) k \<longleftrightarrow>
        (\<exists>s t. index a = Some s \<and> index c = Some t \<and>
          (\<exists>n \<in> set (f_nodes file). index (n_id n) = Some s \<and>
             (\<exists>d \<in> set (targets_of k n). index d = Some t)))"
      by (simp add: graph_rel_def b g(2) node_edges_def)
    also have "\<dots> \<longleftrightarrow> (\<exists>n \<in> set (f_nodes file). n_id n = a \<and> a \<in> dom index \<and>
        c \<in> dom index \<and> c \<in> set (targets_of k n))"
    proof (intro iffI)
      assume "\<exists>s t. index a = Some s \<and> index c = Some t \<and>
          (\<exists>n \<in> set (f_nodes file). index (n_id n) = Some s \<and>
             (\<exists>d \<in> set (targets_of k n). index d = Some t))"
      then obtain s t n d where "index a = Some s" "index c = Some t" "n \<in> set (f_nodes file)"
        "index (n_id n) = Some s" "d \<in> set (targets_of k n)" "index d = Some t" by blast
      then show "\<exists>n \<in> set (f_nodes file). n_id n = a \<and> a \<in> dom index \<and>
          c \<in> dom index \<and> c \<in> set (targets_of k n)"
        using inj [of a s "n_id n"] inj [of c t d] by (intro bexI [of _ n]) auto
    qed blast
    also have "\<dots> \<longleftrightarrow> (a, c) \<in> declared file k"
      unfolding dom declared_def file_ids_def by auto
    finally show ?thesis .
  qed
  then show ?rel by auto
qed

lemma build_graph_index: "g_index (build_graph file) i \<noteq> None \<longleftrightarrow> i \<in> file_ids file"
  using build_graph_props(1,2) [of "file"]
  unfolding graph_ok_def index_ok_def file_ids_def by (auto simp: domIff)

lemma build_graph_with_imports_ok:
  "graph_ok (build_graph_with_imports file imports)" (is ?ok)
  "node_ids (build_graph_with_imports file imports) =
     file_ids file \<union>
     (\<Union>pkg \<in> set imports. qualify (rp_package pkg) ` file_ids (rp_file pkg))" (is ?ids)
proof -
  define gi1 where "gi1 = fold (\<lambda>n. insert_new (n_id n)) (f_nodes file) (dg_empty, \<lambda>_. None)"
  have 1: "index_ok (fst gi1) (snd gi1) \<and> set (dg_nodes (fst gi1)) = file_ids file \<and>
      dg_edges (fst gi1) = []"
    using fold_insert_new [of "(dg_empty, \<lambda>_. None)" n_id "f_nodes file"] index_ok_empty
    by (simp add: gi1_def file_ids_def dg_empty_def)
  define add_pkg where "add_pkg = (\<lambda>pkg :: 'a resolved_package. fold
      (\<lambda>n. insert_new (qualify (rp_package pkg) (n_id n))) (f_nodes (rp_file pkg)))"
  obtain inner index where gi2: "fold add_pkg imports gi1 = (inner, index)" by force
  have add: "index_ok (fst (add_pkg pkg gi)) (snd (add_pkg pkg gi)) \<and>
      set (dg_nodes (fst (add_pkg pkg gi))) =
        set (dg_nodes (fst gi)) \<union> qualify (rp_package pkg) ` file_ids (rp_file pkg) \<and>
      dg_edges (fst (add_pkg pkg gi)) = dg_edges (fst gi)"
    if "index_ok (fst gi) (snd gi)" for pkg :: "'a resolved_package" and gi
    using fold_insert_new [OF that, of "\<lambda>n. qualify (rp_package pkg) (n_id n)" "f_nodes (rp_file pkg)"]
    by (simp add: add_pkg_def file_ids_def image_image)
  have "index_ok (fst (fold add_pkg ps gi)) (snd (fold add_pkg ps gi)) \<and>
      set (dg_nodes (fst (fold add_pkg ps gi))) =
        set (dg_nodes (fst gi)) \<union> (\<Union>pkg \<in> set ps. qualify (rp_package pkg) ` file_ids (rp_file pkg)) \<and>
      dg_edges (fst (fold add_pkg ps gi)) = dg_edges (fst gi)"
    if "index_ok (fst gi) (snd gi)" for ps gi
    using that
  proof (induction ps arbitrary: gi)
    case (Cons p ps)
    then show ?case using add [OF Cons.prems, of p] by auto
  qed simp
  from this [of gi1 "imports"] 1 gi2
  have 2: "index_ok inner index" "dg_edges inner = []"
    "set (dg_nodes inner) = file_ids file \<union>
       (\<Union>pkg \<in> set imports. qualify (rp_package pkg) ` file_ids (rp_file pkg))"
    by auto
  define inner2 where "inner2 = add_edges_from_nodes (f_nodes file) index inner"
  define inner3 where "inner3 = fold (\<lambda>pkg g. add_package_edges pkg index g) imports inner2"
  have b: "build_graph_with_imports file imports = \<lparr>g_inner = inner3, g_index = index\<rparr>"
    by (simp add: build_graph_with_imports_def Let_def gi1_def [symmetric] inner3_def inner2_def
        gi2 [unfolded add_pkg_def])
  let ?E = "\<lambda>pkg :: 'a resolved_package. \<Union>n \<in> set (f_nodes (rp_file pkg)). node_edges index
      (import_resolve (rp_package pkg) index) (qualify (rp_package pkg) (n_id n)) n"
  have 3: "dg_nodes inner3 = dg_nodes inner2 \<and>
      set (dg_edges inner3) = set (dg_edges inner2) \<union> (\<Union>pkg \<in> set imports. ?E pkg)"
    unfolding inner3_def by (rule fold_edges) (simp_all add: add_package_edges_eq)
  have n2: "dg_nodes inner2 = dg_nodes inner"
    "set (dg_edges inner2) = (\<Union>n \<in> set (f_nodes file). node_edges index index (n_id n) n)"
    using add_edges_from_nodes_eq [of "f_nodes file" index inner] 2(2) by (auto simp: inner2_def)
  have "s \<in> ran index \<and> t \<in> ran index" if "(s, t, k) \<in> set (dg_edges inner3)" for s t k
  proof -
    have res: "\<And>p b t. import_resolve p index b = Some t \<Longrightarrow> t \<in> ran index"
      by (auto simp: import_resolve_def intro: ranI split: option.splits)
    from that 3 n2(2) consider
        n :: node where "(s, t, k) \<in> node_edges index index (n_id n) n"
      | p :: "'a resolved_package" and n :: node where "(s, t, k) \<in> node_edges index (import_resolve (rp_package p) index)
          (qualify (rp_package p) (n_id n)) n"
      by auto
    then show ?thesis by cases (use node_edges_ok res ranI in \<open>metis (mono_tags)\<close>)+
  qed
  then have "edges_ok inner3 index" by (auto simp: edges_ok_def)
  moreover have "dg_nodes inner3 = dg_nodes inner" using 3 n2 by simp
  ultimately show ?ok
    using 2(1) index_ok_cong [of inner3 inner index] by (simp add: b graph_ok_def)
  show ?ids using 2 by (simp add: b node_ids_def index_ok_def)
qed

section \<open>Queries: lemmas\<close>

definition dep_arcs :: "agm_graph \<Rightarrow> (nat \<times> nat) set" where
  "dep_arcs g = {(s, t). (s, t, Depends) \<in> set (dg_edges (g_inner g))}"

lemma set_depends_out: "petgraph_ok pg \<Longrightarrow> set (depends_out pg g) = dep_arcs g"
  by (auto simp: depends_out_def dep_arcs_def petgraph_edges image_iff intro!: bexI)

lemma set_depends_in: "petgraph_ok pg \<Longrightarrow> set (depends_in pg g) = (dep_arcs g)\<inverse>"
  by (auto simp: depends_in_def dep_arcs_def petgraph_edges image_iff intro!: bexI)

lemma arcs_depends_subgraph: "set (arcs (depends_subgraph g)) = dep_arcs g"
  by (auto simp: arcs_def depends_subgraph_def dep_arcs_def image_iff intro!: bexI)

lemma graph_ok_index:
  "graph_ok g \<Longrightarrow> g_index g i = Some k \<Longrightarrow> k < node_count g \<and> dg_nodes (g_inner g) ! k = i"
  by (simp add: graph_ok_def index_ok_def node_count_def)

lemma graph_ok_inj: "graph_ok g \<Longrightarrow> g_index g a = Some s \<Longrightarrow> g_index g b = Some s \<Longrightarrow> a = b"
  unfolding graph_ok_def by (meson index_ok_inj)

lemma dep_arcs_index:
  "graph_ok g \<Longrightarrow> (s, t) \<in> dep_arcs g \<Longrightarrow>
     \<exists>a b. g_index g a = Some s \<and> g_index g b = Some t \<and> (a, b) \<in> graph_rel g Depends"
  by (auto simp: graph_ok_def edges_ok_def dep_arcs_def graph_rel_def ran_def) metis

lemma graph_rel_arcs:
  "g_index g a = Some s \<Longrightarrow> g_index g b = Some t \<Longrightarrow> (a, b) \<in> graph_rel g Depends \<longleftrightarrow> (s, t) \<in> dep_arcs g"
  by (simp add: graph_rel_def dep_arcs_def)

lemma graph_rel_dom: "(a, b) \<in> graph_rel g k \<Longrightarrow> (\<exists>s. g_index g a = Some s) \<and> (\<exists>t. g_index g b = Some t)"
  by (auto simp: graph_rel_def)

lemma trancl_arcs_index:
  assumes "graph_ok g" and "(s, t) \<in> (dep_arcs g)\<^sup>+" and "g_index g a = Some s"
  shows "\<exists>b. g_index g b = Some t \<and> (a, b) \<in> (graph_rel g Depends)\<^sup>+"
  using assms(2)
proof (induction rule: trancl_induct)
  case (base t)
  then show ?case
    using dep_arcs_index [OF assms(1) base] graph_ok_inj [OF assms(1,3)] by blast
next
  case (step t u)
  then obtain b where b: "g_index g b = Some t" "(a, b) \<in> (graph_rel g Depends)\<^sup>+" by blast
  obtain c where "g_index g c = Some u" "(b, c) \<in> graph_rel g Depends"
    using dep_arcs_index [OF assms(1) step(2)] graph_ok_inj [OF assms(1) b(1)] by blast
  with b show ?case by (meson trancl_into_trancl)
qed

lemma trancl_rel_arcs:
  assumes "(a, b) \<in> (graph_rel g Depends)\<^sup>+" and "g_index g a = Some s"
  shows "\<exists>t. g_index g b = Some t \<and> (s, t) \<in> (dep_arcs g)\<^sup>+"
  using assms(1)
proof (induction rule: trancl_induct)
  case (base b)
  then show ?case
    using assms(2) graph_rel_dom [OF base] graph_rel_arcs by blast
next
  case (step b c)
  then obtain t where t: "g_index g b = Some t" "(s, t) \<in> (dep_arcs g)\<^sup>+" by blast
  obtain u where "g_index g c = Some u" using graph_rel_dom [OF step(2)] by blast
  with t step(2) show ?case by (meson graph_rel_arcs trancl_into_trancl)
qed

lemma trancl_arcs_iff:
  assumes "graph_ok g" and "g_index g a = Some s" and "g_index g b = Some t"
  shows "(s, t) \<in> (dep_arcs g)\<^sup>+ \<longleftrightarrow> (a, b) \<in> (graph_rel g Depends)\<^sup>+"
proof
  assume "(s, t) \<in> (dep_arcs g)\<^sup>+"
  then show "(a, b) \<in> (graph_rel g Depends)\<^sup>+"
    using trancl_arcs_index [OF assms(1) _ assms(2)] graph_ok_inj [OF assms(1) assms(3)] by blast
next
  assume "(a, b) \<in> (graph_rel g Depends)\<^sup>+"
  then show "(s, t) \<in> (dep_arcs g)\<^sup>+"
    using trancl_rel_arcs [OF _ assms(2)] assms(3) by fastforce
qed

lemma acyclic_arcs_iff: "graph_ok g \<Longrightarrow> acyclic (dep_arcs g) \<longleftrightarrow> acyclic (graph_rel g Depends)"
proof -
  assume g: "graph_ok g"
  have "\<exists>a. g_index g a = Some s" if "(s, s) \<in> (dep_arcs g)\<^sup>+" for s
    using that dep_arcs_index [OF g] by (meson tranclD)
  moreover have "\<exists>s. g_index g a = Some s" if "(a, a) \<in> (graph_rel g Depends)\<^sup>+" for a
    using that graph_rel_dom by (meson tranclD)
  ultimately show ?thesis
    unfolding acyclic_def using trancl_arcs_iff [OF g] by meson
qed

text \<open>The set a search from \<open>start\<close> returns, for arcs that represent the relation \<open>r\<close>.\<close>

lemma dfs_result:
  "set (filter (\<lambda>idx. idx \<noteq> start) (dfs as [start] [start])) = {t. (start, t) \<in> (set as)\<^sup>+ \<and> t \<noteq> start}"
  unfolding set_filter dfs_reach by (auto simp: rtrancl_eq_or_trancl)

lemma transitive_deps_graph:
  assumes "petgraph_ok pg" and "graph_ok g"
  shows "transitive_deps pg g i = {j. (i, j) \<in> (graph_rel g Depends)\<^sup>+ \<and> j \<noteq> i}"
proof (cases "g_index g i")
  case None
  then have "(i, j) \<notin> (graph_rel g Depends)\<^sup>+" for j
    using graph_rel_dom by (metis option.distinct(1) tranclD)
  then show ?thesis using None by (simp add: transitive_deps_def)
next
  case (Some s)
  let ?w = "\<lambda>idx. dg_nodes (g_inner g) ! idx"
  have "transitive_deps pg g i = ?w ` {t. (s, t) \<in> (dep_arcs g)\<^sup>+ \<and> t \<noteq> s}"
    unfolding transitive_deps_def Some Let_def option.case set_map dfs_result
      set_depends_out [OF assms(1)] ..
  also have "\<dots> = {j. (i, j) \<in> (graph_rel g Depends)\<^sup>+ \<and> j \<noteq> i}"
  proof (intro subset_antisym subsetI)
    fix j assume "j \<in> ?w ` {t. (s, t) \<in> (dep_arcs g)\<^sup>+ \<and> t \<noteq> s}"
    then obtain t where t: "j = ?w t" "(s, t) \<in> (dep_arcs g)\<^sup>+" "t \<noteq> s" by blast
    then obtain b where b: "g_index g b = Some t" "(i, b) \<in> (graph_rel g Depends)\<^sup>+"
      using trancl_arcs_index [OF assms(2) _ Some] by blast
    then have "b = j" using graph_ok_index [OF assms(2) b(1)] t(1) by simp
    then show "j \<in> {j. (i, j) \<in> (graph_rel g Depends)\<^sup>+ \<and> j \<noteq> i}" using b t(3) Some by auto
  next
    fix j assume "j \<in> {j. (i, j) \<in> (graph_rel g Depends)\<^sup>+ \<and> j \<noteq> i}"
    then have j: "(i, j) \<in> (graph_rel g Depends)\<^sup>+" "j \<noteq> i" by auto
    then obtain t where t: "g_index g j = Some t" "(s, t) \<in> (dep_arcs g)\<^sup>+"
      using trancl_rel_arcs Some by blast
    moreover have "t \<noteq> s" using graph_ok_inj [OF assms(2) t(1)] Some j(2) by blast
    moreover have "?w t = j" using graph_ok_index [OF assms(2) t(1)] by simp
    ultimately show "j \<in> ?w ` {t. (s, t) \<in> (dep_arcs g)\<^sup>+ \<and> t \<noteq> s}" by blast
  qed
  finally show ?thesis .
qed

lemma transitive_dependents_graph:
  assumes "petgraph_ok pg" and "graph_ok g"
  shows "transitive_dependents pg g i = {j. (j, i) \<in> (graph_rel g Depends)\<^sup>+ \<and> j \<noteq> i}"
proof (cases "g_index g i")
  case None
  then have "(j, i) \<notin> (graph_rel g Depends)\<^sup>+" for j
    using graph_rel_dom by (metis option.distinct(1) tranclD2)
  then show ?thesis using None by (simp add: transitive_dependents_def)
next
  case (Some s)
  let ?w = "\<lambda>idx. dg_nodes (g_inner g) ! idx"
  have "transitive_dependents pg g i = ?w ` {t. (t, s) \<in> (dep_arcs g)\<^sup>+ \<and> t \<noteq> s}"
    unfolding transitive_dependents_def Some Let_def option.case set_map dfs_result
      set_depends_in [OF assms(1)] trancl_converse converse_iff ..
  also have "\<dots> = {j. (j, i) \<in> (graph_rel g Depends)\<^sup>+ \<and> j \<noteq> i}"
  proof (intro subset_antisym subsetI)
    fix j assume "j \<in> ?w ` {t. (t, s) \<in> (dep_arcs g)\<^sup>+ \<and> t \<noteq> s}"
    then obtain t where t: "j = ?w t" "(t, s) \<in> (dep_arcs g)\<^sup>+" "t \<noteq> s" by blast
    then obtain b where b: "g_index g b = Some t"
      using dep_arcs_index [OF assms(2)] by (meson tranclD)
    then have "b = j" using graph_ok_index [OF assms(2) b] t(1) by simp
    then show "j \<in> {j. (j, i) \<in> (graph_rel g Depends)\<^sup>+ \<and> j \<noteq> i}"
      using b t(2,3) Some trancl_arcs_iff [OF assms(2) b Some] by auto
  next
    fix j assume "j \<in> {j. (j, i) \<in> (graph_rel g Depends)\<^sup>+ \<and> j \<noteq> i}"
    then have j: "(j, i) \<in> (graph_rel g Depends)\<^sup>+" "j \<noteq> i" by auto
    then obtain t where t: "g_index g j = Some t"
      using graph_rel_dom by (meson tranclD)
    moreover have "(t, s) \<in> (dep_arcs g)\<^sup>+" using j(1) trancl_arcs_iff [OF assms(2) t Some] by blast
    moreover have "t \<noteq> s" using graph_ok_inj [OF assms(2) t] Some j(2) by blast
    moreover have "?w t = j" using graph_ok_index [OF assms(2) t] by simp
    ultimately show "j \<in> ?w ` {t. (t, s) \<in> (dep_arcs g)\<^sup>+ \<and> t \<noteq> s}" by blast
  qed
  finally show ?thesis .
qed

lemma seen_fold:
  "bt_ok seen \<Longrightarrow> bt_ok (fold (\<lambda>p seen. bt_insert p () seen) ps seen) \<and>
     fst ` set (fold (\<lambda>p seen. bt_insert p () seen) ps seen) = fst ` set seen \<union> set ps"
  by (induction ps arbitrary: seen) (auto simp: set_bt_insert)

lemma find_conflicts_graph:
  assumes "graph_ok g"
  shows "sorted_wrt (<) (find_conflicts g)"
    and "set (find_conflicts g) =
      (\<lambda>(a, b). if a \<le> b then (a, b) else (b, a)) ` graph_rel g Conflicts"
proof -
  let ?w = "\<lambda>idx. dg_nodes (g_inner g) ! idx"
  let ?f = "\<lambda>(s, t, k). if ?w s \<le> ?w t then (?w s, ?w t) else (?w t, ?w s)"
  let ?pairs = "map ?f (filter (\<lambda>(s, t, k). k = Conflicts) (dg_edges (g_inner g)))"
  let ?seen = "fold (\<lambda>p seen. bt_insert p () seen) ?pairs []"
  have eq: "find_conflicts g = map fst ?seen" by (simp add: find_conflicts_def Let_def)
  show "sorted_wrt (<) (find_conflicts g)"
    using seen_fold [of "[]" ?pairs] unfolding eq bt_ok_def by simp
  have "set (find_conflicts g) = set ?pairs"
    using seen_fold [of "[]" ?pairs] unfolding eq by simp
  also have "\<dots> = (\<lambda>(a, b). if a \<le> b then (a, b) else (b, a)) ` graph_rel g Conflicts"
  proof (intro subset_antisym subsetI)
    fix p assume "p \<in> set ?pairs"
    then obtain s t where st: "(s, t, Conflicts) \<in> set (dg_edges (g_inner g))" "p = ?f (s, t, Conflicts)"
      by auto
    then obtain a b where "g_index g a = Some s" "g_index g b = Some t"
      using assms by (auto simp: graph_ok_def edges_ok_def ran_def) metis
    moreover from this have "?w s = a" "?w t = b" using graph_ok_index [OF assms] by auto
    moreover have "(a, b) \<in> graph_rel g Conflicts" using calculation st by (auto simp: graph_rel_def)
    ultimately show "p \<in> (\<lambda>(a, b). if a \<le> b then (a, b) else (b, a)) ` graph_rel g Conflicts"
      using st(2) by (intro image_eqI [of _ _ "(a, b)"]) auto
  next
    fix p assume "p \<in> (\<lambda>(a, b). if a \<le> b then (a, b) else (b, a)) ` graph_rel g Conflicts"
    then obtain a b where ab: "(a, b) \<in> graph_rel g Conflicts" "p = (if a \<le> b then (a, b) else (b, a))"
      by auto
    then obtain s t where st: "g_index g a = Some s" "g_index g b = Some t"
      "(s, t, Conflicts) \<in> set (dg_edges (g_inner g))" by (auto simp: graph_rel_def)
    then have "?w s = a" "?w t = b" using graph_ok_index [OF assms] by auto
    then have "p = ?f (s, t, Conflicts)" using ab(2) by simp
    then show "p \<in> set ?pairs" using st(3) by force
  qed
  finally show "set (find_conflicts g) =
      (\<lambda>(a, b). if a \<le> b then (a, b) else (b, a)) ` graph_rel g Conflicts" .
qed

section \<open>Cycles and topological order: lemmas\<close>

lemma graph_ok_edge:
  "graph_ok g \<Longrightarrow> (s, t, k) \<in> set (dg_edges (g_inner g)) \<Longrightarrow>
     \<exists>a b. g_index g a = Some s \<and> g_index g b = Some t"
  unfolding graph_ok_def edges_ok_def ran_def by blast

lemma depends_subgraph_ok:
  assumes "graph_ok g"
  shows "digraph_ok (depends_subgraph g)"
proof -
  have "s < length (dg_nodes (g_inner g)) \<and> t < length (dg_nodes (g_inner g))"
    if edge: "(s, t, k) \<in> set (dg_edges (g_inner g))" for s t k
  proof -
    obtain a b where "g_index g a = Some s" "g_index g b = Some t"
      using graph_ok_edge [OF assms edge] by blast
    then show ?thesis using graph_ok_index [OF assms] by (auto simp: node_count_def)
  qed
  then show ?thesis by (auto simp: digraph_ok_def depends_subgraph_def)
qed

lemma nodes_depends_subgraph [simp]: "dg_nodes (depends_subgraph g) = dg_nodes (g_inner g)"
  by (simp add: depends_subgraph_def)

lemma self_loop_iff:
  "list_ex (\<lambda>e. fst e = idx \<and> fst (snd e) = idx) (dg_edges (depends_subgraph g)) \<longleftrightarrow> (idx, idx) \<in> dep_arcs g"
  by (force simp: depends_subgraph_def dep_arcs_def list_ex_iff)

lemma scc_cycle_Some:
  "scc_cycle (depends_subgraph g) c = Some ids \<longleftrightarrow>
     ids = map (\<lambda>idx. dg_nodes (g_inner g) ! idx) c \<and>
     (1 < length c \<or> (\<exists>idx. c = [idx] \<and> (idx, idx) \<in> dep_arcs g))"
  by (auto simp: scc_cycle_def self_loop_iff split: list.splits)

lemma trancl_self_cases:
  assumes "(i, i) \<in> r\<^sup>+"
  obtains "(i, i) \<in> r" | j where "j \<noteq> i" "(i, j) \<in> r\<^sup>+" "(j, i) \<in> r\<^sup>+"
proof -
  from assms obtain j where j: "(i, j) \<in> r" "(j, i) \<in> r\<^sup>*" by (meson tranclD)
  show ?thesis
  proof (cases "j = i")
    case False
    then have "(j, i) \<in> r\<^sup>+" using j(2) by (metis rtranclD)
    with False j(1) that(2) show ?thesis by blast
  qed (use j that in auto)
qed

text \<open>A component is reported exactly when its members lie on a cycle.\<close>

lemma reported_component:
  assumes "petgraph_ok pg" and "graph_ok g" and "c \<in> set (pg_tarjan pg (depends_subgraph g))"
    and "i \<in> set c"
  shows "(\<exists>ids. scc_cycle (depends_subgraph g) c = Some ids) \<longleftrightarrow> (i, i) \<in> (dep_arcs g)\<^sup>+"
proof -
  note t = petgraph_tarjan [OF assms(1) depends_subgraph_ok [OF assms(2)]]
  let ?cs = "pg_tarjan pg (depends_subgraph g)"
  have dist: "distinct (concat ?cs)"
    using t(1) by (metis distinct_upt mset_eq_imp_distinct_iff)
  have range: "j < length (dg_nodes (g_inner g))" if "d \<in> set ?cs" "j \<in> set d" for d j
  proof -
    have "j \<in> set (concat ?cs)" using that by auto
    then show ?thesis using mset_eq_setD [OF t(1)] by (metis atLeastLessThan_iff
          nodes_depends_subgraph set_upt)
  qed
  have same: "j \<in> set c \<longleftrightarrow> (i, j) \<in> (dep_arcs g)\<^sup>* \<and> (j, i) \<in> (dep_arcs g)\<^sup>*"
    if "j < length (dg_nodes (g_inner g))" for j
  proof -
    have "d = c" if "d \<in> set ?cs" "i \<in> set d" for d
      using dist assms(3,4) that unfolding distinct_concat_iff by blast
    then have "(\<exists>d \<in> set ?cs. i \<in> set d \<and> j \<in> set d) \<longleftrightarrow> j \<in> set c"
      using assms(3,4) by blast
    moreover have "i < length (dg_nodes (depends_subgraph g))" "j < length (dg_nodes (depends_subgraph g))"
      using range [OF assms(3,4)] that by simp_all
    ultimately show ?thesis
      using t(3) [of i j] by (simp add: arcs_depends_subgraph)
  qed
  have "(i, i) \<in> (dep_arcs g)\<^sup>+" if "1 < length c"
  proof -
    have "distinct c" using dist assms(3) by (simp add: distinct_concat_iff)
    with that have "card (set c) > 1" by (simp add: distinct_card)
    then have "\<not> set c \<subseteq> {i}" using card_mono [of "{i}" "set c"] by auto
    then obtain j where j: "j \<in> set c" "j \<noteq> i" by blast
    then have "(i, j) \<in> (dep_arcs g)\<^sup>*" "(j, i) \<in> (dep_arcs g)\<^sup>*"
      using same range [OF assms(3)] by blast+
    with j(2) show ?thesis by (metis rtranclD trancl_rtrancl_trancl)
  qed
  moreover have "1 < length c \<or> c = [i] \<and> (i, i) \<in> dep_arcs g" if "(i, i) \<in> (dep_arcs g)\<^sup>+"
    using that
  proof (cases rule: trancl_self_cases)
    case 1
    then show ?thesis using assms(4) by (cases c) auto
  next
    case (2 j)
    have "\<exists>b. g_index g b = Some j" using dep_arcs_index [OF assms(2)] 2(3) by (meson tranclD)
    then have "j < length (dg_nodes (g_inner g))"
      using graph_ok_index [OF assms(2)] by (auto simp: node_count_def)
    then have "j \<in> set c" using same 2(2,3) by (simp add: trancl_into_rtrancl)
    then have "card {i, j} \<le> card (set c)" using assms(4) by (intro card_mono) auto
    then show ?thesis using 2(1) card_length [of c] by simp
  qed
  moreover have "(i, i) \<in> (dep_arcs g)\<^sup>+" if "c = [k]" "(k, k) \<in> dep_arcs g" for k
    using that assms(4) by auto
  ultimately show ?thesis
    unfolding scc_cycle_Some by blast
qed

lemma detect_cycles_iff:
  "ids \<in> set (detect_cycles pg g) \<longleftrightarrow>
     (\<exists>c \<in> set (pg_tarjan pg (depends_subgraph g)). scc_cycle (depends_subgraph g) c = Some ids)"
  by (force simp: detect_cycles_def List.map_filter_def Let_def)

lemma detect_cycles_members:
  assumes "petgraph_ok pg" and "graph_ok g" and "ids \<in> set (detect_cycles pg g)"
  shows "ids \<noteq> []"
    and "a \<in> set ids \<Longrightarrow> b \<in> set ids \<Longrightarrow> (a, b) \<in> (graph_rel g Depends)\<^sup>+"
proof -
  note t = petgraph_tarjan [OF assms(1) depends_subgraph_ok [OF assms(2)]]
  obtain c where c: "c \<in> set (pg_tarjan pg (depends_subgraph g))"
    "scc_cycle (depends_subgraph g) c = Some ids"
    using assms(3) unfolding detect_cycles_iff by blast
  have ids: "ids = map (\<lambda>idx. dg_nodes (g_inner g) ! idx) c" using c(2) by (simp add: scc_cycle_Some)
  show "ids \<noteq> []" using ids t(2) c(1) by auto
  assume "a \<in> set ids" "b \<in> set ids"
  then obtain i j where ij: "i \<in> set c" "j \<in> set c" "a = dg_nodes (g_inner g) ! i"
    "b = dg_nodes (g_inner g) ! j" using ids by auto
  have on: "(k, k) \<in> (dep_arcs g)\<^sup>+" if "k \<in> set c" for k
    using reported_component [OF assms(1,2) c(1) that] c(2) by blast
  have idx: "\<exists>x. g_index g x = Some k \<and> dg_nodes (g_inner g) ! k = x" if "k \<in> set c" for k
  proof -
    obtain j where "(k, j) \<in> dep_arcs g" using on [OF \<open>k \<in> set c\<close>] by (meson tranclD)
    then obtain x where "g_index g x = Some k" using dep_arcs_index [OF assms(2)] by blast
    then show ?thesis using graph_ok_index [OF assms(2)] by blast
  qed
  have ab: "g_index g a = Some i" "g_index g b = Some j" using idx ij by auto
  then have "i < length (dg_nodes (g_inner g))" "j < length (dg_nodes (g_inner g))"
    using graph_ok_index [OF assms(2)] by (auto simp: node_count_def)
  then have "(i, j) \<in> (dep_arcs g)\<^sup>*"
    using t(3) [of i j] c(1) ij(1,2) by (auto simp: arcs_depends_subgraph)
  then have "(i, j) \<in> (dep_arcs g)\<^sup>+" using on [OF ij(1)] by (meson trancl_rtrancl_trancl)
  then show "(a, b) \<in> (graph_rel g Depends)\<^sup>+"
    using trancl_arcs_iff [OF assms(2) ab] by blast
qed

lemma detect_cycles_complete:
  assumes "petgraph_ok pg" and "graph_ok g" and "(a, a) \<in> (graph_rel g Depends)\<^sup>+"
  shows "\<exists>ids \<in> set (detect_cycles pg g). a \<in> set ids"
proof -
  note t = petgraph_tarjan [OF assms(1) depends_subgraph_ok [OF assms(2)]]
  obtain i where i: "g_index g a = Some i" using assms(3) graph_rel_dom by (meson tranclD)
  have range: "i < length (dg_nodes (g_inner g))" and w: "dg_nodes (g_inner g) ! i = a"
    using graph_ok_index [OF assms(2) i] by (auto simp: node_count_def)
  have cyc: "(i, i) \<in> (dep_arcs g)\<^sup>+" using trancl_arcs_iff [OF assms(2) i i] assms(3) by blast
  have "i \<in> set (concat (pg_tarjan pg (depends_subgraph g)))"
    using mset_eq_setD [OF t(1)] range by simp
  then obtain c where c: "c \<in> set (pg_tarjan pg (depends_subgraph g))" "i \<in> set c" by auto
  then obtain ids where ids: "scc_cycle (depends_subgraph g) c = Some ids"
    using reported_component [OF assms(1,2) c] cyc by blast
  then have "ids = map (\<lambda>idx. dg_nodes (g_inner g) ! idx) c" by (simp add: scc_cycle_Some)
  then have "a \<in> set ids" using c(2) w by force
  moreover have "ids \<in> set (detect_cycles pg g)" using c(1) ids detect_cycles_iff by blast
  ultimately show ?thesis by blast
qed

lemma detect_cycles_Nil:
  assumes "petgraph_ok pg" and "graph_ok g"
  shows "detect_cycles pg g = [] \<longleftrightarrow> acyclic (graph_rel g Depends)"
proof
  assume "detect_cycles pg g = []"
  then show "acyclic (graph_rel g Depends)"
    unfolding acyclic_def using detect_cycles_complete [OF assms] by fastforce
next
  assume ac: "acyclic (graph_rel g Depends)"
  show "detect_cycles pg g = []"
  proof (rule ccontr)
    assume "detect_cycles pg g \<noteq> []"
    then obtain ids where ids: "ids \<in> set (detect_cycles pg g)" by (meson list.set_sel(1))
    then obtain a where "a \<in> set ids"
      using detect_cycles_members(1) [OF assms ids] by (meson list.set_sel(1))
    then show False
      using detect_cycles_members(2) [OF assms ids] ac unfolding acyclic_def by blast
  qed
qed

text \<open>\<open>ids\<close> lists the dependencies of every node before it.\<close>

definition deps_first :: "(string \<times> string) set \<Rightarrow> string list \<Rightarrow> bool" where
  "deps_first r ids \<longleftrightarrow> (\<forall>(a, b) \<in> r. \<exists>ys zs. ids = ys @ b # zs \<and> a \<in> set zs)"

lemma topological_sort_Inr:
  assumes "petgraph_ok pg" and "graph_ok g" and "topological_sort pg g = Inr ids"
  shows "acyclic (graph_rel g Depends)" and "mset ids = mset (dg_nodes (g_inner g))"
    and "deps_first (graph_rel g Depends) ids"
proof -
  let ?w = "\<lambda>idx. dg_nodes (g_inner g) ! idx"
  obtain xs where xs: "pg_toposort pg (depends_subgraph g) = Some xs" "ids = map ?w (rev xs)"
    using assms(3) by (auto simp: topological_sort_def Let_def split: option.splits)
  note t = petgraph_topo_Some [OF assms(1) depends_subgraph_ok [OF assms(2)] xs(1)]
  have topo: "topo_order (dep_arcs g) xs" using t by (simp add: arcs_depends_subgraph)
  have "distinct xs" using t by (metis distinct_upt mset_eq_imp_distinct_iff)
  then show "acyclic (graph_rel g Depends)"
    using topo_order_acyclic [OF topo] acyclic_arcs_iff [OF assms(2)] by blast
  have "mset ids = image_mset ?w (mset [0..<length (dg_nodes (g_inner g))])"
    using t xs(2) by (metis mset_map mset_rev nodes_depends_subgraph)
  also have "\<dots> = mset (dg_nodes (g_inner g))" by (metis map_nth mset_map)
  finally show "mset ids = mset (dg_nodes (g_inner g))" .
  show "deps_first (graph_rel g Depends) ids"
    unfolding deps_first_def
  proof (intro ballI, clarify)
    fix a b assume ab: "(a, b) \<in> graph_rel g Depends"
    then obtain s t where st: "g_index g a = Some s" "g_index g b = Some t" "(s, t) \<in> dep_arcs g"
      by (auto simp: graph_rel_def dep_arcs_def)
    then obtain ys zs where sp: "xs = ys @ s # zs" "t \<in> set zs"
      using topo unfolding topo_order_def by fast
    obtain us vs where zs: "zs = us @ t # vs" using split_list [OF sp(2)] by blast
    have "?w s = a" "?w t = b" using st graph_ok_index [OF assms(2)] by auto
    then have "ids = map ?w (rev vs) @ b # (map ?w (rev us) @ a # map ?w (rev ys))"
      using xs(2) sp(1) zs by simp
    then show "\<exists>ys zs. ids = ys @ b # zs \<and> a \<in> set zs" by fastforce
  qed
qed

lemma set_cycle_error_new: "set (ce_cycle (cycle_error_new path)) = set path"
  by (cases path) (auto simp: cycle_error_new_def)

lemma topological_sort_Inl:
  assumes "petgraph_ok pg" and "graph_ok g" and "topological_sort pg g = Inl e"
  shows "\<not> acyclic (graph_rel g Depends)" and "ce_cycle e \<noteq> []"
    and "a \<in> set (ce_cycle e) \<Longrightarrow> b \<in> set (ce_cycle e) \<Longrightarrow> (a, b) \<in> (graph_rel g Depends)\<^sup>+"
proof -
  have none: "pg_toposort pg (depends_subgraph g) = None"
    and e: "e = cycle_error_new (case detect_cycles pg g of [] \<Rightarrow> [] | c # _ \<Rightarrow> c)"
    using assms(3) by (auto simp: topological_sort_def Let_def split: option.splits)
  show cyc: "\<not> acyclic (graph_rel g Depends)"
    using petgraph_topo_None [OF assms(1) depends_subgraph_ok [OF assms(2)] none]
    by (simp add: arcs_depends_subgraph acyclic_arcs_iff [OF assms(2)])
  then obtain c cs where d: "detect_cycles pg g = c # cs"
    using detect_cycles_Nil [OF assms(1,2)] by (cases "detect_cycles pg g") auto
  then have c: "c \<in> set (detect_cycles pg g)" by simp
  have s: "set (ce_cycle e) = set c" using e d by (simp add: set_cycle_error_new)
  show "ce_cycle e \<noteq> []" using s detect_cycles_members(1) [OF assms(1,2) c] by auto
  show "a \<in> set (ce_cycle e) \<Longrightarrow> b \<in> set (ce_cycle e) \<Longrightarrow> (a, b) \<in> (graph_rel g Depends)\<^sup>+"
    using s detect_cycles_members(2) [OF assms(1,2) c] by auto
qed

section \<open>Properties\<close>

text \<open>The graph built from a file has exactly the edges the file declares: for each of
  the five relationship fields, an edge from a node to every id it names that the file
  defines, and no other (unknown targets are dropped); its nodes are the ids of the file.\<close>

lemma build_graph_correct:
  "graph_rel (build_graph file) k = declared file k \<and> node_ids (build_graph file) = file_ids file"
  using build_graph_props(3) [of "file" k] build_graph_index [of "file"]
  by (auto simp: node_ids_def)

text \<open>\<open>transitive_deps\<close> returns exactly the nodes reachable from a node over one or more
  declared \<open>depends\<close> edges, the node itself excluded.\<close>

lemma transitive_deps_correct:
  assumes "petgraph_ok pg"
  shows "transitive_deps pg (build_graph file) i = {j. (i, j) \<in> (dep_rel file)\<^sup>+ \<and> j \<noteq> i}"
  using transitive_deps_graph [OF assms build_graph_props(1)] by (simp add: build_graph_props(3))

text \<open>\<open>transitive_dependents\<close> returns exactly the nodes from which a node is reachable
  over one or more declared \<open>depends\<close> edges, the node itself excluded.\<close>

lemma transitive_dependents_correct:
  assumes "petgraph_ok pg"
  shows "transitive_dependents pg (build_graph file) i = {j. (j, i) \<in> (dep_rel file)\<^sup>+ \<and> j \<noteq> i}"
  using transitive_dependents_graph [OF assms build_graph_props(1)] by (simp add: build_graph_props(3))

text \<open>C19: \<open>topological_sort\<close> succeeds exactly on files whose \<open>depends\<close> relation has no
  cycle; then it returns every node once with all its dependencies before it. Otherwise the
  error names a non-empty set of nodes that all lie on a common cycle.\<close>

theorem topological_sort_correct:
  assumes "petgraph_ok pg"
  shows "case topological_sort pg (build_graph file) of
      Inr ids \<Rightarrow> acyclic (dep_rel file) \<and> mset ids = mset (map n_id (f_nodes file)) \<and>
        deps_first (dep_rel file) ids
    | Inl e \<Rightarrow> \<not> acyclic (dep_rel file) \<and> ce_cycle e \<noteq> [] \<and>
        set (ce_cycle e) \<times> set (ce_cycle e) \<subseteq> (dep_rel file)\<^sup>+"
proof (cases "topological_sort pg (build_graph file)")
  case (Inl e)
  then show ?thesis
    using topological_sort_Inl [OF assms build_graph_props(1) Inl]
    by (auto simp: build_graph_props(3))
next
  case (Inr ids)
  then show ?thesis
    using topological_sort_Inr [OF assms build_graph_props(1) Inr]
    by (simp add: build_graph_props(2,3))
qed

text \<open>\<open>detect_cycles\<close> reports a node if and only if the node lies on a \<open>depends\<close>
  cycle (a self-dependency included), and all nodes of one report lie on a common cycle.\<close>

lemma detect_cycles_correct:
  assumes "petgraph_ok pg"
  shows "(\<forall>a. (\<exists>ids \<in> set (detect_cycles pg (build_graph file)). a \<in> set ids) \<longleftrightarrow>
      (a, a) \<in> (dep_rel file)\<^sup>+) \<and>
    (\<forall>ids \<in> set (detect_cycles pg (build_graph file)). set ids \<times> set ids \<subseteq> (dep_rel file)\<^sup>+)"
proof (intro conjI allI ballI)
  fix a ids
  note m = detect_cycles_members(2) [OF assms build_graph_props(1), unfolded build_graph_props(3)]
  show "(\<exists>ids \<in> set (detect_cycles pg (build_graph file)). a \<in> set ids) \<longleftrightarrow> (a, a) \<in> (dep_rel file)\<^sup>+"
    using m detect_cycles_complete [OF assms build_graph_props(1), unfolded build_graph_props(3)]
    by blast
  assume "ids \<in> set (detect_cycles pg (build_graph file))"
  then show "set ids \<times> set ids \<subseteq> (dep_rel file)\<^sup>+" using m by auto
qed

text \<open>\<open>find_conflicts\<close> returns, in strictly increasing order and so without
  duplicates, the declared conflicts with the smaller id first.\<close>

lemma find_conflicts_correct:
  "sorted_wrt (<) (find_conflicts (build_graph file)) \<and>
   set (find_conflicts (build_graph file)) =
     (\<lambda>(a, b). if a \<le> b then (a, b) else (b, a)) ` declared file Conflicts"
  using find_conflicts_graph [OF build_graph_props(1) [of "file"]] by (simp add: build_graph_props(3))

section \<open>Instances\<close>

definition sample_header :: header where
  "sample_header =
     \<lparr>h_agm = ''1'', h_package = ''test.pkg'', h_version = ''0.1.0'', h_title = None,
      h_owner = None, h_imports = None, h_default_load = None, h_description = None,
      h_tags = None, h_status = None, h_load_profiles = None, h_target_runtime = None\<rparr>"

definition sample_node :: "string \<Rightarrow> string list \<Rightarrow> node" where
  "sample_node i deps = node_default\<lparr>n_id := i, n_depends := Some deps\<rparr>"

definition sample_chain :: agm_file where
  "sample_chain = \<lparr>f_header = sample_header,
     f_nodes = [sample_node ''a'' [''b''], sample_node ''b'' [''c'', ''x''], sample_node ''c'' []]\<rparr>"

definition sample_loop :: agm_file where
  "sample_loop = \<lparr>f_header = sample_header,
     f_nodes = [sample_node ''a'' [''b''], sample_node ''b'' [''a''], sample_node ''c'' [''b'']]\<rparr>"

lemmas sample_simps = sample_chain_def sample_loop_def sample_node_def sample_header_def
  node_default_def span_new_def

lemma dep_rel_sample_chain: "dep_rel sample_chain = {(''a'', ''b''), (''b'', ''c'')}"
  by (auto simp: declared_def file_ids_def targets_of_def unwrap_list_def sample_simps)

lemma transitive_deps_correct_witness:
  "petgraph_ok pg_ref \<and> ''c'' \<in> transitive_deps pg_ref (build_graph sample_chain) ''a''"
proof -
  have "(''a'', ''c'') \<in> (dep_rel sample_chain)\<^sup>+"
    unfolding dep_rel_sample_chain by (rule trancl_into_trancl [OF r_into_trancl]) auto
  then show ?thesis
    using transitive_deps_correct [OF pg_ref_ok, of sample_chain "''a''"] pg_ref_ok by auto
qed

lemma transitive_dependents_correct_witness:
  "petgraph_ok pg_ref \<and> ''a'' \<in> transitive_dependents pg_ref (build_graph sample_chain) ''c''"
proof -
  have "(''a'', ''c'') \<in> (dep_rel sample_chain)\<^sup>+"
    unfolding dep_rel_sample_chain by (rule trancl_into_trancl [OF r_into_trancl]) auto
  then show ?thesis
    using transitive_dependents_correct [OF pg_ref_ok, of sample_chain "''c''"] pg_ref_ok by auto
qed

lemma sample_chain_sorted:
  "topological_sort pg_ref (build_graph sample_chain) = Inr [''c'', ''b'', ''a'']"
  by code_simp

lemma topological_sort_correct_witness:
  "petgraph_ok pg_ref \<and> acyclic (dep_rel sample_chain) \<and>
   deps_first (dep_rel sample_chain) [''c'', ''b'', ''a'']"
  using topological_sort_correct [OF pg_ref_ok, of sample_chain] pg_ref_ok
  unfolding sample_chain_sorted by simp

lemma sample_loop_cycles: "detect_cycles pg_ref (build_graph sample_loop) = [[''a'', ''b'']]"
  by code_simp

lemma detect_cycles_correct_witness:
  "petgraph_ok pg_ref \<and> (''a'', ''b'') \<in> (dep_rel sample_loop)\<^sup>+ \<and>
   (''c'', ''c'') \<notin> (dep_rel sample_loop)\<^sup>+"
  using detect_cycles_correct [OF pg_ref_ok, of sample_loop] pg_ref_ok
  unfolding sample_loop_cycles by (force dest: spec [of _ "''c''"])

end
