(* ===== verification/Runtime_Env.thy ===== *)
theory Runtime_Env
  imports Mem_Sidecar Graph
begin

text \<open>
  What the run-time crates (\<open>crates/agm-cli/src/runtime/\<close>) take from the outside: the
  clock, the file system and the iteration order of hash tables. The clock and the faults
  of the file system are a parameter, the record \<open>env\<close>, whose functions read and change
  an abstract state of type \<open>'x\<close>; the contents of files are modelled, as the code writes
  them with \<open>std::fs\<close>.
\<close>

section \<open>The environment\<close>

text \<open>
  \<open>env_now\<close> and \<open>env_unix_nanos\<close> read the clock as RFC 3339 text and as nanoseconds,
  \<open>env_parse_rfc3339\<close> is the parser of the \<open>time\<close> crate, \<open>env_temp_name\<close> the file
  name the \<open>tempfile\<close> crate picks in a directory, \<open>env_instant\<close> a monotonic clock in
  milliseconds. Where a write to a file stops: after creating the file, after some bytes, before the
  sync or before the rename; \<open>IoOk\<close> is a write without fault.
\<close>

datatype io_fault = IoOk | CreateFails | WriteFails nat | SyncFails | RenameFails

record utc_time =
  utc_year :: nat
  utc_month :: nat
  utc_day :: nat
  utc_hour :: nat
  utc_minute :: nat
  utc_second :: nat

record 'x env =
  env_now :: "'x \<Rightarrow> string \<times> 'x"
  env_utc :: "'x \<Rightarrow> utc_time \<times> 'x"
  env_instant :: "'x \<Rightarrow> nat \<times> 'x"
  env_fault :: "'x \<Rightarrow> io_fault \<times> 'x"
  env_read_fault :: "'x \<Rightarrow> bool \<times> 'x"
  env_dir_fault :: "'x \<Rightarrow> bool \<times> 'x"
  env_temp_name :: "string \<Rightarrow> 'x \<Rightarrow> string \<times> 'x"
  env_unix_nanos :: "'x \<Rightarrow> int \<times> 'x"
  env_parse_rfc3339 :: "string \<Rightarrow> int option"
  env_hash_order :: "string list \<Rightarrow> string list"

type_synonym files = "string \<Rightarrow> string option"

record 'x world =
  w_files :: files
  w_rest :: 'x

definition hash_order_ok :: "'x env \<Rightarrow> bool" where
  "hash_order_ok env \<longleftrightarrow> (\<forall>ks. set (env_hash_order env ks) = set ks \<and> (distinct ks \<longrightarrow> distinct (env_hash_order env ks)))"

text \<open>The entries of a \<open>HashMap\<close> in the order it is iterated; the map itself is kept sorted.\<close>

definition hash_iter :: "'x env \<Rightarrow> (string, 'v) btree \<Rightarrow> (string \<times> 'v) list" where
  "hash_iter env m = List.map_filter (\<lambda>k. map_option (Pair k) (bt_get m k)) (env_hash_order env (map fst m))"

section \<open>Files\<close>

text \<open>
  Writing \<open>content\<close> to \<open>tmp\<close> and renaming it to \<open>path\<close>. The second component lists the
  states of the file system the operation goes through, the last one being the state it
  leaves: what a crash at any moment would find is one of them or the state before.
\<close>

definition write_steps :: "string \<Rightarrow> string \<Rightarrow> nat \<Rightarrow> files \<Rightarrow> files list" where
  "write_steps tmp content n fs = map (\<lambda>k. fs(tmp \<mapsto> take k content)) [0..<Suc n]"

definition replace_file ::
  "io_fault \<Rightarrow> string \<Rightarrow> string \<Rightarrow> string \<Rightarrow> files \<Rightarrow> (io_fault option) \<times> files list" where
  "replace_file fault tmp path content fs =
     (case fault of
        CreateFails \<Rightarrow> (Some CreateFails, [fs])
      | WriteFails n \<Rightarrow> (Some (WriteFails n), write_steps tmp content (min n (length content)) fs)
      | SyncFails \<Rightarrow> (Some SyncFails, write_steps tmp content (length content) fs)
      | RenameFails \<Rightarrow> (Some RenameFails, write_steps tmp content (length content) fs)
      | IoOk \<Rightarrow>
          (None,
           write_steps tmp content (length content) fs @ [fs(tmp := None, path \<mapsto> content)]))"

lemma replace_file_not_Nil [simp]: "snd (replace_file fault tmp path content fs) \<noteq> []"
  by (simp add: replace_file_def write_steps_def split: io_fault.split)

text \<open>The target has its old or its whole new content at every moment, other files never change.\<close>

lemma replace_file_atomic:
  assumes "tmp \<noteq> path" and "fs' \<in> set (snd (replace_file fault tmp path content fs))"
  shows "fs' path = fs path \<or> fs' path = Some content"
    and "p \<noteq> tmp \<Longrightarrow> p \<noteq> path \<Longrightarrow> fs' p = fs p"
  using assms by (auto simp: replace_file_def write_steps_def split: io_fault.splits)

lemma replace_file_result:
  assumes "tmp \<noteq> path"
  shows "fst (replace_file fault tmp path content fs) = None \<longleftrightarrow> fault = IoOk"
    and "fault = IoOk \<Longrightarrow> last (snd (replace_file fault tmp path content fs)) = fs(tmp := None, path \<mapsto> content)"
    and "fault \<noteq> IoOk \<Longrightarrow> last (snd (replace_file fault tmp path content fs)) path = fs path"
  using assms by (auto simp: replace_file_def write_steps_def last_map split: io_fault.splits)

lemma hash_iter_set:
  assumes "hash_order_ok env" and "bt_ok m"
  shows "set (hash_iter env m) = set m" and "distinct (map fst (hash_iter env m))"
proof -
  let ?ks = "env_hash_order env (map fst m)"
  have ks: "set ?ks = fst ` set m" using assms(1) by (simp add: hash_order_ok_def)
  show "set (hash_iter env m) = set m"
  proof (intro set_eqI, clarify)
    fix k v
    show "(k, v) \<in> set (hash_iter env m) \<longleftrightarrow> (k, v) \<in> set m"
      using bt.set_entries [OF assms(2), of k v] ks
      by (force simp: hash_iter_def List.map_filter_def)
  qed
  have dist: "distinct ?ks"
    using assms(1) bt.distinct_keys [OF assms(2)] unfolding hash_order_ok_def by blast
  have "map fst (List.map_filter (\<lambda>k. map_option (Pair k) (bt_get m k)) ks) =
      filter (\<lambda>k. bt_get m k \<noteq> None) ks" for ks
    by (induction ks) (auto simp: List.map_filter_simps split: option.split)
  then show "distinct (map fst (hash_iter env m))"
    using dist by (simp add: hash_iter_def)
qed

end
