(* ===== verification/Tracker.thy ===== *)
theory Tracker
  imports Runtime_Env
begin

text \<open>
  The execution state tracker, \<open>crates/agm-cli/src/runtime/state.rs\<close>: the state machine of
  the nodes, its operations, and the state file. An operation takes the environment and
  the state of the outside and returns its result with the new one; a failing operation
  returns the error message, and the tracker is the one it was called with.
\<close>

section \<open>Time and paths\<close>

definition now_iso8601 :: "'x env \<Rightarrow> 'x \<Rightarrow> string \<times> 'x" where
  "now_iso8601 env x = env_now env x"

text \<open>\<open>{:0w}\<close> of an unsigned number.\<close>

definition pad :: "nat \<Rightarrow> nat \<Rightarrow> string" where
  "pad w n = replicate (w - length (show_nat n)) CHR ''0'' @ show_nat n"

definition generate_session_id :: "'x env \<Rightarrow> 'x \<Rightarrow> string \<times> 'x" where
  "generate_session_id env x =
     (let (t, x') = env_utc env x in
      (''run-'' @ pad 4 (utc_year t) @ ''-'' @ pad 2 (utc_month t) @ ''-'' @ pad 2 (utc_day t) @ ''-'' @
       pad 2 (utc_hour t) @ pad 2 (utc_minute t) @ pad 2 (utc_second t), x'))"

definition state_path :: "string \<Rightarrow> string" where
  "state_path agm_path = agm_path @ ''.state''"

section \<open>The state machine\<close>

fun allowed :: "execution_status \<Rightarrow> execution_status \<Rightarrow> bool" where
  "allowed Pending Ready = True"
| "allowed Pending Blocked = True"
| "allowed Pending Skipped = True"
| "allowed Ready InProgress = True"
| "allowed InProgress Completed = True"
| "allowed InProgress Failed = True"
| "allowed Failed Ready = True"
| "allowed Blocked Ready = True"
| "allowed _ _ = False"

definition validate_transition :: "execution_status \<Rightarrow> execution_status \<Rightarrow> unit res" where
  "validate_transition from to =
     (if allowed from to then Inr ()
      else Inl (''Invalid state transition: '' @ show_execution_status from @ '' -> '' @
                show_execution_status to))"

definition initial_node_state :: "node \<Rightarrow> node_state" where
  "initial_node_state n =
     \<lparr>ns_execution_status =
        (if (case n_depends n of None \<Rightarrow> False | Some deps \<Rightarrow> deps \<noteq> []) then Pending else Ready),
      ns_executed_by = None, ns_executed_at = None, ns_execution_log = None, ns_retry_count = 0\<rparr>"

definition reconcile_state :: "agm_file \<Rightarrow> state_file \<Rightarrow> state_file" where
  "reconcile_state file st =
     (let kept = bt_retain (\<lambda>i _. i \<in> set (map n_id (f_nodes file))) (sf_nodes st) in
      st\<lparr>sf_nodes :=
        fold (\<lambda>n m. case bt_get m (n_id n) of
                       Some _ \<Rightarrow> m
                     | None \<Rightarrow> bt_insert (n_id n) (initial_node_state n) m)
          (f_nodes file) kept\<rparr>)"

section \<open>Loading and saving\<close>

definition load_state :: "bool \<Rightarrow> string \<Rightarrow> files \<Rightarrow> state_file option res" where
  "load_state read_fault agm_path fs =
     (let path = state_path agm_path in
      case fs path of
        None \<Rightarrow> Inr None
      | Some content \<Rightarrow>
          if read_fault then Inl (''Failed to read state file: '' @ path)
          else (case parse_state content of
                  Inr st \<Rightarrow> Inr (Some st)
                | Inl errors \<Rightarrow>
                    Inl (''Failed to parse state file '' @ path @ '': '' @
                         join ''; '' (map err_message errors))))"

definition save_state :: "io_fault \<Rightarrow> string \<Rightarrow> state_file \<Rightarrow> files \<Rightarrow> unit res \<times> files list" where
  "save_state fault agm_path st fs =
     (let path = state_path agm_path;
          tmp_path = path @ ''.tmp'';
          (outcome, steps) = replace_file fault tmp_path path (render_state st) fs in
      (case outcome of
         None \<Rightarrow> Inr ()
       | Some CreateFails \<Rightarrow> Inl (''Failed to create temp state file: '' @ tmp_path)
       | Some (WriteFails _) \<Rightarrow> Inl (''Failed to write temp state file: '' @ tmp_path)
       | Some SyncFails \<Rightarrow> Inl (''Failed to sync temp state file: '' @ tmp_path)
       | Some _ \<Rightarrow> Inl (''Failed to rename '' @ tmp_path @ '' -> '' @ path),
       steps))"

section \<open>The tracker\<close>

record tracker =
  tr_path :: string
  tr_state :: state_file
  tr_graph :: agm_graph

abbreviation tr_nodes :: "tracker \<Rightarrow> (string, node_state) btree" where
  "tr_nodes tr \<equiv> sf_nodes (tr_state tr)"

definition initialize :: "'x env \<Rightarrow> agm_file \<Rightarrow> string \<Rightarrow> 'x \<Rightarrow> state_file \<times> 'x" where
  "initialize env file session_id x =
     (let (now, x') = now_iso8601 env x in
      (\<lparr>sf_format_version = ''1.0'', sf_package = h_package (f_header file),
        sf_version = h_version (f_header file), sf_session_id = session_id,
        sf_started_at = now, sf_updated_at = now,
        sf_nodes = fold (\<lambda>n m. bt_insert (n_id n) (initial_node_state n) m) (f_nodes file) []\<rparr>, x'))"

definition tracker_new ::
  "'x env \<Rightarrow> string \<Rightarrow> agm_file \<Rightarrow> agm_graph \<Rightarrow> 'x world \<Rightarrow> tracker res \<times> 'x world" where
  "tracker_new env agm_path file graph w =
     (let (read_fault, x1) = env_read_fault env (w_rest w) in
      case load_state read_fault agm_path (w_files w) of
        Inl e \<Rightarrow> (Inl e, w\<lparr>w_rest := x1\<rparr>)
      | Inr (Some existing) \<Rightarrow>
          (let st = reconcile_state file existing; (now, x2) = now_iso8601 env x1 in
           (Inr \<lparr>tr_path = agm_path, tr_state = st\<lparr>sf_updated_at := now\<rparr>, tr_graph = graph\<rparr>,
            w\<lparr>w_rest := x2\<rparr>))
      | Inr None \<Rightarrow>
          (let (session_id, x2) = generate_session_id env x1;
               (st, x3) = initialize env file session_id x2 in
           (Inr \<lparr>tr_path = agm_path, tr_state = st, tr_graph = graph\<rparr>, w\<lparr>w_rest := x3\<rparr>)))"

definition put_node :: "string \<Rightarrow> node_state \<Rightarrow> tracker \<Rightarrow> tracker" where
  "put_node i ns tr = tr\<lparr>tr_state := (tr_state tr)\<lparr>sf_nodes := bt_insert i ns (tr_nodes tr)\<rparr>\<rparr>"

definition touch :: "string \<Rightarrow> tracker \<Rightarrow> tracker" where
  "touch now tr = tr\<lparr>tr_state := (tr_state tr)\<lparr>sf_updated_at := now\<rparr>\<rparr>"

definition not_found :: "string \<Rightarrow> string" where
  "not_found i = ''Node '' @ sq i @ '' not found in state''"

definition transition ::
  "'x env \<Rightarrow> string \<Rightarrow> execution_status \<Rightarrow> tracker \<Rightarrow> 'x \<Rightarrow> tracker res \<times> 'x" where
  "transition env i to tr x =
     (case bt_get (tr_nodes tr) i of
        None \<Rightarrow> (Inl (not_found i), x)
      | Some ns \<Rightarrow>
          (case validate_transition (ns_execution_status ns) to of
             Inl msg \<Rightarrow> (Inl msg, x)
           | Inr _ \<Rightarrow>
               (let (now, x') = now_iso8601 env x in
                (Inr (touch now (put_node i (ns\<lparr>ns_execution_status := to\<rparr>) tr)), x'))))"

text \<open>\<open>mark_completed\<close> and \<open>mark_failed\<close> are the same but for the status; the clock is read twice.\<close>

definition mark ::
  "execution_status \<Rightarrow> 'x env \<Rightarrow> string \<Rightarrow> string \<Rightarrow> string option \<Rightarrow> tracker \<Rightarrow> 'x \<Rightarrow> tracker res \<times> 'x" where
  "mark to env i agent log tr x =
     (case bt_get (tr_nodes tr) i of
        None \<Rightarrow> (Inl (not_found i), x)
      | Some ns \<Rightarrow>
          (case validate_transition (ns_execution_status ns) to of
             Inl msg \<Rightarrow> (Inl msg, x)
           | Inr _ \<Rightarrow>
               (let (executed_at, x1) = now_iso8601 env x; (now, x2) = now_iso8601 env x1 in
                (Inr (touch now (put_node i
                   (ns\<lparr>ns_execution_status := to, ns_executed_by := Some agent,
                       ns_executed_at := Some executed_at, ns_execution_log := log\<rparr>) tr)), x2))))"

definition mark_completed ::
  "'x env \<Rightarrow> string \<Rightarrow> string \<Rightarrow> string option \<Rightarrow> tracker \<Rightarrow> 'x \<Rightarrow> tracker res \<times> 'x" where
  "mark_completed = mark Completed"

definition mark_failed ::
  "'x env \<Rightarrow> string \<Rightarrow> string \<Rightarrow> string option \<Rightarrow> tracker \<Rightarrow> 'x \<Rightarrow> tracker res \<times> 'x" where
  "mark_failed = mark Failed"

definition retry :: "'x env \<Rightarrow> string \<Rightarrow> tracker \<Rightarrow> 'x \<Rightarrow> tracker res \<times> 'x" where
  "retry env i tr x =
     (case bt_get (tr_nodes tr) i of
        None \<Rightarrow> (Inl (not_found i), x)
      | Some ns \<Rightarrow>
          (case validate_transition (ns_execution_status ns) Ready of
             Inl msg \<Rightarrow> (Inl msg, x)
           | Inr _ \<Rightarrow>
               (let (now, x') = now_iso8601 env x in
                (Inr (touch now (put_node i
                   \<lparr>ns_execution_status = Ready, ns_executed_by = None, ns_executed_at = None,
                    ns_execution_log = None, ns_retry_count = ns_retry_count ns + 1\<rparr> tr)), x'))))"

definition reset :: "'x env \<Rightarrow> tracker \<Rightarrow> 'x \<Rightarrow> tracker res \<times> 'x" where
  "reset env tr x =
     (let tr' = tr\<lparr>tr_state := (tr_state tr)\<lparr>sf_nodes := bt_map_values (\<lambda>_. node_state_default) (tr_nodes tr)\<rparr>\<rparr>;
          (now, x') = now_iso8601 env x in
      (Inr (touch now tr'), x'))"

definition reset_node :: "'x env \<Rightarrow> string \<Rightarrow> tracker \<Rightarrow> 'x \<Rightarrow> tracker res \<times> 'x" where
  "reset_node env i tr x =
     (case bt_get (tr_nodes tr) i of
        None \<Rightarrow> (Inl (not_found i), x)
      | Some _ \<Rightarrow>
          (let (now, x') = now_iso8601 env x in
           (Inr (touch now (put_node i node_state_default tr)), x')))"

definition done_status :: "execution_status \<Rightarrow> bool" where
  "done_status st \<longleftrightarrow> st = Completed \<or> st = Skipped"

definition all_deps_satisfied :: "relation_kind petgraph \<Rightarrow> tracker \<Rightarrow> string \<Rightarrow> bool" where
  "all_deps_satisfied pg tr i =
     list_all (\<lambda>dep. case bt_get (tr_nodes tr) dep of
                       None \<Rightarrow> False
                     | Some ns \<Rightarrow> done_status (ns_execution_status ns))
       (edges_of_kind pg (tr_graph tr) i Depends)"

definition ready_nodes :: "relation_kind petgraph \<Rightarrow> tracker \<Rightarrow> string list" where
  "ready_nodes pg tr =
     map fst (filter (\<lambda>(i, ns).
       case ns_execution_status ns of
         Ready \<Rightarrow> True
       | Pending \<Rightarrow> all_deps_satisfied pg tr i
       | _ \<Rightarrow> False) (tr_nodes tr))"

text \<open>\<open>ExecutionProgress\<close>; its field \<open>percent\<close>, a floating-point number, is left out.\<close>

record execution_progress =
  ep_total :: nat
  ep_completed :: nat
  ep_failed :: nat
  ep_blocked :: nat
  ep_skipped :: nat
  ep_pending :: nat
  ep_ready :: nat
  ep_in_progress :: nat

fun count_status :: "execution_status \<Rightarrow> execution_progress \<Rightarrow> execution_progress" where
  "count_status Completed p = p\<lparr>ep_completed := ep_completed p + 1\<rparr>"
| "count_status Failed p = p\<lparr>ep_failed := ep_failed p + 1\<rparr>"
| "count_status Blocked p = p\<lparr>ep_blocked := ep_blocked p + 1\<rparr>"
| "count_status Skipped p = p\<lparr>ep_skipped := ep_skipped p + 1\<rparr>"
| "count_status Pending p = p\<lparr>ep_pending := ep_pending p + 1\<rparr>"
| "count_status Ready p = p\<lparr>ep_ready := ep_ready p + 1\<rparr>"
| "count_status InProgress p = p\<lparr>ep_in_progress := ep_in_progress p + 1\<rparr>"

definition progress :: "tracker \<Rightarrow> execution_progress" where
  "progress tr =
     fold (\<lambda>(i, ns). count_status (ns_execution_status ns)) (tr_nodes tr)
       \<lparr>ep_total = length (tr_nodes tr), ep_completed = 0, ep_failed = 0, ep_blocked = 0,
        ep_skipped = 0, ep_pending = 0, ep_ready = 0, ep_in_progress = 0\<rparr>"

definition blockable :: "execution_status \<Rightarrow> bool" where
  "blockable st \<longleftrightarrow> st = Pending \<or> st = Ready"

text \<open>One step of the loop over the dependents; \<open>acc\<close> is \<open>newly_blocked\<close>.\<close>

definition block_dependent :: "string \<Rightarrow> tracker \<times> string list \<Rightarrow> tracker \<times> string list" where
  "block_dependent dep s =
     (let (tr, acc) = s in
      case bt_get (tr_nodes tr) dep of
        None \<Rightarrow> (tr, acc)
      | Some ns \<Rightarrow>
          if blockable (ns_execution_status ns) then
            (put_node dep (ns\<lparr>ns_execution_status := Blocked\<rparr>) tr, acc @ [dep])
          else (tr, acc))"

definition propagate_blocked ::
  "relation_kind petgraph \<Rightarrow> 'x env \<Rightarrow> string \<Rightarrow> tracker \<Rightarrow> 'x \<Rightarrow> (tracker \<times> string list) \<times> 'x" where
  "propagate_blocked pg env failed tr x =
     (let dependents = env_hash_order env
            (sorted_list_of_set (transitive_dependents pg (tr_graph tr) failed));
          (tr', newly) = fold block_dependent dependents (tr, []) in
      if newly \<noteq> [] then
        (let (now, x') = now_iso8601 env x in ((touch now tr', newly), x'))
      else ((tr', newly), x))"

definition tracker_save :: "'x env \<Rightarrow> tracker \<Rightarrow> 'x world \<Rightarrow> unit res \<times> 'x world" where
  "tracker_save env tr w =
     (let (fault, x') = env_fault env (w_rest w);
          (r, steps) = save_state fault (tr_path tr) (tr_state tr) (w_files w) in
      (r, \<lparr>w_files = last steps, w_rest = x'\<rparr>))"

definition tracker_node_state :: "tracker \<Rightarrow> string \<Rightarrow> node_state option" where
  "tracker_node_state tr i = bt_get (tr_nodes tr) i"

section \<open>Lemmas\<close>

lemma put_node_simps [simp]:
  "tr_nodes (put_node i ns tr) = bt_insert i ns (tr_nodes tr)"
  "tr_graph (put_node i ns tr) = tr_graph tr"
  "tr_path (put_node i ns tr) = tr_path tr"
  by (simp_all add: put_node_def)

lemma touch_simps [simp]:
  "tr_nodes (touch now tr) = tr_nodes tr"
  "tr_graph (touch now tr) = tr_graph tr"
  "tr_path (touch now tr) = tr_path tr"
  by (simp_all add: touch_def)

definition status_of :: "tracker \<Rightarrow> string \<Rightarrow> execution_status option" where
  "status_of tr i = map_option ns_execution_status (bt_get (tr_nodes tr) i)"

lemma validate_transition_iff [simp]:
  "(validate_transition a b = Inr u) = allowed a b"
  "(\<exists>e. validate_transition a b = Inl e) = (\<not> allowed a b)"
  by (simp_all add: validate_transition_def)

lemma transition_Inr:
  assumes "transition env i to tr x = (Inr tr', x')"
  shows "\<exists>ns now. bt_get (tr_nodes tr) i = Some ns \<and> allowed (ns_execution_status ns) to \<and>
    now = fst (env_now env x) \<and> tr' = touch now (put_node i (ns\<lparr>ns_execution_status := to\<rparr>) tr)"
  using assms
  by (auto simp: transition_def validate_transition_def now_iso8601_def case_prod_beta Let_def
      split: option.splits if_splits)

lemma transition_Inl:
  "transition env i to tr x = (Inl e, x') \<longleftrightarrow>
     x' = x \<and> (case bt_get (tr_nodes tr) i of
                  None \<Rightarrow> e = not_found i
                | Some ns \<Rightarrow> validate_transition (ns_execution_status ns) to = Inl e)"
  by (auto simp: transition_def validate_transition_def case_prod_beta Let_def split: option.splits if_splits)

lemma transition_ok:
  "bt_get (tr_nodes tr) i = Some ns \<Longrightarrow> allowed (ns_execution_status ns) to \<Longrightarrow>
     \<exists>x'. transition env i to tr x =
       (Inr (touch (fst (env_now env x)) (put_node i (ns\<lparr>ns_execution_status := to\<rparr>) tr)), x')"
  by (simp add: transition_def validate_transition_def now_iso8601_def case_prod_beta Let_def)

lemma mark_Inr:
  assumes "mark to env i agent log tr x = (Inr tr', x')"
  shows "\<exists>ns now1 now2. bt_get (tr_nodes tr) i = Some ns \<and> allowed (ns_execution_status ns) to \<and>
    now1 \<in> range (fst \<circ> env_now env) \<and> now2 \<in> range (fst \<circ> env_now env) \<and>
    tr' = touch now2 (put_node i (ns\<lparr>ns_execution_status := to, ns_executed_by := Some agent,
      ns_executed_at := Some now1, ns_execution_log := log\<rparr>) tr)"
  using assms
  by (force simp: mark_def validate_transition_def now_iso8601_def case_prod_beta Let_def
      split: option.splits if_splits)

lemma mark_ok:
  assumes "bt_get (tr_nodes tr) i = Some ns" and "allowed (ns_execution_status ns) to"
  shows "\<exists>tr' x'. mark to env i agent log tr x = (Inr tr', x')"
  using assms by (simp add: mark_def validate_transition_def case_prod_beta Let_def)

lemma retry_Inr:
  assumes "retry env i tr x = (Inr tr', x')"
  shows "\<exists>ns now. bt_get (tr_nodes tr) i = Some ns \<and> allowed (ns_execution_status ns) Ready \<and>
    now = fst (env_now env x) \<and>
    tr' = touch now (put_node i \<lparr>ns_execution_status = Ready, ns_executed_by = None,
      ns_executed_at = None, ns_execution_log = None, ns_retry_count = ns_retry_count ns + 1\<rparr> tr)"
  using assms
  by (auto simp: retry_def validate_transition_def now_iso8601_def case_prod_beta Let_def
      split: option.splits if_splits)

lemma finite_dependents: "finite (transitive_dependents pg g i)"
  unfolding transitive_dependents_def Let_def
  by (cases "g_index g i") (simp_all only: option.case finite.emptyI List.finite_set)

text \<open>What blocking a list of dependents does.\<close>

definition block_state :: "node_state \<Rightarrow> node_state" where
  "block_state ns = (if blockable (ns_execution_status ns) then ns\<lparr>ns_execution_status := Blocked\<rparr> else ns)"

definition is_blockable :: "tracker \<Rightarrow> string \<Rightarrow> bool" where
  "is_blockable tr i \<longleftrightarrow> (case bt_get (tr_nodes tr) i of None \<Rightarrow> False | Some ns \<Rightarrow> blockable (ns_execution_status ns))"

definition with_nodes :: "(string, node_state) btree \<Rightarrow> tracker \<Rightarrow> tracker" where
  "with_nodes m tr = tr\<lparr>tr_state := (tr_state tr)\<lparr>sf_nodes := m\<rparr>\<rparr>"

lemma with_nodes_simps [simp]:
  "tr_nodes (with_nodes m tr) = m"
  "tr_graph (with_nodes m tr) = tr_graph tr"
  "tr_path (with_nodes m tr) = tr_path tr"
  "with_nodes m (with_nodes m' tr) = with_nodes m tr"
  "with_nodes (tr_nodes tr) tr = tr"
  by (simp_all add: with_nodes_def)

lemma put_node_with: "put_node i ns tr = with_nodes (bt_insert i ns (tr_nodes tr)) tr"
  by (simp add: put_node_def with_nodes_def)

lemma block_dependent_step:
  assumes "block_dependent d (tr, acc) = (tr1, acc1)"
  shows "bt_get (tr_nodes tr1) j =
      (if j = d then map_option block_state (bt_get (tr_nodes tr) j) else bt_get (tr_nodes tr) j)"
    and "acc1 = acc @ filter (is_blockable tr) [d]"
    and "bt_ok (tr_nodes tr) \<Longrightarrow> bt_ok (tr_nodes tr1)"
    and "\<exists>m. tr1 = with_nodes m tr"
proof -
  have "tr1 = (if is_blockable tr d then
        put_node d (block_state (the (bt_get (tr_nodes tr) d))) tr else tr) \<and>
      acc1 = acc @ filter (is_blockable tr) [d]"
    using assms by (auto simp: block_dependent_def is_blockable_def block_state_def split: option.splits if_splits)
  then show "bt_get (tr_nodes tr1) j =
      (if j = d then map_option block_state (bt_get (tr_nodes tr) j) else bt_get (tr_nodes tr) j)"
    and "acc1 = acc @ filter (is_blockable tr) [d]"
    and "bt_ok (tr_nodes tr) \<Longrightarrow> bt_ok (tr_nodes tr1)"
    and "\<exists>m. tr1 = with_nodes m tr"
    by (auto simp: is_blockable_def block_state_def put_node_with split: option.splits
        intro: exI [of _ "tr_nodes tr"])
qed

lemma fold_block_dependent:
  assumes "fold block_dependent deps (tr, acc) = (tr', acc')" and "distinct deps"
  shows "(\<forall>j. bt_get (tr_nodes tr') j =
      (if j \<in> set deps then map_option block_state (bt_get (tr_nodes tr) j) else bt_get (tr_nodes tr) j)) \<and>
    acc' = acc @ filter (is_blockable tr) deps \<and>
    (bt_ok (tr_nodes tr) \<longrightarrow> bt_ok (tr_nodes tr')) \<and> (\<exists>m. tr' = with_nodes m tr)"
  using assms
proof (induction deps arbitrary: tr acc)
  case Nil
  then show ?case by (auto intro: exI [of _ "tr_nodes tr"])
next
  case (Cons d deps)
  obtain tr1 acc1 where b: "block_dependent d (tr, acc) = (tr1, acc1)" by force
  note step = block_dependent_step [OF b]
  have d: "d \<notin> set deps" "distinct deps" using Cons.prems(2) by auto
  have "fold block_dependent deps (tr1, acc1) = (tr', acc')" using Cons.prems(1) b by simp
  from Cons.IH [OF this d(2)]
  have IH: "bt_get (tr_nodes tr') j =
      (if j \<in> set deps then map_option block_state (bt_get (tr_nodes tr1) j) else bt_get (tr_nodes tr1) j)"
    "acc' = acc1 @ filter (is_blockable tr1) deps"
    "bt_ok (tr_nodes tr1) \<longrightarrow> bt_ok (tr_nodes tr')" "\<exists>m. tr' = with_nodes m tr1" for j
    by auto
  have "filter (is_blockable tr1) deps = filter (is_blockable tr) deps"
  proof (rule filter_cong)
    fix j assume "j \<in> set deps"
    then have "j \<noteq> d" using d(1) by blast
    then show "is_blockable tr1 j = is_blockable tr j" by (simp add: is_blockable_def step(1))
  qed simp
  then have "acc' = acc @ filter (is_blockable tr) (d # deps)"
    using IH(2) step(2) by simp
  moreover have "\<exists>m. tr' = with_nodes m tr" using IH(4) step(4) by auto
  moreover have "bt_get (tr_nodes tr') j = (if j \<in> set (d # deps)
      then map_option block_state (bt_get (tr_nodes tr) j) else bt_get (tr_nodes tr) j)" for j
    using IH(1) [of j] step(1) [of j] d(1) by auto
  ultimately show ?case using IH(3) step(3) by blast
qed

lemma propagate_blocked_effect:
  assumes "hash_order_ok env" and "propagate_blocked pg env failed tr x = ((tr', newly), x')"
  shows "bt_get (tr_nodes tr') j =
      (if j \<in> transitive_dependents pg (tr_graph tr) failed then map_option block_state (bt_get (tr_nodes tr) j)
       else bt_get (tr_nodes tr) j)"
    and "set newly = {j \<in> transitive_dependents pg (tr_graph tr) failed. is_blockable tr j}"
    and "distinct newly"
    and "tr_graph tr' = tr_graph tr" and "tr_path tr' = tr_path tr"
    and "bt_ok (tr_nodes tr) \<Longrightarrow> bt_ok (tr_nodes tr')"
    and "\<exists>m now. tr' = with_nodes m tr \<or> tr' = touch now (with_nodes m tr) \<and> now \<in> range (fst \<circ> env_now env)"
proof -
  let ?deps = "env_hash_order env (sorted_list_of_set (transitive_dependents pg (tr_graph tr) failed))"
  have fin: "finite (transitive_dependents pg (tr_graph tr) failed)" by (rule finite_dependents)
  have deps: "set ?deps = transitive_dependents pg (tr_graph tr) failed" "distinct ?deps"
    using assms(1) fin unfolding hash_order_ok_def by auto
  obtain tr1 newly1 where f1: "fold block_dependent ?deps (tr, []) = (tr1, newly1)" by force
  then have t: "tr' = tr1 \<or> tr' = touch (fst (env_now env x)) tr1" and "newly1 = newly"
    using assms(2)
    by (auto simp: propagate_blocked_def now_iso8601_def Let_def split: if_splits prod.splits)
  with f1 have f: "fold block_dependent ?deps (tr, []) = (tr1, newly)" by simp
  note eff = fold_block_dependent [OF f deps(2)]
  have nodes: "tr_nodes tr' = tr_nodes tr1" "tr_graph tr' = tr_graph tr1" "tr_path tr' = tr_path tr1"
    using t by auto
  show "bt_get (tr_nodes tr') j =
      (if j \<in> transitive_dependents pg (tr_graph tr) failed then map_option block_state (bt_get (tr_nodes tr) j)
       else bt_get (tr_nodes tr) j)"
    using eff deps(1) unfolding nodes by simp
  show "set newly = {j \<in> transitive_dependents pg (tr_graph tr) failed. is_blockable tr j}"
    using eff deps(1) by auto
  show "distinct newly" using eff deps(2) by simp
  show "tr_graph tr' = tr_graph tr" "tr_path tr' = tr_path tr" using eff unfolding nodes by auto
  show "bt_ok (tr_nodes tr) \<Longrightarrow> bt_ok (tr_nodes tr')" using eff unfolding nodes by simp
  show "\<exists>m now. tr' = with_nodes m tr \<or> tr' = touch now (with_nodes m tr) \<and> now \<in> range (fst \<circ> env_now env)"
    using eff t by auto
qed

lemma edges_of_kind_graph:
  assumes "petgraph_ok pg" and "graph_ok g"
  shows "set (edges_of_kind pg g i k) = {j. (i, j) \<in> graph_rel g k}"
proof (cases "g_index g i")
  case None
  then show ?thesis by (simp add: edges_of_kind_def graph_rel_def)
next
  case (Some s)
  have "j \<in> set (edges_of_kind pg g i k) \<longleftrightarrow> (\<exists>t. (s, t, k) \<in> set (dg_edges (g_inner g)) \<and> j = dg_nodes (g_inner g) ! t)" for j
    using Some by (force simp: edges_of_kind_def petgraph_edges [OF assms(1)])
  moreover have "(\<exists>t. (s, t, k) \<in> set (dg_edges (g_inner g)) \<and> j = dg_nodes (g_inner g) ! t) \<longleftrightarrow> (i, j) \<in> graph_rel g k" for j
  proof
    assume "\<exists>t. (s, t, k) \<in> set (dg_edges (g_inner g)) \<and> j = dg_nodes (g_inner g) ! t"
    then obtain t where t: "(s, t, k) \<in> set (dg_edges (g_inner g))" "j = dg_nodes (g_inner g) ! t" by blast
    then obtain b where b: "g_index g b = Some t" using graph_ok_edge [OF assms(2)] by blast
    then have "b = j" using graph_ok_index [OF assms(2) b] t(2) by simp
    then show "(i, j) \<in> graph_rel g k" using Some b t(1) by (auto simp: graph_rel_def)
  next
    assume "(i, j) \<in> graph_rel g k"
    then obtain t where "g_index g j = Some t" "(s, t, k) \<in> set (dg_edges (g_inner g))"
      using Some by (auto simp: graph_rel_def)
    then show "\<exists>t. (s, t, k) \<in> set (dg_edges (g_inner g)) \<and> j = dg_nodes (g_inner g) ! t"
      using graph_ok_index [OF assms(2)] by blast
  qed
  ultimately show ?thesis by auto
qed

definition dep_done :: "tracker \<Rightarrow> string \<Rightarrow> bool" where
  "dep_done tr j \<longleftrightarrow> (\<exists>ns. bt_get (tr_nodes tr) j = Some ns \<and> done_status (ns_execution_status ns))"

lemma all_deps_satisfied_graph:
  assumes "petgraph_ok pg" and "graph_ok (tr_graph tr)"
  shows "all_deps_satisfied pg tr i \<longleftrightarrow> (\<forall>j. (i, j) \<in> graph_rel (tr_graph tr) Depends \<longrightarrow> dep_done tr j)"
  unfolding all_deps_satisfied_def list_all_iff edges_of_kind_graph [OF assms] dep_done_def
  by (auto split: option.splits)

lemma mem_fst_filter: "i \<in> set (map fst (filter P m)) \<longleftrightarrow> (\<exists>v. (i, v) \<in> set m \<and> P (i, v))"
  by force

lemma ready_nodes_iff:
  assumes "bt_ok (tr_nodes tr)"
  shows "i \<in> set (ready_nodes pg tr) \<longleftrightarrow>
    status_of tr i = Some Ready \<or> (status_of tr i = Some Pending \<and> all_deps_satisfied pg tr i)"
proof (cases "bt_get (tr_nodes tr) i")
  case None
  then show ?thesis
    by (simp add: ready_nodes_def mem_fst_filter bt.set_entries [OF assms] status_of_def del: set_map)
next
  case (Some ns)
  then show ?thesis
    by (cases "ns_execution_status ns")
      (simp_all add: ready_nodes_def mem_fst_filter bt.set_entries [OF assms] status_of_def del: set_map)
qed

lemma ready_nodes_sorted: "bt_ok (tr_nodes tr) \<Longrightarrow> sorted_wrt (<) (ready_nodes pg tr)"
proof -
  assume "bt_ok (tr_nodes tr)"
  then have "bt_ok (bt_retain (\<lambda>i ns. case ns_execution_status ns of
         Ready \<Rightarrow> True | Pending \<Rightarrow> all_deps_satisfied pg tr i | _ \<Rightarrow> False) (tr_nodes tr))"
    by (rule bt_ok_retain)
  then show ?thesis by (simp add: ready_nodes_def bt_ok_def bt_retain_def)
qed

lemma progress_fold:
  "fold (\<lambda>(i, ns). count_status (ns_execution_status ns)) m p =
     p\<lparr>ep_completed := ep_completed p + length (filter (\<lambda>(i, ns). ns_execution_status ns = Completed) m),
       ep_failed := ep_failed p + length (filter (\<lambda>(i, ns). ns_execution_status ns = Failed) m),
       ep_blocked := ep_blocked p + length (filter (\<lambda>(i, ns). ns_execution_status ns = Blocked) m),
       ep_skipped := ep_skipped p + length (filter (\<lambda>(i, ns). ns_execution_status ns = Skipped) m),
       ep_pending := ep_pending p + length (filter (\<lambda>(i, ns). ns_execution_status ns = Pending) m),
       ep_ready := ep_ready p + length (filter (\<lambda>(i, ns). ns_execution_status ns = Ready) m),
       ep_in_progress := ep_in_progress p + length (filter (\<lambda>(i, ns). ns_execution_status ns = InProgress) m)\<rparr>"
proof (induction m arbitrary: p)
  case (Cons e m)
  obtain i ns where e: "e = (i, ns)" by force
  show ?case
    by (cases "ns_execution_status ns") (simp_all add: e Cons)
qed simp

lemma fold_initial_nodes:
  "bt_ok m \<Longrightarrow> bt_ok (fold (\<lambda>n m. bt_insert (n_id n) (f n) m) ns m) \<and>
   bt_get (fold (\<lambda>n m. bt_insert (n_id n) (f n) m) ns m) i =
     (case map_of (rev (map (\<lambda>n. (n_id n, n)) ns)) i of
        Some n \<Rightarrow> Some (f n) | None \<Rightarrow> bt_get m i)"
  by (induction ns arbitrary: m) (auto simp: map_add_def split: option.splits)

lemma initialize_nodes:
  assumes "initialize env file session_id x = (st, x')"
  shows "bt_ok (sf_nodes st)"
    and "bt_get (sf_nodes st) i = map_option initial_node_state (node_map file i)"
proof -
  have st: "sf_nodes st = fold (\<lambda>n m. bt_insert (n_id n) (initial_node_state n) m) (f_nodes file) []"
    using assms by (auto simp: initialize_def Let_def case_prod_beta)
  show "bt_ok (sf_nodes st)"
    unfolding st using fold_initial_nodes [of "[]" initial_node_state "f_nodes file"] by simp
  show "bt_get (sf_nodes st) i = map_option initial_node_state (node_map file i)"
    unfolding st using fold_initial_nodes [of "[]" initial_node_state "f_nodes file" i]
    by (simp add: node_map_def split: option.split)
qed

definition add_missing :: "node list \<Rightarrow> (string, node_state) btree \<Rightarrow> (string, node_state) btree" where
  "add_missing ns m =
     fold (\<lambda>n m. case bt_get m (n_id n) of
                    Some _ \<Rightarrow> m | None \<Rightarrow> bt_insert (n_id n) (initial_node_state n) m) ns m"

lemma add_missing_get:
  "bt_ok m \<Longrightarrow> bt_ok (add_missing ns m) \<and>
   bt_get (add_missing ns m) i =
     (case bt_get m i of Some s \<Rightarrow> Some s
      | None \<Rightarrow> map_option initial_node_state (map_of (map (\<lambda>n. (n_id n, n)) ns) i))"
proof (induction ns arbitrary: m)
  case (Cons n ns)
  show ?case
  proof (cases "bt_get m (n_id n)")
    case None
    then have "add_missing (n # ns) m = add_missing ns (bt_insert (n_id n) (initial_node_state n) m)"
      by (simp add: add_missing_def)
    then show ?thesis using Cons None by (auto split: option.split)
  next
    case (Some s)
    then have "add_missing (n # ns) m = add_missing ns m" by (simp add: add_missing_def)
    then show ?thesis using Cons Some by (auto split: option.split)
  qed
qed (simp add: add_missing_def split: option.split)

lemma reconcile_nodes:
  assumes "bt_ok (sf_nodes st)"
  shows "bt_ok (sf_nodes (reconcile_state file st))"
    and "bt_get (sf_nodes (reconcile_state file st)) i =
      (if i \<notin> file_ids file then None
       else case bt_get (sf_nodes st) i of
         Some ns \<Rightarrow> Some ns
       | None \<Rightarrow> map_option initial_node_state (map_of (map (\<lambda>n. (n_id n, n)) (f_nodes file)) i))"
proof -
  let ?kept = "bt_retain (\<lambda>i _. i \<in> set (map n_id (f_nodes file))) (sf_nodes st)"
  have eq: "sf_nodes (reconcile_state file st) = add_missing (f_nodes file) ?kept"
    by (simp add: reconcile_state_def add_missing_def Let_def)
  have ok: "bt_ok ?kept" using assms by simp
  show "bt_ok (sf_nodes (reconcile_state file st))" unfolding eq using add_missing_get [OF ok] by simp
  have out: "map_of (map (\<lambda>n. (n_id n, n)) (f_nodes file)) i = None" if "i \<notin> file_ids file"
    using that by (force simp: map_of_eq_None_iff file_ids_def)
  show "bt_get (sf_nodes (reconcile_state file st)) i =
      (if i \<notin> file_ids file then None
       else case bt_get (sf_nodes st) i of
         Some ns \<Rightarrow> Some ns
       | None \<Rightarrow> map_option initial_node_state (map_of (map (\<lambda>n. (n_id n, n)) (f_nodes file)) i))"
    unfolding eq using add_missing_get [OF ok, of "f_nodes file" i] out
    by (auto simp: bt_get_retain [OF assms] file_ids_def split: option.split)
qed

section \<open>Calls of the tracker\<close>

text \<open>
  A call of an operation that changes the state of an existing tracker, and a sequence of calls: a call
  that fails leaves the tracker as it was.
\<close>

datatype tracker_op =
    OpTransition string execution_status
  | OpCompleted string string "string option"
  | OpFailed string string "string option"
  | OpRetry string
  | OpPropagate string
  | OpReset
  | OpResetNode string

fun tracker_apply ::
  "relation_kind petgraph \<Rightarrow> 'x env \<Rightarrow> tracker_op \<Rightarrow> tracker \<Rightarrow> 'x \<Rightarrow> tracker res \<times> 'x" where
  "tracker_apply pg env (OpTransition i to) tr x = transition env i to tr x"
| "tracker_apply pg env (OpCompleted i agent log) tr x = mark_completed env i agent log tr x"
| "tracker_apply pg env (OpFailed i agent log) tr x = mark_failed env i agent log tr x"
| "tracker_apply pg env (OpRetry i) tr x = retry env i tr x"
| "tracker_apply pg env (OpPropagate i) tr x =
     (case propagate_blocked pg env i tr x of ((tr', newly), x') \<Rightarrow> (Inr tr', x'))"
| "tracker_apply pg env OpReset tr x = reset env tr x"
| "tracker_apply pg env (OpResetNode i) tr x = reset_node env i tr x"

fun tracker_run ::
  "relation_kind petgraph \<Rightarrow> 'x env \<Rightarrow> tracker_op list \<Rightarrow> tracker \<Rightarrow> 'x \<Rightarrow> tracker \<times> 'x" where
  "tracker_run pg env [] tr x = (tr, x)"
| "tracker_run pg env (op # ops) tr x =
     (case tracker_apply pg env op tr x of
        (Inl e, x') \<Rightarrow> tracker_run pg env ops tr x'
      | (Inr tr', x') \<Rightarrow> tracker_run pg env ops tr' x')"

text \<open>How a call may move the status of the node \<open>i\<close>. \<open>propagate_blocked\<close> also blocks ready nodes, which
  the transition table does not allow, and the resets return to \<open>Pending\<close> from everywhere.\<close>

fun may_move :: "tracker_op \<Rightarrow> string \<Rightarrow> execution_status \<Rightarrow> execution_status \<Rightarrow> bool" where
  "may_move (OpTransition j to) i a b \<longleftrightarrow> i = j \<and> b = to \<and> allowed a b"
| "may_move (OpCompleted j _ _) i a b \<longleftrightarrow> i = j \<and> a = InProgress \<and> b = Completed"
| "may_move (OpFailed j _ _) i a b \<longleftrightarrow> i = j \<and> a = InProgress \<and> b = Failed"
| "may_move (OpRetry j) i a b \<longleftrightarrow> i = j \<and> (a = Pending \<or> a = Failed \<or> a = Blocked) \<and> b = Ready"
| "may_move (OpPropagate j) i a b \<longleftrightarrow> (a = Pending \<or> a = Ready) \<and> b = Blocked"
| "may_move OpReset i a b \<longleftrightarrow> b = Pending"
| "may_move (OpResetNode j) i a b \<longleftrightarrow> i = j \<and> b = Pending"

definition moves :: "tracker_op \<Rightarrow> string \<Rightarrow> execution_status \<Rightarrow> execution_status \<Rightarrow> bool" where
  "moves op i a b \<longleftrightarrow> a = b \<or> may_move op i a b"

fun resets :: "string \<Rightarrow> tracker_op \<Rightarrow> bool" where
  "resets i OpReset = True"
| "resets i (OpResetNode j) = (i = j)"
| "resets i _ = False"

lemma put_node_moves:
  assumes "bt_get (tr_nodes tr) i = Some ns" and "may_move op i (ns_execution_status ns) (ns_execution_status ns')"
  shows "rel_option (moves op j) (status_of tr j) (status_of (touch now (put_node i ns' tr)) j)"
proof (cases "j = i")
  case True
  then show ?thesis using assms by (simp add: status_of_def moves_def)
next
  case False
  then show ?thesis by (cases "bt_get (tr_nodes tr) j") (simp_all add: status_of_def moves_def)
qed

lemma allowed_to:
  "allowed a Completed \<longleftrightarrow> a = InProgress" "allowed a Failed \<longleftrightarrow> a = InProgress"
  "allowed a Ready \<longleftrightarrow> a = Pending \<or> a = Failed \<or> a = Blocked"
  by (cases a; simp)+

lemma tracker_apply_status:
  assumes "hash_order_ok env" and "tracker_apply pg env op tr x = (Inr tr', x')"
  shows "rel_option (moves op j) (status_of tr j) (status_of tr' j)"
proof (cases op)
  case (OpTransition i to)
  then have "transition env i to tr x = (Inr tr', x')" using assms(2) by simp
  from transition_Inr [OF this] show ?thesis unfolding OpTransition using put_node_moves by fastforce
next
  case (OpCompleted i agent log)
  then have "mark Completed env i agent log tr x = (Inr tr', x')" using assms(2) by (simp add: mark_completed_def)
  from mark_Inr [OF this] show ?thesis unfolding OpCompleted allowed_to using put_node_moves by fastforce
next
  case (OpFailed i agent log)
  then have "mark Failed env i agent log tr x = (Inr tr', x')" using assms(2) by (simp add: mark_failed_def)
  from mark_Inr [OF this] show ?thesis unfolding OpFailed allowed_to using put_node_moves by fastforce
next
  case (OpRetry i)
  then have "retry env i tr x = (Inr tr', x')" using assms(2) by simp
  from retry_Inr [OF this] show ?thesis unfolding OpRetry allowed_to using put_node_moves by fastforce
next
  case (OpPropagate i)
  then obtain newly where "propagate_blocked pg env i tr x = ((tr', newly), x')"
    using assms(2) by (auto split: prod.splits)
  note eff = propagate_blocked_effect(1) [OF assms(1) this, of j]
  have "rel_option (moves op j) (map_option ns_execution_status v)
      (map_option ns_execution_status (map_option block_state v))" for v
    by (cases v) (auto simp: moves_def block_state_def blockable_def OpPropagate)
  moreover have "rel_option (moves op j) (map_option ns_execution_status v) (map_option ns_execution_status v)" for v
    by (cases v) (auto simp: moves_def)
  ultimately show ?thesis
    unfolding status_of_def eff
    by (cases "j \<in> transitive_dependents pg (tr_graph tr) i") (simp_all only: if_True if_False)
next
  case OpReset
  then have "tr_nodes tr' = bt_map_values (\<lambda>_. node_state_default) (tr_nodes tr)"
    using assms(2) by (auto simp: reset_def Let_def case_prod_beta)
  then show ?thesis
    by (cases "bt_get (tr_nodes tr) j")
      (simp_all add: status_of_def bt_get_map_values moves_def OpReset node_state_default_def)
next
  case (OpResetNode i)
  then obtain ns now where "bt_get (tr_nodes tr) i = Some ns" "tr' = touch now (put_node i node_state_default tr)"
    using assms(2) by (auto simp: reset_node_def Let_def case_prod_beta split: option.splits)
  then show ?thesis using put_node_moves [of tr i ns op node_state_default j now]
    by (simp add: OpResetNode node_state_default_def)
qed

lemma done_moves: "done_status a \<Longrightarrow> \<not> resets i op \<Longrightarrow> moves op i a b \<Longrightarrow> b = a"
  by (cases op; cases a; cases b) (auto simp: moves_def done_status_def)

lemma tracker_run_done:
  assumes "hash_order_ok env" and "done_status a"
  shows "status_of tr i = Some a \<Longrightarrow> \<not> list_ex (resets i) ops \<Longrightarrow>
    status_of (fst (tracker_run pg env ops tr x)) i = Some a"
proof (induction ops arbitrary: tr x)
  case (Cons op ops)
  obtain r x' where r: "tracker_apply pg env op tr x = (r, x')" by force
  show ?case
  proof (cases r)
    case (Inr tr')
    have "rel_option (moves op i) (Some a) (status_of tr' i)"
      using tracker_apply_status [OF assms(1) r [unfolded Inr], of i] Cons.prems(1) by simp
    then have "status_of tr' i = Some a"
      using done_moves [OF assms(2)] Cons.prems(2) by (cases "status_of tr' i") auto
    then show ?thesis using Cons r Inr by simp
  qed (use Cons r in simp)
qed simp

section \<open>States that can be saved and loaded again\<close>

definition clock_ok :: "'x env \<Rightarrow> bool" where
  "clock_ok env \<longleftrightarrow> (\<forall>x. fst (env_now env x) \<noteq> [] \<and> clean (fst (env_now env x)))"

lemma clock_okD: "clock_ok env \<Longrightarrow> now \<in> range (fst \<circ> env_now env) \<Longrightarrow> now \<noteq> [] \<and> clean now"
  by (auto simp: clock_ok_def)

abbreviation saveable :: "tracker \<Rightarrow> bool" where
  "saveable tr \<equiv> state_file_ok (tr_state tr)"

lemma saveable_node: "saveable tr \<Longrightarrow> bt_get (tr_nodes tr) i = Some ns \<Longrightarrow> id_ok i \<and> node_state_ok ns"
  using bt.set_entries by (fastforce simp: state_file_ok_def list_all_iff)

lemma set_bt_insert_sub: "set (bt_insert k v m) \<subseteq> insert (k, v) (set m)"
  by (induction k v m rule: bt_insert.induct) auto

lemma saveable_put:
  assumes "saveable tr" and "bt_get (tr_nodes tr) i = Some ns" and "node_state_ok ns'" and "clean now"
  shows "saveable (touch now (put_node i ns' tr))"
proof -
  have "list_all (\<lambda>(i, ns). id_ok i \<and> node_state_ok ns) (bt_insert i ns' (tr_nodes tr))"
    using assms(1,3) saveable_node [OF assms(1,2)] set_bt_insert_sub [of i ns' "tr_nodes tr"]
    by (fastforce simp: state_file_ok_def list_all_iff)
  then show ?thesis
    using assms(1,4) by (simp add: state_file_ok_def touch_def put_node_def)
qed

lemma saveable_transition:
  assumes "saveable tr" and "clock_ok env" and "transition env i to tr x = (Inr tr', x')"
  shows "saveable tr'"
proof -
  obtain ns where ns: "bt_get (tr_nodes tr) i = Some ns"
    and tr': "tr' = touch (fst (env_now env x)) (put_node i (ns\<lparr>ns_execution_status := to\<rparr>) tr)"
    using transition_Inr [OF assms(3)] by blast
  have "node_state_ok (ns\<lparr>ns_execution_status := to\<rparr>)"
    using saveable_node [OF assms(1) ns] by (simp add: node_state_ok_def)
  then show ?thesis
    unfolding tr' using assms(2) by (intro saveable_put [OF assms(1) ns]) (simp_all add: clock_ok_def)
qed

lemma saveable_mark:
  assumes "saveable tr" and "clock_ok env" and "mark to env i agent log tr x = (Inr tr', x')"
    and "clean_opt (Some agent)" and "clean_opt log"
  shows "saveable tr'"
proof -
  obtain ns now1 now2 where ns: "bt_get (tr_nodes tr) i = Some ns"
    and now: "now1 \<in> range (fst \<circ> env_now env)" "now2 \<in> range (fst \<circ> env_now env)"
    and tr': "tr' = touch now2 (put_node i (ns\<lparr>ns_execution_status := to, ns_executed_by := Some agent,
      ns_executed_at := Some now1, ns_execution_log := log\<rparr>) tr)"
    using mark_Inr [OF assms(3)] by blast
  have "node_state_ok (ns\<lparr>ns_execution_status := to, ns_executed_by := Some agent,
      ns_executed_at := Some now1, ns_execution_log := log\<rparr>)"
    using assms(4,5) clock_okD [OF assms(2) now(1)] by (simp add: node_state_ok_def clean_opt_def)
  then show ?thesis
    unfolding tr' using clock_okD [OF assms(2) now(2)] by (intro saveable_put [OF assms(1) ns]) auto
qed

lemma saveable_retry:
  assumes "saveable tr" and "clock_ok env" and "retry env i tr x = (Inr tr', x')"
  shows "saveable tr'"
proof -
  obtain ns where ns: "bt_get (tr_nodes tr) i = Some ns"
    and tr': "tr' = touch (fst (env_now env x)) (put_node i \<lparr>ns_execution_status = Ready,
      ns_executed_by = None, ns_executed_at = None, ns_execution_log = None,
      ns_retry_count = ns_retry_count ns + 1\<rparr> tr)"
    using retry_Inr [OF assms(3)] by blast
  show ?thesis
    unfolding tr' using assms(2)
    by (intro saveable_put [OF assms(1) ns]) (simp_all add: clock_ok_def node_state_ok_def clean_opt_def)
qed

lemma saveable_propagate:
  assumes "saveable tr" and "clock_ok env" and "hash_order_ok env"
    and "propagate_blocked pg env i tr x = ((tr', newly), x')"
  shows "saveable tr'"
proof -
  note eff = propagate_blocked_effect [OF assms(3,4)]
  have ok: "bt_ok (tr_nodes tr)" using assms(1) by (simp add: state_file_ok_def)
  have nodes: "list_all (\<lambda>(i, ns). id_ok i \<and> node_state_ok ns) (tr_nodes tr')"
    unfolding list_all_iff
  proof clarify
    fix j ns assume "(j, ns) \<in> set (tr_nodes tr')"
    then have "bt_get (tr_nodes tr') j = Some ns" using bt.set_entries [OF eff(6) [OF ok]] by blast
    then obtain ns0 where "bt_get (tr_nodes tr) j = Some ns0" "ns = ns0 \<or> ns = block_state ns0"
      using eff(1) [of j] by (auto split: if_splits)
    then show "id_ok j \<and> node_state_ok ns"
      using saveable_node [OF assms(1)] by (fastforce simp: block_state_def node_state_ok_def)
  qed
  obtain m now where t: "tr' = with_nodes m tr \<or> tr' = touch now (with_nodes m tr) \<and>
      now \<in> range (fst \<circ> env_now env)" using eff(7) by blast
  then have "clean (sf_format_version (tr_state tr')) \<and> clean (sf_package (tr_state tr')) \<and>
      clean (sf_version (tr_state tr')) \<and> clean (sf_session_id (tr_state tr')) \<and>
      clean (sf_started_at (tr_state tr')) \<and> clean (sf_updated_at (tr_state tr'))"
    using assms(1) clock_okD [OF assms(2)] by (auto simp: with_nodes_def touch_def state_file_ok_def)
  then show ?thesis
    using nodes eff(6) [OF ok] by (simp add: state_file_ok_def)
qed

lemma saveable_mark_only:
  assumes "mark to env i agent log tr x = (Inr tr', x')" and "saveable tr'"
  shows "clean_opt (Some agent) \<and> clean_opt log"
proof -
  obtain ns now1 now2 where "tr' = touch now2 (put_node i (ns\<lparr>ns_execution_status := to, ns_executed_by := Some agent,
      ns_executed_at := Some now1, ns_execution_log := log\<rparr>) tr)"
    using mark_Inr [OF assms(1)] by blast
  then have "\<exists>ns'. bt_get (tr_nodes tr') i = Some ns' \<and> ns_executed_by ns' = Some agent \<and> ns_execution_log ns' = log"
    by simp
  then show ?thesis using saveable_node [OF assms(2)] unfolding node_state_ok_def by metis
qed

lemma saveable_mark_iff:
  assumes "saveable tr" and "clock_ok env" and "mark to env i agent log tr x = (Inr tr', x')"
  shows "saveable tr' \<longleftrightarrow> clean_opt (Some agent) \<and> clean_opt log"
  using saveable_mark [OF assms] saveable_mark_only [OF assms(3)] by blast

lemma node_state_default_ok [simp]: "node_state_ok node_state_default"
  by (simp add: node_state_ok_def node_state_default_def clean_opt_def)

lemma saveable_reset:
  assumes "saveable tr" and "clock_ok env" and "reset env tr x = (Inr tr', x')"
  shows "saveable tr'"
proof -
  have "bt_ok (bt_map_values (\<lambda>_. node_state_default) (tr_nodes tr))"
    using assms(1) by (simp add: state_file_ok_def bt_ok_def bt_map_values_def o_def case_prod_beta)
  then show ?thesis
    using assms
    by (auto simp: reset_def Let_def case_prod_beta touch_def state_file_ok_def list_all_iff bt_map_values_def
        now_iso8601_def clock_ok_def)
qed

lemma saveable_reset_node:
  assumes "saveable tr" and "clock_ok env" and "reset_node env i tr x = (Inr tr', x')"
  shows "saveable tr'"
proof -
  obtain ns where ns: "bt_get (tr_nodes tr) i = Some ns"
    and tr': "tr' = touch (fst (env_now env x)) (put_node i node_state_default tr)"
    using assms(3) by (auto simp: reset_node_def now_iso8601_def Let_def case_prod_beta split: option.splits)
  show ?thesis
    unfolding tr' using assms(2) by (intro saveable_put [OF assms(1) ns]) (simp_all add: clock_ok_def)
qed

text \<open>The names and logs that a call brings are non-empty single lines without a tab.\<close>

fun op_clean :: "tracker_op \<Rightarrow> bool" where
  "op_clean (OpCompleted _ agent log) = (clean_opt (Some agent) \<and> clean_opt log)"
| "op_clean (OpFailed _ agent log) = (clean_opt (Some agent) \<and> clean_opt log)"
| "op_clean _ = True"

lemma saveable_apply:
  assumes "saveable tr" and "clock_ok env" and "hash_order_ok env" and "op_clean op"
    and "tracker_apply pg env op tr x = (Inr tr', x')"
  shows "saveable tr'"
  using assms(4,5)
  by (cases op)
    (auto simp: mark_completed_def mark_failed_def split: prod.splits
      intro: saveable_transition [OF assms(1,2)] saveable_mark [OF assms(1,2)] saveable_retry [OF assms(1,2)]
        saveable_propagate [OF assms(1-3)] saveable_reset [OF assms(1,2)] saveable_reset_node [OF assms(1,2)])

lemma saveable_run:
  assumes "clock_ok env" and "hash_order_ok env"
  shows "saveable tr \<Longrightarrow> list_all op_clean ops \<Longrightarrow> saveable (fst (tracker_run pg env ops tr x))"
proof (induction ops arbitrary: tr x)
  case (Cons op ops)
  obtain r x' where r: "tracker_apply pg env op tr x = (r, x')" by force
  then show ?case using Cons saveable_apply [OF _ assms] by (cases r) auto
qed simp

text \<open>A file whose names can be written in a state file.\<close>

definition names_clean :: "agm_file \<Rightarrow> bool" where
  "names_clean f \<longleftrightarrow> clean (h_package (f_header f)) \<and> clean (h_version (f_header f)) \<and> list_all (\<lambda>n. id_ok (n_id n)) (f_nodes f)"

lemma initial_node_state_ok [simp]: "node_state_ok (initial_node_state n)"
  by (simp add: node_state_ok_def initial_node_state_def clean_opt_def)

lemma initial_entries_ok:
  "list_all (\<lambda>n. id_ok (n_id n)) ns \<Longrightarrow> \<forall>(i, s) \<in> set m. id_ok i \<and> node_state_ok s \<Longrightarrow>
     \<forall>(i, s) \<in> set (fold (\<lambda>n m. bt_insert (n_id n) (initial_node_state n) m) ns m). id_ok i \<and> node_state_ok s"
proof (induction ns arbitrary: m)
  case (Cons n ns)
  have "\<forall>(i, s) \<in> set (bt_insert (n_id n) (initial_node_state n) m). id_ok i \<and> node_state_ok s"
    using Cons.prems set_bt_insert_sub [of "n_id n" "initial_node_state n" m] by auto
  then show ?case using Cons by simp
qed simp

lemma initialize_ok:
  assumes "clock_ok env" and "names_clean file" and "clean session_id"
  shows "state_file_ok (fst (initialize env file session_id x))"
proof -
  have "bt_ok (sf_nodes (fst (initialize env file session_id x)))"
    using initialize_nodes(1) [of env "file" session_id x] by (metis prod.collapse)
  moreover have "clean ''1.0''" by code_simp
  ultimately show ?thesis
    using assms initial_entries_ok [of "f_nodes file" "[]"]
    by (simp add: initialize_def Let_def case_prod_beta state_file_ok_def names_clean_def list_all_iff clock_ok_def
        now_iso8601_def)
qed

lemma reconcile_ok:
  assumes "state_file_ok st" and "names_clean file"
  shows "state_file_ok (reconcile_state file st)"
proof -
  have ok: "bt_ok (sf_nodes st)" using assms(1) by (simp add: state_file_ok_def)
  have "id_ok i \<and> node_state_ok ns" if "(i, ns) \<in> set (sf_nodes (reconcile_state file st))" for i ns
  proof -
    have "bt_get (sf_nodes (reconcile_state file st)) i = Some ns"
      using that bt.set_entries [OF reconcile_nodes(1) [OF ok]] by blast
    then have mem: "i \<in> file_ids file" and "(i, ns) \<in> set (sf_nodes st) \<or> (\<exists>n. ns = initial_node_state n)"
      using bt.set_entries [OF ok] by (auto simp: reconcile_nodes(2) [OF ok] split: if_splits option.splits)
    moreover have "id_ok i" using mem assms(2) by (auto simp: file_ids_def names_clean_def list_all_iff)
    ultimately show ?thesis using assms(1) by (auto simp: state_file_ok_def list_all_iff)
  qed
  then show ?thesis
    using assms(1) reconcile_nodes(1) [OF ok]
    by (auto simp: state_file_ok_def list_all_iff reconcile_state_def Let_def)
qed

section \<open>Properties\<close>

text \<open>C16: Each call of the tracker that succeeds moves a node only as the operation may: by an allowed
  transition of the named node, from \<open>InProgress\<close> when it is marked, from \<open>Pending\<close> or \<open>Ready\<close> to \<open>Blocked\<close>
  when a dependency fails, and to \<open>Pending\<close> by the two resets. Along any sequence of calls, failing ones
  included, a completed or skipped node keeps its status until a call resets it.\<close>

theorem tracker_runs_safe:
  assumes "hash_order_ok env"
  shows "(\<forall>tr' x'. tracker_apply pg env op tr x = (Inr tr', x') \<longrightarrow>
       rel_option (moves op i) (status_of tr i) (status_of tr' i)) \<and>
    (status_of tr i = Some a \<and> done_status a \<and> \<not> list_ex (resets i) ops \<longrightarrow>
       status_of (fst (tracker_run pg env ops tr x)) i = Some a)"
  using tracker_apply_status [OF assms] tracker_run_done [OF assms] by blast

text \<open>C20: \<open>propagate_blocked\<close> blocks exactly the pending and ready nodes that depend, over any
  number of declared dependencies, on the failed node; it returns exactly those, each
  once, and changes no other node.\<close>

theorem propagate_blocked_exact:
  assumes "petgraph_ok pg" and "hash_order_ok env" and "tr_graph tr = build_graph file"
    and "propagate_blocked pg env failed tr x = ((tr', newly), x')"
  shows "distinct newly \<and>
    set newly = {j. (j, failed) \<in> (dep_rel file)\<^sup>+ \<and> j \<noteq> failed \<and>
                    (status_of tr j = Some Pending \<or> status_of tr j = Some Ready)} \<and>
    (\<forall>j. bt_get (tr_nodes tr') j =
      (if j \<in> set newly then map_option (\<lambda>ns. ns\<lparr>ns_execution_status := Blocked\<rparr>) (bt_get (tr_nodes tr) j)
       else bt_get (tr_nodes tr) j))"
proof -
  note eff = propagate_blocked_effect [OF assms(2,4)]
  have deps: "transitive_dependents pg (tr_graph tr) failed = {j. (j, failed) \<in> (dep_rel file)\<^sup>+ \<and> j \<noteq> failed}"
    using transitive_dependents_graph [OF assms(1) build_graph_props(1) [of "file"]]
    by (simp add: assms(3) build_graph_props(3))
  have bl: "is_blockable tr j \<longleftrightarrow> status_of tr j = Some Pending \<or> status_of tr j = Some Ready" for j
    by (auto simp: is_blockable_def status_of_def blockable_def split: option.splits)
  have "bt_get (tr_nodes tr') j =
      (if j \<in> set newly then map_option (\<lambda>ns. ns\<lparr>ns_execution_status := Blocked\<rparr>) (bt_get (tr_nodes tr) j)
       else bt_get (tr_nodes tr) j)" for j
    unfolding eff(1) [of j] eff(2)
    by (cases "bt_get (tr_nodes tr) j") (auto simp: is_blockable_def block_state_def)
  then show ?thesis using eff(2,3) unfolding deps bl by blast
qed

text \<open>C21: \<open>ready_nodes\<close> lists, in key order, exactly the nodes that are ready, and the pending
  ones all of whose declared (and defined) dependencies are completed or skipped.\<close>

theorem ready_nodes_exact:
  assumes "petgraph_ok pg" and "tr_graph tr = build_graph file" and "bt_ok (tr_nodes tr)"
  shows "sorted_wrt (<) (ready_nodes pg tr) \<and>
    set (ready_nodes pg tr) = {i. status_of tr i = Some Ready \<or>
      (status_of tr i = Some Pending \<and> (\<forall>j. (i, j) \<in> dep_rel file \<longrightarrow> dep_done tr j))}"
proof -
  have "graph_ok (tr_graph tr)" by (simp add: assms(2) build_graph_props(1))
  from all_deps_satisfied_graph [OF assms(1) this] show ?thesis
    using ready_nodes_sorted [OF assms(3)] ready_nodes_iff [OF assms(3)]
    by (auto simp: assms(2) build_graph_props(3))
qed

text \<open>The counters of \<open>progress\<close> partition the nodes: each counts the nodes of its status
  and together they give the total.\<close>

lemma progress_partition:
  "let p = progress tr; count = (\<lambda>st. length (filter (\<lambda>(i, ns). ns_execution_status ns = st) (tr_nodes tr))) in
   ep_completed p = count Completed \<and> ep_failed p = count Failed \<and> ep_blocked p = count Blocked \<and>
   ep_skipped p = count Skipped \<and> ep_pending p = count Pending \<and> ep_ready p = count Ready \<and>
   ep_in_progress p = count InProgress \<and>
   ep_total p = ep_completed p + ep_failed p + ep_blocked p + ep_skipped p + ep_pending p +
     ep_ready p + ep_in_progress p"
proof -
  have "length m = length (filter (\<lambda>(i, ns). ns_execution_status ns = Completed) m) +
      length (filter (\<lambda>(i, ns). ns_execution_status ns = Failed) m) +
      length (filter (\<lambda>(i, ns). ns_execution_status ns = Blocked) m) +
      length (filter (\<lambda>(i, ns). ns_execution_status ns = Skipped) m) +
      length (filter (\<lambda>(i, ns). ns_execution_status ns = Pending) m) +
      length (filter (\<lambda>(i, ns). ns_execution_status ns = Ready) m) +
      length (filter (\<lambda>(i, ns). ns_execution_status ns = InProgress) m)"
    for m :: "(string, node_state) btree"
  proof (induction m)
    case (Cons e m)
    obtain i ns where e: "e = (i, ns)" by force
    show ?case using Cons by (cases "ns_execution_status ns") (simp_all add: e)
  qed simp
  from this [of "tr_nodes tr"] show ?thesis
    by (simp add: progress_def progress_fold Let_def)
qed

text \<open>Resuming with an existing state keeps exactly the nodes of the file: the recorded
  state of a node that is still in the file is untouched, entries of removed nodes are
  dropped, new nodes start as ready when they declare no dependency and pending otherwise.\<close>

lemma reconcile_exact:
  assumes "bt_ok (sf_nodes st)" and "distinct (map n_id (f_nodes file))"
  shows "(\<forall>i. i \<notin> file_ids file \<longrightarrow> bt_get (sf_nodes (reconcile_state file st)) i = None) \<and>
    (\<forall>n \<in> set (f_nodes file). bt_get (sf_nodes (reconcile_state file st)) (n_id n) =
       (case bt_get (sf_nodes st) (n_id n) of
          Some ns \<Rightarrow> Some ns
        | None \<Rightarrow> Some (node_state_default\<lparr>ns_execution_status :=
            (if unwrap_list (n_depends n) = [] then Ready else Pending)\<rparr>)))"
proof (intro conjI allI impI ballI)
  fix i assume "i \<notin> file_ids file"
  then show "bt_get (sf_nodes (reconcile_state file st)) i = None"
    using reconcile_nodes(2) [OF assms(1), of "file" i] by simp
next
  fix n assume n: "n \<in> set (f_nodes file)"
  have "map fst (map (\<lambda>n. (n_id n, n)) (f_nodes file)) = map n_id (f_nodes file)" by (simp add: o_def)
  then have "map_of (map (\<lambda>n. (n_id n, n)) (f_nodes file)) (n_id n) = Some n"
    using assms(2) n by (intro map_of_is_SomeI) (auto simp: comp_def)
  moreover have "n_id n \<in> file_ids file" using n by (simp add: file_ids_def)
  moreover have "initial_node_state n = node_state_default\<lparr>ns_execution_status :=
      (if unwrap_list (n_depends n) = [] then Ready else Pending)\<rparr>"
    by (cases "n_depends n") (auto simp: initial_node_state_def node_state_default_def unwrap_list_def)
  ultimately show "bt_get (sf_nodes (reconcile_state file st)) (n_id n) =
       (case bt_get (sf_nodes st) (n_id n) of
          Some ns \<Rightarrow> Some ns
        | None \<Rightarrow> Some (node_state_default\<lparr>ns_execution_status :=
            (if unwrap_list (n_depends n) = [] then Ready else Pending)\<rparr>))"
    using reconcile_nodes(2) [OF assms(1), of "file" "n_id n"] by (simp split: option.split)
qed

text \<open>C25: Saving is atomic: at every moment of a save, whatever fault stops it, the state file
  holds its old contents or the complete new contents, and files other than it and its
  temporary file are untouched; the save reports success exactly when no fault occurred.\<close>

theorem save_atomic:
  "let out = save_state fault agm_path st fs in
    (\<forall>fs' \<in> set (snd out).
      (fs' (state_path agm_path) = fs (state_path agm_path) \<or>
       fs' (state_path agm_path) = Some (render_state st)) \<and>
      (\<forall>p. p \<noteq> state_path agm_path \<longrightarrow> p \<noteq> state_path agm_path @ ''.tmp'' \<longrightarrow> fs' p = fs p)) \<and>
    (fst out = Inr () \<longleftrightarrow> fault = IoOk) \<and>
    (fault = IoOk \<longrightarrow> last (snd out) (state_path agm_path) = Some (render_state st)) \<and>
    (fault \<noteq> IoOk \<longrightarrow> last (snd out) (state_path agm_path) = fs (state_path agm_path))"
proof -
  let ?p = "state_path agm_path"
  have ne: "?p @ ''.tmp'' \<noteq> ?p" by simp
  let ?r = "replace_file fault (?p @ ''.tmp'') ?p (render_state st) fs"
  have steps: "snd (save_state fault agm_path st fs) = snd ?r"
    and res: "fst (save_state fault agm_path st fs) = Inr () \<longleftrightarrow> fst ?r = None"
    by (auto simp: save_state_def Let_def case_prod_beta split: option.split io_fault.split)
  show ?thesis
    unfolding Let_def steps res using replace_file_atomic [OF ne] replace_file_result [OF ne]
    by (auto simp del: fun_upd_apply) (metis fun_upd_same)
qed

text \<open>A state whose strings fit on one line survives a save and a restart: after a save
  without fault, loading returns exactly the saved state.\<close>

lemma save_load_state:
  assumes "state_file_ok st"
  shows "load_state False agm_path (last (snd (save_state IoOk agm_path st fs))) = Inr (Some st)"
proof -
  have "last (snd (save_state IoOk agm_path st fs)) (state_path agm_path) = Some (render_state st)"
    by (simp add: save_state_def replace_file_def Let_def)
  then show ?thesis
    by (simp add: load_state_def parse_render_state [OF assms])
qed

text \<open>C32: What a restart needs is kept. For a file whose names fit on a line, the fresh state and a
  reconciled one can be saved and loaded again, and so can the state after any sequence of calls, resets
  and failing calls included, whose agent names and logs are non-empty single lines without a tab; loading
  what was saved then gives exactly that state. The condition on names and logs cannot be dropped: a node marked
  with others leaves a state outside this class.\<close>

theorem tracker_ops_saveable:
  assumes "clock_ok env" and "hash_order_ok env"
  shows "(names_clean file \<and> clean session_id \<longrightarrow> state_file_ok (fst (initialize env file session_id x))) \<and>
    (names_clean file \<and> state_file_ok st \<longrightarrow> state_file_ok (reconcile_state file st)) \<and>
    (saveable tr \<and> list_all op_clean ops \<longrightarrow>
       (let tr' = fst (tracker_run pg env ops tr x) in
        saveable tr' \<and>
        load_state False path (last (snd (save_state IoOk path (tr_state tr') fs))) = Inr (Some (tr_state tr')))) \<and>
    (\<forall>tr' x'. saveable tr \<and> mark_completed env i agent log tr x = (Inr tr', x') \<longrightarrow>
       (saveable tr' \<longleftrightarrow> clean_opt (Some agent) \<and> clean_opt log)) \<and>
    (\<forall>tr' x'. saveable tr \<and> mark_failed env i agent log tr x = (Inr tr', x') \<longrightarrow>
       (saveable tr' \<longleftrightarrow> clean_opt (Some agent) \<and> clean_opt log))"
proof (intro conjI)
  show "names_clean file \<and> clean session_id \<longrightarrow> state_file_ok (fst (initialize env file session_id x))"
    using initialize_ok [OF assms(1)] by blast
  show "names_clean file \<and> state_file_ok st \<longrightarrow> state_file_ok (reconcile_state file st)"
    using reconcile_ok by blast
  show "saveable tr \<and> list_all op_clean ops \<longrightarrow>
       (let tr' = fst (tracker_run pg env ops tr x) in
        saveable tr' \<and>
        load_state False path (last (snd (save_state IoOk path (tr_state tr') fs))) = Inr (Some (tr_state tr')))"
    using saveable_run [OF assms] save_load_state by (simp add: Let_def)
  show "\<forall>tr' x'. saveable tr \<and> mark_completed env i agent log tr x = (Inr tr', x') \<longrightarrow>
       (saveable tr' \<longleftrightarrow> clean_opt (Some agent) \<and> clean_opt log)"
    unfolding mark_completed_def by (intro allI impI, elim conjE) (rule saveable_mark_iff [OF _ assms(1)])
  show "\<forall>tr' x'. saveable tr \<and> mark_failed env i agent log tr x = (Inr tr', x') \<longrightarrow>
       (saveable tr' \<longleftrightarrow> clean_opt (Some agent) \<and> clean_opt log)"
    unfolding mark_failed_def by (intro allI impI, elim conjE) (rule saveable_mark_iff [OF _ assms(1)])
qed

text \<open>\<open>retry\<close> is documented to fail unless the node has failed; the transition table lets
  it succeed on pending and blocked nodes as well, so a pending node whose dependencies
  are not done becomes ready, with its retry count raised (modulo the width of the counter).\<close>

lemma retry_promotes_pending:
  assumes "bt_get (tr_nodes tr) i = Some ns"
  shows "(\<exists>tr' x'. retry env i tr x = (Inr tr', x') \<and>
      bt_get (tr_nodes tr') i = Some (node_state_default\<lparr>ns_execution_status := Ready,
        ns_retry_count := ns_retry_count ns + 1\<rparr>)) \<longleftrightarrow>
    ns_execution_status ns \<in> {Pending, Failed, Blocked}"
  using assms
  by (cases "ns_execution_status ns")
    (simp_all add: retry_def validate_transition_def case_prod_beta Let_def node_state_default_def)

section \<open>Instances\<close>

text \<open>An outside whose clock counts its readings and whose files never fail.\<close>

definition sample_env :: "nat env" where
  "sample_env =
     \<lparr>env_now = (\<lambda>x. (''T'' @ show_nat x, Suc x)),
      env_utc = (\<lambda>x. (\<lparr>utc_year = 2026, utc_month = 4, utc_day = 8, utc_hour = 15, utc_minute = 32,
        utc_second = 0\<rparr>, Suc x)),
      env_instant = (\<lambda>x. (x, Suc x)), env_fault = (\<lambda>x. (IoOk, Suc x)),
      env_read_fault = (\<lambda>x. (False, Suc x)), env_dir_fault = (\<lambda>x. (False, Suc x)),
      env_temp_name = (\<lambda>dir x. (dir @ ''/.tmp'' @ show_nat x, Suc x)),
      env_unix_nanos = (\<lambda>x. (int x * 1000000000, Suc x)),
      env_parse_rfc3339 = (\<lambda>s. map_option (\<lambda>n. int n * 1000000000) (parse_digits 0 (drop 1 s))),
      env_hash_order = (\<lambda>ks. ks)\<rparr>"

lemma sample_env_ok: "clock_ok sample_env" "hash_order_ok sample_env"
  using clean_append [OF clean_show_nat, of "''T''"]
  by (simp_all add: clock_ok_def hash_order_ok_def sample_env_def)

definition sample_tracker :: tracker where
  "sample_tracker =
     \<lparr>tr_path = ''a.agm'', tr_state = fst (initialize sample_env sample_chain ''run-1'' 0),
      tr_graph = build_graph sample_chain\<rparr>"

lemma sample_tracker_simps:
  "bt_get (tr_nodes sample_tracker) ''c'' = Some (node_state_default\<lparr>ns_execution_status := Ready\<rparr>)"
  "status_of sample_tracker ''a'' = Some Pending"
  "status_of sample_tracker ''b'' = Some Pending"
  "status_of sample_tracker ''c'' = Some Ready"
  "bt_ok (tr_nodes sample_tracker)" "saveable sample_tracker"
  "tr_graph sample_tracker = build_graph sample_chain"
  by (code_simp, code_simp, code_simp, code_simp, code_simp, code_simp, simp add: sample_tracker_def)

definition sample_calls :: "tracker_op list" where
  "sample_calls = [OpTransition ''c'' InProgress, OpCompleted ''c'' ''shell'' (Some ''done''), OpTransition ''c'' Ready, OpRetry ''b'',
     OpResetNode ''a'', OpPropagate ''b'']"

lemma tracker_runs_safe_witness:
  "status_of (fst (tracker_run pg_ref sample_env sample_calls sample_tracker 0)) ''c'' = Some Completed"
proof -
  obtain tr x where r: "tracker_run pg_ref sample_env (take 2 sample_calls) sample_tracker 0 = (tr, x)" by force
  have "map_option ns_execution_status (bt_get (tr_nodes (fst (tracker_run pg_ref sample_env (take 2 sample_calls) sample_tracker 0))) ''c'') =
    Some Completed" by code_simp
  then have c: "status_of tr ''c'' = Some Completed" using r by (simp add: status_of_def)
  have "done_status Completed" "\<not> list_ex (resets ''c'') (drop 2 sample_calls)"
    by (simp_all add: done_status_def sample_calls_def)
  with tracker_runs_safe [OF sample_env_ok(2), of pg_ref OpReset tr x "''c''" Completed "drop 2 sample_calls"] c
  have "status_of (fst (tracker_run pg_ref sample_env (drop 2 sample_calls) tr x)) ''c'' = Some Completed" by blast
  moreover have "tracker_run pg_ref sample_env (xs @ ys) t y =
      (case tracker_run pg_ref sample_env xs t y of (t', y') \<Rightarrow> tracker_run pg_ref sample_env ys t' y')" for xs ys t y
    by (induction xs arbitrary: t y) (auto split: prod.splits sum.splits)
  from this [of "take 2 sample_calls" "drop 2 sample_calls" sample_tracker 0]
  have "tracker_run pg_ref sample_env sample_calls sample_tracker 0 = tracker_run pg_ref sample_env (drop 2 sample_calls) tr x"
    using r by simp
  ultimately show ?thesis by simp
qed

lemma propagate_blocked_exact_witness:
  "\<exists>tr' newly x'. propagate_blocked pg_ref sample_env ''c'' sample_tracker 0 = ((tr', newly), x') \<and>
     ''a'' \<in> set newly"
proof -
  obtain tr' newly x' where p: "propagate_blocked pg_ref sample_env ''c'' sample_tracker 0 = ((tr', newly), x')"
    by (cases "propagate_blocked pg_ref sample_env ''c'' sample_tracker 0") auto
  have "(''a'', ''c'') \<in> (dep_rel sample_chain)\<^sup>+"
    unfolding dep_rel_sample_chain by (rule trancl_into_trancl [OF r_into_trancl]) auto
  then show ?thesis
    using propagate_blocked_exact [OF pg_ref_ok sample_env_ok(2) sample_tracker_simps(7) p] p
      sample_tracker_simps(2) by auto
qed

lemma ready_nodes_exact_witness: "set (ready_nodes pg_ref sample_tracker) = {''c''}"
proof -
  have "status_of sample_tracker i = Some Ready \<longleftrightarrow> i = ''c''" for i
    by (simp add: status_of_def sample_tracker_def initialize_def sample_env_def now_iso8601_def sample_simps
        initial_node_state_def)
  moreover have "\<not> dep_done sample_tracker ''b''" "\<not> dep_done sample_tracker ''c''"
    using sample_tracker_simps(3,4) by (auto simp: dep_done_def status_of_def done_status_def)
  moreover have "status_of sample_tracker i = Some Pending \<longrightarrow> i = ''a'' \<or> i = ''b''" for i
    by (simp add: status_of_def sample_tracker_def initialize_def sample_env_def now_iso8601_def sample_simps
        initial_node_state_def)
  ultimately show ?thesis
    using ready_nodes_exact [OF pg_ref_ok sample_tracker_simps(7,5)] unfolding dep_rel_sample_chain by auto
qed

lemma reconcile_exact_witness:
  "bt_get (sf_nodes (reconcile_state sample_chain (sample_state None))) ''a'' =
     bt_get (sf_nodes (sample_state None)) ''a''"
proof -
  have "bt_ok (sf_nodes (sample_state None))" "distinct (map n_id (f_nodes sample_chain))"
    by (simp_all add: sample_state_def bt_ok_def sample_simps)
  from reconcile_exact [OF this] show ?thesis
    by (auto simp: sample_simps sample_state_def)
qed

lemma save_atomic_witness:
  "last (snd (save_state (WriteFails 3) ''a.agm'' (sample_state None) [''a.agm.state'' \<mapsto> ''old'']))
     ''a.agm.state'' = Some ''old''"
  using save_atomic [of "WriteFails 3" "''a.agm''" "sample_state None" "[''a.agm.state'' \<mapsto> ''old'']"]
  by (simp add: Let_def state_path_def)

lemma save_load_state_witness:
  "load_state False ''a.agm'' (last (snd (save_state IoOk ''a.agm'' (sample_state (Some ''done'')) (\<lambda>_. None)))) =
     Inr (Some (sample_state (Some ''done'')))"
proof (rule save_load_state)
  show "state_file_ok (sample_state (Some ''done''))" by code_simp
qed

lemma tracker_ops_saveable_witness:
  "(let tr' = fst (tracker_run pg_ref sample_env sample_calls sample_tracker 0) in
     load_state False ''a.agm'' (last (snd (save_state IoOk ''a.agm'' (tr_state tr') (\<lambda>_. None)))) = Inr (Some (tr_state tr')))"
proof -
  have "list_all op_clean sample_calls" by code_simp
  then show ?thesis
    using tracker_ops_saveable [OF sample_env_ok, where tr = sample_tracker and ops = sample_calls and pg = pg_ref and x = 0
        and path = "''a.agm''" and fs = "\<lambda>_. None"] sample_tracker_simps(6)
    by (simp add: Let_def)
qed

lemma retry_promotes_pending_witness:
  "\<exists>tr' x'. retry sample_env ''a'' sample_tracker 0 = (Inr tr', x') \<and>
     bt_get (tr_nodes tr') ''a'' =
       Some (node_state_default\<lparr>ns_execution_status := Ready, ns_retry_count := 1\<rparr>)"
proof -
  have "bt_get (tr_nodes sample_tracker) ''a'' = Some node_state_default" by code_simp
  from retry_promotes_pending [OF this, of sample_env 0] show ?thesis
    by (simp add: node_state_default_def)
qed

end
