(* ===== verification/Memory_Runtime.thy ===== *)
theory Memory_Runtime
  imports Tracker
begin

text \<open>
  The memory runtime, \<open>crates/agm-cli/src/runtime/memory.rs\<close>: the four scopes and their
  operations, the expiry of entries by ISO 8601 durations, and the two memory files. A
  \<open>HashMap\<close> is kept as a sorted map; where the code iterates one, the order is the
  environment's.
\<close>

section \<open>State\<close>

datatype memory_result =
    MrValue "mem_file_entry option"
  | MrUpserted
  | MrDeleted bool
  | MrList "(string \<times> mem_file_entry) list"
  | MrSearchUnsupported

record gc_report =
  gc_expired_removed :: nat
  gc_orphan_removed :: nat

type_synonym store = "(string, mem_file_entry) btree"

record mem_runtime =
  mr_node_store :: "(string, store) btree"
  mr_session_store :: store
  mr_project_path :: string
  mr_project_store :: mem_file
  mr_global_path :: string
  mr_global_store :: mem_file
  mr_package :: string

section \<open>Paths and files\<close>

definition mem_path :: "string \<Rightarrow> string" where
  "mem_path agm_path = agm_path @ ''.mem''"

text \<open>\<open>Path::parent\<close> for a path without trailing or repeated separators.\<close>

definition path_parent :: "string \<Rightarrow> string option" where
  "path_parent p =
     (if p = [] \<or> p = ''/'' then None
      else case str_find ''/'' (rev p) of
        None \<Rightarrow> Some []
      | Some i \<Rightarrow> (let d = take (length p - Suc i) p in Some (if d = [] then ''/'' else d)))"

text \<open>The environment variables \<open>HOME\<close> and \<open>USERPROFILE\<close> are arguments.\<close>

definition global_mem_path :: "string option \<Rightarrow> string option \<Rightarrow> string res" where
  "global_mem_path home userprofile =
     (case (case home of Some h \<Rightarrow> Some h | None \<Rightarrow> userprofile) of
        None \<Rightarrow> Inl ''Cannot determine home directory (HOME / USERPROFILE not set)''
      | Some h \<Rightarrow> Inr (h @ ''/.agm/global.mem''))"

definition empty_mem_file :: "'x env \<Rightarrow> string \<Rightarrow> 'x \<Rightarrow> mem_file \<times> 'x" where
  "empty_mem_file env package x =
     (let (now, x') = now_iso8601 env x in
      (\<lparr>mem_format_version = ''1.0'', mem_package = package, mem_updated_at = now,
        mem_entries = []\<rparr>, x'))"

definition load_mem_file :: "'x env \<Rightarrow> string \<Rightarrow> string \<Rightarrow> 'x world \<Rightarrow> mem_file res \<times> 'x world" where
  "load_mem_file env path package w =
     (case w_files w path of
        None \<Rightarrow>
          (let (m, x) = empty_mem_file env package (w_rest w) in (Inr m, w\<lparr>w_rest := x\<rparr>))
      | Some content \<Rightarrow>
          (let (fault, x) = env_read_fault env (w_rest w); w' = w\<lparr>w_rest := x\<rparr> in
           if fault then (Inl (''Failed to read mem file: '' @ path), w')
           else case parse_mem content of
             Inr m \<Rightarrow> (Inr m, w')
           | Inl errors \<Rightarrow>
               (Inl (''Failed to parse mem file '' @ path @ '': '' @
                     join ''; '' (map err_message errors)), w')))"

text \<open>
  \<open>atomic_write\<close> goes through a named temporary file that the library deletes when a step
  fails. The second component lists the states of the file system it goes through.
\<close>

definition atomic_write ::
  "io_fault \<Rightarrow> string \<Rightarrow> string \<Rightarrow> string \<Rightarrow> files \<Rightarrow> unit res \<times> files list" where
  "atomic_write fault tmp path content fs =
     (let dir = (case path_parent path of Some d \<Rightarrow> d | None \<Rightarrow> ''.'');
          (outcome, steps) = replace_file fault tmp path content fs;
          cleaned = steps @ [(last steps)(tmp := None)] in
      case outcome of
        None \<Rightarrow> (Inr (), steps)
      | Some CreateFails \<Rightarrow> (Inl (''Failed to create temp file in '' @ dir), steps)
      | Some (WriteFails _) \<Rightarrow> (Inl ''Failed to write content to temp file'', cleaned)
      | Some SyncFails \<Rightarrow> (Inl ''Failed to sync temp file'', cleaned)
      | Some _ \<Rightarrow> (Inl (''Failed to persist file '' @ path), cleaned))"

definition atomic_write_mem :: "'x env \<Rightarrow> string \<Rightarrow> mem_file \<Rightarrow> 'x world \<Rightarrow> unit res \<times> 'x world" where
  "atomic_write_mem env path mem w =
     (let dir = (case path_parent path of Some d \<Rightarrow> d | None \<Rightarrow> ''.'');
          (tmp, x1) = env_temp_name env dir (w_rest w);
          (fault, x2) = env_fault env x1;
          (r, steps) = atomic_write fault tmp path (render_mem mem) (w_files w) in
      (r, \<lparr>w_files = last steps, w_rest = x2\<rparr>))"

definition ensure_global_dir :: "'x env \<Rightarrow> string \<Rightarrow> 'x world \<Rightarrow> unit res \<times> 'x world" where
  "ensure_global_dir env global_path w =
     (case path_parent global_path of
        None \<Rightarrow> (Inr (), w)
      | Some parent \<Rightarrow>
          (let (fault, x) = env_dir_fault env (w_rest w) in
           (if fault then Inl (''Failed to create global memory directory: '' @ parent) else Inr (),
            w\<lparr>w_rest := x\<rparr>)))"

definition mem_runtime_new ::
  "'x env \<Rightarrow> string \<Rightarrow> string \<Rightarrow> string \<Rightarrow> 'x world \<Rightarrow> mem_runtime res \<times> 'x world" where
  "mem_runtime_new env project_path global_path package w =
     (let (r0, w0) = ensure_global_dir env global_path w in
      case r0 of
        Inl e \<Rightarrow> (Inl e, w0)
      | Inr _ \<Rightarrow>
          (let (r1, w1) = load_mem_file env project_path package w0 in
           case r1 of
             Inl e \<Rightarrow> (Inl e, w1)
           | Inr project \<Rightarrow>
               (let (r2, w2) = load_mem_file env global_path package w1 in
                case r2 of
                  Inl e \<Rightarrow> (Inl e, w2)
                | Inr global \<Rightarrow>
                    (Inr \<lparr>mr_node_store = [], mr_session_store = [], mr_project_path = project_path,
                          mr_project_store = project, mr_global_path = global_path,
                          mr_global_store = global, mr_package = package\<rparr>, w2))))"

section \<open>Core operations\<close>

definition mem_get :: "string \<Rightarrow> memory_scope \<Rightarrow> string \<Rightarrow> mem_runtime \<Rightarrow> mem_file_entry option" where
  "mem_get node_id scope key mr =
     (case scope of
        ScopeNode \<Rightarrow>
          (case bt_get (mr_node_store mr) node_id of None \<Rightarrow> None | Some m \<Rightarrow> bt_get m key)
      | ScopeSession \<Rightarrow> bt_get (mr_session_store mr) key
      | ScopeProject \<Rightarrow> bt_get (mem_entries (mr_project_store mr)) key
      | ScopeGlobal \<Rightarrow> bt_get (mem_entries (mr_global_store mr)) key)"

text \<open>The entry an upsert writes over \<open>old\<close>.\<close>

definition upserted_entry ::
  "string \<Rightarrow> memory_scope \<Rightarrow> string \<Rightarrow> memory_ttl \<Rightarrow> string \<Rightarrow> mem_file_entry option \<Rightarrow> mem_file_entry" where
  "upserted_entry now scope topic ttl v old =
     \<lparr>mf_topic = topic, mf_scope = scope, mf_ttl = ttl, mf_value = v,
      mf_created_at = (case old of Some e \<Rightarrow> mf_created_at e | None \<Rightarrow> now),
      mf_updated_at = now\<rparr>"

definition mem_upsert ::
  "'x env \<Rightarrow> string \<Rightarrow> memory_scope \<Rightarrow> string \<Rightarrow> string \<Rightarrow> memory_ttl \<Rightarrow> string \<Rightarrow> mem_runtime \<Rightarrow> 'x \<Rightarrow>
   mem_runtime \<times> 'x" where
  "mem_upsert env node_id scope key topic ttl v mr x =
     (let (now, x') = now_iso8601 env x;
          entry = (\<lambda>m. upserted_entry now scope topic ttl v (bt_get m key)) in
      (case scope of
         ScopeNode \<Rightarrow>
           (let m = (case bt_get (mr_node_store mr) node_id of Some m \<Rightarrow> m | None \<Rightarrow> []) in
            mr\<lparr>mr_node_store := bt_insert node_id (bt_insert key (entry m) m) (mr_node_store mr)\<rparr>)
       | ScopeSession \<Rightarrow>
           mr\<lparr>mr_session_store := bt_insert key (entry (mr_session_store mr)) (mr_session_store mr)\<rparr>
       | ScopeProject \<Rightarrow>
           (let f = mr_project_store mr; m = mem_entries f in
            mr\<lparr>mr_project_store := f\<lparr>mem_entries := bt_insert key (entry m) m, mem_updated_at := now\<rparr>\<rparr>)
       | ScopeGlobal \<Rightarrow>
           (let f = mr_global_store mr; m = mem_entries f in
            mr\<lparr>mr_global_store := f\<lparr>mem_entries := bt_insert key (entry m) m, mem_updated_at := now\<rparr>\<rparr>),
       x'))"

definition mem_delete :: "string \<Rightarrow> memory_scope \<Rightarrow> string \<Rightarrow> mem_runtime \<Rightarrow> mem_runtime \<times> bool" where
  "mem_delete node_id scope key mr =
     (case scope of
        ScopeNode \<Rightarrow>
          (case bt_get (mr_node_store mr) node_id of
             None \<Rightarrow> (mr, False)
           | Some m \<Rightarrow>
               (mr\<lparr>mr_node_store := bt_insert node_id (bt_remove key m) (mr_node_store mr)\<rparr>,
                bt_get m key \<noteq> None))
      | ScopeSession \<Rightarrow>
          (mr\<lparr>mr_session_store := bt_remove key (mr_session_store mr)\<rparr>,
           bt_get (mr_session_store mr) key \<noteq> None)
      | ScopeProject \<Rightarrow>
          (let f = mr_project_store mr in
           (mr\<lparr>mr_project_store := f\<lparr>mem_entries := bt_remove key (mem_entries f)\<rparr>\<rparr>,
            bt_get (mem_entries f) key \<noteq> None))
      | ScopeGlobal \<Rightarrow>
          (let f = mr_global_store mr in
           (mr\<lparr>mr_global_store := f\<lparr>mem_entries := bt_remove key (mem_entries f)\<rparr>\<rparr>,
            bt_get (mem_entries f) key \<noteq> None)))"

definition topic_matches :: "string \<Rightarrow> string \<times> mem_file_entry \<Rightarrow> bool" where
  "topic_matches topic e \<longleftrightarrow> topic = [] \<or> mf_topic (snd e) = topic"

definition mem_list ::
  "'x env \<Rightarrow> string \<Rightarrow> memory_scope \<Rightarrow> string \<Rightarrow> mem_runtime \<Rightarrow> (string \<times> mem_file_entry) list" where
  "mem_list env node_id scope topic mr =
     (case scope of
        ScopeNode \<Rightarrow>
          (case bt_get (mr_node_store mr) node_id of
             None \<Rightarrow> []
           | Some m \<Rightarrow> filter (topic_matches topic) (hash_iter env m))
      | ScopeSession \<Rightarrow> filter (topic_matches topic) (hash_iter env (mr_session_store mr))
      | ScopeProject \<Rightarrow> filter (topic_matches topic) (mem_entries (mr_project_store mr))
      | ScopeGlobal \<Rightarrow> filter (topic_matches topic) (mem_entries (mr_global_store mr)))"

definition max_memory_value_bytes :: nat where
  "max_memory_value_bytes = 32768"

definition value_too_long :: "string \<Rightarrow> string \<Rightarrow> string" where
  "value_too_long v key =
     ''Memory value exceeds maximum size ('' @ show_nat (length v) @ '' bytes > '' @
     show_nat max_memory_value_bytes @ '' bytes) for key `'' @ key @ ''`''"

definition execute_action ::
  "'x env \<Rightarrow> string \<Rightarrow> memory_entry \<Rightarrow> mem_runtime \<Rightarrow> 'x \<Rightarrow> memory_result res \<times> mem_runtime \<times> 'x" where
  "execute_action env node_id entry mr x =
     (let scope = (case me_scope entry of Some s \<Rightarrow> s | None \<Rightarrow> ScopeSession);
          ttl = (case me_ttl entry of Some t \<Rightarrow> t | None \<Rightarrow> TtlSession) in
      case me_action entry of
        MaGet \<Rightarrow> (Inr (MrValue (mem_get node_id scope (me_key entry) mr)), mr, x)
      | MaUpsert \<Rightarrow>
          (let v = unwrap_or_default (me_value entry) in
           if max_memory_value_bytes < length v then (Inl (value_too_long v (me_key entry)), mr, x)
           else (let (mr', x') =
                   mem_upsert env node_id scope (me_key entry) (me_topic entry) ttl v mr x in
                 (Inr MrUpserted, mr', x')))
      | MaDelete \<Rightarrow>
          (let (mr', removed) = mem_delete node_id scope (me_key entry) mr in
           (Inr (MrDeleted removed), mr', x))
      | MaList \<Rightarrow> (Inr (MrList (mem_list env node_id scope (me_topic entry) mr)), mr, x)
      | MaSearch \<Rightarrow> (Inr MrSearchUnsupported, mr, x))"

section \<open>Clearing and listing\<close>

definition clear_node_scope :: "string \<Rightarrow> mem_runtime \<Rightarrow> mem_runtime" where
  "clear_node_scope node_id mr = mr\<lparr>mr_node_store := bt_remove node_id (mr_node_store mr)\<rparr>"

definition clear_session_scope :: "mem_runtime \<Rightarrow> mem_runtime" where
  "clear_session_scope mr = mr\<lparr>mr_session_store := []\<rparr>"

definition clear_node_on_reset :: "string \<Rightarrow> mem_runtime \<Rightarrow> mem_runtime" where
  "clear_node_on_reset node_id mr = clear_node_scope node_id mr"

definition list_topic :: "'x env \<Rightarrow> string \<Rightarrow> mem_runtime \<Rightarrow> (string \<times> string) list" where
  "list_topic env topic mr =
     map (\<lambda>(key, e). (key, mf_value e))
       (filter (\<lambda>(key, e). mf_topic e = topic)
         (hash_iter env (mr_session_store mr) @ mem_entries (mr_project_store mr) @
          mem_entries (mr_global_store mr)))"

section \<open>Durations\<close>

definition secs_per_minute :: "64 word" where "secs_per_minute = 60"
definition secs_per_hour :: "64 word" where "secs_per_hour = 3600"
definition secs_per_day :: "64 word" where "secs_per_day = 86400"

text \<open>One component of the time part: the number before the letter \<open>unit\<close>, if it is there.\<close>

definition take_component ::
  "char \<Rightarrow> string \<Rightarrow> string \<Rightarrow> (64 word \<times> string) res" where
  "take_component unit msg s =
     (case str_find [unit] s of
        None \<Rightarrow> Inr (0, s)
      | Some pos \<Rightarrow>
          res_bind (ok_or msg (parse_u64 (take pos s))) (\<lambda>n. Inr (n, drop (Suc pos) s)))"

definition parse_time_part :: "string \<Rightarrow> string \<Rightarrow> (64 word \<times> 64 word) res" where
  "parse_time_part time_part original =
     res_bind (take_component CHR ''H'' (''Invalid hour count in: '' @ original) time_part)
       (\<lambda>(hours, remaining).
     res_bind (take_component CHR ''M'' (''Invalid minute count in: '' @ original) remaining)
       (\<lambda>(minutes, remaining).
     if remaining \<noteq> [] then Inl (''Unrecognised time component in duration: '' @ original)
     else if hours = 0 \<and> minutes = 0 \<and> time_part \<noteq> ''0H'' \<and> time_part \<noteq> ''0M'' \<and>
       CHR ''H'' \<notin> set time_part \<and> CHR ''M'' \<notin> set time_part
     then Inl (''Empty or unrecognised time part in duration: '' @ original)
     else Inr (hours, minutes)))"

definition parse_iso8601_duration :: "string \<Rightarrow> (64 word) res" where
  "parse_iso8601_duration input =
     (if \<not> starts_with ''P'' input then Inl (''Duration must start with '' @ sq ''P'' @ '': '' @ input)
      else
        let rest = drop 1 input;
            t_pos = str_find ''T'' rest;
            date_part = (case t_pos of Some pos \<Rightarrow> take pos rest | None \<Rightarrow> rest) in
        if CHR ''Y'' \<in> set date_part then Inl (''Years not supported in duration: '' @ input)
        else if CHR ''M'' \<in> set date_part then Inl (''Months not supported in duration: '' @ input)
        else
          res_bind
            (if date_part = [] then Inr 0
             else case strip_suffix ''D'' date_part of
               Some stripped \<Rightarrow>
                 res_bind (ok_or (''Invalid day count in: '' @ input) (parse_u64 stripped))
                   (\<lambda>days. Inr (days * secs_per_day))
             | None \<Rightarrow> Inl (''Unrecognised date part in duration: '' @ input))
            (\<lambda>date_secs.
              case t_pos of
                None \<Rightarrow>
                  if date_part = [] then Inl (''Empty duration: '' @ input) else Inr date_secs
              | Some pos \<Rightarrow>
                  (let time_part = drop (Suc pos) rest in
                   if time_part = [] then Inl (''Empty time part in duration: '' @ input)
                   else if CHR ''S'' \<in> set time_part then
                     Inl (''Seconds not supported in duration: '' @ input)
                   else
                     res_bind (parse_time_part time_part input) (\<lambda>(hours, minutes).
                       Inr (date_secs + (hours * secs_per_hour + minutes * secs_per_minute))))))"

section \<open>Expiry\<close>

text \<open>\<open>Duration::whole_seconds\<close> of a difference in nanoseconds rounds towards zero.\<close>

definition whole_seconds :: "int \<Rightarrow> int" where
  "whole_seconds d = (if 0 \<le> d then d div 1000000000 else - ((- d) div 1000000000))"

definition is_expired :: "'x env \<Rightarrow> int \<Rightarrow> mem_file_entry \<Rightarrow> bool" where
  "is_expired env now e =
     (case mf_ttl e of
        TtlDuration d \<Rightarrow>
          (case parse_iso8601_duration d of
             Inl _ \<Rightarrow> False
           | Inr secs \<Rightarrow>
               (case env_parse_rfc3339 env (mf_updated_at e) of
                  None \<Rightarrow> False
                | Some updated \<Rightarrow>
                    (let s = whole_seconds (now - updated) in
                     0 \<le> s \<and> secs \<le> (word_of_int s :: 64 word))))
      | _ \<Rightarrow> False)"

definition expire_store :: "'x env \<Rightarrow> int \<Rightarrow> store \<Rightarrow> store" where
  "expire_store env now m = bt_retain (\<lambda>_ e. \<not> is_expired env now e) m"

definition expire_mem_file :: "'x env \<Rightarrow> int \<Rightarrow> mem_file \<Rightarrow> 'x \<Rightarrow> (mem_file \<times> nat) \<times> 'x" where
  "expire_mem_file env now f x =
     (let m = expire_store env now (mem_entries f);
          removed = length (mem_entries f) - length m in
      if 0 < removed then
        (let (ts, x') = now_iso8601 env x in
         ((f\<lparr>mem_entries := m, mem_updated_at := ts\<rparr>, removed), x'))
      else ((f\<lparr>mem_entries := m\<rparr>, removed), x))"

definition expire :: "'x env \<Rightarrow> mem_runtime \<Rightarrow> 'x \<Rightarrow> (mem_runtime \<times> nat) \<times> 'x" where
  "expire env mr x =
     (let (now, x1) = env_unix_nanos env x;
          nodes = bt_map_values (expire_store env now) (mr_node_store mr);
          removed_nodes =
            sum_list (map (\<lambda>(i, m). length m - length (expire_store env now m)) (mr_node_store mr));
          session = expire_store env now (mr_session_store mr);
          removed_session = length (mr_session_store mr) - length session;
          ((project, removed_project), x2) = expire_mem_file env now (mr_project_store mr) x1;
          ((global, removed_global), x3) = expire_mem_file env now (mr_global_store mr) x2 in
      ((mr\<lparr>mr_node_store := nodes, mr_session_store := session, mr_project_store := project,
          mr_global_store := global\<rparr>,
        removed_nodes + removed_session + removed_project + removed_global), x3))"

definition gc :: "'x env \<Rightarrow> mem_runtime \<Rightarrow> 'x \<Rightarrow> (mem_runtime \<times> gc_report) \<times> 'x" where
  "gc env mr x =
     (let ((mr', removed), x') = expire env mr x in
      ((mr', \<lparr>gc_expired_removed = removed, gc_orphan_removed = 0\<rparr>), x'))"

section \<open>Flushing\<close>

definition flush :: "'x env \<Rightarrow> mem_runtime \<Rightarrow> 'x world \<Rightarrow> unit res \<times> mem_runtime \<times> 'x world" where
  "flush env mr w =
     (let (now, x) = now_iso8601 env (w_rest w);
          mr' = mr\<lparr>mr_project_store := (mr_project_store mr)\<lparr>mem_updated_at := now\<rparr>,
                  mr_global_store := (mr_global_store mr)\<lparr>mem_updated_at := now\<rparr>\<rparr>;
          (r0, w0) = ensure_global_dir env (mr_global_path mr) (w\<lparr>w_rest := x\<rparr>) in
      case r0 of
        Inl e \<Rightarrow> (Inl e, mr', w0)
      | Inr _ \<Rightarrow>
          (let (r1, w1) = atomic_write_mem env (mr_project_path mr') (mr_project_store mr') w0 in
           case r1 of
             Inl _ \<Rightarrow> (Inl (''Failed to flush project store: '' @ mr_project_path mr'), mr', w1)
           | Inr _ \<Rightarrow>
               (let (r2, w2) = atomic_write_mem env (mr_global_path mr') (mr_global_store mr') w1 in
                case r2 of
                  Inl _ \<Rightarrow> (Inl (''Failed to flush global store: '' @ mr_global_path mr'), mr', w2)
                | Inr _ \<Rightarrow> (Inr (), mr', w2))))"


section \<open>The abstract store\<close>

text \<open>
  What the four scopes promise to their users: one map from slots to entries. A node slot
  belongs to one node, the other scopes are shared by all nodes. \<open>spec_action\<close> is the
  contract of \<open>execute_action\<close> on that map.
\<close>

datatype slot =
    NodeSlot string string
  | SessionSlot string
  | ProjectSlot string
  | GlobalSlot string

definition slot_of :: "string \<Rightarrow> memory_scope \<Rightarrow> string \<Rightarrow> slot" where
  "slot_of node_id scope key =
     (case scope of
        ScopeNode \<Rightarrow> NodeSlot node_id key
      | ScopeSession \<Rightarrow> SessionSlot key
      | ScopeProject \<Rightarrow> ProjectSlot key
      | ScopeGlobal \<Rightarrow> GlobalSlot key)"

fun slot_get :: "mem_runtime \<Rightarrow> slot \<Rightarrow> mem_file_entry option" where
  "slot_get mr (NodeSlot i k) = Option.bind (bt_get (mr_node_store mr) i) (\<lambda>m. bt_get m k)"
| "slot_get mr (SessionSlot k) = bt_get (mr_session_store mr) k"
| "slot_get mr (ProjectSlot k) = bt_get (mem_entries (mr_project_store mr)) k"
| "slot_get mr (GlobalSlot k) = bt_get (mem_entries (mr_global_store mr)) k"

definition mem_ok :: "mem_runtime \<Rightarrow> bool" where
  "mem_ok mr \<longleftrightarrow>
     bt_ok (mr_node_store mr) \<and> (\<forall>m \<in> snd ` set (mr_node_store mr). bt_ok m) \<and>
     bt_ok (mr_session_store mr) \<and> bt_ok (mem_entries (mr_project_store mr)) \<and>
     bt_ok (mem_entries (mr_global_store mr))"

datatype view =
    ViewValue "mem_file_entry option"
  | ViewUpserted
  | ViewDeleted bool
  | ViewList "(string \<times> mem_file_entry) set"
  | ViewUnsupported

fun view_result :: "memory_result \<Rightarrow> view" where
  "view_result (MrValue v) = ViewValue v"
| "view_result MrUpserted = ViewUpserted"
| "view_result (MrDeleted b) = ViewDeleted b"
| "view_result (MrList l) = ViewList (set l)"
| "view_result MrSearchUnsupported = ViewUnsupported"

type_synonym slots = "slot \<Rightarrow> mem_file_entry option"
type_synonym command = "string \<times> memory_entry"

definition entry_scope :: "memory_entry \<Rightarrow> memory_scope" where
  "entry_scope e = (case me_scope e of Some s \<Rightarrow> s | None \<Rightarrow> ScopeSession)"

definition entry_ttl :: "memory_entry \<Rightarrow> memory_ttl" where
  "entry_ttl e = (case me_ttl e of Some t \<Rightarrow> t | None \<Rightarrow> TtlSession)"

definition command_slot :: "command \<Rightarrow> slot" where
  "command_slot c = slot_of (fst c) (entry_scope (snd c)) (me_key (snd c))"

definition spec_action :: "'x env \<Rightarrow> command \<Rightarrow> slots \<times> 'x \<Rightarrow> view res \<times> slots \<times> 'x" where
  "spec_action env c = (\<lambda>(a, x).
     (let e = snd c; s = command_slot c in
      case me_action e of
        MaGet \<Rightarrow> (Inr (ViewValue (a s)), a, x)
      | MaUpsert \<Rightarrow>
          (let v = unwrap_or_default (me_value e) in
           if max_memory_value_bytes < length v then (Inl (value_too_long v (me_key e)), a, x)
           else (let (now, x') = now_iso8601 env x in
             (Inr ViewUpserted,
              a(s \<mapsto> upserted_entry now (entry_scope e) (me_topic e) (entry_ttl e) v (a s)), x')))
      | MaDelete \<Rightarrow> (Inr (ViewDeleted (a s \<noteq> None)), a(s := None), x)
      | MaList \<Rightarrow>
          (Inr (ViewList {(k, f). a (slot_of (fst c) (entry_scope e) k) = Some f \<and>
             topic_matches (me_topic e) (k, f)}), a, x)
      | MaSearch \<Rightarrow> (Inr ViewUnsupported, a, x)))"

subsection \<open>Simulation\<close>

text \<open>Running a list of commands, collecting the results.\<close>

fun run_commands :: "('c \<Rightarrow> 's \<Rightarrow> 'o \<times> 's) \<Rightarrow> 'c list \<Rightarrow> 's \<Rightarrow> 'o list \<times> 's" where
  "run_commands step [] s = ([], s)"
| "run_commands step (c # cs) s =
     (let (r, s') = step c s; (rs, s'') = run_commands step cs s' in (r # rs, s''))"

text \<open>
  A component with an abstract contract: every step of the component, on a state that
  satisfies its invariant, is the step of the contract on the abstract state.
\<close>

locale simulation =
  fixes step :: "'c \<Rightarrow> 's \<Rightarrow> 'o \<times> 's"
    and spec :: "'c \<Rightarrow> 'a \<Rightarrow> 'p \<times> 'a"
    and view :: "'o \<Rightarrow> 'p"
    and abs :: "'s \<Rightarrow> 'a"
    and inv :: "'s \<Rightarrow> bool"
  assumes step_inv: "inv s \<Longrightarrow> inv (snd (step c s))"
    and step_spec: "inv s \<Longrightarrow> spec c (abs s) = map_prod view abs (step c s)"
begin

lemma run_inv: "inv s \<Longrightarrow> inv (snd (run_commands step cs s))"
proof (induction cs arbitrary: s)
  case (Cons c cs)
  from Cons.IH [OF step_inv [OF Cons.prems, of c]] show ?case
    by (simp add: case_prod_beta Let_def)
qed simp

lemma run_spec: "inv s \<Longrightarrow> run_commands spec cs (abs s) = map_prod (map view) abs (run_commands step cs s)"
proof (induction cs arbitrary: s)
  case (Cons c cs)
  from Cons.IH [OF step_inv [OF Cons.prems, of c]] step_spec [OF Cons.prems, of c] show ?case
    by (simp add: case_prod_beta Let_def map_prod_def)
qed simp

text \<open>A property of the abstract state that every command keeps holds after the run.\<close>

lemma run_keeps:
  assumes "inv s" and "P (abs s)" and "\<And>c a. c \<in> set cs \<Longrightarrow> P a \<Longrightarrow> P (snd (spec c a))"
  shows "P (abs (snd (run_commands step cs s)))"
  using assms
proof (induction cs arbitrary: s)
  case (Cons c cs)
  have "abs (snd (step c s)) = snd (spec c (abs s))"
    using step_spec [OF Cons.prems(1)] by simp
  then have "P (abs (snd (step c s)))" using Cons.prems by simp
  with Cons.IH [OF step_inv [OF Cons.prems(1), of c]] Cons.prems(3) show ?case
    by (simp add: case_prod_beta Let_def)
qed simp

end

subsection \<open>The runtime implements the store\<close>

definition action_step :: "'x env \<Rightarrow> command \<Rightarrow> mem_runtime \<times> 'x \<Rightarrow> memory_result res \<times> mem_runtime \<times> 'x" where
  "action_step env c s = execute_action env (fst c) (snd c) (fst s) (snd s)"

lemma mem_get_slot: "mem_get i scope k mr = slot_get mr (slot_of i scope k)"
  by (simp add: mem_get_def slot_of_def split: memory_scope.split option.split)

lemma mem_ok_node: "mem_ok mr \<Longrightarrow> bt_get (mr_node_store mr) i = Some m \<Longrightarrow> bt_ok m"
  unfolding mem_ok_def using bt.set_entries by (metis image_eqI snd_conv)

lemma bt_ok_values_insert:
  assumes "bt_ok m" and "\<forall>v \<in> snd ` set m. P v" and "P w"
  shows "\<forall>v \<in> snd ` set (bt_insert k w m). P v"
  using assms(2,3) set_bt_insert_sub [of k w m] by force

lemma node_store_update:
  assumes "mem_ok mr" and "bt_ok m"
  shows "mem_ok (mr\<lparr>mr_node_store := bt_insert i m (mr_node_store mr)\<rparr>)"
proof -
  have "\<forall>v \<in> snd ` set (bt_insert i m (mr_node_store mr)). bt_ok v"
    using assms by (intro bt_ok_values_insert) (simp_all add: mem_ok_def)
  then show ?thesis using assms by (simp add: mem_ok_def)
qed

lemma mem_upsert_slot:
  assumes "mem_ok mr"
  shows "mem_ok (fst (mem_upsert env i scope k topic ttl v mr x))"
    and "slot_get (fst (mem_upsert env i scope k topic ttl v mr x)) =
           (slot_get mr)(slot_of i scope k \<mapsto>
             upserted_entry (fst (now_iso8601 env x)) scope topic ttl v (slot_get mr (slot_of i scope k)))"
      (is "?l = ?r")
    and "snd (mem_upsert env i scope k topic ttl v mr x) = snd (now_iso8601 env x)"
proof -
  obtain now x' where n: "now_iso8601 env x = (now, x')" by force
  show "mem_ok (fst (mem_upsert env i scope k topic ttl v mr x))"
  proof (cases scope)
    case ScopeNode
    have "bt_ok (case bt_get (mr_node_store mr) i of Some m \<Rightarrow> m | None \<Rightarrow> [])"
      using mem_ok_node [OF assms] by (simp split: option.split)
    then show ?thesis
      using ScopeNode n by (simp add: mem_upsert_def Let_def node_store_update [OF assms])
  qed (use assms n in \<open>simp_all add: mem_upsert_def mem_ok_def Let_def\<close>)
  show "?l = ?r"
  proof
    fix s show "?l s = ?r s"
      using n by (cases s; cases scope)
        (simp_all add: mem_upsert_def slot_of_def Let_def split: option.split)
  qed
  show "snd (mem_upsert env i scope k topic ttl v mr x) = snd (now_iso8601 env x)"
    using n by (simp add: mem_upsert_def Let_def)
qed

lemma mem_delete_slot:
  assumes "mem_ok mr"
  shows "mem_ok (fst (mem_delete i scope k mr))"
    and "slot_get (fst (mem_delete i scope k mr)) = (slot_get mr)(slot_of i scope k := None)" (is "?l = ?r")
    and "snd (mem_delete i scope k mr) \<longleftrightarrow> slot_get mr (slot_of i scope k) \<noteq> None"
proof -
  have stores: "bt_ok (mr_session_store mr)" "bt_ok (mem_entries (mr_project_store mr))"
    "bt_ok (mem_entries (mr_global_store mr))"
    using assms by (simp_all add: mem_ok_def)
  show "mem_ok (fst (mem_delete i scope k mr))"
  proof (cases scope)
    case ScopeNode
    then show ?thesis
      using assms mem_ok_node [OF assms, of i]
      by (simp add: mem_delete_def node_store_update split: option.split)
  qed (use assms in \<open>simp_all add: mem_delete_def mem_ok_def Let_def\<close>)
  show "?l = ?r"
  proof
    fix s show "?l s = ?r s"
      using mem_ok_node [OF assms, of i] stores
      by (cases s; cases scope)
        (simp_all add: mem_delete_def slot_of_def Let_def bt_get_remove split: option.split)
  qed
  show "snd (mem_delete i scope k mr) \<longleftrightarrow> slot_get mr (slot_of i scope k) \<noteq> None"
    by (cases scope) (simp_all add: mem_delete_def slot_of_def Let_def split: option.split)
qed

lemma mem_list_slot:
  assumes "mem_ok mr" and "hash_order_ok env"
  shows "set (mem_list env i scope topic mr) =
           {(k, e). slot_get mr (slot_of i scope k) = Some e \<and> topic_matches topic (k, e)}"
proof -
  have iter: "(k, e) \<in> set (hash_iter env m) \<longleftrightarrow> bt_get m k = Some e"
    and entry: "(k, e) \<in> set m \<longleftrightarrow> bt_get m k = Some e" if "bt_ok m" for k e and m :: store
    using hash_iter_set(1) [OF assms(2) that] bt.set_entries [OF that] by simp_all
  have "(k, e) \<in> set (mem_list env i scope topic mr) \<longleftrightarrow>
      slot_get mr (slot_of i scope k) = Some e \<and> topic_matches topic (k, e)" for k e
    using assms(1) mem_ok_node [OF assms(1), of i]
    by (cases scope; cases "bt_get (mr_node_store mr) i")
      (simp_all add: mem_list_def slot_of_def mem_ok_def iter entry)
  then show ?thesis by auto
qed

interpretation store: simulation "action_step env" "spec_action env" "map_sum id view_result"
  "\<lambda>s. (slot_get (fst s), snd s)" "\<lambda>s. mem_ok (fst s) \<and> hash_order_ok env" for env :: "'x env"
proof unfold_locales
  fix s :: "mem_runtime \<times> 'x" and c :: command
  assume ok: "mem_ok (fst s) \<and> hash_order_ok env"
  note unf = action_step_def execute_action_def spec_action_def command_slot_def entry_scope_def
    entry_ttl_def Let_def case_prod_beta
  note up = mem_upsert_slot [OF ok [THEN conjunct1]] and del = mem_delete_slot [OF ok [THEN conjunct1]]
  show "mem_ok (fst (snd (action_step env c s))) \<and> hash_order_ok env"
    using ok by (cases "me_action (snd c)") (simp_all add: unf up(1) del(1))
  show "spec_action env c (slot_get (fst s), snd s) =
      map_prod (map_sum id view_result) (\<lambda>s. (slot_get (fst s), snd s)) (action_step env c s)"
    using ok by (cases "me_action (snd c)")
      (simp_all add: unf up(2,3) del(2,3) mem_get_slot mem_list_slot)
qed

section \<open>Properties of the store\<close>

text \<open>C24: The memory runtime implements its contract: on well-formed stores any sequence of
  memory commands gives the results of the abstract map of slots, leaves the runtime with the
  entries of that map and keeps it well formed.\<close>

theorem memory_refines_store:
  assumes "mem_ok mr" and "hash_order_ok env"
  shows "run_commands (spec_action env) cs (slot_get mr, x) =
           map_prod (map (map_sum id view_result)) (\<lambda>s. (slot_get (fst s), snd s))
             (run_commands (action_step env) cs (mr, x)) \<and>
         mem_ok (fst (snd (run_commands (action_step env) cs (mr, x))))"
  using store.run_spec [of "(mr, x)" env cs] store.run_inv [of "(mr, x)" env cs] assms by simp

definition writes :: "command \<Rightarrow> slot \<Rightarrow> bool" where
  "writes c s \<longleftrightarrow> me_action (snd c) \<in> {MaUpsert, MaDelete} \<and> command_slot c = s"

lemma spec_action_frame:
  "\<not> writes c s \<Longrightarrow> fst (snd (spec_action env c (a, x))) s = a s"
  by (cases "me_action (snd c)") (auto simp: spec_action_def writes_def Let_def case_prod_beta)

text \<open>What is written is read: after an accepted upsert, and any commands that do not write the
  same slot, the slot holds the value, topic and lifetime written, and the creation time of
  the entry that was there before, if one was.\<close>

lemma memory_write_then_read:
  assumes "mem_ok mr" and "hash_order_ok env"
    and "me_action (snd c) = MaUpsert"
    and "length (unwrap_or_default (me_value (snd c))) \<le> max_memory_value_bytes"
    and "\<forall>d \<in> set cs. \<not> writes d (command_slot c)"
    and "run_commands (action_step env) (c # cs) (mr, x) = (rs, mr', x')"
  shows "\<exists>e. slot_get mr' (command_slot c) = Some e \<and>
           mf_value e = unwrap_or_default (me_value (snd c)) \<and> mf_topic e = me_topic (snd c) \<and>
           mf_ttl e = entry_ttl (snd c) \<and> mf_scope e = entry_scope (snd c) \<and>
           mf_updated_at e = fst (now_iso8601 env x) \<and>
           (\<forall>old. slot_get mr (command_slot c) = Some old \<longrightarrow> mf_created_at e = mf_created_at old)"
proof -
  let ?s = "command_slot c" and ?step = "action_step env c (mr, x)"
  let ?e = "upserted_entry (fst (now_iso8601 env x)) (entry_scope (snd c)) (me_topic (snd c))
    (entry_ttl (snd c)) (unwrap_or_default (me_value (snd c))) (slot_get mr ?s)"
  have "(slot_get mr)(?s \<mapsto> ?e) = slot_get (fst (snd ?step))"
    using store.step_spec [of "(mr, x)" env c] assms(1-4)
    by (simp add: spec_action_def Let_def case_prod_beta prod_eq_iff)
  then have "slot_get (fst (snd ?step)) ?s = Some ?e"
    by (metis fun_upd_same)
  moreover have "mem_ok (fst (snd ?step)) \<and> hash_order_ok env"
    using store.step_inv [of "(mr, x)" env c] assms(1,2) by simp
  ultimately have "slot_get (fst (snd (run_commands (action_step env) cs (snd ?step)))) ?s = Some ?e"
    using store.run_keeps [of "snd ?step" env "\<lambda>a. fst a ?s = Some ?e" cs] assms(5)
    by (auto simp: spec_action_frame)
  then show ?thesis
    using assms(6) by (auto simp: Let_def case_prod_beta upserted_entry_def)
qed

text \<open>A node's entries are its own: commands issued by other nodes, whatever they do, leave every
  entry of the node's scope as it was.\<close>

lemma memory_node_isolation:
  assumes "mem_ok mr" and "hash_order_ok env" and "\<forall>c \<in> set cs. fst c \<noteq> i"
    and "run_commands (action_step env) cs (mr, x) = (rs, mr', x')"
  shows "mem_get i ScopeNode k mr' = mem_get i ScopeNode k mr"
proof -
  let ?s = "NodeSlot i k"
  have "\<not> writes c ?s" if "c \<in> set cs" for c
    using assms(3) that by (auto simp: writes_def command_slot_def slot_of_def split: memory_scope.splits)
  then have "slot_get (fst (snd (run_commands (action_step env) cs (mr, x)))) ?s = slot_get mr ?s"
    using store.run_keeps [of "(mr, x)" env "\<lambda>a. fst a ?s = slot_get mr ?s" cs] assms(1,2)
    by (auto simp: spec_action_frame)
  then show ?thesis
    using assms(4) by (simp add: mem_get_slot slot_of_def)
qed

definition slots_bounded :: "slots \<Rightarrow> bool" where
  "slots_bounded a \<longleftrightarrow> (\<forall>s e. a s = Some e \<longrightarrow> length (mf_value e) \<le> max_memory_value_bytes)"

definition values_bounded :: "mem_runtime \<Rightarrow> bool" where
  "values_bounded mr \<longleftrightarrow> slots_bounded (slot_get mr)"

lemma spec_action_bounded: "slots_bounded (fst a) \<Longrightarrow> slots_bounded (fst (snd (spec_action env c a)))"
  by (cases a) (auto simp: spec_action_def slots_bounded_def upserted_entry_def Let_def case_prod_beta
      split: memory_action.split)

text \<open>No sequence of memory commands stores a value of more than 32768 bytes.\<close>

lemma memory_values_bounded:
  assumes "mem_ok mr" and "hash_order_ok env" and "values_bounded mr"
    and "run_commands (action_step env) cs (mr, x) = (rs, mr', x')"
  shows "values_bounded mr'"
proof -
  have "slots_bounded (slot_get (fst (snd (run_commands (action_step env) cs (mr, x)))))"
    using assms(1-3) spec_action_bounded
    by (intro store.run_keeps [of "(mr, x)" env "\<lambda>a. slots_bounded (fst a)" cs, simplified])
      (auto simp: values_bounded_def)
  then show ?thesis using assms(4) by (simp add: values_bounded_def)
qed

section \<open>Clearing and expiry\<close>

lemma clear_node_scope_slot:
  "mem_ok mr \<Longrightarrow> slot_get (clear_node_scope i mr) s =
     (case s of NodeSlot j k \<Rightarrow> if j = i then None else slot_get mr s | _ \<Rightarrow> slot_get mr s)"
  by (cases s) (simp_all add: clear_node_scope_def mem_ok_def bt_get_remove)

lemma clear_session_scope_slot:
  "slot_get (clear_session_scope mr) s = (case s of SessionSlot k \<Rightarrow> None | _ \<Rightarrow> slot_get mr s)"
  by (cases s) (simp_all add: clear_session_scope_def)

lemma clear_ok: "mem_ok mr \<Longrightarrow> mem_ok (clear_node_scope i mr)" "mem_ok mr \<Longrightarrow> mem_ok (clear_session_scope mr)"
  using set_bt_remove_subset [of i "mr_node_store mr"]
  by (auto simp: clear_node_scope_def clear_session_scope_def mem_ok_def)

lemma expire_store_simps:
  assumes "bt_ok m"
  shows "bt_ok (expire_store env now m)"
    and "bt_get (expire_store env now m) k =
           (case bt_get m k of None \<Rightarrow> None | Some e \<Rightarrow> if is_expired env now e then None else Some e)"
  using assms by (auto simp: expire_store_def bt_get_retain split: option.split)

lemma expire_store_removed:
  "length m - length (expire_store env now m) = length (filter (\<lambda>(k, e). is_expired env now e) m)"
  using sum_length_filter_compl [of "\<lambda>(k, e). is_expired env now e" m]
  by (simp add: expire_store_def bt_retain_def case_prod_beta')

text \<open>All entries with their slots.\<close>

definition all_entries :: "mem_runtime \<Rightarrow> (slot \<times> mem_file_entry) list" where
  "all_entries mr =
     concat (map (\<lambda>(i, m). map (\<lambda>(k, e). (NodeSlot i k, e)) m) (mr_node_store mr)) @
     map (\<lambda>(k, e). (SessionSlot k, e)) (mr_session_store mr) @
     map (\<lambda>(k, e). (ProjectSlot k, e)) (mem_entries (mr_project_store mr)) @
     map (\<lambda>(k, e). (GlobalSlot k, e)) (mem_entries (mr_global_store mr))"

lemma all_entries_slot:
  assumes "mem_ok mr"
  shows "(s, e) \<in> set (all_entries mr) \<longleftrightarrow> slot_get mr s = Some e"
proof (cases s)
  case (NodeSlot i k)
  have "(s, e) \<in> set (all_entries mr) \<longleftrightarrow> (\<exists>m. (i, m) \<in> set (mr_node_store mr) \<and> (k, e) \<in> set m)"
    using NodeSlot by (force simp: all_entries_def)
  then show ?thesis
    using NodeSlot assms mem_ok_node [OF assms, of i]
    by (auto simp: mem_ok_def bt.set_entries bind_eq_Some_conv)
qed (use assms in \<open>auto simp: all_entries_def mem_ok_def bt.set_entries\<close>)

lemma distinct_node_entries:
  assumes "distinct (map fst ns)" and "\<And>i m. (i, m) \<in> set ns \<Longrightarrow> distinct (map fst m)"
  shows "distinct (map fst (concat (map (\<lambda>(i, m). map (\<lambda>(k, e). (NodeSlot i k, e)) m) ns)))"
  using assms
proof (induction ns)
  case (Cons p ns)
  obtain i m where p: "p = (i, m)" by force
  have "distinct (map fst m)" using Cons.prems(2) p by auto
  then have "distinct (map fst (map (\<lambda>(k, e). (NodeSlot i k, e)) m))"
    by (induction m) (auto simp: image_iff)
  moreover have "distinct (map fst (concat (map (\<lambda>(i, m). map (\<lambda>(k, e). (NodeSlot i k, e)) m) ns)))"
    using Cons.IH Cons.prems by force
  moreover have "i \<notin> fst ` set ns" using Cons.prems(1) p by simp
  ultimately show ?case
    using p by (auto simp: image_iff)
qed simp

lemma distinct_all_entries:
  assumes "mem_ok mr"
  shows "distinct (map fst (all_entries mr))"
proof -
  have tag: "distinct (map fst (map (\<lambda>(k, e). (f k, e)) m))" if "inj f" and "bt_ok m"
    for f :: "string \<Rightarrow> slot" and m :: store
    using bt.distinct_keys [OF that(2)] that(1) by (induction m) (auto simp: image_iff inj_def)
  have "distinct (map fst (concat (map (\<lambda>(i, m). map (\<lambda>(k, e). (NodeSlot i k, e)) m) (mr_node_store mr))))"
    using assms by (intro distinct_node_entries) (auto simp: mem_ok_def bt.distinct_keys)
  moreover note tag [of SessionSlot "mr_session_store mr"]
    tag [of ProjectSlot "mem_entries (mr_project_store mr)"]
    tag [of GlobalSlot "mem_entries (mr_global_store mr)"]
  ultimately show ?thesis
    using assms by (auto simp: all_entries_def mem_ok_def inj_def)
qed

lemma expire_mem_file_simps:
  "mem_entries (fst (fst (expire_mem_file env now f x))) = expire_store env now (mem_entries f)"
  "snd (fst (expire_mem_file env now f x)) = length (filter (\<lambda>(k, e). is_expired env now e) (mem_entries f))"
  by (simp_all add: expire_mem_file_def Let_def case_prod_beta expire_store_removed)

lemma filter_all_entries:
  "length (filter (\<lambda>(s, e). P e) (all_entries mr)) =
     sum_list (map (\<lambda>(i, m). length (filter (\<lambda>(k, e). P e) m)) (mr_node_store mr)) +
     length (filter (\<lambda>(k, e). P e) (mr_session_store mr)) +
     length (filter (\<lambda>(k, e). P e) (mem_entries (mr_project_store mr))) +
     length (filter (\<lambda>(k, e). P e) (mem_entries (mr_global_store mr)))"
  by (simp add: all_entries_def filter_concat length_concat o_def case_prod_beta' filter_map)

lemma expired_card:
  assumes "mem_ok mr"
  shows "length (filter (\<lambda>(s, e). P e) (all_entries mr)) = card {s. \<exists>e. slot_get mr s = Some e \<and> P e}"
proof -
  let ?l = "filter (\<lambda>(s, e). P e) (all_entries mr)"
  have "distinct (map fst ?l)"
    using distinct_all_entries [OF assms] by (rule distinct_map_filter)
  then have "length ?l = card (set (map fst ?l))"
    using distinct_card [of "map fst ?l"] by simp
  also have "set (map fst ?l) = {s. \<exists>e. slot_get mr s = Some e \<and> P e}"
    using all_entries_slot [OF assms] by force
  finally show ?thesis .
qed

lemma set_bt_map_values: "set (bt_map_values f m) = (\<lambda>(k, v). (k, f v)) ` set m"
  by (simp add: bt_map_values_def)

lemma expire_stores:
  assumes "expire env mr x = ((mr', n), x')"
  defines "now \<equiv> fst (env_unix_nanos env x)"
  shows "mr_node_store mr' = bt_map_values (expire_store env now) (mr_node_store mr)"
    and "mr_session_store mr' = expire_store env now (mr_session_store mr)"
    and "mem_entries (mr_project_store mr') = expire_store env now (mem_entries (mr_project_store mr))"
    and "mem_entries (mr_global_store mr') = expire_store env now (mem_entries (mr_global_store mr))"
    and "n = length (filter (\<lambda>(s, e). is_expired env now e) (all_entries mr))"
  using assms(1) unfolding filter_all_entries
  by (auto simp: expire_def Let_def case_prod_beta expire_mem_file_simps expire_store_removed now_def)

text \<open>Garbage collection removes exactly the entries whose duration has passed, in all four
  scopes, keeps every other entry as it was, and reports how many it removed.\<close>

lemma gc_exact:
  assumes "mem_ok mr" and "gc env mr x = ((mr', report), x')" and "now = fst (env_unix_nanos env x)"
  shows "mem_ok mr' \<and>
    (\<forall>s. slot_get mr' s = (case slot_get mr s of None \<Rightarrow> None
       | Some e \<Rightarrow> if is_expired env now e then None else Some e)) \<and>
    gc_expired_removed report = card {s. \<exists>e. slot_get mr s = Some e \<and> is_expired env now e}"
proof -
  obtain n where e: "expire env mr x = ((mr', n), x')" and n: "n = gc_expired_removed report"
    using assms(2) by (auto simp: gc_def Let_def case_prod_beta prod_eq_iff)
  note st = expire_stores [OF e, folded assms(3)]
  have ok: "mem_ok mr'"
    using assms(1) by (auto simp: mem_ok_def st set_bt_map_values expire_store_simps)
  moreover have "slot_get mr' s = (case slot_get mr s of None \<Rightarrow> None
       | Some e \<Rightarrow> if is_expired env now e then None else Some e)" for s
    using assms(1) mem_ok_node [OF assms(1)]
    by (cases s)
      (auto simp: mem_ok_def st bt_get_map_values expire_store_simps split: option.split bind_splits)
  ultimately show ?thesis
    using expired_card [OF assms(1), of "is_expired env now"] st(5) n by simp
qed

section \<open>Durations, printed and parsed\<close>

lemma show_word_chars:
  assumes "\<not> is_digit c"
  shows "c \<notin> set (show_word w)"
  using assms show_nat_digits by (auto simp: show_word_def)

lemma duration_letters [simp]:
  "\<not> is_digit CHR ''T''" "\<not> is_digit CHR ''Y''" "\<not> is_digit CHR ''M''" "\<not> is_digit CHR ''D''"
  "\<not> is_digit CHR ''H''" "\<not> is_digit CHR ''S''"
  by (simp_all add: is_digit_def byte_def)

text \<open>The text of a duration, with the parts that are there.\<close>

definition show_part :: "char \<Rightarrow> 64 word option \<Rightarrow> string" where
  "show_part unit n = (case n of None \<Rightarrow> [] | Some w \<Rightarrow> show_word w @ [unit])"

definition show_duration :: "64 word option \<Rightarrow> 64 word option \<Rightarrow> 64 word option \<Rightarrow> string" where
  "show_duration d h m =
     ''P'' @ show_part CHR ''D'' d @
     (if h = None \<and> m = None then [] else ''T'' @ show_part CHR ''H'' h @ show_part CHR ''M'' m)"

definition part :: "64 word option \<Rightarrow> 64 word" where
  "part n = (case n of None \<Rightarrow> 0 | Some w \<Rightarrow> w)"

lemma show_part_chars: "c \<noteq> unit \<Longrightarrow> \<not> is_digit c \<Longrightarrow> c \<notin> set (show_part unit n)"
  by (auto simp: show_part_def show_word_chars split: option.split)

lemma take_component_show:
  assumes "\<not> is_digit unit" and "unit \<notin> set rest"
  shows "take_component unit msg (show_part unit n @ rest) = Inr (part n, rest)"
proof (cases n)
  case (Some w)
  have "str_find [unit] (show_word w @ unit # rest) = Some (length (show_word w))"
    by (rule str_find_char [OF show_word_chars [OF assms(1)]])
  then show ?thesis
    by (simp add: take_component_def show_part_def part_def Some parse_u64_show)
qed (use assms in \<open>simp add: take_component_def show_part_def part_def str_find_notin\<close>)

lemma parse_time_part_show:
  assumes "h \<noteq> None \<or> m \<noteq> None"
  shows "parse_time_part (show_part CHR ''H'' h @ show_part CHR ''M'' m) original = Inr (part h, part m)"
proof -
  have "take_component CHR ''M'' msg (show_part CHR ''M'' m) = Inr (part m, [])" for msg
    using take_component_show [of "CHR ''M''" "[]" msg m] by simp
  moreover have "take_component CHR ''H'' msg (show_part CHR ''H'' h @ show_part CHR ''M'' m) =
      Inr (part h, show_part CHR ''M'' m)" for msg
    by (rule take_component_show) (simp_all add: show_part_chars)
  moreover have "CHR ''H'' \<in> set (show_part CHR ''H'' h) \<or> CHR ''M'' \<in> set (show_part CHR ''M'' m)"
    using assms by (auto simp: show_part_def)
  ultimately show ?thesis by (auto simp: parse_time_part_def)
qed

lemma duration_date_only:
  assumes "date \<noteq> []" and "CHR ''T'' \<notin> set date" and "CHR ''Y'' \<notin> set date" and "CHR ''M'' \<notin> set date"
    and "strip_suffix ''D'' date = Some ds" and "parse_u64 ds = Some w"
  shows "parse_iso8601_duration (''P'' @ date) = Inr (w * secs_per_day)"
  using assms by (simp add: parse_iso8601_duration_def str_find_notin)

lemma duration_with_time:
  assumes "CHR ''T'' \<notin> set date" and "CHR ''Y'' \<notin> set date" and "CHR ''M'' \<notin> set date"
    and "date = [] \<and> w = 0 \<or> strip_suffix ''D'' date = Some ds \<and> parse_u64 ds = Some w \<and> date \<noteq> []"
    and "t \<noteq> []" and "CHR ''S'' \<notin> set t" and "parse_time_part t (''P'' @ date @ ''T'' @ t) = Inr (h, m)"
  shows "parse_iso8601_duration (''P'' @ date @ ''T'' @ t) =
    Inr (w * secs_per_day + (h * secs_per_hour + m * secs_per_minute))"
  using assms str_find_char [OF assms(1), of t]
  by (auto simp: parse_iso8601_duration_def Let_def)

lemma parse_show_duration:
  assumes "d \<noteq> None \<or> h \<noteq> None \<or> m \<noteq> None"
  shows "\<exists>secs. parse_iso8601_duration (show_duration d h m) = Inr secs \<and>
    unat secs = (86400 * unat (part d) + 3600 * unat (part h) + 60 * unat (part m)) mod 2 ^ 64"
proof -
  let ?date = "show_part CHR ''D'' d" and ?time = "show_part CHR ''H'' h @ show_part CHR ''M'' m"
  let ?secs = "part d * secs_per_day + (part h * secs_per_hour + part m * secs_per_minute)"
  have date: "CHR ''T'' \<notin> set ?date" "CHR ''Y'' \<notin> set ?date" "CHR ''M'' \<notin> set ?date"
    and secs: "CHR ''S'' \<notin> set ?time"
    by (simp_all add: show_part_chars)
  have days: "strip_suffix ''D'' ?date = Some (show_word w) \<and> parse_u64 (show_word w) = Some w \<and>
      ?date \<noteq> [] \<and> part d = w" if "d = Some w" for w
    using that by (simp add: show_part_def strip_suffix_def parse_u64_show part_def)
  have "parse_iso8601_duration (show_duration d h m) = Inr ?secs"
  proof (cases "h = None \<and> m = None")
    case True
    with assms obtain w where "d = Some w" by auto
    with days True have "parse_iso8601_duration (''P'' @ ?date) = Inr (w * secs_per_day)"
      by (intro duration_date_only [OF _ date, of "show_word w"]) blast+
    then show ?thesis
      using True by (simp add: show_duration_def part_def \<open>d = Some w\<close>)
  next
    case False
    then have time: "parse_time_part ?time (''P'' @ ?date @ ''T'' @ ?time) = Inr (part h, part m)"
      by (intro parse_time_part_show) auto
    have some: "?time \<noteq> []" using False by (auto simp: show_part_def)
    have "parse_iso8601_duration (''P'' @ ?date @ ''T'' @ ?time) = Inr ?secs"
    proof (cases d)
      case None
      then show ?thesis
        by (intro duration_with_time [OF date _ some secs time]) (simp add: show_part_def part_def)
    next
      case (Some w)
      then show ?thesis
        using days by (intro duration_with_time [OF date _ some secs time, where ds = "show_word w"]) simp
    qed
    moreover have "show_duration d h m = ''P'' @ ?date @ ''T'' @ ?time"
      using False by (auto simp: show_duration_def)
    ultimately show ?thesis by simp
  qed
  moreover have "unat ?secs = (86400 * unat (part d) + 3600 * unat (part h) + 60 * unat (part m)) mod 2 ^ 64"
  proof -
    have "?secs = of_nat (86400 * unat (part d) + 3600 * unat (part h) + 60 * unat (part m))"
      by (simp add: secs_per_day_def secs_per_hour_def secs_per_minute_def mult.commute)
    then show ?thesis by (simp only: unat_of_nat) simp
  qed
  ultimately show ?thesis by blast
qed

text \<open>Durations are read as written: for every combination of days, hours and minutes with at least
  one of them, the parser returns the total of seconds modulo 2 to the 64.\<close>

lemma duration_parse_exact:
  assumes "d \<noteq> None \<or> h \<noteq> None \<or> m \<noteq> None"
  shows "\<exists>secs. parse_iso8601_duration (show_duration d h m) = Inr secs \<and>
    unat secs = (86400 * unat (part d) + 3600 * unat (part h) + 60 * unat (part m)) mod 2 ^ 64"
  by (rule parse_show_duration [OF assms])

text \<open>The seconds of a duration wrap around: an entry that is to live for 213503982334602 days
  counts as expired 17 hours after its last update.\<close>

lemma duration_wraps_early:
  assumes "mf_ttl e = TtlDuration (show_duration (Some 213503982334602) None None)"
    and "env_parse_rfc3339 env (mf_updated_at e) = Some t"
    and "now = t + 61184 * 1000000000"
  shows "is_expired env now e"
proof -
  obtain secs where p: "parse_iso8601_duration (show_duration (Some 213503982334602) None None) = Inr secs"
    and "unat secs = (86400 * 213503982334602) mod 2 ^ 64"
    using parse_show_duration [of "Some 213503982334602" None None] by (auto simp: part_def)
  then have "unat secs = 61184" by simp
  then have "secs = 61184" by (simp add: word_unat_eq_iff)
  with p assms show ?thesis by (simp add: is_expired_def whole_seconds_def)
qed

section \<open>Flushing, properties\<close>

text \<open>The \<open>tempfile\<close> crate never picks the name of an existing file.\<close>

definition temp_fresh :: "'x env \<Rightarrow> string list \<Rightarrow> bool" where
  "temp_fresh env paths \<longleftrightarrow> (\<forall>dir x. fst (env_temp_name env dir x) \<notin> set paths)"

lemma atomic_write_files:
  assumes "tmp \<noteq> path" and "atomic_write fault tmp path content fs = (r, steps)"
  shows "r = Inr () \<longleftrightarrow> fault = IoOk"
    and "last steps path = (if fault = IoOk then Some content else fs path)"
    and "p \<noteq> tmp \<Longrightarrow> p \<noteq> path \<Longrightarrow> last steps p = fs p"
proof -
  obtain out st where rf: "replace_file fault tmp path content fs = (out, st)" by force
  have st: "st \<noteq> []" "last st \<in> set st"
    using replace_file_not_Nil [of fault tmp path content fs] rf by simp_all
  have out: "out = None \<longleftrightarrow> fault = IoOk" "fault \<noteq> IoOk \<Longrightarrow> last st path = fs path"
    "fault = IoOk \<Longrightarrow> last st = fs(tmp := None, path \<mapsto> content)"
    and other: "p \<noteq> tmp \<Longrightarrow> p \<noteq> path \<Longrightarrow> last st p = fs p"
    using replace_file_result [OF assms(1), of fault content fs]
      replace_file_atomic(2) [OF assms(1), of "last st" fault content fs p] rf st by simp_all
  have shape: "(if out = None then r = Inr () else (\<exists>e. r = Inl e)) \<and>
      (steps = st \<or> out \<noteq> None \<and> steps = st @ [(last st)(tmp := None)])"
    using assms(2) rf by (auto simp: atomic_write_def Let_def split: option.splits io_fault.splits)
  then show "r = Inr () \<longleftrightarrow> fault = IoOk" using out(1) by (auto split: if_splits)
  show "last steps path = (if fault = IoOk then Some content else fs path)"
    using shape out assms(1) by auto
  show "p \<noteq> tmp \<Longrightarrow> p \<noteq> path \<Longrightarrow> last steps p = fs p"
    using shape other by auto
qed

lemma atomic_write_mem_files:
  assumes "temp_fresh env (path # others)" and "atomic_write_mem env path mem w = (r, w')"
  shows "r = Inr () \<Longrightarrow> w_files w' path = Some (render_mem mem)"
    and "r \<noteq> Inr () \<Longrightarrow> w_files w' path = w_files w path"
    and "p \<in> set others \<Longrightarrow> p \<noteq> path \<Longrightarrow> w_files w' p = w_files w p"
proof -
  let ?dir = "case path_parent path of Some d \<Rightarrow> d | None \<Rightarrow> ''.''"
  let ?tmp = "fst (env_temp_name env ?dir (w_rest w))"
  let ?fault = "fst (env_fault env (snd (env_temp_name env ?dir (w_rest w))))"
  have fresh: "?tmp \<noteq> path" "p \<in> set others \<Longrightarrow> p \<noteq> ?tmp"
    using assms(1) by (auto simp: temp_fresh_def)
  obtain st where st: "atomic_write ?fault ?tmp path (render_mem mem) (w_files w) = (r, st)"
    and w': "w_files w' = last st"
    using assms(2) by (auto simp: atomic_write_mem_def Let_def case_prod_beta prod_eq_iff)
  note aw = atomic_write_files [OF fresh(1) st]
  show "r = Inr () \<Longrightarrow> w_files w' path = Some (render_mem mem)"
    "r \<noteq> Inr () \<Longrightarrow> w_files w' path = w_files w path"
    using aw(1,2) w' by auto
  show "p \<in> set others \<Longrightarrow> p \<noteq> path \<Longrightarrow> w_files w' p = w_files w p"
    using aw(3) [of p] fresh(2) w' by auto
qed

lemma ensure_global_dir_files [frame_simps]: "w_files (snd (ensure_global_dir env p w)) = w_files w"
  by (simp add: ensure_global_dir_def Let_def case_prod_beta split: option.split)

text \<open>The stores as \<open>flush\<close> writes them, at time \<open>now\<close>.\<close>

definition stamped :: "string \<Rightarrow> mem_runtime \<Rightarrow> mem_runtime" where
  "stamped now mr = mr\<lparr>mr_project_store := (mr_project_store mr)\<lparr>mem_updated_at := now\<rparr>,
     mr_global_store := (mr_global_store mr)\<lparr>mem_updated_at := now\<rparr>\<rparr>"

lemma stamped_slot [simp]: "slot_get (stamped now mr) s = slot_get mr s"
  by (cases s) (simp_all add: stamped_def)

lemma stamped_paths [simp]:
  "mr_project_path (stamped now mr) = mr_project_path mr" "mr_global_path (stamped now mr) = mr_global_path mr"
  by (simp_all add: stamped_def)

lemma flush_cases:
  fixes env :: "'x env"
  assumes "temp_fresh env [p, g]" and "p \<noteq> g" and "p = mr_project_path mr" and "g = mr_global_path mr"
    and "flush env mr w = (r, mr', w')"
  shows "mr' = stamped (fst (now_iso8601 env (w_rest w))) mr"
    and "w_files w' p \<in> {w_files w p, Some (render_mem (mr_project_store mr'))}"
    and "w_files w' g \<in> {w_files w g, Some (render_mem (mr_global_store mr'))}"
    and "r = Inr () \<Longrightarrow> w_files w' p = Some (render_mem (mr_project_store mr')) \<and>
           w_files w' g = Some (render_mem (mr_global_store mr'))"
proof -
  let ?st = "stamped (fst (now_iso8601 env (w_rest w))) mr"
  obtain r0 w0 where e: "ensure_global_dir env g (w\<lparr>w_rest := snd (now_iso8601 env (w_rest w))\<rparr>) = (r0, w0)"
    by force
  obtain r1 w1 where p: "atomic_write_mem env p (mr_project_store ?st) w0 = (r1, w1)" by force
  obtain r2 w2 where g: "atomic_write_mem env g (mr_global_store ?st) w1 = (r2, w2)" by force
  have w0: "w_files w0 = w_files w"
    using ensure_global_dir_files [of env g "w\<lparr>w_rest := snd (now_iso8601 env (w_rest w))\<rparr>"] e by simp
  have res: "mr' = ?st \<and> (case r0 of Inl _ \<Rightarrow> r \<noteq> Inr () \<and> w' = w0
      | Inr _ \<Rightarrow> (case r1 of Inl _ \<Rightarrow> r \<noteq> Inr () \<and> w' = w1 | Inr _ \<Rightarrow> w' = w2 \<and> (r = Inr () \<longleftrightarrow> r2 = Inr ())))"
    using assms(3-5) e p g
    by (auto simp: flush_def Let_def case_prod_beta stamped_def split: sum.splits)
  have fresh: "temp_fresh env (g # [p])" using assms(1) by (auto simp: temp_fresh_def)
  note pw = atomic_write_mem_files [OF assms(1) p] and gw = atomic_write_mem_files [OF fresh g]
  show "mr' = ?st" using res by simp
  have "w_files w1 p \<in> {w_files w p, Some (render_mem (mr_project_store ?st))}"
    using pw(1,2) w0 by (cases "r1 = Inr ()") auto
  moreover have "w_files w2 p = w_files w1 p" using gw(3) [of p] assms(2) by simp
  ultimately show "w_files w' p \<in> {w_files w p, Some (render_mem (mr_project_store mr'))}"
    using res w0 by (auto split: sum.splits)
  have g1: "w_files w1 g = w_files w g" using pw(3) [of g] assms(2) w0 by simp
  have "w_files w2 g \<in> {w_files w g, Some (render_mem (mr_global_store ?st))}"
    using gw(1,2) g1 by (cases "r2 = Inr ()") auto
  then show "w_files w' g \<in> {w_files w g, Some (render_mem (mr_global_store mr'))}"
    using res w0 g1 by (auto split: sum.splits)
  show "r = Inr () \<Longrightarrow> w_files w' p = Some (render_mem (mr_project_store mr')) \<and>
      w_files w' g = Some (render_mem (mr_global_store mr'))"
    using res pw(1) gw(1) \<open>w_files w2 p = w_files w1 p\<close> by (auto split: sum.splits)
qed

text \<open>However a flush ends, each of the two memory files holds what it held before or the
  whole of its store, and the entries in memory are untouched; when it succeeds, both files
  hold their stores.\<close>

lemma flush_atomic:
  assumes "temp_fresh env [mr_project_path mr, mr_global_path mr]" and "mr_project_path mr \<noteq> mr_global_path mr"
    and "flush env mr w = (r, mr', w')"
  shows "slot_get mr' = slot_get mr \<and>
    w_files w' (mr_project_path mr) \<in> {w_files w (mr_project_path mr), Some (render_mem (mr_project_store mr'))} \<and>
    w_files w' (mr_global_path mr) \<in> {w_files w (mr_global_path mr), Some (render_mem (mr_global_store mr'))} \<and>
    (r = Inr () \<longrightarrow> w_files w' (mr_project_path mr) = Some (render_mem (mr_project_store mr')) \<and>
       w_files w' (mr_global_path mr) = Some (render_mem (mr_global_store mr')))"
  using flush_cases [OF assms(1,2) refl refl assms(3)] by auto

definition no_read_fault :: "'x env \<Rightarrow> bool" where
  "no_read_fault env \<longleftrightarrow> (\<forall>x. \<not> fst (env_read_fault env x) \<and> \<not> fst (env_dir_fault env x))"

lemma load_mem_file_stored:
  assumes "no_read_fault env" and "mem_file_ok m" and "w_files w path = Some (render_mem m)"
  shows "\<exists>x. load_mem_file env path package w = (Inr m, w\<lparr>w_rest := x\<rparr>)"
  using assms parse_render_mem [OF assms(2)]
  by (auto simp: load_mem_file_def no_read_fault_def Let_def case_prod_beta)

text \<open>What is flushed survives a restart: after a successful flush, a new runtime on the same two
  files has every project and global entry, and no entry of the node and session scopes.\<close>

lemma flush_then_restart:
  assumes "temp_fresh env [mr_project_path mr, mr_global_path mr]" and "mr_project_path mr \<noteq> mr_global_path mr"
    and "clock_ok env" and "no_read_fault env"
    and "mem_file_ok (mr_project_store mr)" and "mem_file_ok (mr_global_store mr)"
    and "flush env mr w = (Inr (), mr', w')"
  shows "\<exists>fresh w''. mem_runtime_new env (mr_project_path mr) (mr_global_path mr) package w' = (Inr fresh, w'') \<and>
    (\<forall>s. slot_get fresh s = (case s of ProjectSlot k \<Rightarrow> slot_get mr s | GlobalSlot k \<Rightarrow> slot_get mr s | _ \<Rightarrow> None))"
proof -
  note fl = flush_cases [OF assms(1,2) refl refl assms(7)]
  have ok: "mem_file_ok (mr_project_store mr')" "mem_file_ok (mr_global_store mr')"
    using assms(3,5,6) unfolding fl(1)
    by (simp_all add: mem_file_ok_def stamped_def now_iso8601_def clock_ok_def)
  obtain x0 where d: "ensure_global_dir env (mr_global_path mr) w' = (Inr (), w'\<lparr>w_rest := x0\<rparr>)"
    using assms(4) by (cases "path_parent (mr_global_path mr)")
      (auto simp: ensure_global_dir_def no_read_fault_def Let_def case_prod_beta intro: that [of "w_rest w'"])
  obtain x1 where p: "load_mem_file env (mr_project_path mr) package (w'\<lparr>w_rest := x0\<rparr>) =
      (Inr (mr_project_store mr'), w'\<lparr>w_rest := x1\<rparr>)"
    using load_mem_file_stored [OF assms(4) ok(1), of "w'\<lparr>w_rest := x0\<rparr>" "mr_project_path mr" package] fl(4)
    by auto
  obtain x2 where g: "load_mem_file env (mr_global_path mr) package (w'\<lparr>w_rest := x1\<rparr>) =
      (Inr (mr_global_store mr'), w'\<lparr>w_rest := x2\<rparr>)"
    using load_mem_file_stored [OF assms(4) ok(2), of "w'\<lparr>w_rest := x1\<rparr>" "mr_global_path mr" package] fl(4)
    by auto
  have "slot_get \<lparr>mr_node_store = [], mr_session_store = [], mr_project_path = mr_project_path mr,
      mr_project_store = mr_project_store mr', mr_global_path = mr_global_path mr,
      mr_global_store = mr_global_store mr', mr_package = package\<rparr> s =
      (case s of ProjectSlot k \<Rightarrow> slot_get mr s | GlobalSlot k \<Rightarrow> slot_get mr s | _ \<Rightarrow> None)" for s
    unfolding fl(1) by (cases s) (simp_all add: stamped_def)
  then show ?thesis
    by (simp add: mem_runtime_new_def d p g)
qed

section \<open>Instances\<close>

text \<open>The node \<open>n\<close> has one entry that lives a minute, the project has the memory of
  \<open>sample_mem\<close>.\<close>

definition sample_entry :: mem_file_entry where
  "sample_entry =
     \<lparr>mf_topic = ''infra'', mf_scope = ScopeNode, mf_ttl = TtlDuration ''PT1M'', mf_value = ''old'',
      mf_created_at = ''T1'', mf_updated_at = ''T2''\<rparr>"

definition sample_runtime :: mem_runtime where
  "sample_runtime =
     \<lparr>mr_node_store = [(''n'', [(''k'', sample_entry)])], mr_session_store = [],
      mr_project_path = ''p/a.agm.mem'', mr_project_store = sample_mem ''one'',
      mr_global_path = ''h/.agm/global.mem'',
      mr_global_store = (sample_mem ''one'')\<lparr>mem_entries := []\<rparr>, mr_package = ''p''\<rparr>"

definition sample_action :: "memory_action \<Rightarrow> string \<Rightarrow> memory_entry" where
  "sample_action a v =
     \<lparr>me_key = ''k'', me_topic = ''infra'', me_action = a, me_value = Some v, me_scope = Some ScopeNode,
      me_ttl = Some TtlPermanent, me_query = None, me_max_results = None, me_extra_fields = []\<rparr>"

lemma sample_runtime_ok: "mem_ok sample_runtime"
  by (simp add: sample_runtime_def mem_ok_def sample_mem_def bt_ok_def)

lemma memory_refines_store_witness:
  "mem_ok (fst (snd (run_commands (action_step sample_env)
     [(''n'', sample_action MaUpsert ''v''), (''m'', sample_action MaDelete ''v'')] (sample_runtime, 0))))"
  using memory_refines_store [OF sample_runtime_ok sample_env_ok(2)] by blast

lemma memory_write_then_read_witness:
  "\<exists>e. slot_get (fst (snd (run_commands (action_step sample_env)
       [(''n'', sample_action MaUpsert ''new''), (''m'', sample_action MaDelete ''v'')] (sample_runtime, 0))))
       (NodeSlot ''n'' ''k'') = Some e \<and> mf_value e = ''new'' \<and> mf_created_at e = ''T1''"
proof -
  let ?c = "(''n'', sample_action MaUpsert ''new'')" and ?d = "(''m'', sample_action MaDelete ''v'')"
  obtain rs mr' x' where r: "run_commands (action_step sample_env) [?c, ?d] (sample_runtime, 0) = (rs, mr', x')"
    by (metis prod.exhaust)
  have slot: "command_slot ?c = NodeSlot ''n'' ''k''" "\<not> writes ?d (command_slot ?c)"
    by (simp_all add: command_slot_def slot_of_def sample_action_def entry_scope_def writes_def)
  have "slot_get sample_runtime (NodeSlot ''n'' ''k'') = Some sample_entry"
    by (simp add: sample_runtime_def)
  then show ?thesis
    using memory_write_then_read [OF sample_runtime_ok sample_env_ok(2) _ _ _ r] slot r
    by (simp add: sample_action_def unwrap_or_default_def max_memory_value_bytes_def sample_entry_def) metis
qed

lemma memory_node_isolation_witness:
  "mem_get ''n'' ScopeNode ''k'' (fst (snd (run_commands (action_step sample_env)
     [(''m'', sample_action MaDelete ''v'')] (sample_runtime, 0)))) = Some sample_entry"
proof -
  obtain rs mr' x' where r: "run_commands (action_step sample_env) [(''m'', sample_action MaDelete ''v'')]
      (sample_runtime, 0) = (rs, mr', x')"
    by (metis prod.exhaust)
  have "mem_get ''n'' ScopeNode ''k'' sample_runtime = Some sample_entry"
    by (simp add: sample_runtime_def mem_get_def)
  then show ?thesis
    using memory_node_isolation [OF sample_runtime_ok sample_env_ok(2) _ r, of "''n''" "''k''"] r by simp
qed

lemma sample_runtime_bounded: "values_bounded sample_runtime"
  unfolding values_bounded_def slots_bounded_def
proof (intro allI impI)
  fix s e assume "slot_get sample_runtime s = Some e"
  then show "length (mf_value e) \<le> max_memory_value_bytes"
    by (cases s) (auto simp: sample_runtime_def sample_entry_def sample_mem_def max_memory_value_bytes_def
        split: if_splits)
qed

lemma memory_values_bounded_witness:
  "values_bounded (fst (snd (run_commands (action_step sample_env)
     [(''n'', sample_action MaUpsert ''new'')] (sample_runtime, 0))))"
  using memory_values_bounded [OF sample_runtime_ok sample_env_ok(2) sample_runtime_bounded]
  by (metis prod.collapse)

lemma gc_exact_witness:
  "slot_get (fst (fst (gc sample_env sample_runtime 62))) (NodeSlot ''n'' ''k'') = None"
proof -
  obtain mr' report x' where g: "gc sample_env sample_runtime 62 = ((mr', report), x')"
    by (metis prod.exhaust)
  have "show_duration None None (Some 1) = ''PT1M''"
    by (simp add: show_duration_def show_part_def show_word_def show_nat.simps [of "Suc 0"] digit_def)
  then obtain secs where "parse_iso8601_duration ''PT1M'' = Inr secs" and "unat secs = 60"
    using parse_show_duration [of None None "Some 1"] by (auto simp: part_def)
  then have "parse_iso8601_duration ''PT1M'' = Inr 60" by (simp add: word_unat_eq_iff)
  then have "is_expired sample_env (fst (env_unix_nanos sample_env 62)) sample_entry"
    by (simp add: is_expired_def sample_entry_def sample_env_def whole_seconds_def is_digit_def byte_def)
  moreover have "slot_get sample_runtime (NodeSlot ''n'' ''k'') = Some sample_entry"
    by (simp add: sample_runtime_def)
  ultimately have "slot_get mr' (NodeSlot ''n'' ''k'') = None"
    using gc_exact [OF sample_runtime_ok g refl] by (auto simp del: slot_get.simps)
  then show ?thesis by (simp only: g fst_conv)
qed

lemma duration_parse_exact_witness:
  "\<exists>secs. parse_iso8601_duration (show_duration (Some 1) (Some 2) None) = Inr secs \<and> unat secs = 93600"
  using duration_parse_exact [of "Some 1" "Some 2" None] by (simp add: part_def)

lemma duration_wraps_early_witness:
  "is_expired sample_env (61186 * 1000000000)
     (sample_entry\<lparr>mf_ttl := TtlDuration (show_duration (Some 213503982334602) None None)\<rparr>)"
  by (rule duration_wraps_early [where t = "2 * 1000000000"])
    (simp_all add: sample_entry_def sample_env_def is_digit_def byte_def)

definition sample_world :: "nat world" where
  "sample_world = \<lparr>w_files = (\<lambda>_. None), w_rest = 0\<rparr>"

lemma sample_temp_fresh: "temp_fresh sample_env [mr_project_path sample_runtime, mr_global_path sample_runtime]"
proof -
  have digit: "is_digit (last (show_nat x))" for x
    by (rule show_nat_digits [of _ x]) simp
  have "dir @ ''/.tmp'' @ show_nat x \<noteq> s" if "\<not> is_digit (last s)" for dir x s
    using digit [of x] that by (metis Nil_is_append_conv last_appendR show_nat_not_Nil)
  then show ?thesis
    by (simp add: temp_fresh_def sample_env_def sample_runtime_def is_digit_def byte_def)
qed

lemma flush_atomic_witness:
  "slot_get (fst (snd (flush sample_env sample_runtime sample_world))) = slot_get sample_runtime"
  using flush_atomic [OF sample_temp_fresh, of sample_world]
  by (cases "flush sample_env sample_runtime sample_world") (simp add: sample_runtime_def)

lemma flush_then_restart_witness:
  "\<exists>mr' w' fresh w''. flush sample_env sample_runtime sample_world = (Inr (), mr', w') \<and>
     mem_runtime_new sample_env ''p/a.agm.mem'' ''h/.agm/global.mem'' ''p'' w' = (Inr fresh, w'') \<and>
     slot_get fresh (ProjectSlot ''k'') = slot_get sample_runtime (ProjectSlot ''k'') \<and>
     slot_get fresh (NodeSlot ''n'' ''k'') = None"
proof -
  obtain r mr' w' where f: "flush sample_env sample_runtime sample_world = (r, mr', w')"
    by (metis prod.exhaust)
  have "fst (env_fault sample_env x) = IoOk" for x by (simp add: sample_env_def)
  then have r: "r = Inr ()"
    using f by (auto simp: flush_def Let_def case_prod_beta ensure_global_dir_def atomic_write_mem_def
        atomic_write_def replace_file_def sample_env_def split: option.splits sum.splits)
  have paths: "mr_project_path sample_runtime = ''p/a.agm.mem''" "mr_global_path sample_runtime = ''h/.agm/global.mem''"
    by (simp_all add: sample_runtime_def)
  have ok: "mem_file_ok (mr_project_store sample_runtime)" "mem_file_ok (mr_global_store sample_runtime)"
    by code_simp+
  have "no_read_fault sample_env" by (simp add: no_read_fault_def sample_env_def)
  then show ?thesis
    using flush_then_restart [OF sample_temp_fresh _ sample_env_ok(1) _ ok f [unfolded r], of "''p''"]
      f [unfolded r] unfolding paths by (auto simp del: slot_get.simps)
qed

end
