(* ===== verification/Host.thy ===== *)
theory Host
  imports Memory_Runtime Utf8
begin

text \<open>
  What the run-time crates take from the operating system beyond \<open>Runtime_Env\<close>: processes,
  reading files, paths and durations, and the regular expressions of the \<open>regex\<close> crate.
  Processes and regular expressions are the parameter \<open>host\<close>; paths and the text of a
  duration are the standard library's and are written out.
\<close>

section \<open>Paths, as on Unix\<close>

text \<open>\<open>Path::join\<close>: an absolute second path replaces the first.\<close>

definition path_join :: "string \<Rightarrow> string \<Rightarrow> string" where
  "path_join dir p =
     (if starts_with ''/'' p \<or> dir = [] then p
      else if ends_with ''/'' dir then dir @ p
      else dir @ ''/'' @ p)"

section \<open>Durations\<close>

text \<open>A \<open>Duration\<close> is a number of nanoseconds; \<open>Debug\<close> prints it in its largest unit.\<close>

definition fmt_decimal :: "nat \<Rightarrow> nat \<Rightarrow> nat \<Rightarrow> string" where
  "fmt_decimal whole frac digits =
     (let d = rev (dropWhile (\<lambda>c. c = CHR ''0'') (rev (pad digits frac))) in
      show_nat whole @ (if frac = 0 then [] else ''.'' @ d))"

definition show_duration_debug :: "nat \<Rightarrow> string" where
  "show_duration_debug d =
     (if 1000000000 \<le> d then fmt_decimal (d div 1000000000) (d mod 1000000000) 9 @ ''s''
      else if 1000000 \<le> d then fmt_decimal (d div 1000000) (d mod 1000000) 6 @ ''ms''
      else if 1000 \<le> d then fmt_decimal (d div 1000) (d mod 1000) 3 @ [CHR 0xC2, CHR 0xB5, CHR ''s'']
      else fmt_decimal d 0 0 @ ''ns'')"

text \<open>\<open>Duration::as_millis\<close>.\<close>

definition as_millis :: "nat \<Rightarrow> nat" where
  "as_millis d = d div 1000000"

definition show_int :: "int \<Rightarrow> string" where
  "show_int i = (if i < 0 then ''-'' @ show_nat (nat (- i)) else show_nat (nat i))"

section \<open>The host\<close>

text \<open>
  \<open>h_regex\<close> is \<open>Regex::new\<close>: the error or the matcher. \<open>h_upper\<close> is Unicode's upper case of a
  character. \<open>h_spawn run dir\<close> starts a shell on
  \<open>run\<close>, \<open>h_poll n\<close> is the answer to the \<open>n\<close>-th \<open>try_wait\<close> on the process started last, with
  the time by which the polling is late: \<open>n\<close> sleeps of 100 milliseconds take at least
  \<open>n * 100\<close> milliseconds. \<open>h_kill\<close> kills it and waits for it, \<open>h_output\<close> is
  \<open>wait_with_output\<close>. A process may do anything to the world.
\<close>

datatype poll = PollRunning | PollExited | PollError string

record proc_output =
  po_code :: "int option"
  po_stdout :: string
  po_stderr :: string

record 'x host =
  h_env :: "'x env"
  h_regex :: "string \<Rightarrow> string + (string \<Rightarrow> bool)"
  h_upper :: "string \<Rightarrow> string"
  h_is_dir :: "string \<Rightarrow> 'x \<Rightarrow> bool"
  h_read_error :: "string \<Rightarrow> 'x \<Rightarrow> string"
  h_spawn :: "string \<Rightarrow> string \<Rightarrow> 'x world \<Rightarrow> unit res \<times> 'x world"
  h_poll :: "nat \<Rightarrow> 'x world \<Rightarrow> (poll \<times> nat) \<times> 'x world"
  h_kill :: "'x world \<Rightarrow> 'x world"
  h_output :: "'x world \<Rightarrow> proc_output res \<times> 'x world"

definition instant_now :: "'x host \<Rightarrow> 'x world \<Rightarrow> nat \<times> 'x world" where
  "instant_now h w = (let (t, x) = env_instant (h_env h) (w_rest w) in (t, w\<lparr>w_rest := x\<rparr>))"

definition elapsed :: "'x host \<Rightarrow> nat \<Rightarrow> 'x world \<Rightarrow> nat \<times> 'x world" where
  "elapsed h start w = (let (t, w') = instant_now h w in (t - start, w'))"

definition path_exists :: "'x host \<Rightarrow> string \<Rightarrow> 'x world \<Rightarrow> bool" where
  "path_exists h p w \<longleftrightarrow> w_files w p \<noteq> None \<or> h_is_dir h p (w_rest w)"

text \<open>\<open>std::fs::read_to_string\<close>; a file that is not UTF-8 is one of the faults.\<close>

definition read_to_string :: "'x host \<Rightarrow> string \<Rightarrow> 'x world \<Rightarrow> string res \<times> 'x world" where
  "read_to_string h p w =
     (case w_files w p of
        None \<Rightarrow> (Inl (h_read_error h p (w_rest w)), w)
      | Some content \<Rightarrow>
          (let (fault, x) = env_read_fault (h_env h) (w_rest w) in
           (if fault then Inl (h_read_error h p (w_rest w)) else Inr content, w\<lparr>w_rest := x\<rparr>)))"

section \<open>Lemmas\<close>

lemma instant_files [frame_simps, simp]: "w_files (snd (instant_now h w)) = w_files w"
  by (simp add: instant_now_def case_prod_beta Let_def)

lemma elapsed_files [frame_simps, simp]: "w_files (snd (elapsed h start w)) = w_files w"
  by (simp add: elapsed_def case_prod_beta Let_def)

lemma read_to_string_files [frame_simps, simp]: "w_files (snd (read_to_string h p w)) = w_files w"
  by (simp add: read_to_string_def case_prod_beta Let_def split: option.split)

lemma read_to_string_Inr: "fst (read_to_string h p w) = Inr s \<Longrightarrow> w_files w p = Some s"
  by (auto simp: read_to_string_def case_prod_beta Let_def split: option.splits if_splits)

text \<open>A relative path is below the directory.\<close>

lemma path_join_below:
  "\<not> starts_with ''/'' p \<Longrightarrow> dir \<noteq> [] \<Longrightarrow> \<exists>q. path_join dir p = dir @ q"
  by (simp add: path_join_def)

section \<open>An instance\<close>

text \<open>An outside without regular expressions and directories, where a process never ends.\<close>

definition sample_host :: "nat host" where
  "sample_host =
     \<lparr>h_env = sample_env, h_regex = (\<lambda>_. Inl ''unsupported''), h_upper = map to_upper,
      h_is_dir = (\<lambda>_ _. False),
      h_read_error = (\<lambda>_ _. ''no such file''), h_spawn = (\<lambda>_ _ w. (Inr (), w)),
      h_poll = (\<lambda>_ w. ((PollRunning, 0), w)), h_kill = (\<lambda>w. w), h_output = (\<lambda>w. (Inl ''no process'', w))\<rparr>"

end
