(* ===== verification/Verifier.thy ===== *)
theory Verifier
  imports Host
begin

text \<open>
  The verifier, \<open>crates/agm-cli/src/runtime/verifier.rs\<close>: the five kinds of check, the run
  over all checks of a node, and the log of its result. Every check ends: the loop that
  waits for a command is bounded by the timeout.
\<close>

section \<open>Results\<close>

definition default_timeout_secs :: "64 word" where "default_timeout_secs = 60"
definition max_output_bytes :: nat where "max_output_bytes = 4096"

datatype fail_strategy = FailFast | RunAll

record check_result =
  cr_check :: verify_check
  cr_passed :: bool
  cr_message :: string
  cr_duration :: nat

record verify_result =
  vr_node_id :: string
  vr_checks :: "check_result list"
  vr_all_passed :: bool

text \<open>A check that started at \<open>start\<close> ends here, as the struct literals do.\<close>

definition finish_check ::
  "'x host \<Rightarrow> nat \<Rightarrow> verify_check \<Rightarrow> bool \<Rightarrow> string \<Rightarrow> 'x world \<Rightarrow> check_result \<times> 'x world" where
  "finish_check h start check passed message w =
     (let (d, w') = elapsed h start w in
      (\<lparr>cr_check = check, cr_passed = passed, cr_message = message, cr_duration = d\<rparr>, w'))"

section \<open>Patterns\<close>

definition match_pattern :: "'x host \<Rightarrow> string \<Rightarrow> string \<Rightarrow> bool res" where
  "match_pattern h content pattern =
     (if 2 \<le> length pattern \<and> starts_with ''/'' pattern \<and> ends_with ''/'' pattern then
        (let regex_str = take (length pattern - 2) (drop 1 pattern) in
         case h_regex h regex_str of
           Inr is_match \<Rightarrow> Inr (is_match content)
         | Inl e \<Rightarrow> Inl (''Invalid regex '' @ sq regex_str @ '': '' @ e))
      else Inr (str_contains content pattern))"

section \<open>File checks\<close>

definition run_file_exists_check ::
  "'x host \<Rightarrow> string \<Rightarrow> string \<Rightarrow> 'x world \<Rightarrow> check_result \<times> 'x world" where
  "run_file_exists_check h f dir w =
     (let (start, w1) = instant_now h w;
          path = path_join dir f;
          found = path_exists h path w1 in
      finish_check h start (VcFileExists f) found
        ((if found then ''File exists: '' else ''File not found: '') @ path) w1)"

definition run_file_contains_check ::
  "'x host \<Rightarrow> string \<Rightarrow> string \<Rightarrow> string \<Rightarrow> 'x world \<Rightarrow> check_result \<times> 'x world" where
  "run_file_contains_check h f pattern dir w =
     (let (start, w1) = instant_now h w;
          path = path_join dir f;
          check = VcFileContains f pattern;
          (content, w2) = read_to_string h path w1 in
      case content of
        Inl e \<Rightarrow> finish_check h start check False (''Cannot read file: '' @ path @ '': '' @ e) w2
      | Inr text \<Rightarrow>
          (case match_pattern h text pattern of
             Inr found \<Rightarrow>
               finish_check h start check found
                 (''File '' @ sq f @ (if found then '' contains pattern: '' else '' does not contain pattern: '') @
                  pattern) w2
           | Inl msg \<Rightarrow> finish_check h start check False msg w2))"

definition run_file_not_contains_check ::
  "'x host \<Rightarrow> string \<Rightarrow> string \<Rightarrow> string \<Rightarrow> 'x world \<Rightarrow> check_result \<times> 'x world" where
  "run_file_not_contains_check h f pattern dir w =
     (let (start, w1) = instant_now h w;
          path = path_join dir f;
          check = VcFileNotContains f pattern;
          (content, w2) = read_to_string h path w1 in
      case content of
        Inl _ \<Rightarrow>
          finish_check h start check True (''File '' @ sq f @ '' not found (check passes trivially)'') w2
      | Inr text \<Rightarrow>
          (case match_pattern h text pattern of
             Inr found \<Rightarrow>
               finish_check h start check (\<not> found)
                 (''File '' @ sq f @
                  (if \<not> found then '' does not contain pattern: '' else '' unexpectedly contains pattern: '') @
                  pattern) w2
           | Inl msg \<Rightarrow> finish_check h start check False msg w2))"

section \<open>Status checks\<close>

definition run_node_status_check ::
  "'x host \<Rightarrow> string \<Rightarrow> string \<Rightarrow> tracker \<Rightarrow> 'x world \<Rightarrow> check_result \<times> 'x world" where
  "run_node_status_check h i expected tr w =
     (let (start, w1) = instant_now h w; check = VcNodeStatus i expected in
      case tracker_node_state tr i of
        None \<Rightarrow> finish_check h start check False (''Node '' @ sq i @ '' not found in execution state'') w1
      | Some ns \<Rightarrow>
          (let actual = show_execution_status (ns_execution_status ns);
               passed = eq_ignore_case actual (trim expected) in
           finish_check h start check passed
             (if passed then ''Node '' @ sq i @ '' has status '' @ sq actual @ '' (expected '' @ sq expected @ '')''
              else ''Node '' @ sq i @ '' has status '' @ sq actual @ '', expected '' @ sq expected) w1))"

section \<open>Commands\<close>

text \<open>
  The poll loop: \<open>n\<close> is the number of sleeps so far. An error ends the check with its
  message.
\<close>

function wait_child :: "'x host \<Rightarrow> nat \<Rightarrow> nat \<Rightarrow> 'x world \<Rightarrow> unit res \<times> 'x world" where
  "wait_child h timeout n w =
     (let ((answer, late), w') = h_poll h n w in
      case answer of
        PollExited \<Rightarrow> (Inr (), w')
      | PollError e \<Rightarrow> (Inl (''Command error while waiting: '' @ e), w')
      | PollRunning \<Rightarrow>
          if timeout < n * 100000000 + late then
            (Inl (''Command timed out after '' @ show_duration_debug timeout), h_kill h w')
          else wait_child h timeout (Suc n) w')"
  by pat_completeness auto
termination by (relation "measure (\<lambda>(h, timeout, n, w). Suc timeout - n)") auto

declare wait_child.simps [simp del]

text \<open>One output stream as the message shows it.\<close>

definition shown_stream :: "string \<Rightarrow> string" where
  "shown_stream raw =
     (let s = from_utf8_lossy (take max_output_bytes raw) in
      if max_output_bytes < length raw then s @ ''... (truncated)''
      else if s = [] then ''(empty)'' else s)"

text \<open>
  What \<open>expect\<close> asks of the exit code and the output. The inner \<open>None\<close> is an invalid
  expectation, whose message the check ends with.
\<close>

definition expectation ::
  "'x host \<Rightarrow> string \<Rightarrow> int \<Rightarrow> string \<Rightarrow> bool res" where
  "expectation h e exit_code combined =
     (if e = ''exit_code_0'' then Inr (exit_code = 0)
      else if e = ''exit_code_nonzero'' then Inr (exit_code \<noteq> 0)
      else if starts_with ''output_contains: '' e then
        Inr (str_contains combined (trim (drop (length ''output_contains: '') e)))
      else if starts_with ''output_matches: '' e then
        (let regex_str = trim (drop (length ''output_matches: '') e) in
         case h_regex h regex_str of
           Inr is_match \<Rightarrow> Inr (is_match combined)
         | Inl msg \<Rightarrow> Inl (''Invalid regex '' @ sq regex_str @ '': '' @ msg))
      else Inl (''Unknown expect value: '' @ e))"

definition run_command_check ::
  "'x host \<Rightarrow> string \<Rightarrow> string option \<Rightarrow> string \<Rightarrow> nat \<Rightarrow> 'x world \<Rightarrow> check_result \<times> 'x world" where
  "run_command_check h run expect dir timeout w =
     (let (start, w1) = instant_now h w;
          check = VcCommand run expect;
          fail = finish_check h start check False;
          (spawned, w2) = h_spawn h run dir w1 in
      case spawned of
        Inl e \<Rightarrow> fail (''Failed to spawn command: '' @ e) w2
      | Inr _ \<Rightarrow>
          (let (waited, w3) = wait_child h timeout 0 w2 in
           case waited of
             Inl msg \<Rightarrow> fail msg w3
           | Inr _ \<Rightarrow>
               (let (output, w4) = h_output h w3 in
                case output of
                  Inl e \<Rightarrow> fail (''Command error: '' @ e) w4
                | Inr out \<Rightarrow>
                    (let e = (case expect of Some e \<Rightarrow> e | None \<Rightarrow> ''exit_code_0'');
                         exit_code = (case po_code out of Some c \<Rightarrow> c | None \<Rightarrow> - 1);
                         combined = from_utf8_lossy (take max_output_bytes (po_stdout out)) @
                                    from_utf8_lossy (take max_output_bytes (po_stderr out));
                         streams = nl # ''stdout: '' @ shown_stream (po_stdout out) @ nl # ''stderr: '' @
                                   shown_stream (po_stderr out) in
                     case expectation h e exit_code combined of
                       Inl msg \<Rightarrow> fail msg w4
                     | Inr passed \<Rightarrow>
                         finish_check h start check passed
                           (if passed then
                              ''Command succeeded: exit_code='' @ show_int exit_code @ streams
                            else
                              ''Command failed: expected '' @ e @ '', got exit_code='' @ show_int exit_code @
                              streams) w4))))"

section \<open>All checks of a node\<close>

definition run_check ::
  "'x host \<Rightarrow> tracker \<Rightarrow> string \<Rightarrow> nat \<Rightarrow> verify_check \<Rightarrow> 'x world \<Rightarrow> check_result \<times> 'x world" where
  "run_check h tr dir timeout check w =
     (case check of
        VcCommand run expect \<Rightarrow> run_command_check h run expect dir timeout w
      | VcFileExists f \<Rightarrow> run_file_exists_check h f dir w
      | VcFileContains f pattern \<Rightarrow> run_file_contains_check h f pattern dir w
      | VcFileNotContains f pattern \<Rightarrow> run_file_not_contains_check h f pattern dir w
      | VcNodeStatus i status \<Rightarrow> run_node_status_check h i status tr w)"

fun run_checks ::
  "'x host \<Rightarrow> tracker \<Rightarrow> string \<Rightarrow> nat \<Rightarrow> fail_strategy \<Rightarrow> verify_check list \<Rightarrow> 'x world \<Rightarrow>
   check_result list \<times> 'x world" where
  "run_checks h tr dir timeout strategy [] w = ([], w)"
| "run_checks h tr dir timeout strategy (c # cs) w =
     (let (r, w1) = run_check h tr dir timeout c w in
      if \<not> cr_passed r \<and> strategy = FailFast then ([r], w1)
      else (let (rs, w2) = run_checks h tr dir timeout strategy cs w1 in (r # rs, w2)))"

definition verify_node ::
  "'x host \<Rightarrow> node \<Rightarrow> tracker \<Rightarrow> string \<Rightarrow> nat \<Rightarrow> fail_strategy \<Rightarrow> 'x world \<Rightarrow> verify_result \<times> 'x world" where
  "verify_node h n tr dir timeout strategy w =
     (case n_verify n of
        None \<Rightarrow> (\<lparr>vr_node_id = n_id n, vr_checks = [], vr_all_passed = True\<rparr>, w)
      | Some checks \<Rightarrow>
          if checks = [] then (\<lparr>vr_node_id = n_id n, vr_checks = [], vr_all_passed = True\<rparr>, w)
          else
            (let (results, w') = run_checks h tr dir timeout strategy checks w in
             (\<lparr>vr_node_id = n_id n, vr_checks = results, vr_all_passed = list_all cr_passed results\<rparr>, w')))"

section \<open>The log\<close>

definition check_label :: "verify_check \<Rightarrow> string" where
  "check_label check =
     (case check of
        VcCommand run _ \<Rightarrow> ''command: '' @ run
      | VcFileExists f \<Rightarrow> ''file_exists: '' @ f
      | VcFileContains f _ \<Rightarrow> ''file_contains: '' @ f
      | VcFileNotContains f _ \<Rightarrow> ''file_not_contains: '' @ f
      | VcNodeStatus i status \<Rightarrow> ''node_status: '' @ i @ '' == '' @ status)"

definition check_line :: "check_result \<Rightarrow> string" where
  "check_line c =
     (let label = check_label (cr_check c); ms = show_nat (as_millis (cr_duration c)) in
      if cr_passed c then ''  [PASS] '' @ label @ '' ('' @ ms @ ''ms)''
      else
        (let first_line = (case str_lines (cr_message c) of l # _ \<Rightarrow> l | [] \<Rightarrow> cr_message c) in
         ''  [FAIL] '' @ label @ '' -- '' @ first_line @ '' ('' @ ms @ ''ms)''))"

definition format_verify_log :: "verify_result \<Rightarrow> string" where
  "format_verify_log r =
     (let total = length (vr_checks r); passed_count = length (filter cr_passed (vr_checks r)) in
      join [nl]
        ((''Verification: '' @ show_nat passed_count @ ''/'' @ show_nat total @ '' checks passed'') #
         map check_line (vr_checks r)))"

section \<open>Lemmas\<close>

lemma finish_check_simps [simp]:
  "cr_check (fst (finish_check h start check passed message w)) = check"
  "cr_passed (fst (finish_check h start check passed message w)) = passed"
  "cr_message (fst (finish_check h start check passed message w)) = message"
  "w_files (snd (finish_check h start check passed message w)) = w_files w"
  by (simp_all add: finish_check_def Let_def case_prod_beta)

lemmas check_defs = run_file_exists_check_def run_file_contains_check_def run_file_not_contains_check_def
  run_node_status_check_def run_command_check_def

text \<open>Every result carries the check it is the result of.\<close>

lemma run_check_check [simp]: "cr_check (fst (run_check h tr dir timeout c w)) = c"
  by (cases c) (simp_all add: run_check_def check_defs Let_def case_prod_beta split: sum.split option.split)

lemma run_checks_all: "map cr_check (fst (run_checks h tr dir timeout RunAll cs w)) = cs"
  by (induction cs arbitrary: w) (simp_all add: Let_def case_prod_beta)

lemma run_checks_fast:
  "\<exists>k. map cr_check (fst (run_checks h tr dir timeout FailFast cs w)) = take k cs \<and>
     list_all cr_passed (butlast (fst (run_checks h tr dir timeout FailFast cs w))) \<and>
     (list_all cr_passed (fst (run_checks h tr dir timeout FailFast cs w)) \<longrightarrow> length cs \<le> k)"
proof (induction cs arbitrary: w)
  case (Cons c cs)
  let ?r = "run_check h tr dir timeout c w"
  obtain k where k: "map cr_check (fst (run_checks h tr dir timeout FailFast cs (snd ?r))) = take k cs"
    "list_all cr_passed (butlast (fst (run_checks h tr dir timeout FailFast cs (snd ?r))))"
    "list_all cr_passed (fst (run_checks h tr dir timeout FailFast cs (snd ?r))) \<longrightarrow> length cs \<le> k"
    using Cons by blast
  show ?case
  proof (cases "cr_passed (fst ?r)")
    case True
    with k show ?thesis
      by (intro exI [of _ "Suc k"]) (auto simp: Let_def case_prod_beta)
  next
    case False
    then show ?thesis by (intro exI [of _ 1]) (simp add: Let_def case_prod_beta)
  qed
qed simp

definition literal_pattern :: "string \<Rightarrow> bool" where
  "literal_pattern p \<longleftrightarrow> \<not> (2 \<le> length p \<and> starts_with ''/'' p \<and> ends_with ''/'' p)"

section \<open>Properties\<close>

text \<open>C28: A node is verified exactly when every check it declares ran and passed. Running all checks
  gives one result per declared check, in order; failing fast stops after the first check
  that fails.\<close>

theorem verify_node_exact:
  assumes "verify_node h n tr dir timeout strategy w = (r, w')"
  defines "checks \<equiv> unwrap_list (n_verify n)"
  shows "(vr_all_passed r \<longleftrightarrow> map cr_check (vr_checks r) = checks \<and> list_all cr_passed (vr_checks r)) \<and>
    (strategy = RunAll \<longrightarrow> map cr_check (vr_checks r) = checks) \<and>
    (strategy = FailFast \<longrightarrow> (\<exists>k. map cr_check (vr_checks r) = take k checks) \<and>
       list_all cr_passed (butlast (vr_checks r)))"
proof (cases "checks = []")
  case True
  then show ?thesis
    using assms(1) by (auto simp: checks_def verify_node_def unwrap_list_def split: option.splits if_splits)
next
  case False
  then have r: "vr_checks r = fst (run_checks h tr dir timeout strategy checks w)"
    "vr_all_passed r = list_all cr_passed (vr_checks r)"
    using assms(1)
    by (auto simp: checks_def verify_node_def unwrap_list_def Let_def case_prod_beta split: option.splits if_splits)
  show ?thesis
  proof (cases strategy)
    case RunAll
    with r show ?thesis by (simp add: run_checks_all)
  next
    case FailFast
    obtain k where "map cr_check (vr_checks r) = take k checks" "list_all cr_passed (butlast (vr_checks r))"
      "list_all cr_passed (vr_checks r) \<longrightarrow> length checks \<le> k"
      using run_checks_fast [of h tr dir timeout checks w] r(1) FailFast by auto
    with FailFast r(2) show ?thesis by auto
  qed
qed

text \<open>On a file that can be read and a pattern that is not a regular expression, the check that the
  file contains the pattern passes exactly when the pattern occurs in it, and the check that
  it does not contain it passes exactly when it does not.\<close>

lemma file_checks_exact:
  assumes "literal_pattern pattern"
    and "fst (read_to_string h (path_join dir f) (snd (instant_now h w))) = Inr text"
  shows "(cr_passed (fst (run_file_contains_check h f pattern dir w)) \<longleftrightarrow> (\<exists>u v. text = u @ pattern @ v)) \<and>
    (cr_passed (fst (run_file_not_contains_check h f pattern dir w)) \<longleftrightarrow> \<not> (\<exists>u v. text = u @ pattern @ v))"
proof -
  have "match_pattern h text pattern = Inr (str_contains text pattern)"
    using assms(1) by (auto simp: match_pattern_def literal_pattern_def)
  with assms(2) show ?thesis
    unfolding str_contains_iff [symmetric] by (simp add: check_defs Let_def case_prod_beta)
qed

lemma wait_child_hangs:
  assumes "\<And>n w. fst (fst (h_poll h n w)) = PollRunning"
  shows "fst (wait_child h timeout n w) = Inl (''Command timed out after '' @ show_duration_debug timeout)"
  using assms
proof (induction h timeout n w rule: wait_child.induct)
  case (1 h timeout n w)
  obtain late w' where p: "h_poll h n w = ((PollRunning, late), w')"
    using "1.prems" [of n w] by (metis prod.collapse)
  show ?case
    using "1.IH" [OF p [symmetric] refl refl refl _ "1.prems"] by (subst wait_child.simps) (simp add: p)
qed

lemma wait_child_bounded:
  assumes "\<And>k. k \<le> Suc (timeout div 100000000) \<Longrightarrow> h_poll h' k = h_poll h k" and "h_kill h' = h_kill h"
    and "n \<le> Suc (timeout div 100000000)"
  shows "wait_child h' timeout n w = wait_child h timeout n w"
  using assms
proof (induction h timeout n w rule: wait_child.induct)
  case (1 h timeout n w)
  obtain answer late w' where p: "h_poll h n w = ((answer, late), w')"
    by (metis prod.collapse)
  have p': "h_poll h' n w = ((answer, late), w')" using "1.prems"(1,3) p by simp
  have "Suc n \<le> Suc (timeout div 100000000)" if "\<not> timeout < n * 100000000 + late"
  proof -
    have "n * 100000000 \<le> timeout" using that by simp
    then show ?thesis by (simp add: less_eq_div_iff_mult_less_eq)
  qed
  then have "answer = PollRunning \<Longrightarrow> \<not> timeout < n * 100000000 + late \<Longrightarrow>
      wait_child h' timeout (Suc n) w' = wait_child h timeout (Suc n) w'"
    using "1.IH" [OF p [symmetric] refl refl _ _ "1.prems"(1,2)] by simp
  then show ?case
    using "1.prems"(2)
    by (subst wait_child.simps, subst (2) wait_child.simps) (auto simp: p p' split: poll.split)
qed

text \<open>Waiting for a command ends: the result depends on no poll after the first two more than the
  timeout has tenths of a second; a command that is still running at every poll fails its
  check with the timeout message.\<close>

lemma command_check_ends:
  "((\<forall>k \<le> Suc (timeout div 100000000). h_poll h' k = h_poll h k) \<longrightarrow> h_kill h' = h_kill h \<longrightarrow>
     wait_child h' timeout 0 w = wait_child h timeout 0 w) \<and>
   ((\<forall>n w. fst (fst (h_poll h n w)) = PollRunning) \<longrightarrow>
     fst (h_spawn h run dir (snd (instant_now h w))) = Inr () \<longrightarrow>
     (let r = fst (run_command_check h run expect dir timeout w) in
      \<not> cr_passed r \<and> cr_message r = ''Command timed out after '' @ show_duration_debug timeout))"
proof (intro conjI impI)
  assume "\<forall>k \<le> Suc (timeout div 100000000). h_poll h' k = h_poll h k" and "h_kill h' = h_kill h"
  then show "wait_child h' timeout 0 w = wait_child h timeout 0 w"
    by (intro wait_child_bounded) auto
next
  assume "\<forall>n w. fst (fst (h_poll h n w)) = PollRunning"
  then have "fst (wait_child h timeout 0 w2) = Inl (''Command timed out after '' @ show_duration_debug timeout)" for w2
    by (intro wait_child_hangs) auto
  moreover assume "fst (h_spawn h run dir (snd (instant_now h w))) = Inr ()"
  ultimately show "let r = fst (run_command_check h run expect dir timeout w) in
      \<not> cr_passed r \<and> cr_message r = ''Command timed out after '' @ show_duration_debug timeout"
    by (simp add: run_command_check_def Let_def case_prod_beta)
qed

section \<open>Instances\<close>

definition sample_files_world :: "nat world" where
  "sample_files_world = \<lparr>w_files = [''d/f'' \<mapsto> ''hello''], w_rest = 0\<rparr>"

lemma verify_node_exact_witness:
  "\<not> vr_all_passed (fst (verify_node sample_host
     (node_default\<lparr>n_verify := Some [VcFileExists ''f'', VcFileExists ''g'']\<rparr>) sample_tracker ''d'' 0 RunAll
     sample_files_world))"
proof -
  obtain r w' where v: "verify_node sample_host
     (node_default\<lparr>n_verify := Some [VcFileExists ''f'', VcFileExists ''g'']\<rparr>) sample_tracker ''d'' 0 RunAll
     sample_files_world = (r, w')" by force
  then have "\<not> list_all cr_passed (vr_checks r)"
    by (auto simp: verify_node_def run_check_def run_file_exists_check_def path_exists_def sample_host_def
        sample_files_world_def path_join_def Let_def case_prod_beta instant_now_def starts_with_def ends_with_def)
  with verify_node_exact [OF v] v show ?thesis by simp
qed

lemma file_checks_exact_witness:
  "cr_passed (fst (run_file_contains_check sample_host ''f'' ''ell'' ''d'' sample_files_world))"
proof -
  have "literal_pattern ''ell''" by (simp add: literal_pattern_def starts_with_def)
  moreover have "fst (read_to_string sample_host (path_join ''d'' ''f'')
      (snd (instant_now sample_host sample_files_world))) = Inr ''hello''"
    by (simp add: read_to_string_def sample_host_def sample_env_def sample_files_world_def path_join_def Let_def
        case_prod_beta instant_now_def starts_with_def ends_with_def)
  ultimately have "cr_passed (fst (run_file_contains_check sample_host ''f'' ''ell'' ''d'' sample_files_world)) =
      (\<exists>u v. ''hello'' = u @ ''ell'' @ v)"
    using file_checks_exact by blast
  moreover have "''hello'' = ''h'' @ ''ell'' @ ''o''" by simp
  ultimately show ?thesis by blast
qed

lemma command_check_ends_witness:
  "cr_message (fst (run_command_check sample_host ''sleep 100'' None ''d'' 0 sample_files_world)) =
     ''Command timed out after 0ns''"
proof -
  have "show_duration_debug 0 = ''0ns''"
    by (simp add: show_duration_debug_def fmt_decimal_def show_nat.simps [of 0] digit_def)
  then show ?thesis
    using command_check_ends [of 0 sample_host sample_host sample_files_world "''sleep 100''" "''d''" None]
    by (simp add: sample_host_def Let_def)
qed

end
