(* ===== verification/Loader.thy ===== *)
theory Loader
  imports Graph Utf8
begin

text \<open>
  The loader, \<open>crates/agm-core/src/loader/\<close>: the four load modes (\<open>mode.rs\<close>), the fields of
  a node each keeps (\<open>filter.rs\<close>), loading whole files and selected nodes (\<open>mod.rs\<close>), and
  load profiles with their filter language (\<open>profile.rs\<close>). Loading twice is loading once with
  the smaller mode.
\<close>

section \<open>Modes\<close>

datatype load_mode = LmSummary | LmOperational | LmExecutable | LmFull

fun show_load_mode :: "load_mode \<Rightarrow> string" where
  "show_load_mode LmSummary = ''summary''"
| "show_load_mode LmOperational = ''operational''"
| "show_load_mode LmExecutable = ''executable''"
| "show_load_mode LmFull = ''full''"

definition parse_load_mode :: "string \<Rightarrow> load_mode option" where
  "parse_load_mode s =
     (if s = ''summary'' then Some LmSummary
      else if s = ''operational'' then Some LmOperational
      else if s = ''executable'' then Some LmExecutable
      else if s = ''full'' then Some LmFull
      else None)"

interpretation load_mode: exact_codec show_load_mode parse_load_mode "\<lambda>_. True"
proof unfold_locales
  show "parse_load_mode (show_load_mode m) = Some m" for m
    by (cases m) (simp_all add: parse_load_mode_def)
  show "parse_load_mode s = Some m \<Longrightarrow> True \<and> show_load_mode m = s" for s m
    by (auto simp: parse_load_mode_def split: if_splits)
qed

datatype field_category = FcSummary | FcOperational | FcExecutable | FcFull

definition included_in :: "field_category \<Rightarrow> load_mode \<Rightarrow> bool" where
  "included_in c m =
     (case m of
        LmSummary \<Rightarrow> c = FcSummary
      | LmOperational \<Rightarrow> c = FcSummary \<or> c = FcOperational
      | LmExecutable \<Rightarrow> c = FcSummary \<or> c = FcOperational \<or> c = FcExecutable
      | LmFull \<Rightarrow> True)"

text \<open>The modes are ordered: each is a superset of the previous one.\<close>

instantiation load_mode :: linorder
begin

fun rank_load_mode :: "load_mode \<Rightarrow> nat" where
  "rank_load_mode LmSummary = 0"
| "rank_load_mode LmOperational = 1"
| "rank_load_mode LmExecutable = 2"
| "rank_load_mode LmFull = 3"

definition less_eq_load_mode :: "load_mode \<Rightarrow> load_mode \<Rightarrow> bool" where
  "m \<le> m' \<longleftrightarrow> rank_load_mode m \<le> rank_load_mode m'"

definition less_load_mode :: "load_mode \<Rightarrow> load_mode \<Rightarrow> bool" where
  "m < m' \<longleftrightarrow> rank_load_mode m < rank_load_mode m'"

instance
proof
  have rank: "rank_load_mode m = rank_load_mode m' \<Longrightarrow> m = m'" for m m'
    by (cases m; cases m') simp_all
  fix m m' m'' :: load_mode
  show "m < m' \<longleftrightarrow> m \<le> m' \<and> \<not> m' \<le> m" by (auto simp: less_eq_load_mode_def less_load_mode_def)
  show "m \<le> m" by (simp add: less_eq_load_mode_def)
  show "m \<le> m' \<Longrightarrow> m' \<le> m'' \<Longrightarrow> m \<le> m''" by (simp add: less_eq_load_mode_def)
  show "m \<le> m' \<Longrightarrow> m' \<le> m \<Longrightarrow> m = m'" by (simp add: less_eq_load_mode_def rank)
  show "m \<le> m' \<or> m' \<le> m" by (auto simp: less_eq_load_mode_def)
qed

end

lemma included_in_min: "included_in c (min m m') \<longleftrightarrow> included_in c m \<and> included_in c m'"
  by (cases c; cases m; cases m') (simp_all add: included_in_def min_def less_eq_load_mode_def)

section \<open>Filtering a node\<close>

definition filter_node :: "node \<Rightarrow> load_mode \<Rightarrow> node" where
  "filter_node n m =
     (let op = included_in FcOperational m;
          ex = included_in FcExecutable m;
          full = included_in FcFull m in
      \<lparr>n_id = n_id n, n_type = n_type n, n_summary = n_summary n,
       n_priority = n_priority n, n_stability = n_stability n,
       n_confidence = (if full then n_confidence n else None),
       n_status = (if full then n_status n else None),
       n_depends = n_depends n,
       n_related_to = (if full then n_related_to n else None),
       n_replaces = (if full then n_replaces n else None),
       n_conflicts = (if full then n_conflicts n else None),
       n_see_also = (if full then n_see_also n else None),
       n_items = (if op then n_items n else None),
       n_steps = (if op then n_steps n else None),
       n_fields = (if op then n_fields n else None),
       n_input = (if op then n_input n else None),
       n_output = (if op then n_output n else None),
       n_detail = (if full then n_detail n else None),
       n_rationale = (if full then n_rationale n else None),
       n_tradeoffs = (if full then n_tradeoffs n else None),
       n_resolution = (if full then n_resolution n else None),
       n_examples = (if full then n_examples n else None),
       n_notes = (if full then n_notes n else None),
       n_code = (if ex then n_code n else None),
       n_code_blocks = (if ex then n_code_blocks n else None),
       n_verify = (if ex then n_verify n else None),
       n_agent_context = (if ex then n_agent_context n else None),
       n_target = (if ex then n_target n else None),
       n_execution_status = (if ex then n_execution_status n else None),
       n_executed_by = (if ex then n_executed_by n else None),
       n_executed_at = (if ex then n_executed_at n else None),
       n_execution_log = (if ex then n_execution_log n else None),
       n_retry_count = (if ex then n_retry_count n else None),
       n_parallel_groups = (if full then n_parallel_groups n else None),
       n_memory = (if ex then n_memory n else None),
       n_scope = (if full then n_scope n else None),
       n_applies_when = (if full then n_applies_when n else None),
       n_valid_from = (if full then n_valid_from n else None),
       n_valid_until = (if full then n_valid_until n else None),
       n_tags = n_tags n,
       n_aliases = (if full then n_aliases n else None),
       n_keywords = (if full then n_keywords n else None),
       n_title = (if full then n_title n else None),
       n_description = (if full then n_description n else None),
       n_action = (if full then n_action n else None),
       n_sdd_phase = (if full then n_sdd_phase n else None),
       n_prompt = (if full then n_prompt n else None),
       n_assignee = (if full then n_assignee n else None),
       n_labels = (if full then n_labels n else None),
       n_ticket_id = (if full then n_ticket_id n else None),
       n_extra_fields = (if full then n_extra_fields n else []),
       n_span = n_span n\<rparr>)"

definition load :: "agm_file \<Rightarrow> load_mode \<Rightarrow> agm_file" where
  "load file m = \<lparr>f_header = f_header file, f_nodes = map (\<lambda>n. filter_node n m) (f_nodes file)\<rparr>"

definition load_nodes :: "agm_file \<Rightarrow> load_mode \<Rightarrow> string list \<Rightarrow> agm_file" where
  "load_nodes file m wanted =
     \<lparr>f_header = f_header file,
      f_nodes = map (\<lambda>n. filter_node n m) (filter (\<lambda>n. n_id n \<in> set wanted) (f_nodes file))\<rparr>"

section \<open>The filter language of profiles\<close>

datatype load_error = UnknownProfile string | NoProfilesDefined | DefaultProfileNotFound string

datatype filter_expr =
    FWildcard
  | FPriorityIn "string list"
  | FTypeIn "string list"
  | FExecutionStatusIn "string list"
  | FTagsIn "string list"
  | FCodeIsPresent
  | FUnrecognized string

record filter_set =
  fs_exprs :: "filter_expr list"
  fs_warnings :: "string list"

text \<open>
  Splitting at the separator: \<open>lower\<close> is the text in lower case, whose positions the code uses
  in the text itself. \<open>None\<close> is a panic of a slice.
\<close>

function scan_and :: "string \<Rightarrow> string \<Rightarrow> nat \<Rightarrow> nat \<Rightarrow> string list option" where
  "scan_and s lower start i =
     (if length lower < i + 5 then map_option (\<lambda>p. [p]) (str_slice s start (length s))
      else if eq_ignore_case (take 5 (drop i lower)) '' and '' then
        Option.bind (str_slice s start i)
          (\<lambda>p. map_option (\<lambda>ps. p # ps) (scan_and s lower (i + 5) (i + 5)))
      else scan_and s lower start (Suc i))"
  by pat_completeness auto
termination by (relation "measure (\<lambda>(s, lower, start, i). length lower - i)") auto

declare scan_and.simps [simp del]

definition split_on_and :: "(string \<Rightarrow> string) \<Rightarrow> string \<Rightarrow> string list option" where
  "split_on_and lc s = scan_and s (lc s) 0 0"

text \<open>The inner \<open>None\<close> is a clause of another form, the outer one a panic.\<close>

definition try_parse_field_in :: "(string \<Rightarrow> string) \<Rightarrow> string \<Rightarrow> filter_expr option option" where
  "try_parse_field_in lc clause =
     (case str_find '' in ['' (lc clause) of
        None \<Rightarrow> Some None
      | Some in_pos \<Rightarrow>
          Option.bind (str_slice clause 0 in_pos) (\<lambda>before.
          Option.bind (str_slice clause (in_pos + 5) (length clause)) (\<lambda>after.
            (let field = lc (trim before); after_in = trim after in
             case rfind_char CHR '']'' after_in of
               None \<Rightarrow> Some None
             | Some closing \<Rightarrow>
                 (let values = filter (\<lambda>v. v \<noteq> [])
                        (map (\<lambda>v. lc (trim v)) (split_char CHR '','' (take closing after_in))) in
                  Some
                    (if field = ''priority'' then Some (FPriorityIn values)
                     else if field = ''type'' then Some (FTypeIn values)
                     else if field = ''execution_status'' then Some (FExecutionStatusIn values)
                     else if field = ''tags'' then Some (FTagsIn values)
                     else None))))))"

text \<open>One clause: its expression and its warnings. \<open>dbg\<close> is the \<open>Debug\<close> text of a string.\<close>

definition parse_clause ::
  "(string \<Rightarrow> string) \<Rightarrow> (string \<Rightarrow> string) \<Rightarrow> string \<Rightarrow> (filter_expr \<times> string list) option" where
  "parse_clause lc dbg clause0 =
     (let clause = trim clause0 in
      if eq_ignore_case clause ''*'' \<or> eq_ignore_case clause ''wildcard'' then Some (FWildcard, [])
      else if eq_ignore_case clause ''code is present'' \<or> eq_ignore_case clause ''code_is_present''
      then Some (FCodeIsPresent, [])
      else map_option
        (\<lambda>r. case r of
           Some e \<Rightarrow> (e, [])
         | None \<Rightarrow> (FUnrecognized clause, [''unrecognized filter clause: '' @ dbg clause]))
        (try_parse_field_in lc clause))"

text \<open>Evaluating a list of fallible computations in order.\<close>

fun sequence_option :: "'a option list \<Rightarrow> 'a list option" where
  "sequence_option [] = Some []"
| "sequence_option (x # xs) = Option.bind x (\<lambda>y. map_option (\<lambda>ys. y # ys) (sequence_option xs))"

definition parse_filter :: "(string \<Rightarrow> string) \<Rightarrow> (string \<Rightarrow> string) \<Rightarrow> string \<Rightarrow> filter_set option" where
  "parse_filter lc dbg s =
     Option.bind (split_on_and lc s) (\<lambda>clauses.
     map_option (\<lambda>rs. \<lparr>fs_exprs = map fst rs, fs_warnings = concat (map snd rs)\<rparr>)
       (sequence_option (map (parse_clause lc dbg) clauses)))"

definition matches_expr :: "(string \<Rightarrow> string) \<Rightarrow> node \<Rightarrow> filter_expr \<Rightarrow> bool" where
  "matches_expr lc n e =
     (case e of
        FWildcard \<Rightarrow> True
      | FUnrecognized _ \<Rightarrow> True
      | FCodeIsPresent \<Rightarrow> n_code n \<noteq> None \<or> n_code_blocks n \<noteq> None
      | FPriorityIn values \<Rightarrow>
          (case n_priority n of None \<Rightarrow> False | Some p \<Rightarrow> lc (show_priority p) \<in> set values)
      | FTypeIn values \<Rightarrow> lc (show_node_type (n_type n)) \<in> set values
      | FExecutionStatusIn values \<Rightarrow>
          (case n_execution_status n of None \<Rightarrow> False | Some st \<Rightarrow> lc (show_execution_status st) \<in> set values)
      | FTagsIn values \<Rightarrow>
          (case n_tags n of None \<Rightarrow> False | Some tags \<Rightarrow> list_ex (\<lambda>v. v \<in> set tags) values))"

definition matches_filter :: "(string \<Rightarrow> string) \<Rightarrow> node \<Rightarrow> filter_set \<Rightarrow> bool" where
  "matches_filter lc n fs = list_all (matches_expr lc n) (fs_exprs fs)"

section \<open>Profiles\<close>

definition apply_debug_profile :: "relation_kind petgraph \<Rightarrow> agm_file \<Rightarrow> agm_file" where
  "apply_debug_profile pg file =
     (let graph = build_graph file;
          primary = map n_id (filter (\<lambda>n. n_execution_status n = Some Failed \<or> n_execution_status n = Some Blocked)
            (f_nodes file));
          selected = set primary \<union> (\<Union>i \<in> set primary. transitive_deps pg graph i) in
      \<lparr>f_header = f_header file,
       f_nodes = map (\<lambda>n. filter_node n LmExecutable) (filter (\<lambda>n. n_id n \<in> selected) (f_nodes file))\<rparr>)"

text \<open>The outer \<open>None\<close> is a panic while the filter is parsed; warnings go to standard error.\<close>

definition resolve_and_apply ::
  "relation_kind petgraph \<Rightarrow> (string \<Rightarrow> string) \<Rightarrow> (string \<Rightarrow> string) \<Rightarrow> agm_file \<Rightarrow> string option \<Rightarrow>
   (load_error + agm_file) option" where
  "resolve_and_apply pg lc dbg file profile_name =
     (case (case profile_name of Some p \<Rightarrow> Some p | None \<Rightarrow> h_default_load (f_header file)) of
        None \<Rightarrow> Some (Inr file)
      | Some effective \<Rightarrow>
          if eq_ignore_case effective ''debug'' then Some (Inr (apply_debug_profile pg file))
          else
            (case h_load_profiles (f_header file) of
               None \<Rightarrow> Some (Inl NoProfilesDefined)
             | Some profiles \<Rightarrow>
                 (case bt_get profiles effective of
                    None \<Rightarrow>
                      Some (Inl (if profile_name = None then DefaultProfileNotFound effective
                                 else UnknownProfile effective))
                  | Some profile \<Rightarrow>
                      map_option (\<lambda>fs. Inr
                        \<lparr>f_header = f_header file,
                         f_nodes = map (\<lambda>n. filter_node n LmOperational)
                           (filter (\<lambda>n. matches_filter lc n fs) (f_nodes file))\<rparr>)
                        (parse_filter lc dbg (lp_filter profile)))))"

definition load_profile_of ::
  "relation_kind petgraph \<Rightarrow> (string \<Rightarrow> string) \<Rightarrow> (string \<Rightarrow> string) \<Rightarrow> agm_file \<Rightarrow> string option \<Rightarrow>
   (load_error + agm_file) option" where
  "load_profile_of pg lc dbg file profile_name = resolve_and_apply pg lc dbg file profile_name"

section \<open>Lemmas\<close>

lemma filter_node_min: "filter_node (filter_node n m) m' = filter_node n (min m m')"
  by (simp add: filter_node_def Let_def included_in_min)

lemma filter_node_full: "filter_node n LmFull = n"
  by (simp add: filter_node_def Let_def included_in_def)

lemma filter_node_keeps [simp]: "n_id (filter_node n m) = n_id n" "n_depends (filter_node n m) = n_depends n"
  by (simp_all add: filter_node_def Let_def)

lemma to_lower_ascii: "byte c < 0x80 \<Longrightarrow> byte (to_lower c) < 0x80"
  by (simp add: to_lower_def is_upper_def byte_def)

lemma lower_length: "lower_ok lc \<Longrightarrow> is_ascii s \<Longrightarrow> length (lc s) = length s"
  by (simp add: lower_ok_def)

lemma str_find_bound: "str_find p s = Some i \<Longrightarrow> i + length p \<le> length s"
proof (induction s arbitrary: i)
  case (Cons c s)
  show ?case
  proof (cases "starts_with p (c # s)")
    case True
    then have "length p \<le> length (c # s)" unfolding starts_with_def by (metis length_take min.cobounded1)
    with True Cons.prems show ?thesis by simp
  next
    case False
    with Cons show ?thesis by auto
  qed
qed (simp split: if_splits)

lemma ascii_slice_ascii:
  assumes "is_ascii s" and "a \<le> b" and "b \<le> length s"
  shows "\<exists>p. str_slice s a b = Some p \<and> is_ascii p"
  using ascii_slice [OF assms] assms(1)
  by (auto simp: is_ascii_def list_all_iff dest: in_set_takeD in_set_dropD)

lemma scan_and_ascii:
  assumes "is_ascii s" and "length lower = length s" and "start \<le> i" and "i \<le> length s"
  shows "\<exists>ps. scan_and s lower start i = Some ps \<and> list_all is_ascii ps"
  using assms
proof (induction s lower start i rule: scan_and.induct)
  case (1 s lower start i)
  obtain p q where p: "str_slice s start i = Some p" "is_ascii p"
    and q: "str_slice s start (length s) = Some q" "is_ascii q"
    using ascii_slice_ascii [OF "1.prems"(1,3,4)] ascii_slice_ascii [OF "1.prems"(1), of start "length s"] "1.prems"
    by auto
  consider (stop) "length lower < i + 5" |
    (hit) "\<not> length lower < i + 5" "eq_ignore_case (take 5 (drop i lower)) '' and ''" |
    (miss) "\<not> length lower < i + 5" "\<not> eq_ignore_case (take 5 (drop i lower)) '' and ''" by blast
  then show ?case
  proof cases
    case stop
    then show ?thesis using q by (subst scan_and.simps) simp
  next
    case hit
    then obtain ps where "scan_and s lower (i + 5) (i + 5) = Some ps" "list_all is_ascii ps"
      using "1.IH"(1) [OF hit p(1)] "1.prems" by auto
    then show ?thesis using hit p by (subst scan_and.simps) simp
  next
    case miss
    then show ?thesis using "1.IH"(2) "1.prems" by (subst scan_and.simps) simp
  qed
qed

lemma trim_ascii: "is_ascii s \<Longrightarrow> is_ascii (trim s)"
  using set_trim [of s] by (auto simp: is_ascii_def list_all_iff)

lemma try_parse_ascii:
  assumes "lower_ok lc" and "is_ascii c"
  shows "try_parse_field_in lc c \<noteq> None"
proof (cases "str_find '' in ['' (lc c)")
  case (Some i)
  have i: "i + 5 \<le> length c"
    using str_find_bound [OF Some] lower_length [OF assms] by simp
  obtain p q where "str_slice c 0 i = Some p" "str_slice c (i + 5) (length c) = Some q"
    using ascii_slice_ascii [OF assms(2), of 0 i] ascii_slice_ascii [OF assms(2), of "i + 5" "length c"] i by auto
  then show ?thesis using Some by (simp add: try_parse_field_in_def Let_def split: option.split)
qed (simp add: try_parse_field_in_def)

lemma parse_clause_ascii:
  assumes "lower_ok lc" and "is_ascii c"
  shows "parse_clause lc dbg c \<noteq> None"
proof -
  obtain r where "try_parse_field_in lc (trim c) = Some r"
    using try_parse_ascii [OF assms(1) trim_ascii [OF assms(2)]] by blast
  then show ?thesis by (simp add: parse_clause_def Let_def)
qed

lemma sequence_option_some: "(\<And>x. x \<in> set xs \<Longrightarrow> x \<noteq> None) \<Longrightarrow> sequence_option xs \<noteq> None"
proof (induction xs)
  case (Cons x xs)
  then obtain y ys where "x = Some y" "sequence_option xs = Some ys" by fastforce
  then show ?case by simp
qed simp

section \<open>Properties\<close>

text \<open>The fields of a node in four groups, by the mode that first shows them.\<close>

definition summary_fields where
  "summary_fields (n :: node) =
     (n_id n, n_type n, n_summary n, n_priority n, n_stability n, n_depends n, n_tags n, n_span n)"

definition operational_fields where
  "operational_fields (n :: node) =
     (n_items n, n_steps n, n_fields n, n_input n, n_output n)"

definition executable_fields where
  "executable_fields (n :: node) =
     (n_code n, n_code_blocks n, n_verify n, n_agent_context n, n_target n, n_execution_status n,
      n_executed_by n, n_executed_at n, n_execution_log n, n_retry_count n, n_memory n)"

definition full_fields where
  "full_fields (n :: node) =
     (n_confidence n, n_status n, n_related_to n, n_replaces n, n_conflicts n, n_see_also n, n_detail n,
      n_rationale n, n_tradeoffs n, n_resolution n, n_examples n, n_notes n, n_parallel_groups n, n_scope n,
      n_applies_when n, n_valid_from n, n_valid_until n, n_aliases n, n_keywords n, n_title n,
      n_description n, n_action n, n_sdd_phase n, n_prompt n, n_assignee n, n_labels n, n_ticket_id n,
      n_extra_fields n)"

text \<open>The groups are all there is of a node.\<close>

lemma fields_determine:
  "summary_fields n = summary_fields n' \<Longrightarrow> operational_fields n = operational_fields n' \<Longrightarrow>
   executable_fields n = executable_fields n' \<Longrightarrow> full_fields n = full_fields n' \<Longrightarrow> n = n'"
  by (intro node.equality) (simp_all add: summary_fields_def operational_fields_def executable_fields_def full_fields_def)

definition shown_if :: "bool \<Rightarrow> node \<Rightarrow> node" where
  "shown_if b n = (if b then n else node_default)"

lemma filter_node_fields:
  "summary_fields (filter_node n m) = summary_fields n"
  "operational_fields (filter_node n m) = operational_fields (shown_if (LmOperational \<le> m) n)"
  "executable_fields (filter_node n m) = executable_fields (shown_if (LmExecutable \<le> m) n)"
  "full_fields (filter_node n m) = full_fields (shown_if (m = LmFull) n)"
  by (cases m; simp add: summary_fields_def operational_fields_def executable_fields_def full_fields_def filter_node_def
      included_in_def shown_if_def node_default_def Let_def less_eq_load_mode_def)+

text \<open>C33: Loading a file keeps its header, its nodes and their order, and shows of every node exactly the
fields of its mode: the summary fields always, the operational, executable and explanatory fields from
their mode on, and the others are as in a node that was never filled in. Loading in one mode and then
in another is loading in the smaller of the two, and the full mode changes nothing.\<close>

theorem load_modes_exact:
  "f_header (load file m) = f_header file \<and>
   map summary_fields (f_nodes (load file m)) = map summary_fields (f_nodes file) \<and>
   map operational_fields (f_nodes (load file m)) = map (\<lambda>n. operational_fields (shown_if (LmOperational \<le> m) n)) (f_nodes file) \<and>
   map executable_fields (f_nodes (load file m)) = map (\<lambda>n. executable_fields (shown_if (LmExecutable \<le> m) n)) (f_nodes file) \<and>
   map full_fields (f_nodes (load file m)) = map (\<lambda>n. full_fields (shown_if (m = LmFull) n)) (f_nodes file) \<and>
   load (load file m) m' = load file (min m m') \<and> load file LmFull = file"
  by (simp add: load_def filter_node_min filter_node_full filter_node_fields o_def)

text \<open>The debug profile selects, in file order and in executable mode, exactly the nodes that failed or
  are blocked and those a failed or blocked node depends on over any number of steps.\<close>

lemma debug_profile_exact:
  assumes "petgraph_ok pg"
  shows "f_nodes (apply_debug_profile pg file) = map (\<lambda>n. filter_node n LmExecutable)
    (filter (\<lambda>n. \<exists>p \<in> set (f_nodes file). n_execution_status p \<in> {Some Failed, Some Blocked} \<and>
        (n_id p, n_id n) \<in> (dep_rel file)\<^sup>*) (f_nodes file))"
proof -
  have deps: "transitive_deps pg (build_graph file) i = {j. (i, j) \<in> (dep_rel file)\<^sup>+ \<and> j \<noteq> i}" for i
    using transitive_deps_graph [OF assms build_graph_props(1) [of "file"]] by (simp add: build_graph_props(3))
  show ?thesis
    unfolding apply_debug_profile_def Let_def deps
    by (auto simp: rtrancl_eq_or_trancl image_iff intro!: arg_cong [where f = "map _"] filter_cong)
qed

text \<open>Reading a filter does not panic on ASCII text.\<close>

lemma filter_ascii_total:
  assumes "lower_ok lc" and "is_ascii s"
  shows "parse_filter lc dbg s \<noteq> None"
proof -
  obtain ps where "split_on_and lc s = Some ps" "list_all is_ascii ps"
    using scan_and_ascii [OF assms(2) lower_length [OF assms], of 0 0] by (auto simp: split_on_and_def)
  moreover from this have "sequence_option (map (parse_clause lc dbg) ps) \<noteq> None"
    using parse_clause_ascii [OF assms(1)] by (intro sequence_option_some) (auto simp: list_all_iff)
  ultimately show ?thesis by (simp add: parse_filter_def)
qed

text \<open>Twice the capital I with a dot above, and its lower case: three bytes for two.\<close>

definition dotted_filter :: string where
  "dotted_filter = [CHR 0xC4, CHR 0xB0, CHR 0xC4, CHR 0xB0] @ '' AND x''"

definition dotted_lower :: string where
  "dotted_lower = [CHR ''i'', CHR 0xCC, CHR 0x87, CHR ''i'', CHR 0xCC, CHR 0x87] @ '' and x''"

text \<open>The positions of the separator are looked up in the lower-case text but used in the original: a
  filter whose text grows in lower case panics.\<close>

lemma filter_lowercase_panics:
  assumes "lc dotted_filter = dotted_lower"
  shows "parse_filter lc dbg dotted_filter = None"
proof -
  have "scan_and dotted_filter dotted_lower 0 0 = None" by code_simp
  then show ?thesis using assms by (simp add: parse_filter_def split_on_and_def)
qed

section \<open>Instances\<close>

lemma debug_profile_exact_witness:
  "map n_id (f_nodes (apply_debug_profile pg_ref
     (sample_chain\<lparr>f_nodes := [sample_node ''a'' [], (sample_node ''b'' [])\<lparr>n_execution_status := Some Failed\<rparr>]\<rparr>))) =
     [''b'']"
proof -
  let ?f = "sample_chain\<lparr>f_nodes := [sample_node ''a'' [], (sample_node ''b'' [])\<lparr>n_execution_status := Some Failed\<rparr>]\<rparr>"
  have "dep_rel ?f = {}"
    by (auto simp: declared_def file_ids_def targets_of_def unwrap_list_def sample_simps)
  then show ?thesis
    using debug_profile_exact [OF pg_ref_ok, of ?f] by (simp add: sample_simps)
qed

lemma filter_ascii_total_witness: "parse_filter (map to_lower) (\<lambda>s. s) ''priority in [high] AND *'' \<noteq> None"
proof (rule filter_ascii_total)
  show "lower_ok (map to_lower)" by (rule lower_ok_ascii)
  show "is_ascii ''priority in [high] AND *''" by (simp add: is_ascii_def byte_def)
qed

lemma filter_lowercase_panics_witness:
  "\<exists>lc. lower_ok lc \<and> parse_filter lc (\<lambda>s. s) dotted_filter = None"
proof -
  let ?lc = "\<lambda>s. if s = dotted_filter then dotted_lower else map to_lower s"
  have "\<not> is_ascii dotted_filter" by (simp add: is_ascii_def dotted_filter_def byte_def)
  then have "lower_ok ?lc" by (auto simp: lower_ok_def)
  moreover have "?lc dotted_filter = dotted_lower" by simp
  ultimately show ?thesis using filter_lowercase_panics [of ?lc] by blast
qed

end
