(* ===== verification/Context.thy ===== *)
theory Context
  imports Host Loader Markdown
begin

text \<open>
  The context builder, \<open>crates/agm-cli/src/runtime/context.rs\<close>: the sections of the prompt an
  agent is given for a node, the excerpts of source files, and the token budget.
\<close>

section \<open>Sections\<close>

datatype context_source =
    SrcNode string load_mode
  | SrcFile string
  | SrcMemory string
  | SrcSystemHint

record context_section =
  cs_name :: string
  cs_content :: string
  cs_source :: context_source

record built_context =
  bc_prompt :: string
  bc_token_estimate :: nat
  bc_sections :: "context_section list"

definition single_node_file :: "agm_file \<Rightarrow> node \<Rightarrow> agm_file" where
  "single_node_file file n = \<lparr>f_header = f_header file, f_nodes = [n]\<rparr>"

definition strip_markdown_header :: "string \<Rightarrow> string" where
  "strip_markdown_header s =
     (case str_lines s of
        [] \<Rightarrow> s
      | first # rest \<Rightarrow>
          if starts_with ''# '' first then trim_start (join [nl] (dropWhile (\<lambda>l. trim l = []) rest))
          else s)"

text \<open>The section of a node in a mode, as the three loops over nodes write it.\<close>

definition node_section ::
  "(string \<Rightarrow> string) \<Rightarrow> agm_file \<Rightarrow> string \<Rightarrow> load_mode \<Rightarrow> node \<Rightarrow> string \<Rightarrow> context_section" where
  "node_section uc file prefix m n i =
     \<lparr>cs_name = prefix @ i,
      cs_content = strip_markdown_header (render_markdown uc (single_node_file file (filter_node n m))),
      cs_source = SrcNode i m\<rparr>"

text \<open>The loops skip identifiers that are not defined; the first node of that name is taken.\<close>

definition node_sections ::
  "(string \<Rightarrow> string) \<Rightarrow> agm_file \<Rightarrow> string \<Rightarrow> load_mode \<Rightarrow> string list \<Rightarrow> context_section list" where
  "node_sections uc file prefix m ids =
     List.map_filter (\<lambda>i. map_option (\<lambda>n. node_section uc file prefix m n i)
       (find (\<lambda>n. n_id n = i) (f_nodes file))) ids"

section \<open>Assembly and budget\<close>

definition assemble_section :: "context_section \<Rightarrow> string" where
  "assemble_section s =
     (case cs_source s of
        SrcSystemHint \<Rightarrow> cs_content s
      | SrcNode i _ \<Rightarrow> ''## Node: '' @ i @ [nl, nl] @ cs_content s
      | SrcFile path \<Rightarrow>
          ''## File: '' @ path @ [nl, nl] @ replicate 3 CHR 0x60 @ [nl] @ cs_content s @ [nl] @ replicate 3 CHR 0x60
      | SrcMemory topic \<Rightarrow> ''## Memory: '' @ topic @ [nl, nl] @ cs_content s)"

definition assemble_prompt :: "context_section list \<Rightarrow> string" where
  "assemble_prompt sections = join [nl, nl] (map assemble_section sections)"

definition estimate_tokens :: "string \<Rightarrow> nat" where
  "estimate_tokens s = length s div 4"

definition estimate_total_tokens :: "context_section list \<Rightarrow> nat" where
  "estimate_total_tokens sections = sum_list (map (\<lambda>s. length (cs_content s)) sections) div 4"

function truncate_to_budget :: "context_section list \<Rightarrow> nat \<Rightarrow> context_section list" where
  "truncate_to_budget sections budget =
     (if 1 < length sections \<and> budget < estimate_total_tokens sections
      then truncate_to_budget (butlast sections) budget
      else sections)"
  by pat_completeness auto
termination by (relation "measure (\<lambda>(s, b). length s)") auto

declare truncate_to_budget.simps [simp del]

definition built :: "context_section list \<Rightarrow> built_context" where
  "built sections =
     (let prompt = assemble_prompt sections in
      \<lparr>bc_prompt = prompt, bc_token_estimate = estimate_tokens prompt, bc_sections = sections\<rparr>)"

section \<open>Excerpts of files\<close>

definition extract_lines :: "string \<Rightarrow> 64 word \<Rightarrow> 64 word \<Rightarrow> string" where
  "extract_lines content start stop =
     join [nl] (map snd (filter (\<lambda>(i, _). let lineno = (of_nat (i + 1) :: 64 word) in
       start \<le> lineno \<and> lineno \<le> stop) (List.enumerate 0 (str_lines content))))"

definition not_found_comment :: "string \<Rightarrow> string" where
  "not_found_comment name = ''<!-- function '' @ sq name @ '' not found -->''"

text \<open>
  The brace that closes the first one: the position after it. The depth is an \<open>i32\<close>, here an
  integer.
\<close>

fun match_brace :: "int \<Rightarrow> nat \<Rightarrow> string \<Rightarrow> nat option" where
  "match_brace depth i [] = None"
| "match_brace depth i (c # s) =
     (if c = CHR ''{'' then match_brace (depth + 1) (Suc i) s
      else if c = CHR ''}'' then
        (if depth - 1 = 0 then Some (Suc i) else match_brace (depth - 1) (Suc i) s)
      else match_brace depth (Suc i) s)"

definition extract_brace_block :: "string \<Rightarrow> string \<Rightarrow> string option" where
  "extract_brace_block content pattern =
     Option.bind (str_find pattern content) (\<lambda>start_byte.
       (let line_start = (case rfind_char nl (take start_byte content) of Some p \<Rightarrow> p + 1 | None \<Rightarrow> 0) in
        Option.bind (str_find ''{'' (drop start_byte content)) (\<lambda>brace_offset.
          (let abs_brace = start_byte + brace_offset;
               end_byte = (case match_brace 0 0 (drop abs_brace content) of
                             Some i \<Rightarrow> abs_brace + i
                           | None \<Rightarrow> abs_brace) in
           Some (take (end_byte - line_start) (drop line_start content))))))"

definition extract_rust_function :: "string \<Rightarrow> string \<Rightarrow> string" where
  "extract_rust_function content name =
     (case extract_brace_block content (''fn '' @ name @ ''('') of
        Some b \<Rightarrow> b
      | None \<Rightarrow> not_found_comment name)"

definition char_ws :: "string \<Rightarrow> bool" where
  "char_ws c =
     (case c of [a] \<Rightarrow> ws1 a | [a, b] \<Rightarrow> ws2 a b | [a, b, d] \<Rightarrow> ws3 a b d | _ \<Rightarrow> False)"

definition indent_of :: "string \<Rightarrow> nat" where
  "indent_of l = length (takeWhile char_ws (str_chars l))"

definition python_body :: "nat \<Rightarrow> string list \<Rightarrow> string list" where
  "python_body base ls = takeWhile (\<lambda>l. trim l = [] \<or> base < indent_of l) ls"

definition extract_python_function :: "string \<Rightarrow> string \<Rightarrow> string" where
  "extract_python_function content name =
     (case str_find (''def '' @ name @ ''('') content of
        None \<Rightarrow> not_found_comment name
      | Some start_byte \<Rightarrow>
          (let start_line = length (str_lines (take start_byte content));
               ls = str_lines content in
           if length ls \<le> start_line then not_found_comment name
           else
             join [nl] (ls ! start_line #
               python_body (indent_of (ls ! start_line)) (drop (Suc start_line) ls))))"

definition extract_js_function :: "string \<Rightarrow> string \<Rightarrow> string" where
  "extract_js_function content name =
     (case List.map_filter (extract_brace_block content)
             [''function '' @ name @ ''('', ''const '' @ name @ '' ='', name @ ''(''] of
        b # _ \<Rightarrow> b
      | [] \<Rightarrow> not_found_comment name)"

definition extract_brace_function :: "string \<Rightarrow> string \<Rightarrow> string" where
  "extract_brace_function content name =
     (case extract_brace_block content (name @ ''('') of
        Some b \<Rightarrow> b
      | None \<Rightarrow> not_found_comment name)"

text \<open>\<open>Path::extension\<close>: of the last component that is neither empty nor a dot.\<close>

definition path_extension :: "string \<Rightarrow> string option" where
  "path_extension p =
     (case rev (filter (\<lambda>c. c \<noteq> [] \<and> c \<noteq> ''.'') (split_char CHR ''/'' p)) of
        [] \<Rightarrow> None
      | name # _ \<Rightarrow>
          if name = ''..'' then None
          else
            (case rfind_char CHR ''.'' name of
               None \<Rightarrow> None
             | Some i \<Rightarrow> if i = 0 then None else Some (drop (Suc i) name)))"

definition extract_function :: "string \<Rightarrow> string \<Rightarrow> string \<Rightarrow> string" where
  "extract_function content name path =
     (let ext = unwrap_or_default (path_extension path) in
      if ext = ''rs'' then extract_rust_function content name
      else if ext = ''py'' then extract_python_function content name
      else if ext \<in> {''js'', ''ts'', ''jsx'', ''tsx''} then extract_js_function content name
      else extract_brace_function content name)"

definition load_file_content ::
  "'x host \<Rightarrow> string \<Rightarrow> file_range \<Rightarrow> 'x world \<Rightarrow> string \<times> 'x world" where
  "load_file_content h path rng w =
     (let (r, w') = read_to_string h path w in
      (case r of
         Inl e \<Rightarrow> ''<!-- could not read '' @ path @ '': '' @ e @ '' -->''
       | Inr content \<Rightarrow>
           (case rng of
              RangeFull \<Rightarrow> content
            | RangeLines start stop \<Rightarrow> extract_lines content start stop
            | RangeFunction name \<Rightarrow> extract_function content name path), w'))"

fun file_sections :: "'x host \<Rightarrow> string \<Rightarrow> load_file list \<Rightarrow> 'x world \<Rightarrow> context_section list \<times> 'x world" where
  "file_sections h dir [] w = ([], w)"
| "file_sections h dir (lf # lfs) w =
     (let (content, w1) = load_file_content h (path_join dir (lf_path lf)) (lf_range lf) w;
          (rest, w2) = file_sections h dir lfs w1 in
      (\<lparr>cs_name = ''file:'' @ lf_path lf, cs_content = content, cs_source = SrcFile (lf_path lf)\<rparr> # rest, w2))"

definition load_memory_topics :: "'x env \<Rightarrow> string list \<Rightarrow> mem_runtime \<Rightarrow> context_section list" where
  "load_memory_topics env topics mr =
     List.map_filter (\<lambda>topic.
       (let entries = list_topic env topic mr in
        if entries = [] then None
        else Some
          \<lparr>cs_name = ''memory:'' @ topic,
           cs_content = join [nl] (map (\<lambda>(k, v). ''**'' @ k @ ''**: '' @ v) entries),
           cs_source = SrcMemory topic\<rparr>)) topics"

section \<open>Building the context\<close>

definition build_default_context :: "(string \<Rightarrow> string) \<Rightarrow> node \<Rightarrow> agm_file \<Rightarrow> built_context" where
  "build_default_context uc n file =
     built (node_section uc file ''node:'' LmFull n (n_id n) #
            node_sections uc file ''dep:'' LmOperational (unwrap_list (n_depends n)))"

definition build_explicit_context ::
  "'x host \<Rightarrow> relation_kind petgraph \<Rightarrow> node \<Rightarrow> agm_file \<Rightarrow> agm_graph \<Rightarrow> mem_runtime \<Rightarrow> string \<Rightarrow>
   agent_context \<Rightarrow> 'x world \<Rightarrow> built_context \<times> 'x world" where
  "build_explicit_context h pg n file graph mr dir ctx w =
     (let uc = h_upper h;
          hint = (case ac_system_hint ctx of
                    None \<Rightarrow> []
                  | Some s \<Rightarrow> [\<lparr>cs_name = ''system_hint'', cs_content = s, cs_source = SrcSystemHint\<rparr>]);
          target = node_section uc file ''node:'' LmFull n (n_id n);
          loaded = node_sections uc file ''load_node:'' LmOperational (unwrap_list (ac_load_nodes ctx));
          already_included = insert (n_id n) (set (unwrap_list (ac_load_nodes ctx)));
          sorted_deps = sorted_list_of_set (transitive_deps pg graph (n_id n) - already_included);
          deps = node_sections uc file ''dep:'' LmSummary sorted_deps;
          (files, w') = file_sections h dir (case ac_load_files ctx of Some lfs \<Rightarrow> lfs | None \<Rightarrow> []) w;
          mems = load_memory_topics (h_env h) (unwrap_list (ac_load_memory ctx)) mr;
          sections = hint @ [target] @ loaded @ deps @ files @ mems in
      (built (case ac_max_tokens ctx of
                Some t \<Rightarrow> truncate_to_budget sections (unat t)
              | None \<Rightarrow> sections), w'))"

definition build_context ::
  "'x host \<Rightarrow> relation_kind petgraph \<Rightarrow> node \<Rightarrow> agm_file \<Rightarrow> agm_graph \<Rightarrow> mem_runtime \<Rightarrow> string \<Rightarrow>
   'x world \<Rightarrow> built_context \<times> 'x world" where
  "build_context h pg n file graph mr dir w =
     (case n_agent_context n of
        Some ctx \<Rightarrow> build_explicit_context h pg n file graph mr dir ctx w
      | None \<Rightarrow> (build_default_context (h_upper h) n file, w))"

section \<open>Lemmas\<close>

lemma load_file_content_files [frame_simps, simp]: "w_files (snd (load_file_content h path rng w)) = w_files w"
  by (simp add: load_file_content_def Let_def case_prod_beta)

lemma file_sections_files [frame_simps, simp]: "w_files (snd (file_sections h dir lfs w)) = w_files w"
  by (induction lfs arbitrary: w) (simp_all add: Let_def case_prod_beta)

lemma build_context_files [frame_simps, simp]: "w_files (snd (build_context h pg n file graph mr dir w)) = w_files w"
  by (simp add: build_context_def build_explicit_context_def Let_def case_prod_beta split: option.split)

lemma built_sections [simp]: "bc_sections (built s) = s"
  by (simp add: built_def Let_def)

lemma file_sections_sources: "cs_source ` set (fst (file_sections h dir lfs w)) \<subseteq> range SrcFile"
  by (induction lfs arbitrary: w) (auto simp: Let_def case_prod_beta)

lemma memory_sections_sources: "cs_source ` set (load_memory_topics env topics mr) \<subseteq> range SrcMemory"
  by (auto simp: load_memory_topics_def List.map_filter_def Let_def split: if_splits)

lemma node_sections_sources:
  "cs_source ` set (node_sections uc file prefix m ids) = (\<lambda>i. SrcNode i m) ` (set ids \<inter> file_ids file)"
proof -
  have "(\<exists>n. find (\<lambda>n. n_id n = i) (f_nodes file) = Some n) \<longleftrightarrow>
      find (\<lambda>n. n_id n = i) (f_nodes file) \<noteq> None" for i
    by simp
  then have "(\<exists>n. find (\<lambda>n. n_id n = i) (f_nodes file) = Some n) \<longleftrightarrow> i \<in> file_ids file" for i
    unfolding find_None_iff by (auto simp: file_ids_def)
  note found = this
  have "x \<in> cs_source ` set (node_sections uc file prefix m ids) \<longleftrightarrow>
      (\<exists>i \<in> set ids. x = SrcNode i m \<and> (\<exists>n. find (\<lambda>n. n_id n = i) (f_nodes file) = Some n))" for x
    by (auto simp: node_sections_def List.map_filter_def node_section_def image_iff)
  then show ?thesis unfolding found by blast
qed

text \<open>The budget keeps the longest prefix that fits, and always the first section.\<close>

lemma truncate_prefix:
  "\<exists>k \<le> length s. truncate_to_budget s b = take k s \<and> (s \<noteq> [] \<longrightarrow> 1 \<le> k) \<and>
     (1 < k \<longrightarrow> estimate_total_tokens (take k s) \<le> b) \<and>
     (\<forall>j. k < j \<longrightarrow> j \<le> length s \<longrightarrow> b < estimate_total_tokens (take j s))"
proof (induction s b rule: truncate_to_budget.induct)
  case (1 s b)
  show ?case
  proof (cases "1 < length s \<and> b < estimate_total_tokens s")
    case True
    obtain k where k: "k \<le> length (butlast s)" "truncate_to_budget (butlast s) b = take k (butlast s)"
      "butlast s \<noteq> [] \<longrightarrow> 1 \<le> k" "1 < k \<longrightarrow> estimate_total_tokens (take k (butlast s)) \<le> b"
      "\<forall>j. k < j \<longrightarrow> j \<le> length (butlast s) \<longrightarrow> b < estimate_total_tokens (take j (butlast s))"
      using "1.IH" [OF True] by blast
    have tk: "take j (butlast s) = take j s" if "j \<le> length (butlast s)" for j
      using that by (simp add: butlast_conv_take)
    have "butlast s \<noteq> []" using True by (cases s rule: rev_cases) auto
    moreover have "b < estimate_total_tokens (take j s)" if "k < j" "j \<le> length s" for j
    proof (cases "j = length s")
      case False
      then have "j \<le> length (butlast s)" using that(2) by simp
      then show ?thesis using k(5) tk [of j] that(1) by metis
    qed (use True in simp)
    ultimately show ?thesis
      using k True tk [of k] by (intro exI [of _ k]) (simp add: truncate_to_budget.simps [of s])
  next
    case False
    then show ?thesis
      by (intro exI [of _ "length s"])
        (auto simp: truncate_to_budget.simps [of s] Suc_le_eq)
  qed
qed

section \<open>Properties\<close>

text \<open>C30: The token budget of a node cuts the context from its end: what is kept is the longest prefix of the
  sections whose estimate fits the budget, and the first section even if it does not fit.\<close>

theorem context_budget_exact:
  assumes "full = bc_sections (fst (build_explicit_context h pg n file graph mr dir (ctx\<lparr>ac_max_tokens := None\<rparr>) w))"
    and "kept = bc_sections (fst (build_explicit_context h pg n file graph mr dir (ctx\<lparr>ac_max_tokens := Some t\<rparr>) w))"
  shows "\<exists>k. 1 \<le> k \<and> k \<le> length full \<and> kept = take k full \<and>
    (k = 1 \<or> estimate_total_tokens kept \<le> unat t) \<and>
    (\<forall>j. k < j \<longrightarrow> j \<le> length full \<longrightarrow> unat t < estimate_total_tokens (take j full))"
proof -
  have "kept = truncate_to_budget full (unat t)" and "full \<noteq> []"
    using assms by (simp_all add: build_explicit_context_def Let_def case_prod_beta)
  with truncate_prefix [of full "unat t"] show ?thesis
    by (metis le_neq_implies_less)
qed

text \<open>C29: The nodes of a context, when no budget cuts it: the node itself in full; without a declared
  context its direct dependencies in operational mode; with one, the nodes it asks for in
  operational mode and all other nodes it depends on, over any number of steps, as summaries.
  No other node is shown, and undefined ones are skipped.\<close>

theorem context_nodes_exact:
  assumes "petgraph_ok pg"
    and "shown = cs_source ` set (bc_sections (fst (build_context h pg n file (build_graph file) mr dir w))) \<inter>
      range (case_prod SrcNode)"
  shows "(n_agent_context n = None \<longrightarrow>
      shown = insert (SrcNode (n_id n) LmFull)
        ((\<lambda>i. SrcNode i LmOperational) ` (set (unwrap_list (n_depends n)) \<inter> file_ids file))) \<and>
    (\<forall>ctx. n_agent_context n = Some ctx \<longrightarrow> ac_max_tokens ctx = None \<longrightarrow>
      shown = insert (SrcNode (n_id n) LmFull)
        ((\<lambda>i. SrcNode i LmOperational) ` (set (unwrap_list (ac_load_nodes ctx)) \<inter> file_ids file) \<union>
         (\<lambda>i. SrcNode i LmSummary) ` ({j. (n_id n, j) \<in> (dep_rel file)\<^sup>+} - {n_id n} -
            set (unwrap_list (ac_load_nodes ctx)))))"
proof -
  have nodes: "(\<lambda>i. SrcNode i m) ` A \<inter> range (case_prod SrcNode) = (\<lambda>i. SrcNode i m) ` A" for m A
    by auto
  have deps: "transitive_deps pg (build_graph file) i = {j. (i, j) \<in> (dep_rel file)\<^sup>+} - {i}" for i
    using transitive_deps_graph [OF assms(1) build_graph_props(1) [of "file"]] by (auto simp: build_graph_props(3))
  have "(i, j) \<in> (dep_rel file)\<^sup>+ \<Longrightarrow> j \<in> file_ids file" for i j
    by (auto simp: declared_def elim: tranclE)
  then have in_file: "{j. (i, j) \<in> (dep_rel file)\<^sup>+} \<subseteq> file_ids file" for i by blast
  moreover have "finite (file_ids file)" by (simp add: file_ids_def)
  ultimately have fin: "finite {j. (i, j) \<in> (dep_rel file)\<^sup>+}" for i by (rule finite_subset)
  have head: "cs_source (node_section uc file prefix m k i) = SrcNode i m" for uc prefix m k i
    by (simp add: node_section_def)
  show ?thesis
  proof (intro conjI allI impI)
    assume "n_agent_context n = None"
    then show "shown = insert (SrcNode (n_id n) LmFull)
        ((\<lambda>i. SrcNode i LmOperational) ` (set (unwrap_list (n_depends n)) \<inter> file_ids file))"
      unfolding assms(2) by (auto simp: build_context_def build_default_context_def head node_sections_sources)
  next
    fix ctx
    show "n_agent_context n = Some ctx \<Longrightarrow> ac_max_tokens ctx = None \<Longrightarrow> shown = insert (SrcNode (n_id n) LmFull)
        ((\<lambda>i. SrcNode i LmOperational) ` (set (unwrap_list (ac_load_nodes ctx)) \<inter> file_ids file) \<union>
         (\<lambda>i. SrcNode i LmSummary) ` ({j. (n_id n, j) \<in> (dep_rel file)\<^sup>+} - {n_id n} -
            set (unwrap_list (ac_load_nodes ctx))))"
    proof -
      assume ctx: "n_agent_context n = Some ctx" "ac_max_tokens ctx = None"
      let ?load = "set (unwrap_list (ac_load_nodes ctx))"
      let ?deps = "{j. (n_id n, j) \<in> (dep_rel file)\<^sup>+} - {n_id n} - ?load"
      let ?R = "range (case_prod SrcNode)"
      let ?F = "cs_source ` set (fst (file_sections h dir (case ac_load_files ctx of Some lfs \<Rightarrow> lfs | None \<Rightarrow> []) w))"
        and ?M = "cs_source ` set (load_memory_topics (h_env h) (unwrap_list (ac_load_memory ctx)) mr)"
        and ?H = "case ac_system_hint ctx of None \<Rightarrow> {} | Some s \<Rightarrow> {SrcSystemHint}"
      have sorted: "set (sorted_list_of_set ?deps) \<inter> file_ids file = {j. (n_id n, j) \<in> (dep_rel file)\<^sup>+} - {n_id n} - ?load"
        using fin [of "n_id n"] in_file [of "n_id n"] by auto
      have "cs_source ` set (bc_sections (fst (build_context h pg n file (build_graph file) mr dir w))) =
          ?H \<union> insert (SrcNode (n_id n) LmFull)
            ((\<lambda>i. SrcNode i LmOperational) ` (?load \<inter> file_ids file) \<union>
             (\<lambda>i. SrcNode i LmSummary) ` ({j. (n_id n, j) \<in> (dep_rel file)\<^sup>+} - {n_id n} - ?load)) \<union> ?F \<union> ?M"
        using ctx by (simp add: build_context_def build_explicit_context_def Let_def case_prod_beta deps head
            image_Un node_sections_sources sorted Un_assoc split: option.split)
      moreover have "?F \<inter> ?R = {}" and "?M \<inter> ?R = {}"
        using file_sections_sources [of h dir _ w] memory_sections_sources [of "h_env h" _ mr] by fastforce+
      moreover have "?H \<inter> ?R = {}" by (simp split: option.split) auto
      moreover have "SrcNode (n_id n) LmFull \<in> ?R" by (rule image_eqI [of _ _ "(n_id n, LmFull)"]) simp_all
      ultimately show ?thesis
        unfolding assms(2) by (simp only: Int_Un_distrib2 Int_insert_left nodes if_True Un_empty_left Un_empty_right)
    qed
  qed
qed

section \<open>Excerpts\<close>

text \<open>The braces opened and not closed in a text.\<close>

definition open_braces :: "string \<Rightarrow> int" where
  "open_braces s = int (count_list s CHR ''{'') - int (count_list s CHR ''}'')"

lemma open_braces_simps [simp]:
  "open_braces [] = 0"
  "open_braces (c # s) = (if c = CHR ''{'' then 1 else if c = CHR ''}'' then - 1 else 0) + open_braces s"
  by (simp_all add: open_braces_def)

lemma match_brace_balanced:
  assumes "match_brace d i s = Some j"
  shows "i < j \<and> j \<le> i + length s \<and> d + open_braces (take (j - i) s) = 0 \<and> s ! (j - i - 1) = CHR ''}'' \<and>
    (0 < d \<longrightarrow> (\<forall>k < j - i. 0 < d + open_braces (take k s)))"
  using assms
proof (induction s arbitrary: d i)
  case (Cons c s)
  show ?case
  proof (cases "c = CHR ''}'' \<and> d - 1 = 0")
    case True
    then have "j = Suc i" "d = 1" "c = CHR ''}''" using Cons.prems by simp_all
    then show ?thesis by simp
  next
    case False
    let ?d = "d + (if c = CHR ''{'' then 1 else if c = CHR ''}'' then - 1 else 0)"
    have "match_brace ?d (Suc i) s = Some j" using Cons.prems False by (auto split: if_splits)
    from Cons.IH [OF this] have IH: "Suc i < j" "j \<le> Suc i + length s"
      "?d + open_braces (take (j - Suc i) s) = 0" "s ! (j - Suc i - 1) = CHR ''}''"
      "0 < ?d \<longrightarrow> (\<forall>k < j - Suc i. 0 < ?d + open_braces (take k s))" by auto
    have j: "j - i = Suc (j - Suc i)" using IH(1) by simp
    have "0 < d + open_braces (take k (c # s))" if "0 < d" "k < j - i" for k
    proof (cases k)
      case (Suc k')
      have "0 < ?d" using False that(1) by auto
      then have "0 < ?d + open_braces (take k' s)" using IH(5) Suc that(2) j by simp
      then show ?thesis using Suc by simp
    qed (use that in simp)
    then show ?thesis
      using IH j by (auto simp: nth_Cons')
  qed
qed simp

lemma rfind_char_None: "rfind_char c s = None \<longleftrightarrow> c \<notin> set s"
proof -
  have "str_find [c] t = None \<longleftrightarrow> c \<notin> set t" for t by (induction t) auto
  then show ?thesis by (simp add: rfind_char_def)
qed

lemma str_find_charD: "str_find [c] s = Some i \<Longrightarrow> i < length s \<and> s ! i = c \<and> c \<notin> set (take i s)"
proof (induction s arbitrary: i)
  case (Cons a s)
  then show ?case by (cases "a = c") auto
qed simp

lemma rfind_charD: "rfind_char c s = Some i \<Longrightarrow> i < length s \<and> s ! i = c"
  by (auto simp: rfind_char_def rev_nth dest!: str_find_charD)

lemma last_take: "0 < n \<Longrightarrow> n \<le> length xs \<Longrightarrow> last (take n xs) = xs ! (n - 1)"
  by (subst last_conv_nth) auto

text \<open>The excerpt of a braced function starts at the beginning of a line and ends where the first brace
  after the pattern is closed: from that brace on the braces balance, and at no earlier point.
  When the brace is never closed the excerpt stops before it.\<close>

lemma brace_block_balanced:
  assumes "extract_brace_block content pattern = Some b"
  shows "\<exists>before after head body. content = before @ b @ after \<and> (before = [] \<or> last before = nl) \<and>
    b = head @ body \<and>
    (body = [] \<or>
     hd body = CHR ''{'' \<and> last body = CHR ''}'' \<and> open_braces body = 0 \<and>
     (\<forall>k. 0 < k \<longrightarrow> k < length body \<longrightarrow> 0 < open_braces (take k body)))"
proof -
  obtain start off where start: "str_find pattern content = Some start"
    and off: "str_find ''{'' (drop start content) = Some off"
    using assms by (auto simp: extract_brace_block_def bind_eq_Some_conv Let_def)
  define ls where "ls = (case rfind_char nl (take start content) of Some p \<Rightarrow> p + 1 | None \<Rightarrow> 0)"
  define br where "br = start + off"
  define e where "e = (case match_brace 0 0 (drop br content) of Some i \<Rightarrow> br + i | None \<Rightarrow> br)"
  have b: "b = take (e - ls) (drop ls content)"
    unfolding ls_def e_def br_def using assms start off by (simp add: extract_brace_block_def Let_def)
  have start_le: "start \<le> length content" using str_find_bound [OF start] by simp
  have off': "br < length content" "content ! br = CHR ''{''"
    using str_find_charD [OF off] by (auto simp: br_def)
  have ls: "ls \<le> start" "ls = 0 \<or> (0 < ls \<and> content ! (ls - 1) = nl)"
    using start_le by (auto simp: ls_def split: option.split dest!: rfind_charD)
  have "ls \<le> br" using ls(1) by (simp add: br_def)
  define rest where "rest = drop br content"
  have rest: "rest = CHR ''{'' # drop (Suc br) content"
    using off' by (simp add: rest_def Cons_nth_drop_Suc [symmetric])
  have head: "content = take ls content @ take (br - ls) (drop ls content) @ rest"
    using \<open>ls \<le> br\<close> unfolding rest_def
    by (metis append.assoc append_take_drop_id drop_drop le_add_diff_inverse2)
  have line: "take ls content = [] \<or> last (take ls content) = nl"
    using ls start_le by (auto simp: last_take)
  show ?thesis
  proof (cases "match_brace 0 0 rest")
    case None
    then have "b = take (br - ls) (drop ls content)" using b by (simp add: e_def rest_def)
    then show ?thesis using head line
      by (intro exI [of _ "take ls content"] exI [of _ rest] exI [of _ b] exI [of _ "[]"]) simp
  next
    case (Some i)
    then have m: "match_brace 1 1 (drop (Suc br) content) = Some i" using rest by simp
    note bal = match_brace_balanced [OF m]
    define body where "body = take i rest"
    have "e - ls = (br - ls) + i" using Some \<open>ls \<le> br\<close> by (simp add: e_def rest_def)
    then have "b = take (br - ls) (drop ls content) @ take i (drop (br - ls) (drop ls content))"
      unfolding b by (simp only: take_add)
    then have split: "b = take (br - ls) (drop ls content) @ body"
      using \<open>ls \<le> br\<close> by (simp add: body_def rest_def)
    have len: "i \<le> length rest" using bal rest by (cases i) auto
    have body: "body = CHR ''{'' # take (i - 1) (drop (Suc br) content)"
      using bal rest by (cases i) (simp_all add: body_def)
    have "last body = rest ! (i - 1)" using bal len by (simp add: body_def last_take)
    then have "last body = CHR ''}''" using bal by (cases i) (auto simp: rest nth_Cons')
    moreover have "open_braces body = 0" using bal body by simp
    moreover have "0 < open_braces (take k body)" if "0 < k" "k < length body" for k
    proof (cases k)
      case (Suc k')
      then have "k' < i - 1" using that(2) len by (simp add: body_def)
      then have "take k' (take (i - 1) (drop (Suc br) content)) = take k' (drop (Suc br) content)" by simp
      then show ?thesis using bal \<open>k' < i - 1\<close> Suc body by simp
    qed (use that in simp)
    moreover have "content = take ls content @ b @ drop i rest"
      using head split by (metis append.assoc append_take_drop_id body_def)
    ultimately show ?thesis
      using line split body
      by (intro exI [of _ "take ls content"] exI [of _ "drop i rest"]
          exI [of _ "take (br - ls) (drop ls content)"] exI [of _ body]) simp
  qed
qed

lemma str_lines_from: "nl \<notin> set l \<Longrightarrow> lines_from acc (l @ s) = lines_from (rev l @ acc) s"
  by (induction l arbitrary: acc) auto

lemma str_lines_unlines_append:
  "\<forall>l \<in> set ls. line_ok l \<Longrightarrow> str_lines (unlines ls @ s) = ls @ str_lines s"
  by (induction ls) (auto simp: str_lines_def line_ok_def lines_from_line chomp_cr_id)

text \<open>The excerpt of an indented Python function leaves its first line out: the lines before the match
  are counted with the indentation of the definition itself, so for a definition on line
  \<open>length prior + 1\<close> the excerpt starts with the line after it.\<close>

lemma python_excerpt_misses_head:
  assumes "content = unlines prior @ indent @ ''def '' @ name @ ''('' @ rest" and "\<forall>l \<in> set prior. line_ok l"
    and "indent \<noteq> []" and "line_ok indent"
    and "str_find (''def '' @ name @ ''('') content = Some (length (unlines prior @ indent))"
    and "Suc (length prior) < length (str_lines content)"
  shows "\<exists>more. extract_python_function content name = join [nl] (str_lines content ! Suc (length prior) # more)"
proof -
  have "str_lines (unlines prior @ indent) = prior @ [indent]"
    using str_lines_unlines_append [OF assms(2), of indent] str_lines_from [of indent "[]" "[]"] assms(3,4)
    by (simp add: str_lines_def line_ok_def)
  moreover have "take (length (unlines prior @ indent)) content = unlines prior @ indent"
    using assms(1) by simp
  ultimately show ?thesis
    using assms(5,6) by (auto simp: extract_python_function_def Let_def)
qed

section \<open>Instances\<close>

definition sample_class :: string where
  "sample_class = unlines [''class A:'', ''  def f(self):'', ''    return 1'']"

lemma python_excerpt_misses_head_witness:
  "\<exists>more. extract_python_function sample_class ''f'' = join [nl] (''    return 1'' # more)"
proof -
  have l: "str_lines sample_class = [''class A:'', ''  def f(self):'', ''    return 1'']"
    unfolding sample_class_def by (rule str_lines_unlines) (simp add: line_ok_def)
  have "\<exists>more. extract_python_function sample_class ''f'' = join [nl] (str_lines sample_class ! Suc (length [''class A:'']) # more)"
  proof (rule python_excerpt_misses_head)
    show "sample_class = unlines [''class A:''] @ ''  '' @ ''def '' @ ''f'' @ ''('' @ ''self):'' @ nl # ''    return 1'' @ [nl]"
      by (simp add: sample_class_def)
    show "str_find (''def '' @ ''f'' @ ''('') sample_class = Some (length (unlines [''class A:''] @ ''  ''))"
      by (simp add: sample_class_def)
  qed (simp_all add: l line_ok_def)
  then show ?thesis by (simp add: l)
qed

lemma brace_block_balanced_witness:
  "extract_brace_block ''fn f() { {} } g'' ''fn f('' = Some ''fn f() { {} }'' \<and>
   (\<exists>head body. ''fn f() { {} }'' = head @ body \<and> open_braces body = 0)"
proof -
  have e: "extract_brace_block ''fn f() { {} } g'' ''fn f('' = Some ''fn f() { {} }''"
    by (simp add: extract_brace_block_def rfind_char_def Let_def)
  show ?thesis using brace_block_balanced [OF e] e by fastforce
qed

definition sample_ctx :: agent_context where
  "sample_ctx = \<lparr>ac_load_nodes = None, ac_load_files = None, ac_system_hint = Some ''be brief'',
     ac_max_tokens = None, ac_load_memory = None\<rparr>"

lemma context_budget_exact_witness:
  "\<exists>k. 1 \<le> k \<and>
     bc_sections (fst (build_explicit_context sample_host pg_ref (sample_node ''a'' [''b'']) sample_chain
       (build_graph sample_chain) sample_runtime ''d'' (sample_ctx\<lparr>ac_max_tokens := Some 3\<rparr>) sample_world)) =
     take k (bc_sections (fst (build_explicit_context sample_host pg_ref (sample_node ''a'' [''b'']) sample_chain
       (build_graph sample_chain) sample_runtime ''d'' (sample_ctx\<lparr>ac_max_tokens := None\<rparr>) sample_world)))"
  using context_budget_exact [OF refl refl] by blast

lemma context_nodes_exact_witness:
  "cs_source ` set (bc_sections (fst (build_context sample_host pg_ref (sample_node ''a'' [''b'', ''z'']) sample_chain
     (build_graph sample_chain) sample_runtime ''d'' sample_world))) \<inter> range (case_prod SrcNode) =
   {SrcNode ''a'' LmFull, SrcNode ''b'' LmOperational}"
proof -
  have "n_agent_context (sample_node ''a'' [''b'', ''z'']) = None" "n_id (sample_node ''a'' [''b'', ''z'']) = ''a''"
    "set (unwrap_list (n_depends (sample_node ''a'' [''b'', ''z'']))) \<inter> file_ids sample_chain = {''b''}"
    by (auto simp: sample_simps unwrap_list_def file_ids_def)
  then show ?thesis using context_nodes_exact [OF pg_ref_ok refl, of "sample_node ''a'' [''b'', ''z'']" sample_host
      sample_chain sample_runtime "''d''" sample_world] by simp
qed

end
