(* ===== verification/Scheduler.thy ===== *)
theory Scheduler
  imports Verifier Context
begin

text \<open>
  The scheduler, \<open>crates/agm-cli/src/runtime/scheduler.rs\<close>: one node from its start to its
  saved result, parallel dispatch, the topological run and the run by orchestration groups.
  The agent (\<open>AgentBackend\<close>, \<open>runtime/agent.rs\<close>) is a parameter that may do anything to the
  world. A run loop that need not end is a partial function.
\<close>

section \<open>State and configuration\<close>

record agent_request =
  ar_node_id :: string
  ar_context :: string
  ar_code_blocks :: "code_block list"
  ar_working_dir :: string
  ar_timeout :: nat

record agent_response =
  as_success :: bool
  as_output :: string
  as_duration :: nat

text \<open>
  \<open>ag_order n\<close> is the order in which the effects of \<open>n\<close> threads take place; the execution of
  one request is atomic.
\<close>

record 'x agent =
  ag_name :: string
  ag_execute :: "agent_request \<Rightarrow> 'x world \<Rightarrow> agent_response res \<times> 'x world"
  ag_order :: "nat \<Rightarrow> nat list"

record run_config =
  rc_max_concurrency :: nat
  rc_timeout :: nat
  rc_dry_run :: bool
  rc_target_nodes :: "string list option"
  rc_target_group :: "string option"
  rc_working_dir :: string
  rc_fail_fast :: bool

definition run_config_default :: run_config where
  "run_config_default =
     \<lparr>rc_max_concurrency = 1, rc_timeout = 300 * 1000000000, rc_dry_run = False, rc_target_nodes = None,
      rc_target_group = None, rc_working_dir = ''.'', rc_fail_fast = False\<rparr>"

record node_result =
  nr_node_id :: string
  nr_status :: execution_status
  nr_agent :: string
  nr_duration :: nat
  nr_output :: "string option"

record run_report =
  rr_total_nodes :: nat
  rr_executed :: nat
  rr_succeeded :: nat
  rr_failed :: nat
  rr_skipped :: nat
  rr_blocked :: nat
  rr_duration :: nat
  rr_node_results :: "node_result list"

text \<open>What \<open>tracker\<close>, \<open>memory\<close> and the world are at some point of a run.\<close>

record 'x run_state =
  rs_tracker :: tracker
  rs_memory :: mem_runtime
  rs_world :: "'x world"

text \<open>What stays the same during a run.\<close>

record 'x run_env =
  re_host :: "'x host"
  re_pg :: "relation_kind petgraph"
  re_agent :: "'x agent"
  re_file :: agm_file
  re_graph :: agm_graph
  re_config :: run_config

abbreviation re_env :: "'x run_env \<Rightarrow> 'x env" where
  "re_env e \<equiv> h_env (re_host e)"

text \<open>Sequencing: the question mark after a step that changes the state.\<close>

definition st_bind ::
  "('s \<Rightarrow> 'a res \<times> 's) \<Rightarrow> ('a \<Rightarrow> 's \<Rightarrow> 'b res \<times> 's) \<Rightarrow> 's \<Rightarrow> 'b res \<times> 's" where
  "st_bind m f s = (case m s of (Inl e, s') \<Rightarrow> (Inl e, s') | (Inr a, s') \<Rightarrow> f a s')"

definition st_return :: "'a \<Rightarrow> 's \<Rightarrow> 'a res \<times> 's" where
  "st_return a s = (Inr a, s)"

lemma st_bind_Inr:
  "st_bind m f s = (Inr b, s') \<longleftrightarrow> (\<exists>a s1. m s = (Inr a, s1) \<and> f a s1 = (Inr b, s'))"
  by (auto simp: st_bind_def split: prod.splits sum.splits)

section \<open>Steps on the parts of the state\<close>

definition on_tracker ::
  "(tracker \<Rightarrow> 'x \<Rightarrow> tracker res \<times> 'x) \<Rightarrow> 'x run_state \<Rightarrow> unit res \<times> 'x run_state" where
  "on_tracker f s =
     (let (r, x) = f (rs_tracker s) (w_rest (rs_world s)); w = (rs_world s)\<lparr>w_rest := x\<rparr> in
      case r of
        Inl e \<Rightarrow> (Inl e, s\<lparr>rs_world := w\<rparr>)
      | Inr tr \<Rightarrow> (Inr (), s\<lparr>rs_tracker := tr, rs_world := w\<rparr>))"

definition do_transition ::
  "'x run_env \<Rightarrow> string \<Rightarrow> execution_status \<Rightarrow> 'x run_state \<Rightarrow> unit res \<times> 'x run_state" where
  "do_transition e i to = on_tracker (transition (re_env e) i to)"

definition do_save :: "'x run_env \<Rightarrow> 'x run_state \<Rightarrow> unit res \<times> 'x run_state" where
  "do_save e s = (let (r, w) = tracker_save (re_env e) (rs_tracker s) (rs_world s) in (r, s\<lparr>rs_world := w\<rparr>))"

definition do_flush :: "'x run_env \<Rightarrow> 'x run_state \<Rightarrow> unit res \<times> 'x run_state" where
  "do_flush e s =
     (let (r, mr, w) = flush (re_env e) (rs_memory s) (rs_world s) in
      (r, s\<lparr>rs_memory := mr, rs_world := w\<rparr>))"

text \<open>The entries of a node's \<open>memory\<close> field with one action; their results are ignored.\<close>

definition run_memory_actions ::
  "'x run_env \<Rightarrow> memory_action \<Rightarrow> node \<Rightarrow> 'x run_state \<Rightarrow> 'x run_state" where
  "run_memory_actions e action n s =
     fold (\<lambda>entry s.
       if me_action entry = action then
         (let (r, mr, x) = execute_action (re_env e) (n_id n) entry (rs_memory s) (w_rest (rs_world s)) in
          s\<lparr>rs_memory := mr, rs_world := (rs_world s)\<lparr>w_rest := x\<rparr>\<rparr>)
       else s) (unwrap_list (n_memory n)) s"

definition node_code_blocks :: "node \<Rightarrow> code_block list" where
  "node_code_blocks n =
     (case n_code n of None \<Rightarrow> [] | Some cb \<Rightarrow> [cb]) @ unwrap_list (n_code_blocks n)"

text \<open>A pending node is promoted before it starts.\<close>

definition start_node :: "'x run_env \<Rightarrow> string \<Rightarrow> 'x run_state \<Rightarrow> unit res \<times> 'x run_state" where
  "start_node e i s =
     (if map_option ns_execution_status (tracker_node_state (rs_tracker s) i) = Some Pending then
        st_bind (do_transition e i Ready) (\<lambda>_. do_transition e i InProgress) s
      else do_transition e i InProgress s)"

text \<open>From the start of a node to the request: status, reads of memory, context.\<close>

definition prepare_node ::
  "'x run_env \<Rightarrow> node \<Rightarrow> 'x run_state \<Rightarrow> agent_request res \<times> 'x run_state" where
  "prepare_node e n =
     st_bind (start_node e (n_id n)) (\<lambda>_ s.
       (let s1 = run_memory_actions e MaGet n s;
            (ctx, w) = build_context (re_host e) (re_pg e) n (re_file e) (re_graph e) (rs_memory s1)
              (rc_working_dir (re_config e)) (rs_world s1) in
        (Inr \<lparr>ar_node_id = n_id n, ar_context = bc_prompt ctx, ar_code_blocks = node_code_blocks n,
              ar_working_dir = rc_working_dir (re_config e), ar_timeout = rc_timeout (re_config e)\<rparr>,
         s1\<lparr>rs_world := w\<rparr>)))"

text \<open>The checks after the agent: the verdict and the output with the log.\<close>

definition verify_step ::
  "'x run_env \<Rightarrow> node \<Rightarrow> bool \<Rightarrow> string \<Rightarrow> 'x run_state \<Rightarrow> (bool \<times> string) \<times> 'x run_state" where
  "verify_step e n success output s =
     (if success \<and> n_verify n \<noteq> None then
        (let (r, w) = verify_node (re_host e) n (rs_tracker s) (rc_working_dir (re_config e))
               (rc_timeout (re_config e)) RunAll (rs_world s) in
         ((vr_all_passed r, output @ [nl] @ ''---'' @ [nl] @ format_verify_log r), s\<lparr>rs_world := w\<rparr>))
      else ((success, output), s))"

definition record_outcome ::
  "'x run_env \<Rightarrow> string \<Rightarrow> bool \<Rightarrow> string \<Rightarrow> 'x run_state \<Rightarrow> unit res \<times> 'x run_state" where
  "record_outcome e i success output =
     (if success then on_tracker (mark_completed (re_env e) i (ag_name (re_agent e)) (Some output))
      else
        st_bind (on_tracker (mark_failed (re_env e) i (ag_name (re_agent e)) (Some output)))
          (\<lambda>_. on_tracker (\<lambda>tr x. let ((tr', _), x') = propagate_blocked (re_pg e) (re_env e) i tr x in (Inr tr', x'))))"

text \<open>
  What follows the agent's answer: writes of memory, checks, status, clearing the node's
  memory, saving. The value is the final success with the output.
\<close>

definition finish_node ::
  "'x run_env \<Rightarrow> node \<Rightarrow> bool \<Rightarrow> string \<Rightarrow> 'x run_state \<Rightarrow> (bool \<times> string) res \<times> 'x run_state" where
  "finish_node e n success output s =
     (let s1 = (if success then run_memory_actions e MaUpsert n s else s);
          ((final, out), s2) = verify_step e n success output s1 in
      st_bind (record_outcome e (n_id n) final out) (\<lambda>_ s3.
        st_bind (do_save e) (\<lambda>_. st_bind (do_flush e) (\<lambda>_. st_return (final, out)))
          (s3\<lparr>rs_memory := clear_node_scope (n_id n) (rs_memory s3)\<rparr>)) s2)"

definition outcome_result :: "'x run_env \<Rightarrow> string \<Rightarrow> bool \<times> string \<Rightarrow> nat \<Rightarrow> node_result" where
  "outcome_result e i out d =
     \<lparr>nr_node_id = i, nr_status = (if fst out then Completed else Failed),
      nr_agent = ag_name (re_agent e), nr_duration = d, nr_output = Some (snd out)\<rparr>"

section \<open>One node\<close>

definition execute_node :: "'x run_env \<Rightarrow> node \<Rightarrow> 'x run_state \<Rightarrow> node_result res \<times> 'x run_state" where
  "execute_node e n s0 =
     (let (start, w0) = instant_now (re_host e) (rs_world s0) in
      st_bind (prepare_node e n) (\<lambda>request s.
        (let (answer, w) = ag_execute (re_agent e) request (rs_world s);
             (success, output) = (case answer of
                Inr response \<Rightarrow> (as_success response, as_output response)
              | Inl err \<Rightarrow> (False, ''Agent error: '' @ err)) in
         st_bind (finish_node e n success output) (\<lambda>out s'.
           (let (d, w') = elapsed (re_host e) start (rs_world s') in
            (Inr (outcome_result e (n_id n) out d), s'\<lparr>rs_world := w'\<rparr>)))
           (s\<lparr>rs_world := w\<rparr>))) (s0\<lparr>rs_world := w0\<rparr>))"

section \<open>Parallel dispatch\<close>

text \<open>Phase 1: the requests of a batch.\<close>

fun prepare_batch ::
  "'x run_env \<Rightarrow> string list \<Rightarrow> 'x run_state \<Rightarrow> (node \<times> agent_request) list res \<times> 'x run_state" where
  "prepare_batch e [] s = (Inr [], s)"
| "prepare_batch e (i # ids) s =
     (case node_map (re_file e) i of
        None \<Rightarrow> (Inl (''Node '' @ sq i @ '' not found in file''), s)
      | Some n \<Rightarrow>
          st_bind (prepare_node e n) (\<lambda>request.
            st_bind (prepare_batch e ids) (\<lambda>rest. st_return ((n, request) # rest))) s)"

text \<open>One thread: its response, with an error of the agent as a failure.\<close>

definition run_thread ::
  "'x run_env \<Rightarrow> agent_request \<Rightarrow> 'x world \<Rightarrow> agent_response \<times> 'x world" where
  "run_thread e request w =
     (let (start, w1) = instant_now (re_host e) w;
          (answer, w2) = ag_execute (re_agent e) request w1 in
      case answer of
        Inr response \<Rightarrow> (response, w2)
      | Inl err \<Rightarrow>
          (let (d, w3) = elapsed (re_host e) start w2 in
           (\<lparr>as_success = False, as_output = ''Agent error: '' @ err, as_duration = d\<rparr>, w3)))"

text \<open>Phase 2: the threads take effect in the agent's order, the responses come back in the order of
  the batch.\<close>

fun run_threads ::
  "'x run_env \<Rightarrow> (node \<times> agent_request) list \<Rightarrow> nat list \<Rightarrow> 'x world \<Rightarrow>
   (nat \<times> agent_response) list \<times> 'x world" where
  "run_threads e requests [] w = ([], w)"
| "run_threads e requests (k # ks) w =
     (let (response, w1) = run_thread e (snd (requests ! k)) w;
          (rest, w2) = run_threads e requests ks w1 in ((k, response) # rest, w2))"

definition no_response :: agent_response where
  "no_response = \<lparr>as_success = False, as_output = [], as_duration = 0\<rparr>"

definition run_batch ::
  "'x run_env \<Rightarrow> (node \<times> agent_request) list \<Rightarrow> 'x world \<Rightarrow> (node \<times> agent_response) list \<times> 'x world" where
  "run_batch e requests w =
     (let (responses, w') = run_threads e requests (ag_order (re_agent e) (length requests)) w in
      (map (\<lambda>k. (fst (requests ! k),
         case map_of responses k of Some r \<Rightarrow> r | None \<Rightarrow> no_response)) [0..<length requests], w'))"

text \<open>Phase 3: the results, in order.\<close>

fun finish_batch ::
  "'x run_env \<Rightarrow> (node \<times> agent_response) list \<Rightarrow> 'x run_state \<Rightarrow> node_result list res \<times> 'x run_state" where
  "finish_batch e [] s = (Inr [], s)"
| "finish_batch e ((n, response) # rs) s =
     st_bind (finish_node e n (as_success response) (as_output response)) (\<lambda>out.
       st_bind (finish_batch e rs) (\<lambda>rest.
         st_return (outcome_result e (n_id n) out (as_duration response) # rest))) s"

definition dispatch_parallel ::
  "'x run_env \<Rightarrow> string list \<Rightarrow> 'x run_state \<Rightarrow> node_result list res \<times> 'x run_state" where
  "dispatch_parallel e ids =
     st_bind (prepare_batch e ids) (\<lambda>requests s.
       (let (responses, w) = run_batch e requests (rs_world s) in
        finish_batch e responses (s\<lparr>rs_world := w\<rparr>)))"

section \<open>Reports\<close>

definition pick_topo_first :: "string list \<Rightarrow> string list \<Rightarrow> string" where
  "pick_topo_first candidates topo =
     (case find (\<lambda>i. i \<in> set candidates) topo of
        Some i \<Rightarrow> i
      | None \<Rightarrow> candidates ! 0)"

definition build_report ::
  "'x run_env \<Rightarrow> node_result list \<Rightarrow> nat \<Rightarrow> 'x run_state \<Rightarrow> run_report res \<times> 'x run_state" where
  "build_report e results start s =
     (let p = progress (rs_tracker s);
          (d, w) = elapsed (re_host e) start (rs_world s) in
      (Inr \<lparr>rr_total_nodes = ep_total p, rr_executed = length results,
            rr_succeeded = length (filter (\<lambda>r. nr_status r = Completed) results),
            rr_failed = length (filter (\<lambda>r. nr_status r = Failed) results),
            rr_skipped = ep_skipped p, rr_blocked = ep_blocked p, rr_duration = d,
            rr_node_results = results\<rparr>, s\<lparr>rs_world := w\<rparr>))"

definition dry_run_result :: "string \<Rightarrow> string \<Rightarrow> node_result" where
  "dry_run_result message i =
     \<lparr>nr_node_id = i, nr_status = Pending, nr_agent = ''(dry-run)'', nr_duration = 0, nr_output = Some message\<rparr>"

definition dry_report ::
  "'x run_env \<Rightarrow> node_result list \<Rightarrow> nat \<Rightarrow> 'x run_state \<Rightarrow> run_report res \<times> 'x run_state" where
  "dry_report e results start s =
     (let (d, w) = elapsed (re_host e) start (rs_world s) in
      (Inr \<lparr>rr_total_nodes = length results, rr_executed = 0, rr_succeeded = 0, rr_failed = 0,
            rr_skipped = length results, rr_blocked = 0, rr_duration = d, rr_node_results = results\<rparr>,
       s\<lparr>rs_world := w\<rparr>))"

definition build_dry_run_report ::
  "'x run_env \<Rightarrow> string list \<Rightarrow> string set option \<Rightarrow> nat \<Rightarrow> 'x run_state \<Rightarrow> run_report res \<times> 'x run_state" where
  "build_dry_run_report e topo execution_set =
     dry_report e (map (dry_run_result ''Dry-run: would execute'')
       (case execution_set of Some A \<Rightarrow> filter (\<lambda>i. i \<in> A) topo | None \<Rightarrow> topo))"

section \<open>The topological run\<close>

text \<open>
  The nodes of \<open>target_nodes\<close> and their unfinished dependencies.
\<close>

definition execution_set :: "'x run_env \<Rightarrow> tracker \<Rightarrow> string set option" where
  "execution_set e tr =
     map_option (\<lambda>targets.
       set targets \<union>
       {dep \<in> (\<Union>t \<in> set targets. transitive_deps (re_pg e) (re_graph e) t).
          case tracker_node_state tr dep of
            None \<Rightarrow> False
          | Some ns \<Rightarrow> \<not> done_status (ns_execution_status ns)})
       (rc_target_nodes (re_config e))"

definition candidates :: "'x run_env \<Rightarrow> string set option \<Rightarrow> tracker \<Rightarrow> string list" where
  "candidates e targets tr =
     filter (\<lambda>i. case targets of Some A \<Rightarrow> i \<in> A | None \<Rightarrow> True) (ready_nodes (re_pg e) tr)"

text \<open>One round of dispatch: the first candidate alone or a batch. \<open>None\<close> when it starts nothing
  because the candidate is not in the file.\<close>

definition dispatch_round ::
  "'x run_env \<Rightarrow> string list \<Rightarrow> string list \<Rightarrow> 'x run_state \<Rightarrow> (node_result list res \<times> 'x run_state) option" where
  "dispatch_round e topo cs s =
     (if rc_max_concurrency (re_config e) \<le> 1 then
        (case node_map (re_file e) (pick_topo_first cs topo) of
           None \<Rightarrow> None
         | Some n \<Rightarrow> Some (st_bind (execute_node e n) (\<lambda>r. st_return [r]) s))
      else Some (dispatch_parallel e (take (rc_max_concurrency (re_config e)) cs) s))"

partial_function (option) dispatch_loop ::
  "'x run_env \<Rightarrow> string list \<Rightarrow> string set option \<Rightarrow> node_result list \<Rightarrow> bool \<Rightarrow> 'x run_state \<Rightarrow>
   (node_result list res \<times> 'x run_state) option" where
  "dispatch_loop e topo targets results had_failure s =
     (let cs = candidates e targets (rs_tracker s) in
      if cs = [] then Some (Inr results, s)
      else
        (case dispatch_round e topo cs s of
           None \<Rightarrow> dispatch_loop e topo targets results had_failure s
         | Some (Inl err, s') \<Rightarrow> Some (Inl err, s')
         | Some (Inr rs, s') \<Rightarrow>
             (let failed = (had_failure \<or> list_ex (\<lambda>r. nr_status r = Failed) rs) in
              if failed \<and> rc_fail_fast (re_config e) then Some (Inr (results @ rs), s')
              else dispatch_loop e topo targets (results @ rs) failed s')))"

declare dispatch_loop.simps [code]

definition run_topological ::
  "'x host \<Rightarrow> relation_kind petgraph \<Rightarrow> 'x agent \<Rightarrow> agm_file \<Rightarrow> run_config \<Rightarrow> 'x run_state \<Rightarrow>
   (run_report res \<times> 'x run_state) option" where
  "run_topological h pg agent file cfg s0 =
     (let (start, w) = instant_now h (rs_world s0);
          s = s0\<lparr>rs_world := w\<rparr>;
          graph = build_graph file;
          e = \<lparr>re_host = h, re_pg = pg, re_agent = agent, re_file = file, re_graph = graph, re_config = cfg\<rparr> in
      case topological_sort pg graph of
        Inl err \<Rightarrow> Some (Inl (''Cycle detected in dependency graph: '' @ show_cycle_error err), s)
      | Inr topo \<Rightarrow>
          (let targets = execution_set e (rs_tracker s) in
           if rc_dry_run cfg then Some (build_dry_run_report e topo targets start s)
           else map_option (\<lambda>(r, s'). case r of
                  Inl err \<Rightarrow> (Inl err, s')
                | Inr results \<Rightarrow> build_report e results start s')
             (dispatch_loop e topo targets [] False s)))"

end
