(* ===== verification/Run_Effect.thy ===== *)
theory Run_Effect
  imports Scheduler
begin

text \<open>
  What the steps of the scheduler do to the statuses of the nodes. The abstract machine works on
  a map from node ids to statuses: a batch begins, then each of its nodes settles as completed or
  failed, a failure blocking the pending and ready nodes that depend on it. Both ways of dispatch
  refine it.
\<close>

section \<open>The abstract machine\<close>

type_synonym statuses = "string \<Rightarrow> execution_status option"

definition begun :: "string list \<Rightarrow> statuses \<Rightarrow> statuses" where
  "begun ids st = (\<lambda>j. if j \<in> set ids then Some InProgress else st j)"

definition settle :: "relation_kind petgraph \<Rightarrow> agm_graph \<Rightarrow> string \<times> bool \<Rightarrow> statuses \<Rightarrow> statuses" where
  "settle pg g = (\<lambda>(i, ok) st j.
     if j = i then Some (if ok then Completed else Failed)
     else if \<not> ok \<and> j \<in> transitive_dependents pg g i \<and> (st j = Some Pending \<or> st j = Some Ready)
     then Some Blocked else st j)"

definition outcome :: "node_result \<Rightarrow> string \<times> bool" where
  "outcome r = (nr_node_id r, nr_status r = Completed)"

text \<open>How a tracker changes: new statuses, the same graph, the map still sorted.\<close>

definition becomes :: "tracker \<Rightarrow> statuses \<Rightarrow> tracker \<Rightarrow> bool" where
  "becomes tr st tr' \<longleftrightarrow> status_of tr' = st \<and> tr_graph tr' = tr_graph tr \<and> tr_path tr' = tr_path tr \<and>
     (bt_ok (tr_nodes tr) \<longrightarrow> bt_ok (tr_nodes tr'))"

lemma becomes_refl [simp]: "becomes tr (status_of tr) tr"
  by (simp add: becomes_def)

lemma becomes_trans: "becomes tr st tr1 \<Longrightarrow> becomes tr1 st' tr2 \<Longrightarrow> becomes tr st' tr2"
  by (simp add: becomes_def)

lemma becomes_put:
  "becomes tr ((status_of tr)(i := Some (ns_execution_status ns))) (touch now (put_node i ns tr))"
  by (auto simp: becomes_def status_of_def fun_eq_iff)

lemma st_return_Inr [simp]: "st_return a s = (Inr b, s') \<longleftrightarrow> b = a \<and> s' = s"
  by (auto simp: st_return_def)

section \<open>Steps\<close>

lemma on_tracker_Inr:
  "on_tracker f s = (Inr u, s') \<longleftrightarrow>
     (\<exists>tr x. f (rs_tracker s) (w_rest (rs_world s)) = (Inr tr, x) \<and>
       s' = s\<lparr>rs_tracker := tr, rs_world := (rs_world s)\<lparr>w_rest := x\<rparr>\<rparr>)"
  by (auto simp: on_tracker_def Let_def split: prod.splits sum.splits)

lemma do_transition_Inr:
  assumes "do_transition e i to s = (Inr u, s')"
  shows "\<exists>a. status_of (rs_tracker s) i = Some a \<and> allowed a to"
    and "becomes (rs_tracker s) ((status_of (rs_tracker s))(i := Some to)) (rs_tracker s')"
proof -
  obtain tr x where t: "transition (re_env e) i to (rs_tracker s) (w_rest (rs_world s)) = (Inr tr, x)"
    and tr: "rs_tracker s' = tr"
    using assms by (auto simp: do_transition_def on_tracker_Inr)
  from transition_Inr [OF t] obtain ns now where ns: "bt_get (tr_nodes (rs_tracker s)) i = Some ns"
    "allowed (ns_execution_status ns) to" "tr = touch now (put_node i (ns\<lparr>ns_execution_status := to\<rparr>) (rs_tracker s))"
    by blast
  show "\<exists>a. status_of (rs_tracker s) i = Some a \<and> allowed a to" using ns by (simp add: status_of_def)
  show "becomes (rs_tracker s) ((status_of (rs_tracker s))(i := Some to)) (rs_tracker s')"
    using becomes_put [of "rs_tracker s" i "ns\<lparr>ns_execution_status := to\<rparr>" now] ns tr by simp
qed

lemma do_save_tracker [simp]: "rs_tracker (snd (do_save e s)) = rs_tracker s"
  by (simp add: do_save_def split: prod.split)

lemma do_flush_tracker [simp]: "rs_tracker (snd (do_flush e s)) = rs_tracker s"
  by (simp add: do_flush_def split: prod.split)

lemma run_memory_actions_tracker [simp]: "rs_tracker (run_memory_actions e action n s) = rs_tracker s"
proof -
  have "rs_tracker (fold (\<lambda>entry s. if me_action entry = action
      then (let (r, mr, x) = execute_action (re_env e) (n_id n) entry (rs_memory s) (w_rest (rs_world s)) in
          s\<lparr>rs_memory := mr, rs_world := (rs_world s)\<lparr>w_rest := x\<rparr>\<rparr>) else s) xs s) = rs_tracker s" for xs
    by (induction xs arbitrary: s) (auto split: prod.split)
  then show ?thesis by (simp add: run_memory_actions_def)
qed

lemma start_node_Inr:
  assumes "start_node e i s = (Inr u, s')"
  shows "status_of (rs_tracker s) i = Some Pending \<or> status_of (rs_tracker s) i = Some Ready"
    and "becomes (rs_tracker s) (begun [i] (status_of (rs_tracker s))) (rs_tracker s')"
proof -
  have st: "map_option ns_execution_status (tracker_node_state (rs_tracker s) i) = status_of (rs_tracker s) i"
    by (simp add: status_of_def tracker_node_state_def)
  have ready: "a = Ready" if "allowed a InProgress" for a using that by (cases a) auto
  have upd: "begun [i] st = st(i := Some InProgress)" for st by (auto simp: begun_def)
  show "status_of (rs_tracker s) i = Some Pending \<or> status_of (rs_tracker s) i = Some Ready"
    and "becomes (rs_tracker s) (begun [i] (status_of (rs_tracker s))) (rs_tracker s')"
  proof (atomize (full), cases "status_of (rs_tracker s) i = Some Pending")
    case True
    then obtain s1 where t1: "do_transition e i Ready s = (Inr (), s1)" and t2: "do_transition e i InProgress s1 = (Inr u, s')"
      using assms by (auto simp: start_node_def st st_bind_Inr)
    show "(status_of (rs_tracker s) i = Some Pending \<or> status_of (rs_tracker s) i = Some Ready) \<and>
      becomes (rs_tracker s) (begun [i] (status_of (rs_tracker s))) (rs_tracker s')"
      using True do_transition_Inr(2) [OF t1] do_transition_Inr(2) [OF t2] unfolding upd
      by (simp add: becomes_def)
  next
    case False
    then have t: "do_transition e i InProgress s = (Inr u, s')" using assms by (simp add: start_node_def st)
    show "(status_of (rs_tracker s) i = Some Pending \<or> status_of (rs_tracker s) i = Some Ready) \<and>
      becomes (rs_tracker s) (begun [i] (status_of (rs_tracker s))) (rs_tracker s')"
      using do_transition_Inr [OF t] ready unfolding upd by auto
  qed
qed

lemma prepare_node_Inr:
  assumes "prepare_node e n s = (Inr request, s')"
  shows "status_of (rs_tracker s) (n_id n) = Some Pending \<or> status_of (rs_tracker s) (n_id n) = Some Ready"
    and "becomes (rs_tracker s) (begun [n_id n] (status_of (rs_tracker s))) (rs_tracker s')"
proof -
  obtain s1 where start: "start_node e (n_id n) s = (Inr (), s1)" and "rs_tracker s' = rs_tracker s1"
    using assms by (auto simp: prepare_node_def st_bind_Inr Let_def case_prod_beta)
  then show "status_of (rs_tracker s) (n_id n) = Some Pending \<or> status_of (rs_tracker s) (n_id n) = Some Ready"
    and "becomes (rs_tracker s) (begun [n_id n] (status_of (rs_tracker s))) (rs_tracker s')"
    using start_node_Inr [OF start] by simp_all
qed

lemma verify_step_tracker: "verify_step e n success output s = (r, s') \<Longrightarrow> rs_tracker s' = rs_tracker s"
  by (auto simp: verify_step_def split: if_splits prod.splits)

lemma mark_becomes:
  assumes "mark to env i agent log tr x = (Inr tr', x')"
  shows "\<exists>a. status_of tr i = Some a \<and> allowed a to" and "becomes tr ((status_of tr)(i := Some to)) tr'"
proof -
  obtain ns now1 now2 where m: "bt_get (tr_nodes tr) i = Some ns" "allowed (ns_execution_status ns) to"
    "tr' = touch now2 (put_node i (ns\<lparr>ns_execution_status := to, ns_executed_by := Some agent,
      ns_executed_at := Some now1, ns_execution_log := log\<rparr>) tr)"
    using mark_Inr [OF assms] by blast
  show "\<exists>a. status_of tr i = Some a \<and> allowed a to" using m by (simp add: status_of_def)
  show "becomes tr ((status_of tr)(i := Some to)) tr'"
    unfolding m(3) using becomes_put [of tr i "ns\<lparr>ns_execution_status := to, ns_executed_by := Some agent,
      ns_executed_at := Some now1, ns_execution_log := log\<rparr>" now2] by simp
qed

lemma propagate_becomes:
  assumes "hash_order_ok env" and "propagate_blocked pg env i tr x = ((tr', newly), x')"
  shows "becomes tr (\<lambda>j. if j \<in> transitive_dependents pg (tr_graph tr) i \<and>
      (status_of tr j = Some Pending \<or> status_of tr j = Some Ready) then Some Blocked else status_of tr j) tr'"
proof -
  note eff = propagate_blocked_effect [OF assms]
  have "status_of tr' j = (if j \<in> transitive_dependents pg (tr_graph tr) i \<and>
      (status_of tr j = Some Pending \<or> status_of tr j = Some Ready) then Some Blocked else status_of tr j)" for j
    unfolding status_of_def eff(1) [of j]
    by (cases "bt_get (tr_nodes tr) j") (auto simp: block_state_def blockable_def)
  then show ?thesis using eff(4,5,6) by (simp add: becomes_def fun_eq_iff)
qed

lemma record_outcome_Inr:
  assumes "hash_order_ok (re_env e)" and "record_outcome e i ok output s = (Inr u, s')"
  shows "status_of (rs_tracker s) i = Some InProgress"
    and "becomes (rs_tracker s) (settle (re_pg e) (tr_graph (rs_tracker s)) (i, ok) (status_of (rs_tracker s)))
      (rs_tracker s')"
proof -
  have progress: "a = InProgress" if "allowed a Completed \<or> allowed a Failed" for a using that by (cases a) auto
  show "status_of (rs_tracker s) i = Some InProgress"
    and "becomes (rs_tracker s) (settle (re_pg e) (tr_graph (rs_tracker s)) (i, ok) (status_of (rs_tracker s)))
      (rs_tracker s')"
  proof (atomize (full), cases ok)
    case True
    then obtain x where m: "mark Completed (re_env e) i (ag_name (re_agent e)) (Some output) (rs_tracker s)
        (w_rest (rs_world s)) = (Inr (rs_tracker s'), x)"
      using assms(2) by (auto simp: record_outcome_def on_tracker_Inr mark_completed_def)
    have "settle pg g (i, True) st = st(i := Some Completed)" for pg g st by (auto simp: settle_def)
    then show "status_of (rs_tracker s) i = Some InProgress \<and>
      becomes (rs_tracker s) (settle (re_pg e) (tr_graph (rs_tracker s)) (i, ok) (status_of (rs_tracker s))) (rs_tracker s')"
      using mark_becomes [OF m] progress True by auto
  next
    case False
    then obtain tr1 x where m: "mark Failed (re_env e) i (ag_name (re_agent e)) (Some output) (rs_tracker s)
        (w_rest (rs_world s)) = (Inr tr1, x)"
      and tr': "rs_tracker s' = fst (fst (propagate_blocked (re_pg e) (re_env e) i tr1 x))"
      using assms(2) by (auto simp: record_outcome_def st_bind_Inr on_tracker_Inr mark_failed_def case_prod_beta)
    obtain newly x2 where p: "propagate_blocked (re_pg e) (re_env e) i tr1 x = ((rs_tracker s', newly), x2)"
      unfolding tr' by (metis prod.collapse)
    note b = mark_becomes [OF m] propagate_becomes [OF assms(1) p]
    have "becomes (rs_tracker s) (settle (re_pg e) (tr_graph (rs_tracker s)) (i, False) (status_of (rs_tracker s))) (rs_tracker s')"
      using b(2,3) by (auto simp: becomes_def settle_def fun_eq_iff)
    then show "status_of (rs_tracker s) i = Some InProgress \<and>
      becomes (rs_tracker s) (settle (re_pg e) (tr_graph (rs_tracker s)) (i, ok) (status_of (rs_tracker s))) (rs_tracker s')"
      using b(1) progress False by auto
  qed
qed

lemma finish_node_Inr:
  assumes "hash_order_ok (re_env e)" and "finish_node e n success output s = (Inr out, s')"
  shows "status_of (rs_tracker s) (n_id n) = Some InProgress"
    and "becomes (rs_tracker s)
      (settle (re_pg e) (tr_graph (rs_tracker s)) (n_id n, fst out) (status_of (rs_tracker s))) (rs_tracker s')"
proof -
  obtain final log s2 where v: "verify_step e n success output
      (if success then run_memory_actions e MaUpsert n s else s) = ((final, log), s2)" by (metis prod.collapse)
  then have tr: "rs_tracker s2 = rs_tracker s" using verify_step_tracker by fastforce
  obtain s3 s4 s5 where r: "record_outcome e (n_id n) final log s2 = (Inr (), s3)"
    and sv: "do_save e (s3\<lparr>rs_memory := clear_node_scope (n_id n) (rs_memory s3)\<rparr>) = (Inr (), s4)"
    and fl: "do_flush e s4 = (Inr (), s5)" and out: "out = (final, log)" "s' = s5"
    using assms(2) v by (auto simp: finish_node_def Let_def st_bind_Inr)
  have "rs_tracker s' = rs_tracker s3"
    using do_save_tracker [of e "s3\<lparr>rs_memory := clear_node_scope (n_id n) (rs_memory s3)\<rparr>"]
      do_flush_tracker [of e s4] sv fl out by simp
  then show "status_of (rs_tracker s) (n_id n) = Some InProgress"
    and "becomes (rs_tracker s)
      (settle (re_pg e) (tr_graph (rs_tracker s)) (n_id n, fst out) (status_of (rs_tracker s))) (rs_tracker s')"
    using record_outcome_Inr [OF assms(1) r] tr out by simp_all
qed

section \<open>Rounds\<close>

text \<open>A round over \<open>ids\<close> with results \<open>rs\<close>.\<close>

definition round_effect ::
  "relation_kind petgraph \<Rightarrow> string list \<Rightarrow> node_result list \<Rightarrow> tracker \<Rightarrow> tracker \<Rightarrow> bool" where
  "round_effect pg ids rs tr tr' \<longleftrightarrow>
     map nr_node_id rs = ids \<and> distinct ids \<and>
     (\<forall>r \<in> set rs. nr_status r = Completed \<or> nr_status r = Failed) \<and>
     (\<forall>i \<in> set ids. status_of tr i = Some Pending \<or> status_of tr i = Some Ready) \<and>
     becomes tr (fold (settle pg (tr_graph tr)) (map outcome rs) (begun ids (status_of tr))) tr'"

lemma outcome_result_simps [simp]:
  "nr_node_id (outcome_result e i out d) = i"
  "nr_status (outcome_result e i out d) = (if fst out then Completed else Failed)"
  by (simp_all add: outcome_result_def)

lemma execute_node_effect:
  assumes "hash_order_ok (re_env e)" and "execute_node e n s = (Inr r, s')"
  shows "round_effect (re_pg e) [n_id n] [r] (rs_tracker s) (rs_tracker s')"
proof -
  obtain w0 request s1 success log w1 out s2 d where
    p: "prepare_node e n (s\<lparr>rs_world := w0\<rparr>) = (Inr request, s1)"
    and f: "finish_node e n success log (s1\<lparr>rs_world := w1\<rparr>) = (Inr out, s2)"
    and r: "r = outcome_result e (n_id n) out d" and s': "rs_tracker s' = rs_tracker s2"
    using assms(2) unfolding execute_node_def st_bind_Inr case_prod_beta Let_def by auto
  note p = prepare_node_Inr [OF p] and f = finish_node_Inr [OF assms(1) f]
  have "settle pg g (outcome r) = settle pg g (n_id n, fst out)" for pg g
    by (simp add: r outcome_def)
  then show ?thesis
    using p f by (auto simp: round_effect_def r s' becomes_def)
qed

lemma begun_Cons: "begun (i # ids) st = begun ids (begun [i] st)"
  by (auto simp: begun_def)

lemma prepare_batch_Inr:
  "prepare_batch e ids s = (Inr requests, s') \<Longrightarrow>
     map (\<lambda>q. n_id (fst q)) requests = ids \<and> distinct ids \<and>
     (\<forall>i \<in> set ids. status_of (rs_tracker s) i = Some Pending \<or> status_of (rs_tracker s) i = Some Ready) \<and>
     becomes (rs_tracker s) (begun ids (status_of (rs_tracker s))) (rs_tracker s')"
proof (induction e ids s arbitrary: requests rule: prepare_batch.induct)
  case (1 e s)
  have "begun [] st = st" for st by (simp add: begun_def)
  then show ?case using "1.prems" by simp
next
  case (2 e i ids s)
  from "2.prems" obtain n request s1 rest where n: "node_map (re_file e) i = Some n"
    and p: "prepare_node e n s = (Inr request, s1)" and b: "prepare_batch e ids s1 = (Inr rest, s')"
    and req: "requests = (n, request) # rest"
    by (auto simp: st_bind_Inr split: option.splits)
  have i: "n_id n = i" using node_map_Some_id [OF n] by simp
  note p = prepare_node_Inr [OF p, unfolded i]
  then have st1: "status_of (rs_tracker s1) = begun [i] (status_of (rs_tracker s))" by (simp add: becomes_def)
  from "2.IH" [OF n b] have IH: "map (\<lambda>q. n_id (fst q)) rest = ids" "distinct ids"
    "\<And>j. j \<in> set ids \<Longrightarrow> status_of (rs_tracker s1) j = Some Pending \<or> status_of (rs_tracker s1) j = Some Ready"
    "becomes (rs_tracker s1) (begun ids (status_of (rs_tracker s1))) (rs_tracker s')" by blast+
  have new: "i \<notin> set ids" using IH(3) [of i] by (auto simp: st1 begun_def)
  have "status_of (rs_tracker s) j = Some Pending \<or> status_of (rs_tracker s) j = Some Ready" if "j \<in> set ids" for j
    using IH(3) [OF that] new that by (auto simp: st1 begun_def split: if_splits)
  moreover have "becomes (rs_tracker s) (begun (i # ids) (status_of (rs_tracker s))) (rs_tracker s')"
    unfolding begun_Cons [of i ids] st1 [symmetric] by (rule becomes_trans [OF p(2) IH(4)])
  ultimately show ?case using req i IH(1,2) new p(1) by auto
qed

lemma run_batch_nodes: "run_batch e requests w = (responses, w') \<Longrightarrow> map fst responses = map fst requests"
  by (rule nth_equalityI) (auto simp: run_batch_def Let_def split: prod.splits)

lemma finish_batch_Inr:
  assumes "hash_order_ok (re_env e)"
  shows "finish_batch e responses s = (Inr rs, s') \<Longrightarrow>
     map nr_node_id rs = map (\<lambda>q. n_id (fst q)) responses \<and>
     (\<forall>r \<in> set rs. nr_status r = Completed \<or> nr_status r = Failed) \<and>
     becomes (rs_tracker s) (fold (settle (re_pg e) (tr_graph (rs_tracker s))) (map outcome rs) (status_of (rs_tracker s)))
       (rs_tracker s')"
  using assms
proof (induction e responses s arbitrary: rs rule: finish_batch.induct)
  case (2 e n response responses s)
  from "2.prems"(1) obtain out s1 rest where f: "finish_node e n (as_success response) (as_output response) s = (Inr out, s1)"
    and b: "finish_batch e responses s1 = (Inr rest, s')"
    and rs: "rs = outcome_result e (n_id n) out (as_duration response) # rest"
    by (auto simp: st_bind_Inr)
  note f = f finish_node_Inr [OF "2.prems"(2) f]
  have st1: "status_of (rs_tracker s1) = settle (re_pg e) (tr_graph (rs_tracker s)) (n_id n, fst out) (status_of (rs_tracker s))"
    "tr_graph (rs_tracker s1) = tr_graph (rs_tracker s)"
    using f(3) by (simp_all add: becomes_def)
  from "2.IH" [OF b "2.prems"(2)] f(3) show ?case
    unfolding st1 by (auto simp: rs outcome_def intro: becomes_trans)
qed auto

lemma dispatch_parallel_effect:
  assumes "hash_order_ok (re_env e)" and "dispatch_parallel e ids s = (Inr rs, s')"
  shows "round_effect (re_pg e) ids rs (rs_tracker s) (rs_tracker s')"
proof -
  obtain requests s1 where p: "prepare_batch e ids s = (Inr requests, s1)"
    and f: "finish_batch e (fst (run_batch e requests (rs_world s1)))
      (s1\<lparr>rs_world := snd (run_batch e requests (rs_world s1))\<rparr>) = (Inr rs, s')"
    using assms(2) by (auto simp: dispatch_parallel_def st_bind_Inr Let_def case_prod_beta)
  have "map fst (fst (run_batch e requests (rs_world s1))) = map fst requests"
    by (rule run_batch_nodes) (rule prod.collapse [symmetric])
  then have ids: "map (\<lambda>q. n_id (fst q)) (fst (run_batch e requests (rs_world s1))) = map (\<lambda>q. n_id (fst q)) requests"
    by (simp flip: list.map_comp [unfolded comp_def, of n_id fst])
  from prepare_batch_Inr [OF p] finish_batch_Inr [OF assms(1) f] show ?thesis
    by (auto simp: round_effect_def ids becomes_def)
qed

text \<open>What a round leaves: its nodes are settled, the others keep their status or are blocked.\<close>

lemma settle_fold_status:
  assumes "distinct (map nr_node_id rs)"
    and "\<forall>i \<in> set (map nr_node_id rs). st i = Some InProgress"
    and "\<forall>r \<in> set rs. nr_status r = Completed \<or> nr_status r = Failed"
  shows "r \<in> set rs \<Longrightarrow> fold (settle pg g) (map outcome rs) st (nr_node_id r) = Some (nr_status r)"
    and "j \<notin> set (map nr_node_id rs) \<Longrightarrow> fold (settle pg g) (map outcome rs) st j =
      (if (st j = Some Pending \<or> st j = Some Ready) \<and>
         (\<exists>r \<in> set rs. nr_status r = Failed \<and> j \<in> transitive_dependents pg g (nr_node_id r))
       then Some Blocked else st j)"
proof -
  have "(\<forall>r \<in> set rs. fold (settle pg g) (map outcome rs) st (nr_node_id r) = Some (nr_status r)) \<and>
    (\<forall>j. j \<notin> set (map nr_node_id rs) \<longrightarrow> fold (settle pg g) (map outcome rs) st j =
      (if (st j = Some Pending \<or> st j = Some Ready) \<and>
         (\<exists>r \<in> set rs. nr_status r = Failed \<and> j \<in> transitive_dependents pg g (nr_node_id r))
       then Some Blocked else st j))"
    using assms
  proof (induction rs arbitrary: st)
    case (Cons r rs)
    let ?st = "settle pg g (outcome r) st"
    have pend: "?st i = st i" if "i \<in> set (map nr_node_id rs)" for i
    proof -
      have "i \<noteq> nr_node_id r" using Cons.prems(1) that by force
      then show ?thesis using Cons.prems(2) that by (auto simp: settle_def outcome_def)
    qed
    have "\<forall>i \<in> set (map nr_node_id rs). ?st i = Some InProgress"
      using pend Cons.prems(2) by auto
    with Cons.IH [of ?st] Cons.prems(1,3) have IH:
      "\<And>r. r \<in> set rs \<Longrightarrow> fold (settle pg g) (map outcome rs) ?st (nr_node_id r) = Some (nr_status r)"
      "\<And>j. j \<notin> set (map nr_node_id rs) \<Longrightarrow> fold (settle pg g) (map outcome rs) ?st j =
        (if (?st j = Some Pending \<or> ?st j = Some Ready) \<and>
           (\<exists>r \<in> set rs. nr_status r = Failed \<and> j \<in> transitive_dependents pg g (nr_node_id r))
         then Some Blocked else ?st j)"
      by auto
    have r: "?st (nr_node_id r) = Some (nr_status r)" "nr_node_id r \<notin> set (map nr_node_id rs)"
      using Cons.prems(1,3) by (auto simp: settle_def outcome_def)
    have other: "j \<noteq> nr_node_id r \<Longrightarrow> ?st j =
        (if (st j = Some Pending \<or> st j = Some Ready) \<and> nr_status r = Failed \<and>
           j \<in> transitive_dependents pg g (nr_node_id r) then Some Blocked else st j)" for j
      using Cons.prems(3) by (auto simp: settle_def outcome_def)
    have "nr_status r \<noteq> Pending" "nr_status r \<noteq> Ready" using Cons.prems(3) by auto
    then have "fold (settle pg g) (map outcome rs) ?st (nr_node_id r) = Some (nr_status r)"
      using IH(2) [OF r(2)] r(1) by simp
    moreover have "fold (settle pg g) (map outcome rs) ?st j =
        (if (st j = Some Pending \<or> st j = Some Ready) \<and>
           (\<exists>r' \<in> set (r # rs). nr_status r' = Failed \<and> j \<in> transitive_dependents pg g (nr_node_id r'))
         then Some Blocked else st j)" if "j \<notin> set (map nr_node_id (r # rs))" for j
      using IH(2) [of j] other [of j] that by auto
    ultimately show ?case using IH(1) by simp
  qed simp
  then show "r \<in> set rs \<Longrightarrow> fold (settle pg g) (map outcome rs) st (nr_node_id r) = Some (nr_status r)"
    and "j \<notin> set (map nr_node_id rs) \<Longrightarrow> fold (settle pg g) (map outcome rs) st j =
      (if (st j = Some Pending \<or> st j = Some Ready) \<and>
         (\<exists>r \<in> set rs. nr_status r = Failed \<and> j \<in> transitive_dependents pg g (nr_node_id r))
       then Some Blocked else st j)"
    by blast+
qed

lemma round_effect_status:
  assumes "round_effect pg ids rs tr tr'"
  shows "r \<in> set rs \<Longrightarrow> status_of tr' (nr_node_id r) = Some (nr_status r)"
    and "j \<notin> set ids \<Longrightarrow> status_of tr' j =
      (if (status_of tr j = Some Pending \<or> status_of tr j = Some Ready) \<and>
         (\<exists>r \<in> set rs. nr_status r = Failed \<and> j \<in> transitive_dependents pg (tr_graph tr) (nr_node_id r))
       then Some Blocked else status_of tr j)"
proof -
  have st: "status_of tr' = fold (settle pg (tr_graph tr)) (map outcome rs) (begun ids (status_of tr))"
    and ids: "ids = map nr_node_id rs" and d: "distinct (map nr_node_id rs)"
    and ok: "\<forall>r \<in> set rs. nr_status r = Completed \<or> nr_status r = Failed"
    using assms by (auto simp: round_effect_def becomes_def)
  have begun: "\<forall>i \<in> set (map nr_node_id rs). begun ids (status_of tr) i = Some InProgress"
    by (simp add: begun_def ids)
  note fold_st = settle_fold_status [where st = "begun ids (status_of tr)" and pg = pg and g = "tr_graph tr", OF d begun ok]
  show "r \<in> set rs \<Longrightarrow> status_of tr' (nr_node_id r) = Some (nr_status r)"
    unfolding st by (rule fold_st(1))
  show "j \<notin> set ids \<Longrightarrow> status_of tr' j =
      (if (status_of tr j = Some Pending \<or> status_of tr j = Some Ready) \<and>
         (\<exists>r \<in> set rs. nr_status r = Failed \<and> j \<in> transitive_dependents pg (tr_graph tr) (nr_node_id r))
       then Some Blocked else status_of tr j)"
  proof -
    assume j: "j \<notin> set ids"
    then have out: "begun ids (status_of tr) j = status_of tr j" by (simp add: begun_def)
    have "j \<notin> set (map nr_node_id rs)" using j by (simp only: ids not_False_eq_True)
    from fold_st(2) [OF this] show ?thesis unfolding st out .
  qed
qed

section \<open>Progress\<close>

text \<open>When no write fails, a step on nodes that may run returns a result.\<close>

definition io_ok :: "'x env \<Rightarrow> bool" where
  "io_ok env \<longleftrightarrow> (\<forall>x. fst (env_fault env x) = IoOk \<and> \<not> fst (env_dir_fault env x))"

lemma st_bind_run: "m s = (Inr a, s1) \<Longrightarrow> st_bind m f s = f a s1"
  by (simp add: st_bind_def)

lemma do_save_ok: "io_ok (re_env e) \<Longrightarrow> \<exists>s'. do_save e s = (Inr (), s')"
  by (simp add: io_ok_def do_save_def tracker_save_def save_state_def replace_file_def case_prod_beta Let_def)

lemma atomic_write_mem_ok: "io_ok env \<Longrightarrow> fst (atomic_write_mem env path mem w) = Inr ()"
  by (simp add: io_ok_def atomic_write_mem_def atomic_write_def replace_file_def case_prod_beta Let_def)

lemma ensure_global_dir_ok: "io_ok env \<Longrightarrow> fst (ensure_global_dir env path w) = Inr ()"
  by (simp add: io_ok_def ensure_global_dir_def case_prod_beta Let_def split: option.split)

lemma do_flush_ok: "io_ok (re_env e) \<Longrightarrow> \<exists>s'. do_flush e s = (Inr (), s')"
  by (simp add: do_flush_def flush_def case_prod_beta Let_def atomic_write_mem_ok ensure_global_dir_ok)

lemma do_transition_ok:
  assumes "status_of (rs_tracker s) i = Some a" and "allowed a to"
  shows "\<exists>s'. do_transition e i to s = (Inr (), s')"
proof -
  obtain ns where "bt_get (tr_nodes (rs_tracker s)) i = Some ns" "ns_execution_status ns = a"
    using assms(1) by (auto simp: status_of_def)
  then obtain tr x where "transition (re_env e) i to (rs_tracker s) (w_rest (rs_world s)) = (Inr tr, x)"
    using transition_ok [of "rs_tracker s" i ns to "re_env e" "w_rest (rs_world s)"] assms(2) by auto
  then show ?thesis by (simp add: do_transition_def on_tracker_def Let_def)
qed

lemma start_node_ok:
  assumes "status_of (rs_tracker s) i = Some Pending \<or> status_of (rs_tracker s) i = Some Ready"
  shows "\<exists>s'. start_node e i s = (Inr (), s')"
proof -
  have st: "map_option ns_execution_status (tracker_node_state (rs_tracker s) i) = status_of (rs_tracker s) i"
    by (simp add: status_of_def tracker_node_state_def)
  show ?thesis
  proof (cases "status_of (rs_tracker s) i = Some Pending")
    case True
    obtain s1 where t: "do_transition e i Ready s = (Inr (), s1)"
      using do_transition_ok [OF True, of Ready e] by auto
    then have "status_of (rs_tracker s1) i = Some Ready"
      using do_transition_Inr(2) [OF t] by (simp add: becomes_def)
    then show ?thesis
      using do_transition_ok [of s1 i Ready InProgress e] t True by (simp add: start_node_def st st_bind_run)
  next
    case False
    then show ?thesis
      using do_transition_ok [of s i Ready InProgress e] assms by (simp add: start_node_def st)
  qed
qed

lemma prepare_node_ok:
  assumes "status_of (rs_tracker s) (n_id n) = Some Pending \<or> status_of (rs_tracker s) (n_id n) = Some Ready"
  shows "\<exists>request s'. prepare_node e n s = (Inr request, s')"
  using start_node_ok [OF assms, of e] by (auto simp: prepare_node_def st_bind_run Let_def case_prod_beta)

lemma record_outcome_ok:
  assumes "status_of (rs_tracker s) i = Some InProgress"
  shows "\<exists>s'. record_outcome e i ok output s = (Inr (), s')"
proof -
  obtain ns where ns: "bt_get (tr_nodes (rs_tracker s)) i = Some ns" "ns_execution_status ns = InProgress"
    using assms by (auto simp: status_of_def)
  have mark: "\<exists>tr x. mark to (re_env e) i (ag_name (re_agent e)) (Some output) (rs_tracker s) (w_rest (rs_world s)) = (Inr tr, x)"
    if "to = Completed \<or> to = Failed" for to
    using mark_ok [OF ns(1), of to] ns(2) that by auto
  have block: "\<exists>s'. on_tracker (\<lambda>tr x. let ((tr', _), x') = propagate_blocked (re_pg e) (re_env e) i tr x in (Inr tr', x')) s1
      = (Inr (), s')" for s1 :: "'a run_state"
    by (simp add: on_tracker_def Let_def case_prod_beta)
  show ?thesis
  proof (cases ok)
    case True
    then show ?thesis using mark [of Completed] by (auto simp: record_outcome_def on_tracker_def mark_completed_def Let_def)
  next
    case False
    obtain tr x where "mark Failed (re_env e) i (ag_name (re_agent e)) (Some output) (rs_tracker s) (w_rest (rs_world s)) = (Inr tr, x)"
      using mark [of Failed] by blast
    then have "\<exists>s1. on_tracker (mark_failed (re_env e) i (ag_name (re_agent e)) (Some output)) s = (Inr (), s1)"
      by (simp add: on_tracker_def mark_failed_def Let_def)
    then show ?thesis using False block by (auto simp: record_outcome_def st_bind_run)
  qed
qed

lemma finish_node_ok:
  assumes "io_ok (re_env e)" and "status_of (rs_tracker s) (n_id n) = Some InProgress"
  shows "\<exists>out s'. finish_node e n success output s = (Inr out, s')"
proof -
  obtain final log s2 where v: "verify_step e n success output
      (if success then run_memory_actions e MaUpsert n s else s) = ((final, log), s2)" by (metis prod.collapse)
  then have "status_of (rs_tracker s2) (n_id n) = Some InProgress"
    using verify_step_tracker [OF v] assms(2) by simp
  then obtain s3 where r: "record_outcome e (n_id n) final log s2 = (Inr (), s3)"
    using record_outcome_ok [of s2 "n_id n" e] by blast
  obtain s4 where sv: "do_save e (s3\<lparr>rs_memory := clear_node_scope (n_id n) (rs_memory s3)\<rparr>) = (Inr (), s4)"
    using do_save_ok [OF assms(1)] by blast
  obtain s5 where "do_flush e s4 = (Inr (), s5)" using do_flush_ok [OF assms(1)] by blast
  then show ?thesis using v r sv by (simp add: finish_node_def Let_def st_bind_run st_return_def)
qed

lemma execute_node_ok:
  assumes "io_ok (re_env e)"
    and "status_of (rs_tracker s) (n_id n) = Some Pending \<or> status_of (rs_tracker s) (n_id n) = Some Ready"
  shows "\<exists>r s'. execute_node e n s = (Inr r, s')"
proof -
  obtain start w0 where w0: "instant_now (re_host e) (rs_world s) = (start, w0)" by force
  obtain request s1 where p: "prepare_node e n (s\<lparr>rs_world := w0\<rparr>) = (Inr request, s1)"
    using prepare_node_ok [of "s\<lparr>rs_world := w0\<rparr>" n e] assms(2) by auto
  then have "status_of (rs_tracker s1) (n_id n) = Some InProgress"
    using prepare_node_Inr(2) [OF p] by (simp add: becomes_def begun_def)
  then have "\<exists>out s'. finish_node e n success log (s1\<lparr>rs_world := w1\<rparr>) = (Inr out, s')" for success log w1
    by (intro finish_node_ok [OF assms(1)]) simp
  then obtain out s2 where "finish_node e n (fst (case fst (ag_execute (re_agent e) request (rs_world s1)) of
      Inr response \<Rightarrow> (as_success response, as_output response) | Inl err \<Rightarrow> (False, ''Agent error: '' @ err)))
      (snd (case fst (ag_execute (re_agent e) request (rs_world s1)) of
      Inr response \<Rightarrow> (as_success response, as_output response) | Inl err \<Rightarrow> (False, ''Agent error: '' @ err)))
      (s1\<lparr>rs_world := snd (ag_execute (re_agent e) request (rs_world s1))\<rparr>) = (Inr out, s2)" by blast
  then show ?thesis using w0 p unfolding execute_node_def Let_def case_prod_beta by (simp add: st_bind_run)
qed

lemma node_map_ids: "node_map file i \<noteq> None \<longleftrightarrow> i \<in> file_ids file"
  by (force simp: node_map_def file_ids_def map_of_eq_None_iff image_image)

lemma prepare_batch_ok:
  "distinct ids \<Longrightarrow> set ids \<subseteq> file_ids (re_file e) \<Longrightarrow>
   \<forall>i \<in> set ids. status_of (rs_tracker s) i = Some Pending \<or> status_of (rs_tracker s) i = Some Ready \<Longrightarrow>
   \<exists>requests s'. prepare_batch e ids s = (Inr requests, s')"
proof (induction e ids s rule: prepare_batch.induct)
  case (2 e i ids s)
  obtain n where n: "node_map (re_file e) i = Some n" using "2.prems"(2) node_map_ids [of "re_file e" i] by auto
  then have i: "n_id n = i" using node_map_Some_id by blast
  obtain request s1 where p: "prepare_node e n s = (Inr request, s1)"
    using prepare_node_ok [of s n e] "2.prems"(3) i by auto
  have "\<forall>j \<in> set ids. status_of (rs_tracker s1) j = Some Pending \<or> status_of (rs_tracker s1) j = Some Ready"
    using prepare_node_Inr(2) [OF p] "2.prems"(1,3) by (auto simp: becomes_def begun_def i)
  then have "\<exists>requests s'. prepare_batch e ids s1 = (Inr requests, s')"
    using "2.IH" [OF n, of s1] "2.prems"(1,2) by simp
  then show ?case using n p by (auto simp: st_bind_run st_return_def)
qed simp

lemma finish_batch_ok:
  assumes "io_ok (re_env e)" and "hash_order_ok (re_env e)"
  shows "distinct (map (\<lambda>q. n_id (fst q)) responses) \<Longrightarrow>
    \<forall>q \<in> set responses. status_of (rs_tracker s) (n_id (fst q)) = Some InProgress \<Longrightarrow>
    \<exists>rs s'. finish_batch e responses s = (Inr rs, s')"
  using assms
proof (induction e responses s rule: finish_batch.induct)
  case (2 e n response responses s)
  obtain out s1 where f: "finish_node e n (as_success response) (as_output response) s = (Inr out, s1)"
    using finish_node_ok [OF "2.prems"(3), of s n] "2.prems"(2) by (metis fst_conv list.set_intros(1))
  have "n_id (fst q) \<noteq> n_id n" if "q \<in> set responses" for q using "2.prems"(1) that by force
  then have "\<forall>q \<in> set responses. status_of (rs_tracker s1) (n_id (fst q)) = Some InProgress"
    using finish_node_Inr(2) [OF "2.prems"(4) f] "2.prems"(2) by (simp add: becomes_def settle_def)
  then have "\<exists>rs s'. finish_batch e responses s1 = (Inr rs, s')"
    using "2.IH" [of s1] "2.prems"(1,3,4) by simp
  then show ?case using f by (auto simp: st_bind_run st_return_def)
qed simp

lemma dispatch_parallel_ok:
  assumes "io_ok (re_env e)" and "hash_order_ok (re_env e)" and "distinct ids" and "set ids \<subseteq> file_ids (re_file e)"
    and "\<forall>i \<in> set ids. status_of (rs_tracker s) i = Some Pending \<or> status_of (rs_tracker s) i = Some Ready"
  shows "\<exists>rs s'. dispatch_parallel e ids s = (Inr rs, s')"
proof -
  obtain requests s1 where p: "prepare_batch e ids s = (Inr requests, s1)"
    using prepare_batch_ok [OF assms(3-5)] by blast
  obtain responses w where r: "run_batch e requests (rs_world s1) = (responses, w)" by force
  have "map (\<lambda>q. n_id (fst q)) responses = map n_id (map fst responses)" by simp
  also have "\<dots> = ids" using run_batch_nodes [OF r] prepare_batch_Inr [OF p] by (simp add: comp_def)
  finally have ids: "map (\<lambda>q. n_id (fst q)) responses = ids" .
  have "status_of (rs_tracker s1) i = Some InProgress" if "i \<in> set ids" for i
    using prepare_batch_Inr [OF p] that by (simp add: becomes_def begun_def)
  then have "\<forall>q \<in> set responses. status_of (rs_tracker (s1\<lparr>rs_world := w\<rparr>)) (n_id (fst q)) = Some InProgress"
    using ids by fastforce
  then show ?thesis
    using finish_batch_ok [OF assms(1,2), of responses "s1\<lparr>rs_world := w\<rparr>"] ids assms(3) p r
    by (simp add: dispatch_parallel_def st_bind_run)
qed

end
