(* ===== verification/Run_Loop.thy ===== *)
theory Run_Loop
  imports Run_Effect
begin

text \<open>
  The dispatch loop of \<open>run_topological\<close>, \<open>crates/agm-cli/src/runtime/scheduler.rs\<close>: what one
  round of either way of dispatch promises is an interface, and what the loop does follows from it.
\<close>

section \<open>The interface of a round\<close>

text \<open>
  \<open>dispatch e cs s\<close> runs some of the candidates \<open>cs\<close>; the round has the effect of the abstract
  machine on the nodes it chose.
\<close>

locale dispatcher =
  fixes dispatch :: "'x run_env \<Rightarrow> string list \<Rightarrow> 'x run_state \<Rightarrow> (node_result list res \<times> 'x run_state) option"
    and mode :: "'x run_env \<Rightarrow> bool"
  assumes dispatch_effect:
    "mode e \<Longrightarrow> hash_order_ok (re_env e) \<Longrightarrow> cs \<noteq> [] \<Longrightarrow> dispatch e cs s = Some (Inr rs, s') \<Longrightarrow>
       \<exists>ids. ids \<noteq> [] \<and> set ids \<subseteq> set cs \<and> round_effect (re_pg e) ids rs (rs_tracker s) (rs_tracker s')"
    and dispatch_ends:
    "mode e \<Longrightarrow> set cs \<subseteq> file_ids (re_file e) \<Longrightarrow> cs \<noteq> [] \<Longrightarrow> dispatch e cs s \<noteq> None"
    and dispatch_ok:
    "mode e \<Longrightarrow> io_ok (re_env e) \<Longrightarrow> hash_order_ok (re_env e) \<Longrightarrow> distinct cs \<Longrightarrow> cs \<noteq> [] \<Longrightarrow>
       set cs \<subseteq> file_ids (re_file e) \<Longrightarrow>
       \<forall>i \<in> set cs. status_of (rs_tracker s) i = Some Pending \<or> status_of (rs_tracker s) i = Some Ready \<Longrightarrow>
       \<exists>rs s'. dispatch e cs s = Some (Inr rs, s')"

text \<open>The nodes that may still run.\<close>

definition open_ids :: "tracker \<Rightarrow> string set" where
  "open_ids tr = {i. status_of tr i = Some Pending \<or> status_of tr i = Some Ready}"

definition known_ids :: "tracker \<Rightarrow> string set" where
  "known_ids tr = dom (status_of tr)"

lemma finite_known_ids [simp]: "finite (known_ids tr)"
proof (rule finite_subset)
  show "known_ids tr \<subseteq> fst ` set (tr_nodes tr)"
    by (force simp: known_ids_def status_of_def bt_get_map_of dest!: map_of_SomeD)
qed simp

lemma open_known: "open_ids tr \<subseteq> known_ids tr"
  by (auto simp: open_ids_def known_ids_def)

lemma finite_open_ids [simp]: "finite (open_ids tr)"
  by (rule finite_subset [OF open_known]) simp

lemma round_effect_ids: "round_effect pg ids rs tr tr' \<Longrightarrow> ids = map nr_node_id rs"
  by (simp add: round_effect_def)

lemma round_effect_ran:
  assumes "round_effect pg ids rs tr tr'" and "i \<in> set ids"
  shows "status_of tr' i = Some Completed \<or> status_of tr' i = Some Failed"
proof -
  obtain r where "r \<in> set rs" "i = nr_node_id r" using assms by (auto simp: round_effect_def)
  then show ?thesis using round_effect_status(1) [OF assms(1)] assms(1) by (auto simp: round_effect_def)
qed

lemma round_effect_open:
  assumes "round_effect pg ids rs tr tr'"
  shows "open_ids tr' \<subseteq> open_ids tr - set ids" and "set ids \<subseteq> open_ids tr" and "known_ids tr' = known_ids tr"
proof -
  show "set ids \<subseteq> open_ids tr" using assms by (auto simp: round_effect_def open_ids_def)
  show "open_ids tr' \<subseteq> open_ids tr - set ids"
  proof
    fix i assume i: "i \<in> open_ids tr'"
    then have "i \<notin> set ids" using round_effect_ran [OF assms] by (fastforce simp: open_ids_def)
    then show "i \<in> open_ids tr - set ids"
      using i round_effect_status(2) [OF assms] by (auto simp: open_ids_def split: if_splits)
  qed
  have "status_of tr' i = None \<longleftrightarrow> status_of tr i = None" for i
  proof (cases "i \<in> set ids")
    case True
    then show ?thesis using round_effect_ran [OF assms] assms by (fastforce simp: round_effect_def)
  next
    case False
    then show ?thesis using round_effect_status(2) [OF assms] by auto
  qed
  then show "known_ids tr' = known_ids tr" unfolding known_ids_def dom_def by simp
qed

context dispatcher
begin

lemma fewer_open:
  assumes "mode e" and "hash_order_ok (re_env e)" and "cs \<noteq> []" and "dispatch e cs s = Some (Inr rs, s')"
  shows "card (open_ids (rs_tracker s')) < card (open_ids (rs_tracker s))"
proof -
  obtain ids where ids: "ids \<noteq> []" "round_effect (re_pg e) ids rs (rs_tracker s) (rs_tracker s')"
    using dispatch_effect [OF assms] by blast
  note o = round_effect_open [OF ids(2)]
  have "open_ids (rs_tracker s') \<subset> open_ids (rs_tracker s)"
    using o(1,2) ids(1) by (metis Diff_disjoint Diff_subset inf.orderE psubsetI set_empty subset_trans)
  then show ?thesis by (intro psubset_card_mono) auto
qed

lemma keeps_known:
  assumes "mode e" and "hash_order_ok (re_env e)" and "cs \<noteq> []" and "dispatch e cs s = Some (Inr rs, s')"
  shows "known_ids (rs_tracker s') = known_ids (rs_tracker s)"
  using dispatch_effect [OF assms] round_effect_open(3) by blast

end

lemma pick_topo_first_mem: "cs \<noteq> [] \<Longrightarrow> pick_topo_first cs topo \<in> set cs"
  by (auto simp: pick_topo_first_def find_Some_iff split: option.split)

interpretation serial: dispatcher
  "\<lambda>e cs s. case node_map (re_file e) (pick_topo_first cs topo) of
     None \<Rightarrow> None | Some n \<Rightarrow> Some (st_bind (execute_node e n) (\<lambda>r. st_return [r]) s)" "\<lambda>_. True"
  for topo :: "string list"
proof
  fix e :: "'a run_env" and cs s rs s'
  assume e: "hash_order_ok (re_env e)" and cs: "cs \<noteq> []"
    and d: "(case node_map (re_file e) (pick_topo_first cs topo) of
       None \<Rightarrow> None | Some n \<Rightarrow> Some (st_bind (execute_node e n) (\<lambda>r. st_return [r]) s)) = Some (Inr rs, s')"
  from d obtain n r where n: "node_map (re_file e) (pick_topo_first cs topo) = Some n"
    and r: "execute_node e n s = (Inr r, s')" "rs = [r]"
    by (auto simp: st_bind_Inr split: option.splits)
  show "\<exists>ids. ids \<noteq> [] \<and> set ids \<subseteq> set cs \<and> round_effect (re_pg e) ids rs (rs_tracker s) (rs_tracker s')"
    using execute_node_effect [OF e r(1)] r(2) node_map_Some_id [OF n] pick_topo_first_mem [OF cs, of topo]
    by (intro exI [of _ "[n_id n]"]) simp
next
  fix e :: "'a run_env" and cs :: "string list" and s :: "'a run_state"
  assume "set cs \<subseteq> file_ids (re_file e)" and "cs \<noteq> []"
  then show "(case node_map (re_file e) (pick_topo_first cs topo) of
       None \<Rightarrow> None | Some n \<Rightarrow> Some (st_bind (execute_node e n) (\<lambda>r. st_return [r]) s)) \<noteq> None"
    using node_map_ids [of "re_file e" "pick_topo_first cs topo"] pick_topo_first_mem [of cs topo]
    by (auto split: option.splits)
next
  fix e :: "'a run_env" and cs :: "string list" and s :: "'a run_state"
  let ?i = "pick_topo_first cs topo"
  assume io: "io_ok (re_env e)" and cs: "cs \<noteq> []" "set cs \<subseteq> file_ids (re_file e)"
    and op: "\<forall>i \<in> set cs. status_of (rs_tracker s) i = Some Pending \<or> status_of (rs_tracker s) i = Some Ready"
  have i: "?i \<in> set cs" using pick_topo_first_mem [OF cs(1)] .
  then obtain n where n: "node_map (re_file e) ?i = Some n"
    using cs(2) node_map_ids [of "re_file e" ?i] by auto
  then have "n_id n = ?i" using node_map_Some_id by blast
  then show "\<exists>rs s'. (case node_map (re_file e) ?i of
       None \<Rightarrow> None | Some n \<Rightarrow> Some (st_bind (execute_node e n) (\<lambda>r. st_return [r]) s)) = Some (Inr rs, s')"
    using execute_node_ok [OF io, of s n] op i n by (auto simp: st_bind_run st_return_def)
qed

interpretation parallel: dispatcher
  "\<lambda>e cs s. Some (dispatch_parallel e (take (rc_max_concurrency (re_config e)) cs) s)"
  "\<lambda>e. 1 < rc_max_concurrency (re_config e)"
proof
  fix e :: "'a run_env" and cs s rs s'
  assume e: "1 < rc_max_concurrency (re_config e)" "hash_order_ok (re_env e)" and cs: "cs \<noteq> []"
    and d: "Some (dispatch_parallel e (take (rc_max_concurrency (re_config e)) cs) s) = Some (Inr rs, s')"
  show "\<exists>ids. ids \<noteq> [] \<and> set ids \<subseteq> set cs \<and> round_effect (re_pg e) ids rs (rs_tracker s) (rs_tracker s')"
    using dispatch_parallel_effect [OF e(2) d [unfolded option.inject]] cs e(1)
    by (intro exI [of _ "take (rc_max_concurrency (re_config e)) cs"]) (auto dest: in_set_takeD)
next
  fix e :: "'a run_env" and cs :: "string list" and s :: "'a run_state"
  let ?ids = "take (rc_max_concurrency (re_config e)) cs"
  assume e: "io_ok (re_env e)" "hash_order_ok (re_env e)" and cs: "distinct cs" "set cs \<subseteq> file_ids (re_file e)"
    and op: "\<forall>i \<in> set cs. status_of (rs_tracker s) i = Some Pending \<or> status_of (rs_tracker s) i = Some Ready"
  have "set ?ids \<subseteq> set cs" by (rule set_take_subset)
  then show "\<exists>rs s'. Some (dispatch_parallel e ?ids s) = Some (Inr rs, s')"
    using dispatch_parallel_ok [OF e, of ?ids s] cs op by (auto simp: subset_iff)
qed simp

lemma dispatch_round_cases:
  "dispatch_round e topo cs s =
     (if 1 < rc_max_concurrency (re_config e)
      then Some (dispatch_parallel e (take (rc_max_concurrency (re_config e)) cs) s)
      else case node_map (re_file e) (pick_topo_first cs topo) of
        None \<Rightarrow> None | Some n \<Rightarrow> Some (st_bind (execute_node e n) (\<lambda>r. st_return [r]) s))"
  by (simp add: dispatch_round_def)

interpretation rounds: dispatcher "\<lambda>e. dispatch_round e topo" "\<lambda>_. True" for topo :: "string list"
proof
  fix e :: "'a run_env" and cs s rs s'
  assume e: "hash_order_ok (re_env e)" and cs: "cs \<noteq> []" and d: "dispatch_round e topo cs s = Some (Inr rs, s')"
  show "\<exists>ids. ids \<noteq> [] \<and> set ids \<subseteq> set cs \<and> round_effect (re_pg e) ids rs (rs_tracker s) (rs_tracker s')"
  proof (cases "1 < rc_max_concurrency (re_config e)")
    case True
    from parallel.dispatch_effect [OF True e cs] d [unfolded dispatch_round_cases] True show ?thesis by simp
  next
    case False
    from serial.dispatch_effect [OF TrueI e cs] d [unfolded dispatch_round_cases] False show ?thesis by simp
  qed
next
  fix e :: "'a run_env" and cs :: "string list" and s :: "'a run_state"
  assume "set cs \<subseteq> file_ids (re_file e)" and "cs \<noteq> []"
  then show "dispatch_round e topo cs s \<noteq> None"
    unfolding dispatch_round_cases
    by (cases "1 < rc_max_concurrency (re_config e)")
      (simp_all only: if_True if_False parallel.dispatch_ends serial.dispatch_ends [OF TrueI] not_False_eq_True simp_thms)
next
  fix e :: "'a run_env" and cs :: "string list" and s :: "'a run_state"
  assume pre: "io_ok (re_env e)" "hash_order_ok (re_env e)" "distinct cs" "cs \<noteq> []" "set cs \<subseteq> file_ids (re_file e)"
    "\<forall>i \<in> set cs. status_of (rs_tracker s) i = Some Pending \<or> status_of (rs_tracker s) i = Some Ready"
  show "\<exists>rs s'. dispatch_round e topo cs s = Some (Inr rs, s')"
    unfolding dispatch_round_cases
    using parallel.dispatch_ok [OF _ pre] serial.dispatch_ok [OF TrueI pre, of topo] by presburger
qed

section \<open>The loop\<close>

lemma candidates_ready: "set (candidates e targets tr) \<subseteq> set (ready_nodes (re_pg e) tr)"
  by (auto simp: candidates_def)

lemma ready_known: "set (ready_nodes pg tr) \<subseteq> known_ids tr"
proof
  fix i assume "i \<in> set (ready_nodes pg tr)"
  then have "i \<in> fst ` set (tr_nodes tr)" by (auto simp: ready_nodes_def)
  then show "i \<in> known_ids tr"
    by (auto simp: known_ids_def status_of_def domIff bt_get_None image_iff)
qed

lemma dispatch_loop_ends:
  assumes "hash_order_ok (re_env e)" and "known_ids (rs_tracker s) \<subseteq> file_ids (re_file e)"
  shows "\<exists>y. dispatch_loop e topo targets results failed s = Some y"
  using assms(2)
proof (induction "card (open_ids (rs_tracker s))" arbitrary: s results failed rule: less_induct)
  case less
  let ?cs = "candidates e targets (rs_tracker s)"
  show ?case
  proof (cases "?cs = []")
    case True
    then show ?thesis by (simp add: dispatch_loop.simps)
  next
    case False
    have "set ?cs \<subseteq> file_ids (re_file e)" using candidates_ready ready_known less.prems by fast
    then obtain r s' where d: "dispatch_round e topo ?cs s = Some (r, s')"
      using rounds.dispatch_ends [OF TrueI _ False, where s = s and topo = topo] by fastforce
    show ?thesis
    proof (cases r)
      case (Inl err)
      then show ?thesis using d False by (simp add: dispatch_loop.simps Let_def)
    next
      case (Inr rs)
      note round = rounds.fewer_open [OF TrueI assms(1) False d [unfolded Inr]]
        rounds.keeps_known [OF TrueI assms(1) False d [unfolded Inr]]
      from less.hyps [OF round(1)] round(2) less.prems show ?thesis
        using d False Inr by (subst dispatch_loop.simps) (simp add: Let_def)
    qed
  qed
qed

lemma dispatch_loop_ok:
  assumes "hash_order_ok (re_env e)" and "io_ok (re_env e)" and "known_ids (rs_tracker s) \<subseteq> file_ids (re_file e)"
    and "bt_ok (tr_nodes (rs_tracker s))"
  shows "\<exists>results' s'. dispatch_loop e topo targets results failed s = Some (Inr results', s')"
  using assms(3,4)
proof (induction "card (open_ids (rs_tracker s))" arbitrary: s results failed rule: less_induct)
  case less
  let ?cs = "candidates e targets (rs_tracker s)"
  show ?case
  proof (cases "?cs = []")
    case True
    then show ?thesis by (simp add: dispatch_loop.simps)
  next
    case False
    have "set ?cs \<subseteq> file_ids (re_file e)" using candidates_ready ready_known less.prems(1) by fast
    moreover have "distinct ?cs"
      using ready_nodes_sorted [OF less.prems(2)] by (simp add: candidates_def strict_sorted_iff)
    moreover have "\<forall>i \<in> set ?cs. status_of (rs_tracker s) i = Some Pending \<or> status_of (rs_tracker s) i = Some Ready"
      using candidates_ready ready_nodes_iff [OF less.prems(2)] by fast
    ultimately obtain rs s' where d: "dispatch_round e topo ?cs s = Some (Inr rs, s')"
      using rounds.dispatch_ok [OF TrueI assms(2,1) _ False, where s = s and topo = topo] by blast
    note round = rounds.fewer_open [OF TrueI assms(1) False d] rounds.keeps_known [OF TrueI assms(1) False d]
    have "bt_ok (tr_nodes (rs_tracker s'))"
      using rounds.dispatch_effect [OF TrueI assms(1) False d] less.prems(2)
      by (auto simp: round_effect_def becomes_def)
    from less.hyps [OF round(1) _ this] round(2) less.prems show ?thesis
      using d False by (subst dispatch_loop.simps) (simp add: Let_def)
  qed
qed

text \<open>What every round keeps holds at the end of the loop.\<close>

lemma dispatch_loop_rule:
  fixes e :: "'x run_env"
  assumes "dispatch_loop e topo targets results failed s = Some (Inr results', s')"
    and e: "hash_order_ok (re_env e)" and "P results failed (rs_tracker s)"
    and round: "\<And>results failed tr ids rs tr'. P results failed tr \<Longrightarrow> set ids \<subseteq> set (candidates e targets tr) \<Longrightarrow>
      round_effect (re_pg e) ids rs tr tr' \<Longrightarrow>
      P (results @ rs) (failed \<or> (\<exists>r \<in> set rs. nr_status r = Failed)) tr'"
  shows "\<exists>failed'. P results' failed' (rs_tracker s') \<and>
    (candidates e targets (rs_tracker s') = [] \<or> failed' \<and> rc_fail_fast (re_config e))"
proof -
  let ?stop = "\<lambda>results' s'. \<exists>failed'. P results' failed' (rs_tracker s') \<and>
    (candidates e targets (rs_tracker s') = [] \<or> failed' \<and> rc_fail_fast (re_config e))"
  define Q where "Q e' topo' targets' results failed s y \<longleftrightarrow> (e' = e \<longrightarrow> targets' = targets \<longrightarrow>
    P results failed (rs_tracker s) \<longrightarrow> (\<forall>results' s'. y = (Inr results', s') \<longrightarrow> ?stop results' s'))"
    for e' and topo' :: "string list" and targets' results failed and s :: "'x run_state"
      and y :: "node_result list res \<times> 'x run_state"
  have "Q e topo targets results failed s (Inr results', s')"
  proof (rule dispatch_loop.raw_induct [where P = Q, OF _ assms(1)], unfold Q_def, intro impI allI)
    fix loop e' topo' targets' results failed s y results' s'
    assume IH: "\<And>e' topo targets' results failed s y. loop e' topo targets' results failed s = Some y \<Longrightarrow>
        e' = e \<longrightarrow> targets' = targets \<longrightarrow>
        P results failed (rs_tracker s) \<longrightarrow> (\<forall>results' s'. y = (Inr results', s') \<longrightarrow> ?stop results' s')"
      and body: "(let cs = candidates e' targets' (rs_tracker s) in
        if cs = [] then Some (Inr results, s)
        else case dispatch_round e' topo' cs s of
            None \<Rightarrow> loop e' topo' targets' results failed s
          | Some (Inl err, s') \<Rightarrow> Some (Inl err, s')
          | Some (Inr rs, s') \<Rightarrow>
              let failed = failed \<or> list_ex (\<lambda>r. nr_status r = Failed) rs in
              if failed \<and> rc_fail_fast (re_config e') then Some (Inr (results @ rs), s')
              else loop e' topo' targets' (results @ rs) failed s') = Some y"
      and e': "e' = e" "targets' = targets" and P: "P results failed (rs_tracker s)" and y: "y = (Inr results', s')"
    let ?cs = "candidates e targets (rs_tracker s)"
    show "?stop results' s'"
    proof (cases "?cs = []")
      case True
      then show ?thesis using body P e' y by auto
    next
      case False
      show ?thesis
      proof (cases "dispatch_round e topo' ?cs s")
        case None
        then have "loop e topo' targets results failed s = Some y" using body False e' by simp
        from IH [OF this] P y show ?thesis by blast
      next
        case (Some rs1)
        obtain r s1 where d: "dispatch_round e topo' ?cs s = Some (r, s1)" using Some by (metis prod.collapse)
        then obtain rs where r: "r = Inr rs" using body False e' y by (cases r) (auto simp: Let_def)
        obtain ids where ids: "set ids \<subseteq> set ?cs" "round_effect (re_pg e) ids rs (rs_tracker s) (rs_tracker s1)"
          using rounds.dispatch_effect [OF TrueI e False d [unfolded r]] by blast
        note P1 = round [OF P ids]
        let ?failed = "failed \<or> (\<exists>r \<in> set rs. nr_status r = Failed)"
        show ?thesis
        proof (cases "?failed \<and> rc_fail_fast (re_config e)")
          case True
          then show ?thesis using body False e' y d r P1 by (auto simp: Let_def list_ex_iff)
        next
          case False
          then have "loop e topo' targets (results @ rs) ?failed s1 = Some y"
            using body \<open>?cs \<noteq> []\<close> e' d r by (auto simp: Let_def list_ex_iff)
          from IH [OF this] P1 y show ?thesis by blast
        qed
      qed
    qed
  qed
  then show ?thesis using assms(3) by (simp add: Q_def)
qed

end
