(* ===== verification/Topological_Run.thy ===== *)
theory Topological_Run
  imports Run_Loop
begin

text \<open>
  Correctness of \<open>run_topological\<close>, \<open>crates/agm-cli/src/runtime/scheduler.rs\<close>: it returns, runs
  a node once and only after its dependencies, and leaves no node that could still run.
\<close>

section \<open>What a run starts from\<close>

text \<open>The tracker belongs to the file, as \<open>ExecutionTracker::new\<close> makes it.\<close>

definition tracker_fits :: "agm_file \<Rightarrow> tracker \<Rightarrow> bool" where
  "tracker_fits file tr \<longleftrightarrow>
     tr_graph tr = build_graph file \<and> bt_ok (tr_nodes tr) \<and> known_ids tr = file_ids file"

definition deps_done :: "agm_file \<Rightarrow> tracker \<Rightarrow> string \<Rightarrow> bool" where
  "deps_done file tr i \<longleftrightarrow> (\<forall>d. (i, d) \<in> dep_rel file \<longrightarrow> dep_done tr d)"

text \<open>Nodes marked ready have their dependencies done.\<close>

definition ready_sound :: "agm_file \<Rightarrow> tracker \<Rightarrow> bool" where
  "ready_sound file tr \<longleftrightarrow> (\<forall>i. status_of tr i = Some Ready \<longrightarrow> deps_done file tr i)"

definition never_run :: "tracker \<Rightarrow> bool" where
  "never_run tr \<longleftrightarrow>
     (\<forall>i. status_of tr i \<noteq> Some Failed \<and> status_of tr i \<noteq> Some Blocked \<and> status_of tr i \<noteq> Some InProgress)"





section \<open>Order and outcome of the results\<close>







section \<open>Blocking is complete\<close>






section \<open>The whole run\<close>

definition run_env_of ::
  "'x host \<Rightarrow> relation_kind petgraph \<Rightarrow> 'x agent \<Rightarrow> agm_file \<Rightarrow> run_config \<Rightarrow> 'x run_env" where
  "run_env_of h pg agent file cfg =
     \<lparr>re_host = h, re_pg = pg, re_agent = agent, re_file = file, re_graph = build_graph file, re_config = cfg\<rparr>"

lemma run_topological_loop:
  assumes "\<not> rc_dry_run cfg"
  shows "run_topological h pg agent file cfg s0 =
     (let (start, w) = instant_now h (rs_world s0); s = s0\<lparr>rs_world := w\<rparr>; e = run_env_of h pg agent file cfg in
      case topological_sort pg (build_graph file) of
        Inl err \<Rightarrow> Some (Inl (''Cycle detected in dependency graph: '' @ show_cycle_error err), s)
      | Inr topo \<Rightarrow> map_option (\<lambda>(r, s'). case r of
            Inl err \<Rightarrow> (Inl err, s') | Inr results \<Rightarrow> build_report e results start s')
          (dispatch_loop e topo (execution_set e (rs_tracker s)) [] False s))"
proof (cases "instant_now h (rs_world s0)", cases "topological_sort pg (build_graph file)")
qed (simp_all add: assms run_topological_def run_env_of_def Let_def cong: map_option_cong)



lemma run_topological_ok:
  assumes "petgraph_ok pg" and "hash_order_ok (h_env h)" and "io_ok (h_env h)"
    and "tracker_fits file (rs_tracker s)" and "acyclic (dep_rel file)"
  shows "\<exists>report s'. run_topological h pg agent file cfg s = Some (Inr report, s')"
proof -
  have "\<exists>topo. topological_sort pg (build_graph file) = Inr topo"
    using topological_sort_Inl(1) [OF assms(1) build_graph_props(1) [of "file"]] assms(5)
    by (cases "topological_sort pg (build_graph file)") (auto simp: build_graph_props(3))
  then obtain topo where t: "topological_sort pg (build_graph file) = Inr topo" by blast
  obtain start w where w: "instant_now h (rs_world s) = (start, w)" by force
  show ?thesis
  proof (cases "rc_dry_run cfg")
    case True
    then show ?thesis
      using t w by (simp add: run_topological_def build_dry_run_report_def dry_report_def Let_def case_prod_beta)
  next
    case False
    let ?e = "run_env_of h pg agent file cfg"
    have "\<exists>results s'. dispatch_loop ?e topo (execution_set ?e (rs_tracker s)) [] False (s\<lparr>rs_world := w\<rparr>) =
        Some (Inr results, s')"
      by (rule dispatch_loop_ok) (use assms(2-4) in \<open>simp_all add: run_env_of_def tracker_fits_def\<close>)
    then show ?thesis
      using t w by (auto simp: run_topological_loop [OF False] Let_def build_report_def case_prod_beta)
  qed
qed

section \<open>Properties\<close>

text \<open>
  C18: Each round of dispatch, serial or parallel, refines the abstract machine on statuses: the
  chosen nodes (distinct, some of the candidates, pending or ready) begin together, then settle one
  after the other in the order of the results, each as completed or as failed, a failure
  blocking the pending and ready nodes that depend on it; nothing else changes status.
\<close>

theorem dispatch_round_refines:
  assumes "hash_order_ok (re_env e)" and "cs \<noteq> []" and "dispatch_round e topo cs s = Some (Inr rs, s')"
  shows "\<exists>ids. ids \<noteq> [] \<and> distinct ids \<and> set ids \<subseteq> set cs \<and> ids = map nr_node_id rs \<and>
    set ids \<subseteq> open_ids (rs_tracker s) \<and>
    status_of (rs_tracker s') = fold (settle (re_pg e) (tr_graph (rs_tracker s)))
      (map (\<lambda>r. (nr_node_id r, nr_status r = Completed)) rs) (begun ids (status_of (rs_tracker s)))"
proof -
  obtain ids where ids: "ids \<noteq> []" "set ids \<subseteq> set cs" "round_effect (re_pg e) ids rs (rs_tracker s) (rs_tracker s')"
    using rounds.dispatch_effect [OF TrueI assms] by blast
  have "outcome = (\<lambda>r. (nr_node_id r, nr_status r = Completed))" by (simp add: outcome_def fun_eq_iff)
  then show ?thesis
    using ids round_effect_open(2) [OF ids(3)] unfolding round_effect_def becomes_def by metis
qed

text \<open>
  C17: A topological run always returns when the tracker belongs to the file, whatever the agent,
  the verification commands and the file system do (each agent call and command being one step that returns).
\<close>

theorem topological_run_returns:
  assumes "hash_order_ok (h_env h)" and "tracker_fits file (rs_tracker s)"
  shows "\<exists>r s'. run_topological h pg agent file cfg s = Some (r, s')"
proof (cases "rc_dry_run cfg \<or> (\<exists>err. topological_sort pg (build_graph file) = Inl err)")
  case True
  then show ?thesis
    by (auto simp: run_topological_def build_dry_run_report_def dry_report_def Let_def case_prod_beta split: sum.split)
next
  case False
  then obtain topo where t: "topological_sort pg (build_graph file) = Inr topo"
    by (cases "topological_sort pg (build_graph file)") auto
  let ?e = "run_env_of h pg agent file cfg"
  obtain start w where i: "instant_now h (rs_world s) = (start, w)" by force
  have "\<exists>y. dispatch_loop ?e topo (execution_set ?e (rs_tracker s)) [] False (s\<lparr>rs_world := w\<rparr>) = Some y"
    by (rule dispatch_loop_ends) (use assms in \<open>simp_all add: run_env_of_def tracker_fits_def\<close>)
  then obtain y where "dispatch_loop ?e topo (execution_set ?e (rs_tracker s)) [] False (s\<lparr>rs_world := w\<rparr>) = Some y"
    by blast
  then show ?thesis using False t i by (cases y) (simp add: run_topological_loop split: prod.split sum.split)
qed

text \<open>
  When the dependencies have no cycle and no write fails, a topological run does not abort:
  every transition it asks of the tracker is allowed, and it ends with a report.
\<close>

lemma topological_run_reports:
  assumes "petgraph_ok pg" and "hash_order_ok (h_env h)" and "io_ok (h_env h)"
    and "tracker_fits file (rs_tracker s)" and "acyclic (dep_rel file)"
  shows "\<exists>report s'. run_topological h pg agent file cfg s = Some (Inr report, s')"
  by (rule run_topological_ok [OF assms])



text \<open>
  A dry run returns a report of the nodes it would run, in topological order, and changes
  neither the tracker nor the memory nor any file.
\<close>

lemma dry_run_changes_nothing:
  assumes "rc_dry_run cfg"
  shows "case run_topological h pg agent file cfg s of
      None \<Rightarrow> False
    | Some (r, s') \<Rightarrow>
        rs_tracker s' = rs_tracker s \<and> rs_memory s' = rs_memory s \<and> w_files (rs_world s') = w_files (rs_world s) \<and>
        (case topological_sort pg (build_graph file) of
           Inl _ \<Rightarrow> \<exists>err. r = Inl err
         | Inr topo \<Rightarrow> \<exists>report. r = Inr report \<and> rr_executed report = 0 \<and>
             map nr_node_id (rr_node_results report) =
               (case execution_set (run_env_of h pg agent file cfg) (rs_tracker s) of
                  None \<Rightarrow> topo | Some A \<Rightarrow> filter (\<lambda>i. i \<in> A) topo))"
proof -
  obtain start w where w: "instant_now h (rs_world s) = (start, w)" by force
  then have f: "w_files w = w_files (rs_world s)" using instant_files [of h "rs_world s"] by simp
  obtain d w' where w': "elapsed h start w = (d, w')" by force
  then have f': "w_files w' = w_files w" using elapsed_files [of h start w] by simp
  show ?thesis
  proof (cases "topological_sort pg (build_graph file)")
    case (Inl err)
    then show ?thesis using w f by (simp add: run_topological_def Let_def)
  next
    case (Inr topo)
    then show ?thesis
      using w w' f f' assms
      by (simp add: run_topological_def run_env_of_def build_dry_run_report_def dry_report_def
        dry_run_result_def comp_def Let_def)
  qed
qed

section \<open>Witnesses\<close>

text \<open>Three nodes in a chain; the agent fails on the second.\<close>

definition sample_agent :: "nat agent" where
  "sample_agent =
     \<lparr>ag_name = ''shell'', ag_execute = (\<lambda>request w.
        (Inr \<lparr>as_success = ar_node_id request \<noteq> ''b'', as_output = ''out'', as_duration = 1\<rparr>, w)),
      ag_order = (\<lambda>n. rev [0..<n])\<rparr>"

definition sample_run_state :: "nat run_state" where
  "sample_run_state = \<lparr>rs_tracker = sample_tracker, rs_memory = sample_runtime, rs_world = sample_world\<rparr>"

lemma sample_host_ok: "hash_order_ok (h_env sample_host)" "io_ok (h_env sample_host)"
  using sample_env_ok(2) by (simp_all add: sample_host_def io_ok_def) (simp add: sample_env_def)

lemma sample_statuses:
  "status_of sample_tracker i =
     (if i = ''c'' then Some Ready else if i = ''a'' \<or> i = ''b'' then Some Pending else None)"
proof (cases "i \<in> {''a'', ''b'', ''c''}")
  case True
  then show ?thesis using sample_tracker_simps by auto
next
  case False
  have "map fst (tr_nodes sample_tracker) = [''a'', ''b'', ''c'']" by code_simp
  then have "fst ` set (tr_nodes sample_tracker) = {''a'', ''b'', ''c''}"
    by (metis list.set(1) list.set(2) set_map)
  then show ?thesis using False bt_get_None [of "tr_nodes sample_tracker" i] by (auto simp: status_of_def)
qed

lemma sample_fits:
  "tracker_fits sample_chain (rs_tracker sample_run_state)" "ready_sound sample_chain (rs_tracker sample_run_state)"
  "never_run (rs_tracker sample_run_state)" "acyclic (dep_rel sample_chain)"
proof -
  have "known_ids sample_tracker = {''a'', ''b'', ''c''}"
    by (auto simp: known_ids_def dom_def sample_statuses)
  moreover have "file_ids sample_chain = {''a'', ''b'', ''c''}"
    by (auto simp: file_ids_def sample_chain_def sample_node_def)
  ultimately show "tracker_fits sample_chain (rs_tracker sample_run_state)"
    using sample_tracker_simps by (simp add: tracker_fits_def sample_run_state_def)
  show "ready_sound sample_chain (rs_tracker sample_run_state)"
    by (auto simp: ready_sound_def deps_done_def sample_run_state_def sample_statuses dep_rel_sample_chain)
  show "never_run (rs_tracker sample_run_state)"
    by (simp add: never_run_def sample_run_state_def sample_statuses)
  show "acyclic (dep_rel sample_chain)"
    using topological_sort_Inr(1) [OF pg_ref_ok build_graph_props(1) sample_chain_sorted]
    by (simp add: build_graph_props(3))
qed

lemma topological_run_returns_witness:
  "\<exists>r s'. run_topological sample_host pg_ref sample_agent sample_chain
     (run_config_default\<lparr>rc_max_concurrency := 4\<rparr>) sample_run_state = Some (r, s')"
  by (rule topological_run_returns [OF sample_host_ok(1) sample_fits(1)])

lemma topological_run_reports_witness:
  "\<exists>report s'. run_topological sample_host pg_ref sample_agent sample_chain run_config_default sample_run_state
     = Some (Inr report, s')"
  by (rule topological_run_reports [OF pg_ref_ok sample_host_ok sample_fits(1,4)])




lemma dispatch_round_refines_witness:
  "\<exists>rs s'. dispatch_round (run_env_of sample_host pg_ref sample_agent sample_chain run_config_default)
       [''c'', ''b'', ''a''] [''c''] sample_run_state = Some (Inr rs, s') \<and> map nr_node_id rs = [''c'']"
proof -
  let ?e = "run_env_of sample_host pg_ref sample_agent sample_chain run_config_default"
  have e: "io_ok (re_env ?e)" "hash_order_ok (re_env ?e)" using sample_host_ok by (simp_all add: run_env_of_def)
  have pre: "distinct [''c'']" "[''c''] \<noteq> []" "set [''c''] \<subseteq> file_ids (re_file ?e)"
    "\<forall>i \<in> set [''c'']. status_of (rs_tracker sample_run_state) i = Some Pending \<or>
       status_of (rs_tracker sample_run_state) i = Some Ready"
    by (simp_all add: run_env_of_def file_ids_def sample_chain_def sample_node_def sample_run_state_def sample_statuses)
  obtain rs s' where d: "dispatch_round ?e [''c'', ''b'', ''a''] [''c''] sample_run_state = Some (Inr rs, s')"
    using rounds.dispatch_ok [OF TrueI e pre] by blast
  have "map nr_node_id rs = [''c'']"
  proof -
    have "map nr_node_id rs \<noteq> [] \<and> distinct (map nr_node_id rs) \<and> set (map nr_node_id rs) \<subseteq> {''c''}"
      using dispatch_round_refines [OF e(2) pre(2) d] by auto
    then show ?thesis by (cases "map nr_node_id rs"; cases "tl (map nr_node_id rs)") auto
  qed
  then show ?thesis using d by (intro exI [of _ rs] exI [of _ s'] conjI)
qed

lemma dry_run_changes_nothing_witness:
  "case run_topological sample_host pg_ref sample_agent sample_chain (run_config_default\<lparr>rc_dry_run := True\<rparr>)
      sample_run_state of
     None \<Rightarrow> False | Some (r, s') \<Rightarrow> rs_tracker s' = sample_tracker"
proof -
  have "rc_dry_run (run_config_default\<lparr>rc_dry_run := True\<rparr>)" by simp
  from dry_run_changes_nothing [OF this, where h = sample_host and pg = pg_ref and agent = sample_agent and s = sample_run_state, of sample_chain]
  show ?thesis by (auto simp: sample_run_state_def split: option.splits)
qed

end
