(* ===== verification/Group_Order.thy ===== *)
theory Group_Order
  imports Graph Sidecar
begin

text \<open>
  The order of the orchestration groups, \<open>resolve_group_order\<close> of
  \<open>crates/agm-cli/src/runtime/scheduler.rs\<close>: Kahn's algorithm over the \<open>requires\<close> lists, with
  the degrees and dependents in maps. The loop is shown to end and to find an order exactly
  when one exists.
\<close>

section \<open>The algorithm\<close>

text \<open>The degrees and dependents that the loop over the groups builds; an unknown group is an error.\<close>

fun add_requires ::
  "string set \<Rightarrow> string \<Rightarrow> string list \<Rightarrow> (string, string list) btree \<times> (string, int) btree \<Rightarrow>
   ((string, string list) btree \<times> (string, int) btree) res" where
  "add_requires names g [] st = Inr st"
| "add_requires names g (r # rs) (dependents, in_degree) =
     (if r \<notin> names then Inl (''Group '' @ sq g @ '' requires unknown group '' @ sq r)
      else add_requires names g rs
        (bt_insert r (unwrap_list (bt_get dependents r) @ [g]) dependents,
         bt_insert g ((case bt_get in_degree g of Some d \<Rightarrow> d | None \<Rightarrow> 0) + 1) in_degree))"

fun add_groups ::
  "string set \<Rightarrow> parallel_group list \<Rightarrow> (string, string list) btree \<times> (string, int) btree \<Rightarrow>
   ((string, string list) btree \<times> (string, int) btree) res" where
  "add_groups names [] st = Inr st"
| "add_groups names (g # gs) (dependents, in_degree) =
     (let in_degree' = (case bt_get in_degree (pg_group g) of
            Some _ \<Rightarrow> in_degree | None \<Rightarrow> bt_insert (pg_group g) 0 in_degree) in
      res_bind (add_requires names (pg_group g) (unwrap_list (pg_requires g)) (dependents, in_degree'))
        (\<lambda>st. add_groups names gs st))"

text \<open>Lowering the degree of each dependent; the second part collects those that reach zero.\<close>

fun lower_degrees :: "string list \<Rightarrow> (string, int) btree \<Rightarrow> (string, int) btree \<times> string list" where
  "lower_degrees [] in_degree = (in_degree, [])"
| "lower_degrees (d # ds) in_degree =
     (let deg = (case bt_get in_degree d of Some k \<Rightarrow> k | None \<Rightarrow> 0) - 1;
          (in_degree', ready) = lower_degrees ds (bt_insert d deg in_degree) in
      (in_degree', if deg = 0 then d # ready else ready))"

text \<open>The loop over the queue.\<close>

partial_function (option) kahn ::
  "(string, string list) btree \<Rightarrow> (string, int) btree \<Rightarrow> string list \<Rightarrow> string list \<Rightarrow> string list option" where
  "kahn dependents in_degree order queue =
     (if queue = [] then Some order
      else
        (let current = hd queue;
             lowered = lower_degrees (unwrap_list (bt_get dependents current)) in_degree in
         kahn dependents (fst lowered) (order @ [current]) (tl queue @ sort (snd lowered))))"

declare kahn.simps [code]

definition resolve_group_order :: "parallel_group list \<Rightarrow> string list res option" where
  "resolve_group_order groups =
     (case add_groups (set (map pg_group groups)) groups ([], []) of
        Inl e \<Rightarrow> Some (Inl e)
      | Inr (dependents, in_degree) \<Rightarrow>
          map_option (\<lambda>order.
            if length order \<noteq> length groups then Inl ''Cycle detected in group requires dependencies''
            else Inr order)
          (kahn dependents in_degree [] (sort (map fst (filter (\<lambda>(_, d). d = 0) in_degree)))))"

section \<open>What the groups require\<close>

text \<open>All names the groups called \<open>g\<close> require, and the relation they span.\<close>

definition needs :: "parallel_group list \<Rightarrow> string \<Rightarrow> string list" where
  "needs groups g = concat (map (\<lambda>p. unwrap_list (pg_requires p)) (filter (\<lambda>p. pg_group p = g) groups))"

definition requires_rel :: "parallel_group list \<Rightarrow> (string \<times> string) set" where
  "requires_rel groups = {(g, r). r \<in> set (needs groups g)}"

definition group_names :: "parallel_group list \<Rightarrow> string set" where
  "group_names groups = set (map pg_group groups)"

definition dget :: "(string, int) btree \<Rightarrow> string \<Rightarrow> int" where
  "dget m g = (case bt_get m g of None \<Rightarrow> 0 | Some d \<Rightarrow> d)"

definition lget :: "(string, string list) btree \<Rightarrow> string \<Rightarrow> string list" where
  "lget m r = unwrap_list (bt_get m r)"

lemma dget_insert [simp]: "dget (bt_insert k v m) g = (if g = k then v else dget m g)"
  by (simp add: dget_def)

lemma lget_insert [simp]: "lget (bt_insert k v m) g = (if g = k then v else lget m g)"
  by (simp add: lget_def unwrap_list_def)

lemma add_requires_spec:
  assumes "add_requires names g rs (dep, deg) = Inr (dep', deg')" and "bt_ok dep" and "bt_ok deg"
  shows "set rs \<subseteq> names \<and> bt_ok dep' \<and> bt_ok deg' \<and>
    (\<forall>r h. count_list (lget dep' r) h = count_list (lget dep r) h + (if h = g then count_list rs r else 0)) \<and>
    (\<forall>h. dget deg' h = dget deg h + (if h = g then int (length rs) else 0)) \<and>
    (\<forall>h. bt_get deg' h = None \<longleftrightarrow> bt_get deg h = None \<and> (h \<noteq> g \<or> rs = []))"
  using assms
proof (induction names g rs "(dep, deg)" arbitrary: dep deg rule: add_requires.induct)
  case (2 names g r rs dep deg)
  let ?dep = "bt_insert r (lget dep r @ [g]) dep" and ?deg = "bt_insert g (dget deg g + 1) deg"
  have r: "r \<in> names" and rec: "add_requires names g rs (?dep, ?deg) = Inr (dep', deg')"
    using "2.prems"(1) by (auto simp: lget_def dget_def split: if_splits)
  have "set rs \<subseteq> names \<and> bt_ok dep' \<and> bt_ok deg' \<and>
    (\<forall>q h. count_list (lget dep' q) h = count_list (lget ?dep q) h + (if h = g then count_list rs q else 0)) \<and>
    (\<forall>h. dget deg' h = dget ?deg h + (if h = g then int (length rs) else 0)) \<and>
    (\<forall>h. bt_get deg' h = None \<longleftrightarrow> bt_get ?deg h = None \<and> (h \<noteq> g \<or> rs = []))"
    using "2.hyps" r rec "2.prems"(2,3) by (simp add: lget_def dget_def)
  then show ?case using r by auto
qed auto

lemma add_requires_fails:
  "add_requires names g rs st = Inl e \<Longrightarrow> \<not> set rs \<subseteq> names"
  by (induction names g rs st rule: add_requires.induct) (auto split: if_splits)

lemma add_groups_spec:
  assumes "add_groups names gs (dep, deg) = Inr (dep', deg')" and "bt_ok dep" and "bt_ok deg"
  shows "(\<forall>g. set (needs gs g) \<subseteq> names) \<and> bt_ok dep' \<and> bt_ok deg' \<and>
    (\<forall>r h. count_list (lget dep' r) h = count_list (lget dep r) h + count_list (needs gs h) r) \<and>
    (\<forall>h. dget deg' h = dget deg h + int (length (needs gs h))) \<and>
    (\<forall>h. bt_get deg' h = None \<longleftrightarrow> bt_get deg h = None \<and> h \<notin> group_names gs)"
  using assms
proof (induction names gs "(dep, deg)" arbitrary: dep deg rule: add_groups.induct)
  case (1 names dep deg)
  then show ?case by (simp add: needs_def group_names_def)
next
  case (2 names g gs dep deg)
  let ?rs = "unwrap_list (pg_requires g)" and ?n = "pg_group g"
  let ?deg = "case bt_get deg ?n of Some _ \<Rightarrow> deg | None \<Rightarrow> bt_insert ?n 0 deg"
  obtain dep1 deg1 where r: "add_requires names ?n ?rs (dep, ?deg) = Inr (dep1, deg1)"
    and rec: "add_groups names gs (dep1, deg1) = Inr (dep', deg')"
    using "2.prems"(1) by (auto simp: Let_def res_bind_Inr_iff)
  have deg: "bt_ok ?deg" "dget ?deg h = dget deg h" "bt_get ?deg h = None \<longleftrightarrow> bt_get deg h = None \<and> h \<noteq> ?n" for h
    using "2.prems"(3) by (auto simp: dget_def split: option.split)
  note req = add_requires_spec [OF r "2.prems"(2) deg(1)]
  have nd: "needs (g # gs) h = (if h = ?n then ?rs else []) @ needs gs h" for h
    by (simp add: needs_def)
  have IH: "(\<forall>g. set (needs gs g) \<subseteq> names) \<and> bt_ok dep' \<and> bt_ok deg' \<and>
    (\<forall>r h. count_list (lget dep' r) h = count_list (lget dep1 r) h + count_list (needs gs h) r) \<and>
    (\<forall>h. dget deg' h = dget deg1 h + int (length (needs gs h))) \<and>
    (\<forall>h. bt_get deg' h = None \<longleftrightarrow> bt_get deg1 h = None \<and> h \<notin> group_names gs)"
    using "2.hyps" [OF refl rec] req by simp
  then show ?case
    using req deg by (auto simp: nd group_names_def)
qed

lemma add_groups_fails:
  "add_groups names gs st = Inl e \<Longrightarrow> \<exists>g. \<not> set (needs gs g) \<subseteq> names"
proof (induction names gs st rule: add_groups.induct)
  case (2 names g gs dep deg)
  have nd: "needs (g # gs) h = (if h = pg_group g then unwrap_list (pg_requires g) else []) @ needs gs h" for h
    by (simp add: needs_def)
  let ?deg = "case bt_get deg (pg_group g) of Some _ \<Rightarrow> deg | None \<Rightarrow> bt_insert (pg_group g) 0 deg"
  show ?case
  proof (cases "add_requires names (pg_group g) (unwrap_list (pg_requires g)) (dep, ?deg)")
    case (Inl e)
    from add_requires_fails [OF this] show ?thesis by (intro exI [of _ "pg_group g"]) (simp add: nd)
  next
    case (Inr st)
    then have "add_groups names gs st = Inl e" using "2.prems" by (simp add: Let_def)
    then obtain h where "\<not> set (needs gs h) \<subseteq> names" using "2.IH" [OF refl] by blast
    then show ?thesis by (intro exI [of _ h]) (auto simp: nd)
  qed
qed simp

lemma lower_degrees_spec:
  assumes "lower_degrees ds m = (m', ready)" and "bt_ok m"
  shows "bt_ok m' \<and> (\<forall>g. dget m' g = dget m g - int (count_list ds g)) \<and>
    (\<forall>g. count_list ready g = (if 1 \<le> dget m g \<and> dget m g \<le> int (count_list ds g) then 1 else 0))"
  using assms
proof (induction ds m arbitrary: m' ready rule: lower_degrees.induct)
  case (2 d ds m)
  let ?deg = "dget m d - 1"
  obtain m1 r1 where r: "lower_degrees ds (bt_insert d ?deg m) = (m1, r1)" by force
  then have m': "m' = m1" "ready = (if ?deg = 0 then d # r1 else r1)"
    using "2.prems"(1) by (auto simp: Let_def dget_def)
  have IH: "bt_ok m1 \<and> (\<forall>g. dget m1 g = dget (bt_insert d ?deg m) g - int (count_list ds g)) \<and>
    (\<forall>g. count_list r1 g = (if 1 \<le> dget (bt_insert d ?deg m) g \<and>
       dget (bt_insert d ?deg m) g \<le> int (count_list ds g) then 1 else 0))"
    using "2.IH" [OF _ r [unfolded dget_def]] r "2.prems"(2) by (auto simp: dget_def)
  then show ?case unfolding m' by auto
qed auto

section \<open>The loop\<close>

text \<open>
  Between two rounds the degree of a group is the number of its requirements not yet in
  \<open>acc\<close>; the groups in \<open>acc\<close> and in the queue are those of degree zero, each after
  everything it requires.
\<close>

definition after_needs :: "parallel_group list \<Rightarrow> string list \<Rightarrow> bool" where
  "after_needs groups ids \<longleftrightarrow> (\<forall>xs g ys. ids = xs @ g # ys \<longrightarrow> set (needs groups g) \<subseteq> set xs)"

definition kahn_inv :: "parallel_group list \<Rightarrow> (string, int) btree \<Rightarrow> string list \<Rightarrow> string list \<Rightarrow> bool" where
  "kahn_inv groups m acc q \<longleftrightarrow>
     bt_ok m \<and> distinct (acc @ q) \<and> set (acc @ q) \<subseteq> group_names groups \<and>
     (\<forall>g. dget m g = int (length (filter (\<lambda>r. r \<notin> set acc) (needs groups g)))) \<and>
     (\<forall>g \<in> group_names groups. g \<in> set (acc @ q) \<longleftrightarrow> dget m g = 0) \<and>
     after_needs groups (acc @ q)"

lemma count_filter_out:
  "c \<notin> A \<Longrightarrow> length (filter (\<lambda>r. r \<notin> A) xs) = length (filter (\<lambda>r. r \<notin> insert c A) xs) + count_list xs c"
  by (induction xs) auto

lemma after_needs_append:
  assumes "after_needs groups ids" and "\<And>g. g \<in> set new \<Longrightarrow> set (needs groups g) \<subseteq> set ids"
  shows "after_needs groups (ids @ new)"
  unfolding after_needs_def
proof (intro allI impI)
  fix xs g ys assume eq: "ids @ new = xs @ g # ys"
  then consider us where "ids = xs @ g # us" | us where "xs = ids @ us" "new = us @ g # ys"
    by (auto simp: append_eq_append_conv2 append_eq_Cons_conv)
  then show "set (needs groups g) \<subseteq> set xs"
  proof cases
    case 1
    then show ?thesis using assms(1) by (auto simp: after_needs_def)
  next
    case 2
    then show ?thesis using assms(2) [of g] by auto
  qed
qed

lemma needs_names: "g \<notin> group_names groups \<Longrightarrow> needs groups g = []"
  by (auto simp: needs_def group_names_def filter_empty_conv)

lemma kahn_step:
  assumes inv: "kahn_inv groups m acc (c # q)"
    and dep: "\<And>g. count_list ds g = count_list (needs groups g) c"
    and low: "lower_degrees ds m = (m', ready)"
  shows "kahn_inv groups m' (acc @ [c]) (q @ sort ready)"
proof -
  let ?open = "\<lambda>A g. int (length (filter (\<lambda>r. r \<notin> A) (needs groups g)))"
  have m: "bt_ok m" "distinct (acc @ c # q)" "set (acc @ c # q) \<subseteq> group_names groups"
    "dget m g = ?open (set acc) g" "after_needs groups (acc @ c # q)" for g
    using inv by (auto simp: kahn_inv_def)
  have zero: "g \<in> group_names groups \<Longrightarrow> g \<in> set (acc @ c # q) \<longleftrightarrow> dget m g = 0" for g
    using inv by (simp add: kahn_inv_def)
  note spec = lower_degrees_spec [OF low m(1)]
  have "c \<notin> set acc" using m(2) by simp
  then have m': "dget m' g = ?open (set (acc @ [c])) g" for g
    using spec m(4) [of g] dep [of g] count_filter_out [of c "set acc" "needs groups g"] by simp
  have count: "count_list ready g = (if 0 < dget m g \<and> dget m' g = 0 then 1 else 0)" for g
  proof -
    have "0 \<le> dget m' g" by (simp add: m')
    then show ?thesis using spec by auto
  qed
  have ready: "g \<in> set ready \<longleftrightarrow> 0 < dget m g \<and> dget m' g = 0" for g
    using count [of g] count_list_0_iff [of ready g] by (auto split: if_splits)
  have dist: "distinct ready"
    unfolding distinct_count_atmost_1 using count ready by (simp add: count_mset)
  have names: "g \<in> set ready \<Longrightarrow> g \<in> group_names groups" for g
    using ready [of g] m(4) [of g] needs_names [of g groups] by fastforce
  have new: "g \<in> set ready \<Longrightarrow> g \<notin> set (acc @ c # q)" for g
    using ready [of g] names [of g] zero [of g] by auto
  have met: "set (needs groups g) \<subseteq> set (acc @ c # q)" if "g \<in> set ready" for g
    using m' [of g] ready [of g] that by (auto simp: filter_empty_conv)
  show ?thesis
    unfolding kahn_inv_def
  proof (intro conjI ballI allI)
    show "bt_ok m'" using spec by simp
    show "distinct ((acc @ [c]) @ q @ sort ready)" using m(2) dist new by auto
    show "set ((acc @ [c]) @ q @ sort ready) \<subseteq> group_names groups" using m(3) names by auto
    show "dget m' g = ?open (set (acc @ [c])) g" for g by (rule m')
    show "g \<in> set ((acc @ [c]) @ q @ sort ready) \<longleftrightarrow> dget m' g = 0" if "g \<in> group_names groups" for g
    proof -
      have "dget m g = 0 \<Longrightarrow> dget m' g = 0" using m(4) [of g] m' [of g] by (auto simp: filter_empty_conv)
      moreover have "0 \<le> dget m g" by (simp add: m(4))
      ultimately show ?thesis using zero [OF that] ready [of g] by auto
    qed
    show "after_needs groups ((acc @ [c]) @ q @ sort ready)"
      using after_needs_append [OF m(5), of "sort ready"] met by simp
  qed
qed

lemma kahn_ends:
  assumes "kahn_inv groups m acc q" and "\<And>r g. count_list (lget dep r) g = count_list (needs groups g) r"
  shows "\<exists>order m'. kahn dep m acc q = Some order \<and> kahn_inv groups m' order []"
  using assms(1)
proof (induction "card (group_names groups - set acc)" arbitrary: m acc q rule: less_induct)
  case less
  show ?case
  proof (cases q)
    case Nil
    then show ?thesis using less.prems by (auto simp: kahn.simps [of _ _ _ "[]"])
  next
    case (Cons c r)
    obtain m' ready where low: "lower_degrees (lget dep c) m = (m', ready)" by force
    have inv: "kahn_inv groups m' (acc @ [c]) (r @ sort ready)"
      using kahn_step [OF less.prems [unfolded Cons] assms(2) low] .
    have "c \<in> group_names groups - set acc" using less.prems Cons by (auto simp: kahn_inv_def)
    then have "card (group_names groups - set (acc @ [c])) < card (group_names groups - set acc)"
      by (intro psubset_card_mono) (auto simp: group_names_def)
    from less.hyps [OF this inv] show ?thesis
      using low unfolding Cons by (subst kahn.simps) (simp add: lget_def Let_def)
  qed
qed

section \<open>Properties\<close>

lemma after_needs_deps_first: "after_needs groups ids \<Longrightarrow> fst ` requires_rel groups \<subseteq> set ids \<Longrightarrow> deps_first (requires_rel groups) ids"
  unfolding deps_first_def
proof clarify
  fix a b assume ids: "after_needs groups ids" "fst ` requires_rel groups \<subseteq> set ids" and ab: "(a, b) \<in> requires_rel groups"
  then have "a \<in> set ids" by force
  then obtain xs ys where a: "ids = xs @ a # ys" by (meson split_list)
  then have "b \<in> set xs" using ids(1) ab by (auto simp: after_needs_def requires_rel_def)
  then obtain us vs where "xs = us @ b # vs" by (meson split_list)
  then show "\<exists>ys zs. ids = ys @ b # zs \<and> a \<in> set zs" using a by (intro exI [of _ us] exI [of _ "vs @ a # ys"]) simp
qed

lemma deps_first_acyclic:
  assumes "distinct ids" and "deps_first r ids"
  shows "acyclic r"
proof -
  let ?pos = "\<lambda>a. the_inv_into {..<length ids} (nth ids) a"
  have pos: "?pos (ids ! k) = k" if "k < length ids" for k
    using assms(1) that by (intro the_inv_into_f_f) (auto simp: inj_on_nth)
  have "r \<subseteq> (measure ?pos)\<inverse>"
  proof (rule subrelI)
    fix a b assume "(a, b) \<in> r"
    then obtain ys zs where ids: "ids = ys @ b # zs" "a \<in> set zs" using assms(2) by (auto simp: deps_first_def)
    then obtain us vs where "zs = us @ a # vs" by (meson split_list)
    with ids have "ids ! length ys = b" "ids ! (length ys + Suc (length us)) = a"
      "length ys + Suc (length us) < length ids" by (simp_all add: nth_append)
    then have "?pos b = length ys" "?pos a = length ys + Suc (length us)" using pos by fastforce+
    then show "(a, b) \<in> (measure ?pos)\<inverse>" by simp
  qed
  then show ?thesis by (meson acyclic_converse acyclic_subset wf_acyclic wf_measure)
qed

lemma wf_covers:
  assumes "acyclic r" and "finite r" and "\<And>g. g \<in> G \<Longrightarrow> (\<And>h. (g, h) \<in> r \<Longrightarrow> h \<in> S) \<Longrightarrow> g \<in> S"
    and "\<And>g h. (g, h) \<in> r \<Longrightarrow> h \<in> G" and "g \<in> G"
  shows "g \<in> S"
proof -
  have "wf (r\<inverse>)" using assms(1,2) by (simp add: finite_acyclic_wf_converse)
  then show ?thesis using \<open>g \<in> G\<close>
  proof (induction g rule: wf_induct_rule)
    case (less g)
    then show ?case using assms(3,4) by blast
  qed
qed

lemma finite_requires_rel: "finite (requires_rel groups)"
proof (rule finite_subset)
  show "requires_rel groups \<subseteq> group_names groups \<times> (\<Union>g \<in> group_names groups. set (needs groups g))"
    using needs_names by (fastforce simp: requires_rel_def)
qed (auto simp: group_names_def)

lemma kahn_all:
  assumes inv: "kahn_inv groups m order []" and "acyclic (requires_rel groups)"
    and "\<And>g. set (needs groups g) \<subseteq> group_names groups"
  shows "set order = group_names groups"
proof
  show "set order \<subseteq> group_names groups" using inv by (simp add: kahn_inv_def)
  show "group_names groups \<subseteq> set order"
  proof
    fix g assume "g \<in> group_names groups"
    then show "g \<in> set order"
    proof (rule wf_covers [OF assms(2) finite_requires_rel, rotated -1])
      fix g assume g: "g \<in> group_names groups" and met: "\<And>h. (g, h) \<in> requires_rel groups \<Longrightarrow> h \<in> set order"
      have "filter (\<lambda>r. r \<notin> set order) (needs groups g) = []"
        using met by (auto simp: filter_empty_conv requires_rel_def)
      moreover have "dget m g = int (length (filter (\<lambda>r. r \<notin> set order) (needs groups g)))"
        using inv by (simp add: kahn_inv_def)
      ultimately have "dget m g = 0" by simp
      then show "g \<in> set order" using inv g by (auto simp: kahn_inv_def)
    qed (use assms(3) in \<open>auto simp: requires_rel_def\<close>)
  qed
qed

lemma bt_ok_distinct: "bt_ok m \<Longrightarrow> distinct (map fst m)"
  by (simp add: bt_ok_def strict_sorted_iff)

lemma kahn_start:
  assumes "add_groups (group_names groups) groups ([], []) = Inr (dep, deg)"
  shows "kahn_inv groups deg [] (sort (map fst (filter (\<lambda>(_, d). d = 0) deg)))"
    and "\<And>r g. count_list (lget dep r) g = count_list (needs groups g) r"
    and "\<And>g. set (needs groups g) \<subseteq> group_names groups"
proof -
  note spec = add_groups_spec [OF assms bt_ok_Nil bt_ok_Nil]
  show "\<And>r g. count_list (lget dep r) g = count_list (needs groups g) r"
    and "\<And>g. set (needs groups g) \<subseteq> group_names groups"
    using spec by (simp_all add: lget_def unwrap_list_def)
  have deg: "bt_ok deg" "dget deg g = int (length (needs groups g))" "bt_get deg g = None \<longleftrightarrow> g \<notin> group_names groups" for g
    using spec by (simp_all add: dget_def)
  have "(g, d) \<in> set deg \<longleftrightarrow> bt_get deg g = Some d" for g d
    using deg(1) bt_ok_distinct [of deg] by (simp add: bt_get_map_of)
  then have "g \<in> set (map fst (filter (\<lambda>(_, d). d = 0) deg)) \<longleftrightarrow> bt_get deg g = Some 0" for g
    by force
  then have zero: "g \<in> set (map fst (filter (\<lambda>(_, d). d = 0) deg)) \<longleftrightarrow> g \<in> group_names groups \<and> dget deg g = 0" for g
    using deg(3) [of g] by (auto simp: dget_def split: option.splits)
  have "distinct (map fst (filter (\<lambda>(_, d). d = 0) deg))"
    by (rule distinct_map_filter [OF bt_ok_distinct [OF deg(1)]])
  moreover have "after_needs groups (sort (map fst (filter (\<lambda>(_, d). d = 0) deg)))"
    (is "after_needs groups ?q")
  proof -
    have "needs groups g = []" if "g \<in> set ?q" for g
      using that zero [of g] deg(2) [of g] by (simp only: set_sort) simp
    then have "after_needs groups ([] @ ?q)"
      by (intro after_needs_append) (simp_all add: after_needs_def)
    then show ?thesis by simp
  qed
  ultimately show "kahn_inv groups deg [] (sort (map fst (filter (\<lambda>(_, d). d = 0) deg)))"
    using deg(1,2) zero unfolding kahn_inv_def by (simp only: set_sort distinct_sort append_Nil list.set(1)) auto
qed

lemma resolve_group_order_spec:
  "\<exists>res. resolve_group_order groups = Some res \<and>
    (case res of
      Inr order \<Rightarrow> distinct (map pg_group groups) \<and> (\<forall>g. set (needs groups g) \<subseteq> group_names groups) \<and>
        mset order = mset (map pg_group groups) \<and> deps_first (requires_rel groups) order
    | Inl e \<Rightarrow> \<not> distinct (map pg_group groups) \<or> (\<exists>g. \<not> set (needs groups g) \<subseteq> group_names groups) \<or>
        \<not> acyclic (requires_rel groups))"
proof (cases "add_groups (group_names groups) groups ([], [])")
  case (Inl e)
  then show ?thesis using add_groups_fails [OF Inl] by (auto simp: resolve_group_order_def group_names_def)
next
  case (Inr st)
  obtain dep deg where st: "st = (dep, deg)" by force
  note start = kahn_start [OF Inr [unfolded st]]
  obtain order m' where k: "kahn dep deg [] (sort (map fst (filter (\<lambda>(_, d). d = 0) deg))) = Some order"
    and inv: "kahn_inv groups m' order []" using kahn_ends [OF start(1,2)] by blast
  have sub: "distinct order" "set order \<subseteq> group_names groups" "after_needs groups order"
    using inv by (simp_all add: kahn_inv_def)
  let ?names = "map pg_group groups"
  have res: "resolve_group_order groups = Some (if length order \<noteq> length groups
      then Inl ''Cycle detected in group requires dependencies'' else Inr order)"
    using Inr k st by (simp add: resolve_group_order_def group_names_def)
  have len: "length order = card (set order)" using sub(1) by (simp add: distinct_card)
  show ?thesis
  proof (cases "length order = length groups")
    case True
    have "card (set order) \<le> card (set ?names)" using sub(2) by (simp add: card_mono group_names_def)
    then have dist: "distinct ?names"
      using True len card_length [of ?names] by (simp add: card_distinct)
    have "set order = set ?names"
      using True len sub(2) distinct_card [OF dist] by (intro card_subset_eq) (auto simp: group_names_def)
    then have "mset order = mset ?names"
      using set_eq_iff_mset_eq_distinct [OF sub(1) dist] by simp
    moreover have "fst ` requires_rel groups \<subseteq> set order"
      using needs_names \<open>set order = set ?names\<close> by (fastforce simp: requires_rel_def group_names_def)
    ultimately show ?thesis using res True dist start(3) after_needs_deps_first [OF sub(3)]
      by (simp flip: group_names_def)
  next
    case False
    have "\<not> distinct ?names" if "acyclic (requires_rel groups)"
    proof
      assume "distinct ?names"
      then show False
        using kahn_all [OF inv that start(3)] False len distinct_card [of ?names] by (simp add: group_names_def)
    qed
    then show ?thesis using res False by auto
  qed
qed

text \<open>
  C27: Resolving the order of the orchestration groups always ends. It succeeds exactly when the
  group names are distinct, every required group exists and the requirements have no cycle; the
  order is then a permutation of the groups in which each group stands after every group it
  requires.
\<close>

theorem resolve_group_order_correct:
  "\<exists>res. resolve_group_order groups = Some res \<and>
    ((\<exists>order. res = Inr order) =
      (distinct (map pg_group groups) \<and> snd ` requires_rel groups \<subseteq> set (map pg_group groups) \<and> acyclic (requires_rel groups))) \<and>
    (case res of Inl e \<Rightarrow> True
     | Inr order \<Rightarrow> mset order = mset (map pg_group groups) \<and> deps_first (requires_rel groups) order)"
proof -
  obtain res where res: "resolve_group_order groups = Some res" and spec: "case res of
      Inr order \<Rightarrow> distinct (map pg_group groups) \<and> (\<forall>g. set (needs groups g) \<subseteq> group_names groups) \<and>
        mset order = mset (map pg_group groups) \<and> deps_first (requires_rel groups) order
    | Inl e \<Rightarrow> \<not> distinct (map pg_group groups) \<or> (\<exists>g. \<not> set (needs groups g) \<subseteq> group_names groups) \<or>
        \<not> acyclic (requires_rel groups)"
    using resolve_group_order_spec by blast
  have known: "snd ` requires_rel groups \<subseteq> group_names groups \<longleftrightarrow> (\<forall>g. set (needs groups g) \<subseteq> group_names groups)"
  proof -
    have "snd ` requires_rel groups = (\<Union>g. set (needs groups g))" by (force simp: requires_rel_def)
    then show ?thesis by (simp add: UN_subset_iff)
  qed
  then have known': "snd ` requires_rel groups \<subseteq> set (map pg_group groups) \<longleftrightarrow> (\<forall>g. set (needs groups g) \<subseteq> group_names groups)"
    by (simp add: group_names_def)
  show ?thesis
  proof (cases res)
    case (Inl e)
    then show ?thesis unfolding known' using res spec by simp
  next
    case (Inr order)
    then have "acyclic (requires_rel groups)"
      using spec deps_first_acyclic [of order] mset_eq_imp_distinct_iff [of order "map pg_group groups"] by simp
    then show ?thesis unfolding known' using res spec Inr by simp
  qed
qed

end
