(* ===== verification/Group_Run.thy ===== *)
theory Group_Run
  imports Topological_Run Group_Order
begin

text \<open>
  The run by orchestration groups, \<open>run_orchestrated\<close> and \<open>execute_group\<close> of
  \<open>crates/agm-cli/src/runtime/scheduler.rs\<close>. The outer option is \<open>None\<close> for a panic (the
  \<open>unwrap\<close> of a group that is not found) or a loop that does not end.
\<close>

section \<open>One group\<close>

definition group_finished :: "execution_status \<Rightarrow> bool" where
  "group_finished st \<longleftrightarrow> st = Completed \<or> st = Skipped \<or> st = Blocked \<or> st = Failed"

definition has_status :: "(execution_status \<Rightarrow> bool) \<Rightarrow> tracker \<Rightarrow> string \<Rightarrow> bool" where
  "has_status P tr i = (case tracker_node_state tr i of None \<Rightarrow> False | Some ns \<Rightarrow> P (ns_execution_status ns))"

fun group_serial :: "'x run_env \<Rightarrow> string list \<Rightarrow> 'x run_state \<Rightarrow> node_result list res \<times> 'x run_state" where
  "group_serial e [] s = (Inr [], s)"
| "group_serial e (i # ids) s =
     (if has_status group_finished (rs_tracker s) i then group_serial e ids s
      else
        (let s1 = (if has_status (\<lambda>st. st = Pending) (rs_tracker s) i then snd (do_transition e i Ready s) else s) in
         case node_map (re_file e) i of
           None \<Rightarrow> group_serial e ids s1
         | Some n \<Rightarrow>
             st_bind (execute_node e n) (\<lambda>r.
               if nr_status r = Failed \<and> rc_fail_fast (re_config e) then st_return [r]
               else st_bind (group_serial e ids) (\<lambda>rs. st_return (r # rs))) s1))"

text \<open>\<open>slice::chunks\<close>.\<close>

function chunks :: "nat \<Rightarrow> 'a list \<Rightarrow> 'a list list" where
  "chunks n xs = (if n = 0 \<or> xs = [] then [] else take n xs # chunks n (drop n xs))"
  by pat_completeness auto
termination by (relation "measure (\<lambda>(n, xs). length xs)") (auto intro: diff_less)

declare chunks.simps [simp del]

fun group_parallel ::
  "'x run_env \<Rightarrow> string list list \<Rightarrow> 'x run_state \<Rightarrow> node_result list res \<times> 'x run_state" where
  "group_parallel e [] s = (Inr [], s)"
| "group_parallel e (batch # batches) s =
     st_bind (dispatch_parallel e batch) (\<lambda>rs.
       if list_ex (\<lambda>r. nr_status r = Failed) rs \<and> rc_fail_fast (re_config e) then st_return rs
       else st_bind (group_parallel e batches) (\<lambda>rest. st_return (rs @ rest))) s"

definition execute_group ::
  "'x run_env \<Rightarrow> string list \<Rightarrow> nat \<Rightarrow> 'x run_state \<Rightarrow> node_result list res \<times> 'x run_state" where
  "execute_group e ids concurrency s =
     (if concurrency \<le> 1 then group_serial e ids s
      else group_parallel e (chunks concurrency (filter (has_status blockable (rs_tracker s)) ids)) s)"

section \<open>All groups\<close>

definition effective_concurrency :: "run_config \<Rightarrow> parallel_group \<Rightarrow> nat" where
  "effective_concurrency cfg g =
     (case pg_strategy g of
        Sequential \<Rightarrow> 1
      | Parallel \<Rightarrow> (case pg_max_concurrency g of Some mc \<Rightarrow> unat mc | None \<Rightarrow> rc_max_concurrency cfg))"

definition find_group :: "parallel_group list \<Rightarrow> string \<Rightarrow> parallel_group option" where
  "find_group groups name = find (\<lambda>g. pg_group g = name) groups"

text \<open>The loop over the groups in order; \<open>done\<close> are the completed groups.\<close>

fun run_groups ::
  "'x run_env \<Rightarrow> parallel_group list \<Rightarrow> string set \<Rightarrow> node_result list \<Rightarrow> bool \<Rightarrow> string list \<Rightarrow>
   'x run_state \<Rightarrow> (node_result list res \<times> 'x run_state) option" where
  "run_groups e groups completed results had_failure [] s = Some (Inr results, s)"
| "run_groups e groups completed results had_failure (name # names) s =
     (if (case rc_target_group (re_config e) of None \<Rightarrow> False | Some target \<Rightarrow> name \<noteq> target)
      then run_groups e groups completed results had_failure names s
      else
        (case find_group groups name of
           None \<Rightarrow> None
         | Some g \<Rightarrow>
             (case find (\<lambda>req. req \<notin> completed) (unwrap_list (pg_requires g)) of
                Some req \<Rightarrow>
                  Some (Inl (''Group '' @ sq name @ '' requires '' @ sq req @ '' which is not completed''), s)
              | None \<Rightarrow>
                  (case execute_group e (pg_nodes g) (effective_concurrency (re_config e) g) s of
                     (Inl err, s') \<Rightarrow> Some (Inl err, s')
                   | (Inr rs, s') \<Rightarrow>
                       (let failed = (had_failure \<or> list_ex (\<lambda>r. nr_status r = Failed) rs) in
                        if failed \<and> rc_fail_fast (re_config e) then Some (Inr (results @ rs), s')
                        else run_groups e groups (insert name completed) (results @ rs) failed names s')))))"

definition build_orchestrated_dry_run_report ::
  "'x run_env \<Rightarrow> parallel_group list \<Rightarrow> string list \<Rightarrow> nat \<Rightarrow> 'x run_state \<Rightarrow> run_report res \<times> 'x run_state" where
  "build_orchestrated_dry_run_report e groups order =
     dry_report e (concat (map (\<lambda>name.
       case find_group groups name of
         None \<Rightarrow> []
       | Some g \<Rightarrow> map (dry_run_result (''Dry-run: group '' @ sq (pg_group g) @ '', strategy: '' @
           show_strategy (pg_strategy g) @ '', would execute'')) (pg_nodes g)) order))"

definition run_orchestrated ::
  "'x host \<Rightarrow> relation_kind petgraph \<Rightarrow> 'x agent \<Rightarrow> agm_file \<Rightarrow> node \<Rightarrow> run_config \<Rightarrow> 'x run_state \<Rightarrow>
   (run_report res \<times> 'x run_state) option" where
  "run_orchestrated h pg agent file orchestration cfg s0 =
     (let (start, w) = instant_now h (rs_world s0);
          s = s0\<lparr>rs_world := w\<rparr>;
          e = \<lparr>re_host = h, re_pg = pg, re_agent = agent, re_file = file,
               re_graph = build_graph file, re_config = cfg\<rparr> in
      case n_parallel_groups orchestration of
        None \<Rightarrow> Some (Inl (''Orchestration node '' @ sq (n_id orchestration) @ '' has no parallel_groups''), s)
      | Some groups \<Rightarrow>
          (case resolve_group_order groups of
             None \<Rightarrow> None
           | Some (Inl err) \<Rightarrow> Some (Inl err, s)
           | Some (Inr order) \<Rightarrow>
               if rc_dry_run cfg then Some (build_orchestrated_dry_run_report e groups order start s)
               else map_option (\<lambda>(r, s'). case r of
                   Inl err \<Rightarrow> (Inl err, s')
                 | Inr results \<Rightarrow> build_report e results start s')
                 (run_groups e groups {} [] False order s)))"

section \<open>The results of a group\<close>

text \<open>The results so far: each node once, its status in the tracker final.\<close>

definition settled :: "node_result list \<Rightarrow> tracker \<Rightarrow> bool" where
  "settled results tr \<longleftrightarrow> distinct (map nr_node_id results) \<and>
     (\<forall>r \<in> set results. (nr_status r = Completed \<or> nr_status r = Failed) \<and>
        status_of tr (nr_node_id r) = Some (nr_status r))"

lemma settled_round:
  assumes "settled results tr" and "round_effect pg ids rs tr tr'"
  shows "settled (results @ rs) tr'"
proof -
  have rs: "map nr_node_id rs = ids" "distinct ids" "\<And>r. r \<in> set rs \<Longrightarrow> nr_status r = Completed \<or> nr_status r = Failed"
    "\<And>i. i \<in> set ids \<Longrightarrow> status_of tr i = Some Pending \<or> status_of tr i = Some Ready"
    using assms(2) unfolding round_effect_def by blast+
  have old: "nr_node_id r \<notin> set ids" "status_of tr' (nr_node_id r) = Some (nr_status r)" if "r \<in> set results" for r
  proof -
    have st: "status_of tr (nr_node_id r) = Some Completed \<or> status_of tr (nr_node_id r) = Some Failed"
      "status_of tr (nr_node_id r) = Some (nr_status r)"
      using assms(1) that by (auto simp: settled_def)
    then show out: "nr_node_id r \<notin> set ids" using rs(4) by fastforce
    show "status_of tr' (nr_node_id r) = Some (nr_status r)"
      using round_effect_status(2) [OF assms(2) out] st by auto
  qed
  then show ?thesis
    using assms(1) rs(1-3) round_effect_status(1) [OF assms(2)] by (auto simp: settled_def)
qed

lemma settled_promote:
  assumes "settled results (rs_tracker s)" and "status_of (rs_tracker s) i = Some Pending"
  shows "settled results (rs_tracker (snd (do_transition e i Ready s)))"
proof -
  obtain s1 where t: "do_transition e i Ready s = (Inr (), s1)"
    using do_transition_ok [OF assms(2), of Ready e] by auto
  have "nr_node_id r \<noteq> i" if "r \<in> set results" for r
    using assms that by (auto simp: settled_def)
  then show ?thesis
    using do_transition_Inr(2) [OF t] assms(1) by (auto simp: settled_def becomes_def t)
qed

lemma has_status_Pending: "has_status (\<lambda>st. st = Pending) tr i \<longleftrightarrow> status_of tr i = Some Pending"
  by (auto simp: has_status_def status_of_def tracker_node_state_def split: option.splits)

lemma group_serial_settled:
  assumes "hash_order_ok (re_env e)"
  shows "group_serial e ids s = (Inr rs, s') \<Longrightarrow> settled results (rs_tracker s) \<Longrightarrow>
    settled (results @ rs) (rs_tracker s') \<and> nr_node_id ` set rs \<subseteq> set ids"
  using assms
proof (induction e ids s arbitrary: rs results rule: group_serial.induct)
  case (2 e i ids s)
  show ?case
  proof (cases "has_status group_finished (rs_tracker s) i")
    case True
    then show ?thesis using "2.IH"(1) [OF True] "2.prems" by auto
  next
    case False
    let ?s1 = "if has_status (\<lambda>st. st = Pending) (rs_tracker s) i then snd (do_transition e i Ready s) else s"
    have st1: "settled results (rs_tracker ?s1)"
      using "2.prems"(2) settled_promote [of results s i e] by (simp add: has_status_Pending)
    show ?thesis
    proof (cases "node_map (re_file e) i")
      case None
      then show ?thesis
        using "2.IH"(2) [OF False refl None _ st1 "2.prems"(3)] "2.prems"(1) False by (auto simp: Let_def)
    next
      case (Some n)
      then have i: "n_id n = i" using node_map_Some_id by blast
      obtain r s2 where x: "execute_node e n ?s1 = (Inr r, s2)"
        and k: "(if nr_status r = Failed \<and> rc_fail_fast (re_config e) then st_return [r]
          else st_bind (group_serial e ids) (\<lambda>rs. st_return (r # rs))) s2 = (Inr rs, s')"
        using "2.prems"(1) False Some by (auto simp: Let_def st_bind_Inr)
      note st2 = settled_round [OF st1 execute_node_effect [OF "2.prems"(3) x]]
      have r: "nr_node_id r = i" using execute_node_effect [OF "2.prems"(3) x] i by (simp add: round_effect_def)
      show ?thesis
      proof (cases "nr_status r = Failed \<and> rc_fail_fast (re_config e)")
        case True
        then show ?thesis using k st2 r by simp
      next
        case stay: False
        then obtain rest where rest: "group_serial e ids s2 = (Inr rest, s')" "rs = r # rest"
          using k by (auto simp: st_bind_Inr)
        from "2.IH"(3) [OF False refl Some stay rest(1) st2 "2.prems"(3)] show ?thesis
          using rest(2) r by auto
      qed
    qed
  qed
qed auto

lemma group_parallel_settled:
  assumes "hash_order_ok (re_env e)"
  shows "group_parallel e batches s = (Inr rs, s') \<Longrightarrow> settled results (rs_tracker s) \<Longrightarrow>
    settled (results @ rs) (rs_tracker s') \<and> nr_node_id ` set rs \<subseteq> set (concat batches)"
  using assms
proof (induction e batches s arbitrary: rs results rule: group_parallel.induct)
  case (2 e batch batches s)
  obtain rs1 s1 where d: "dispatch_parallel e batch s = (Inr rs1, s1)"
    and k: "(if list_ex (\<lambda>r. nr_status r = Failed) rs1 \<and> rc_fail_fast (re_config e) then st_return rs1
      else st_bind (group_parallel e batches) (\<lambda>rest. st_return (rs1 @ rest))) s1 = (Inr rs, s')"
    using "2.prems"(1) by (auto simp: st_bind_Inr)
  note eff = dispatch_parallel_effect [OF "2.prems"(3) d]
  note st1 = settled_round [OF "2.prems"(2) eff]
  have ids: "nr_node_id ` set rs1 = set batch" using eff by (auto simp: round_effect_def)
  show ?case
  proof (cases "list_ex (\<lambda>r. nr_status r = Failed) rs1 \<and> rc_fail_fast (re_config e)")
    case True
    then show ?thesis using k st1 ids by simp
  next
    case stay: False
    then obtain rest where rest: "group_parallel e batches s1 = (Inr rest, s')" "rs = rs1 @ rest"
      using k by (auto simp: st_bind_Inr)
    from "2.IH" [OF stay rest(1) st1 "2.prems"(3)] show ?thesis using rest(2) ids by auto
  qed
qed auto

lemma concat_chunks: "0 < n \<Longrightarrow> concat (chunks n xs) = xs"
proof (induction n xs rule: chunks.induct)
  case (1 n xs)
  show ?case
  proof (cases "xs = []")
    case True
    then show ?thesis by (simp add: chunks.simps [of n "[]"])
  next
    case False
    then show ?thesis using 1 by (simp add: chunks.simps [of n xs])
  qed
qed

lemma execute_group_settled:
  assumes "hash_order_ok (re_env e)" and "execute_group e ids c s = (Inr rs, s')" and "settled results (rs_tracker s)"
  shows "settled (results @ rs) (rs_tracker s')" and "nr_node_id ` set rs \<subseteq> set ids"
proof -
  have "settled (results @ rs) (rs_tracker s') \<and> nr_node_id ` set rs \<subseteq> set ids"
  proof (cases "c \<le> 1")
    case True
    then show ?thesis using group_serial_settled [OF assms(1) _ assms(3)] assms(2) by (simp add: execute_group_def)
  next
    case False
    let ?ids = "filter (has_status blockable (rs_tracker s)) ids"
    have "group_parallel e (chunks c ?ids) s = (Inr rs, s')" using False assms(2) by (simp add: execute_group_def)
    from group_parallel_settled [OF assms(1) this assms(3)]
    have "settled (results @ rs) (rs_tracker s') \<and> nr_node_id ` set rs \<subseteq> set (concat (chunks c ?ids))" .
    then show ?thesis using concat_chunks [of c ?ids] False by auto
  qed
  then show "settled (results @ rs) (rs_tracker s')" and "nr_node_id ` set rs \<subseteq> set ids" by blast+
qed

section \<open>The run over the groups\<close>

definition group_nodes :: "parallel_group list \<Rightarrow> string \<Rightarrow> string set" where
  "group_nodes groups name = (case find_group groups name of None \<Rightarrow> {} | Some g \<Rightarrow> set (pg_nodes g))"

text \<open>The results fall into consecutive parts, one per group in the order of the groups.\<close>

fun in_group_order :: "parallel_group list \<Rightarrow> string list \<Rightarrow> node_result list \<Rightarrow> bool" where
  "in_group_order groups [] rs \<longleftrightarrow> rs = []"
| "in_group_order groups (name # names) rs \<longleftrightarrow>
     (\<exists>k. nr_node_id ` set (take k rs) \<subseteq> group_nodes groups name \<and> in_group_order groups names (drop k rs))"

lemma in_group_order_Nil [simp]: "in_group_order groups names []"
  by (induction names) auto

lemma in_group_order_append:
  assumes "nr_node_id ` set rs \<subseteq> group_nodes groups name" and "in_group_order groups names rest"
  shows "in_group_order groups (name # names) (rs @ rest)"
  using assms by (auto intro!: exI [of _ "length rs"])

lemma run_groups_settled:
  assumes "hash_order_ok (re_env e)"
  shows "run_groups e groups completed results failed names s = Some (Inr results', s') \<Longrightarrow>
    settled results (rs_tracker s) \<Longrightarrow>
    settled results' (rs_tracker s') \<and> (\<exists>rs. results' = results @ rs \<and> in_group_order groups names rs)"
  using assms
proof (induction e groups completed results failed names s rule: run_groups.induct)
  case (2 e groups completed results failed name names s)
  show ?case
  proof (cases "case rc_target_group (re_config e) of None \<Rightarrow> False | Some target \<Rightarrow> name \<noteq> target")
    case True
    from "2.IH"(1) [OF True _ "2.prems"(2,3)] "2.prems"(1) True show ?thesis
      using in_group_order_append [of "[]" groups name names] by auto
  next
    case run: False
    then obtain g where g: "find_group groups name = Some g" using "2.prems"(1) by (cases "find_group groups name") auto
    then have met: "find (\<lambda>req. req \<notin> completed) (unwrap_list (pg_requires g)) = None"
      using "2.prems"(1) run by (auto split: option.splits)
    obtain r s1 where x: "execute_group e (pg_nodes g) (effective_concurrency (re_config e) g) s = (r, s1)" by force
    then obtain rs where r: "r = Inr rs" using "2.prems"(1) run g met by (cases r) auto
    note st = execute_group_settled [OF "2.prems"(3) x [unfolded r] "2.prems"(2)]
    have part: "nr_node_id ` set rs \<subseteq> group_nodes groups name" using st(2) g by (simp add: group_nodes_def)
    let ?failed = "failed \<or> list_ex (\<lambda>r. nr_status r = Failed) rs"
    show ?thesis
    proof (cases "?failed \<and> rc_fail_fast (re_config e)")
      case True
      then have "results' = results @ rs" "s' = s1"
        using "2.prems"(1) run g met x r by (auto simp: Let_def)
      then show ?thesis using st(1) in_group_order_append [OF part, of names "[]"] by auto
    next
      case False
      then have rec: "run_groups e groups (insert name completed) (results @ rs) ?failed names s1 = Some (Inr results', s')"
        using "2.prems"(1) run g met x r by (auto simp: Let_def)
      from "2.IH"(2) [OF run g met x [symmetric, unfolded r] refl refl False rec st(1) "2.prems"(3)]
      show ?thesis using in_group_order_append [OF part] by fastforce
    qed
  qed
qed auto

lemma find_group_named: "name \<in> set (map pg_group groups) \<Longrightarrow> find_group groups name \<noteq> None"
  by (auto simp: find_group_def find_None_iff)

lemma run_groups_returns:
  "set names \<subseteq> set (map pg_group groups) \<Longrightarrow> run_groups e groups completed results failed names s \<noteq> None"
proof (induction e groups completed results failed names s rule: run_groups.induct)
  case (2 e groups completed results failed name names s)
  then obtain g where g: "find_group groups name = Some g"
    using find_group_named [of name groups] by auto
  obtain r s1 where x: "execute_group e (pg_nodes g) (effective_concurrency (re_config e) g) s = (r, s1)" by force
  show ?case
    using 2 g x by (cases r) (auto simp: Let_def split: option.split)
qed simp

lemma resolved_groups:
  assumes "resolve_group_order groups = Some (Inr order)"
  shows "distinct order" and "set order = set (map pg_group groups)" and "distinct (map pg_group groups)"
    and "deps_first (requires_rel groups) order"
proof -
  have "distinct (map pg_group groups) \<and> mset order = mset (map pg_group groups) \<and> deps_first (requires_rel groups) order"
    using resolve_group_order_spec [of groups] assms by auto
  then show "distinct order" and "set order = set (map pg_group groups)" and "distinct (map pg_group groups)"
    and "deps_first (requires_rel groups) order"
    using mset_eq_imp_distinct_iff mset_eq_setD by blast+
qed

lemma find_group_distinct:
  "distinct (map pg_group groups) \<Longrightarrow> g \<in> set groups \<Longrightarrow> find_group groups (pg_group g) = Some g"
  unfolding find_group_def by (induction groups) (auto simp: image_iff)

lemma run_groups_target:
  assumes "rc_target_group (re_config e) = Some (pg_group g)" and "find_group groups (pg_group g) = Some g"
    and "unwrap_list (pg_requires g) \<noteq> []" and "pg_group g \<in> set names"
  shows "\<exists>err. run_groups e groups {} results failed names s = Some (Inl err, s)"
  using assms(4)
proof (induction names)
  case (Cons name names)
  show ?case
  proof (cases "name = pg_group g")
    case True
    then show ?thesis using assms(1-3) by (cases "unwrap_list (pg_requires g)") auto
  next
    case False
    then show ?thesis using Cons assms(1) by auto
  qed
qed simp

section \<open>Properties\<close>

text \<open>
  A run by groups always returns, for any file, tracker, configuration and outside: the
  order of the groups is found or refused, no lookup of a group panics, and every loop ends.
\<close>

lemma run_orchestrated_returns:
  "\<exists>r s'. run_orchestrated h pg agent file orchestration cfg s = Some (r, s')"
proof -
  obtain start w where w: "instant_now h (rs_world s) = (start, w)" by force
  show ?thesis
  proof (cases "n_parallel_groups orchestration")
    case None
    then show ?thesis using w by (simp add: run_orchestrated_def)
  next
    case (Some groups)
    obtain res where res: "resolve_group_order groups = Some res" using resolve_group_order_spec by blast
    show ?thesis
    proof (cases res)
      case (Inl err)
      then show ?thesis using w Some res by (simp add: run_orchestrated_def)
    next
      case (Inr order)
      let ?e = "run_env_of h pg agent file cfg"
      have "run_groups ?e groups {} [] False order (s\<lparr>rs_world := w\<rparr>) \<noteq> None"
        by (rule run_groups_returns) (simp only: resolved_groups(2) [OF res [unfolded Inr]] order_refl)
      then obtain r s1 where "run_groups ?e groups {} [] False order (s\<lparr>rs_world := w\<rparr>) = Some (r, s1)" by fast
      then show ?thesis
        using w Some res Inr
        by (cases r) (simp_all add: run_orchestrated_def run_env_of_def Let_def build_orchestrated_dry_run_report_def
          dry_report_def build_report_def case_prod_beta)
    qed
  qed
qed

text \<open>
  C26: A run by groups is safe. Its report lists each node it ran once, completed or failed, as
  the tracker shows at the end; the results follow an order of the groups in which every group
  stands after the groups it requires, each part holding nodes of its group only.
\<close>

theorem run_orchestrated_safe:
  assumes "hash_order_ok (h_env h)" and "\<not> rc_dry_run cfg" and "n_parallel_groups orchestration = Some groups"
    and "run_orchestrated h pg agent file orchestration cfg s = Some (Inr report, s')"
  shows "\<exists>order. mset order = mset (map pg_group groups) \<and> deps_first (requires_rel groups) order \<and>
    in_group_order groups order (rr_node_results report) \<and>
    distinct (map nr_node_id (rr_node_results report)) \<and>
    (\<forall>r \<in> set (rr_node_results report). (nr_status r = Completed \<or> nr_status r = Failed) \<and>
       status_of (rs_tracker s') (nr_node_id r) = Some (nr_status r))"
proof -
  obtain start w where w: "instant_now h (rs_world s) = (start, w)" by force
  obtain res where res: "resolve_group_order groups = Some res" using resolve_group_order_spec by blast
  then obtain order where order: "res = Inr order"
    using assms(3,4) w by (cases res) (auto simp: run_orchestrated_def Let_def)
  let ?e = "run_env_of h pg agent file cfg"
  have "run_groups ?e groups {} [] False order (s\<lparr>rs_world := w\<rparr>) \<noteq> None"
    by (rule run_groups_returns) (simp only: resolved_groups(2) [OF res [unfolded order]] order_refl)
  then obtain r s1 where run: "run_groups ?e groups {} [] False order (s\<lparr>rs_world := w\<rparr>) = Some (r, s1)" by fast
  have "(case r of Inl err \<Rightarrow> (Inl err, s1) | Inr results \<Rightarrow> build_report ?e results start s1) = (Inr report, s')"
    using assms(2-4) w res order run unfolding run_env_of_def by (simp add: run_orchestrated_def Let_def)
  then obtain results where r: "r = Inr results" and b: "build_report ?e results start s1 = (Inr report, s')"
    by (cases r) auto
  then have tr: "rr_node_results report = results" "rs_tracker s' = rs_tracker s1"
    by (auto simp: build_report_def Let_def case_prod_beta)
  have "hash_order_ok (re_env ?e)" using assms(1) by (simp add: run_env_of_def)
  from run_groups_settled [OF this run [unfolded r]]
  have "settled results (rs_tracker s1)" "in_group_order groups order results"
    by (auto simp: settled_def)
  then show ?thesis
    using resolve_group_order_spec [of groups] res order unfolding tr settled_def by auto
qed

text \<open>
  With a target group that requires another group the run always ends in an error, whatever
  was run before: the groups completed so far are collected within one run, and the filter on the
  target skips the required ones.
\<close>

lemma target_group_requires_fails:
  assumes "n_parallel_groups orchestration = Some groups" and "g \<in> set groups"
    and "unwrap_list (pg_requires g) \<noteq> []" and "rc_target_group cfg = Some (pg_group g)" and "\<not> rc_dry_run cfg"
  shows "\<exists>err s'. run_orchestrated h pg agent file orchestration cfg s = Some (Inl err, s') \<and>
    rs_tracker s' = rs_tracker s"
proof -
  obtain start w where w: "instant_now h (rs_world s) = (start, w)" by force
  obtain res where res: "resolve_group_order groups = Some res" using resolve_group_order_spec by blast
  show ?thesis
  proof (cases res)
    case (Inl err)
    then show ?thesis using w res assms(1) by (simp add: run_orchestrated_def)
  next
    case (Inr order)
    note o = resolved_groups [OF res [unfolded Inr]]
    let ?e = "run_env_of h pg agent file cfg"
    have "rc_target_group (re_config ?e) = Some (pg_group g)" using assms(4) by (simp add: run_env_of_def)
    from run_groups_target [OF this find_group_distinct [OF o(3) assms(2)] assms(3)] o(2) assms(2)
    obtain err where "run_groups ?e groups {} [] False order (s\<lparr>rs_world := w\<rparr>) = Some (Inl err, s\<lparr>rs_world := w\<rparr>)"
      by fastforce
    then show ?thesis
      using w res Inr assms(1,5) by (simp add: run_orchestrated_def run_env_of_def Let_def)
  qed
qed

section \<open>Witnesses\<close>

definition sample_groups :: "parallel_group list" where
  "sample_groups =
     [\<lparr>pg_group = ''two'', pg_nodes = [''b'', ''a''], pg_strategy = Parallel, pg_requires = Some [''one''],
       pg_max_concurrency = Some 2\<rparr>,
      \<lparr>pg_group = ''one'', pg_nodes = [''c''], pg_strategy = Sequential, pg_requires = None,
       pg_max_concurrency = None\<rparr>]"

definition sample_orchestration :: node where
  "sample_orchestration = node_default\<lparr>n_id := ''orch'', n_parallel_groups := Some sample_groups\<rparr>"

lemma target_group_requires_fails_witness:
  "\<exists>err s'. run_orchestrated sample_host pg_ref sample_agent sample_chain sample_orchestration
     (run_config_default\<lparr>rc_target_group := Some ''two''\<rparr>) sample_run_state = Some (Inl err, s')"
proof -
  let ?cfg = "run_config_default\<lparr>rc_target_group := Some ''two''\<rparr>"
  have "n_parallel_groups sample_orchestration = Some sample_groups" "hd sample_groups \<in> set sample_groups"
    "unwrap_list (pg_requires (hd sample_groups)) \<noteq> []" "rc_target_group ?cfg = Some (pg_group (hd sample_groups))"
    "\<not> rc_dry_run ?cfg"
    by (simp_all add: sample_orchestration_def sample_groups_def unwrap_list_def run_config_default_def)
  from target_group_requires_fails [OF this, where h = sample_host and s = sample_run_state] show ?thesis by blast
qed

lemma sample_order: "resolve_group_order sample_groups = Some (Inr [''one'', ''two''])"
  by code_simp

lemma sample_group_run:
  "\<exists>report s'. run_orchestrated sample_host pg_ref sample_agent sample_chain sample_orchestration
     (run_config_default\<lparr>rc_target_group := Some ''one''\<rparr>) sample_run_state = Some (Inr report, s')"
proof -
  let ?cfg = "run_config_default\<lparr>rc_target_group := Some ''one''\<rparr>"
  let ?e = "run_env_of sample_host pg_ref sample_agent sample_chain ?cfg"
  obtain start w where w: "instant_now sample_host (rs_world sample_run_state) = (start, w)" by force
  let ?s = "sample_run_state\<lparr>rs_world := w\<rparr>"
  obtain n where n: "node_map (re_file ?e) ''c'' = Some n" "n_id n = ''c''"
    using node_map_ids [of sample_chain "''c''"] node_map_Some_id
    by (fastforce simp: run_env_of_def file_ids_def sample_chain_def sample_node_def)
  have st: "status_of (rs_tracker ?s) ''c'' = Some Ready" by (simp add: sample_run_state_def sample_statuses)
  have "io_ok (re_env ?e)" using sample_host_ok(2) by (simp add: run_env_of_def)
  from execute_node_ok [OF this, of ?s n] st n(2) obtain r s1 where x: "execute_node ?e n ?s = (Inr r, s1)" by auto
  have "has_status P (rs_tracker ?s) ''c'' = P Ready" for P
    using st by (auto simp: has_status_def status_of_def tracker_node_state_def)
  then have "\<exists>rs s'. group_serial ?e [''c''] ?s = (Inr rs, s')"
    using n(1) x by (simp add: group_finished_def st_bind_run st_return_def)
  moreover have "find_group sample_groups ''one'' = Some (sample_groups ! 1)"
    by (simp add: find_group_def sample_groups_def)
  moreover have "rc_target_group (re_config ?e) = Some ''one''" by (simp add: run_env_of_def)
  ultimately have "\<exists>rs s'. run_groups ?e sample_groups {} [] False [''one'', ''two''] ?s = Some (Inr rs, s')"
    by (auto simp: sample_groups_def unwrap_list_def execute_group_def effective_concurrency_def Let_def)
  then show ?thesis
    using w sample_order unfolding run_env_of_def
    by (auto simp: run_orchestrated_def sample_orchestration_def run_config_default_def build_report_def Let_def
      case_prod_beta)
qed

lemma run_orchestrated_safe_witness:
  "\<exists>report s'. run_orchestrated sample_host pg_ref sample_agent sample_chain sample_orchestration
     (run_config_default\<lparr>rc_target_group := Some ''one''\<rparr>) sample_run_state = Some (Inr report, s') \<and>
     distinct (map nr_node_id (rr_node_results report))"
proof -
  let ?cfg = "run_config_default\<lparr>rc_target_group := Some ''one''\<rparr>"
  obtain report s' where r: "run_orchestrated sample_host pg_ref sample_agent sample_chain sample_orchestration
      ?cfg sample_run_state = Some (Inr report, s')" using sample_group_run by blast
  have "\<not> rc_dry_run ?cfg" "n_parallel_groups sample_orchestration = Some sample_groups"
    by (simp_all add: run_config_default_def sample_orchestration_def)
  from run_orchestrated_safe [OF sample_host_ok(1) this r] r show ?thesis by blast
qed

end
