(* ===== verification/Shell_Agent.thy ===== *)
theory Shell_Agent
  imports Scheduler
begin

text \<open>
  The agent the program ships, \<open>ShellAgent\<close> of \<open>crates/agm-cli/src/runtime/agent.rs\<close>: code
  blocks as edits of files below the working directory or as shell commands. What the
  operating system decides is a parameter.
\<close>

section \<open>Paths\<close>

text \<open>
  The components of a path, as \<open>Path::components\<close> finds them: empty segments are skipped, and so
  is a dot except at the start.
\<close>

definition real_segment :: "nat \<times> string \<Rightarrow> bool" where
  "real_segment e \<longleftrightarrow> snd e \<noteq> [] \<and> (snd e = ''.'' \<longrightarrow> fst e = 0)"

definition path_segments :: "string \<Rightarrow> (nat \<times> string) list" where
  "path_segments p = List.enumerate 0 (split_char CHR ''/'' p)"

definition path_components :: "string \<Rightarrow> string list" where
  "path_components p =
     (if starts_with ''/'' p then [''/''] else []) @ map snd (filter real_segment (path_segments p))"

definition trim_segments :: "(nat \<times> string) list \<Rightarrow> (nat \<times> string) list" where
  "trim_segments es = rev (dropWhile (\<lambda>e. \<not> real_segment e) (rev es))"

text \<open>\<open>Path::parent\<close> and \<open>Path::file_name\<close>.\<close>

definition parent_path :: "string \<Rightarrow> string option" where
  "parent_path p =
     (let es = trim_segments (path_segments p) in
      if es = [] then None
      else
        (let ds = trim_segments (butlast es) in
         Some (if ds = [] then (if starts_with ''/'' p then ''/'' else []) else join ''/'' (map snd ds))))"

definition file_name :: "string \<Rightarrow> string option" where
  "file_name p =
     (let es = trim_segments (path_segments p) in
      if es = [] \<or> snd (last es) = ''..'' \<or> snd (last es) = ''.'' then None else Some (snd (last es)))"

text \<open>\<open>Path::starts_with\<close>.\<close>

definition path_starts_with :: "string \<Rightarrow> string \<Rightarrow> bool" where
  "path_starts_with p base \<longleftrightarrow>
     take (length (path_components base)) (path_components p) = path_components base"

section \<open>The operating system\<close>

text \<open>
  How a write ends: it may fail to open the file or stop after some bytes. \<open>sh_canonicalize\<close> is
  \<open>Path::canonicalize\<close>, \<open>sh_create_dir\<close> is \<open>create_dir_all\<close>, which changes no file. Opening a path
  follows symbolic links, in its last component too: \<open>sh_resolve\<close> is the path of the file that is
  opened, and the files of the world are held under these paths.
\<close>

datatype write_outcome = WriteOk | OpenFails string | StopsAfter nat string

record 'x shell_host = "'x host" +
  sh_canonicalize :: "string \<Rightarrow> 'x world \<Rightarrow> string option"
  sh_create_dir :: "string \<Rightarrow> 'x world \<Rightarrow> unit res \<times> 'x"
  sh_write :: "string \<Rightarrow> 'x world \<Rightarrow> write_outcome \<times> 'x"
  sh_resolve :: "string \<Rightarrow> 'x \<Rightarrow> string"

text \<open>The file a path leads to now, and that making directories and reading files change no link.\<close>

definition opened :: "('x, 'm) shell_host_scheme \<Rightarrow> string \<Rightarrow> 'x world \<Rightarrow> string" where
  "opened h path w = sh_resolve h path (w_rest w)"

definition links_kept :: "('x, 'm) shell_host_scheme \<Rightarrow> bool" where
  "links_kept h \<longleftrightarrow>
     (\<forall>p q w. sh_resolve h q (snd (sh_create_dir h p w)) = sh_resolve h q (w_rest w)) \<and>
     (\<forall>q x. sh_resolve h q (snd (env_read_fault (h_env h) x)) = sh_resolve h q x)"

text \<open>Writing \<open>content\<close> where the file holds \<open>kept\<close>: nothing for \<open>fs::write\<close>, the old content when
  appending.\<close>

definition write_file ::
  "('x, 'm) shell_host_scheme \<Rightarrow> string \<Rightarrow> string \<Rightarrow> string \<Rightarrow> 'x world \<Rightarrow> unit res \<times> 'x world" where
  "write_file h path kept content w =
     (let (res, x) = sh_write h path w; f = opened h path w in
      case res of
        WriteOk \<Rightarrow> (Inr (), \<lparr>w_files = (w_files w)(f \<mapsto> kept @ content), w_rest = x\<rparr>)
      | OpenFails e \<Rightarrow> (Inl e, w\<lparr>w_rest := x\<rparr>)
      | StopsAfter n e \<Rightarrow> (Inl e, \<lparr>w_files = (w_files w)(f \<mapsto> kept @ take n content), w_rest = x\<rparr>))"

definition create_parent ::
  "('x, 'm) shell_host_scheme \<Rightarrow> string \<Rightarrow> 'x world \<Rightarrow> unit res \<times> 'x world" where
  "create_parent h path w =
     (case parent_path path of
        None \<Rightarrow> (Inr (), w)
      | Some parent \<Rightarrow> (let (r, x) = sh_create_dir h parent w in (r, w\<lparr>w_rest := x\<rparr>)))"

section \<open>Text edits\<close>

text \<open>\<open>str::matches(p).count()\<close> and \<open>str::replacen(p, with, 1)\<close>.\<close>

function count_matches :: "string \<Rightarrow> string \<Rightarrow> nat" where
  "count_matches p s =
     (if p = [] then length (str_chars s) + 1
      else case str_find p s of
        None \<Rightarrow> 0
      | Some i \<Rightarrow> Suc (count_matches p (drop (i + length p) s)))"
  by pat_completeness auto
termination
proof (relation "measure (\<lambda>(p, s). length s)")
  fix p s :: string and i
  assume p: "p \<noteq> []" and i: "str_find p s = Some i"
  have "s \<noteq> []" using p i by auto
  then show "((p, drop (i + length p) s), p, s) \<in> measure (\<lambda>(p, s). length s)" using p by simp
qed simp

declare count_matches.simps [simp del]

definition replace_first :: "string \<Rightarrow> string \<Rightarrow> string \<Rightarrow> string" where
  "replace_first p new s =
     (case str_find p s of None \<Rightarrow> s | Some i \<Rightarrow> take i s @ new @ drop (i + length p) s)"

section \<open>File actions\<close>

definition has_dotdot :: "string \<Rightarrow> bool" where
  "has_dotdot p \<longleftrightarrow> ''..'' \<in> set (path_components p)"

text \<open>\<open>Path::exists\<close>, which follows links.\<close>

definition target_exists :: "('x, 'm) shell_host_scheme \<Rightarrow> string \<Rightarrow> 'x world \<Rightarrow> bool" where
  "target_exists h path w \<longleftrightarrow> w_files w (opened h path w) \<noteq> None \<or> h_is_dir h path (w_rest w)"

text \<open>The check that a target whose parent exists lies below the working directory.\<close>

definition escapes ::
  "('x, 'm) shell_host_scheme \<Rightarrow> string \<Rightarrow> string \<Rightarrow> 'x world \<Rightarrow> bool" where
  "escapes h dir target w =
     (case parent_path target of
        None \<Rightarrow> False
      | Some parent \<Rightarrow>
          (if target_exists h parent w then
             (let working = (case sh_canonicalize h dir w of Some p \<Rightarrow> p | None \<Rightarrow> dir);
                  canonical = (case sh_canonicalize h parent w of
                      Some p \<Rightarrow> path_join p (unwrap_or_default (file_name target))
                    | None \<Rightarrow> target) in
              \<not> path_starts_with canonical working)
           else False))"

text \<open>\<open>fs::read_to_string\<close> of the target, the error as text.\<close>

definition read_target :: "('x, 'm) shell_host_scheme \<Rightarrow> string \<Rightarrow> 'x world \<Rightarrow> string res \<times> 'x world" where
  "read_target h path w = read_to_string (host.truncate h) (opened h path w) w"

definition wrote :: "string \<Rightarrow> string \<Rightarrow> unit res \<times> 'x world \<Rightarrow> string res \<times> 'x world" where
  "wrote verb target r = (case r of (Inl e, w) \<Rightarrow> (Inl e, w) | (Inr _, w) \<Rightarrow> (Inr (verb @ '' '' @ target), w))"

text \<open>The actions that insert at an anchor differ in the text that replaces the anchor.\<close>

definition insert_at ::
  "('x, 'm) shell_host_scheme \<Rightarrow> string \<Rightarrow> string \<Rightarrow> (string \<Rightarrow> string) \<Rightarrow> code_block \<Rightarrow> string \<Rightarrow> string \<Rightarrow>
   'x world \<Rightarrow> string res \<times> 'x world" where
  "insert_at h name verb around block target path w =
     (case cb_anchor block of
        None \<Rightarrow> (Inl (name @ '' action requires '' @ sq ''anchor'' @ '' field''), w)
      | Some anchor \<Rightarrow>
          st_bind (read_target h path) (\<lambda>content w1.
            if \<not> str_contains content anchor then (Inl (name @ '' failed: anchor not found in '' @ path), w1)
            else wrote verb target (write_file h path [] (replace_first anchor (around anchor) content) w1)) w)"

definition apply_action ::
  "('x, 'm) shell_host_scheme \<Rightarrow> code_block \<Rightarrow> string \<Rightarrow> string \<Rightarrow> 'x world \<Rightarrow> string res \<times> 'x world" where
  "apply_action h block target path w =
     (case cb_action block of
        CaCreate \<Rightarrow>
          if target_exists h path w then (Inl (''Target file already exists: '' @ path), w)
          else st_bind (create_parent h path) (\<lambda>_ w1.
            wrote ''Created'' target (write_file h path [] (cb_body block) w1)) w
      | CaFull \<Rightarrow>
          st_bind (create_parent h path) (\<lambda>_ w1.
            wrote ''Wrote (full)'' target (write_file h path [] (cb_body block) w1)) w
      | CaAppend \<Rightarrow>
          wrote ''Appended to'' target (write_file h path (unwrap_or_default (w_files w (opened h path w))) (cb_body block) w)
      | CaPrepend \<Rightarrow>
          st_bind (\<lambda>w. if target_exists h path w then read_target h path w else (Inr [], w)) (\<lambda>existing w1.
            wrote ''Prepended to'' target (write_file h path [] (cb_body block @ existing) w1)) w
      | CaReplace \<Rightarrow>
          (case cb_old block of
             None \<Rightarrow> (Inl (''Replace action requires '' @ sq ''old'' @ '' field''), w)
           | Some old \<Rightarrow>
               st_bind (read_target h path) (\<lambda>content w1.
                 (let n = count_matches old content in
                  if n = 0 then
                    (Inl (''Replace failed: '' @ sq ''old'' @ '' text not found in '' @ path), w1)
                  else if 1 < n then
                    (Inl (''Replace failed: '' @ sq ''old'' @ '' text found '' @ show_nat n @ '' times in '' @ path @
                       '' (must be exactly 1)''), w1)
                  else wrote ''Replaced in'' target
                    (write_file h path [] (replace_first old (cb_body block) content) w1))) w)
      | CaInsertBefore \<Rightarrow>
          insert_at h ''InsertBefore'' ''Inserted before anchor in'' (\<lambda>anchor. cb_body block @ anchor) block target path w
      | CaInsertAfter \<Rightarrow>
          insert_at h ''InsertAfter'' ''Inserted after anchor in'' (\<lambda>anchor. anchor @ cb_body block) block target path w)"

definition execute_file_action ::
  "('x, 'm) shell_host_scheme \<Rightarrow> code_block \<Rightarrow> string \<Rightarrow> 'x world \<Rightarrow> string res \<times> 'x world" where
  "execute_file_action h block dir w =
     (case cb_target block of
        None \<Rightarrow> (Inl (''Code block with action '' @ sq (show_code_action (cb_action block)) @ '' requires a target path''), w)
      | Some target \<Rightarrow>
          if has_dotdot target then
            (Inl (''Target path '' @ sq target @ '' contains '' @ sq ''..'' @ '' and is rejected for security reasons''), w)
          else
            (let path = path_join dir target in
             if escapes h dir path w then
               (Inl (''Target path '' @ sq target @ '' resolves outside working directory '' @ sq dir), w)
             else apply_action h block target path w))"

section \<open>Commands\<close>

definition agent_max_output_bytes :: nat where "agent_max_output_bytes = 8192"

text \<open>The poll loop, as in the verifier but with sleeps of 50 milliseconds.\<close>

function wait_shell :: "('x, 'm) host_scheme \<Rightarrow> string \<Rightarrow> nat \<Rightarrow> nat \<Rightarrow> 'x world \<Rightarrow> unit res \<times> 'x world" where
  "wait_shell h body timeout n w =
     (let ((answer, late), w') = h_poll h n w in
      case answer of
        PollExited \<Rightarrow> (Inr (), w')
      | PollError e \<Rightarrow> (Inl (''Error waiting for command: '' @ e), w')
      | PollRunning \<Rightarrow>
          if timeout < n * 50000000 + late then
            (Inl (''Command timed out after '' @ show_duration_debug timeout @ '': '' @ body), h_kill h w')
          else wait_shell h body timeout (Suc n) w')"
  by pat_completeness auto
termination by (relation "measure (\<lambda>(h, body, timeout, n, w). Suc timeout - n)") auto

declare wait_shell.simps [simp del]

definition execute_shell_command ::
  "('x, 'm) host_scheme \<Rightarrow> string \<Rightarrow> string \<Rightarrow> nat \<Rightarrow> 'x world \<Rightarrow> string res \<times> 'x world" where
  "execute_shell_command h body dir timeout w =
     (let (spawned, w1) = h_spawn h body dir w in
      case spawned of
        Inl e \<Rightarrow> (Inl (''Failed to spawn shell: '' @ e), w1)
      | Inr _ \<Rightarrow>
          st_bind (wait_shell h body timeout 0) (\<lambda>_.
            st_bind (h_output h) (\<lambda>out w2.
              (let exit_code = (case po_code out of Some c \<Rightarrow> c | None \<Rightarrow> - 1);
                   stdout = from_utf8_lossy (take agent_max_output_bytes (po_stdout out));
                   stderr = from_utf8_lossy (take agent_max_output_bytes (po_stderr out));
                   combined = (if stderr = [] then stdout
                     else stdout @ nl # ''[stderr]'' @ nl # stderr) in
               if exit_code \<noteq> 0 then
                 (Inl (''Command exited with code '' @ show_int exit_code @ '': '' @ body @ nl # combined), w2)
               else (Inr combined, w2)))) w1)"

section \<open>The agent\<close>

definition is_shell_command :: "code_block \<Rightarrow> bool" where
  "is_shell_command block \<longleftrightarrow>
     (case cb_lang block of
        None \<Rightarrow> False
      | Some l \<Rightarrow> l \<in> {''sh'', ''bash'', ''shell'', ''cmd'', ''powershell'', ''zsh''}) \<and>
     cb_target block = None"

definition run_block ::
  "'x shell_host \<Rightarrow> agent_request \<Rightarrow> nat \<Rightarrow> code_block \<Rightarrow> 'x world \<Rightarrow> string res \<times> 'x world" where
  "run_block h request start block w =
     (if is_shell_command block then
        (let (d, w0) = elapsed (host.truncate h) start w in
         execute_shell_command h (cb_body block) (ar_working_dir request) (ar_timeout request - d) w0)
      else execute_file_action h block (ar_working_dir request) w)"

text \<open>The loop over the blocks: \<open>k\<close> blocks are done. The value is the success with the outputs.\<close>

fun run_blocks ::
  "'x shell_host \<Rightarrow> agent_request \<Rightarrow> nat \<Rightarrow> nat \<Rightarrow> code_block list \<Rightarrow> 'x world \<Rightarrow>
   (bool \<times> string list) \<times> 'x world" where
  "run_blocks h request start k [] w = ((True, []), w)"
| "run_blocks h request start k (block # blocks) w =
     (let (answer, w1) = run_block h request start block w in
      case answer of
        Inl e \<Rightarrow> ((False, [''Error in block '' @ show_nat (k + 1) @ '': '' @ e]), w1)
      | Inr out \<Rightarrow>
          (let ((ok, outs), w2) = run_blocks h request start (Suc k) blocks w1 in ((ok, out # outs), w2)))"

definition shell_execute ::
  "'x shell_host \<Rightarrow> agent_request \<Rightarrow> 'x world \<Rightarrow> agent_response res \<times> 'x world" where
  "shell_execute h request w =
     (let (start, w0) = instant_now (host.truncate h) w;
          ((ok, outs), w1) = run_blocks h request start 0 (ar_code_blocks request) w0;
          (d, w2) = elapsed (host.truncate h) start w1 in
      (Inr \<lparr>as_success = ok, as_output = join [nl] outs, as_duration = d\<rparr>, w2))"

definition shell_agent :: "'x shell_host \<Rightarrow> (nat \<Rightarrow> nat list) \<Rightarrow> 'x agent" where
  "shell_agent h order = \<lparr>ag_name = ''shell-agent'', ag_execute = shell_execute h, ag_order = order\<rparr>"


section \<open>Lemmas on matches\<close>

lemma count_matches_0: "p \<noteq> [] \<Longrightarrow> count_matches p s = 0 \<longleftrightarrow> \<not> occurs p s"
  using count_matches.simps [of p s] by (simp add: str_find_occurs [symmetric] split: option.splits)

text \<open>Exactly one match: the first occurrence, and none after its end.\<close>

lemma count_matches_1:
  assumes "count_matches p s = 1"
  obtains i where "str_find p s = Some i" "p = [] \<and> s = [] \<or> p \<noteq> [] \<and> \<not> occurs p (drop (i + length p) s)"
proof (cases "p = []")
  case True
  have "str_chars s = []" using assms True count_matches.simps [of p s] by simp
  then have "s = []" using concat_str_chars [of s] by simp
  then show ?thesis using that True by simp
next
  case False
  obtain i where "str_find p s = Some i" "count_matches p (drop (i + length p) s) = 0"
    using assms False count_matches.simps [of p s] by (auto split: option.splits)
  then show ?thesis using that count_matches_0 [OF False] False by blast
qed


section \<open>What a file action does\<close>

text \<open>The new content of the target, from the content before: what each action promises.\<close>

definition edits :: "code_block \<Rightarrow> string option \<Rightarrow> string \<Rightarrow> bool" where
  "edits b before new \<longleftrightarrow>
     (case cb_action b of
        CaCreate \<Rightarrow> before = None \<and> new = cb_body b
      | CaFull \<Rightarrow> new = cb_body b
      | CaAppend \<Rightarrow> new = unwrap_or_default before @ cb_body b
      | CaPrepend \<Rightarrow> new = cb_body b @ unwrap_or_default before
      | CaReplace \<Rightarrow>
          (\<exists>old l r. cb_old b = Some old \<and> before = Some (l @ old @ r) \<and> new = l @ cb_body b @ r \<and>
             (old = [] \<and> r = [] \<or> old \<noteq> [] \<and> \<not> occurs old r) \<and>
             (\<forall>l' r'. before = Some (l' @ old @ r') \<longrightarrow> length l \<le> length l'))
      | CaInsertBefore \<Rightarrow>
          (\<exists>anchor l r. cb_anchor b = Some anchor \<and> before = Some (l @ anchor @ r) \<and>
             new = l @ cb_body b @ anchor @ r \<and>
             (\<forall>l' r'. before = Some (l' @ anchor @ r') \<longrightarrow> length l \<le> length l'))
      | CaInsertAfter \<Rightarrow>
          (\<exists>anchor l r. cb_anchor b = Some anchor \<and> before = Some (l @ anchor @ r) \<and>
             new = l @ anchor @ cb_body b @ r \<and>
             (\<forall>l' r'. before = Some (l' @ anchor @ r') \<longrightarrow> length l \<le> length l')))"

lemma wrote_Inr:
  "wrote verb target (write_file h path kept content w) = (Inr out, w') \<Longrightarrow>
   w_files w' = (w_files w)(opened h path w \<mapsto> kept @ content)"
  by (auto simp: wrote_def write_file_def Let_def case_prod_beta split: write_outcome.splits)

lemma wrote_other:
  "q \<noteq> opened h path w \<Longrightarrow> w_files (snd (wrote verb target (write_file h path kept content w))) q = w_files w q"
  by (auto simp: wrote_def write_file_def Let_def case_prod_beta split: write_outcome.splits)

lemma create_parent_files: "w_files (snd (create_parent h path w)) = w_files w"
  by (simp add: create_parent_def Let_def case_prod_beta split: option.split)

lemma create_parent_opened:
  assumes "links_kept h"
  shows "opened h q (snd (create_parent h path w)) = opened h q w"
  using assms by (simp add: create_parent_def opened_def links_kept_def Let_def case_prod_beta split: option.split)

lemma create_parent_Inr:
  "links_kept h \<Longrightarrow> create_parent h path w = (r, w1) \<Longrightarrow> w_files w1 = w_files w \<and> opened h q w1 = opened h q w"
  using create_parent_files [of h path w] create_parent_opened [of h q path w] by simp

lemma read_target_files: "w_files (snd (read_target h path w)) = w_files w"
  by (simp add: read_target_def)

lemma read_target_opened:
  assumes "links_kept h"
  shows "opened h q (snd (read_target h path w)) = opened h q w"
  using assms
  by (simp add: read_target_def read_to_string_def opened_def links_kept_def host.defs Let_def case_prod_beta
      split: option.split)

lemma read_target_Inr:
  "links_kept h \<Longrightarrow> read_target h path w = (Inr s, w1) \<Longrightarrow>
   w_files w (opened h path w) = Some s \<and> w_files w1 = w_files w \<and> opened h q w1 = opened h q w"
  using read_to_string_Inr [of "host.truncate h" "opened h path w" w s] read_target_files [of h path w]
    read_target_opened [of h q path w]
  by (auto simp: read_target_def)

lemma first_match:
  assumes "str_find p s = Some i"
  obtains l r where "s = l @ p @ r" "r = drop (i + length p) s" "\<forall>l' r'. s = l' @ p @ r' \<longrightarrow> length l \<le> length l'"
    "\<And>new. replace_first p new s = l @ new @ r"
proof (rule that [of "take i s" "drop (i + length p) s"])
  show "\<forall>l' r'. s = l' @ p @ r' \<longrightarrow> length (take i s) \<le> length l'" using str_find_Some [OF assms] by auto
qed (use str_find_Some [OF assms] assms in \<open>simp_all add: replace_first_def\<close>)

lemma insert_at_Inr:
  assumes links: "links_kept h" and act: "insert_at h name verb around b target path w = (Inr out, w')"
  shows "\<exists>anchor l r. cb_anchor b = Some anchor \<and> w_files w (opened h path w) = Some (l @ anchor @ r) \<and>
    w_files w' = (w_files w)(opened h path w \<mapsto> l @ around anchor @ r) \<and>
    (\<forall>l' r'. l @ anchor @ r = l' @ anchor @ r' \<longrightarrow> length l \<le> length l')"
proof -
  obtain anchor where a: "cb_anchor b = Some anchor"
    using act by (auto simp: insert_at_def split: option.splits)
  obtain s w1 where r: "read_target h path w = (Inr s, w1)" and c: "str_contains s anchor"
    and d: "wrote verb target (write_file h path [] (replace_first anchor (around anchor) s) w1) = (Inr out, w')"
    using act a by (auto simp: insert_at_def st_bind_Inr split: if_splits)
  obtain i where i: "str_find anchor s = Some i" using c by (auto simp: str_contains_def)
  show ?thesis
    using first_match [OF i] read_target_Inr [OF links r] wrote_Inr [OF d] a by (metis append_Nil)
qed

lemma apply_action_edits:
  assumes links: "links_kept h" and assms: "apply_action h b target path w = (Inr out, w')"
  shows "\<exists>new. edits b (w_files w (opened h path w)) new \<and> w_files w' = (w_files w)(opened h path w \<mapsto> new)"
proof (cases "cb_action b")
  case CaReplace
  obtain old where o: "cb_old b = Some old"
    using assms CaReplace by (auto simp: apply_action_def split: option.splits)
  obtain s w1 where r: "read_target h path w = (Inr s, w1)" and c: "count_matches old s = 1"
    and d: "wrote ''Replaced in'' target (write_file h path [] (replace_first old (cb_body b) s) w1) = (Inr out, w')"
    using assms o CaReplace
    by (auto simp: apply_action_def st_bind_Inr Let_def not_less le_Suc_eq split: if_splits)
  obtain i where i: "str_find old s = Some i"
    and rest: "old = [] \<and> s = [] \<or> old \<noteq> [] \<and> \<not> occurs old (drop (i + length old) s)"
    using count_matches_1 [OF c] by blast
  obtain l t where l: "s = l @ old @ t" "t = drop (i + length old) s"
    "\<forall>l' r'. s = l' @ old @ r' \<longrightarrow> length l \<le> length l'" "replace_first old (cb_body b) s = l @ cb_body b @ t"
    using first_match [OF i] by metis
  have "edits b (w_files w (opened h path w)) (l @ cb_body b @ t)"
    unfolding edits_def using l rest o read_target_Inr [OF links r] CaReplace by auto
  then show ?thesis using wrote_Inr [OF d] read_target_Inr [OF links r] l(4) by auto
next
  case CaPrepend
  obtain s w1 where r: "(if target_exists h path w then read_target h path w else (Inr [], w)) = (Inr s, w1)"
    and d: "wrote ''Prepended to'' target (write_file h path [] (cb_body b @ s) w1) = (Inr out, w')"
    using assms CaPrepend by (auto simp: apply_action_def st_bind_Inr)
  have "s = unwrap_or_default (w_files w (opened h path w)) \<and> w_files w1 = w_files w \<and> opened h path w1 = opened h path w"
    using r read_target_Inr [OF links, of path w s w1] by (auto simp: target_exists_def unwrap_or_default_def split: if_splits)
  then show ?thesis using wrote_Inr [OF d] CaPrepend by (auto simp: edits_def)
next
  case CaInsertBefore
  have "insert_at h ''InsertBefore'' ''Inserted before anchor in'' (\<lambda>anchor. cb_body b @ anchor) b target path w = (Inr out, w')"
    using assms CaInsertBefore by (simp add: apply_action_def)
  from insert_at_Inr [OF links this] obtain anchor l r where a: "cb_anchor b = Some anchor"
    "w_files w (opened h path w) = Some (l @ anchor @ r)"
    "\<forall>l' r'. l @ anchor @ r = l' @ anchor @ r' \<longrightarrow> length l \<le> length l'"
    and f: "w_files w' = (w_files w)(opened h path w \<mapsto> l @ cb_body b @ anchor @ r)" by auto
  have "edits b (w_files w (opened h path w)) (l @ cb_body b @ anchor @ r)"
    unfolding edits_def CaInsertBefore code_action.case a(2) option.inject
    by (rule exI [of _ anchor], rule exI [of _ l], rule exI [of _ r]) (intro conjI a(1) a(3) refl)
  then show ?thesis using f by blast
next
  case CaInsertAfter
  have "insert_at h ''InsertAfter'' ''Inserted after anchor in'' (\<lambda>anchor. anchor @ cb_body b) b target path w = (Inr out, w')"
    using assms CaInsertAfter by (simp add: apply_action_def)
  from insert_at_Inr [OF links this] obtain anchor l r where a: "cb_anchor b = Some anchor"
    "w_files w (opened h path w) = Some (l @ anchor @ r)"
    "\<forall>l' r'. l @ anchor @ r = l' @ anchor @ r' \<longrightarrow> length l \<le> length l'"
    and f: "w_files w' = (w_files w)(opened h path w \<mapsto> l @ anchor @ cb_body b @ r)" by auto
  have "edits b (w_files w (opened h path w)) (l @ anchor @ cb_body b @ r)"
    unfolding edits_def CaInsertAfter code_action.case a(2) option.inject
    by (rule exI [of _ anchor], rule exI [of _ l], rule exI [of _ r]) (intro conjI a(1) a(3) refl)
  then show ?thesis using f by blast
qed (use assms in \<open>auto simp: apply_action_def edits_def st_bind_Inr target_exists_def
  dest!: wrote_Inr create_parent_Inr [OF links, of path w _ _ path] split: if_splits\<close>)

lemma insert_at_other:
  "links_kept h \<Longrightarrow> q \<noteq> opened h path w \<Longrightarrow> w_files (snd (insert_at h name verb around b target path w)) q = w_files w q"
  using read_target_files [of h path w] read_target_opened [of h path path w]
  by (auto simp: insert_at_def st_bind_def wrote_other split: option.split sum.split prod.splits)

lemma apply_action_other:
  assumes "links_kept h" and "q \<noteq> opened h path w"
  shows "w_files (snd (apply_action h b target path w)) q = w_files w q"
  using read_target_files [of h path w] create_parent_files [of h path w] read_target_opened [OF assms(1), of path path w]
    create_parent_opened [OF assms(1), of path path w] assms
  by (auto simp: apply_action_def st_bind_def wrote_other insert_at_other Let_def
    split: code_action.split option.split sum.split prod.splits)

text \<open>A target passes the checks: no \<open>..\<close>, and below the directory where its parent exists.\<close>

definition admitted :: "('x, 'm) shell_host_scheme \<Rightarrow> string \<Rightarrow> string \<Rightarrow> 'x world \<Rightarrow> bool" where
  "admitted h dir target w \<longleftrightarrow>
     ''..'' \<notin> set (path_components target) \<and>
     (\<forall>parent base p. parent_path (path_join dir target) = Some parent \<and>
        target_exists h parent w \<and>
        sh_canonicalize h dir w = Some base \<and> sh_canonicalize h parent w = Some p \<longrightarrow>
        path_starts_with (path_join p (unwrap_or_default (file_name (path_join dir target)))) base)"

lemma admitted_iff:
  "\<not> has_dotdot target \<Longrightarrow> \<not> escapes h dir (path_join dir target) w \<Longrightarrow> admitted h dir target w"
  by (auto simp: admitted_def has_dotdot_def escapes_def)

lemma file_action_changes:
  assumes "links_kept h" and "w_files (snd (execute_file_action h b dir w)) q \<noteq> w_files w q"
  shows "\<exists>target. cb_target b = Some target \<and> q = opened h (path_join dir target) w \<and> admitted h dir target w"
  using assms(2) apply_action_other [OF assms(1), of q "path_join dir (the (cb_target b))" w b "the (cb_target b)"]
  by (auto simp: execute_file_action_def Let_def admitted_iff split: option.splits if_splits)


section \<open>Properties\<close>

lemma execute_shell_target: "cb_target b \<noteq> None \<Longrightarrow> \<not> is_shell_command b"
  by (simp add: is_shell_command_def)

text \<open>The blocks that were run, each with the world it was started in.\<close>

fun block_starts ::
  "'x shell_host \<Rightarrow> agent_request \<Rightarrow> nat \<Rightarrow> code_block list \<Rightarrow> 'x world \<Rightarrow> (code_block \<times> 'x world) list" where
  "block_starts h request start [] w = []"
| "block_starts h request start (b # bs) w =
     (b, w) # (case run_block h request start b w of
                 (Inl e, w1) \<Rightarrow> []
               | (Inr out, w1) \<Rightarrow> block_starts h request start bs w1)"

lemma run_blocks_changes:
  assumes "links_kept h" and "\<forall>b \<in> set blocks. \<not> is_shell_command b"
    and "w_files (snd (run_blocks h request start k blocks w)) q \<noteq> w_files w q"
  shows "\<exists>(b, wb) \<in> set (block_starts h request start blocks w). \<exists>target. cb_target b = Some target \<and>
    q = opened h (path_join (ar_working_dir request) target) wb \<and> admitted h (ar_working_dir request) target wb"
  using assms(2,3)
proof (induction blocks arbitrary: k w)
  case (Cons b blocks)
  obtain r w1 where r: "run_block h request start b w = (r, w1)" by force
  then have act: "execute_file_action h b (ar_working_dir request) w = (r, w1)"
    using Cons.prems(1) by (simp add: run_block_def)
  show ?case
  proof (cases "w_files w1 q = w_files w q")
    case False
    then show ?thesis using file_action_changes [OF assms(1), of b "ar_working_dir request" w q] act by auto
  next
    case True
    then obtain out where out: "r = Inr out"
      using Cons.prems(2) r by (cases r) (auto simp: Let_def case_prod_beta)
    then have "w_files (snd (run_blocks h request start (Suc k) blocks w1)) q \<noteq> w_files w1 q"
      using Cons.prems(2) True r by (auto simp: Let_def case_prod_beta)
    then show ?thesis using Cons.IH [of "Suc k" w1] Cons.prems(1) r out by auto
  qed
qed simp

text \<open>A file action that succeeds leaves every file as it was except its target below the
working directory, whose new content is exactly what the action promises: the body alone, before
or after the old content, in place of the only match of \<open>old\<close>, or at the first anchor.\<close>

lemma file_action_exact:
  assumes "links_kept h" and "execute_file_action h b dir w = (Inr out, w')"
  shows "\<exists>target new. cb_target b = Some target \<and> edits b (w_files w (opened h (path_join dir target) w)) new \<and>
    w_files w' = (w_files w)(opened h (path_join dir target) w \<mapsto> new)"
  using assms(2) apply_action_edits [OF assms(1), of b "the (cb_target b)" "path_join dir (the (cb_target b))" w out w']
  by (auto simp: execute_file_action_def Let_def split: option.splits if_splits)

text \<open>C31: An agent that runs no shell command changes, whatever the blocks and however they end, only
files that the target of an executed block leads to in the world in which that block starts; and in that
world the target passes the checks: it has no \<open>..\<close> component and, where its directory exists, the
directory with its links resolved lies below the working directory.\<close>

theorem shell_agent_confined:
  assumes "links_kept h" and "\<forall>b \<in> set (ar_code_blocks request). \<not> is_shell_command b"
    and "instant_now (host.truncate h) w = (start, w0)"
    and "w_files (snd (shell_execute h request w)) q \<noteq> w_files w q"
  shows "\<exists>(b, wb) \<in> set (block_starts h request start (ar_code_blocks request) w0). \<exists>target.
    cb_target b = Some target \<and> q = opened h (path_join (ar_working_dir request) target) wb \<and>
    admitted h (ar_working_dir request) target wb"
proof -
  have "w_files w0 = w_files w" using instant_files [of "host.truncate h" w] assms(3) by simp
  then have "w_files (snd (run_blocks h request start 0 (ar_code_blocks request) w0)) q \<noteq> w_files w0 q"
    using assms(3,4) by (simp add: shell_execute_def Let_def case_prod_beta)
  then show ?thesis by (rule run_blocks_changes [OF assms(1,2)])
qed

text \<open>A target that passes the checks need not lead to a file below the working directory. An absolute
target whose directory does not exist yet skips the check on resolved paths: the directory is made
and the file is written there.\<close>

lemma absolute_target_escapes:
  assumes "cb_target b = Some target" and "cb_action b = CaFull"
    and "starts_with ''/'' target" and "''..'' \<notin> set (path_components target)"
    and "parent_path target = Some parent" and "\<not> target_exists h parent w"
    and "sh_create_dir h parent w = (Inr (), x)"
    and "sh_write h target (w\<lparr>w_rest := x\<rparr>) = (WriteOk, y)"
  shows "execute_file_action h b dir w =
    (Inr (''Wrote (full) '' @ target), \<lparr>w_files = (w_files w)(sh_resolve h target x \<mapsto> cb_body b), w_rest = y\<rparr>)"
proof -
  have "path_join dir target = target" using assms(3) by (simp add: path_join_def)
  then show ?thesis
    using assms by (simp add: execute_file_action_def Let_def has_dotdot_def escapes_def apply_action_def
      create_parent_def st_bind_def wrote_def write_file_def opened_def)
qed

text \<open>And a target that is a symbolic link is followed: only its directory is resolved before the check.\<close>

lemma link_target_escapes:
  assumes "links_kept h" and "cb_target b = Some target" and "cb_action b = CaFull" and "\<not> has_dotdot target"
    and "\<not> escapes h dir (path_join dir target) w"
    and "execute_file_action h b dir w = (Inr out, w')"
  shows "w_files w' (opened h (path_join dir target) w) = Some (cb_body b)"
proof -
  obtain target' new where t: "cb_target b = Some target'" "edits b (w_files w (opened h (path_join dir target') w)) new"
    "w_files w' = (w_files w)(opened h (path_join dir target') w \<mapsto> new)"
    using file_action_exact [OF assms(1,6)] by blast
  then show ?thesis using assms(2,3) by (simp add: edits_def)
qed

section \<open>Witnesses\<close>

definition sample_shell_host :: "nat shell_host" where
  "sample_shell_host = host.extend sample_host
     \<lparr>sh_canonicalize = (\<lambda>p w. Some p), sh_create_dir = (\<lambda>_ w. (Inr (), w_rest w)),
      sh_write = (\<lambda>_ w. (WriteOk, Suc (w_rest w))),
      sh_resolve = (\<lambda>p _. if p = ''w/link'' then ''/etc/passwd'' else p)\<rparr>"

lemma sample_links: "links_kept sample_shell_host"
  by (simp add: links_kept_def sample_shell_host_def sample_host_def sample_env_def host.defs)

definition sample_block :: "code_action \<Rightarrow> string \<Rightarrow> code_block" where
  "sample_block a target =
     \<lparr>cb_lang = Some ''rust'', cb_target = Some target, cb_action = a, cb_body = ''new'',
      cb_anchor = Some ''b'', cb_old = Some ''b''\<rparr>"

definition sample_tree :: "nat world" where
  "sample_tree = \<lparr>w_files = [''w/f'' \<mapsto> ''abc''], w_rest = 0\<rparr>"


definition sample_replace :: "string res \<times> nat world" where
  "sample_replace = execute_file_action sample_shell_host (sample_block CaReplace ''f'') ''w'' sample_tree"

lemma file_action_exact_witness:
  "fst sample_replace = Inr ''Replaced in f'' \<and>
   w_files (snd sample_replace) ''w/f'' = Some ''anewc'' \<and>
   (\<exists>target new. cb_target (sample_block CaReplace ''f'') = Some target \<and>
      edits (sample_block CaReplace ''f'') (w_files sample_tree (opened sample_shell_host (path_join ''w'' target) sample_tree)) new \<and>
      w_files (snd sample_replace) =
        (w_files sample_tree)(opened sample_shell_host (path_join ''w'' target) sample_tree \<mapsto> new))"
proof -
  have run: "fst sample_replace = Inr ''Replaced in f''" by code_simp
  have files: "w_files (snd sample_replace) ''w/f'' = Some ''anewc''" by code_simp
  have pair: "execute_file_action sample_shell_host (sample_block CaReplace ''f'') ''w'' sample_tree =
    (Inr ''Replaced in f'', snd sample_replace)"
    using run unfolding sample_replace_def by (metis prod.collapse)
  show ?thesis using file_action_exact [OF sample_links pair] run files by simp
qed

definition sample_shell_request :: agent_request where
  "sample_shell_request = \<lparr>ar_node_id = ''n'', ar_context = ''c'',
     ar_code_blocks = [sample_block CaAppend ''f'', sample_block CaReplace ''f''],
     ar_working_dir = ''w'', ar_timeout = 5\<rparr>"

lemma shell_agent_confined_witness:
  "\<exists>(b, wb) \<in> set (block_starts sample_shell_host sample_shell_request
       (fst (instant_now (host.truncate sample_shell_host) sample_tree)) (ar_code_blocks sample_shell_request)
       (snd (instant_now (host.truncate sample_shell_host) sample_tree))).
     \<exists>target. cb_target b = Some target \<and>
       ''w/f'' = opened sample_shell_host (path_join (ar_working_dir sample_shell_request) target) wb \<and>
       admitted sample_shell_host (ar_working_dir sample_shell_request) target wb"
proof -
  have shell: "\<forall>b \<in> set (ar_code_blocks sample_shell_request). \<not> is_shell_command b" by code_simp
  have "w_files (snd (shell_execute sample_shell_host sample_shell_request sample_tree)) ''w/f'' = Some ''anewcnew''" by code_simp
  moreover have "w_files sample_tree ''w/f'' = Some ''abc''" by code_simp
  ultimately have "w_files (snd (shell_execute sample_shell_host sample_shell_request sample_tree)) ''w/f'' \<noteq>
    w_files sample_tree ''w/f''" by simp
  then show ?thesis
    by (rule shell_agent_confined [OF sample_links shell prod.collapse [symmetric]])
qed

lemma absolute_target_escapes_witness:
  "execute_file_action sample_shell_host (sample_block CaFull ''/etc/d/f'') ''w'' sample_tree =
   (Inr ''Wrote (full) /etc/d/f'', \<lparr>w_files = (w_files sample_tree)(''/etc/d/f'' \<mapsto> ''new''), w_rest = 1\<rparr>)"
  using absolute_target_escapes [of "sample_block CaFull ''/etc/d/f''" "''/etc/d/f''" "''/etc/d''" sample_shell_host
      sample_tree 0 1 "''w''"]
  by (simp add: sample_block_def sample_tree_def sample_shell_host_def sample_host_def host.defs target_exists_def opened_def
    path_components_def path_segments_def parent_path_def trim_segments_def real_segment_def Let_def)

lemma link_target_escapes_witness:
  "w_files (snd (execute_file_action sample_shell_host (sample_block CaFull ''link'') ''w'' sample_tree)) ''/etc/passwd'' = Some ''new''"
proof -
  let ?r = "execute_file_action sample_shell_host (sample_block CaFull ''link'') ''w'' sample_tree"
  have "fst ?r = Inr ''Wrote (full) link''" by code_simp
  then have r: "?r = (Inr ''Wrote (full) link'', snd ?r)" by (metis prod.collapse)
  have "\<not> has_dotdot ''link''" "\<not> escapes sample_shell_host ''w'' (path_join ''w'' ''link'') sample_tree" by code_simp+
  moreover have "cb_target (sample_block CaFull ''link'') = Some ''link''" "cb_action (sample_block CaFull ''link'') = CaFull"
    "cb_body (sample_block CaFull ''link'') = ''new''" by (simp_all add: sample_block_def)
  moreover have "opened sample_shell_host (path_join ''w'' ''link'') sample_tree = ''/etc/passwd''" by code_simp
  ultimately show ?thesis
    using link_target_escapes [OF sample_links _ _ _ _ r, of "''link''"] by simp
qed

end
