(* ===== verification/Stream.thy ===== *)
theory Stream
  imports Parser "HOL-Library.Multiset"
begin

text \<open>
  The streaming parser gives what the batch parser gives. The lines of a file are a header
  section and one section per node declaration; both parsers parse the same sections, because
  no parser reads past a node declaration.
\<close>

section \<open>One section at a time\<close>

definition no_node :: "agm_line list \<Rightarrow> bool" where
  "no_node ls \<longleftrightarrow> (\<forall>l \<in> set ls. \<not> is_node l)"

lemma no_node_simps [simp]: "no_node []" "no_node (l # ls) \<longleftrightarrow> \<not> is_node l \<and> no_node ls"
  "no_node (xs @ ys) \<longleftrightarrow> no_node xs \<and> no_node ys"
  by (auto simp: no_node_def)

lemma no_node_subset: "no_node ls \<Longrightarrow> set xs \<subseteq> set ls \<Longrightarrow> no_node xs"
  by (auto simp: no_node_def)

lemma header_step_local [local_simps]:
  assumes "at_node tail"
  shows "header_step pe s l (ls @ tail) = map_option (apsnd (\<lambda>r. r @ tail)) (header_step pe s l ls)"
proof -
  have "header_field pe key n s (ls @ tail) = map_option (apsnd (\<lambda>r. r @ tail)) (header_field pe key n s ls)" for key n s
    using assms
    by (auto simp: header_field_def local_simps case_prod_beta Let_def option.map_comp o_def intro!: option.map_cong0)
  then show ?thesis
    using assms by (auto simp: header_step_def local_simps Let_def split: line_kind.split)
qed

lemma node_step_local [local_simps]:
  assumes "at_node tail"
  shows "node_step pe b l (ls @ tail) = map_option (apsnd (\<lambda>r. r @ tail)) (node_step pe b l ls)"
proof -
  have item: "(case dropWhile is_comment (ls @ tail) of [] \<Rightarrow> False | l # _ \<Rightarrow> is_item l) =
    (case dropWhile is_comment ls of [] \<Rightarrow> False | l # _ \<Rightarrow> is_item l)"
    using assms by (induction ls) (cases tail; simp)+
  have "node_field pe key n m (ls @ tail) = map_option (apsnd (\<lambda>r. r @ tail)) (node_field pe key n m ls)" for key n m
    using assms
    by (auto simp: node_field_def item structured_node_field_def with_parsed_def parse_code_blocks_def parse_verify_def
        parse_parallel_groups_def parse_memory_def local_simps case_prod_beta Let_def option.map_comp o_def
        intro!: option.map_cong0)
  then show ?thesis
    using assms
    by (auto simp: node_step_def local_simps Let_def case_prod_beta option.map_comp o_def apsnd_def map_prod_def
        intro!: option.map_cong0 split: line_kind.split)
qed

text \<open>A loop over lines without a node takes them all, whatever begins behind them.\<close>

lemma header_loop_section:
  assumes "no_node ls" and "at_node tail"
  shows "header_loop pe s (ls @ tail) = map_option (\<lambda>r. (fst r, tail)) (header_loop pe s ls)"
    and "header_loop pe s ls = Some r \<Longrightarrow> snd r = []"
proof -
  have "header_loop pe s (ls @ tail) = map_option (\<lambda>r. (fst r, tail)) (header_loop pe s ls) \<and>
    (\<forall>r. header_loop pe s ls = Some r \<longrightarrow> snd r = [])"
    using assms(1)
  proof (induction ls arbitrary: s rule: length_induct)
    case (1 ls)
    show ?case
    proof (cases ls)
      case Nil
      then show ?thesis using assms(2) by (cases tail) (auto simp: header_loop.simps)
    next
      case (Cons l xs)
      show ?thesis
      proof (cases "header_step pe s l xs")
        case None
        then show ?thesis using Cons "1.prems" assms(2) by (simp add: header_loop.simps local_simps)
      next
        case (Some p)
        have "length (snd p) \<le> length xs" using header_step_length [of pe s l xs "fst p" "snd p"] Some by simp
        moreover have "no_node (snd p)"
          using left_header_step [OF Some] "1.prems" Cons no_node_subset by auto
        ultimately have "header_loop pe t (snd p @ tail) = map_option (\<lambda>r. (fst r, tail)) (header_loop pe t (snd p)) \<and>
          (\<forall>r. header_loop pe t (snd p) = Some r \<longrightarrow> snd r = [])" for t
          using "1.IH" Cons by (metis le_imp_less_Suc length_Cons)
        then show ?thesis
          using Cons "1.prems" assms(2) Some
          by (auto simp: header_loop.simps local_simps case_prod_beta option.map_comp o_def)
      qed
    qed
  qed
  then show "header_loop pe s (ls @ tail) = map_option (\<lambda>r. (fst r, tail)) (header_loop pe s ls)"
    "header_loop pe s ls = Some r \<Longrightarrow> snd r = []" by auto
qed

lemma node_loop_section:
  assumes "no_node ls" and "at_node tail"
  shows "node_loop pe b (ls @ tail) = map_option (\<lambda>r. (fst r, tail)) (node_loop pe b ls)"
    and "node_loop pe b ls = Some r \<Longrightarrow> snd r = []"
proof -
  have "node_loop pe b (ls @ tail) = map_option (\<lambda>r. (fst r, tail)) (node_loop pe b ls) \<and>
    (\<forall>r. node_loop pe b ls = Some r \<longrightarrow> snd r = [])"
    using assms(1)
  proof (induction ls arbitrary: b rule: length_induct)
    case (1 ls)
    show ?case
    proof (cases ls)
      case Nil
      then show ?thesis using assms(2) by (cases tail) (auto simp: node_loop.simps)
    next
      case (Cons l xs)
      show ?thesis
      proof (cases "node_step pe b l xs")
        case None
        then show ?thesis using Cons "1.prems" assms(2) by (simp add: node_loop.simps local_simps)
      next
        case (Some p)
        have "length (snd p) \<le> length xs" using node_step_length [of pe b l xs "fst p" "snd p"] Some by simp
        moreover have "no_node (snd p)"
          using left_node_step [OF Some] "1.prems" Cons no_node_subset by auto
        ultimately have "node_loop pe t (snd p @ tail) = map_option (\<lambda>r. (fst r, tail)) (node_loop pe t (snd p)) \<and>
          (\<forall>r. node_loop pe t (snd p) = Some r \<longrightarrow> snd r = [])" for t
          using "1.IH" Cons by (metis le_imp_less_Suc length_Cons)
        then show ?thesis
          using Cons "1.prems" assms(2) Some
          by (auto simp: node_loop.simps local_simps case_prod_beta option.map_comp o_def)
      qed
    qed
  qed
  then show "node_loop pe b (ls @ tail) = map_option (\<lambda>r. (fst r, tail)) (node_loop pe b ls)"
    "node_loop pe b ls = Some r \<Longrightarrow> snd r = []" by auto
qed

lemma parse_header_section:
  assumes "no_node ls" and "at_node tail"
  shows "parse_header pe (ls @ tail) = map_option (\<lambda>r. (fst r, tail)) (parse_header pe ls)"
  using header_loop_section(1) [OF assms, of pe header_start]
  by (simp add: parse_header_def case_prod_beta Let_def option.map_comp o_def)

lemma parse_node_section:
  assumes "is_node l" and "no_node ls" and "at_node tail"
  shows "parse_node pe (l # ls @ tail) = map_option (\<lambda>r. (fst r, tail)) (parse_node pe (l # ls))"
  using assms(1) node_loop_section(1) [OF assms(2,3)]
  by (auto simp: parse_node_def is_node_def case_prod_beta option.map_comp o_def split: line_kind.splits)

section \<open>The sections of the nodes\<close>

function node_sections :: "agm_line list \<Rightarrow> agm_line list list" where
  "node_sections [] = []"
| "node_sections (l # ls) =
     (l # takeWhile (\<lambda>l. \<not> is_node l) ls) # node_sections (dropWhile (\<lambda>l. \<not> is_node l) ls)"
  by pat_completeness auto
termination by (relation "measure length") (auto simp: less_Suc_eq_le length_dropWhile_le)

fun parse_sections :: "parse_env \<Rightarrow> agm_line list list \<Rightarrow> (node list \<times> agm_error list) option" where
  "parse_sections pe [] = Some ([], [])"
| "parse_sections pe (sec # secs) =
     Option.bind (parse_node pe sec) (\<lambda>(r, _).
       map_option (\<lambda>(nodes, errors). (fst r # nodes, snd r @ errors)) (parse_sections pe secs))"

lemma at_node_dropWhile [simp]: "at_node (dropWhile (\<lambda>l. \<not> is_node l) ls)"
  by (induction ls) auto

lemma no_node_takeWhile [simp]: "no_node (takeWhile (\<lambda>l. \<not> is_node l) ls)"
  by (auto simp: no_node_def dest: set_takeWhileD)

lemma parse_nodes_sections: "at_node ls \<Longrightarrow> parse_nodes pe ls = parse_sections pe (node_sections ls)"
proof (induction ls rule: node_sections.induct)
  case (2 l ls)
  let ?sec = "takeWhile (\<lambda>l. \<not> is_node l) ls" and ?rest = "dropWhile (\<lambda>l. \<not> is_node l) ls"
  have "parse_node pe (l # ?sec @ ?rest) = map_option (\<lambda>r. (fst r, ?rest)) (parse_node pe (l # ?sec))"
    using 2(2) by (intro parse_node_section) simp_all
  then have "parse_node pe (l # ls) = map_option (\<lambda>r. (fst r, ?rest)) (parse_node pe (l # ?sec))" by simp
  then show ?case
    using 2 by (simp add: parse_nodes.simps bind_map_option case_prod_beta' o_def)
qed (simp add: parse_nodes.simps)

lemma parse_lines_sections:
  "parse_lines pe lines =
     Option.bind (parse_header pe (takeWhile (\<lambda>l. \<not> is_node l) lines)) (\<lambda>((h, errors), _).
       map_option (\<lambda>(nodes, more). file_result h nodes (errors @ more @ (if nodes = [] then [empty_file_error] else [])))
         (parse_sections pe (node_sections (dropWhile (\<lambda>l. \<not> is_node l) lines))))"
proof -
  have "parse_header pe lines = map_option (\<lambda>r. (fst r, dropWhile (\<lambda>l. \<not> is_node l) lines))
    (parse_header pe (takeWhile (\<lambda>l. \<not> is_node l) lines))"
    using parse_header_section [of "takeWhile (\<lambda>l. \<not> is_node l) lines" "dropWhile (\<lambda>l. \<not> is_node l) lines" pe] by simp
  then show ?thesis
    by (simp add: parse_lines_def parse_nodes_sections bind_map_option case_prod_beta' o_def)
qed

lemma node_sections_snoc:
  assumes "ls \<noteq> []"
  shows "node_sections (ls @ [l]) =
    (if is_node l then node_sections ls @ [[l]]
     else butlast (node_sections ls) @ [last (node_sections ls) @ [l]])"
  using assms
proof (induction ls rule: node_sections.induct)
  case (2 m ls)
  show ?case
  proof (cases "dropWhile (\<lambda>l. \<not> is_node l) ls = []")
    case True
    then have "no_node ls" by (auto simp: no_node_def dropWhile_eq_Nil_conv)
    then have t: "takeWhile (\<lambda>l. \<not> is_node l) (ls @ [l]) = (if is_node l then ls else ls @ [l])"
      and d: "dropWhile (\<lambda>l. \<not> is_node l) (ls @ [l]) = (if is_node l then [l] else [])"
      and w: "takeWhile (\<lambda>l. \<not> is_node l) ls = ls"
      by (auto simp: no_node_def takeWhile_append dropWhile_append takeWhile_eq_all_conv)
    have n: "node_sections (m # ls) = [m # ls]" by (simp only: node_sections.simps True w)
    show ?thesis unfolding n append_Cons node_sections.simps(2) [of m "ls @ [l]"] t d by simp
  next
    case False
    then obtain x where "x \<in> set ls" "is_node x" by (auto simp: dropWhile_eq_Nil_conv)
    then have "takeWhile (\<lambda>l. \<not> is_node l) (ls @ [l]) = takeWhile (\<lambda>l. \<not> is_node l) ls"
      "dropWhile (\<lambda>l. \<not> is_node l) (ls @ [l]) = dropWhile (\<lambda>l. \<not> is_node l) ls @ [l]"
      by (auto simp: takeWhile_append1 dropWhile_append1)
    moreover have "node_sections (dropWhile (\<lambda>l. \<not> is_node l) ls) \<noteq> []"
      using False by (cases "dropWhile (\<lambda>l. \<not> is_node l) ls") auto
    ultimately show ?thesis using 2 False by simp
  qed
qed simp

lemma parse_sections_append:
  "parse_sections pe (xs @ ys) =
     Option.bind (parse_sections pe xs) (\<lambda>(ns, es).
       map_option (\<lambda>(ms, fs). (ns @ ms, es @ fs)) (parse_sections pe ys))"
proof (induction xs)
  case (Cons x xs)
  show ?case
    by (cases "parse_node pe x"; cases "parse_sections pe xs"; cases "parse_sections pe ys")
      (auto simp: Cons)
qed (simp add: option.map_ident case_prod_beta)


section \<open>The state of the stream\<close>

text \<open>The sections that are complete after the lines read: the header and all nodes but the last.\<close>

definition nodes_part :: "agm_line list \<Rightarrow> agm_line list" where
  "nodes_part lines = dropWhile (\<lambda>l. \<not> is_node l) lines"

definition parsed_sections ::
  "parse_env \<Rightarrow> agm_line list \<Rightarrow> (header option \<times> node list \<times> agm_error list) option" where
  "parsed_sections pe lines =
     (if nodes_part lines = [] then Some (None, [], [])
      else
        Option.bind (parse_header pe (takeWhile (\<lambda>l. \<not> is_node l) lines)) (\<lambda>((h, errors), _).
          map_option (\<lambda>(nodes, more). (Some h, nodes, errors @ more))
            (parse_sections pe (butlast (node_sections (nodes_part lines))))))"

definition stream_inv ::
  "nat \<Rightarrow> agm_line list \<Rightarrow> agm_error list \<Rightarrow> header option \<times> node list \<times> agm_error list \<Rightarrow> stream_parser \<Rightarrow> bool" where
  "stream_inv n lines lex_errors parsed s \<longleftrightarrow>
     sp_line_number s = n \<and> sp_header s = fst parsed \<and> sp_nodes s = fst (snd parsed) \<and>
     mset (sp_errors s) = mset (lex_errors @ snd (snd parsed)) \<and>
     (lex_errors = [] \<longrightarrow> sp_errors s = snd (snd parsed)) \<and>
     (if nodes_part lines = [] then
        sp_buffered s = lines \<and> sp_state s = (if lines = [] then StBeforeHeader else StInHeader)
      else sp_buffered s = last (node_sections (nodes_part lines)) \<and> sp_state s = StInNode)"

lemma node_sections_ne: "ls \<noteq> [] \<Longrightarrow> node_sections ls \<noteq> []"
  by (cases ls) auto

lemma section_ne: "ls \<noteq> [] \<Longrightarrow> last (node_sections ls) \<noteq> []"
proof (induction ls rule: node_sections.induct)
  case (2 l ls)
  show ?case
  proof (cases "dropWhile (\<lambda>l. \<not> is_node l) ls = []")
    case True
    then have "node_sections (dropWhile (\<lambda>l. \<not> is_node l) ls) = []" by (simp only: node_sections.simps)
    then show ?thesis by simp
  next
    case False
    then show ?thesis using 2 node_sections_ne [OF False] by simp
  qed
qed simp

lemma nodes_part_simps [simp]: "nodes_part [] = []" "nodes_part [l] = (if is_node l then [l] else [])"
  by (simp_all add: nodes_part_def)

lemma nodes_part_snoc:
  "nodes_part (ls @ [l]) =
     (if nodes_part ls = [] then (if is_node l then [l] else []) else nodes_part ls @ [l])"
  by (auto simp: nodes_part_def dropWhile_append dropWhile_eq_Nil_conv)

lemma header_part_snoc:
  "takeWhile (\<lambda>l. \<not> is_node l) (ls @ [l]) =
     (if nodes_part ls = [] then (if is_node l then ls else ls @ [l]) else takeWhile (\<lambda>l. \<not> is_node l) ls)"
  by (auto simp: nodes_part_def takeWhile_append dropWhile_eq_Nil_conv takeWhile_eq_all_conv)

lemma header_part_all: "nodes_part ls = [] \<Longrightarrow> takeWhile (\<lambda>l. \<not> is_node l) ls = ls"
  by (auto simp: nodes_part_def dropWhile_eq_Nil_conv takeWhile_eq_all_conv)

text \<open>The stream reads one line: an error of the lexer, a line of a section, or a new section.\<close>

lemma feed_line_inv:
  assumes inv: "stream_inv n lines lex_errors parsed s" and parsed: "parsed_sections pe lines = Some parsed"
  shows "case classify_line raw (Suc n) of
      Inl e \<Rightarrow> \<exists>es s'. feed_line pe raw s = Some (es, s') \<and> stream_inv (Suc n) lines (lex_errors @ [e]) parsed s'
    | Inr l \<Rightarrow>
        (case parsed_sections pe (lines @ [l]) of
           None \<Rightarrow> feed_line pe raw s = None
         | Some parsed' \<Rightarrow>
             \<exists>es s'. feed_line pe raw s = Some (es, s') \<and> stream_inv (Suc n) (lines @ [l]) lex_errors parsed' s')"
proof (cases "classify_line raw (Suc n)")
  case (Inl e)
  then show ?thesis using inv by (auto simp: feed_line_def add_errors_def stream_inv_def Let_def)
next
  case (Inr l)
  let ?s = "s\<lparr>sp_line_number := Suc n\<rparr>"
  have feed: "feed_line pe raw s = stream_step pe l ?s"
    using Inr inv by (simp add: feed_line_def stream_inv_def Let_def)
  show ?thesis
  proof (cases "is_node l")
    case False
    then have other: "(case ln_kind l of LkNode i \<Rightarrow> f i | _ \<Rightarrow> x) = x" for f and x :: "(parse_event list \<times> stream_parser) option"
      by (cases "ln_kind l") (auto simp: is_node_def)
    have parsed': "parsed_sections pe (lines @ [l]) = Some parsed"
      using parsed False node_sections_snoc [of "nodes_part lines" l]
      by (cases "nodes_part lines = []") (simp_all add: parsed_sections_def nodes_part_snoc header_part_snoc)
    show ?thesis
      using inv False node_sections_snoc [of "nodes_part lines" l]
      by (auto simp: Inr parsed' feed stream_step_def other stream_inv_def buffer_def nodes_part_snoc)
  next
    case True
    then obtain i where i: "ln_kind l = LkNode i" by (auto simp: is_node_def split: line_kind.splits)
    show ?thesis
    proof (cases "nodes_part lines = []")
      case new: True
      then show ?thesis
        using inv parsed True header_part_all [OF new]
        by (cases "parse_header pe lines")
          (auto simp: Inr feed stream_step_def i start_section_def flush_header_def stream_inv_def buffer_def
            add_errors_def parsed_sections_def nodes_part_snoc header_part_snoc split: if_splits)
    next
      case False
      let ?secs = "node_sections (nodes_part lines)"
      have last: "?secs = butlast ?secs @ [last ?secs]" using node_sections_ne [OF False] by simp
      obtain h he r where h: "parse_header pe (takeWhile (\<lambda>l. \<not> is_node l) lines) = Some ((h, he), r)"
        using parsed False by (auto simp: parsed_sections_def split: bind_splits)
      obtain ns es where ns: "parse_sections pe (butlast ?secs) = Some (ns, es)" and p: "parsed = (Some h, ns, he @ es)"
        using parsed False h by (auto simp: parsed_sections_def)
      have parsed': "parsed_sections pe (lines @ [l]) =
        map_option (\<lambda>((n, e), _). (Some h, ns @ [n], he @ es @ e)) (parse_node pe (last ?secs))"
        using False True node_sections_snoc [OF False, of l] h ns
          parse_sections_append [of pe "butlast ?secs" "[last ?secs]", folded last]
        by (auto simp: parsed_sections_def nodes_part_snoc header_part_snoc bind_map_option case_prod_beta' o_def
            option.map_comp split: bind_splits)
      show ?thesis
        using inv False True section_ne [OF False] node_sections_snoc [OF False, of l]
        by (cases "parse_node pe (last ?secs)")
          (auto simp: Inr parsed' feed stream_step_def i start_section_def flush_node_def stream_inv_def buffer_def
            add_errors_def nodes_part_snoc p)
    qed
  qed
qed

lemma parsed_sections_prefix: "parsed_sections pe ls = None \<Longrightarrow> parsed_sections pe (ls @ [l]) = None"
proof -
  assume none: "parsed_sections pe ls = None"
  then have ne: "nodes_part ls \<noteq> []" by (auto simp: parsed_sections_def)
  let ?secs = "node_sections (nodes_part ls)"
  have "?secs = butlast ?secs @ [last ?secs]" using node_sections_ne [OF ne] by simp
  then have "parse_sections pe (butlast ?secs) = None \<Longrightarrow> parse_sections pe ?secs = None"
    using parse_sections_append [of pe "butlast ?secs" "[last ?secs]"] by simp
  then show ?thesis
    using none ne node_sections_snoc [OF ne, of l]
    by (auto simp: parsed_sections_def nodes_part_snoc header_part_snoc split: bind_splits)
qed

lemma feed_lines_inv:
  "case parsed_sections pe (fst (lex_from (Suc 0) raws)) of
     None \<Rightarrow> feed_lines pe raws stream_new = None
   | Some parsed \<Rightarrow>
       \<exists>es s. feed_lines pe raws stream_new = Some (es, s) \<and>
         stream_inv (length raws) (fst (lex_from (Suc 0) raws)) (snd (lex_from (Suc 0) raws)) parsed s"
proof (induction raws rule: rev_induct)
  case Nil
  then show ?case by (simp add: parsed_sections_def nodes_part_def stream_inv_def stream_new_def)
next
  case (snoc raw raws)
  let ?lines = "fst (lex_from (Suc 0) raws)" and ?errors = "snd (lex_from (Suc 0) raws)"
  have lex: "lex_from (Suc 0) (raws @ [raw]) =
    (case classify_line raw (Suc (length raws)) of
       Inl e \<Rightarrow> (?lines, ?errors @ [e]) | Inr l \<Rightarrow> (?lines @ [l], ?errors))"
    using lex_from_append [of "Suc 0" raws "[raw]"] by (simp split: sum.split)
  show ?case
  proof (cases "parsed_sections pe ?lines")
    case None
    then show ?thesis
      using snoc parsed_sections_prefix [OF None] by (auto simp: feed_lines_append lex split: sum.split)
  next
    case (Some parsed)
    obtain es s where s: "feed_lines pe raws stream_new = Some (es, s)"
      and inv: "stream_inv (length raws) ?lines ?errors parsed s"
      using snoc Some by auto
    show ?thesis
    proof (cases "classify_line raw (Suc (length raws))")
      case (Inl e)
      then show ?thesis
        using feed_line_inv [OF inv Some, of raw] Some by (auto simp: feed_lines_append s lex)
    next
      case (Inr l)
      then show ?thesis
        using feed_line_inv [OF inv Some, of raw]
        by (cases "parsed_sections pe (?lines @ [l])") (auto simp: feed_lines_append s lex)
    qed
  qed
qed


section \<open>From text to lines\<close>

text \<open>The lines the stream reads: the last line is closed like the others.\<close>

definition final_lines :: "string \<Rightarrow> string list" where
  "final_lines s = whole_lines s @ (if last_piece s = [] then [] else [chomp_cr (last_piece s)])"

lemma stream_close_with_text: "stream_close pe (with_text p b s) = stream_close pe s"
proof -
  have "finish_result pe ((with_text p b t)\<lparr>sp_state := st\<rparr>) = finish_result pe (t\<lparr>sp_state := st\<rparr>)" for t st
    by (simp add: finish_result_def with_text_updates split: option.split)
  then show ?thesis
    by (cases "flush_current_section pe s")
      (simp_all add: stream_close_def flush_with_text with_text_updates case_prod_beta' Let_def)
qed

lemma whole_lines_closed: "nl \<notin> set q \<Longrightarrow> whole_lines (q @ [nl]) = [chomp_cr q] \<and> last_piece (q @ [nl]) = []"
proof -
  assume "nl \<notin> set q"
  then have "split_char nl (q @ [nl]) = [q, []]" by (induction q) auto
  then show ?thesis by (simp add: whole_lines_def last_piece_def)
qed

lemma stream_parse_lines:
  "stream_parse pe chunks =
     Option.bind (feed_lines pe (final_lines (concat chunks)) stream_new) (\<lambda>(es, s).
       map_option (apfst (append es)) (stream_close pe s))"
proof -
  let ?input = "concat chunks"
  have push: "push_chunks pe chunks stream_new =
    map_option (apsnd (with_text (last_piece ?input) (length ?input))) (feed_lines pe (whole_lines ?input) stream_new)"
    using push_chunks_feed [of pe chunks "[]" 0 stream_new]
    by (simp add: whole_lines_def last_piece_def with_text_def stream_new_def)
  have finish: "stream_finish pe (with_text (last_piece ?input) b s) =
    Option.bind (feed_lines pe (drop (length (whole_lines ?input)) (final_lines ?input)) s)
      (\<lambda>(es, s). map_option (apfst (append es)) (stream_close pe s))" for b s
  proof (cases "last_piece ?input = []")
    case True
    then have "close_line (with_text (last_piece ?input) b s) = with_text [] b s" by (simp add: close_line_def)
    then show ?thesis
      using True drain_lines_feed [of pe "[]" b s]
      by (simp add: stream_finish_def final_lines_def stream_close_with_text whole_lines_def)
  next
    case False
    have "\<not> ends_with [nl] (last_piece ?input)"
      using split_char_last [of ?input] by (auto simp: ends_with_def starts_with_iff rev_eq_append_conv)
    then have "close_line (with_text (last_piece ?input) b s) = with_text (last_piece ?input @ [nl]) b s"
      using False by (simp add: close_line_def with_text_def)
    then show ?thesis
      using False drain_lines_feed [of pe "last_piece ?input @ [nl]" b s] whole_lines_closed [OF split_char_last]
      by (simp add: stream_finish_def final_lines_def bind_map_option case_prod_beta' o_def stream_close_with_text)
  qed
  have "final_lines ?input = whole_lines ?input @ drop (length (whole_lines ?input)) (final_lines ?input)"
    by (simp add: final_lines_def)
  then have "feed_lines pe (final_lines ?input) stream_new =
    Option.bind (feed_lines pe (whole_lines ?input) stream_new) (\<lambda>(es, s1). map_option (apfst (append es))
      (feed_lines pe (drop (length (whole_lines ?input)) (final_lines ?input)) s1))"
    using feed_lines_append by metis
  note lines = this
  show ?thesis
  proof (cases "feed_lines pe (whole_lines ?input) stream_new")
    case None
    then show ?thesis unfolding lines by (simp add: stream_parse_def push)
  next
    case (Some r)
    then show ?thesis
      unfolding lines
      by (cases "feed_lines pe (drop (length (whole_lines ?input)) (final_lines ?input)) (snd r)")
        (simp_all add: stream_parse_def push finish case_prod_beta' option.map_comp o_def apfst_def map_prod_def)
  qed
qed

lemma lines_from_pieces:
  "lines_from acc s =
     (let ps = split_char nl s; qs = (rev acc @ hd ps) # List.tl ps in
      map chomp_cr (butlast qs) @ (if last qs = [] then [] else [last qs]))"
proof (induction s arbitrary: acc)
  case (Cons c s)
  obtain p ps where p: "split_char nl s = p # ps" by (cases "split_char nl s") auto
  show ?case using Cons by (auto simp: p Let_def)
qed simp

lemma str_lines_pieces: "str_lines s = whole_lines s @ (if last_piece s = [] then [] else [last_piece s])"
  by (cases "split_char nl s") (auto simp: str_lines_def lines_from_pieces whole_lines_def last_piece_def Let_def)

lemma final_lines_batch: "s = [] \<or> last s \<noteq> cr \<Longrightarrow> final_lines s = str_lines s"
proof -
  assume s: "s = [] \<or> last s \<noteq> cr"
  have "last (last_piece s) = last s" if "last_piece s \<noteq> []"
  proof -
    have "s = join [nl] (split_char nl s)" by (simp add: join_split_char)
    moreover have "join [nl] xs \<noteq> [] \<and> last (join [nl] xs) = last (last xs)" if "xs \<noteq> []" "last xs \<noteq> []" for xs
      using that by (induction "[nl]" xs rule: join.induct) auto
    ultimately show ?thesis using that by (metis last_piece_def split_char_not_Nil)
  qed
  then have "last_piece s \<noteq> [] \<Longrightarrow> chomp_cr (last_piece s) = last_piece s"
    using s by (intro chomp_cr_id) (auto simp: last_piece_def)
  then show ?thesis by (auto simp: final_lines_def str_lines_pieces)
qed


section \<open>The results\<close>

text \<open>\<open>lex_errors\<close> are the errors of the lexer, \<open>r\<close> is what the batch parser says of the good lines.\<close>

definition agrees :: "agm_error list \<Rightarrow> agm_file parse_result \<Rightarrow> agm_file parse_result \<Rightarrow> bool" where
  "agrees lex_errors r r' \<longleftrightarrow>
     (case r of
        Inr f \<Rightarrow> if lex_errors = [] then r' = Inr f else (\<exists>es'. r' = Inl es' \<and> mset lex_errors \<subseteq># mset es')
      | Inl es \<Rightarrow> \<exists>es'. r' = Inl es' \<and> mset es' = mset (lex_errors @ es))"

lemma list_ex_mset: "mset xs = mset ys \<Longrightarrow> list_ex P xs = list_ex P ys"
  by (metis (mono_tags) list_ex_iff mset_eq_setD)

lemma file_result_agrees:
  assumes "mset es' = mset (lex_errors @ es)" and "lex_errors = [] \<Longrightarrow> es' = es" and "\<forall>e \<in> set lex_errors. is_error e"
  shows "agrees lex_errors (file_result h ns es) (file_result h ns es')"
proof -
  have "list_ex is_error es' \<longleftrightarrow> list_ex is_error lex_errors \<or> list_ex is_error es"
    using list_ex_mset [OF assms(1)] by simp
  moreover have "lex_errors \<noteq> [] \<Longrightarrow> list_ex is_error lex_errors" using assms(3) by (cases lex_errors) auto
  ultimately show ?thesis using assms(1,2) by (auto simp: agrees_def file_result_def)
qed

lemma empty_file_is_error [simp]: "is_error empty_file_error"
  by (simp add: empty_file_error_def is_error_def agm_error_new_def)

lemma parse_header_nil: "\<exists>h es. parse_header pe [] = Some ((h, es), [])"
  by (simp add: parse_header_def header_loop.simps case_prod_beta' Let_def)

lemma stream_close_result:
  assumes inv: "stream_inv n lines lex_errors parsed s" and parsed: "parsed_sections pe lines = Some parsed"
    and errors: "\<forall>e \<in> set lex_errors. is_error e"
  shows "case parse_lines pe lines of
      None \<Rightarrow> stream_close pe s = None
    | Some r \<Rightarrow> \<exists>es r'. stream_close pe s = Some (es, r') \<and> agrees lex_errors r r'"
proof (cases "nodes_part lines = []")
  case True
  have head: "takeWhile (\<lambda>l. \<not> is_node l) lines = lines" by (rule header_part_all [OF True])
  have secs: "node_sections (dropWhile (\<lambda>l. \<not> is_node l) lines) = []"
    using True by (simp only: nodes_part_def node_sections.simps)
  have p: "parsed = (None, [], [])" using parsed True by (simp add: parsed_sections_def)
  have fail: "agrees lex_errors (file_result h [] (es @ [empty_file_error])) (file_result h' [] es')"
    if "mset es' = mset (lex_errors @ es @ [empty_file_error])" for h h' es es'
  proof -
    have "list_ex is_error es'" using list_ex_mset [OF that] by simp
    then show ?thesis using that by (simp add: agrees_def file_result_def)
  qed
  show ?thesis
  proof (cases "lines = []")
    case nil: True
    obtain h es where "parse_header pe [] = Some ((h, es), [])" using parse_header_nil by blast
    then show ?thesis
      using inv True nil p
      by (auto simp: parse_lines_sections secs stream_close_def flush_current_section_def stream_inv_def
          finish_result_def add_errors_def intro!: fail)
  next
    case False
    show ?thesis
    proof (cases "parse_header pe lines")
      case None
      then show ?thesis
        using inv True False p
        by (simp add: parse_lines_sections secs head stream_close_def flush_current_section_def stream_inv_def)
    next
      case (Some r)
      then show ?thesis
        using inv True False p
        by (auto simp: parse_lines_sections secs head stream_close_def flush_current_section_def stream_inv_def
            finish_result_def add_errors_def case_prod_beta' intro!: fail)
    qed
  qed
next
  case False
  let ?secs = "node_sections (nodes_part lines)"
  have last: "?secs = butlast ?secs @ [last ?secs]" using node_sections_ne [OF False] by simp
  obtain h he r where h: "parse_header pe (takeWhile (\<lambda>l. \<not> is_node l) lines) = Some ((h, he), r)"
    using parsed False by (auto simp: parsed_sections_def split: bind_splits)
  obtain ns es where ns: "parse_sections pe (butlast ?secs) = Some (ns, es)" and p: "parsed = (Some h, ns, he @ es)"
    using parsed False h by (auto simp: parsed_sections_def)
  have lines: "parse_lines pe lines =
    map_option (\<lambda>((n, e), _). file_result h (ns @ [n]) (he @ es @ e)) (parse_node pe (last ?secs))"
    using h ns parse_sections_append [of pe "butlast ?secs" "[last ?secs]", folded last]
    by (cases "parse_node pe (last ?secs)")
      (simp_all add: parse_lines_sections nodes_part_def [symmetric] case_prod_beta')
  show ?thesis
  proof (cases "parse_node pe (last ?secs)")
    case None
    then show ?thesis
      using inv False section_ne [OF False]
      by (simp add: lines stream_close_def flush_current_section_def flush_node_def stream_inv_def)
  next
    case (Some x)
    obtain n e r' where x: "x = ((n, e), r')" by (metis prod.exhaust)
    have "agrees lex_errors (file_result h (ns @ [n]) (he @ es @ e)) (file_result h (ns @ [n]) (sp_errors s @ e))"
      using inv errors p by (intro file_result_agrees) (auto simp: stream_inv_def)
    then show ?thesis
      using inv False section_ne [OF False] p
      by (simp add: lines Some x stream_close_def flush_current_section_def flush_node_def stream_inv_def
          finish_result_def add_errors_def)
  qed
qed

lemma lex_errors_are_errors: "e \<in> set (snd (lex_from n raws)) \<Longrightarrow> is_error e"
  by (induction raws arbitrary: n) (auto simp: case_prod_beta Let_def dest: classify_line_errors split: sum.splits)

lemma parsed_sections_None: "parsed_sections pe lines = None \<Longrightarrow> parse_lines pe lines = None"
proof -
  assume none: "parsed_sections pe lines = None"
  then have ne: "nodes_part lines \<noteq> []" by (auto simp: parsed_sections_def)
  let ?secs = "node_sections (nodes_part lines)"
  have "?secs = butlast ?secs @ [last ?secs]" using node_sections_ne [OF ne] by simp
  then have "parse_sections pe (butlast ?secs) = None \<Longrightarrow> parse_sections pe ?secs = None"
    using parse_sections_append [of pe "butlast ?secs" "[last ?secs]"] by simp
  then show ?thesis
    using none ne by (auto simp: parse_lines_sections nodes_part_def [symmetric] parsed_sections_def split: bind_splits)
qed

lemma stream_parse_result:
  fixes chunks
  defines "lexed \<equiv> lex_from (Suc 0) (final_lines (concat chunks))"
  shows "case parse_lines pe (fst lexed) of
      None \<Rightarrow> stream_parse pe chunks = None
    | Some r \<Rightarrow> \<exists>es r'. stream_parse pe chunks = Some (es, r') \<and> agrees (snd lexed) r r'"
proof (cases "parsed_sections pe (fst lexed)")
  case None
  then show ?thesis
    using feed_lines_inv [of pe "final_lines (concat chunks)"] parsed_sections_None [OF None]
    by (simp add: lexed_def stream_parse_lines)
next
  case (Some parsed)
  obtain es s where s: "feed_lines pe (final_lines (concat chunks)) stream_new = Some (es, s)"
    and inv: "stream_inv (length (final_lines (concat chunks))) (fst lexed) (snd lexed) parsed s"
    using feed_lines_inv [of pe "final_lines (concat chunks)"] Some by (auto simp: lexed_def)
  have "\<forall>e \<in> set (snd lexed). is_error e" using lex_errors_are_errors by (auto simp: lexed_def)
  from stream_close_result [OF inv Some this] show ?thesis
    by (auto simp: stream_parse_lines s split: option.splits)
qed

text \<open>The text with its last line closed, as \<open>finish\<close> closes it.\<close>

definition closed_text :: "string \<Rightarrow> string" where
  "closed_text s = (if s = [] \<or> last s = nl then s else s @ [nl])"

lemma split_char_close: "split_char c (s @ [c]) = split_char c s @ [[]]"
  by (induction s) (auto split: list.split)

lemma last_piece_Nil: "last_piece s = [] \<longleftrightarrow> s = [] \<or> last s = nl"
proof (cases s rule: rev_cases)
  case (snoc t a)
  have "last (split_char nl (t @ [a])) = [] \<longleftrightarrow> a = nl"
  proof (induction t)
    case (Cons b t)
    show ?case
    proof (cases "split_char nl (t @ [a])")
      case (Cons q qs)
      then show ?thesis using Cons.IH Cons split_char_close [of nl t] by (cases "qs = []") auto
    qed simp
  qed simp
  then show ?thesis by (simp add: snoc last_piece_def)
qed (simp add: last_piece_def)

lemma str_lines_closed: "str_lines (closed_text s) = final_lines s"
proof (cases "last_piece s = []")
  case True
  then show ?thesis by (auto simp: closed_text_def final_lines_def str_lines_pieces last_piece_Nil)
next
  case False
  have w: "whole_lines (s @ [nl]) = whole_lines s @ [chomp_cr (last_piece s)]"
    using append_butlast_last_id [of "split_char nl s"]
    by (simp add: whole_lines_def last_piece_def split_char_close butlast_append flip: map_append)
      (metis list.simps(8,9) map_append split_char_not_Nil append_butlast_last_id)
  have "last_piece (s @ [nl]) = []" by (simp add: last_piece_def split_char_close)
  then show ?thesis using False w by (simp add: closed_text_def final_lines_def str_lines_pieces last_piece_Nil)
qed

text \<open>C2: However a text is cut into chunks, the streaming parser accepts exactly what the batch parser
accepts of the text with its last line closed, with the same file; where every line is lexed it panics
when the batch parser does and reports the same errors, up to their order; where some line is not, the
batch parser reports these lines alone, and the stream, if it ends, rejects the text with these errors
among its own. Closing the last line changes nothing for the batch parser unless the text ends in a
lone carriage return.\<close>

theorem stream_parse_equals_batch:
  fixes chunks :: "string list"
  defines "input \<equiv> closed_text (concat chunks)"
  shows "((\<exists>es. stream_parse pe chunks = Some (es, Inr file)) \<longleftrightarrow> parse pe input = Some (Inr file)) \<and>
    (case lex input of
       Inr lines \<Rightarrow>
         (case parse pe input of
            None \<Rightarrow> stream_parse pe chunks = None
          | Some (Inr f) \<Rightarrow> \<exists>es. stream_parse pe chunks = Some (es, Inr f)
          | Some (Inl errors) \<Rightarrow> \<exists>es errors'. stream_parse pe chunks = Some (es, Inl errors') \<and> mset errors' = mset errors)
     | Inl errors \<Rightarrow>
         parse pe input = Some (Inl errors) \<and>
         (case stream_parse pe chunks of
            None \<Rightarrow> True
          | Some (es, Inr f) \<Rightarrow> False
          | Some (es, Inl errors') \<Rightarrow> mset errors \<subseteq># mset errors')) \<and>
    (parse pe input = parse pe (concat chunks) \<or> (\<exists>s. concat chunks = s @ [cr]))"
proof -
  let ?lexed = "lex_from (Suc 0) (final_lines (concat chunks))"
  have lex: "lex input = (if snd ?lexed = [] then Inr (fst ?lexed) else Inl (snd ?lexed))"
    by (simp add: lex_def input_def str_lines_closed case_prod_beta')
  have "parse pe input = parse pe (concat chunks) \<or> (\<exists>s. concat chunks = s @ [cr])"
  proof (cases "concat chunks = [] \<or> last (concat chunks) \<noteq> cr")
    case True
    have "str_lines input = str_lines (concat chunks)"
      using final_lines_batch [OF True] by (simp add: input_def str_lines_closed)
    then show ?thesis by (simp add: parse_def lex_def)
  next
    case False
    then show ?thesis by (metis append_butlast_last_id)
  qed
  moreover have "((\<exists>es. stream_parse pe chunks = Some (es, Inr file)) \<longleftrightarrow> parse pe input = Some (Inr file)) \<and>
    (case lex input of
       Inr lines \<Rightarrow>
         (case parse pe input of
            None \<Rightarrow> stream_parse pe chunks = None
          | Some (Inr f) \<Rightarrow> \<exists>es. stream_parse pe chunks = Some (es, Inr f)
          | Some (Inl errors) \<Rightarrow> \<exists>es errors'. stream_parse pe chunks = Some (es, Inl errors') \<and> mset errors' = mset errors)
     | Inl errors \<Rightarrow>
         parse pe input = Some (Inl errors) \<and>
         (case stream_parse pe chunks of
            None \<Rightarrow> True
          | Some (es, Inr f) \<Rightarrow> False
          | Some (es, Inl errors') \<Rightarrow> mset errors \<subseteq># mset errors'))"
  proof (cases "parse_lines pe (fst ?lexed)")
    case None
    then show ?thesis using stream_parse_result [of pe chunks] by (simp add: parse_def lex)
  next
    case (Some r)
    then show ?thesis
      using stream_parse_result [of pe chunks]
      by (cases r) (auto simp: parse_def lex agrees_def split: if_splits)
  qed
  ultimately show ?thesis by blast
qed

section \<open>The order of the events\<close>

text \<open>The contract of the events as an automaton over them.\<close>

datatype ev_phase = PhStart | PhHeader | PhOpen string | PhEnd

fun ev_next :: "ev_phase \<Rightarrow> parse_event \<Rightarrow> ev_phase option" where
  "ev_next PhEnd e = None"
| "ev_next ph (EvError e) = Some ph"
| "ev_next ph (EvWarning e) = Some ph"
| "ev_next ph EvEndOfFile = Some PhEnd"
| "ev_next ph (EvHeaderComplete h) = (if ph = PhStart then Some PhHeader else None)"
| "ev_next ph (EvNodeStarted i line) = (if ph = PhHeader then Some (PhOpen i) else None)"
| "ev_next ph (EvNodeComplete n) = (if ph = PhOpen (n_id n) then Some PhHeader else None)"

fun ev_run :: "ev_phase \<Rightarrow> parse_event list \<Rightarrow> ev_phase option" where
  "ev_run ph [] = Some ph"
| "ev_run ph (e # es) = Option.bind (ev_next ph e) (\<lambda>ph. ev_run ph es)"

lemma ev_run_append: "ev_run ph (xs @ ys) = Option.bind (ev_run ph xs) (\<lambda>ph. ev_run ph ys)"
  by (induction xs arbitrary: ph) (auto simp: Option.bind_assoc split: bind_splits)

lemma ev_run_errors [simp]: "ph \<noteq> PhEnd \<Longrightarrow> ev_run ph (map error_event es) = Some ph"
  by (induction es; cases ph) (auto simp: error_event_def)

text \<open>No field of a node changes its id or its place.\<close>

definition same_head :: "node \<Rightarrow> node \<Rightarrow> bool" where
  "same_head n m \<longleftrightarrow> n_id m = n_id n \<and> n_span m = n_span n"

lemma same_head_cases:
  "same_head n a \<Longrightarrow> same_head n b \<Longrightarrow> same_head n (if c then a else b)"
  "(\<And>x. same_head n (f x)) \<Longrightarrow> (\<And>y. same_head n (g y)) \<Longrightarrow> same_head n (case r of Inl x \<Rightarrow> f x | Inr y \<Rightarrow> g y)"
  "same_head n a \<Longrightarrow> (\<And>x. same_head n (f x)) \<Longrightarrow> same_head n (case u of None \<Rightarrow> a | Some x \<Rightarrow> f x)"
  by (simp_all split: sum.split option.split)

lemma same_head_refl [simp]: "same_head n n"
  by (simp add: same_head_def)

lemma assign_head [simp]:
  "same_head n (fst (assign_scalar_field pe key v k n))" "same_head n (assign_list_field key xs n)"
  "same_head n (assign_block_field key v n)" "same_head n (assign_body d v n)"
  unfolding assign_scalar_field_def assign_list_field_def assign_block_field_def assign_body_def
    if_distrib [of fst] sum.case_distrib [of fst] option.case_distrib [of fst] fst_conv
  by (intro same_head_cases; simp add: same_head_def insert_extra_def)+

lemma node_field_head: "node_field pe key k n ls = Some r \<Longrightarrow> same_head n (fst (fst r))"
  by (auto simp: node_field_def structured_node_field_def with_parsed_def insert_extra_def case_prod_beta' Let_def
      split: if_splits)
    (simp_all add: same_head_def)

lemma node_step_head: "node_step pe b l ls = Some r \<Longrightarrow> same_head (nb_node b) (nb_node (fst (fst r)))"
  by (auto simp: node_step_def Let_def case_prod_beta' dest: node_field_head split: line_kind.splits if_splits)

lemma node_loop_head: "node_loop pe b ls = Some r \<Longrightarrow> same_head (nb_node b) (nb_node (fst (fst r)))"
proof (induction ls arbitrary: b r rule: length_induct)
  case (1 ls)
  show ?case
  proof (cases ls)
    case (Cons l xs)
    show ?thesis
    proof (cases "is_node l")
      case False
      obtain p q where p: "node_step pe b l xs = Some p" and q: "node_loop pe (fst (fst p)) (snd p) = Some q"
        and r: "r = ((fst (fst q), snd (fst p) @ snd (fst q)), snd q)"
        using "1.prems" Cons False by (auto simp: node_loop.simps case_prod_beta' split: bind_splits)
      have "length (snd p) \<le> length xs" using node_step_length [of pe b l xs "fst p" "snd p"] p by simp
      then have "same_head (nb_node (fst (fst p))) (nb_node (fst (fst q)))"
        using "1.IH" q Cons by (metis le_imp_less_Suc length_Cons)
      then show ?thesis using node_step_head [OF p] r by (simp add: same_head_def)
    qed (use "1.prems" Cons in \<open>auto simp: node_loop.simps\<close>)
  qed (use "1.prems" in \<open>auto simp: node_loop.simps\<close>)
qed

lemma parse_node_id:
  "ln_kind l = LkNode i \<Longrightarrow> parse_node pe (l # ls) = Some r \<Longrightarrow> n_id (fst (fst r)) = i"
  by (auto simp: parse_node_def case_prod_beta' default_node_def same_head_def dest!: node_loop_head)

definition ev_inv :: "ev_phase \<Rightarrow> stream_parser \<Rightarrow> bool" where
  "ev_inv ph s \<longleftrightarrow>
     (case sp_state s of
        StBeforeHeader \<Rightarrow> ph = PhStart
      | StInHeader \<Rightarrow> ph = PhStart
      | StInNode \<Rightarrow> (\<exists>l i ls. sp_buffered s = l # ls \<and> ln_kind l = LkNode i \<and> ph = PhOpen i)
      | _ \<Rightarrow> False)"

lemma flush_header_events:
  "flush_header pe s = Some (es, s') \<Longrightarrow> ev_run PhStart es = Some PhHeader \<and> sp_buffered s' = []"
  by (auto simp: flush_header_def ev_run_append add_errors_def)

lemma flush_node_events:
  assumes "ev_inv ph s" and "sp_state s = StInNode" and "flush_node pe s = Some (es, s')"
  shows "ev_run ph es = Some PhHeader \<and> sp_buffered s' = []"
proof -
  obtain l i ls where b: "sp_buffered s = l # ls" "ln_kind l = LkNode i" "ph = PhOpen i"
    using assms(1,2) by (auto simp: ev_inv_def)
  obtain r where r: "parse_node pe (l # ls) = Some r"
    and es: "es = map error_event (snd (fst r)) @ [EvNodeComplete (fst (fst r))]" "sp_buffered s' = []"
    using assms(3) b by (auto simp: flush_node_def case_prod_beta')
  have "n_id (fst (fst r)) = i" by (rule parse_node_id [OF b(2) r])
  then show ?thesis using es b(3) by (simp add: ev_run_append)
qed

lemma stream_step_events:
  assumes inv: "ev_inv ph s" and step: "stream_step pe l s = Some (es, s')"
  shows "\<exists>ph'. ev_run ph es = Some ph' \<and> ev_inv ph' s'"
proof (cases "is_node l")
  case False
  then have other: "(case ln_kind l of LkNode i \<Rightarrow> f i | _ \<Rightarrow> x) = x" for f and x :: "(parse_event list \<times> stream_parser) option"
    by (cases "ln_kind l") (auto simp: is_node_def)
  show ?thesis
    using inv step
    by (cases "sp_state s") (auto simp: stream_step_def other ev_inv_def buffer_def)
next
  case True
  then obtain i where i: "ln_kind l = LkNode i" by (auto simp: is_node_def split: line_kind.splits)
  have start: "\<exists>ph'. ev_run ph es = Some ph' \<and> ev_inv ph' s'"
    if "start_section l i (Some (es1, s1)) = Some (es, s')" "ev_run ph es1 = Some PhHeader" "sp_buffered s1 = []" for es1 s1
    using that i by (auto simp: start_section_def ev_inv_def buffer_def ev_run_append)
  show ?thesis
  proof (cases "sp_state s = StInNode")
    case node: True
    then obtain es1 s1 where f: "flush_node pe s = Some (es1, s1)" "start_section l i (Some (es1, s1)) = Some (es, s')"
      using step i by (cases "flush_node pe s") (auto simp: stream_step_def start_section_def)
    then show ?thesis using start flush_node_events [OF inv node f(1)] by blast
  next
    case False
    then have ph: "ph = PhStart" using inv by (auto simp: ev_inv_def split: stream_state.splits)
    have "start_section l i (flush_header pe s) = Some (es, s')"
      using False inv step i by (cases "sp_state s") (auto simp: stream_step_def ev_inv_def)
    then obtain es1 s1 where "flush_header pe s = Some (es1, s1)" "start_section l i (Some (es1, s1)) = Some (es, s')"
      by (cases "flush_header pe s") (auto simp: start_section_def)
    then show ?thesis using start flush_header_events ph by blast
  qed
qed

lemma feed_lines_events:
  "ev_inv ph s \<Longrightarrow> feed_lines pe raws s = Some (es, s') \<Longrightarrow> \<exists>ph'. ev_run ph es = Some ph' \<and> ev_inv ph' s'"
proof (induction raws arbitrary: ph s es)
  case (Cons raw raws)
  obtain es1 s1 es2 where f: "feed_line pe raw s = Some (es1, s1)" "feed_lines pe raws s1 = Some (es2, s')" "es = es1 @ es2"
    using Cons.prems(2) by (auto split: bind_splits)
  let ?s = "s\<lparr>sp_line_number := Suc (sp_line_number s)\<rparr>"
  have inv: "ev_inv ph ?s" using Cons.prems(1) by (simp add: ev_inv_def split: stream_state.splits)
  have "\<exists>ph1. ev_run ph es1 = Some ph1 \<and> ev_inv ph1 s1"
  proof (cases "classify_line raw (sp_line_number ?s)")
    case (Inl e)
    then have "es1 = [EvError e]" "s1 = add_errors [e] ?s" using f(1) by (simp_all add: feed_line_def Let_def)
    then show ?thesis using inv by (cases ph) (auto simp: add_errors_def ev_inv_def split: stream_state.splits)
  next
    case (Inr l)
    then have "stream_step pe l ?s = Some (es1, s1)" using f(1) by (simp add: feed_line_def Let_def)
    then show ?thesis using stream_step_events [OF inv] by blast
  qed
  then show ?case using Cons.IH f by (fastforce simp: ev_run_append)
qed simp

text \<open>C15: The events of a parse keep their contract: the header comes before every node and at most
once, every node is completed under the id it was started with and before the next one starts,
and the end of the file comes last, once.\<close>

theorem stream_events_ordered:
  assumes "stream_parse pe chunks = Some (es, result)"
  shows "ev_run PhStart es = Some PhEnd"
proof -
  obtain es1 s es2 where s: "feed_lines pe (final_lines (concat chunks)) stream_new = Some (es1, s)"
    and close: "stream_close pe s = Some (es2, result)" and es: "es = es1 @ es2"
    using assms by (auto simp: stream_parse_lines split: bind_splits)
  have "ev_inv PhStart stream_new" by (simp add: ev_inv_def stream_new_def)
  then obtain ph where ph: "ev_run PhStart es1 = Some ph" "ev_inv ph s" using feed_lines_events s by blast
  obtain es3 s3 where f: "flush_current_section pe s = Some (es3, s3)"
    and es2: "es2 = es3 @ (if sp_nodes s3 = [] then [EvError empty_file_error] else []) @ [EvEndOfFile]"
    using close by (auto simp: stream_close_def case_prod_beta' split: bind_splits if_splits)
  have "\<exists>ph'. ph' \<noteq> PhEnd \<and> ev_run ph es3 = Some ph'"
  proof (cases "sp_state s = StInNode")
    case True
    then show ?thesis using flush_node_events [OF ph(2) True] f by (auto simp: flush_current_section_def)
  next
    case False
    then have "ph = PhStart" using ph(2) by (auto simp: ev_inv_def split: stream_state.splits)
    then show ?thesis
      using f False by (auto simp: flush_current_section_def case_prod_beta' split: stream_state.splits)
  qed
  then obtain ph' where "ph' \<noteq> PhEnd" "ev_run ph es3 = Some ph'" by blast
  then show ?thesis by (cases ph') (auto simp: es es2 ev_run_append ph(1))
qed

section \<open>Witnesses\<close>

definition parsed_ids :: "agm_file parse_result option \<Rightarrow> string list option" where
  "parsed_ids r = (case r of Some (Inr f) \<Rightarrow> Some (map n_id (f_nodes f)) | _ \<Rightarrow> None)"

lemma sample_parsed:
  obtains f where "parse sample_pe sample_source = Some (Inr f)" "map n_id (f_nodes f) = [''a.b'', ''c'']"
proof -
  have "parsed_ids (parse sample_pe sample_source) = Some [''a.b'', ''c'']" by code_simp
  then show thesis using that by (auto simp: parsed_ids_def split: option.splits sum.splits)
qed

lemma sample_text: "concat sample_chunks = sample_source" "last sample_source \<noteq> cr"
  by code_simp+

theorem stream_parse_equals_batch_witness:
  "\<exists>es f. stream_parse sample_pe sample_chunks = Some (es, Inr f) \<and> map n_id (f_nodes f) = [''a.b'', ''c'']"
proof -
  obtain f where f: "parse sample_pe sample_source = Some (Inr f)" "map n_id (f_nodes f) = [''a.b'', ''c'']"
    by (rule sample_parsed)
  moreover have "closed_text sample_source = sample_source" by code_simp
  ultimately show ?thesis
    using stream_parse_equals_batch [of sample_pe sample_chunks f] sample_text by auto
qed

theorem stream_events_ordered_witness:
  "map_option (ev_run PhStart \<circ> fst) (stream_parse sample_pe sample_chunks) = Some (Some PhEnd)"
proof -
  have "stream_parse sample_pe sample_chunks \<noteq> None" by code_simp
  then show ?thesis using stream_events_ordered [of sample_pe sample_chunks]
    by (cases "stream_parse sample_pe sample_chunks") auto
qed

end
