(* ===== verification/Parsed_File.thy ===== *)
theory Parsed_File
  imports Stream
begin

text \<open>
  What a file is that the parser accepts: its header fields and node identifiers have the
  format of the source, its nodes are the node declarations of the text in their order, and
  their spans are the lines they take. Then the behaviour of the parser on text it reads
  otherwise than it was meant: blocks that are indented less than they begin, and lists of
  groups.
\<close>

section \<open>Invariants of the loops\<close>

lemma node_loop_trans:
  assumes step: "\<And>b l ls r. l \<in> set lines \<Longrightarrow> node_step pe b l ls = Some r \<Longrightarrow> R b (fst (fst r))"
    and refl: "\<And>b. R b b" and trans: "\<And>a b c. R a b \<Longrightarrow> R b c \<Longrightarrow> R a c"
  shows "node_loop pe b ls = Some r \<Longrightarrow> set ls \<subseteq> set lines \<Longrightarrow> R b (fst (fst r))"
proof (induction ls arbitrary: b r rule: length_induct)
  case (1 ls)
  show ?case
  proof (cases ls)
    case (Cons l xs)
    show ?thesis
    proof (cases "is_node l")
      case False
      obtain p q where p: "node_step pe b l xs = Some p" and q: "node_loop pe (fst (fst p)) (snd p) = Some q"
        and r: "r = ((fst (fst q), snd (fst p) @ snd (fst q)), snd q)"
        using "1.prems" Cons False by (auto simp: node_loop.simps case_prod_beta' split: bind_splits)
      have "length (snd p) \<le> length xs" using node_step_length [of pe b l xs "fst p" "snd p"] p by simp
      moreover have "set (snd p) \<subseteq> set lines" using left_node_step [OF p] "1.prems"(2) Cons by auto
      ultimately have rest: "R (fst (fst p)) (fst (fst q))"
        using "1.IH" q Cons by (metis le_imp_less_Suc length_Cons)
      have "R b (fst (fst p))" using step [OF _ p] "1.prems"(2) Cons by simp
      then show ?thesis using trans [OF _ rest] r by simp
    qed (use "1.prems" Cons refl in \<open>auto simp: node_loop.simps\<close>)
  qed (use "1.prems" refl in \<open>auto simp: node_loop.simps\<close>)
qed

lemma header_loop_inv:
  assumes step: "\<And>s l ls r. header_step pe s l ls = Some r \<Longrightarrow> \<not> list_ex is_error (snd (fst r)) \<Longrightarrow> I s \<Longrightarrow> I (fst (fst r))"
  shows "header_loop pe s ls = Some r \<Longrightarrow> \<not> list_ex is_error (snd (fst r)) \<Longrightarrow> I s \<Longrightarrow> I (fst (fst r))"
proof (induction ls arbitrary: s r rule: length_induct)
  case (1 ls)
  show ?case
  proof (cases ls)
    case (Cons l xs)
    show ?thesis
    proof (cases "is_node l")
      case False
      obtain p q where p: "header_step pe s l xs = Some p" and q: "header_loop pe (fst (fst p)) (snd p) = Some q"
        and r: "r = ((fst (fst q), snd (fst p) @ snd (fst q)), snd q)"
        using "1.prems" Cons False by (auto simp: header_loop.simps case_prod_beta' split: bind_splits)
      have len: "length (snd p) < length ls" using header_step_length [of pe s l xs "fst p" "snd p"] p Cons by simp
      have ne: "\<not> list_ex is_error (snd (fst p))" "\<not> list_ex is_error (snd (fst q))" using "1.prems"(2) r by auto
      have "I (fst (fst p))" using step [OF p ne(1) "1.prems"(3)] .
      then have "I (fst (fst q))" using "1.IH" len q ne(2) by blast
      then show ?thesis using r by simp
    qed (use "1.prems" Cons in \<open>auto simp: header_loop.simps\<close>)
  qed (use "1.prems" in \<open>auto simp: header_loop.simps\<close>)
qed

section \<open>The header\<close>

definition header_state_ok :: "parse_env \<Rightarrow> header_state \<Rightarrow> bool" where
  "header_state_ok pe s \<longleftrightarrow>
     pred_option agm_version_ok (hs_agm s) \<and> pred_option package_ok (hs_package s) \<and>
     pred_option (pe_semver pe) (hs_version s)"

lemma header_state_ok_updates [simp]:
  "header_state_ok pe (s\<lparr>hs_seen := x\<rparr>) = header_state_ok pe s"
  "header_state_ok pe (on_header f s) = header_state_ok pe s"
  by (simp_all add: header_state_ok_def on_header_def)

lemma header_scalar_ok:
  "\<not> list_ex is_error (snd (header_scalar pe key value n s)) \<Longrightarrow> header_state_ok pe s \<Longrightarrow>
   header_state_ok pe (fst (header_scalar pe key value n s))"
  by (auto simp: header_scalar_def header_state_ok_def on_header_def validate_agm_format_def validate_package_format_def
      validate_version_format_def split: if_splits)

lemma header_step_ok:
  assumes "header_step pe s l ls = Some r" and "\<not> list_ex is_error (snd (fst r))" and "header_state_ok pe s"
  shows "header_state_ok pe (fst (fst r))"
  using assms header_scalar_ok [of pe _ _ _ "s\<lparr>hs_seen := _\<rparr>"]
  by (auto simp: header_step_def header_list_def header_field_def Let_def case_prod_beta split: line_kind.splits if_splits)

definition header_typed :: "parse_env \<Rightarrow> header \<Rightarrow> bool" where
  "header_typed pe h \<longleftrightarrow> agm_version_ok (h_agm h) \<and> package_ok (h_package h) \<and> pe_semver pe (h_version h)"

lemma parse_header_typed:
  assumes "parse_header pe ls = Some ((h, errors), rest)" and "\<not> list_ex is_error errors"
  shows "header_typed pe h"
proof -
  obtain s es where s: "header_loop pe header_start ls = Some ((s, es), rest)"
    and h: "h = fst (header_finish s)" and errors: "errors = es @ snd (header_finish s)"
    using assms(1) by (auto simp: parse_header_def case_prod_beta' Let_def)
  have "header_state_ok pe s"
    using header_loop_inv [of pe "header_state_ok pe", OF header_step_ok s] assms(2) errors
    by (auto simp: header_start_def header_state_ok_def)
  then show ?thesis
    using assms(2) errors h
    by (auto simp: header_finish_def header_typed_def header_state_ok_def header_missing_def Let_def split: if_splits)
qed

section \<open>One node\<close>

text \<open>The loop of a node ends at the number of one of its lines.\<close>

lemma node_step_last: "node_step pe b l ls = Some r \<Longrightarrow> nb_last (fst (fst r)) = ln_number l"
  by (auto simp: node_step_def Let_def case_prod_beta' split: line_kind.splits if_splits)

lemma node_loop_last:
  assumes "node_loop pe b ls = Some r"
  shows "nb_last (fst (fst r)) = nb_last b \<or> nb_last (fst (fst r)) \<in> ln_number ` set ls"
proof -
  have step: "nb_last (fst (fst q)) = nb_last c \<or> nb_last (fst (fst q)) \<in> ln_number ` set ls"
    if "l \<in> set ls" "node_step pe c l xs = Some q" for c l xs q
    using node_step_last [OF that(2)] that(1) by simp
  show ?thesis
    by (rule node_loop_trans [of ls pe "\<lambda>b c. nb_last c = nb_last b \<or> nb_last c \<in> ln_number ` set ls", OF step _ _ assms])
      auto
qed

lemma parse_node_place:
  assumes "ln_kind l = LkNode i" and "parse_node pe (l # ls) = Some r"
  shows "n_id (fst (fst r)) = i" "start_line (n_span (fst (fst r))) = ln_number l"
    "end_line (n_span (fst (fst r))) \<in> ln_number ` set (l # ls)"
    "\<not> list_ex is_error (snd (fst r)) \<Longrightarrow> i \<noteq> [] \<and> node_id_ok i"
proof -
  show "n_id (fst (fst r)) = i" by (rule parse_node_id [OF assms])
  obtain b es left where b: "node_loop pe \<lparr>nb_node = default_node i (ln_number l), nb_seen = [], nb_last = ln_number l\<rparr> ls = Some ((b, es), left)"
    and r: "r = (((nb_node b)\<lparr>n_span := (n_span (nb_node b))\<lparr>end_line := nb_last b\<rparr>\<rparr>, node_id_errors pe i (ln_number l) @ es), left)"
    using assms by (auto simp: parse_node_def case_prod_beta')
  show "start_line (n_span (fst (fst r))) = ln_number l"
    using node_loop_head [OF b] r by (simp add: same_head_def default_node_def span_new_def)
  show "end_line (n_span (fst (fst r))) \<in> ln_number ` set (l # ls)"
    using node_loop_last [OF b] r by auto
  show "i \<noteq> [] \<and> node_id_ok i" if "\<not> list_ex is_error (snd (fst r))"
    using that r by (auto simp: node_id_errors_def split: if_splits)
qed

section \<open>The nodes\<close>

text \<open>The identifiers declared, with their lines.\<close>

fun node_lines :: "agm_line list \<Rightarrow> (string \<times> nat) list" where
  "node_lines [] = []"
| "node_lines (l # ls) = (case ln_kind l of LkNode i \<Rightarrow> (i, ln_number l) # node_lines ls | _ \<Rightarrow> node_lines ls)"

lemma node_lines_append [simp]: "node_lines (xs @ ys) = node_lines xs @ node_lines ys"
  by (induction xs) (auto split: line_kind.split)

lemma node_lines_no_node: "no_node ls \<Longrightarrow> node_lines ls = []"
  by (induction ls) (auto simp: is_node_def split: line_kind.splits)

definition span_of :: "node \<Rightarrow> nat \<times> nat" where
  "span_of n = (start_line (n_span n), end_line (n_span n))"

text \<open>Nodes whose spans follow each other within the numbers from \<open>a\<close> to \<open>b\<close>.\<close>

fun spans_within :: "nat \<Rightarrow> nat \<Rightarrow> node list \<Rightarrow> bool" where
  "spans_within a b [] = True"
| "spans_within a b (n # ns) \<longleftrightarrow>
     a \<le> start_line (n_span n) \<and> start_line (n_span n) \<le> end_line (n_span n) \<and> end_line (n_span n) \<le> b \<and>
     spans_within (Suc (end_line (n_span n))) b ns"

lemma spans_within_le: "spans_within a b ns \<Longrightarrow> c \<le> a \<Longrightarrow> spans_within c b ns"
  by (cases ns) auto

lemma numbers_split:
  assumes "sorted_wrt (<) (map ln_number (l # ls))"
  shows "sorted_wrt (<) (map ln_number (dropWhile P ls))"
    "x \<in> ln_number ` set (l # takeWhile P ls) \<Longrightarrow> ln_number l \<le> x \<and> (\<forall>y \<in> ln_number ` set (dropWhile P ls). x < y)"
proof -
  have "sorted_wrt (<) (map ln_number (l # takeWhile P ls @ dropWhile P ls))" using assms by simp
  then show "sorted_wrt (<) (map ln_number (dropWhile P ls))"
    "x \<in> ln_number ` set (l # takeWhile P ls) \<Longrightarrow> ln_number l \<le> x \<and> (\<forall>y \<in> ln_number ` set (dropWhile P ls). x < y)"
    unfolding map_append list.map sorted_wrt_append sorted_wrt.simps by (auto simp: less_imp_le)
qed

lemma parse_sections_place:
  assumes "parse_sections pe (node_sections ls) = Some (nodes, errors)" and "at_node ls"
    and "sorted_wrt (<) (map ln_number ls)" and "\<forall>x \<in> ln_number ` set ls. a \<le> x \<and> x \<le> b"
  shows "map (\<lambda>n. (n_id n, start_line (n_span n))) nodes = node_lines ls \<and> spans_within a b nodes \<and>
    (list_ex is_error errors \<or> (\<forall>n \<in> set nodes. n_id n \<noteq> [] \<and> node_id_ok (n_id n)))"
  using assms
proof (induction ls arbitrary: nodes errors a rule: node_sections.induct)
  case (2 l ls)
  let ?sec = "takeWhile (\<lambda>l. \<not> is_node l) ls" and ?rest = "dropWhile (\<lambda>l. \<not> is_node l) ls"
  obtain i where i: "ln_kind l = LkNode i" using "2.prems"(2) by (auto simp: is_node_def split: line_kind.splits)
  obtain r ns es where r: "parse_node pe (l # ?sec) = Some r" and ns: "parse_sections pe (node_sections ?rest) = Some (ns, es)"
    and eq: "nodes = fst (fst r) # ns" "errors = snd (fst r) @ es"
    using "2.prems"(1) by (auto split: bind_splits)
  note place = parse_node_place [OF i r] and numbers = numbers_split [OF "2.prems"(3), where P = "\<lambda>l. \<not> is_node l"]
  let ?e = "end_line (n_span (fst (fst r)))"
  have e: "ln_number l \<le> ?e" "\<forall>y \<in> ln_number ` set ?rest. ?e < y" using numbers(2) [OF place(3)] by auto
  have eb: "?e \<le> b" using place(3) "2.prems"(4) by (auto dest: set_takeWhileD)
  have rest: "map (\<lambda>n. (n_id n, start_line (n_span n))) ns = node_lines ?rest \<and> spans_within (Suc ?e) b ns \<and>
    (list_ex is_error es \<or> (\<forall>n \<in> set ns. n_id n \<noteq> [] \<and> node_id_ok (n_id n)))"
    using "2.IH" [OF ns _ numbers(1), of "Suc ?e"] e(2) "2.prems"(4) by (auto simp: Suc_le_eq dest: set_dropWhileD)
  have "node_lines ls = node_lines ?rest"
    using node_lines_append [of ?sec ?rest] by (simp add: node_lines_no_node)
  then show ?case using rest place e(1) eb eq i "2.prems"(4) by auto
qed simp

lemma lex_from_numbers:
  "sorted_wrt (<) (map ln_number (fst (lex_from k raws))) \<and>
   (\<forall>x \<in> ln_number ` set (fst (lex_from k raws)). k \<le> x \<and> x < k + length raws)"
proof (induction raws arbitrary: k)
  case (Cons raw raws)
  show ?case using Cons [of "Suc k"]
    by (auto simp: case_prod_beta Let_def Suc_le_eq dest: classify_line_Inr split: sum.split)
qed simp

section \<open>The file\<close>

text \<open>
  A well-typed file: the header fields have their formats, there is a node, identifiers have
  their format, and the nodes lie behind each other within the lines of the source.
\<close>

definition file_typed :: "parse_env \<Rightarrow> nat \<Rightarrow> agm_file \<Rightarrow> bool" where
  "file_typed pe k f \<longleftrightarrow>
     header_typed pe (f_header f) \<and> f_nodes f \<noteq> [] \<and>
     (\<forall>n \<in> set (f_nodes f). n_id n \<noteq> [] \<and> node_id_ok (n_id n)) \<and> spans_within 1 k (f_nodes f)"

lemma parse_place:
  assumes "parse pe input = Some (Inr f)" and "lex input = Inr lines"
  shows "file_typed pe (length (str_lines input)) f"
    "map (\<lambda>n. (n_id n, start_line (n_span n))) (f_nodes f) = node_lines lines"
proof -
  let ?head = "takeWhile (\<lambda>l. \<not> is_node l) lines" and ?rest = "dropWhile (\<lambda>l. \<not> is_node l) lines"
  obtain h errors left nodes more where h: "parse_header pe ?head = Some ((h, errors), left)"
    and nodes: "parse_sections pe (node_sections ?rest) = Some (nodes, more)"
    and f: "file_result h nodes (errors @ more @ (if nodes = [] then [empty_file_error] else [])) = Inr f"
    using assms by (auto simp: parse_def parse_lines_sections split: bind_splits)
  have ok: "\<not> list_ex is_error errors" "\<not> list_ex is_error more" "nodes \<noteq> []"
    and feq: "f = \<lparr>f_header = h, f_nodes = nodes\<rparr>"
    using f by (auto simp: file_result_def split: if_splits)
  have lines: "lines = fst (lex_from 1 (str_lines input))"
    using assms(2) by (auto simp: lex_def case_prod_beta' Let_def split: if_splits)
  have numbers: "sorted_wrt (<) (map ln_number lines)"
    "\<forall>x \<in> ln_number ` set lines. 1 \<le> x \<and> x \<le> length (str_lines input)"
    using lex_from_numbers [of 1 "str_lines input"] lines by (auto simp: less_Suc_eq_le)
  have "sorted_wrt (<) (map ln_number (?head @ ?rest))" using numbers(1) by simp
  then have "sorted_wrt (<) (map ln_number ?rest)" unfolding map_append sorted_wrt_append by blast
  moreover have "\<forall>x \<in> ln_number ` set ?rest. 1 \<le> x \<and> x \<le> length (str_lines input)"
    using numbers(2) by (auto dest: set_dropWhileD)
  ultimately have place: "map (\<lambda>n. (n_id n, start_line (n_span n))) nodes = node_lines ?rest \<and>
    spans_within 1 (length (str_lines input)) nodes \<and> (\<forall>n \<in> set nodes. n_id n \<noteq> [] \<and> node_id_ok (n_id n))"
    using parse_sections_place [OF nodes at_node_dropWhile] ok(2) by blast
  then show "file_typed pe (length (str_lines input)) f"
    using parse_header_typed [OF h ok(1)] ok(3) feq by (simp add: file_typed_def)
  show "map (\<lambda>n. (n_id n, start_line (n_span n))) (f_nodes f) = node_lines lines"
    using place feq node_lines_append [of ?head ?rest] by (simp add: node_lines_no_node)
qed

text \<open>C6: A file the parser accepts is well-typed: the versions and the package of its header
have the formats of the source, it has a node, every identifier has the format of identifiers, and
the spans of the nodes follow each other in the order of the file, within the lines of the text.\<close>

theorem parsed_file_typed:
  assumes "parse pe input = Some (Inr f)"
  shows "file_typed pe (length (str_lines input)) f"
proof -
  obtain lines where "lex input = Inr lines" using assms by (cases "lex input") (auto simp: parse_def)
  then show ?thesis using parse_place(1) assms by blast
qed

text \<open>C8: The nodes of an accepted file are exactly the node declarations of its text, in their
order, each beginning at its own line: no declaration is lost in the body of another node, and none
is made up.\<close>

theorem parsed_nodes_declared:
  assumes "parse pe input = Some (Inr f)"
  shows "map (\<lambda>n. (n_id n, start_line (n_span n))) (f_nodes f) = node_lines (fst (lex_from 1 (str_lines input)))"
proof -
  obtain lines where lines: "lex input = Inr lines" using assms by (cases "lex input") (auto simp: parse_def)
  then have "lines = fst (lex_from 1 (str_lines input))"
    by (auto simp: lex_def case_prod_beta' Let_def split: if_splits)
  then show ?thesis using parse_place(2) [OF assms lines] by simp
qed

section \<open>No panic\<close>

definition ascii_lines :: "agm_line list \<Rightarrow> bool" where
  "ascii_lines ls \<longleftrightarrow> (\<forall>l \<in> set ls. is_ascii (ln_raw l))"

lemma ascii_lines_subset: "ascii_lines ls \<Longrightarrow> set xs \<subseteq> set ls \<Longrightarrow> ascii_lines xs"
  by (auto simp: ascii_lines_def)

lemma block_lines_total: "ascii_lines ls \<Longrightarrow> block_lines base ls \<noteq> None"
  by (induction ls) (auto simp: ascii_lines_def ascii_slice)

lemma parse_block_total: "ascii_lines ls \<Longrightarrow> parse_block ls \<noteq> None"
  using block_lines_total by (simp add: parse_block_def)

lemma header_step_total: "ascii_lines ls \<Longrightarrow> header_step pe s l ls \<noteq> None"
  using parse_block_total [of ls]
  by (auto simp: header_step_def header_field_def Let_def case_prod_beta' split: line_kind.split)

lemma node_step_total: "ascii_lines ls \<Longrightarrow> node_step pe b l ls \<noteq> None"
  using parse_block_total [of ls]
  by (cases "ln_kind l") (auto simp: node_step_def node_field_def Let_def case_prod_beta' simp del: not_None_eq)

lemma header_loop_total: "ascii_lines ls \<Longrightarrow> header_loop pe s ls \<noteq> None"
proof (induction ls arbitrary: s rule: length_induct)
  case (1 ls)
  show ?case
  proof (cases ls)
    case (Cons l xs)
    have "ascii_lines xs" using "1.prems" Cons by (simp add: ascii_lines_def)
    then obtain r rest where r: "header_step pe s l xs = Some (r, rest)" using header_step_total by fastforce
    have "length rest < length ls" using header_step_length [OF r] Cons by simp
    moreover have "ascii_lines rest"
      using left_header_step [OF r] ascii_lines_subset [OF \<open>ascii_lines xs\<close>] by simp
    ultimately have "header_loop pe (fst r) rest \<noteq> None" using "1.IH" by blast
    then show ?thesis using Cons r by (auto simp: header_loop.simps)
  qed (simp add: header_loop.simps)
qed

lemma node_loop_total: "ascii_lines ls \<Longrightarrow> node_loop pe b ls \<noteq> None"
proof (induction ls arbitrary: b rule: length_induct)
  case (1 ls)
  show ?case
  proof (cases ls)
    case (Cons l xs)
    have "ascii_lines xs" using "1.prems" Cons by (simp add: ascii_lines_def)
    then obtain r rest where r: "node_step pe b l xs = Some (r, rest)" using node_step_total by fastforce
    have "length rest < length ls" using node_step_length [OF r] Cons by simp
    moreover have "ascii_lines rest"
      using left_node_step [OF r] ascii_lines_subset [OF \<open>ascii_lines xs\<close>] by simp
    ultimately have "node_loop pe (fst r) rest \<noteq> None" using "1.IH" by blast
    then show ?thesis using Cons r by (auto simp: node_loop.simps)
  qed (simp add: node_loop.simps)
qed

lemma parse_sections_total:
  "ascii_lines ls \<Longrightarrow> at_node ls \<Longrightarrow> parse_sections pe (node_sections ls) \<noteq> None"
proof (induction ls rule: node_sections.induct)
  case (2 l ls)
  have "ascii_lines (takeWhile (\<lambda>l. \<not> is_node l) ls)" "ascii_lines (dropWhile (\<lambda>l. \<not> is_node l) ls)"
    using "2.prems"(1) by (auto simp: ascii_lines_def dest: set_takeWhileD set_dropWhileD)
  then have "parse_node pe (l # takeWhile (\<lambda>l. \<not> is_node l) ls) \<noteq> None"
    "parse_sections pe (node_sections (dropWhile (\<lambda>l. \<not> is_node l) ls)) \<noteq> None"
    using 2 by (auto simp: parse_node_def node_loop_total simp del: not_None_eq split: line_kind.split)
  then show ?case by (auto split: bind_splits)
qed simp

lemma lines_from_set: "l \<in> set (lines_from acc s) \<Longrightarrow> set l \<subseteq> set acc \<union> set s"
proof (induction acc s arbitrary: l rule: lines_from.induct)
  case (2 acc c s)
  have "set (chomp_cr (rev acc)) \<subseteq> set acc"
    by (cases acc) (auto simp: chomp_cr_def strip_suffix_def)
  then show ?case using 2 by (cases "c = nl") fastforce+
qed (auto split: if_splits)

lemma lex_from_ascii: "\<forall>raw \<in> set raws. is_ascii raw \<Longrightarrow> ascii_lines (fst (lex_from k raws))"
  by (induction raws arbitrary: k)
    (auto simp: ascii_lines_def case_prod_beta Let_def dest: classify_line_Inr split: sum.split)

lemma parse_lines_total:
  assumes "ascii_lines lines"
  shows "parse_lines pe lines \<noteq> None"
proof -
  have "ascii_lines (takeWhile (\<lambda>l. \<not> is_node l) lines)" "ascii_lines (dropWhile (\<lambda>l. \<not> is_node l) lines)"
    using assms by (auto simp: ascii_lines_def dest: set_takeWhileD set_dropWhileD)
  then show ?thesis
    using header_loop_total parse_sections_total by (auto simp: parse_lines_sections parse_header_def split: bind_splits)
qed

text \<open>C13: The parser returns on every text of ASCII characters, with a file or with a list of errors:
it never panics and every one of its loops ends.\<close>

theorem parse_ascii_returns:
  assumes "is_ascii input"
  shows "\<exists>result. parse pe input = Some result"
proof -
  have "\<forall>raw \<in> set (str_lines input). is_ascii raw"
    using assms lines_from_set [of _ "[]" input] by (auto simp: is_ascii_def list_all_iff str_lines_def)
  then have "ascii_lines (fst (lex_from 1 (str_lines input)))" by (rule lex_from_ascii)
  then have "parse_lines pe (fst (lex_from 1 (str_lines input))) \<noteq> None" by (rule parse_lines_total)
  then show ?thesis by (auto simp: parse_def lex_def case_prod_beta' Let_def)
qed

section \<open>Blocks indented less than they begin\<close>

text \<open>C40: The text of a block is cut at the indentation of its first line: from a later line that is
indented less, the parser removes the first bytes of its text as if they were indentation. Where
they end inside a character of several bytes, the parser panics.\<close>

theorem block_dedent_cuts_text:
  assumes "is_text l1" and "is_text l2" and "ln_raw l1 = replicate (ln_indent l1) sp @ t1"
    and "ln_raw l2 = replicate k sp @ lost @ kept" and "length lost = ln_indent l1 - k" and "k \<le> ln_indent l1"
    and "0 < ln_indent l1" and "t1 \<noteq> []" and "\<not> utf8_cont (hd t1)" and "kept \<noteq> []"
  shows "parse_block [l1, l2] = (if utf8_cont (hd kept) then None else Some (t1 @ [nl] @ kept, []))"
proof -
  have l1: "str_slice (ln_raw l1) (ln_indent l1) (length (ln_raw l1)) = Some t1"
    using assms(3,8,9) by (auto simp: str_slice_def is_char_boundary_def nth_append hd_conv_nth)
  have len: "ln_indent l1 = k + length lost" using assms(5,6) by simp
  have raw: "length (ln_raw l2) = ln_indent l1 + length kept" "drop (ln_indent l1) (ln_raw l2) = kept"
    "ln_raw l2 ! ln_indent l1 = hd kept"
    using assms(4,10) len by (simp_all add: nth_append hd_conv_nth)
  have l2: "str_slice (ln_raw l2) (ln_indent l1) (length (ln_raw l2)) = (if utf8_cont (hd kept) then None else Some kept)"
    using assms(7,10) raw by (simp add: str_slice_def is_char_boundary_def)
  have le: "ln_indent l1 \<le> length (ln_raw l1)" "ln_indent l1 \<le> length (ln_raw l2)" using assms(3) raw(1) by simp_all
  have "block_lines (ln_indent l1) [l1, l2] = (if utf8_cont (hd kept) then None else Some ([t1, kept], []))"
    using assms(1,2) l1 l2 le by simp
  then show ?thesis
    using assms(1,10) by (simp add: parse_block_def finish_block_def)
qed

section \<open>Lists of groups\<close>

lemma is_item_kind: "ln_kind l = LkItem v \<Longrightarrow> is_item l \<and> \<not> is_blank l \<and> \<not> is_node l"
  by (simp add: is_item_def is_blank_def is_node_def)

lemma sub_items_all: "map ln_kind items = map LkItem xs \<Longrightarrow> sub_items indent items = (xs, [])"
  by (induction items arbitrary: xs) (auto split: list.splits)

text \<open>A list of nodes (or of required groups) that is written with dashes and ends the entry of a
group takes every dash line behind it, whatever its indentation: the dash line of the next group
becomes a node of this one, and the next group is lost without an error.\<close>

lemma group_list_swallows_next:
  assumes "ln_kind first = LkItem t" and "parse_kv_from_text t = Some (''group'', g)" and "g \<noteq> []"
    and "ln_kind start = LkStart ''nodes''" and "ln_indent first < ln_indent start"
    and "map ln_kind items = map LkItem xs" and "xs \<noteq> []"
  shows "parse_parallel_groups pe (first # start # items) =
    (([\<lparr>pg_group = g, pg_nodes = xs, pg_strategy = Sequential, pg_requires = None, pg_max_concurrency = None\<rparr>], []), [])"
proof -
  obtain i is1 v where items: "items = i # is1" "ln_kind i = LkItem v" using assms(6,7) by (cases items; cases xs) auto
  have skip: "skip_blanks items = items" by (simp add: items is_item_kind skip_blanks_def)
  have "parse_kv_from_text [] = None" by code_simp
  then have "t \<noteq> []" using assms(2) by auto
  have start: "\<not> is_blank start" "\<not> is_node start" using assms(4) by (simp_all add: is_blank_def is_node_def)
  have "start_value (ln_indent start) items = (SfList xs, [])"
    using sub_items_all [OF assms(6), of "ln_indent start"] is_item_kind [OF items(2)] items(1)
    skip
    by (simp add: start_value_def del: sub_items.simps)
  then have "collect_sub_fields (ln_indent start) (start # items) = ([(''nodes'', SfList xs)], [])"
    using start assms(4) by (simp add: collect_sub_fields.simps)
  then have "entry_fields (ln_indent first) t (start # items) = ([(''group'', SfScalar g), (''nodes'', SfList xs)], [])"
    using assms(2,5) start \<open>t \<noteq> []\<close> by (simp add: entry_fields_def)
  then show ?thesis
    using is_item_kind [OF assms(1)] assms(1,3)
    by (simp add: parse_parallel_groups_def parse_object_list_def parse_objects_def object_entries.simps is_within_field_def
        build_parallel_group_def required_def get_filled_def parse_strategy_def map_filter_simps)
qed

section \<open>Witnesses\<close>

theorem parsed_file_typed_witness:
  "\<exists>f. parse sample_pe sample_source = Some (Inr f) \<and> file_typed sample_pe 11 f"
proof -
  obtain f where f: "parse sample_pe sample_source = Some (Inr f)" by (rule sample_parsed)
  have "length (str_lines sample_source) = 11" by code_simp
  then show ?thesis using f parsed_file_typed [OF f] by auto
qed

theorem parsed_nodes_declared_witness:
  "\<exists>f. parse sample_pe sample_source = Some (Inr f) \<and>
     map (\<lambda>n. (n_id n, start_line (n_span n))) (f_nodes f) = [(''a.b'', 5), (''c'', 10)]"
proof -
  obtain f where f: "parse sample_pe sample_source = Some (Inr f)" by (rule sample_parsed)
  have "node_lines (fst (lex_from 1 (str_lines sample_source))) = [(''a.b'', 5), (''c'', 10)]" by code_simp
  then show ?thesis using f parsed_nodes_declared [OF f] by auto
qed

theorem parse_ascii_returns_witness: "\<exists>result. parse sample_pe sample_source = Some result"
proof -
  have "is_ascii sample_source" by code_simp
  then show ?thesis by (rule parse_ascii_returns)
qed

text \<open>A line of text with its indentation; the bytes C3 A9 are one character.\<close>

definition text_line :: "nat \<Rightarrow> string \<Rightarrow> agm_line" where
  "text_line indent t = agm_line_of (LkIndented t) 1 indent (replicate indent sp @ t)"

lemma cont_cases: "\<not> utf8_cont (CHR ''f'')" "\<not> utf8_cont (CHR ''x'')" "\<not> utf8_cont (CHR ''o'')" "utf8_cont (CHR 0xA9)"
  by code_simp+

theorem block_dedent_cuts_text_witness:
  "parse_block [text_line 4 ''four'', text_line 2 ''two''] = Some (''four'' @ [nl] @ ''o'', []) \<and>
   parse_block [text_line 2 ''x'', text_line 1 [CHR 0xC3, CHR 0xA9]] = None"
proof
  have "parse_block [text_line 4 ''four'', text_line 2 ''two''] =
    (if utf8_cont (hd ''o'') then None else Some (''four'' @ [nl] @ ''o'', []))"
    by (rule block_dedent_cuts_text [where k = 2 and lost = "''tw''"])
      (simp_all add: text_line_def agm_line_of_def is_text_def eval_nat_numeral cont_cases)
  then show "parse_block [text_line 4 ''four'', text_line 2 ''two''] = Some (''four'' @ [nl] @ ''o'', [])"
    by (simp add: cont_cases)
  have "parse_block [text_line 2 ''x'', text_line 1 [CHR 0xC3, CHR 0xA9]] =
    (if utf8_cont (hd [CHR 0xA9]) then None else Some (''x'' @ [nl] @ [CHR 0xA9], []))"
    by (rule block_dedent_cuts_text [where k = 1 and lost = "[CHR 0xC3]"])
      (simp_all add: text_line_def agm_line_of_def is_text_def eval_nat_numeral cont_cases)
  then show "parse_block [text_line 2 ''x'', text_line 1 [CHR 0xC3, CHR 0xA9]] = None"
    by (simp add: cont_cases)
qed

text \<open>Two groups, the second with the same indentation as the first.\<close>

definition two_groups :: "agm_line list" where
  "two_groups =
     [agm_line_of (LkItem ''group: one'') 8 4 [], agm_line_of (LkStart ''nodes'') 9 6 [],
      agm_line_of (LkItem ''a'') 10 8 [], agm_line_of (LkItem ''group: two'') 11 4 []]"

theorem group_list_swallows_next_witness:
  "map (\<lambda>pg. (pg_group pg, pg_nodes pg)) (fst (fst (parse_parallel_groups sample_pe two_groups))) =
     [(''one'', [''a'', ''group: two''])]"
proof -
  have kv: "parse_kv_from_text ''group: one'' = Some (''group'', ''one'')" by code_simp
  have "parse_parallel_groups sample_pe two_groups =
    (([\<lparr>pg_group = ''one'', pg_nodes = [''a'', ''group: two''], pg_strategy = Sequential, pg_requires = None,
        pg_max_concurrency = None\<rparr>], []), [])"
    unfolding two_groups_def
    by (rule group_list_swallows_next [OF _ kv]) (simp_all add: agm_line_of_def)
  then show ?thesis by simp
qed

end
