(* ===== verification/Cycle_Search.thy ===== *)
theory Cycle_Search
  imports Graph
begin

text \<open>
  The depth-first search with three colours that the validator writes twice, for the
  dependencies of nodes (\<open>crates/agm-core/src/validator/cycles.rs\<close>) and for the requirements of
  groups (\<open>validator/orchestration.rs\<close>). A name without a colour is white. The recursion is
  bounded by a fuel; \<open>None\<close> is running out of it, which \<open>search_cycles_exact\<close> excludes.
\<close>

section \<open>The search\<close>

datatype colour = Gray | Black

record 'e dfs_state =
  ds_colors :: "string \<Rightarrow> colour option"
  ds_stack :: "string list"
  ds_errors :: "'e list"

primrec fold_option :: "('a \<Rightarrow> 's \<Rightarrow> 's option) \<Rightarrow> 'a list \<Rightarrow> 's \<Rightarrow> 's option" where
  "fold_option f [] s = Some s"
| "fold_option f (x # xs) s = Option.bind (f x s) (fold_option f xs)"

text \<open>The part of the stack from where the name first stands, closed with the name.\<close>

definition cycle_nodes :: "string list \<Rightarrow> string \<Rightarrow> string list" where
  "cycle_nodes stack dep = (if dep \<in> set stack then dropWhile (\<lambda>n. n \<noteq> dep) stack else stack) @ [dep]"

definition enter :: "string \<Rightarrow> 'e dfs_state \<Rightarrow> 'e dfs_state" where
  "enter i s = s\<lparr>ds_colors := (ds_colors s)(i \<mapsto> Gray), ds_stack := ds_stack s @ [i]\<rparr>"

definition leave :: "string \<Rightarrow> 'e dfs_state \<Rightarrow> 'e dfs_state" where
  "leave i s = s\<lparr>ds_colors := (ds_colors s)(i \<mapsto> Black), ds_stack := butlast (ds_stack s)\<rparr>"

primrec dfs_detect_cycle ::
  "nat \<Rightarrow> (string list \<Rightarrow> 'e) \<Rightarrow> (string \<Rightarrow> string list option) \<Rightarrow> string \<Rightarrow> 'e dfs_state \<Rightarrow> 'e dfs_state option" where
  "dfs_detect_cycle 0 report graph i s = None"
| "dfs_detect_cycle (Suc fuel) report graph i s =
     map_option (leave i)
       (fold_option (\<lambda>dep s.
          case ds_colors s dep of
            Some Gray \<Rightarrow> Some (s\<lparr>ds_errors := ds_errors s @ [report (cycle_nodes (ds_stack s) dep)]\<rparr>)
          | Some Black \<Rightarrow> Some s
          | None \<Rightarrow> dfs_detect_cycle fuel report graph dep s)
        (unwrap_list (graph i)) (enter i s))"

text \<open>The loop over all names, each started unless it is black.\<close>

definition search_cycles ::
  "(string list \<Rightarrow> 'e) \<Rightarrow> (string \<Rightarrow> string list option) \<Rightarrow> string list \<Rightarrow> 'e list option" where
  "search_cycles report graph ids =
     map_option ds_errors
       (fold_option (\<lambda>i s.
          if ds_colors s i = Some Black then Some s else dfs_detect_cycle (length ids) report graph i s)
        ids \<lparr>ds_colors = (\<lambda>_. None), ds_stack = [], ds_errors = []\<rparr>)"

section \<open>Walks\<close>

definition edges :: "(string \<Rightarrow> string list option) \<Rightarrow> (string \<times> string) set" where
  "edges graph = {(a, b). b \<in> set (unwrap_list (graph a))}"

text \<open>A closed walk over at least one edge.\<close>

definition cycle_walk :: "(string \<times> string) set \<Rightarrow> string list \<Rightarrow> bool" where
  "cycle_walk E w \<longleftrightarrow> 2 \<le> length w \<and> successively (\<lambda>a b. (a, b) \<in> E) w \<and> hd w = last w"

lemma walk_trancl:
  "successively (\<lambda>a b. (a, b) \<in> E) w \<Longrightarrow> 2 \<le> length w \<Longrightarrow> (hd w, last w) \<in> E\<^sup>+"
proof (induction w)
  case (Cons a w)
  then show ?case
    by (cases w; cases "tl w") (auto intro: trancl_into_trancl2)
qed simp

lemma cycle_walk_cyclic: "cycle_walk E w \<Longrightarrow> \<not> acyclic E"
  using walk_trancl [of E w] by (auto simp: cycle_walk_def acyclic_def)

lemma cycle_nodes_walk:
  assumes "successively (\<lambda>a b. (a, b) \<in> E) stack" and "dep \<in> set stack" and "(last stack, dep) \<in> E"
  shows "cycle_walk E (cycle_nodes stack dep)"
proof -
  obtain pre post where split: "stack = pre @ dep # post" "dep \<notin> set pre"
    using split_list_first [OF assms(2)] by blast
  then have d: "dropWhile (\<lambda>n. n \<noteq> dep) stack = dep # post" by (simp add: dropWhile_append)
  have "successively (\<lambda>a b. (a, b) \<in> E) (dep # post)" "last (dep # post) = last stack"
    using assms(1) split by (auto simp: successively_append_iff)
  then have "successively (\<lambda>a b. (a, b) \<in> E) ((dep # post) @ [dep])"
    using assms(3) unfolding successively_append_iff by simp
  then show ?thesis using assms(2) d by (simp add: cycle_walk_def cycle_nodes_def)
qed

lemma closed_trancl: "(a, b) \<in> E\<^sup>+ \<Longrightarrow> a \<in> B \<Longrightarrow> E `` B \<subseteq> B \<Longrightarrow> b \<in> B"
  by (induction rule: trancl_induct) auto

section \<open>Correctness\<close>

definition blacks :: "'e dfs_state \<Rightarrow> string set" where
  "blacks s = {x. ds_colors s x = Some Black}"

definition dfs_inv ::
  "(string list \<Rightarrow> 'e) \<Rightarrow> (string \<Rightarrow> string list option) \<Rightarrow> string set \<Rightarrow> 'e dfs_state \<Rightarrow> bool" where
  "dfs_inv report graph K s \<longleftrightarrow>
     {x. ds_colors s x = Some Gray} = set (ds_stack s) \<and> distinct (ds_stack s) \<and> dom (ds_colors s) \<subseteq> K \<and>
     successively (\<lambda>a b. (a, b) \<in> edges graph) (ds_stack s) \<and>
     (\<forall>e \<in> set (ds_errors s). \<exists>w. e = report w \<and> cycle_walk (edges graph) w) \<and>
     (ds_errors s = [] \<longrightarrow> edges graph `` blacks s \<subseteq> blacks s \<and> (\<forall>x \<in> blacks s. (x, x) \<notin> (edges graph)\<^sup>+))"

text \<open>What a explore keeps: the stack, the colours given before and the errors reported.\<close>

definition dfs_keeps :: "'e dfs_state \<Rightarrow> 'e dfs_state \<Rightarrow> bool" where
  "dfs_keeps s t \<longleftrightarrow> ds_stack t = ds_stack s \<and> ds_colors s \<subseteq>\<^sub>m ds_colors t \<and> (\<exists>new. ds_errors t = ds_errors s @ new)"

lemma dfs_keeps_refl [simp]: "dfs_keeps s s"
  by (simp add: dfs_keeps_def)

lemma dfs_keeps_trans: "dfs_keeps s t \<Longrightarrow> dfs_keeps t u \<Longrightarrow> dfs_keeps s u"
  by (auto simp: dfs_keeps_def intro: map_le_trans)

lemma dfs_keeps_black: "dfs_keeps s t \<Longrightarrow> ds_colors s x = Some c \<Longrightarrow> ds_colors t x = Some c"
  by (force simp: dfs_keeps_def map_le_def dom_def)

lemma enter_inv:
  assumes "dfs_inv report graph K s" and "ds_colors s i = None" and "i \<in> K"
    and "ds_stack s \<noteq> [] \<Longrightarrow> (last (ds_stack s), i) \<in> edges graph"
  shows "dfs_inv report graph K (enter i s)"
proof -
  have "set (ds_stack s) = {x. ds_colors s x = Some Gray}" using assms(1) by (simp add: dfs_inv_def)
  then have "i \<notin> set (ds_stack s)" using assms(2) by simp
  moreover have "blacks (enter i s) = blacks s" using assms(2) by (auto simp: blacks_def enter_def)
  ultimately show ?thesis
    using assms by (auto simp: dfs_inv_def enter_def successively_append_iff)
qed

lemma leave_inv:
  assumes inv: "dfs_inv report graph K t" and stack: "ds_stack t = ds_stack s @ [i]"
    and white: "ds_colors s i = None" and le: "(ds_colors s)(i \<mapsto> Gray) \<subseteq>\<^sub>m ds_colors t" and K: "i \<in> K"
    and errors: "ds_errors t = ds_errors s @ new"
    and deps: "ds_errors t = [] \<Longrightarrow> set (unwrap_list (graph i)) \<subseteq> blacks t"
  shows "dfs_inv report graph K (leave i t)" "dfs_keeps s (leave i t)"
proof -
  have i: "ds_colors t i = Some Gray" "i \<notin> blacks t" using le by (auto simp: map_le_def blacks_def)
  have b: "blacks (leave i t) = insert i (blacks t)" by (auto simp: blacks_def leave_def)
  have "edges graph `` blacks (leave i t) \<subseteq> blacks (leave i t) \<and> (\<forall>x \<in> blacks (leave i t). (x, x) \<notin> (edges graph)\<^sup>+)"
    if none: "ds_errors t = []"
  proof -
    have closed: "edges graph `` blacks t \<subseteq> blacks t" "\<forall>x \<in> blacks t. (x, x) \<notin> (edges graph)\<^sup>+"
      using inv none by (auto simp: dfs_inv_def)
    have "(i, i) \<notin> (edges graph)\<^sup>+"
    proof
      assume "(i, i) \<in> (edges graph)\<^sup>+"
      then obtain d where d: "(i, d) \<in> edges graph" "(d, i) \<in> (edges graph)\<^sup>*" by (meson tranclD)
      have "d \<in> blacks t" using deps [OF none] d(1) by (auto simp: edges_def)
      then have "i \<in> blacks t" using d(2) closed(1) closed_trancl by (metis rtranclD)
      then show False using i(2) by simp
    qed
    then show ?thesis using closed deps [OF none] b by (auto simp: edges_def)
  qed
  moreover have "{x. ds_colors (leave i t) x = Some Gray} = set (butlast (ds_stack t))"
    using inv stack by (auto simp: dfs_inv_def leave_def)
  ultimately show "dfs_inv report graph K (leave i t)"
    using inv stack K by (auto simp: dfs_inv_def leave_def successively_append_iff)
  have "ds_colors s a = ds_colors t a \<and> a \<noteq> i" if "a \<in> dom (ds_colors s)" for a
  proof -
    have "a \<noteq> i" using that white by auto
    moreover have "((ds_colors s)(i \<mapsto> Gray)) a = ds_colors t a" using le that unfolding map_le_def by (metis domI domIff fun_upd_apply option.distinct(1))
    ultimately show ?thesis by simp
  qed
  then show "dfs_keeps s (leave i t)"
    using stack errors by (auto simp: dfs_keeps_def leave_def map_le_def)
qed

text \<open>One dependency after the other, below a name that is on top of the stack.\<close>

lemma fold_deps:
  assumes explore: "\<And>dep u. dep \<in> set deps \<Longrightarrow> dfs_inv report graph K u \<Longrightarrow> ds_colors u dep = None \<Longrightarrow>
      dfs_keeps t0 u \<Longrightarrow> \<exists>u'. explore dep u = Some u' \<and> dfs_inv report graph K u' \<and> dfs_keeps u u' \<and> ds_colors u' dep = Some Black"
    and edge: "\<And>dep. dep \<in> set deps \<Longrightarrow> (last (ds_stack t0), dep) \<in> edges graph"
    and inv: "dfs_inv report graph K t" "dfs_keeps t0 t"
  shows "\<exists>t'. fold_option (\<lambda>dep s.
          case ds_colors s dep of
            Some Gray \<Rightarrow> Some (s\<lparr>ds_errors := ds_errors s @ [report (cycle_nodes (ds_stack s) dep)]\<rparr>)
          | Some Black \<Rightarrow> Some s
          | None \<Rightarrow> explore dep s) deps t = Some t' \<and>
      dfs_inv report graph K t' \<and> dfs_keeps t t' \<and> (ds_errors t' = [] \<longrightarrow> set deps \<subseteq> blacks t')"
  using assms
proof (induction deps arbitrary: t)
  case (Cons dep deps)
  let ?step = "\<lambda>dep s. case ds_colors s dep of
            Some Gray \<Rightarrow> Some (s\<lparr>ds_errors := ds_errors s @ [report (cycle_nodes (ds_stack s) dep)]\<rparr>)
          | Some Black \<Rightarrow> Some s
          | None \<Rightarrow> explore dep s"
  have "\<exists>u. ?step dep t = Some u \<and> dfs_inv report graph K u \<and> dfs_keeps t u \<and> (ds_errors u = [] \<longrightarrow> ds_colors u dep = Some Black)"
  proof (cases "ds_colors t dep")
    case None
    then show ?thesis using Cons.prems(1) [OF _ Cons.prems(3) None Cons.prems(4)] by auto
  next
    case (Some c)
    show ?thesis
    proof (cases c)
      case Gray
      have "dep \<in> set (ds_stack t)" using Cons.prems(3) Some Gray by (auto simp: dfs_inv_def)
      moreover have "(last (ds_stack t), dep) \<in> edges graph"
        using Cons.prems(2,4) by (simp add: dfs_keeps_def)
      ultimately have "cycle_walk (edges graph) (cycle_nodes (ds_stack t) dep)"
        using cycle_nodes_walk Cons.prems(3) by (simp add: dfs_inv_def)
      then show ?thesis using Cons.prems(3) Some Gray by (auto simp: dfs_inv_def dfs_keeps_def blacks_def)
    qed (use Cons.prems(3) Some in auto)
  qed
  then obtain u where u: "?step dep t = Some u" "dfs_inv report graph K u" "dfs_keeps t u"
    "ds_errors u = [] \<Longrightarrow> ds_colors u dep = Some Black" by blast
  obtain t' where t': "fold_option ?step deps u = Some t'" "dfs_inv report graph K t'" "dfs_keeps u t'"
    "ds_errors t' = [] \<Longrightarrow> set deps \<subseteq> blacks t'"
    using Cons.IH [OF Cons.prems(1) [OF list.set_intros(2)] Cons.prems(2) [OF list.set_intros(2)] u(2)
        dfs_keeps_trans [OF Cons.prems(4) u(3)]] by blast
  have "dep \<in> blacks t'" if "ds_errors t' = []"
  proof -
    have "ds_errors u = []" using that t'(3) by (auto simp: dfs_keeps_def)
    then show ?thesis using u(4) dfs_keeps_black [OF t'(3)] by (simp add: blacks_def)
  qed
  then show ?case using u t' dfs_keeps_trans [OF u(3) t'(3)] by auto
qed simp

lemma dfs_detect_cycle_ok:
  assumes K: "finite K" "\<And>a. set (unwrap_list (graph a)) \<subseteq> K"
  shows "dfs_inv report graph K s \<Longrightarrow> ds_colors s i = None \<Longrightarrow> i \<in> K \<Longrightarrow>
    (ds_stack s \<noteq> [] \<Longrightarrow> (last (ds_stack s), i) \<in> edges graph) \<Longrightarrow> card (K - dom (ds_colors s)) \<le> fuel \<Longrightarrow>
    \<exists>t. dfs_detect_cycle fuel report graph i s = Some t \<and> dfs_inv report graph K t \<and> dfs_keeps s t \<and> ds_colors t i = Some Black"
proof (induction fuel arbitrary: i s)
  case 0
  then have "K - dom (ds_colors s) = {}" using K(1) by simp
  then show ?case using 0 by auto
next
  case (Suc fuel)
  have white: "card (K - dom (ds_colors u)) \<le> fuel" if "dfs_keeps (enter i s) u" for u
  proof -
    have "insert i (dom (ds_colors s)) \<subseteq> dom (ds_colors u)"
      using that map_le_implies_dom_le by (force simp: dfs_keeps_def enter_def)
    then have "K - dom (ds_colors u) \<subseteq> (K - dom (ds_colors s)) - {i}" by blast
    then have "card (K - dom (ds_colors u)) \<le> card ((K - dom (ds_colors s)) - {i})"
      using K(1) by (intro card_mono) auto
    also have "\<dots> \<le> fuel" using Suc.prems(2,3,5) K(1) by (subst card_Diff_singleton) auto
    finally show ?thesis .
  qed
  obtain t where t: "fold_option (\<lambda>dep s.
          case ds_colors s dep of
            Some Gray \<Rightarrow> Some (s\<lparr>ds_errors := ds_errors s @ [report (cycle_nodes (ds_stack s) dep)]\<rparr>)
          | Some Black \<Rightarrow> Some s
          | None \<Rightarrow> dfs_detect_cycle fuel report graph dep s) (unwrap_list (graph i)) (enter i s) = Some t"
    and inv: "dfs_inv report graph K t" and keeps: "dfs_keeps (enter i s) t"
    and deps: "ds_errors t = [] \<longrightarrow> set (unwrap_list (graph i)) \<subseteq> blacks t"
  proof -
    have edge: "(last (ds_stack (enter i s)), dep) \<in> edges graph" if "dep \<in> set (unwrap_list (graph i))" for dep
      using that by (simp add: enter_def edges_def)
    have explore: "\<exists>u'. dfs_detect_cycle fuel report graph dep u = Some u' \<and> dfs_inv report graph K u' \<and> dfs_keeps u u' \<and>
        ds_colors u' dep = Some Black"
      if "dep \<in> set (unwrap_list (graph i))" "dfs_inv report graph K u" "ds_colors u dep = None" "dfs_keeps (enter i s) u" for dep u
      using Suc.IH [OF that(2,3)] that(1,4) edge [OF that(1)] white [OF that(4)] K(2) by (auto simp: dfs_keeps_def)
    show ?thesis
      using fold_deps [where explore = "dfs_detect_cycle fuel report graph" and t0 = "enter i s", OF explore edge
          enter_inv [OF Suc.prems(1-4)] dfs_keeps_refl] that by blast
  qed
  have "dfs_inv report graph K (leave i t) \<and> dfs_keeps s (leave i t)"
    using leave_inv [OF inv, of s i] keeps deps Suc.prems(2,3) by (auto simp: dfs_keeps_def enter_def)
  then show ?case using t by (simp add: leave_def)
qed

text \<open>The search returns; it reports nothing exactly when there is no cycle, and every report is a cycle.\<close>

lemma search_cycles_exact:
  assumes deps: "\<And>a. set (unwrap_list (graph a)) \<subseteq> set ids" and dom: "\<And>a. a \<notin> set ids \<Longrightarrow> graph a = None"
  obtains errors where "search_cycles report graph ids = Some errors"
    and "errors = [] \<longleftrightarrow> acyclic (edges graph)"
    and "\<And>e. e \<in> set errors \<Longrightarrow> \<exists>w. e = report w \<and> cycle_walk (edges graph) w"
proof -
  let ?K = "set ids"
  let ?step = "\<lambda>i s. if ds_colors s i = Some Black then Some s else dfs_detect_cycle (length ids) report graph i s"
  let ?start = "\<lparr>ds_colors = (\<lambda>_. None), ds_stack = [], ds_errors = []\<rparr> :: 'a dfs_state"
  have start: "dfs_inv report graph ?K ?start" by (simp add: dfs_inv_def blacks_def)
  have loop: "\<exists>t. fold_option ?step js s = Some t \<and> dfs_inv report graph ?K t \<and> dfs_keeps s t \<and> set js \<subseteq> blacks t"
    if "set js \<subseteq> ?K" "dfs_inv report graph ?K s" "ds_stack s = []" for js s
    using that
  proof (induction js arbitrary: s)
    case (Cons i js)
    have "\<exists>u. ?step i s = Some u \<and> dfs_inv report graph ?K u \<and> dfs_keeps s u \<and> ds_colors u i = Some Black"
    proof (cases "ds_colors s i = Some Black")
      case False
      have "ds_colors s i \<noteq> Some Gray" using Cons.prems(2,3) by (auto simp: dfs_inv_def)
      then have "ds_colors s i = None" using False by (metis colour.exhaust not_None_eq)
      moreover have "card (?K - dom (ds_colors s)) \<le> length ids"
        by (meson Diff_subset List.finite_set card_length card_mono le_trans)
      ultimately show ?thesis
        using dfs_detect_cycle_ok [OF List.finite_set deps Cons.prems(2)] Cons.prems(1,3) False by auto
    qed (use Cons.prems in auto)
    then obtain u where u: "?step i s = Some u" "dfs_inv report graph ?K u" "dfs_keeps s u" "ds_colors u i = Some Black" by blast
    obtain t where t: "fold_option ?step js u = Some t" "dfs_inv report graph ?K t" "dfs_keeps u t" "set js \<subseteq> blacks t"
      using Cons.IH [OF _ u(2)] Cons.prems u(3) by (auto simp: dfs_keeps_def)
    then show ?case
      using u dfs_keeps_trans [OF u(3) t(3)] dfs_keeps_black [OF t(3) u(4)] by (auto simp: blacks_def)
  qed simp
  obtain t where t: "fold_option ?step ids ?start = Some t" "dfs_inv report graph ?K t" "?K \<subseteq> blacks t"
    using loop [OF order_refl start] by auto
  have "ds_errors t = [] \<longleftrightarrow> acyclic (edges graph)"
  proof
    assume "ds_errors t = []"
    then have "\<forall>x \<in> ?K. (x, x) \<notin> (edges graph)\<^sup>+" using t(2,3) by (auto simp: dfs_inv_def)
    moreover have "x \<in> ?K" if cyc: "(x, x) \<in> (edges graph)\<^sup>+" for x
    proof -
      obtain y where "(x, y) \<in> edges graph" using tranclD [OF cyc] by blast
      then have "graph x \<noteq> None" by (cases "graph x") (simp_all add: edges_def unwrap_list_def)
      then show ?thesis using dom [of x] by (cases "x \<in> ?K") simp_all
    qed
    ultimately show "acyclic (edges graph)" by (auto simp: acyclic_def)
  next
    assume "acyclic (edges graph)"
    then show "ds_errors t = []"
      using t(2) cycle_walk_cyclic by (cases "ds_errors t") (auto simp: dfs_inv_def)
  qed
  then show thesis using that [of "ds_errors t"] t(1,2) by (simp add: search_cycles_def dfs_inv_def)
qed

end
