(* ===== verification/Imports.thy ===== *)
theory Imports
  imports Parser Cycle_Search
begin

text \<open>
  Imports of packages: version constraints (\<open>crates/agm-core/src/import/constraint.rs\<close>), the
  resolver over directories (\<open>import/resolver.rs\<close>), references across packages and circular
  imports (\<open>import/mod.rs\<close>). The crate \<open>semver\<close> and the file system are parameters; a resolver
  is any function that the trait \<open>ImportResolver\<close> allows.
\<close>

section \<open>The outside\<close>

text \<open>\<open>'v\<close> is \<open>semver::Version\<close> with its parser, order and printer, \<open>'r\<close> is \<open>semver::VersionReq\<close>.\<close>

record ('v, 'r) semver =
  sv_version :: "string \<Rightarrow> 'v option"
  sv_req :: "string \<Rightarrow> string + 'r"
  sv_matches :: "'r \<Rightarrow> 'v \<Rightarrow> bool"
  sv_less :: "'v \<Rightarrow> 'v \<Rightarrow> bool"
  sv_show :: "'v \<Rightarrow> string"

text \<open>The directories: entries in the order of the system, extensions and joined paths as \<open>Path\<close> gives them.\<close>

record package_dirs =
  pd_join :: "string \<Rightarrow> string \<Rightarrow> string"
  pd_is_dir :: "string \<Rightarrow> bool"
  pd_entries :: "string \<Rightarrow> string + (string + string) list"
  pd_extension :: "string \<Rightarrow> string option"
  pd_read :: "string \<Rightarrow> string + string"

section \<open>Version constraints\<close>

record 'r validated_import =
  vi_entry :: import_entry
  vi_req :: "'r option"

definition vi_package :: "'r validated_import \<Rightarrow> string" where
  "vi_package vi = imp_package (vi_entry vi)"

definition matches_version :: "('v, 'r) semver \<Rightarrow> 'r validated_import \<Rightarrow> 'v \<Rightarrow> bool" where
  "matches_version sv vi v = (case vi_req vi of Some req \<Rightarrow> sv_matches sv req v | None \<Rightarrow> True)"

definition no_location :: error_location where
  "no_location = error_location_new None None None"

definition parse_version_constraint :: "('v, 'r) semver \<Rightarrow> string \<Rightarrow> agm_error + 'r" where
  "parse_version_constraint sv constraint =
     (case sv_req sv (trim constraint) of
        Inr req \<Rightarrow> Inr req
      | Inl e \<Rightarrow> Inl (agm_error_new I002 (''Invalid version constraint: `'' @ constraint @ ''` ('' @ e @ '')'') no_location))"

definition validate_import :: "('v, 'r) semver \<Rightarrow> import_entry \<Rightarrow> agm_error + 'r validated_import" where
  "validate_import sv entry =
     (case imp_version_constraint entry of
        None \<Rightarrow> Inr \<lparr>vi_entry = entry, vi_req = None\<rparr>
      | Some constraint \<Rightarrow>
          res_bind (parse_version_constraint sv constraint) (\<lambda>req. Inr \<lparr>vi_entry = entry, vi_req = Some req\<rparr>))"

fun validate_all_imports ::
  "('v, 'r) semver \<Rightarrow> import_entry list \<Rightarrow> 'r validated_import list \<times> agm_error list" where
  "validate_all_imports sv [] = ([], [])"
| "validate_all_imports sv (entry # entries) =
     (let (validated, errors) = validate_all_imports sv entries in
      case validate_import sv entry of
        Inr v \<Rightarrow> (v # validated, errors)
      | Inl e \<Rightarrow> (validated, e # errors))"

section \<open>The resolver over directories\<close>

definition import_error :: "string \<Rightarrow> agm_error" where
  "import_error message = agm_error_new I001 message no_location"

text \<open>One entry of a directory; \<open>None\<close> is a panic of the parser.\<close>

definition candidate ::
  "parse_env \<Rightarrow> package_dirs \<Rightarrow> string \<Rightarrow> string \<Rightarrow> (agm_error + (string \<times> agm_file) list) option" where
  "candidate pe pd name path =
     (if pd_extension pd path \<noteq> Some ''agm'' then Some (Inr [])
      else case pd_read pd path of
        Inl e \<Rightarrow> Some (Inl (import_error (''Failed to read package file `'' @ path @ ''`: '' @ e)))
      | Inr source \<Rightarrow>
          map_option (\<lambda>r.
            case r of
              Inl _ \<Rightarrow> Inr []
            | Inr f \<Rightarrow> Inr (if h_package (f_header f) = name then [(path, f)] else []))
            (parse pe source))"

fun dir_candidates ::
  "parse_env \<Rightarrow> package_dirs \<Rightarrow> string \<Rightarrow> (string + string) list \<Rightarrow> (agm_error + (string \<times> agm_file) list) option" where
  "dir_candidates pe pd name [] = Some (Inr [])"
| "dir_candidates pe pd name (Inl e # entries) =
     Some (Inl (import_error (''Failed to read directory entry: '' @ e)))"
| "dir_candidates pe pd name (Inr path # entries) =
     Option.bind (candidate pe pd name path) (\<lambda>r.
       case r of
         Inl e \<Rightarrow> Some (Inl e)
       | Inr found \<Rightarrow> map_option (\<lambda>r. res_bind r (\<lambda>rest. Inr (found @ rest))) (dir_candidates pe pd name entries))"

fun find_candidates ::
  "parse_env \<Rightarrow> package_dirs \<Rightarrow> string list \<Rightarrow> string \<Rightarrow> (agm_error + (string \<times> agm_file) list) option" where
  "find_candidates pe pd [] name = Some (Inr [])"
| "find_candidates pe pd (p # paths) name =
     (let dir = pd_join pd p name in
      if \<not> pd_is_dir pd dir then find_candidates pe pd paths name
      else case pd_entries pd dir of
        Inl e \<Rightarrow> Some (Inl (import_error (''Failed to read package directory `'' @ dir @ ''`: '' @ e)))
      | Inr entries \<Rightarrow>
          Option.bind (dir_candidates pe pd name entries) (\<lambda>r.
            case r of
              Inl e \<Rightarrow> Some (Inl e)
            | Inr found \<Rightarrow> map_option (\<lambda>r. res_bind r (\<lambda>rest. Inr (found @ rest))) (find_candidates pe pd paths name)))"

definition better ::
  "('v, 'r) semver \<Rightarrow> 'r validated_import \<Rightarrow> string \<times> agm_file \<Rightarrow> (string \<times> agm_file \<times> 'v) option \<Rightarrow>
   (string \<times> agm_file \<times> 'v) option" where
  "better sv vi c best =
     (case sv_version sv (h_version (f_header (snd c))) of
        None \<Rightarrow> best
      | Some v \<Rightarrow>
          if \<not> matches_version sv vi v then best
          else case best of
            None \<Rightarrow> Some (fst c, snd c, v)
          | Some (_, _, b) \<Rightarrow> if sv_less sv b v then Some (fst c, snd c, v) else best)"

definition select_best_match ::
  "('v, 'r) semver \<Rightarrow> (string \<times> agm_file) list \<Rightarrow> 'r validated_import \<Rightarrow> (string \<times> agm_file \<times> 'v) option" where
  "select_best_match sv candidates vi = fold (better sv vi) candidates None"

definition fs_resolve ::
  "('v, 'r) semver \<Rightarrow> parse_env \<Rightarrow> package_dirs \<Rightarrow> string list \<Rightarrow> 'r validated_import \<Rightarrow>
   (agm_error + 'v resolved_package) option" where
  "fs_resolve sv pe pd paths vi =
     map_option (\<lambda>r. res_bind r (\<lambda>candidates.
       if candidates = [] then Inl (import_error (''Unresolved import: `'' @ vi_package vi @ ''`''))
       else case select_best_match sv candidates vi of
         Some (path, f, v) \<Rightarrow> Inr \<lparr>rp_package = vi_package vi, rp_version = v, rp_path = path, rp_file = f\<rparr>
       | None \<Rightarrow>
           (let found = map (sv_show sv) (List.map_filter (\<lambda>c. sv_version sv (h_version (f_header (snd c)))) candidates) in
            Inl (agm_error_new I002
              (''Import version constraint not satisfied: `'' @ vi_package vi @ ''@'' @
               (case imp_version_constraint (vi_entry vi) of Some c \<Rightarrow> c | None \<Rightarrow> ''*'') @ ''` (found '' @
               (if found = [] then ''no valid versions'' else join '', '' found) @ '')'') no_location))))
       (find_candidates pe pd paths (vi_package vi))"

section \<open>References across packages\<close>

definition cross_error :: "string \<Rightarrow> agm_error" where
  "cross_error ref = agm_error_new I004 (''Cross-package reference to non-existent node: `'' @ ref @ ''`'') no_location"

text \<open>Whether a reference begins with the name of a package and a dot.\<close>

definition in_package :: "string \<Rightarrow> string \<Rightarrow> bool" where
  "in_package ref pkg \<longleftrightarrow> starts_with pkg ref \<and> starts_with ''.'' (drop (length pkg) ref)"

text \<open>The names by length, the longest first and equal lengths in their order; the first that fits
  decides. A name of the list is found in the list, so that its last case does not arise.\<close>

definition resolve_cross_package_ref :: "string \<Rightarrow> 'v resolved_package list \<Rightarrow> agm_error + node" where
  "resolve_cross_package_ref ref pkgs =
     (case find (in_package ref) (sort_key (\<lambda>p. - int (length p)) (map rp_package pkgs)) of
        None \<Rightarrow> Inl (cross_error ref)
      | Some name \<Rightarrow>
          (case find (\<lambda>p. rp_package p = name) pkgs of
             Some rp \<Rightarrow>
               (case find (\<lambda>n. n_id n = drop (length name + 1) ref) (f_nodes (rp_file rp)) of
                  Some n \<Rightarrow> Inr n
                | None \<Rightarrow> Inl (cross_error ref))
           | None \<Rightarrow> Inl (cross_error ref)))"

definition check_deprecated :: "'v resolved_package \<Rightarrow> agm_error option" where
  "check_deprecated rp =
     (if h_status (f_header (rp_file rp)) = Some ''deprecated''
      then Some (agm_error_new I005 (''Import `'' @ rp_package rp @ ''` is deprecated'') no_location) else None)"

section \<open>Circular imports\<close>

record import_search =
  is_visited :: "string list"
  is_stack :: "string list"
  is_path :: "string list"

definition cycle_error_of :: "string list \<Rightarrow> agm_error" where
  "cycle_error_of path = agm_error_new I003 (''Circular import detected: `'' @ join '' -> '' path @ ''`'') no_location"

text \<open>The imports a resolved package declares, but for those with a malformed constraint.\<close>

definition package_imports :: "('v, 'r) semver \<Rightarrow> 'v resolved_package \<Rightarrow> 'r validated_import list" where
  "package_imports sv rp = fst (validate_all_imports sv (unwrap_list (h_imports (f_header (rp_file rp)))))"

definition open_package :: "string \<Rightarrow> import_search \<Rightarrow> import_search" where
  "open_package package s =
     \<lparr>is_visited = package # is_visited s, is_stack = package # is_stack s, is_path = is_path s @ [package]\<rparr>"

definition close_package :: "string \<Rightarrow> import_search \<Rightarrow> import_search" where
  "close_package package s = s\<lparr>is_path := butlast (is_path s), is_stack := removeAll package (is_stack s)\<rparr>"

text \<open>\<open>None\<close> is running out of fuel: a resolver may go on for ever.\<close>

primrec import_dfs ::
  "nat \<Rightarrow> ('v, 'r) semver \<Rightarrow> ('r validated_import \<Rightarrow> agm_error + 'v resolved_package) \<Rightarrow> string \<Rightarrow>
   'r validated_import list \<Rightarrow> import_search \<Rightarrow> (agm_error + import_search) option" where
  "import_dfs 0 sv resolve package imports0 s = None"
| "import_dfs (Suc fuel) sv resolve package imports0 s =
     (if package \<in> set (is_stack s) then Some (Inl (cycle_error_of (cycle_nodes (is_path s) package)))
      else if package \<in> set (is_visited s) then Some (Inr s)
      else
        map_option (\<lambda>r. res_bind r (\<lambda>s. Inr (close_package package s)))
          (fold_option (\<lambda>vi r.
             case r of
               Inl e \<Rightarrow> Some (Inl e)
             | Inr s \<Rightarrow>
                 (case resolve vi of
                    Inl _ \<Rightarrow> Some (Inr s)
                  | Inr rp \<Rightarrow> import_dfs fuel sv resolve (vi_package vi) (package_imports sv rp) s))
           imports0 (Inr (open_package package s))))"

definition detect_circular_imports ::
  "nat \<Rightarrow> ('v, 'r) semver \<Rightarrow> ('r validated_import \<Rightarrow> agm_error + 'v resolved_package) \<Rightarrow> string \<Rightarrow>
   'r validated_import list \<Rightarrow> (agm_error + unit) option" where
  "detect_circular_imports fuel sv resolve root imports0 =
     map_option (\<lambda>r. res_bind r (\<lambda>_. Inr ()))
       (import_dfs fuel sv resolve root imports0 \<lparr>is_visited = [], is_stack = [], is_path = []\<rparr>)"

end
