(* ===== verification/Type_Schema.thy ===== *)
theory Type_Schema
  imports Model_Node
begin

text \<open>
  The schemas of the node types (\<open>crates/agm-core/src/schema/registry.rs\<close>, \<open>model/schema.rs\<close>)
  and their enforcement (\<open>schema/enforcement.rs\<close>). The presence of a field is written twice in
  the source, as a function of a name and as the list of the names present; so it is here.
\<close>

section \<open>Schemas\<close>

record type_schema =
  ts_required :: "string list"
  ts_recommended :: "string list"
  ts_allowed :: "string list"
  ts_disallowed :: "string list"

definition universal_fields :: "string list" where
  "universal_fields =
     [''type'', ''summary'', ''priority'', ''stability'', ''confidence'', ''status'', ''tags'', ''keywords'',
      ''aliases'', ''scope'', ''applies_when'', ''valid_from'', ''valid_until'', ''depends'', ''related_to'',
      ''replaces'', ''conflicts'', ''see_also'', ''notes'', ''execution_status'', ''executed_by'',
      ''executed_at'', ''execution_log'', ''retry_count'', ''memory'']"

definition facts_schema :: type_schema where
  "facts_schema =
     \<lparr>ts_required = [''summary''],
      ts_recommended = [''items'', ''stability'', ''priority''],
      ts_allowed = [''detail'', ''tags'', ''fields''],
      ts_disallowed =
        [''steps'', ''rationale'', ''resolution'', ''parallel_groups'']\<rparr>"

definition rules_schema :: type_schema where
  "rules_schema =
     \<lparr>ts_required = [''summary'', ''items''],
      ts_recommended = [''stability'', ''priority''],
      ts_allowed = [''detail'', ''scope'', ''applies_when''],
      ts_disallowed =
        [''steps'', ''fields'', ''parallel_groups'']\<rparr>"

definition workflow_schema :: type_schema where
  "workflow_schema =
     \<lparr>ts_required = [''summary''],
      ts_recommended = [''steps'', ''input'', ''output'', ''stability'', ''priority''],
      ts_allowed = [''detail'', ''code'', ''code_blocks'', ''verify'', ''agent_context'', ''target''],
      ts_disallowed =
        [''fields'', ''parallel_groups'']\<rparr>"

definition entity_schema :: type_schema where
  "entity_schema =
     \<lparr>ts_required = [''summary'', ''fields''],
      ts_recommended = [''stability'', ''priority''],
      ts_allowed = [''detail'', ''related_to''],
      ts_disallowed =
        [''steps'', ''rationale'', ''resolution'', ''parallel_groups'', ''code'']\<rparr>"

definition decision_schema :: type_schema where
  "decision_schema =
     \<lparr>ts_required = [''summary'', ''rationale''],
      ts_recommended = [''stability'', ''priority'', ''tradeoffs''],
      ts_allowed = [''detail'', ''depends'', ''conflicts'', ''replaces''],
      ts_disallowed =
        [''steps'', ''fields'', ''parallel_groups'', ''code'']\<rparr>"

definition exception_schema :: type_schema where
  "exception_schema =
     \<lparr>ts_required = [''summary''],
      ts_recommended = [''resolution'', ''stability'', ''priority''],
      ts_allowed = [''detail'', ''depends''],
      ts_disallowed =
        [''steps'', ''fields'', ''rationale'', ''parallel_groups'', ''code'']\<rparr>"

definition example_schema :: type_schema where
  "example_schema =
     \<lparr>ts_required = [''summary''],
      ts_recommended = [''depends''],
      ts_allowed = [''detail'', ''code'', ''code_blocks''],
      ts_disallowed =
        [''rationale'', ''resolution'', ''parallel_groups'']\<rparr>"

definition glossary_schema :: type_schema where
  "glossary_schema =
     \<lparr>ts_required = [''summary''],
      ts_recommended = [''aliases''],
      ts_allowed = [''detail'', ''related_to''],
      ts_disallowed =
        [''steps'', ''fields'', ''rationale'', ''resolution'', ''code'', ''parallel_groups'']\<rparr>"

definition anti_pattern_schema :: type_schema where
  "anti_pattern_schema =
     \<lparr>ts_required = [''summary''],
      ts_recommended = [''detail'', ''conflicts''],
      ts_allowed = [''related_to'', ''resolution''],
      ts_disallowed =
        [''steps'', ''fields'', ''rationale'', ''code'', ''parallel_groups'']\<rparr>"

definition orchestration_schema :: type_schema where
  "orchestration_schema =
     \<lparr>ts_required = [''summary'', ''parallel_groups''],
      ts_recommended = [''detail''],
      ts_allowed = [''depends''],
      ts_disallowed =
        [''steps'', ''items'', ''fields'', ''code'', ''code_blocks'', ''verify'', ''rationale'',
         ''resolution'']\<rparr>"

definition ticket_schema :: type_schema where
  "ticket_schema =
     \<lparr>ts_required = [''summary'', ''title'', ''description'', ''priority''],
      ts_recommended = [''action'', ''sdd_phase'', ''labels''],
      ts_allowed = [''prompt'', ''assignee'', ''ticket_id'', ''detail'', ''agent_context'', ''code_blocks''],
      ts_disallowed =
        [''steps'', ''parallel_groups'', ''fields'', ''input'', ''output'', ''rationale'', ''resolution'']\<rparr>"

definition get_schema :: "node_type \<Rightarrow> type_schema option" where
  "get_schema t =
     (case t of
        NtFacts \<Rightarrow> Some facts_schema
      | NtRules \<Rightarrow> Some rules_schema
      | NtWorkflow \<Rightarrow> Some workflow_schema
      | NtEntity \<Rightarrow> Some entity_schema
      | NtDecision \<Rightarrow> Some decision_schema
      | NtException \<Rightarrow> Some exception_schema
      | NtExample \<Rightarrow> Some example_schema
      | NtGlossary \<Rightarrow> Some glossary_schema
      | NtAntiPattern \<Rightarrow> Some anti_pattern_schema
      | NtOrchestration \<Rightarrow> Some orchestration_schema
      | NtTicket \<Rightarrow> Some ticket_schema
      | NtCustom _ \<Rightarrow> None)"

section \<open>The fields of a node\<close>

text \<open>The arms of \<open>field_is_present\<close>.\<close>

definition presence :: "node \<Rightarrow> (string \<times> bool) list" where
  "presence n =
   [(''type'', True), (''summary'', True),
    (''priority'', n_priority n \<noteq> None), (''stability'', n_stability n \<noteq> None),
    (''confidence'', n_confidence n \<noteq> None), (''status'', n_status n \<noteq> None),
    (''depends'', n_depends n \<noteq> None), (''related_to'', n_related_to n \<noteq> None),
    (''replaces'', n_replaces n \<noteq> None), (''conflicts'', n_conflicts n \<noteq> None),
    (''see_also'', n_see_also n \<noteq> None), (''items'', n_items n \<noteq> None),
    (''steps'', n_steps n \<noteq> None), (''fields'', n_fields n \<noteq> None),
    (''input'', n_input n \<noteq> None), (''output'', n_output n \<noteq> None),
    (''detail'', n_detail n \<noteq> None), (''rationale'', n_rationale n \<noteq> None),
    (''tradeoffs'', n_tradeoffs n \<noteq> None), (''resolution'', n_resolution n \<noteq> None),
    (''examples'', n_examples n \<noteq> None), (''notes'', n_notes n \<noteq> None),
    (''code'', n_code n \<noteq> None), (''code_blocks'', n_code_blocks n \<noteq> None),
    (''verify'', n_verify n \<noteq> None), (''agent_context'', n_agent_context n \<noteq> None),
    (''target'', n_target n \<noteq> None), (''execution_status'', n_execution_status n \<noteq> None),
    (''executed_by'', n_executed_by n \<noteq> None), (''executed_at'', n_executed_at n \<noteq> None),
    (''execution_log'', n_execution_log n \<noteq> None), (''retry_count'', n_retry_count n \<noteq> None),
    (''parallel_groups'', n_parallel_groups n \<noteq> None), (''memory'', n_memory n \<noteq> None),
    (''scope'', n_scope n \<noteq> None), (''applies_when'', n_applies_when n \<noteq> None),
    (''valid_from'', n_valid_from n \<noteq> None), (''valid_until'', n_valid_until n \<noteq> None),
    (''tags'', n_tags n \<noteq> None), (''aliases'', n_aliases n \<noteq> None),
    (''keywords'', n_keywords n \<noteq> None), (''title'', n_title n \<noteq> None),
    (''description'', n_description n \<noteq> None), (''action'', n_action n \<noteq> None),
    (''sdd_phase'', n_sdd_phase n \<noteq> None), (''prompt'', n_prompt n \<noteq> None),
    (''assignee'', n_assignee n \<noteq> None), (''labels'', n_labels n \<noteq> None),
    (''ticket_id'', n_ticket_id n \<noteq> None)]"

definition field_is_present :: "node \<Rightarrow> string \<Rightarrow> bool" where
  "field_is_present n name =
     (case map_of (presence n) name of
        Some present \<Rightarrow> present
      | None \<Rightarrow> bt_get (n_extra_fields n) name \<noteq> None)"

definition push :: "'a option \<Rightarrow> string \<Rightarrow> string list" where
  "push x name = (if x = None then [] else [name])"

definition present_fields :: "node \<Rightarrow> string list" where
  "present_fields n =
     [''type'', ''summary''] @
     push (n_priority n) ''priority'' @ push (n_stability n) ''stability'' @ push (n_confidence n) ''confidence'' @
     push (n_status n) ''status'' @ push (n_depends n) ''depends'' @ push (n_related_to n) ''related_to'' @
     push (n_replaces n) ''replaces'' @ push (n_conflicts n) ''conflicts'' @ push (n_see_also n) ''see_also'' @
     push (n_items n) ''items'' @ push (n_steps n) ''steps'' @ push (n_fields n) ''fields'' @
     push (n_input n) ''input'' @ push (n_output n) ''output'' @ push (n_detail n) ''detail'' @
     push (n_rationale n) ''rationale'' @ push (n_tradeoffs n) ''tradeoffs'' @ push (n_resolution n) ''resolution'' @
     push (n_examples n) ''examples'' @ push (n_notes n) ''notes'' @ push (n_code n) ''code'' @
     push (n_code_blocks n) ''code_blocks'' @ push (n_verify n) ''verify'' @
     push (n_agent_context n) ''agent_context'' @ push (n_target n) ''target'' @
     push (n_execution_status n) ''execution_status'' @ push (n_executed_by n) ''executed_by'' @
     push (n_executed_at n) ''executed_at'' @ push (n_execution_log n) ''execution_log'' @
     push (n_retry_count n) ''retry_count'' @ push (n_parallel_groups n) ''parallel_groups'' @
     push (n_memory n) ''memory'' @ push (n_scope n) ''scope'' @ push (n_applies_when n) ''applies_when'' @
     push (n_valid_from n) ''valid_from'' @ push (n_valid_until n) ''valid_until'' @ push (n_tags n) ''tags'' @
     push (n_aliases n) ''aliases'' @ push (n_keywords n) ''keywords'' @ push (n_title n) ''title'' @
     push (n_description n) ''description'' @ push (n_action n) ''action'' @ push (n_sdd_phase n) ''sdd_phase'' @
     push (n_prompt n) ''prompt'' @ push (n_assignee n) ''assignee'' @ push (n_labels n) ''labels'' @
     push (n_ticket_id n) ''ticket_id'' @
     map fst (n_extra_fields n)"

section \<open>Enforcement\<close>

definition node_location :: "string \<Rightarrow> node \<Rightarrow> error_location" where
  "node_location file n = full_location file (start_line (n_span n)) (n_id n)"

definition required_errors :: "node \<Rightarrow> enforcement_level \<Rightarrow> error_location \<Rightarrow> type_schema \<Rightarrow> agm_error list" where
  "required_errors n level loc schema =
     concat (map (\<lambda>f.
       if f = ''summary'' \<or> field_is_present n f then []
       else
         [agm_error_with_severity V024
            (case level of EnfPermissive \<Rightarrow> SevWarning | _ \<Rightarrow> SevError)
            (''Node `'' @ n_id n @ ''` of type `'' @ show_node_type (n_type n) @
             ''` missing required schema field: `'' @ f @ ''`'') loc])
       (ts_required schema))"

definition recommended_errors :: "node \<Rightarrow> enforcement_level \<Rightarrow> error_location \<Rightarrow> type_schema \<Rightarrow> agm_error list" where
  "recommended_errors n level loc schema =
     concat (map (\<lambda>f.
       if field_is_present n f \<or> level = EnfPermissive then []
       else
         [agm_error_with_severity V010 SevWarning
            (''Node type `'' @ show_node_type (n_type n) @ ''` typically includes field `'' @ f @ ''` (missing)'') loc])
       (ts_recommended schema))"

definition disallowed_errors :: "node \<Rightarrow> enforcement_level \<Rightarrow> error_location \<Rightarrow> type_schema \<Rightarrow> agm_error list" where
  "disallowed_errors n level loc schema =
     concat (map (\<lambda>f.
       if f \<in> set universal_fields \<or> f \<notin> set (ts_disallowed schema) then []
       else
         (let message = (\<lambda>mode. ''Disallowed field `'' @ f @ ''` on node type `'' @ show_node_type (n_type n) @
                ''` ('' @ mode @ '' mode)'') in
          case level of
            EnfStrict \<Rightarrow> [agm_error_with_severity V016 SevError (message ''strict'') loc]
          | EnfStandard \<Rightarrow> [agm_error_with_severity V017 SevWarning (message ''standard'') loc]
          | EnfPermissive \<Rightarrow> []))
       (present_fields n))"

definition validate_schema :: "node \<Rightarrow> enforcement_level \<Rightarrow> string \<Rightarrow> agm_error list" where
  "validate_schema n level file =
     (case get_schema (n_type n) of
        None \<Rightarrow> []
      | Some schema \<Rightarrow>
          (let loc = node_location file n in
           required_errors n level loc schema @ recommended_errors n level loc schema @
           disallowed_errors n level loc schema))"

section \<open>Lemmas\<close>

text \<open>The two copies of the list of fields agree, but for an extension field named like a field of a node.\<close>

definition extras_fresh :: "node \<Rightarrow> bool" where
  "extras_fresh n \<longleftrightarrow> (\<forall>k \<in> fst ` set (n_extra_fields n). k \<notin> fst ` set (presence n))"

lemma filter_push:
  "map fst (filter snd [(name, x \<noteq> None)]) = push x name"
  "map fst (filter snd ((name, x \<noteq> None) # e # es)) = push x name @ map fst (filter snd (e # es))"
  "map fst (filter snd ((name, True) # es)) = [name] @ map fst (filter snd es)"
  by (simp_all add: push_def)

lemma present_fields_presence:
  "present_fields n = map fst (filter snd (presence n)) @ map fst (n_extra_fields n)"
  unfolding presence_def present_fields_def filter_push append_assoc append.simps by (rule refl)

lemma present_fields_set:
  "set (present_fields n) = fst ` {e \<in> set (presence n). snd e} \<union> fst ` set (n_extra_fields n)"
  by (auto simp: present_fields_presence)

lemma presence_distinct: "distinct (map fst (presence n))"
proof -
  have "distinct (map fst (presence node_default))" by code_simp
  moreover have "map fst (presence n) = map fst (presence node_default)"
    by (simp only: presence_def list.map fst_conv)
  ultimately show ?thesis by simp
qed

lemma present_fields_agree:
  assumes "extras_fresh n"
  shows "f \<in> set (present_fields n) \<longleftrightarrow> field_is_present n f"
proof (cases "map_of (presence n) f")
  case None
  then have "f \<notin> fst ` set (presence n)" by (simp add: map_of_eq_None_iff)
  then show ?thesis using None by (auto simp: present_fields_set field_is_present_def bt_get_None)
next
  case (Some b)
  then have m: "(f, b) \<in> set (presence n)" by (rule map_of_SomeD)
  then have "f \<in> fst ` set (presence n)" by (rule image_eqI [rotated]) simp
  then have extra: "f \<notin> fst ` set (n_extra_fields n)" using assms unfolding extras_fresh_def by blast
  have "(f, c) \<in> set (presence n) \<Longrightarrow> c = b" for c
    using m by (rule eq_key_imp_eq_value [OF presence_distinct, rotated])
  then have "f \<in> fst ` {e \<in> set (presence n). snd e} \<longleftrightarrow> b"
    using m by (metis (no_types, lifting) fst_conv imageE image_eqI mem_Collect_eq prod.collapse snd_conv)
  then show ?thesis using Some extra by (simp add: present_fields_set field_is_present_def)
qed

text \<open>What a node must satisfy to have no schema error at a level.\<close>

definition schema_ok :: "enforcement_level \<Rightarrow> node \<Rightarrow> bool" where
  "schema_ok level n \<longleftrightarrow>
     (case get_schema (n_type n) of
        None \<Rightarrow> True
      | Some schema \<Rightarrow>
          (level \<noteq> EnfPermissive \<longrightarrow>
             (\<forall>f \<in> set (ts_required schema). f = ''summary'' \<or> field_is_present n f)) \<and>
          (level = EnfStrict \<longrightarrow>
             (\<forall>f \<in> set (present_fields n). f \<in> set universal_fields \<or> f \<notin> set (ts_disallowed schema))))"

lemma with_severity_error [simp]: "is_error (agm_error_with_severity c sev m l) \<longleftrightarrow> sev = SevError"
  by (simp add: agm_error_with_severity_def is_error_def)

lemma list_ex_concat_map: "list_ex P (concat (map f xs)) \<longleftrightarrow> (\<exists>x \<in> set xs. list_ex P (f x))"
  by (induction xs) auto

lemma validate_schema_errors: "list_ex is_error (validate_schema n level file) \<longleftrightarrow> \<not> schema_ok level n"
proof (cases "get_schema (n_type n)")
  case (Some schema)
  have req: "list_ex is_error (required_errors n level loc schema) \<longleftrightarrow> level \<noteq> EnfPermissive \<and>
      (\<exists>f \<in> set (ts_required schema). f \<noteq> ''summary'' \<and> \<not> field_is_present n f)" for loc
    by (cases level) (auto simp: required_errors_def list_ex_concat_map)
  have rec: "\<not> list_ex is_error (recommended_errors n level loc schema)" for loc
    by (auto simp: recommended_errors_def list_ex_concat_map)
  have dis: "list_ex is_error (disallowed_errors n level loc schema) \<longleftrightarrow> level = EnfStrict \<and>
      (\<exists>f \<in> set (present_fields n). f \<notin> set universal_fields \<and> f \<in> set (ts_disallowed schema))" for loc
    by (cases level) (auto simp: disallowed_errors_def list_ex_concat_map Let_def)
  show ?thesis by (auto simp: validate_schema_def schema_ok_def Some Let_def req rec dis)
qed (simp add: validate_schema_def schema_ok_def)

lemma schema_ok_weaker:
  "schema_ok EnfStrict n \<Longrightarrow> schema_ok EnfStandard n" "schema_ok EnfStandard n \<Longrightarrow> schema_ok EnfPermissive n"
  by (auto simp: schema_ok_def split: option.splits)

end
