(* ===== verification/Node_Checks.thy ===== *)
theory Node_Checks
  imports Imports Type_Schema Memory_Runtime
begin

text \<open>
  The checks of the validator on a file and its nodes: \<open>crates/agm-core/src/validator/\<close>
  \<open>file.rs\<close>, \<open>node.rs\<close>, \<open>code.rs\<close>, \<open>verify.rs\<close>, \<open>context.rs\<close>, \<open>orchestration.rs\<close>,
  \<open>execution.rs\<close>, \<open>memory.rs\<close>, \<open>ticket.rs\<close>, \<open>type_schema.rs\<close>, with \<open>memory/schema.rs\<close>. A set of
  names is a set; the regular expressions of the source are written out as predicates.
\<close>

section \<open>File and nodes\<close>

definition validate_file :: "agm_file \<Rightarrow> string \<Rightarrow> agm_error list" where
  "validate_file f file =
     (let missing = (\<lambda>value name. if trim value = [] then
            [agm_error_new P001 (''Missing required header field: `'' @ name @ ''`'') (file_line file 1)] else []) in
      missing (h_agm (f_header f)) ''agm'' @ missing (h_package (f_header f)) ''package'' @
      missing (h_version (f_header f)) ''version'' @
      (if f_nodes f = [] then [agm_error_new P008 ''Empty file (no nodes)'' (file_line file 1)] else []))"

text \<open>\<open>seen\<close> maps the identifiers met to their first lines.\<close>

fun node_id_checks :: "(string \<rightharpoonup> nat) \<Rightarrow> node list \<Rightarrow> string \<Rightarrow> agm_error list" where
  "node_id_checks seen [] file = []"
| "node_id_checks seen (n # ns) file =
     (let i = n_id n; line = start_line (n_span n) in
      (case seen i of
         Some k \<Rightarrow>
           [agm_error_new V003 (''Duplicate node ID: `'' @ i @ ''` (first seen at line '' @ show_nat k @ '')'')
              (full_location file line i)]
       | None \<Rightarrow> []) @
      (if node_id_ok i then []
       else [agm_error_new V021 (''Node ID does not match required pattern: `'' @ i @ ''`'') (full_location file line i)]) @
      node_id_checks (if seen i = None then seen(i \<mapsto> line) else seen) ns file)"

definition validate_node_ids :: "node list \<Rightarrow> string \<Rightarrow> agm_error list" where
  "validate_node_ids ns file = node_id_checks (\<lambda>_. None) ns file"

definition char_count :: "string \<Rightarrow> nat" where
  "char_count s = length (str_chars s)"

definition warn :: "error_code \<Rightarrow> string \<Rightarrow> error_location \<Rightarrow> agm_error" where
  "warn code message loc = agm_error_with_severity code SevWarning message loc"

definition validate_node :: "node \<Rightarrow> string set \<Rightarrow> string \<Rightarrow> agm_error list" where
  "validate_node n all_ids file =
     (let i = n_id n; loc = node_location file n in
      if n_summary n = [] then
        [agm_error_new V002 (''Node `'' @ i @ ''` missing required field: `summary`'') loc]
      else
        (if trim (n_summary n) = [] then [warn V011 (''Summary is empty in node `'' @ i @ ''`'') loc] else []) @
        (if 200 < char_count (n_summary n)
         then [warn V012 (''Summary exceeds 200 characters in node `'' @ i @ ''`'') loc] else []) @
        (case (n_valid_from n, n_valid_until n) of
           (Some from_, Some until) \<Rightarrow>
             (if until < from_
              then [agm_error_new V007 (''`valid_from` is after `valid_until` in node `'' @ i @ ''`'') loc] else [])
         | _ \<Rightarrow> []) @
        (if (n_status n = Some NsDeprecated \<or> n_status n = Some NsSuperseded) \<and> n_replaces n = None
         then [warn V014 (''Deprecated node `'' @ i @ ''` missing `replaces` or `superseded_by`'') loc] else []))"

section \<open>Code blocks\<close>

text \<open>A character as its bytes. Without regard to case, \<open>s\<close> also matches U+017F and \<open>k\<close> U+212A.\<close>

definition matches_nocase :: "char \<Rightarrow> string \<Rightarrow> bool" where
  "matches_nocase c s \<longleftrightarrow>
     map to_lower s = [c] \<or> (c = CHR ''s'' \<and> s = [CHR 0xC5, CHR 0xBF]) \<or>
     (c = CHR ''k'' \<and> s = [CHR 0xE2, CHR 0x84, CHR 0xAA])"

fun nocase_prefix :: "string \<Rightarrow> string list \<Rightarrow> string list option" where
  "nocase_prefix [] cs = Some cs"
| "nocase_prefix (p # ps) [] = None"
| "nocase_prefix (p # ps) (c # cs) = (if matches_nocase p c then nocase_prefix ps cs else None)"

definition ws_char :: "string \<Rightarrow> bool" where
  "ws_char s = (case s of [a] \<Rightarrow> ws1 a | [a, b] \<Rightarrow> ws2 a b | [a, b, c] \<Rightarrow> ws3 a b c | _ \<Rightarrow> False)"

definition quote_char :: "string \<Rightarrow> bool" where
  "quote_char s \<longleftrightarrow> s = [CHR 0x22] \<or> s = [CHR 0x27]"

text \<open>A match of each pattern at the first of the characters.\<close>

definition secret_value :: "string list \<Rightarrow> bool" where
  "secret_value cs =
     (case dropWhile ws_char cs of
        [] \<Rightarrow> False
      | c # cs1 \<Rightarrow>
          (c = '':'' \<or> c = ''='') \<and>
          (case dropWhile ws_char cs1 of
             [] \<Rightarrow> False
           | q # cs2 \<Rightarrow>
               quote_char q \<and> 8 \<le> length (takeWhile (\<lambda>c. \<not> quote_char c) cs2) \<and> list_ex quote_char cs2))"

definition secret_keyword_at :: "string list \<Rightarrow> bool" where
  "secret_keyword_at cs =
     list_ex (\<lambda>kw. case nocase_prefix kw cs of Some rest \<Rightarrow> secret_value rest | None \<Rightarrow> False)
       [''password'', ''secret'', ''api_key'', ''api_secret'', ''token'', ''private_key'']"

definition aws_key_at :: "string list \<Rightarrow> bool" where
  "aws_key_at cs =
     (let s = concat (take 20 cs) in
      length cs \<ge> 20 \<and> (starts_with ''AKIA'' s \<or> starts_with ''ASIA'' s) \<and>
      list_all (\<lambda>c. case c of [a] \<Rightarrow> is_upper a \<or> is_digit a | _ \<Rightarrow> False) (drop 4 (take 20 cs)))"

definition alnum_nocase :: "string \<Rightarrow> bool" where
  "alnum_nocase s \<longleftrightarrow>
     (case s of [a] \<Rightarrow> is_alpha a \<or> is_digit a | _ \<Rightarrow> matches_nocase CHR ''s'' s \<or> matches_nocase CHR ''k'' s)"

definition token_prefix_at :: "string list \<Rightarrow> bool" where
  "token_prefix_at cs =
     list_ex (\<lambda>p. case nocase_prefix p cs of
         Some rest \<Rightarrow> 20 \<le> length (takeWhile alnum_nocase rest)
       | None \<Rightarrow> False)
       [''sk-'', ''pk_live_'', ''pk_test_'', ''ghp_'', ''gho_'', ''glpat-'']"

text \<open>A match anywhere.\<close>

fun somewhere :: "('a list \<Rightarrow> bool) \<Rightarrow> 'a list \<Rightarrow> bool" where
  "somewhere P [] = P []"
| "somewhere P (x # xs) = (P (x # xs) \<or> somewhere P xs)"

definition contains_secret :: "string \<Rightarrow> bool" where
  "contains_secret body =
     (let cs = str_chars body in
      somewhere secret_keyword_at cs \<or> somewhere aws_key_at cs \<or> somewhere token_prefix_at cs)"

definition is_unsafe_path :: "string \<Rightarrow> bool" where
  "is_unsafe_path path \<longleftrightarrow> starts_with ''/'' path \<or> starts_with [CHR 0x5C] path \<or> str_contains path ''..''"

lemma is_unsafe_path_dotdot: "is_unsafe_path (u @ ''..'' @ v)"
  by (auto simp: is_unsafe_path_def str_contains_iff)

definition validate_block :: "error_location \<Rightarrow> code_block \<Rightarrow> agm_error list" where
  "validate_block loc b =
     (if cb_lang b = None then [agm_error_new V008 ''Code block missing required field: `lang`'' loc] else []) @
     (if trim (cb_body b) = [] then [agm_error_new V008 ''Code block missing required field: `body` (empty)'' loc] else []) @
     (if cb_action b = CaReplace \<and> cb_old b = None
      then [agm_error_new V008 ''Code block with `action: replace` missing required field: `old`'' loc] else []) @
     (if (cb_action b = CaInsertBefore \<or> cb_action b = CaInsertAfter) \<and> cb_anchor b = None
      then [agm_error_new V008
        (''Code block with `action: '' @ show_code_action (cb_action b) @ ''` missing required field: `anchor`'') loc] else []) @
     (case cb_target b of
        Some target \<Rightarrow>
          (if is_unsafe_path target
           then [agm_error_new V015 (''`target` path is absolute or contains traversal: `'' @ target @ ''`'') loc] else [])
      | None \<Rightarrow> []) @
     (if contains_secret (cb_body b)
      then [agm_error_new V008 ''Code block appears to contain a secret or credential'' loc] else [])"

definition validate_code :: "node \<Rightarrow> string \<Rightarrow> agm_error list" where
  "validate_code n file =
     (let loc = node_location file n in
      (case n_code n of Some b \<Rightarrow> validate_block loc b | None \<Rightarrow> []) @
      concat (map (validate_block loc) (unwrap_list (n_code_blocks n))))"

section \<open>Verify checks\<close>

definition validate_check :: "string set \<Rightarrow> bool \<Rightarrow> error_location \<Rightarrow> verify_check \<Rightarrow> agm_error list" where
  "validate_check all_ids single_node loc c =
     (let blank = (\<lambda>value message. if trim value = [] then [agm_error_new V009 message loc] else []) in
      case c of
        VcCommand run _ \<Rightarrow> blank run ''Verify entry missing required field: `run` (empty command)''
      | VcFileExists f \<Rightarrow> blank f ''Verify entry missing required field: `file` (empty path)''
      | VcFileContains f pattern \<Rightarrow>
          blank f ''Verify entry `file_contains` missing required field: `file`'' @
          blank pattern ''Verify entry `file_contains` missing required field: `pattern`''
      | VcFileNotContains f pattern \<Rightarrow>
          blank f ''Verify entry `file_not_contains` missing required field: `file`'' @
          blank pattern ''Verify entry `file_not_contains` missing required field: `pattern`''
      | VcNodeStatus ref _ \<Rightarrow>
          if trim ref = [] then blank ref ''Verify entry `node_status` missing required field: `node`''
          else if \<not> single_node \<and> ref \<notin> all_ids then
            [agm_error_new V009 (''Verify entry `node_status` references non-existent node: `'' @ ref @ ''`'') loc]
          else [])"

definition validate_verify :: "node \<Rightarrow> string set \<Rightarrow> string \<Rightarrow> bool \<Rightarrow> agm_error list" where
  "validate_verify n all_ids file single_node =
     concat (map (validate_check all_ids single_node (node_location file n)) (unwrap_list (n_verify n)))"

section \<open>Memory\<close>

definition memory_key_ok :: "string \<Rightarrow> bool" where
  "memory_key_ok s =
     (case s of [] \<Rightarrow> False
      | c # cs \<Rightarrow> is_lower c \<and> list_all (\<lambda>c. is_lower c \<or> is_digit c \<or> c = CHR ''_'' \<or> c = CHR ''.'') cs)"

definition memory_topic_ok :: "string \<Rightarrow> bool" where
  "memory_topic_ok s = list_all segment_ok (split_char CHR ''.'' s)"

definition validate_memory_key :: "string \<Rightarrow> error_location \<Rightarrow> agm_error + unit" where
  "validate_memory_key key loc =
     (if memory_key_ok key then Inr ()
      else Inl (agm_error_new V022 (''Memory key does not match required pattern: `'' @ key @ ''`'') loc))"

definition validate_memory_topic :: "string \<Rightarrow> error_location \<Rightarrow> agm_error + unit" where
  "validate_memory_topic topic loc =
     (if memory_topic_ok topic then Inr ()
      else Inl (agm_error_new V025 (''Memory topic does not match required pattern: `'' @ topic @ ''`'') loc))"

definition errors_of :: "'e + 'a \<Rightarrow> 'e list" where
  "errors_of r = (case r of Inl e \<Rightarrow> [e] | Inr _ \<Rightarrow> [])"

definition validate_memory_entry :: "memory_entry \<Rightarrow> error_location \<Rightarrow> agm_error list" where
  "validate_memory_entry e loc =
     errors_of (validate_memory_key (me_key e) loc) @ errors_of (validate_memory_topic (me_topic e) loc) @
     (if me_action e = MaUpsert \<and> me_value e = None
      then [agm_error_new V023 (''Invalid memory action: `upsert` on key `'' @ me_key e @ ''` requires `value`'') loc] else []) @
     (if me_action e = MaSearch \<and> me_query e = None
      then [agm_error_new V023 (''Invalid memory action: `search` on key `'' @ me_key e @ ''` requires `query`'') loc] else []) @
     (case me_value e of
        Some value \<Rightarrow>
          (if max_memory_value_bytes < length value
           then [agm_error_new V027 (''Memory value exceeds maximum size ('' @ show_nat (length value) @ '' bytes > '' @
                 show_nat max_memory_value_bytes @ '' bytes) for key `'' @ me_key e @ ''`'') loc] else [])
      | None \<Rightarrow> [])"

definition validate_load_memory :: "string list \<Rightarrow> string set \<Rightarrow> error_location \<Rightarrow> agm_error list" where
  "validate_load_memory topics available loc =
     concat (map (\<lambda>topic.
       if \<not> memory_topic_ok topic then
         [agm_error_new V025 (''Memory topic does not match required pattern: `'' @ topic @ ''`'') loc]
       else if topic \<notin> available then
         [agm_error_new V026 (''Unresolved memory topic `'' @ topic @ ''` in `agent_context.load_memory` of node `'' @
            (case loc_node loc of Some i \<Rightarrow> i | None \<Rightarrow> ''<unknown>'') @ ''`'') loc]
       else []) topics)"

definition validate_memory :: "node \<Rightarrow> string \<Rightarrow> agm_error list" where
  "validate_memory n file =
     concat (map (\<lambda>e. validate_memory_entry e (node_location file n)) (unwrap_list (n_memory n)))"

section \<open>Agent context\<close>

definition validate_context :: "node \<Rightarrow> string set \<Rightarrow> string set \<Rightarrow> string \<Rightarrow> bool \<Rightarrow> agm_error list" where
  "validate_context n all_ids all_topics file single_node =
     (case n_agent_context n of
        None \<Rightarrow> []
      | Some ctx \<Rightarrow>
          (let loc = node_location file n in
           (if single_node then []
            else concat (map (\<lambda>ref.
              if ref \<in> all_ids then []
              else [agm_error_new V004 (''Unresolved reference `'' @ ref @ ''` in `agent_context.load_nodes` of node `'' @
                    n_id n @ ''`'') loc]) (unwrap_list (ac_load_nodes ctx)))) @
           concat (map (\<lambda>lf.
             if is_unsafe_path (lf_path lf)
             then [warn V015 (''`target` path is absolute or contains traversal: `'' @ lf_path lf @ ''`'') loc]
             else []) (unwrap_list (ac_load_files ctx))) @
           (case ac_load_memory ctx of Some topics \<Rightarrow> validate_load_memory topics all_topics loc | None \<Rightarrow> [])))"

section \<open>Orchestration\<close>

text \<open>A later group of the same name replaces an earlier one in the graph.\<close>

definition requires_graph :: "parallel_group list \<Rightarrow> string \<Rightarrow> string list option" where
  "requires_graph groups =
     map_of (rev (map (\<lambda>g. (pg_group g, filter (\<lambda>r. r \<in> pg_group ` set groups) (unwrap_list (pg_requires g)))) groups))"

definition requires_cycle_error :: "node \<Rightarrow> string \<Rightarrow> string list \<Rightarrow> agm_error" where
  "requires_cycle_error n file cycle =
     agm_error_new V019 (''Cycle in orchestration `requires`: `'' @ join '' -> '' cycle @ ''` in node `'' @ n_id n @ ''`'')
       (node_location file n)"

text \<open>\<open>dfs_requires\<close> is the search of \<open>Cycle_Search\<close> with this error.\<close>

definition detect_requires_cycles :: "parallel_group list \<Rightarrow> node \<Rightarrow> string \<Rightarrow> agm_error list" where
  "detect_requires_cycles groups n file =
     unwrap_list (search_cycles (requires_cycle_error n file) (requires_graph groups) (map pg_group groups))"

definition validate_group :: "parallel_group list \<Rightarrow> string set \<Rightarrow> node \<Rightarrow> error_location \<Rightarrow> bool \<Rightarrow> parallel_group \<Rightarrow> agm_error list" where
  "validate_group groups all_ids n loc single_node g =
     (if trim (pg_group g) = []
      then [agm_error_new V018 (''Orchestration group in node `'' @ n_id n @ ''` has empty `group` name'') loc] else []) @
     (if pg_nodes g = []
      then [agm_error_new V018 (''Orchestration group `'' @ pg_group g @ ''` in node `'' @ n_id n @ ''` has empty `nodes` list'') loc]
      else []) @
     (if single_node then []
      else concat (map (\<lambda>ref.
        if ref \<in> all_ids then []
        else [agm_error_new V018 (''Orchestration group `'' @ pg_group g @ ''` references non-existent node `'' @ ref @ ''`'') loc])
        (pg_nodes g))) @
     concat (map (\<lambda>req.
       if req \<in> pg_group ` set groups then []
       else [agm_error_new V018 (''Orchestration group `'' @ pg_group g @ ''` in node `'' @ n_id n @
             ''` requires non-existent group `'' @ req @ ''`'') loc]) (unwrap_list (pg_requires g)))"

definition validate_orchestration :: "node \<Rightarrow> string set \<Rightarrow> string \<Rightarrow> bool \<Rightarrow> agm_error list" where
  "validate_orchestration n all_ids file single_node =
     (let loc = node_location file n in
      case n_parallel_groups n of
        None \<Rightarrow>
          if n_type n = NtOrchestration
          then [agm_error_new V018 (''Orchestration node `'' @ n_id n @ ''` missing required field: `parallel_groups`'') loc] else []
      | Some groups \<Rightarrow>
          concat (map (validate_group groups all_ids n loc single_node) groups) @ detect_requires_cycles groups n file)"

section \<open>Execution state and tickets\<close>

definition looks_like_iso8601 :: "string \<Rightarrow> bool" where
  "looks_like_iso8601 s0 =
     (let s = trim s0 in
      10 \<le> length s \<and> list_all is_digit (take 4 s) \<and> s ! 4 = CHR ''-'' \<and> list_all is_digit (take 2 (drop 5 s)) \<and>
      s ! 7 = CHR ''-'' \<and> list_all is_digit (take 2 (drop 8 s)) \<and>
      (length s = 10 \<or> s ! 10 = CHR ''T'' \<or> s ! 10 = sp))"

definition validate_execution :: "node \<Rightarrow> string \<Rightarrow> agm_error list" where
  "validate_execution n file =
     (let loc = node_location file n;
          absent = (\<lambda>x f. if x = None then
            [warn V010 (''Node type `'' @ n_id n @ ''` typically includes field `'' @ f @ ''` (missing) for completed nodes'') loc]
            else []) in
      (case n_executed_at n of
         Some ts \<Rightarrow>
           (if looks_like_iso8601 ts then []
            else [warn V006 (''Invalid `execution_status` value: `executed_at` timestamp `'' @ ts @
                  ''` is not a valid ISO 8601 date/datetime'') loc])
       | None \<Rightarrow> []) @
      (if n_execution_status n = Some Completed
       then absent (n_executed_by n) ''executed_by'' @ absent (n_executed_at n) ''executed_at'' else []))"

definition validate_ticket :: "node \<Rightarrow> string \<Rightarrow> agm_error list" where
  "validate_ticket n file =
     (if n_type n \<noteq> NtTicket then []
      else
        (let loc = node_location file n in
         (case n_action n of
            Some action \<Rightarrow>
              (if action \<noteq> TaCreate \<and> n_ticket_id n = None
               then [agm_error_new V031 (''Ticket `'' @ n_id n @ ''` with action `'' @ show_ticket_action action @
                     ''` requires `ticket_id`'') loc] else [])
          | None \<Rightarrow> []) @
         (case n_title n of
            Some title \<Rightarrow>
              (if 200 < char_count title then [warn V032 (''Ticket `'' @ n_id n @ ''` title exceeds 200 characters'') loc] else [])
          | None \<Rightarrow> [])))"

definition validate_type_schema :: "node \<Rightarrow> enforcement_level \<Rightarrow> string \<Rightarrow> agm_error list" where
  "validate_type_schema n level file = validate_schema n level file"

end
