(* ===== verification/Validator.thy ===== *)
theory Validator
  imports Node_Checks Group_Order
begin

text \<open>
  The checks across the nodes of a file and the validator itself
  (\<open>crates/agm-core/src/validator/\<close> \<open>references.rs\<close>, \<open>cycles.rs\<close>, \<open>compatibility.rs\<close>,
  \<open>imports.rs\<close>, \<open>mod.rs\<close>). The main result: what it accepts can be run.
\<close>

section \<open>References\<close>

definition looks_like_cross_package_ref :: "string \<Rightarrow> agm_file \<Rightarrow> bool" where
  "looks_like_cross_package_ref ref f =
     list_ex (\<lambda>imp. starts_with (imp_package imp @ ''.'') ref) (unwrap_list (h_imports (f_header f)))"

definition check_refs :: "string list option \<Rightarrow> string \<Rightarrow> node \<Rightarrow> agm_file \<Rightarrow> string set \<Rightarrow> string \<Rightarrow> agm_error list" where
  "check_refs refs field n f all_ids file =
     concat (map (\<lambda>ref.
       if ref \<in> all_ids \<or> looks_like_cross_package_ref ref f then []
       else [agm_error_new V004 (''Unresolved reference `'' @ ref @ ''` in `'' @ field @ ''` of node `'' @ n_id n @ ''`'')
               (node_location file n)]) (unwrap_list refs))"

definition validate_references :: "agm_file \<Rightarrow> string set \<Rightarrow> string \<Rightarrow> agm_error list" where
  "validate_references f all_ids file =
     concat (map (\<lambda>n.
       check_refs (n_depends n) ''depends'' n f all_ids file @
       check_refs (n_related_to n) ''related_to'' n f all_ids file @
       check_refs (n_replaces n) ''replaces'' n f all_ids file @
       check_refs (n_conflicts n) ''conflicts'' n f all_ids file @
       check_refs (n_see_also n) ''see_also'' n f all_ids file) (f_nodes f))"

section \<open>Cycles\<close>

text \<open>The known dependencies; a later node of the same identifier replaces an earlier one.\<close>

definition build_depends_graph :: "agm_file \<Rightarrow> string \<Rightarrow> string list option" where
  "build_depends_graph f =
     map_of (rev (map (\<lambda>n. (n_id n, filter (\<lambda>d. d \<in> file_ids f) (unwrap_list (n_depends n)))) (f_nodes f)))"

definition cycle_line :: "agm_file \<Rightarrow> string \<Rightarrow> nat" where
  "cycle_line f i = (case map_of (rev (map (\<lambda>n. (n_id n, start_line (n_span n))) (f_nodes f))) i of Some k \<Rightarrow> k | None \<Rightarrow> 0)"

definition depends_cycle_error :: "agm_file \<Rightarrow> string \<Rightarrow> string list \<Rightarrow> agm_error" where
  "depends_cycle_error f file cycle =
     agm_error_new V005 (''Cycle detected in `depends`: `'' @ join '' -> '' cycle @ ''`'') (file_line file (cycle_line f (last cycle)))"

definition validate_cycles :: "agm_file \<Rightarrow> string \<Rightarrow> agm_error list" where
  "validate_cycles f file =
     (if f_nodes f = [] then []
      else unwrap_list (search_cycles (depends_cycle_error f file) (build_depends_graph f) (map n_id (f_nodes f))))"

section \<open>Conflicts\<close>

definition is_active :: "node \<Rightarrow> bool" where
  "is_active n \<longleftrightarrow> n_status n = None \<or> n_status n = Some NsActive"

definition conflict_step ::
  "agm_file \<Rightarrow> string \<Rightarrow> node \<Rightarrow> string \<Rightarrow> (string \<times> string) list \<times> agm_error list \<Rightarrow> (string \<times> string) list \<times> agm_error list" where
  "conflict_step f file n other r =
     (let pair = (if n_id n < other then (n_id n, other) else (other, n_id n)) in
      case node_map f other of
        None \<Rightarrow> r
      | Some m \<Rightarrow>
          if other = n_id n \<or> \<not> is_active m \<or> pair \<in> set (fst r) then r
          else (pair # fst r, snd r @
            [warn V013 (''Conflicting active nodes co-loaded: `'' @ n_id n @ ''` and `'' @ other @ ''`'') (node_location file n)]))"

definition validate_compatibility :: "agm_file \<Rightarrow> string \<Rightarrow> agm_error list" where
  "validate_compatibility f file =
     snd (fold (\<lambda>n r. if is_active n then fold (conflict_step f file n) (unwrap_list (n_conflicts n)) r else r) (f_nodes f) ([], []))"

section \<open>Imports\<close>

definition collect_all_refs :: "node \<Rightarrow> string list" where
  "collect_all_refs n =
     unwrap_list (n_depends n) @ unwrap_list (n_related_to n) @ unwrap_list (n_replaces n) @ unwrap_list (n_conflicts n) @ unwrap_list (n_see_also n) @
     (case n_agent_context n of Some ctx \<Rightarrow> unwrap_list (ac_load_nodes ctx) | None \<Rightarrow> [])"

definition resolve_imports ::
  "('r validated_import \<Rightarrow> agm_error + 'v resolved_package) \<Rightarrow> 'r validated_import list \<Rightarrow> 'v resolved_package list \<times> agm_error list" where
  "resolve_imports resolve vs =
     (List.map_filter (\<lambda>vi. case resolve vi of Inr rp \<Rightarrow> Some rp | Inl _ \<Rightarrow> None) vs,
      concat (map (\<lambda>vi. case resolve vi of
         Inr rp \<Rightarrow> (case check_deprecated rp of Some e \<Rightarrow> [e] | None \<Rightarrow> [])
       | Inl e \<Rightarrow> [e]) vs))"

definition cross_ref_errors ::
  "agm_file \<Rightarrow> import_entry list \<Rightarrow> 'v resolved_package list \<Rightarrow> string \<Rightarrow> node \<Rightarrow> agm_error list" where
  "cross_ref_errors f entries pkgs file n =
     concat (map (\<lambda>ref.
       if ref \<in> file_ids f \<or> \<not> list_ex (\<lambda>imp. in_package ref (imp_package imp)) entries then []
       else case resolve_cross_package_ref ref pkgs of
         Inr _ \<Rightarrow> []
       | Inl e \<Rightarrow> [e\<lparr>err_location := node_location file n\<rparr>]) (collect_all_refs n))"

text \<open>\<open>None\<close> is running out of fuel in the search for circular imports.\<close>

definition validate_imports ::
  "nat \<Rightarrow> ('v, 'r) semver \<Rightarrow> ('r validated_import \<Rightarrow> agm_error + 'v resolved_package) \<Rightarrow> agm_file \<Rightarrow> string \<Rightarrow>
   agm_error list option" where
  "validate_imports fuel sv resolve f file =
     (case h_imports (f_header f) of
        None \<Rightarrow> Some []
      | Some entries \<Rightarrow>
          (let (validated, constraint_errors) = validate_all_imports sv entries;
               (pkgs, resolve_errors) = resolve_imports resolve validated in
           map_option (\<lambda>circular.
             constraint_errors @ resolve_errors @ errors_of circular @
             concat (map (cross_ref_errors f entries pkgs file) (f_nodes f)))
             (detect_circular_imports fuel sv resolve (h_package (f_header f)) validated)))"

section \<open>The validator\<close>

datatype validation_scope = ScopeFile | ScopeSingleNode

record ('v, 'r) validate_options =
  vo_level :: enforcement_level
  vo_resolver :: "('r validated_import \<Rightarrow> agm_error + 'v resolved_package) option"
  vo_scope :: validation_scope

definition validate_options_default :: "('v, 'r) validate_options" where
  "validate_options_default = \<lparr>vo_level = EnfStandard, vo_resolver = None, vo_scope = ScopeFile\<rparr>"

fun severity_rank :: "severity \<Rightarrow> nat" where
  "severity_rank SevError = 0"
| "severity_rank SevWarning = 1"
| "severity_rank SevInfo = 2"

definition sort_diagnostics :: "agm_error list \<Rightarrow> agm_error list" where
  "sort_diagnostics =
     sort_key (\<lambda>e. (case loc_line (err_location e) of Some k \<Rightarrow> k | None \<Rightarrow> 0, severity_rank (err_severity e)))"

text \<open>Pass 3: the structure of one node.\<close>

definition validate_structure :: "string set \<Rightarrow> string set \<Rightarrow> string \<Rightarrow> bool \<Rightarrow> node \<Rightarrow> agm_error list" where
  "validate_structure all_ids all_topics file single_node n =
     validate_code n file @ validate_verify n all_ids file single_node @
     validate_context n all_ids all_topics file single_node @ validate_orchestration n all_ids file single_node @
     validate_execution n file @ validate_memory n file @ validate_ticket n file"

definition memory_topics :: "agm_file \<Rightarrow> string set" where
  "memory_topics f = set (concat (map (\<lambda>n. map me_topic (unwrap_list (n_memory n))) (f_nodes f)))"

definition validate_passes ::
  "nat \<Rightarrow> ('v, 'r) semver \<Rightarrow> agm_file \<Rightarrow> string \<Rightarrow> ('v, 'r) validate_options \<Rightarrow> agm_error list option" where
  "validate_passes fuel sv f file opts =
     (let single_node = (vo_scope opts = ScopeSingleNode) in
      map_option (\<lambda>import_errors.
        validate_file f file @
        validate_node_ids (f_nodes f) file @
        concat (map (\<lambda>n. validate_node n (file_ids f) file) (f_nodes f)) @
        concat (map (validate_structure (file_ids f) (memory_topics f) file single_node) (f_nodes f)) @
        concat (map (\<lambda>n. validate_type_schema n (vo_level opts) file) (f_nodes f)) @
        (if f_nodes f = [] \<or> single_node then []
         else validate_references f (file_ids f) file @ validate_cycles f file @ validate_compatibility f file) @
        import_errors)
        (case vo_resolver opts of None \<Rightarrow> Some [] | Some resolve \<Rightarrow> validate_imports fuel sv resolve f file))"

definition validate ::
  "nat \<Rightarrow> ('v, 'r) semver \<Rightarrow> agm_file \<Rightarrow> string \<Rightarrow> string \<Rightarrow> ('v, 'r) validate_options \<Rightarrow> diagnostic_collection option" where
  "validate fuel sv f src file opts =
     map_option (\<lambda>errors. collection_extend (sort_diagnostics errors) (collection_new file src)) (validate_passes fuel sv f file opts)"

section \<open>What the checks establish\<close>

abbreviation ok :: "agm_error list \<Rightarrow> bool" where
  "ok es \<equiv> \<not> list_ex is_error es"

lemma ok_append [simp]: "ok (xs @ ys) \<longleftrightarrow> ok xs \<and> ok ys"
  by auto

lemma ok_concat_map: "ok (concat (map g xs)) \<longleftrightarrow> (\<forall>x \<in> set xs. ok (g x))"
  by (induction xs) auto

lemma warn_ok [simp]: "\<not> is_error (warn c m l)"
  by (simp add: warn_def)

lemma map_of_rev_distinct: "distinct (map fst xs) \<Longrightarrow> map_of (rev xs) = map_of xs"
  by (rule map_of_inject_set [THEN iffD2]) (simp_all flip: rev_map)

lemma node_id_checks_ok:
  "ok (node_id_checks seen ns file) \<longleftrightarrow>
     distinct (map n_id ns) \<and> (\<forall>n \<in> set ns. seen (n_id n) = None \<and> node_id_ok (n_id n))"
proof (induction ns arbitrary: seen)
  case (Cons n ns)
  have "(\<forall>m \<in> set ns. (seen(n_id n \<mapsto> k)) (n_id m) = None) \<longleftrightarrow>
      n_id n \<notin> n_id ` set ns \<and> (\<forall>m \<in> set ns. seen (n_id m) = None)" for k
    by (auto simp: image_iff)
  then show ?case by (auto simp: Cons Let_def ball_conj_distrib split: option.split)
qed simp

lemma unwrap_list_simps [simp]: "unwrap_list None = []" "unwrap_list (Some xs) = xs"
  by (simp_all add: unwrap_list_def)

lemma map_of_nodes:
  assumes "distinct (map n_id ns)"
  shows "map_of (rev (map (\<lambda>n. (n_id n, g n)) ns)) i = Some x \<longleftrightarrow> (\<exists>n \<in> set ns. n_id n = i \<and> x = g n)"
proof -
  have d: "distinct (map fst (map (\<lambda>n. (n_id n, g n)) ns))" using assms by (simp add: o_def)
  then show ?thesis by (auto simp: map_of_rev_distinct [OF d] map_of_eq_Some_iff [OF d])
qed

lemma depends_graph_edges:
  assumes "distinct (map n_id (f_nodes f))"
  shows "edges (build_depends_graph f) = dep_rel f"
proof (rule set_eqI, clarify)
  fix a b
  have "(a, b) \<in> edges (build_depends_graph f) \<longleftrightarrow> (\<exists>xs. build_depends_graph f a = Some xs \<and> b \<in> set xs)"
    by (cases "build_depends_graph f a") (auto simp: edges_def)
  also have "\<dots> \<longleftrightarrow> (a, b) \<in> dep_rel f"
    using assms by (auto simp: build_depends_graph_def map_of_nodes declared_def targets_of_def)
  finally show "(a, b) \<in> edges (build_depends_graph f) \<longleftrightarrow> (a, b) \<in> dep_rel f" .
qed

lemma map_of_rev_dom: "map_of (rev (map (\<lambda>x. (key x, g x)) xs)) i \<noteq> None \<longleftrightarrow> i \<in> key ` set xs"
  by (induction xs rule: rev_induct) auto

lemma map_of_rev_range: "map_of (rev (map (\<lambda>x. (key x, g x)) xs)) i = Some y \<Longrightarrow> \<exists>x \<in> set xs. y = g x"
  by (induction xs rule: rev_induct) (auto split: if_splits)

lemma depends_search:
  obtains errors where "search_cycles report (build_depends_graph f) (map n_id (f_nodes f)) = Some errors"
    and "errors = [] \<longleftrightarrow> acyclic (edges (build_depends_graph f))"
    and "\<And>e. e \<in> set errors \<Longrightarrow> \<exists>w. e = report w \<and> cycle_walk (edges (build_depends_graph f)) w"
proof (rule search_cycles_exact [of "build_depends_graph f" "map n_id (f_nodes f)" report])
  show "set (unwrap_list (build_depends_graph f a)) \<subseteq> set (map n_id (f_nodes f))" for a
    by (cases "build_depends_graph f a")
      (auto simp: build_depends_graph_def file_ids_def dest!: map_of_rev_range)
  show "build_depends_graph f a = None" if "a \<notin> set (map n_id (f_nodes f))" for a
    using that map_of_rev_dom [of n_id _ "f_nodes f" a] by (auto simp: build_depends_graph_def)
qed (use that in blast)

lemma cycles_exact:
  assumes "distinct (map n_id (f_nodes f))" and "petgraph_ok pg"
  shows "(validate_cycles f file = [] \<longleftrightarrow> acyclic (dep_rel f)) \<and>
    (validate_cycles f file = [] \<longleftrightarrow> (\<exists>order. topological_sort pg (build_graph f) = Inr order)) \<and>
    (\<forall>e \<in> set (validate_cycles f file). \<exists>w. e = depends_cycle_error f file w \<and> cycle_walk (dep_rel f) w)"
proof -
  obtain errors where e: "search_cycles (depends_cycle_error f file) (build_depends_graph f) (map n_id (f_nodes f)) = Some errors"
    and exact: "errors = [] \<longleftrightarrow> acyclic (dep_rel f)"
    and sound: "\<And>x. x \<in> set errors \<Longrightarrow> \<exists>w. x = depends_cycle_error f file w \<and> cycle_walk (dep_rel f) w"
    using depends_search [of "depends_cycle_error f file" f] depends_graph_edges [OF assms(1)] by metis
  have "f_nodes f = [] \<Longrightarrow> dep_rel f = {}" by (auto simp: declared_def)
  then have nil: "validate_cycles f file = [] \<longleftrightarrow> acyclic (dep_rel f)"
    using e exact by (auto simp: validate_cycles_def acyclic_def)
  moreover have "acyclic (dep_rel f) \<longleftrightarrow> (\<exists>order. topological_sort pg (build_graph f) = Inr order)"
    using topological_sort_Inl [OF assms(2) build_graph_props(1), of f] topological_sort_Inr [OF assms(2) build_graph_props(1), of f]
    by (cases "topological_sort pg (build_graph f)") (auto simp: build_graph_props(3))
  moreover have "\<forall>x \<in> set (validate_cycles f file). \<exists>w. x = depends_cycle_error f file w \<and> cycle_walk (dep_rel f) w"
    using e sound by (auto simp: validate_cycles_def)
  ultimately show ?thesis by blast
qed

text \<open>C7: On a file with distinct identifiers the cycle check of the validator reports an error exactly
when the dependencies of the nodes have a cycle, and every error it reports names a closed chain of
dependencies; it agrees with the topological sort of the graph, which is another algorithm.\<close>

theorem validate_cycles_exact:
  assumes "distinct (map n_id (f_nodes f))" and "petgraph_ok pg"
  shows "(validate_cycles f file = [] \<longleftrightarrow> acyclic (dep_rel f)) \<and>
    (validate_cycles f file = [] \<longleftrightarrow> (\<exists>order. topological_sort pg (build_graph f) = Inr order)) \<and>
    (\<forall>e \<in> set (validate_cycles f file). \<exists>w. e = depends_cycle_error f file w \<and> cycle_walk (dep_rel f) w)"
  using assms by (rule cycles_exact)

section \<open>Groups\<close>

lemma map_of_groups:
  assumes "distinct (map pg_group groups)"
  shows "map_of (rev (map (\<lambda>g. (pg_group g, h g)) groups)) i = Some x \<longleftrightarrow> (\<exists>g \<in> set groups. pg_group g = i \<and> x = h g)"
proof -
  have d: "distinct (map fst (map (\<lambda>g. (pg_group g, h g)) groups))" using assms by (simp add: o_def)
  then show ?thesis by (auto simp: map_of_rev_distinct [OF d] map_of_eq_Some_iff [OF d])
qed

lemma requires_graph_edges:
  assumes "distinct (map pg_group groups)" and "snd ` requires_rel groups \<subseteq> set (map pg_group groups)"
  shows "edges (requires_graph groups) = requires_rel groups"
proof (rule set_eqI, clarify)
  fix a b
  have known: "b \<in> pg_group ` set groups" if "g \<in> set groups" "pg_group g = a" "b \<in> set (unwrap_list (pg_requires g))" for g
    using assms(2) that by (force simp: requires_rel_def needs_def)
  have "(a, b) \<in> edges (requires_graph groups) \<longleftrightarrow> (\<exists>xs. requires_graph groups a = Some xs \<and> b \<in> set xs)"
    by (cases "requires_graph groups a") (auto simp: edges_def)
  also have "\<dots> \<longleftrightarrow> (a, b) \<in> requires_rel groups"
    using assms(1) known by (auto simp: requires_graph_def map_of_groups requires_rel_def needs_def)
  finally show "(a, b) \<in> edges (requires_graph groups) \<longleftrightarrow> (a, b) \<in> requires_rel groups" .
qed

lemma requires_search:
  obtains errors where "search_cycles report (requires_graph groups) (map pg_group groups) = Some errors"
    and "errors = [] \<longleftrightarrow> acyclic (edges (requires_graph groups))"
    and "\<And>e. e \<in> set errors \<Longrightarrow> \<exists>w. e = report w"
proof (rule search_cycles_exact [of "requires_graph groups" "map pg_group groups" report])
  show "set (unwrap_list (requires_graph groups a)) \<subseteq> set (map pg_group groups)" for a
    by (cases "requires_graph groups a") (auto simp: requires_graph_def dest!: map_of_rev_range)
  show "requires_graph groups a = None" if "a \<notin> set (map pg_group groups)" for a
    using that map_of_rev_dom [of pg_group _ groups a] by (auto simp: requires_graph_def)
qed (use that in blast)

lemma resolve_group_order_found:
  assumes "distinct (map pg_group groups)" and "snd ` requires_rel groups \<subseteq> set (map pg_group groups)"
    and "acyclic (requires_rel groups)"
  shows "\<exists>order. resolve_group_order groups = Some (Inr order)"
proof -
  have "set (needs groups g) \<subseteq> group_names groups" for g
    using assms(2) by (force simp: requires_rel_def group_names_def)
  then show ?thesis
    using resolve_group_order_spec [of groups] assms(1,3) by (elim exE conjE) (case_tac res; auto)
qed

lemma default_severities [simp]:
  "default_severity V003 = SevError" "default_severity V004 = SevError" "default_severity V005 = SevError"
  "default_severity V018 = SevError" "default_severity V019 = SevError" "default_severity V021 = SevError"
  "default_severity P001 = SevError" "default_severity P008 = SevError" "default_severity V002 = SevError"
  by simp_all

lemma orchestration_ok:
  assumes "ok (validate_orchestration n ids file False)" and "n_parallel_groups n = Some groups"
  shows "snd ` requires_rel groups \<subseteq> set (map pg_group groups)" "acyclic (edges (requires_graph groups))"
    "\<forall>g \<in> set groups. pg_nodes g \<noteq> [] \<and> set (pg_nodes g) \<subseteq> ids"
proof -
  have g: "\<forall>g \<in> set groups. ok (validate_group groups ids n (node_location file n) False g)"
    and c: "ok (detect_requires_cycles groups n file)"
    using assms by (auto simp: validate_orchestration_def Let_def ok_concat_map)
  have names: "ref \<in> pg_group ` set groups" if "g \<in> set groups" "ref \<in> set (unwrap_list (pg_requires g))" for g ref
  proof -
    have "ok (validate_group groups ids n (node_location file n) False g)" using g that(1) by blast
    then show ?thesis using that(2) by (auto simp: validate_group_def ok_concat_map split: if_splits)
  qed
  then show "snd ` requires_rel groups \<subseteq> set (map pg_group groups)"
    by (auto simp: requires_rel_def needs_def)
  show "\<forall>g \<in> set groups. pg_nodes g \<noteq> [] \<and> set (pg_nodes g) \<subseteq> ids"
    using g by (auto simp: validate_group_def ok_concat_map split: if_splits)
  obtain errors where e: "search_cycles (requires_cycle_error n file) (requires_graph groups) (map pg_group groups) = Some errors"
    "errors = [] \<longleftrightarrow> acyclic (edges (requires_graph groups))" "\<And>x. x \<in> set errors \<Longrightarrow> \<exists>w. x = requires_cycle_error n file w"
    using requires_search by blast
  then have "ok errors" using c by (simp add: detect_requires_cycles_def)
  moreover have "is_error x" if "x \<in> set errors" for x using e(3) [OF that] by (auto simp: requires_cycle_error_def)
  ultimately have "errors = []" by (cases errors) auto
  then show "acyclic (edges (requires_graph groups))" using e(2) by simp
qed

section \<open>Accepted files\<close>

lemma sort_diagnostics_ok [simp]: "ok (sort_diagnostics es) = ok es"
  by (simp add: sort_diagnostics_def list_ex_iff)

lemma validate_accepts:
  assumes "validate fuel sv f src file opts = Some dc" and "\<not> has_errors dc"
  obtains es where "validate_passes fuel sv f file opts = Some es" "ok es"
proof -
  obtain es where es: "validate_passes fuel sv f file opts = Some es"
    and dc: "dc = collection_extend (sort_diagnostics es) (collection_new file src)"
    using assms(1) by (auto simp: validate_def)
  then have "ok es" using assms(2) by (simp add: has_errors_def collection_extend_def collection_new_def)
  then show thesis using that es by blast
qed

lemma accepted_passes:
  assumes "validate_passes fuel sv f file opts = Some es" and "ok es" and "vo_scope opts = ScopeFile"
  shows "ok (validate_file f file)" "ok (validate_node_ids (f_nodes f) file)"
    "\<forall>n \<in> set (f_nodes f). ok (validate_node n (file_ids f) file)"
    "\<forall>n \<in> set (f_nodes f). ok (validate_structure (file_ids f) (memory_topics f) file False n)"
    "\<forall>n \<in> set (f_nodes f). schema_ok (vo_level opts) n"
    "f_nodes f \<noteq> [] \<Longrightarrow> ok (validate_references f (file_ids f) file) \<and> ok (validate_cycles f file)"
  using assms
  by (auto simp: validate_passes_def Let_def ok_concat_map validate_type_schema_def validate_schema_errors split: if_splits)

lemma check_refs_ok:
  "ok (check_refs refs field n f ids file) \<longleftrightarrow> (\<forall>r \<in> set (unwrap_list refs). r \<in> ids \<or> looks_like_cross_package_ref r f)"
  by (auto simp: check_refs_def ok_concat_map)

text \<open>What a run needs of a file: identifiers that are distinct and well formed, nodes, dependencies
  without a cycle, references that are defined or belong to an import, and groups of nodes that exist
  and have an order.\<close>

definition file_runnable :: "relation_kind petgraph \<Rightarrow> agm_file \<Rightarrow> bool" where
  "file_runnable pg f \<longleftrightarrow>
     f_nodes f \<noteq> [] \<and> distinct (map n_id (f_nodes f)) \<and>
     (\<exists>order. topological_sort pg (build_graph f) = Inr order) \<and>
     (\<forall>n \<in> set (f_nodes f).
        node_id_ok (n_id n) \<and> n_summary n \<noteq> [] \<and>
        (\<forall>k. \<forall>r \<in> set (targets_of k n). r \<in> file_ids f \<or> looks_like_cross_package_ref r f) \<and>
        (\<forall>groups. n_parallel_groups n = Some groups \<longrightarrow>
           (\<forall>g \<in> set groups. pg_nodes g \<noteq> [] \<and> set (pg_nodes g) \<subseteq> file_ids f) \<and>
           (distinct (map pg_group groups) \<longrightarrow> (\<exists>order. resolve_group_order groups = Some (Inr order)))))"

text \<open>C5: A file the validator accepts can be run: its identifiers are distinct and well formed, its
nodes have a topological order, every reference is to a node of the file or of an imported package,
and every list of groups with distinct names has an order of its groups, over nodes that exist.\<close>

theorem validated_file_runs:
  assumes "validate fuel sv f src file opts = Some dc" and "\<not> has_errors dc" and "vo_scope opts = ScopeFile"
    and "petgraph_ok pg"
  shows "file_runnable pg f"
proof -
  obtain es where es: "validate_passes fuel sv f file opts = Some es" "ok es"
    using validate_accepts [OF assms(1,2)] .
  note pass = accepted_passes [OF es assms(3)]
  have ne: "f_nodes f \<noteq> []" using pass(1) by (auto simp: validate_file_def Let_def split: if_splits)
  have ids: "distinct (map n_id (f_nodes f))" "\<forall>n \<in> set (f_nodes f). node_id_ok (n_id n)"
    using pass(2) by (auto simp: validate_node_ids_def node_id_checks_ok)
  have exact: "(validate_cycles f file = [] \<longleftrightarrow> (\<exists>order. topological_sort pg (build_graph f) = Inr order)) \<and>
    (\<forall>e \<in> set (validate_cycles f file). \<exists>w. e = depends_cycle_error f file w)"
    using cycles_exact [OF ids(1) assms(4)] by blast
  have "is_error e" if "e \<in> set (validate_cycles f file)" for e
    using exact that by (auto simp: depends_cycle_error_def)
  then have "validate_cycles f file = []"
    using pass(6) [OF ne] by (cases "validate_cycles f file") auto
  then have order: "\<exists>order. topological_sort pg (build_graph f) = Inr order" using exact by blast
  have refs: "r \<in> file_ids f \<or> looks_like_cross_package_ref r f" if "n \<in> set (f_nodes f)" "r \<in> set (targets_of k n)" for n k r
    using pass(6) [OF ne] that by (cases k) (auto simp: validate_references_def ok_concat_map check_refs_ok targets_of_def)
  have summary: "n_summary n \<noteq> []" if "n \<in> set (f_nodes f)" for n
    using pass(3) that by (auto simp: validate_node_def Let_def split: if_splits)
  have groups: "(\<forall>g \<in> set groups. pg_nodes g \<noteq> [] \<and> set (pg_nodes g) \<subseteq> file_ids f) \<and>
      (distinct (map pg_group groups) \<longrightarrow> (\<exists>order. resolve_group_order groups = Some (Inr order)))"
    if "n \<in> set (f_nodes f)" "n_parallel_groups n = Some groups" for n groups
  proof -
    have "ok (validate_orchestration n (file_ids f) file False)" using pass(4) that(1) by (auto simp: validate_structure_def)
    note o = orchestration_ok [OF this that(2)]
    have "\<exists>order. resolve_group_order groups = Some (Inr order)" if d: "distinct (map pg_group groups)"
      using resolve_group_order_found [OF d o(1)] o(2) requires_graph_edges [OF d o(1)] by simp
    then show ?thesis using o(3) by blast
  qed
  show ?thesis unfolding file_runnable_def using ne ids order refs summary groups by blast
qed

section \<open>What the validator misses\<close>

text \<open>Two groups of the same name pass the check of the groups, and a run by groups cannot order them:
it reports a cycle that is none.\<close>

lemma duplicate_groups_accepted:
  assumes "trim (pg_group g) \<noteq> []" and "pg_nodes g \<noteq> []" and "set (pg_nodes g) \<subseteq> ids" and "pg_requires g = None"
    and "n_parallel_groups n = Some [g, g]"
  shows "validate_orchestration n ids file single_node = [] \<and> (\<exists>e. resolve_group_order [g, g] = Some (Inl e))"
proof
  have "validate_group [g, g] ids n (node_location file n) single_node g = []"
    using assms(1-4) by (auto simp: validate_group_def)
  moreover have "detect_requires_cycles [g, g] n file = []"
    using assms(4) by (simp add: detect_requires_cycles_def search_cycles_def requires_graph_def enter_def leave_def)
  ultimately show "validate_orchestration n ids file single_node = []"
    using assms(5) by (simp add: validate_orchestration_def)
  show "\<exists>e. resolve_group_order [g, g] = Some (Inl e)"
    using resolve_group_order_spec [of "[g, g]"] by (elim exE conjE) (case_tac res; simp)
qed

section \<open>Witnesses\<close>

definition sample_semver :: "(string, string) semver" where
  "sample_semver =
     \<lparr>sv_version = Some, sv_req = Inr, sv_matches = (=), sv_less = (<), sv_show = (\<lambda>v. v)\<rparr>"

definition valid_file :: agm_file where
  "valid_file =
     \<lparr>f_header = header_empty\<lparr>h_agm := ''1.0'', h_package := ''p'', h_version := ''0.1.0''\<rparr>,
      f_nodes =
        [(default_node ''a'' 4)\<lparr>n_summary := ''one'', n_depends := Some [''b'']\<rparr>,
         (default_node ''b'' 7)\<lparr>n_summary := ''two''\<rparr>]\<rparr>"

lemma valid_file_accepted:
  "map_option has_errors (validate 0 sample_semver valid_file [] ''f.agm'' validate_options_default) = Some False"
  by code_simp

theorem validated_file_runs_witness: "file_runnable pg_ref valid_file"
proof -
  obtain dc where "validate 0 sample_semver valid_file [] ''f.agm'' validate_options_default = Some dc" "\<not> has_errors dc"
    using valid_file_accepted by auto
  then show ?thesis
    by (rule validated_file_runs) (simp_all add: validate_options_default_def pg_ref_ok)
qed

theorem validate_cycles_exact_witness:
  "validate_cycles sample_loop ''f'' \<noteq> [] \<and> \<not> acyclic (dep_rel sample_loop)"
proof -
  have "validate_cycles sample_loop ''f'' \<noteq> []" by code_simp
  moreover have "distinct (map n_id (f_nodes sample_loop))" by code_simp
  ultimately show ?thesis using validate_cycles_exact [of sample_loop pg_ref "''f''"] pg_ref_ok by blast
qed

definition twin_group :: parallel_group where
  "twin_group = \<lparr>pg_group = ''g'', pg_nodes = [''a''], pg_strategy = Sequential, pg_requires = None, pg_max_concurrency = None\<rparr>"

theorem duplicate_groups_accepted_witness:
  "validate_orchestration (node_default\<lparr>n_parallel_groups := Some [twin_group, twin_group]\<rparr>) {''a''} ''f'' False = [] \<and>
   (\<exists>e. resolve_group_order [twin_group, twin_group] = Some (Inl e))"
proof -
  have "trim (pg_group twin_group) \<noteq> []" by code_simp
  then show ?thesis by (rule duplicate_groups_accepted) (simp_all add: twin_group_def)
qed

end
