(* ===== verification/Spec2Isabelle.thy ===== *)
theory Spec2Isabelle
  imports Canonical_Roundtrip Diff_Facts Repair_Facts Json_Roundtrip Normalize_Facts Group_Run Shell_Agent Loader Markdown Parsed_File Validator
begin

text \<open>
  The program reads files in the AGM format, text files whose nodes describe facts, rules,
  workflows, code blocks and checks for coding agents, and runs them. Two crates are modelled:
  \<open>crates/agm-core\<close> (parsing, validation, graph, loading, rendering, the sidecar formats) and
  \<open>crates/agm-cli/src/runtime\<close> (tracker, memory, verifier, agents, context, scheduler).

  \<^bold>\<open>How the parts interact.\<close> A source text is lexed and parsed to a file with a header and
  nodes, in one go or as a stream of chunks. The validator checks the file: formats, references,
  cycles, type schemas, imports. A file that passes is loaded in a mode, rendered, or run: the
  scheduler asks the dependency graph for an order, keeps the status of every node in the
  execution tracker, builds the context of a node from the file and the memory runtime, gives it
  to an agent, has the node's checks decided by the verifier, and lets the tracker write the
  state sidecar and the memory runtime write the memory sidecar.

  \<^bold>\<open>Theories and code.\<close>

  Foundations. \<open>Prelude\<close>: results, sorted maps for \<open>BTreeMap\<close>, folds with errors, the hints.
  \<open>Rust_Str\<close>: the operations of Rust's \<open>str\<close> and integer parsing on strings as lists of UTF-8
  bytes. \<open>Utf8\<close>: characters, slices at character boundaries, case conversion. \<open>Diagnostics\<close>:
  \<open>error/codes.rs\<close>, \<open>error/diagnostic.rs\<close>. \<open>Model_Fields\<close>, \<open>Model_Node\<close>: the data model,
  \<open>model/\<close>. \<open>Runtime_Env\<close>, \<open>Host\<close>: what the run time takes from the operating system.

  Parsing. \<open>Lexer\<close> (\<open>parser/lexer.rs\<close>), \<open>Parse_Fields\<close> (\<open>parser/fields.rs\<close>), \<open>Structured\<close>
  (\<open>parser/structured.rs\<close>), \<open>Node_Parser\<close> (\<open>parser/header.rs\<close>, \<open>parser/node.rs\<close>), \<open>Parser\<close>
  (\<open>parser/mod.rs\<close>, \<open>parser/stream.rs\<close>). \<open>Stream\<close> proves that the streaming parser agrees with
  the batch parser however the text is cut, and the order of its events; \<open>Parsed_File\<close> that an
  accepted file has the formats and spans it should have and exactly the declared nodes.

  Before parsing. \<open>Repair\<close> (\<open>repair/\<close>): the rules that clean up text. \<open>Repair_Facts\<close>: the contract
  of a rule as a locale that every built-in rule interprets, the safety net, and the form of the text
  that is let through. \<open>Normalize\<close> (\<open>normalize/\<close>) rewrites synonyms of types and fields;
  \<open>Normalize_Facts\<close>: one run is enough, and which value a second synonym loses.

  Graph. \<open>Digraph\<close>: directed graphs and what the program relies on of \<open>petgraph\<close>. \<open>Graph\<close>
  (\<open>graph/\<close>): construction, queries, cycles and the topological order. \<open>Cycle_Search\<close>: the
  three-colour search that the validator and the imports each write out.

  Validation. \<open>Type_Schema\<close> (\<open>schema/\<close>, \<open>model/schema.rs\<close>), \<open>Imports\<close> (\<open>import/\<close>,
  \<open>validator/imports.rs\<close>), \<open>Node_Checks\<close> and \<open>Validator\<close> (\<open>validator/\<close>). The cycle check is
  exact, and a file that passes can be run.

  Loading and rendering. \<open>Loader\<close> (\<open>loader/\<close>), \<open>Markdown\<close> (\<open>renderer/markdown.rs\<close>), \<open>Canonical\<close>
  (\<open>renderer/canonical.rs\<close>). \<open>Canonical_Lines\<close> to \<open>Canonical_Roundtrip\<close> prove that the canonical text
  parses back to the file: how the lexer reads a written line, how a loop of the parser reads a
  sequence of fields (a locale, interpreted for the header and for nodes), the structured fields,
  the nodes and the file, and where the renderer loses something. \<open>Diff\<close> (\<open>diff/\<close>) compares two
  files; \<open>Diff_Facts\<close> states what a comparison promises as a locale, interpreted from single
  fields up to whole files: the report is empty exactly when the files agree on what the diff
  looks at. \<open>Json\<close>, \<open>Json_Canonical\<close> (\<open>renderer/json_canonical.rs\<close>) and \<open>Json_Roundtrip\<close>: canonical JSON,
  and exactly what a file is after the way there and back.

  Sidecars. \<open>Sidecar\<close> (\<open>parser/sidecar.rs\<close>), \<open>State_Sidecar\<close> and \<open>Mem_Sidecar\<close>
  (\<open>parser/state.rs\<close>, \<open>parser/mem.rs\<close>, \<open>renderer/state.rs\<close>, \<open>renderer/mem.rs\<close>): round trips for
  the files the program writes, and where text can break out of its field.

  Run time. \<open>Tracker\<close> (\<open>runtime/state.rs\<close>): the state machine of node statuses and its file.
  \<open>Memory_Runtime\<close> (\<open>runtime/memory.rs\<close>): it implements one abstract store. \<open>Verifier\<close>
  (\<open>runtime/verifier.rs\<close>), \<open>Context\<close> (\<open>runtime/context.rs\<close>), \<open>Shell_Agent\<close>
  (\<open>runtime/agent.rs\<close>), \<open>Scheduler\<close>, \<open>Group_Order\<close> and \<open>Group_Run\<close> (\<open>runtime/scheduler.rs\<close>).
  \<open>Run_Effect\<close>, \<open>Run_Loop\<close> and \<open>Topological_Run\<close> show that serial and parallel dispatch
  refine one abstract machine, that a run returns, runs every node once after its dependencies,
  and leaves nothing undone that could be done.

  \<^bold>\<open>Conventions.\<close> A string is the list of its UTF-8 bytes. \<open>u8\<close>, \<open>u32\<close> and \<open>u64\<close> are words,
  \<open>usize\<close> is \<open>nat\<close> (it counts things in memory), durations are nanoseconds. A \<open>BTreeMap\<close> is an
  association list in key order, a \<open>HashMap\<close> that is only looked up is a map, one that is
  iterated takes its order from a parameter. \<open>Result\<close> is a sum with the error left. A parse
  function returns its value with the errors found, and the lines that are left. A panic, a loop
  without end and exhausted fuel are \<open>None\<close> of an outer option.

  \<^bold>\<open>Parameters.\<close> Code that is not in the repository is an argument of the definitions that use
  it, and what the program relies on is a named hypothesis: \<open>petgraph_ok\<close> (the algorithms of
  petgraph), \<open>hash_order_ok\<close> (iteration of a hash map lists its keys), \<open>clock_ok\<close>, \<open>io_ok\<close> and
  \<open>temp_fresh\<close> (clock and files), \<open>host\<close> and \<open>shell_host\<close> with \<open>links_kept\<close> (processes, directories and
  symbolic links), the agent,
  \<open>semver\<close> (the crate), \<open>package_dirs\<close> and the resolver (packages on disk), \<open>lower_ok\<close> and
  \<open>upper_ok\<close> (Unicode tables). Each hypothesis is met by a concrete function in the witnesses.

  \<^bold>\<open>Fuel.\<close> The cycle search of the validator has the number of identifiers as fuel, which is
  proved to be enough. The search for circular imports takes its fuel as an argument, since the
  packages on disk are a parameter. Runs, which may end in no state in general, are
  \<open>partial_function (option)\<close> and proved to return.

  \<^bold>\<open>Not modelled.\<close> The command line (\<open>main.rs\<close>, \<open>commands/\<close>), printing of diagnostics
  (\<open>error/output.rs\<close>), the language server (\<open>crates/agm-lsp\<close>) and the LLM bench are input and
  output around the parts above. The JSON schema export is a set of tables for third-party crates.
  The signed memory store rests on cryptographic crates. The compiler classifies Markdown sections by
  keyword tables and regular expressions; the builders and the ingest of JSON set fields of the data
  model one by one and end in the validator, which is modelled; the graph renderer prints the graph as
  text for other tools.
\<close>

end
